(* ===== verification/Awaken_Prelude.thy ===== *)
theory Awaken_Prelude
  imports
    Main
    "HOL-Library.Word"
    "HOL-Library.AList"
    "HOL-Library.Product_Lexorder"
    "HOL-Library.List_Lexorder"
    "HOL-Library.Char_ord"
    "HOL-Library.Sublist"
begin

text \<open>
  The vocabulary every component theory shares: the machine integers of the Rust code, the
  result of a fallible or panicking call, the part of the standard library's string and hash
  map interfaces that the sources use, and the generic lemmas about them.

  Conventions of the whole development:
  \<^item> \<open>u8\<close>, \<open>u16\<close>, \<open>u32\<close>, \<open>u64\<close> and \<open>usize\<close> are words of their width; \<open>+\<close> wraps as in a
    release build, and \<open>saturating_add\<close> and \<open>saturating_mul\<close> are written out.
  \<^item> A Rust string is a list of characters, each standing for a code point below 256; what the
    code asks about a character (white space, control) is the Unicode property in that range.
  \<^item> A \<open>Duration\<close> and an \<open>Instant\<close> are natural numbers of nanoseconds.
  \<^item> A \<open>HashMap\<close> is an association list with distinct keys. Its order is the iteration order,
    which Rust leaves open: theorems quantify over every list, hence over every order.
  \<^item> A method on \<open>&mut self\<close> returns its result paired with the new state, on the error
    paths too, because Rust keeps the writes made before an early return.
\<close>

section \<open>Machine integers\<close>

type_synonym u8 = "8 word"
type_synonym u16 = "16 word"
type_synonym u32 = "32 word"
type_synonym u64 = "64 word"
type_synonym usize = "64 word"

definition saturating_add :: "'a::len word \<Rightarrow> 'a word \<Rightarrow> 'a word" where
  "saturating_add a b = (if a + b < a then - 1 else a + b)"

definition saturating_mul :: "'a::len word \<Rightarrow> 'a word \<Rightarrow> 'a word" where
  "saturating_mul a b =
     (if unat a * unat b < 2 ^ LENGTH('a) then a * b else - 1)"

definition saturating_sub :: "'a::len word \<Rightarrow> 'a word \<Rightarrow> 'a word" where
  "saturating_sub a b = (if b \<le> a then a - b else 0)"

lemma unat_add_one: "a < m \<Longrightarrow> unat (a + 1) = Suc (unat a)" for a m :: "'a::len word"
  by (metis add.commute unatSuc add_eq_0_iff word_order.extremum_strict)

lemma saturating_add_one: "a < m \<Longrightarrow> saturating_add a 1 = a + 1" for a m :: "'a::len word"
  using unat_add_one [of a m] by (simp add: saturating_add_def word_less_nat_alt)

lemma saturating_add_one_le: "a < m \<Longrightarrow> saturating_add a 1 \<le> m" for a m :: "'a::len word"
  using unat_add_one [of a m] saturating_add_one [of a m]
  by (simp add: word_le_nat_alt word_less_nat_alt)

lemma le_add_one_word:
  fixes a e :: "'a::len word"
  assumes "a \<le> e" and "e \<noteq> - 1"
  shows "a \<le> e + 1" "e < e + 1"
proof -
  have "e < - 1" using assms(2) word_order.not_eq_extremum by blast
  then have "unat (e + 1) = Suc (unat e)" by (rule unat_add_one)
  then show "a \<le> e + 1" "e < e + 1"
    using assms(1) by (simp_all add: word_le_nat_alt word_less_nat_alt)
qed

lemma unat_max_word: "unat (- 1 :: 'a::len word) = 2 ^ LENGTH('a) - 1"
  by (transfer, simp add: nat_mask_eq mask_nat_def)

lemma unat_saturating_mul:
  "unat (saturating_mul a b) = min (unat a * unat b) (2 ^ LENGTH('a) - 1)"
  for a b :: "'a::len word"
  using unat_mult_lem [of a b]
  by (auto simp: saturating_mul_def unat_max_word min_def not_less intro: le_antisym dest: leD)

lemma unat_bound: "unat (a :: 'a::len word) < 2 ^ LENGTH('a)"
  by (rule unsigned_less)

section \<open>Results and panics\<close>

text \<open>
  The outcome of a Rust call: a value, an error value, or a panic (\<open>expect\<close> on an error,
  an index out of range). A stateful call returns its outcome beside the state it leaves.
\<close>

datatype ('a, 'e) outcome = Ok 'a | Err 'e | Panic string

fun is_panic :: "('a, 'e) outcome \<Rightarrow> bool" where
  "is_panic (Panic _) = True"
| "is_panic _ = False"

fun is_ok :: "('a, 'e) outcome \<Rightarrow> bool" where
  "is_ok (Ok _) = True"
| "is_ok _ = False"

text \<open>\<open>expect\<close>: the value, or a panic carrying the message.\<close>

fun expect :: "string \<Rightarrow> ('a, 'e) outcome \<Rightarrow> ('a, 'e) outcome" where
  "expect msg (Ok x) = Ok x"
| "expect msg (Err e) = Panic msg"
| "expect msg (Panic p) = Panic p"

text \<open>The question mark operator: continue with the value, or leave with the error.\<close>

fun and_then :: "('a, 'e) outcome \<Rightarrow> ('a \<Rightarrow> ('b, 'e) outcome) \<Rightarrow> ('b, 'e) outcome" where
  "and_then (Ok x) f = f x"
| "and_then (Err e) f = Err e"
| "and_then (Panic p) f = Panic p"

text \<open>\<open>Result::map\<close>.\<close>

fun map_ok :: "('a \<Rightarrow> 'b) \<Rightarrow> ('a, 'e) outcome \<Rightarrow> ('b, 'e) outcome" where
  "map_ok f (Ok x) = Ok (f x)"
| "map_ok f (Err e) = Err e"
| "map_ok f (Panic p) = Panic p"

lemma is_panic_map_ok [simp]: "is_panic (map_ok f r) = is_panic r"
  by (cases r) auto

lemma map_ok_eq_Ok_iff: "map_ok f r = Ok y \<longleftrightarrow> (\<exists>x. r = Ok x \<and> y = f x)"
  by (cases r) auto

lemma is_panic_and_then [simp]:
  "is_panic (and_then r f) \<longleftrightarrow> is_panic r \<or> (\<exists>x. r = Ok x \<and> is_panic (f x))"
  by (cases r) auto

lemma and_then_eq_Ok_iff: "and_then r f = Ok y \<longleftrightarrow> (\<exists>x. r = Ok x \<and> f x = Ok y)"
  by (cases r) auto

lemma expect_eq_Ok_iff [simp]: "expect msg r = Ok x \<longleftrightarrow> r = Ok x"
  by (cases r) auto

section \<open>Strings\<close>

text \<open>\<open>char::is_whitespace\<close> and \<open>char::is_control\<close> on the code points below 256.\<close>

definition is_whitespace :: "char \<Rightarrow> bool" where
  "is_whitespace c \<longleftrightarrow>
     (let n = (of_char c :: nat) in 9 \<le> n \<and> n \<le> 13 \<or> n = 32 \<or> n = 133 \<or> n = 160)"

definition is_control :: "char \<Rightarrow> bool" where
  "is_control c \<longleftrightarrow> (let n = (of_char c :: nat) in n < 32 \<or> 127 \<le> n \<and> n < 160)"

definition trim :: "string \<Rightarrow> string" where
  "trim s = rev (dropWhile is_whitespace (rev (dropWhile is_whitespace s)))"

text \<open>\<open>blank\<close> abbreviates the test \<open>value.trim().is_empty()\<close>.\<close>

definition blank :: "string \<Rightarrow> bool" where
  "blank s \<longleftrightarrow> trim s = []"

lemma blank_iff: "blank s \<longleftrightarrow> (\<forall>c \<in> set s. is_whitespace c)"
proof -
  have "blank s \<longleftrightarrow> (\<forall>c \<in> set (dropWhile is_whitespace s). is_whitespace c)"
    by (simp add: blank_def trim_def dropWhile_eq_Nil_conv)
  also have "\<dots> \<longleftrightarrow> (\<forall>c \<in> set s. is_whitespace c)"
    by (metis Un_iff dropWhile_eq_Nil_conv hd_dropWhile list.set_sel(1) empty_iff
        list.set(1) set_append takeWhile_dropWhile_id set_takeWhileD)
  finally show ?thesis .
qed

lemma trim_trim [simp]: "trim (trim s) = trim s"
proof -
  have 1: "dropWhile is_whitespace (trim s) = trim s"
  proof (cases "trim s")
    case (Cons c cs)
    define t where "t = dropWhile is_whitespace s"
    from Cons have ne: "t \<noteq> []" by (auto simp: trim_def t_def [symmetric])
    have pre: "prefix (trim s) t"
      by (metis t_def trim_def suffix_dropWhile suffix_to_prefix rev_rev_ident)
    with Cons have "hd t = c" by (cases t) auto
    moreover have "\<not> is_whitespace (hd t)"
      using ne hd_dropWhile t_def by blast
    ultimately show ?thesis using Cons by simp
  qed simp
  show ?thesis
    unfolding trim_def [of "trim s"] 1
    by (simp add: trim_def dropWhile_idem)
qed

text \<open>\<open>str::strip_prefix\<close> and \<open>str::trim_start_matches\<close>; the latter strips every repetition.\<close>

definition strip_prefix :: "string \<Rightarrow> string \<Rightarrow> string option" where
  "strip_prefix p s = (if prefix p s then Some (drop (length p) s) else None)"

function trim_start_matches :: "string \<Rightarrow> string \<Rightarrow> string" where
  "trim_start_matches p s =
     (if p \<noteq> [] \<and> prefix p s then trim_start_matches p (drop (length p) s) else s)"
  by pat_completeness auto
termination
  by (relation "measure (\<lambda>(p, s). length s)") (auto simp: prefix_def)

declare trim_start_matches.simps [simp del]

lemma strip_prefix_append [simp]: "strip_prefix p (p @ s) = Some s"
  by (simp add: strip_prefix_def)

lemma strip_prefix_eq_Some: "strip_prefix p s = Some t \<longleftrightarrow> s = p @ t"
  by (auto simp: strip_prefix_def prefix_def)

lemma trim_start_matches_append:
  "p \<noteq> [] \<Longrightarrow> trim_start_matches p (p @ s) = trim_start_matches p s"
  by (subst trim_start_matches.simps) simp

lemma trim_start_matches_id: "\<not> prefix p s \<Longrightarrow> trim_start_matches p s = s"
  by (subst trim_start_matches.simps) simp

lemma trim_start_matches_not_prefix:
  "p \<noteq> [] \<Longrightarrow> \<not> prefix p (trim_start_matches p s)"
proof (induction p s rule: trim_start_matches.induct)
  case (1 p s)
  then show ?case
    by (cases "prefix p s") (auto simp: trim_start_matches.simps [of p s])
qed

text \<open>A text between single quotes, as \<open>format!\<close> puts it into messages.\<close>

definition in_quotes :: "string \<Rightarrow> string" where
  "in_quotes s = [CHR 0x27] @ s @ [CHR 0x27]"

text \<open>\<open>str::len\<close>: the number of bytes in UTF-8, for code points below 256.\<close>

definition str_len :: "string \<Rightarrow> nat" where
  "str_len s = sum_list (map (\<lambda>c. if (of_char c :: nat) < 128 then 1 else 2) s)"

text \<open>\<open>str::as_bytes\<close>: UTF-8 of code points below 256.\<close>

definition utf8_char :: "char \<Rightarrow> u8 list" where
  "utf8_char c =
     (let n = (of_char c :: nat) in
      if n < 128 then [of_nat n] else [of_nat (192 + n div 64), of_nat (128 + n mod 64)])"

definition as_bytes :: "string \<Rightarrow> u8 list" where
  "as_bytes s = concat (map utf8_char s)"

text \<open>Decimal formatting of an unsigned number, as \<open>format!\<close> writes it.\<close>

definition digit :: "nat \<Rightarrow> char" where
  "digit n = char_of (48 + n)"

fun show_nat :: "nat \<Rightarrow> string" where
  "show_nat n = (if n < 10 then [digit n] else show_nat (n div 10) @ [digit (n mod 10)])"

declare show_nat.simps [simp del]

definition is_digit :: "char \<Rightarrow> bool" where
  "is_digit c \<longleftrightarrow> (let n = (of_char c :: nat) in 48 \<le> n \<and> n \<le> 57)"

lemma of_char_digit: "n < 10 \<Longrightarrow> of_char (digit n) = 48 + n"
  by (simp add: digit_def)

lemma digit_inject: "m < 10 \<Longrightarrow> n < 10 \<Longrightarrow> digit m = digit n \<longleftrightarrow> m = n"
  by (metis of_char_digit add_left_cancel)

lemma is_digit_digit: "n < 10 \<Longrightarrow> is_digit (digit n)"
  by (simp add: is_digit_def of_char_digit)

lemma show_nat_nonempty [simp]: "show_nat n \<noteq> []"
  by (subst show_nat.simps) simp

lemma show_nat_nonempty' [simp]: "[] \<noteq> show_nat n"
  by (metis show_nat_nonempty)

lemma set_show_nat: "c \<in> set (show_nat n) \<Longrightarrow> is_digit c"
proof (induction n rule: show_nat.induct)
  case (1 n)
  then show ?case
    by (cases "n < 10") (auto simp: show_nat.simps [of n] is_digit_digit)
qed

lemma show_nat_inject: "show_nat m = show_nat n \<longleftrightarrow> m = n"
proof
  show "show_nat m = show_nat n \<Longrightarrow> m = n"
  proof (induction m arbitrary: n rule: show_nat.induct)
    case (1 m)
    show ?case
    proof (cases "m < 10")
      case True
      with "1.prems" show ?thesis
        by (cases "n < 10") (auto simp: show_nat.simps [of m] show_nat.simps [of n] digit_inject)
    next
      case False
      with "1.prems" have n: "\<not> n < 10"
        by (auto simp: show_nat.simps [of m] show_nat.simps [of n] Cons_eq_append_conv)
      with False "1.prems" have "show_nat (m div 10) = show_nat (n div 10)"
        and "digit (m mod 10) = digit (n mod 10)"
        by (auto simp: show_nat.simps [of m] show_nat.simps [of n])
      then have "m div 10 = n div 10" and "m mod 10 = n mod 10"
        using "1.IH" [OF False] by (auto simp: digit_inject)
      then show ?thesis by (metis div_mult_mod_eq)
    qed
  qed
qed simp

section \<open>Lists\<close>

lemma set_map_filter: "set (List.map_filter f xs) = {y. \<exists>x \<in> set xs. f x = Some y}"
  by (force simp: List.map_filter_def)

section \<open>Hash maps\<close>

text \<open>
  \<open>get\<close> is \<^const>\<open>map_of\<close>, \<open>insert\<close> and writing through \<open>get_mut\<close> are
  \<^const>\<open>AList.update\<close>, \<open>remove\<close> is \<^const>\<open>AList.delete\<close>. \<open>hm_values\<close> lists the
  values in iteration order and \<open>hm_all\<close> states a property of every value.
\<close>

type_synonym ('k, 'v) hash_map = "('k \<times> 'v) list"

abbreviation hm_values :: "('k, 'v) hash_map \<Rightarrow> 'v list" where
  "hm_values m \<equiv> map snd m"

abbreviation hm_keys_distinct :: "('k, 'v) hash_map \<Rightarrow> bool" where
  "hm_keys_distinct m \<equiv> distinct (map fst m)"

definition hm_retain :: "('k \<Rightarrow> 'v \<Rightarrow> bool) \<Rightarrow> ('k, 'v) hash_map \<Rightarrow> ('k, 'v) hash_map" where
  "hm_retain p m = filter (\<lambda>(k, v). p k v) m"

definition hm_map_values :: "('v \<Rightarrow> 'v) \<Rightarrow> ('k, 'v) hash_map \<Rightarrow> ('k, 'v) hash_map" where
  "hm_map_values f m = map (\<lambda>(k, v). (k, f v)) m"

lemma map_of_hm_map_values [simp]: "map_of (hm_map_values f m) k = map_option f (map_of m k)"
  by (induction m) (auto simp: hm_map_values_def)

lemma map_fst_hm_map_values [simp]: "map fst (hm_map_values f m) = map fst m"
  by (induction m) (auto simp: hm_map_values_def)

lemma map_of_hm_retain:
  "hm_keys_distinct m \<Longrightarrow>
   map_of (hm_retain p m) k = (case map_of m k of None \<Rightarrow> None | Some v \<Rightarrow> if p k v then Some v else None)"
  by (induction m) (force simp: hm_retain_def split: option.splits dest: map_of_SomeD)+

lemma hm_keys_distinct_retain: "hm_keys_distinct m \<Longrightarrow> hm_keys_distinct (hm_retain p m)"
  by (simp add: hm_retain_def distinct_map_filter)

lemma hm_mem_iff: "hm_keys_distinct m \<Longrightarrow> (k, v) \<in> set m \<longleftrightarrow> map_of m k = Some v"
  by simp

text \<open>Lookups stay lookups: the library's rewriting of them to membership is switched off.\<close>

declare map_of_eq_Some_iff [simp del] Some_eq_map_of_iff [simp del] map_of_is_SomeI [simp del]

lemma hm_values_iff:
  "hm_keys_distinct m \<Longrightarrow> v \<in> set (hm_values m) \<longleftrightarrow> (\<exists>k. map_of m k = Some v)"
  by (force simp: hm_mem_iff [symmetric] image_iff)

lemma map_of_update [simp]:
  "map_of (AList.update k v m) k' = (if k' = k then Some v else map_of m k')"
  by (simp add: update_conv')

lemma update_fresh: "k \<notin> fst ` set m \<Longrightarrow> AList.update k v m = m @ [(k, v)]"
  by (induction m) auto

lemma map_of_delete_if: "map_of (AList.delete k m) k' = (if k' = k then None else map_of m k')"
  by (simp add: delete_conv')

lemma list_all_hm_iff:
  "hm_keys_distinct m \<Longrightarrow> list_all (\<lambda>(k, v). P k v) m \<longleftrightarrow> (\<forall>k v. map_of m k = Some v \<longrightarrow> P k v)"
  by (auto simp: list_all_iff hm_mem_iff)

lemma list_ex_hm_iff:
  "hm_keys_distinct m \<Longrightarrow> list_ex P (hm_values m) \<longleftrightarrow> (\<exists>k v. map_of m k = Some v \<and> P v)"
  by (force simp: list_ex_iff hm_mem_iff [symmetric])

text \<open>No two entries are related: a uniqueness constraint of a table.\<close>

definition hm_unique :: "('v \<Rightarrow> 'v \<Rightarrow> bool) \<Rightarrow> ('k, 'v) hash_map \<Rightarrow> bool" where
  "hm_unique R m \<longleftrightarrow> (\<forall>(k1, v1) \<in> set m. \<forall>(k2, v2) \<in> set m. R v1 v2 \<longrightarrow> k1 = k2)"

lemma hm_unique_iff:
  "hm_keys_distinct m \<Longrightarrow>
   hm_unique R m \<longleftrightarrow> (\<forall>k1 k2 v1 v2. map_of m k1 = Some v1 \<longrightarrow> map_of m k2 = Some v2 \<longrightarrow> R v1 v2 \<longrightarrow> k1 = k2)"
  by (auto simp: hm_unique_def split_beta hm_mem_iff Ball_def)

lemma hm_uniqueD:
  "hm_unique R m \<Longrightarrow> map_of m k1 = Some v1 \<Longrightarrow> map_of m k2 = Some v2 \<Longrightarrow> R v1 v2 \<Longrightarrow> k1 = k2"
  by (force simp: hm_unique_def dest!: map_of_SomeD)

text \<open>A table all of whose related entries come from related entries of a constrained one.\<close>

lemma hm_unique_back:
  assumes "hm_unique R m" and "hm_keys_distinct m'"
    and "\<And>k1 k2 v1 v2. map_of m' k1 = Some v1 \<Longrightarrow> map_of m' k2 = Some v2 \<Longrightarrow> R v1 v2 \<Longrightarrow> k1 \<noteq> k2 \<Longrightarrow>
      \<exists>u1 u2. map_of m k1 = Some u1 \<and> map_of m k2 = Some u2 \<and> R u1 u2"
  shows "hm_unique R m'"
  unfolding hm_unique_iff [OF assms(2)]
proof (intro allI impI)
  fix k1 k2 v1 v2
  assume "map_of m' k1 = Some v1" and "map_of m' k2 = Some v2" and "R v1 v2"
  then show "k1 = k2" using assms(3) hm_uniqueD [OF assms(1)] by metis
qed

lemma hm_unique_length:
  assumes "hm_unique R m" and "hm_keys_distinct m" and "\<And>v1 v2. P v1 \<Longrightarrow> P v2 \<Longrightarrow> R v1 v2"
  shows "length (filter P (hm_values m)) \<le> 1"
proof -
  define xs where "xs = filter (P \<circ> snd) m"
  have d: "distinct (map fst xs)" unfolding xs_def using assms(2) by (rule distinct_map_filter)
  have e: "fst x = fst y" if "x \<in> set xs" "y \<in> set xs" for x y
  proof -
    have "R (snd x) (snd y)" "x \<in> set m" "y \<in> set m"
      using that assms(3) by (simp_all add: xs_def)
    with assms(1) show ?thesis by (force simp: hm_unique_def)
  qed
  have "length xs \<le> 1"
  proof (cases xs)
    case (Cons x ys)
    show ?thesis
    proof (cases ys)
      case (Cons y zs)
      with \<open>xs = x # ys\<close> have "fst x = fst y" by (intro e) simp_all
      with d \<open>xs = x # ys\<close> Cons show ?thesis by simp
    qed (simp add: Cons)
  qed simp
  then show ?thesis by (simp add: xs_def filter_map)
qed

lemma hm_unique_map_values:
  "hm_unique R m \<Longrightarrow> (\<And>v1 v2. R (f v1) (f v2) \<Longrightarrow> R v1 v2) \<Longrightarrow> hm_unique R (hm_map_values f m)"
  by (fastforce simp: hm_unique_def hm_map_values_def)

lemma hm_unique_update:
  assumes "hm_unique R m" and "hm_keys_distinct m"
    and "\<And>k' v'. map_of m k' = Some v' \<Longrightarrow> k' \<noteq> k \<Longrightarrow> \<not> R v v' \<and> \<not> R v' v"
  shows "hm_unique R (AList.update k v m)"
proof (rule hm_unique_back [OF assms(1)])
  show "hm_keys_distinct (AList.update k v m)"
    by (simp add: assms(2) distinct_update)
  fix k1 k2 v1 v2
  assume "map_of (AList.update k v m) k1 = Some v1" and "map_of (AList.update k v m) k2 = Some v2"
    and "R v1 v2" and "k1 \<noteq> k2"
  then show "\<exists>u1 u2. map_of m k1 = Some u1 \<and> map_of m k2 = Some u2 \<and> R u1 u2"
    using assms(3) by (simp split: if_splits)
qed

text \<open>A \<open>for\<close> loop over \<open>values_mut\<close> that stops at the first failing body.\<close>

fun each_value_mut ::
  "('v \<Rightarrow> (unit, 'e) outcome \<times> 'v) \<Rightarrow> ('k, 'v) hash_map \<Rightarrow> (unit, 'e) outcome \<times> ('k, 'v) hash_map" where
  "each_value_mut f [] = (Ok (), [])"
| "each_value_mut f ((k, v) # m) =
     (case f v of
        (Ok _, v') \<Rightarrow> (let (r, m') = each_value_mut f m in (r, (k, v') # m'))
      | (Err e, v') \<Rightarrow> (Err e, (k, v') # m)
      | (Panic p, v') \<Rightarrow> (Panic p, (k, v') # m))"

lemma each_value_mut_ok:
  "(\<And>k v. (k, v) \<in> set m \<Longrightarrow> fst (f v) = Ok ()) \<Longrightarrow>
   each_value_mut f m = (Ok (), hm_map_values (\<lambda>v. snd (f v)) m)"
proof (induction m)
  case Nil
  then show ?case by (simp add: hm_map_values_def)
next
  case (Cons p m)
  obtain k v where p: "p = (k, v)" by (cases p)
  have "fst (f v) = Ok ()" using Cons.prems [of k v] p by simp
  then obtain v' where "f v = (Ok (), v')" by (metis prod.collapse)
  moreover have "each_value_mut f m = (Ok (), hm_map_values (\<lambda>v. snd (f v)) m)"
    by (rule Cons.IH) (metis Cons.prems list.set_intros(2))
  ultimately show ?case by (simp add: p hm_map_values_def)
qed

lemma each_value_mut_id:
  "(\<And>k v. (k, v) \<in> set m \<Longrightarrow> f v = (Ok (), v)) \<Longrightarrow> each_value_mut f m = (Ok (), m)"
proof (induction m)
  case (Cons p m)
  obtain k v where p: "p = (k, v)" by (cases p)
  have "f v = (Ok (), v)" using Cons.prems [of k v] p by simp
  moreover have "each_value_mut f m = (Ok (), m)"
    by (rule Cons.IH) (metis Cons.prems list.set_intros(2))
  ultimately show ?case by (simp add: p)
qed simp

end
