(* ===== verification/Lifecycle.thy ===== *)
theory Lifecycle
  imports Awaken_Prelude
begin

text \<open>
  Run lifecycle: the coarse run status, the reasons a run terminates and their string form
  (\<^verbatim>\<open>awaken-runtime-contract/src/contract/lifecycle.rs\<close>), and the run lifecycle state key
  with its guarded updates (\<^verbatim>\<open>awaken-runtime/src/agent/state/run_lifecycle.rs\<close>).

  The locale \<open>guarded_lifecycle\<close> is the contract the runtime's lifecycle state keys share: an
  update is admitted only along \<open>can_transition_to\<close>. The run lifecycle interprets it here, the
  tool call lifecycle in \<open>Tool_Call\<close>.
\<close>

section \<open>Termination reasons\<close>

record StoppedReason =
  sr_code :: string
  sr_detail :: "string option"

definition StoppedReason_new :: "string \<Rightarrow> StoppedReason" where
  "StoppedReason_new code = \<lparr>sr_code = code, sr_detail = None\<rparr>"

definition StoppedReason_with_detail :: "string \<Rightarrow> string \<Rightarrow> StoppedReason" where
  "StoppedReason_with_detail code detail = \<lparr>sr_code = code, sr_detail = Some detail\<rparr>"

datatype TerminationReason =
    NaturalEnd
  | BehaviorRequested
  | Stopped StoppedReason
  | TR_Cancelled
  | Blocked string
  | TR_Suspended
  | TR_Error string

datatype RunStatus = Created | Running | Waiting | Done

definition stopped :: "string \<Rightarrow> TerminationReason" where
  "stopped code = Stopped (StoppedReason_new code)"

definition stopped_with_detail :: "string \<Rightarrow> string \<Rightarrow> TerminationReason" where
  "stopped_with_detail code detail = Stopped (StoppedReason_with_detail code detail)"

definition from_done_reason :: "string \<Rightarrow> TerminationReason" where
  "from_done_reason reason =
     (if reason = ''natural'' then NaturalEnd
      else if reason = ''behavior_requested'' then BehaviorRequested
      else if reason = ''cancelled'' then TR_Cancelled
      else if prefix ''blocked:'' reason then Blocked (trim_start_matches ''blocked:'' reason)
      else if prefix ''stopped:'' reason then
        Stopped (StoppedReason_new (trim_start_matches ''stopped:'' reason))
      else if prefix ''error:'' reason then TR_Error (trim_start_matches ''error:'' reason)
      else TR_Error reason)"

fun to_run_status :: "TerminationReason \<Rightarrow> RunStatus \<times> string option" where
  "to_run_status TR_Suspended = (Waiting, None)"
| "to_run_status NaturalEnd = (Done, Some ''natural'')"
| "to_run_status BehaviorRequested = (Done, Some ''behavior_requested'')"
| "to_run_status TR_Cancelled = (Done, Some ''cancelled'')"
| "to_run_status (Blocked reason) = (Done, Some (''blocked:'' @ reason))"
| "to_run_status (TR_Error _) = (Done, Some ''error'')"
| "to_run_status (Stopped st) = (Done, Some (''stopped:'' @ sr_code st))"

text \<open>
  The reasons the done-reason string keeps in full: no error text, no stop detail, and no
  payload that itself starts with the tag that \<open>trim_start_matches\<close> strips repeatedly.
\<close>

fun reason_preserved :: "TerminationReason \<Rightarrow> bool" where
  "reason_preserved (Blocked r) \<longleftrightarrow> \<not> prefix ''blocked:'' r"
| "reason_preserved (Stopped st) \<longleftrightarrow> sr_detail st = None \<and> \<not> prefix ''stopped:'' (sr_code st)"
| "reason_preserved (TR_Error e) \<longleftrightarrow> e = ''error''"
| "reason_preserved _ \<longleftrightarrow> True"

lemma from_done_reason_blocked:
  "from_done_reason (''blocked:'' @ r) = Blocked (trim_start_matches ''blocked:'' r)"
  using trim_start_matches_append [of "''blocked:''" r]
  by (simp add: from_done_reason_def)

lemma from_done_reason_stopped:
  "from_done_reason (''stopped:'' @ r) =
     Stopped (StoppedReason_new (trim_start_matches ''stopped:'' r))"
  using trim_start_matches_append [of "''stopped:''" r]
  by (simp add: from_done_reason_def)

lemma StoppedReason_new_code: "sr_detail st = None \<Longrightarrow> StoppedReason_new (sr_code st) = st"
  by (cases st) (simp add: StoppedReason_new_def)

lemma trim_start_matches_eq_self_iff:
  "p \<noteq> [] \<Longrightarrow> trim_start_matches p s = s \<longleftrightarrow> \<not> prefix p s"
  using trim_start_matches_not_prefix [of p s] trim_start_matches_id [of p s] by auto

section \<open>The run status machine\<close>

definition RunStatus_is_terminal :: "RunStatus \<Rightarrow> bool" where
  "RunStatus_is_terminal s \<longleftrightarrow> s = Done"

definition RunStatus_can_transition_to :: "RunStatus \<Rightarrow> RunStatus \<Rightarrow> bool" where
  "RunStatus_can_transition_to s n \<longleftrightarrow>
     s = n \<or>
     (case s of
        Created \<Rightarrow> n = Running \<or> n = Done
      | Running \<Rightarrow> n = Waiting \<or> n = Done
      | Waiting \<Rightarrow> n = Running \<or> n = Done
      | Done \<Rightarrow> False)"

lemma RunStatus_terminal_absorbing:
  "RunStatus_is_terminal s \<Longrightarrow> RunStatus_can_transition_to s n \<Longrightarrow> n = s"
  by (auto simp: RunStatus_is_terminal_def RunStatus_can_transition_to_def)

section \<open>The contract of a guarded lifecycle state key\<close>

text \<open>
  \<open>apply_update\<close> is the state key's \<open>apply\<close>, \<open>status_of\<close> reads the status it guards. A law
  says that an update moves the status along the transition relation or leaves it.
\<close>

locale guarded_lifecycle =
  fixes status_of :: "'s \<Rightarrow> 'st"
    and apply_update :: "'s \<Rightarrow> 'u \<Rightarrow> 's"
    and can_transition :: "'st \<Rightarrow> 'st \<Rightarrow> bool"
    and terminal :: "'st \<Rightarrow> bool"
  assumes moves_along: "can_transition (status_of s) (status_of (apply_update s u))"
    and terminal_absorbing: "terminal a \<Longrightarrow> can_transition a b \<Longrightarrow> b = a"
begin

lemma apply_update_terminal: "terminal (status_of s) \<Longrightarrow> status_of (apply_update s u) = status_of s"
  using moves_along terminal_absorbing by blast

lemma terminal_forever:
  "terminal (status_of s) \<Longrightarrow> status_of (foldl apply_update s us) = status_of s"
proof (induction us arbitrary: s)
  case (Cons u us)
  then show ?case using apply_update_terminal [of s u] by simp
qed simp

lemma history_linked:
  "rtranclp can_transition (status_of s) (status_of (foldl apply_update s us))"
proof (induction us arbitrary: s)
  case (Cons u us)
  have "can_transition (status_of s) (status_of (apply_update s u))" by (rule moves_along)
  with Cons.IH [of "apply_update s u"] show ?case by (simp add: converse_rtranclp_into_rtranclp)
qed simp

end

section \<open>The run lifecycle state key\<close>

record RunLifecycleState =
  rl_run_id :: string
  rl_status :: RunStatus
  rl_status_reason :: "string option"
  rl_updated_at :: u64
  rl_step_count :: u32

text \<open>\<open>Default\<close>: empty id, \<open>Running\<close>, no reason, zero counters.\<close>

definition RunLifecycleState_default :: RunLifecycleState where
  "RunLifecycleState_default =
     \<lparr>rl_run_id = '''', rl_status = Running, rl_status_reason = None,
      rl_updated_at = 0, rl_step_count = 0\<rparr>"

datatype RunLifecycleUpdate =
    Start string u64
  | StepCompleted u64
  | SetWaiting u64 string
  | SetRunning u64
  | SetDone string u64

fun target_status :: "RunLifecycleUpdate \<Rightarrow> RunStatus" where
  "target_status (Start _ _) = Running"
| "target_status (StepCompleted _) = Running"
| "target_status (SetRunning _) = Running"
| "target_status (SetWaiting _ _) = Waiting"
| "target_status (SetDone _ _) = Done"

definition RunLifecycle_apply :: "RunLifecycleState \<Rightarrow> RunLifecycleUpdate \<Rightarrow> RunLifecycleState" where
  "RunLifecycle_apply value update =
     (if \<not> RunStatus_can_transition_to (rl_status value) (target_status update) then value
      else (case update of
          Start run_id updated_at \<Rightarrow>
            value\<lparr>rl_run_id := run_id, rl_status := Running, rl_status_reason := None,
                  rl_updated_at := updated_at, rl_step_count := 0\<rparr>
        | StepCompleted updated_at \<Rightarrow>
            value\<lparr>rl_step_count := rl_step_count value + 1, rl_updated_at := updated_at\<rparr>
        | SetWaiting updated_at pause_reason \<Rightarrow>
            value\<lparr>rl_status := Waiting, rl_status_reason := Some pause_reason,
                  rl_updated_at := updated_at\<rparr>
        | SetRunning updated_at \<Rightarrow>
            value\<lparr>rl_status := Running, rl_status_reason := None, rl_updated_at := updated_at\<rparr>
        | SetDone done_reason updated_at \<Rightarrow>
            value\<lparr>rl_status := Done, rl_status_reason := Some done_reason,
                  rl_updated_at := updated_at\<rparr>))"

lemma RunLifecycle_apply_moves:
  "RunStatus_can_transition_to (rl_status v) (rl_status (RunLifecycle_apply v u))"
  by (cases u; cases "rl_status v") (auto simp: RunLifecycle_apply_def RunStatus_can_transition_to_def)

interpretation run_lc: guarded_lifecycle rl_status RunLifecycle_apply
  RunStatus_can_transition_to RunStatus_is_terminal
  by unfold_locales (rule RunLifecycle_apply_moves, rule RunStatus_terminal_absorbing)

text \<open>
  The reason is present exactly when the run waits or is done: the field comment's promise,
  as an invariant. \<open>reason_consistent\<close> holds of the default state and every update keeps it.
\<close>

definition reason_consistent :: "RunLifecycleState \<Rightarrow> bool" where
  "reason_consistent v \<longleftrightarrow>
     (rl_status_reason v = None \<longleftrightarrow> rl_status v = Running \<or> rl_status v = Created)"

lemma reason_consistent_apply: "reason_consistent v \<Longrightarrow> reason_consistent (RunLifecycle_apply v u)"
  by (cases u)
    (auto simp: reason_consistent_def RunLifecycle_apply_def split: if_splits)

lemma reason_consistent_updates:
  "reason_consistent v \<Longrightarrow> reason_consistent (foldl RunLifecycle_apply v us)"
  by (induction us arbitrary: v) (auto simp: reason_consistent_apply)

section \<open>Theorems\<close>

text \<open>
  The stored done-reason string brings back the termination reason exactly when the reason
  carries nothing the string drops: no stop detail, no error text, and no payload that repeats its
  own tag. In particular the string form of an error is always read back as the bare word.
\<close>

theorem done_reason_roundtrip:
  "r \<noteq> TR_Suspended \<longrightarrow>
     (from_done_reason (the (snd (to_run_status r))) = r \<longleftrightarrow> reason_preserved r)"
proof (cases r)
  case (Stopped st)
  have "StoppedReason_new (trim_start_matches ''stopped:'' (sr_code st)) = st \<longleftrightarrow>
      sr_detail st = None \<and> trim_start_matches ''stopped:'' (sr_code st) = sr_code st"
    by (cases st) (auto simp: StoppedReason_new_def)
  then show ?thesis
    using Stopped from_done_reason_stopped [of "sr_code st"]
    by (simp add: trim_start_matches_eq_self_iff)
next
  case (Blocked b)
  then show ?thesis
    using from_done_reason_blocked [of b] by (simp add: trim_start_matches_eq_self_iff)
qed (auto simp: from_done_reason_def)

theorem done_reason_roundtrip_witness:
  "from_done_reason (the (snd (to_run_status (Blocked ''rule'')))) = Blocked ''rule''"
  using done_reason_roundtrip [of "Blocked ''rule''"] by simp

text \<open>
  A run that is done stays done under every sequence of updates, every other sequence moves the
  status along the allowed transitions, and from the default state the status reason is always
  present exactly while the run waits or is done.
\<close>

theorem run_lifecycle_guarded:
  "(rl_status v = Done \<longrightarrow> rl_status (foldl RunLifecycle_apply v us) = Done)
   \<and> rtranclp RunStatus_can_transition_to (rl_status v) (rl_status (foldl RunLifecycle_apply v us))
   \<and> reason_consistent (foldl RunLifecycle_apply RunLifecycleState_default us)"
proof -
  have "reason_consistent RunLifecycleState_default"
    by (simp add: reason_consistent_def RunLifecycleState_default_def)
  then show ?thesis
    using run_lc.terminal_forever [of v us] run_lc.history_linked [of v us] reason_consistent_updates
    by (simp add: RunStatus_is_terminal_def)
qed

theorem run_lifecycle_guarded_witness:
  "rl_status (foldl RunLifecycle_apply (RunLifecycleState_default\<lparr>rl_status := Done\<rparr>)
     [Start ''r'' 1, SetWaiting 2 ''p'']) = Done"
  using run_lifecycle_guarded
    [of "RunLifecycleState_default\<lparr>rl_status := Done\<rparr>" "[Start ''r'' 1, SetWaiting 2 ''p'']"]
  by simp

end
