(* ===== verification/Tool_Call.thy ===== *)
theory Tool_Call
  imports Lifecycle
begin

text \<open>
  Tool call suspension and resume types with the tool call status machine
  (\<^verbatim>\<open>awaken-runtime-contract/src/contract/suspension.rs\<close>), and the keyed collection of tool
  call states of the current step
  (\<^verbatim>\<open>awaken-runtime/src/agent/state/tool_call_lifecycle.rs\<close>).

  JSON payloads are the type variable \<open>'v\<close>: no operation of these files looks inside one.
\<close>

section \<open>Suspension payloads\<close>

record 'v Suspension =
  su_id :: string
  su_action :: string
  su_message :: string
  su_parameters :: 'v
  su_response_schema :: "'v option"

datatype ToolCallResumeMode = ReplayToolCall | UseDecisionAsToolResult | PassDecisionToTool

definition ToolCallResumeMode_default :: ToolCallResumeMode where
  "ToolCallResumeMode_default = ReplayToolCall"

record 'v PendingToolCall =
  pc_id :: string
  pc_name :: string
  pc_arguments :: 'v

record 'v SuspendTicket =
  ti_suspension :: "'v Suspension"
  ti_pending :: "'v PendingToolCall"
  ti_resume_mode :: ToolCallResumeMode

definition SuspendTicket_new ::
  "'v Suspension \<Rightarrow> 'v PendingToolCall \<Rightarrow> ToolCallResumeMode \<Rightarrow> 'v SuspendTicket" where
  "SuspendTicket_new su p m = \<lparr>ti_suspension = su, ti_pending = p, ti_resume_mode = m\<rparr>"

definition use_decision_as_tool_result ::
  "'v Suspension \<Rightarrow> 'v PendingToolCall \<Rightarrow> 'v SuspendTicket" where
  "use_decision_as_tool_result su p = SuspendTicket_new su p UseDecisionAsToolResult"

definition SuspendTicket_with_resume_mode ::
  "'v SuspendTicket \<Rightarrow> ToolCallResumeMode \<Rightarrow> 'v SuspendTicket" where
  "SuspendTicket_with_resume_mode t m = t\<lparr>ti_resume_mode := m\<rparr>"

definition SuspendTicket_with_pending ::
  "'v SuspendTicket \<Rightarrow> 'v PendingToolCall \<Rightarrow> 'v SuspendTicket" where
  "SuspendTicket_with_pending t p = t\<lparr>ti_pending := p\<rparr>"

datatype ResumeDecisionAction = Resume | Cancel

record 'v ToolCallResume =
  re_decision_id :: string
  re_action :: ResumeDecisionAction
  re_result :: 'v
  re_reason :: "string option"
  re_updated_at :: u64

section \<open>The tool call status machine\<close>

datatype ToolCallStatus =
    New | TC_Running | TC_Suspended | Resuming | TC_Succeeded | TC_Failed | TC_Cancelled

definition ToolCallStatus_is_terminal :: "ToolCallStatus \<Rightarrow> bool" where
  "ToolCallStatus_is_terminal s \<longleftrightarrow> s = TC_Succeeded \<or> s = TC_Failed \<or> s = TC_Cancelled"

definition ToolCallStatus_can_transition_to :: "ToolCallStatus \<Rightarrow> ToolCallStatus \<Rightarrow> bool" where
  "ToolCallStatus_can_transition_to s n \<longleftrightarrow>
     s = n \<or>
     (case s of
        New \<Rightarrow> True
      | TC_Running \<Rightarrow> n \<in> {TC_Suspended, TC_Succeeded, TC_Failed, TC_Cancelled}
      | TC_Suspended \<Rightarrow> n \<in> {Resuming, TC_Cancelled}
      | Resuming \<Rightarrow> n \<in> {TC_Running, TC_Suspended, TC_Succeeded, TC_Failed, TC_Cancelled}
      | TC_Succeeded \<Rightarrow> False
      | TC_Failed \<Rightarrow> False
      | TC_Cancelled \<Rightarrow> False)"

lemma ToolCallStatus_terminal_absorbing:
  "ToolCallStatus_is_terminal s \<Longrightarrow> ToolCallStatus_can_transition_to s n \<Longrightarrow> n = s"
  by (auto simp: ToolCallStatus_is_terminal_def ToolCallStatus_can_transition_to_def)

lemma ToolCallStatus_can_transition_refl [simp]: "ToolCallStatus_can_transition_to s s"
  by (simp add: ToolCallStatus_can_transition_to_def)

lemma ToolCallStatus_never_back_to_New:
  "ToolCallStatus_can_transition_to s New \<longleftrightarrow> s = New"
  by (cases s) (auto simp: ToolCallStatus_can_transition_to_def)

lemma ToolCallStatus_New_transitions [simp]: "ToolCallStatus_can_transition_to New n"
  by (simp add: ToolCallStatus_can_transition_to_def)

datatype ToolStatus = TS_Success | TS_Pending | TS_Error

datatype ToolCallOutcome = TO_Suspended | TO_Succeeded | TO_Failed

fun from_tool_result :: "ToolStatus \<Rightarrow> ToolCallOutcome" where
  "from_tool_result TS_Pending = TO_Suspended"
| "from_tool_result TS_Error = TO_Failed"
| "from_tool_result TS_Success = TO_Succeeded"

section \<open>The tool call state key\<close>

record 'v ToolCallState =
  tc_call_id :: string
  tc_tool_name :: string
  tc_arguments :: 'v
  tc_status :: ToolCallStatus
  tc_updated_at :: u64
  tc_resume_mode :: ToolCallResumeMode
  tc_suspension_id :: "string option"
  tc_suspension_reason :: "string option"
  tc_resume_input :: "'v ToolCallResume option"

definition normalize_optional_string :: "string option \<Rightarrow> string option" where
  "normalize_optional_string v =
     (case v of None \<Rightarrow> None
      | Some s \<Rightarrow> (let trimmed = trim s in if trimmed \<noteq> [] then Some trimmed else None))"

definition ToolCallState_new ::
  "string \<Rightarrow> string \<Rightarrow> 'v \<Rightarrow> ToolCallStatus \<Rightarrow> u64 \<Rightarrow> 'v ToolCallState" where
  "ToolCallState_new call_id tool_name arguments status updated_at =
     \<lparr>tc_call_id = call_id, tc_tool_name = tool_name, tc_arguments = arguments,
      tc_status = status, tc_updated_at = updated_at,
      tc_resume_mode = ToolCallResumeMode_default,
      tc_suspension_id = None, tc_suspension_reason = None, tc_resume_input = None\<rparr>"

definition ToolCallState_with_resume_mode ::
  "'v ToolCallState \<Rightarrow> ToolCallResumeMode \<Rightarrow> 'v ToolCallState" where
  "ToolCallState_with_resume_mode s m = s\<lparr>tc_resume_mode := m\<rparr>"

definition ToolCallState_with_suspension ::
  "'v ToolCallState \<Rightarrow> string option \<Rightarrow> string option \<Rightarrow> 'v ToolCallState" where
  "ToolCallState_with_suspension s sid reason =
     s\<lparr>tc_suspension_id := normalize_optional_string sid,
       tc_suspension_reason := normalize_optional_string reason\<rparr>"

definition ToolCallState_with_resume_input ::
  "'v ToolCallState \<Rightarrow> 'v ToolCallResume option \<Rightarrow> 'v ToolCallState" where
  "ToolCallState_with_resume_input s i = s\<lparr>tc_resume_input := i\<rparr>"

type_synonym 'v ToolCallStateMap = "(string, 'v ToolCallState) hash_map"

datatype 'v ToolCallStatesUpdate = Put "'v ToolCallState" | Clear

text \<open>The status a call id has: \<open>New\<close> while the map holds no entry for it.\<close>

definition call_status :: "string \<Rightarrow> 'v ToolCallStateMap \<Rightarrow> ToolCallStatus" where
  "call_status call_id calls =
     (case map_of calls call_id of None \<Rightarrow> New | Some s \<Rightarrow> tc_status s)"

fun ToolCallStates_apply ::
  "'v ToolCallStateMap \<Rightarrow> 'v ToolCallStatesUpdate \<Rightarrow> 'v ToolCallStateMap" where
  "ToolCallStates_apply calls (Put state) =
     (let call_id = tc_call_id state;
          current_status = (case map_of calls call_id of None \<Rightarrow> New | Some s \<Rightarrow> tc_status s);
          next_status = tc_status state
      in if \<not> ToolCallStatus_can_transition_to current_status next_status then calls
         else AList.update call_id
           (state\<lparr>tc_suspension_id := normalize_optional_string (tc_suspension_id state),
                  tc_suspension_reason := normalize_optional_string (tc_suspension_reason state)\<rparr>)
           calls)"
| "ToolCallStates_apply calls Clear = []"

lemma normalize_optional_string_idem [simp]:
  "normalize_optional_string (normalize_optional_string v) = normalize_optional_string v"
  by (auto simp: normalize_optional_string_def Let_def split: option.splits)

lemma normalize_optional_string_Some:
  "normalize_optional_string v = Some s \<longleftrightarrow> (\<exists>t. v = Some t \<and> s = trim t \<and> \<not> blank t)"
  by (auto simp: normalize_optional_string_def Let_def blank_def split: option.splits if_splits)

text \<open>Putting a state of one call, as an update of that call's status.\<close>

definition put_call ::
  "'v ToolCallStateMap \<Rightarrow> 'v ToolCallState \<Rightarrow> 'v ToolCallStateMap" where
  "put_call calls state = ToolCallStates_apply calls (Put state)"

lemma call_status_put:
  "call_status c (put_call calls st) =
     (if c = tc_call_id st \<and> ToolCallStatus_can_transition_to (call_status c calls) (tc_status st)
      then tc_status st else call_status c calls)"
  by (auto simp: call_status_def put_call_def Let_def)

interpretation tool_lc: guarded_lifecycle "call_status c" put_call
  ToolCallStatus_can_transition_to ToolCallStatus_is_terminal for c
  by unfold_locales (auto simp: call_status_put dest: ToolCallStatus_terminal_absorbing)

text \<open>
  Well-formedness of the collection: distinct keys, each entry filed under its own call id, and
  its suspension fields normalised.
\<close>

definition calls_wf :: "'v ToolCallStateMap \<Rightarrow> bool" where
  "calls_wf calls \<longleftrightarrow> hm_keys_distinct calls \<and>
     (\<forall>k s. map_of calls k = Some s \<longrightarrow>
        tc_call_id s = k \<and>
        normalize_optional_string (tc_suspension_id s) = tc_suspension_id s \<and>
        normalize_optional_string (tc_suspension_reason s) = tc_suspension_reason s)"

lemma calls_wf_apply: "calls_wf calls \<Longrightarrow> calls_wf (ToolCallStates_apply calls u)"
  by (cases u) (auto simp: calls_wf_def Let_def distinct_update)

lemma calls_wf_updates: "calls_wf calls \<Longrightarrow> calls_wf (foldl ToolCallStates_apply calls us)"
  by (induction us arbitrary: calls) (auto simp: calls_wf_apply)

section \<open>Theorems\<close>

text \<open>
  A finished tool call is never reopened: once the status of a call is terminal no sequence of
  puts changes it, every status change follows the allowed transitions, and the collection stays
  well formed (each state under its own call id, suspension fields trimmed) whatever is applied.
\<close>

theorem tool_calls_guarded:
  "(ToolCallStatus_is_terminal (call_status c calls) \<longrightarrow>
      call_status c (foldl put_call calls sts) = call_status c calls)
   \<and> rtranclp ToolCallStatus_can_transition_to (call_status c calls)
       (call_status c (foldl put_call calls sts))
   \<and> calls_wf (foldl ToolCallStates_apply [] us)"
  using tool_lc.terminal_forever [of c calls sts] tool_lc.history_linked [of c calls sts]
    calls_wf_updates [of "[]" us]
  by (simp add: calls_wf_def)

theorem tool_calls_guarded_witness:
  "call_status ''c'' (foldl put_call [(''c'', ToolCallState_new ''c'' ''t'' (0::nat) TC_Succeeded 1)]
     [ToolCallState_new ''c'' ''t'' 0 TC_Running 2]) = TC_Succeeded"
proof -
  let ?m = "[(''c'', ToolCallState_new ''c'' ''t'' (0::nat) TC_Succeeded 1)]"
  have "call_status ''c'' ?m = TC_Succeeded"
    by (simp add: call_status_def ToolCallState_new_def)
  moreover have "ToolCallStatus_is_terminal TC_Succeeded"
    by (simp add: ToolCallStatus_is_terminal_def)
  ultimately show ?thesis
    using tool_calls_guarded [of "''c''" ?m "[ToolCallState_new ''c'' ''t'' 0 TC_Running 2]"
        "[] :: nat ToolCallStatesUpdate list"]
    by simp
qed

end
