(* ===== verification/Run_Dispatch.thy ===== *)
theory Run_Dispatch
  imports Lifecycle
begin

text \<open>
  The run dispatch record and its six-state delivery lifecycle
  (\<^verbatim>\<open>awaken-server-contract/src/contract/mailbox.rs\<close>), with the storage errors its
  operations return (\<^verbatim>\<open>awaken-runtime-contract/src/contract/storage/error.rs\<close>).

  A transition takes the dispatch and returns its outcome beside the dispatch as the method
  leaves it: \<open>require_status\<close> fails before any write, \<open>validate_for_persist\<close> runs after all of
  them, so a validation error leaves the fields written. The lemmas show on which dispatches the
  closing validation succeeds, and that it then leaves a valid record.
\<close>

section \<open>Storage errors\<close>

datatype StorageError =
    Validation string
  | NotFound string
  | AlreadyExists string
  | VersionConflict u64 u64
  | PendingSelectionConflict "string list" "string list"
  | Io string
  | CommitUnknown string
  | Serialization string

section \<open>Data\<close>

datatype RunDispatchStatus = Queued | Claimed | Acked | Cancelled | Superseded | DeadLetter

definition is_terminal :: "RunDispatchStatus \<Rightarrow> bool" where
  "is_terminal s \<longleftrightarrow> s = Acked \<or> s = Cancelled \<or> s = Superseded \<or> s = DeadLetter"

text \<open>The derived \<open>Debug\<close> rendering, used in validation messages.\<close>

fun debug_status :: "RunDispatchStatus \<Rightarrow> string" where
  "debug_status Queued = ''Queued''"
| "debug_status Claimed = ''Claimed''"
| "debug_status Acked = ''Acked''"
| "debug_status Cancelled = ''Cancelled''"
| "debug_status Superseded = ''Superseded''"
| "debug_status DeadLetter = ''DeadLetter''"

record RunDispatchResult =
  rr_run_id :: string
  rr_dispatch_instance_id :: string
  rr_status :: RunStatus
  rr_termination :: "TerminationReason option"
  rr_response :: "string option"
  rr_error :: "string option"

record RunDispatch =
  dispatch_id :: string
  thread_id :: string
  run_id :: string
  priority :: u8
  dedupe_key :: "string option"
  dispatch_epoch :: u64
  status :: RunDispatchStatus
  available_at :: u64
  attempt_count :: u32
  max_attempts :: u32
  last_error :: "string option"
  claim_token :: "string option"
  claimed_by :: "string option"
  lease_until :: "u64 option"
  dispatch_instance_id :: "string option"
  run_status :: "RunStatus option"
  run_termination :: "TerminationReason option"
  run_response :: "string option"
  run_error :: "string option"
  completed_at :: "u64 option"
  created_at :: u64
  updated_at :: u64

text \<open>The plain bag of fields that store codecs exchange.\<close>

record RunDispatchParts =
  p_dispatch_id :: string
  p_thread_id :: string
  p_run_id :: string
  p_priority :: u8
  p_dedupe_key :: "string option"
  p_dispatch_epoch :: u64
  p_status :: RunDispatchStatus
  p_available_at :: u64
  p_attempt_count :: u32
  p_max_attempts :: u32
  p_last_error :: "string option"
  p_claim_token :: "string option"
  p_claimed_by :: "string option"
  p_lease_until :: "u64 option"
  p_dispatch_instance_id :: "string option"
  p_run_status :: "RunStatus option"
  p_termination :: "TerminationReason option"
  p_run_response :: "string option"
  p_run_error :: "string option"
  p_completed_at :: "u64 option"
  p_created_at :: u64
  p_updated_at :: u64

section \<open>Construction\<close>

definition queued :: "string \<Rightarrow> string \<Rightarrow> string \<Rightarrow> u64 \<Rightarrow> RunDispatch" where
  "queued d_id t_id r_id now =
     \<lparr>dispatch_id = d_id, thread_id = t_id, run_id = r_id, priority = 128, dedupe_key = None,
      dispatch_epoch = 0, status = Queued, available_at = now, attempt_count = 0,
      max_attempts = 5, last_error = None, claim_token = None, claimed_by = None,
      lease_until = None, dispatch_instance_id = None, run_status = None, run_termination = None,
      run_response = None, run_error = None, completed_at = None, created_at = now,
      updated_at = now\<rparr>"

definition with_priority :: "RunDispatch \<Rightarrow> u8 \<Rightarrow> RunDispatch" where
  "with_priority d p = d\<lparr>priority := p\<rparr>"

definition with_dedupe_key :: "RunDispatch \<Rightarrow> string option \<Rightarrow> RunDispatch" where
  "with_dedupe_key d k = d\<lparr>dedupe_key := k\<rparr>"

definition with_available_at :: "RunDispatch \<Rightarrow> u64 \<Rightarrow> RunDispatch" where
  "with_available_at d t = d\<lparr>available_at := t\<rparr>"

definition with_created_at :: "RunDispatch \<Rightarrow> u64 \<Rightarrow> RunDispatch" where
  "with_created_at d t = d\<lparr>created_at := t\<rparr>"

definition with_max_attempts :: "RunDispatch \<Rightarrow> u32 \<Rightarrow> RunDispatch" where
  "with_max_attempts d n = d\<lparr>max_attempts := n\<rparr>"

definition with_attempt_count :: "RunDispatch \<Rightarrow> u32 \<Rightarrow> RunDispatch" where
  "with_attempt_count d n = d\<lparr>attempt_count := n\<rparr>"

definition with_dispatch_epoch :: "RunDispatch \<Rightarrow> u64 \<Rightarrow> RunDispatch" where
  "with_dispatch_epoch d e = d\<lparr>dispatch_epoch := e\<rparr>"

section \<open>Validation\<close>

type_synonym 'a validated = "('a, StorageError) outcome"

definition quoted :: "string \<Rightarrow> string" where
  "quoted s = [CHR 0x27] @ s @ [CHR 0x27]"

definition require_non_empty :: "string \<Rightarrow> string \<Rightarrow> unit validated" where
  "require_non_empty field value =
     (if blank value then Err (Validation (field @ '' must not be empty'')) else Ok ())"

definition require_status :: "RunDispatch \<Rightarrow> RunDispatchStatus \<Rightarrow> string \<Rightarrow> unit validated" where
  "require_status d expected transition =
     (if status d \<noteq> expected then
        Err (Validation (''dispatch '' @ quoted (dispatch_id d) @ '' must be '' @
          debug_status expected @ '' before '' @ transition))
      else Ok ())"

definition validate_identity_and_retry :: "RunDispatch \<Rightarrow> unit validated" where
  "validate_identity_and_retry d =
     and_then (require_non_empty ''dispatch_id'' (dispatch_id d)) (\<lambda>_.
     and_then (require_non_empty ''thread_id'' (thread_id d)) (\<lambda>_.
     and_then (require_non_empty ''run_id'' (run_id d)) (\<lambda>_.
       if max_attempts d = 0 then
         Err (Validation (''dispatch '' @ quoted (dispatch_id d) @
           '' max_attempts must be greater than zero''))
       else if attempt_count d > max_attempts d then
         Err (Validation (''dispatch '' @ quoted (dispatch_id d) @
           '' attempt_count must not exceed max_attempts''))
       else Ok ())))"

definition validate_queued :: "RunDispatch \<Rightarrow> unit validated" where
  "validate_queued d =
     (if claim_token d \<noteq> None \<or> claimed_by d \<noteq> None \<or> lease_until d \<noteq> None then
        Err (Validation (''Queued dispatch '' @ quoted (dispatch_id d) @
          '' must not carry claim fields''))
      else if completed_at d \<noteq> None then
        Err (Validation (''Queued dispatch '' @ quoted (dispatch_id d) @
          '' must not carry completed_at''))
      else if dispatch_instance_id d \<noteq> None \<or> run_status d \<noteq> None \<or> run_termination d \<noteq> None
          \<or> run_response d \<noteq> None \<or> run_error d \<noteq> None then
        Err (Validation (''Queued dispatch '' @ quoted (dispatch_id d) @
          '' must not carry runtime result fields''))
      else Ok ())"

definition validate_for_enqueue :: "RunDispatch \<Rightarrow> unit validated" where
  "validate_for_enqueue d =
     and_then (validate_identity_and_retry d) (\<lambda>_.
       if status d \<noteq> Queued then
         Err (Validation (''enqueued dispatch '' @ quoted (dispatch_id d) @
           '' must start as Queued''))
       else validate_queued d)"

text \<open>\<open>is_none_or(|value| value.trim().is_empty())\<close>\<close>

definition none_or_blank :: "string option \<Rightarrow> bool" where
  "none_or_blank v = (case v of None \<Rightarrow> True | Some s \<Rightarrow> blank s)"

definition validate_for_persist :: "RunDispatch \<Rightarrow> unit validated" where
  "validate_for_persist d =
     and_then (validate_identity_and_retry d) (\<lambda>_.
       case status d of
         Queued \<Rightarrow> validate_queued d
       | Claimed \<Rightarrow>
           if none_or_blank (claim_token d) \<or> none_or_blank (claimed_by d) \<or> lease_until d = None then
             Err (Validation (''Claimed dispatch '' @ quoted (dispatch_id d) @
               '' must carry claim_token, claimed_by, and lease_until''))
           else Ok ()
       | s \<Rightarrow>
           if claim_token d \<noteq> None \<or> claimed_by d \<noteq> None \<or> lease_until d \<noteq> None then
             Err (Validation (debug_status s @ '' dispatch '' @ quoted (dispatch_id d) @
               '' must not carry active lease fields''))
           else if completed_at d = None then
             Err (Validation (debug_status s @ '' dispatch '' @ quoted (dispatch_id d) @
               '' must carry completed_at''))
           else Ok ())"

section \<open>Persistence codec\<close>

definition from_persisted_parts :: "RunDispatchParts \<Rightarrow> RunDispatch validated" where
  "from_persisted_parts p =
     (let d = \<lparr>dispatch_id = p_dispatch_id p, thread_id = p_thread_id p, run_id = p_run_id p,
        priority = p_priority p, dedupe_key = p_dedupe_key p,
        dispatch_epoch = p_dispatch_epoch p, status = p_status p,
        available_at = p_available_at p, attempt_count = p_attempt_count p,
        max_attempts = p_max_attempts p, last_error = p_last_error p,
        claim_token = p_claim_token p, claimed_by = p_claimed_by p,
        lease_until = p_lease_until p, dispatch_instance_id = p_dispatch_instance_id p,
        run_status = p_run_status p, run_termination = p_termination p,
        run_response = p_run_response p, run_error = p_run_error p,
        completed_at = p_completed_at p, created_at = p_created_at p,
        updated_at = p_updated_at p\<rparr>
      in and_then (validate_for_persist d) (\<lambda>_. Ok d))"

definition to_persisted_parts :: "RunDispatch \<Rightarrow> RunDispatchParts" where
  "to_persisted_parts d =
     \<lparr>p_dispatch_id = dispatch_id d, p_thread_id = thread_id d, p_run_id = run_id d,
      p_priority = priority d, p_dedupe_key = dedupe_key d,
      p_dispatch_epoch = dispatch_epoch d, p_status = status d,
      p_available_at = available_at d, p_attempt_count = attempt_count d,
      p_max_attempts = max_attempts d, p_last_error = last_error d,
      p_claim_token = claim_token d, p_claimed_by = claimed_by d,
      p_lease_until = lease_until d, p_dispatch_instance_id = dispatch_instance_id d,
      p_run_status = run_status d, p_termination = run_termination d,
      p_run_response = run_response d, p_run_error = run_error d,
      p_completed_at = completed_at d, p_created_at = created_at d,
      p_updated_at = updated_at d\<rparr>"

section \<open>Transitions\<close>

type_synonym transition = "unit validated \<times> RunDispatch"

definition clear_claim_fields :: "RunDispatch \<Rightarrow> RunDispatch" where
  "clear_claim_fields d = d\<lparr>claim_token := None, claimed_by := None, lease_until := None\<rparr>"

definition clear_runtime_projection :: "RunDispatch \<Rightarrow> RunDispatch" where
  "clear_runtime_projection d =
     d\<lparr>dispatch_instance_id := None, run_status := None, run_termination := None,
       run_response := None, run_error := None\<rparr>"

text \<open>
  The frame of most transitions: the status check before any write, the closing validation of
  the written record.
\<close>

definition guarded :: "RunDispatch \<Rightarrow> RunDispatchStatus \<Rightarrow> string \<Rightarrow> RunDispatch \<Rightarrow> transition" where
  "guarded d expected transition d' =
     (case require_status d expected transition of
        Ok _ \<Rightarrow> (validate_for_persist d', d')
      | Err e \<Rightarrow> (Err e, d)
      | Panic p \<Rightarrow> (Panic p, d))"

definition prepare_for_enqueue :: "RunDispatch \<Rightarrow> u64 \<Rightarrow> RunDispatch" where
  "prepare_for_enqueue d epoch =
     d\<lparr>dispatch_epoch := epoch, status := Queued, claim_token := None, claimed_by := None,
       lease_until := None, dispatch_instance_id := None, run_status := None,
       run_termination := None, run_response := None, run_error := None, completed_at := None\<rparr>"

definition claim :: "RunDispatch \<Rightarrow> string \<Rightarrow> string \<Rightarrow> u64 \<Rightarrow> u64 \<Rightarrow> transition" where
  "claim d consumer_id token lease now =
     guarded d Queued ''claim''
       (d\<lparr>status := Claimed, claim_token := Some token, claimed_by := Some consumer_id,
          lease_until := Some lease, updated_at := now\<rparr>)"

definition extend_lease :: "RunDispatch \<Rightarrow> u64 \<Rightarrow> u64 \<Rightarrow> transition" where
  "extend_lease d lease now =
     guarded d Claimed ''lease extension'' (d\<lparr>lease_until := Some lease, updated_at := now\<rparr>)"

definition record_dispatch_start :: "RunDispatch \<Rightarrow> string \<Rightarrow> u64 \<Rightarrow> transition" where
  "record_dispatch_start d instance_id now =
     guarded d Claimed ''recording runtime start''
       (d\<lparr>dispatch_instance_id := Some instance_id, run_status := Some Running,
          run_termination := None, run_response := None, run_error := None, completed_at := None,
          updated_at := now\<rparr>)"

definition record_run_result :: "RunDispatch \<Rightarrow> RunDispatchResult \<Rightarrow> u64 \<Rightarrow> transition" where
  "record_run_result d result now =
     (case require_status d Claimed ''recording runtime result'' of
        Err e \<Rightarrow> (Err e, d)
      | Panic p \<Rightarrow> (Panic p, d)
      | Ok _ \<Rightarrow>
          if rr_run_id result \<noteq> run_id d then
            (Err (Validation (''dispatch '' @ quoted (dispatch_id d) @ '' result run_id '' @
               quoted (rr_run_id result) @ '' does not match '' @ quoted (run_id d))), d)
          else
            (let d' = d\<lparr>dispatch_instance_id := Some (rr_dispatch_instance_id result),
                 run_status := Some (rr_status result), run_termination := rr_termination result,
                 run_response := rr_response result, run_error := rr_error result,
                 completed_at := Some now, updated_at := now\<rparr>
             in (validate_for_persist d', d')))"

definition mark_acked :: "RunDispatch \<Rightarrow> u64 \<Rightarrow> transition" where
  "mark_acked d now =
     guarded d Claimed ''ack''
       (clear_claim_fields (d\<lparr>status := Acked, completed_at := Some now, updated_at := now\<rparr>))"

definition mark_cancelled :: "RunDispatch \<Rightarrow> u64 \<Rightarrow> transition" where
  "mark_cancelled d now =
     guarded d Queued ''cancel''
       (clear_claim_fields (d\<lparr>status := Cancelled, completed_at := Some now, updated_at := now\<rparr>))"

definition with_reason :: "RunDispatch \<Rightarrow> string option \<Rightarrow> RunDispatch" where
  "with_reason d reason =
     (case reason of None \<Rightarrow> d | Some r \<Rightarrow> d\<lparr>last_error := Some r\<rparr>)"

text \<open>The writes \<open>mark_superseded\<close> and the claimed branch of the epoch variant share.\<close>

definition superseded_fields :: "RunDispatch \<Rightarrow> u64 \<Rightarrow> string option \<Rightarrow> RunDispatch" where
  "superseded_fields d now reason =
     clear_runtime_projection (clear_claim_fields
       (with_reason (d\<lparr>status := Superseded, completed_at := Some now, updated_at := now\<rparr>) reason))"

definition mark_superseded :: "RunDispatch \<Rightarrow> u64 \<Rightarrow> string option \<Rightarrow> transition" where
  "mark_superseded d now reason = guarded d Queued ''supersede'' (superseded_fields d now reason)"

definition mark_superseded_at_epoch ::
  "RunDispatch \<Rightarrow> u64 \<Rightarrow> u64 \<Rightarrow> string option \<Rightarrow> transition" where
  "mark_superseded_at_epoch d0 now epoch reason =
     (let d = d0\<lparr>dispatch_epoch := epoch\<rparr> in
      case status d of
        Queued \<Rightarrow> mark_superseded d now reason
      | Claimed \<Rightarrow>
          (let d' = superseded_fields d now reason in (validate_for_persist d', d'))
      | _ \<Rightarrow>
          (Err (Validation (''dispatch '' @ quoted (dispatch_id d) @
             '' must be Queued or Claimed before epoch supersede'')), d))"

definition mark_dead_letter :: "RunDispatch \<Rightarrow> u64 \<Rightarrow> string \<Rightarrow> transition" where
  "mark_dead_letter d now error =
     guarded d Claimed ''dead letter''
       (clear_claim_fields (d\<lparr>status := DeadLetter, last_error := Some error,
          completed_at := Some now, updated_at := now\<rparr>))"

definition mark_nack_result :: "RunDispatch \<Rightarrow> u64 \<Rightarrow> u64 \<Rightarrow> string \<Rightarrow> transition" where
  "mark_nack_result d now retry_at error =
     guarded d Claimed ''nack''
       (let d1 = clear_claim_fields
              (d\<lparr>attempt_count := saturating_add (attempt_count d) 1, last_error := Some error,
                 updated_at := now\<rparr>)
        in if attempt_count d1 \<ge> max_attempts d1
           then d1\<lparr>status := DeadLetter, completed_at := Some now\<rparr>
           else clear_runtime_projection
                  (d1\<lparr>status := Queued, available_at := retry_at, completed_at := None\<rparr>))"

definition mark_expired_lease :: "RunDispatch \<Rightarrow> u64 \<Rightarrow> string \<Rightarrow> transition" where
  "mark_expired_lease d now max_attempts_error =
     guarded d Claimed ''lease expiration''
       (let d1 = clear_runtime_projection (clear_claim_fields
              (d\<lparr>attempt_count := saturating_add (attempt_count d) 1, available_at := now,
                 updated_at := now\<rparr>))
        in if attempt_count d1 \<ge> max_attempts d1
           then d1\<lparr>status := DeadLetter, last_error := Some max_attempts_error,
                  completed_at := Some now\<rparr>
           else d1\<lparr>status := Queued, completed_at := None\<rparr>)"

definition remap_identity ::
  "RunDispatch \<Rightarrow> string \<Rightarrow> string \<Rightarrow> string \<Rightarrow> string option \<Rightarrow> RunDispatch" where
  "remap_identity d d_id t_id r_id key =
     d\<lparr>dispatch_id := d_id, thread_id := t_id, run_id := r_id, dedupe_key := key\<rparr>"

section \<open>Valid records\<close>

named_theorems transition_defs "definitions of the dispatch transitions"

lemmas [transition_defs] =
  guarded_def claim_def extend_lease_def record_dispatch_start_def record_run_result_def
  mark_acked_def mark_cancelled_def mark_superseded_def mark_superseded_at_epoch_def
  mark_dead_letter_def mark_nack_result_def mark_expired_lease_def superseded_fields_def
  with_reason_def clear_claim_fields_def clear_runtime_projection_def require_status_def Let_def

definition valid_dispatch :: "RunDispatch \<Rightarrow> bool" where
  "valid_dispatch d \<longleftrightarrow> validate_for_persist d = Ok ()"

text \<open>The three shapes of a valid record, one per group of statuses.\<close>

definition identity_ok :: "RunDispatch \<Rightarrow> bool" where
  "identity_ok d \<longleftrightarrow> \<not> blank (dispatch_id d) \<and> \<not> blank (thread_id d) \<and> \<not> blank (run_id d) \<and>
     max_attempts d \<noteq> 0 \<and> attempt_count d \<le> max_attempts d"

definition no_lease :: "RunDispatch \<Rightarrow> bool" where
  "no_lease d \<longleftrightarrow> claim_token d = None \<and> claimed_by d = None \<and> lease_until d = None"

definition no_runtime :: "RunDispatch \<Rightarrow> bool" where
  "no_runtime d \<longleftrightarrow> dispatch_instance_id d = None \<and> run_status d = None \<and>
     run_termination d = None \<and> run_response d = None \<and> run_error d = None"

definition shape_ok :: "RunDispatch \<Rightarrow> bool" where
  "shape_ok d \<longleftrightarrow>
     (case status d of
        Queued \<Rightarrow> no_lease d \<and> completed_at d = None \<and> no_runtime d
      | Claimed \<Rightarrow> \<not> none_or_blank (claim_token d) \<and> \<not> none_or_blank (claimed_by d) \<and>
          lease_until d \<noteq> None
      | _ \<Rightarrow> no_lease d \<and> completed_at d \<noteq> None)"

lemma require_non_empty_Ok [simp]: "require_non_empty f v = Ok () \<longleftrightarrow> \<not> blank v"
  by (simp add: require_non_empty_def)

lemma validate_identity_Ok:
  "validate_identity_and_retry d = Ok () \<longleftrightarrow> identity_ok d"
  by (auto simp: validate_identity_and_retry_def identity_ok_def and_then_eq_Ok_iff not_less)

lemma validate_queued_Ok:
  "validate_queued d = Ok () \<longleftrightarrow> no_lease d \<and> completed_at d = None \<and> no_runtime d"
  by (simp add: validate_queued_def no_lease_def no_runtime_def)

lemma valid_dispatch_iff: "valid_dispatch d \<longleftrightarrow> identity_ok d \<and> shape_ok d"
  by (cases "status d")
    (simp_all add: valid_dispatch_def validate_for_persist_def shape_ok_def no_lease_def
      and_then_eq_Ok_iff validate_identity_Ok validate_queued_Ok)

lemma validate_for_enqueue_Ok:
  "validate_for_enqueue d = Ok () \<longleftrightarrow> valid_dispatch d \<and> status d = Queued"
  by (auto simp: validate_for_enqueue_def valid_dispatch_iff shape_ok_def and_then_eq_Ok_iff
      validate_identity_Ok validate_queued_Ok)

lemma validation_parts_no_panic [simp]:
  "\<not> is_panic (require_non_empty f v)" "\<not> is_panic (validate_identity_and_retry d)"
  "\<not> is_panic (validate_queued d)"
  by (simp_all add: require_non_empty_def validate_identity_and_retry_def validate_queued_def)

lemma validate_no_panic [simp]: "\<not> is_panic (validate_for_persist d)"
  by (cases "status d") (simp_all add: validate_for_persist_def)

text \<open>
  A dispatch the queue can still serve has an attempt left. Together with validity this is what
  every transition keeps.
\<close>

definition dispatch_ok :: "RunDispatch \<Rightarrow> bool" where
  "dispatch_ok d \<longleftrightarrow> valid_dispatch d \<and>
     (\<not> is_terminal (status d) \<longrightarrow> attempt_count d < max_attempts d)"

text \<open>The fields no transition writes.\<close>

definition same_identity :: "RunDispatch \<Rightarrow> RunDispatch \<Rightarrow> bool" where
  "same_identity d d' \<longleftrightarrow> dispatch_id d' = dispatch_id d \<and> thread_id d' = thread_id d \<and>
     run_id d' = run_id d \<and> priority d' = priority d \<and> dedupe_key d' = dedupe_key d \<and>
     max_attempts d' = max_attempts d \<and> created_at d' = created_at d"

lemmas shape_defs =
  dispatch_ok_def valid_dispatch_iff identity_ok_def shape_ok_def no_lease_def no_runtime_def
  none_or_blank_def is_terminal_def

lemma dispatch_ok_terminal_iff:
  "is_terminal (status d) \<Longrightarrow>
   dispatch_ok d \<longleftrightarrow> identity_ok d \<and> no_lease d \<and> completed_at d \<noteq> None"
  by (cases "status d") (simp_all add: shape_defs)

lemma dispatch_ok_queued_iff:
  "status d = Queued \<Longrightarrow>
   dispatch_ok d \<longleftrightarrow> identity_ok d \<and> attempt_count d < max_attempts d \<and> no_lease d \<and>
     completed_at d = None \<and> no_runtime d"
  by (auto simp add: shape_defs)

lemma dispatch_ok_claimed_iff:
  "status d = Claimed \<Longrightarrow>
   dispatch_ok d \<longleftrightarrow> identity_ok d \<and> attempt_count d < max_attempts d \<and>
     (\<exists>t. claim_token d = Some t \<and> \<not> blank t) \<and> (\<exists>c. claimed_by d = Some c \<and> \<not> blank c) \<and>
     lease_until d \<noteq> None"
  by (auto simp add: shape_defs split: option.splits)

lemmas dispatch_ok_iffs = dispatch_ok_terminal_iff dispatch_ok_queued_iff dispatch_ok_claimed_iff

section \<open>The contract of a transition\<close>

text \<open>
  The edges of the delivery state machine as the code takes them. Beside the diagram in the
  source comment there is the edge from \<open>Claimed\<close> to \<open>Superseded\<close>, and \<open>Claimed\<close> to itself for
  lease renewal and the recording of the runtime's start and result.
\<close>

inductive dispatch_edge :: "RunDispatchStatus \<Rightarrow> RunDispatchStatus \<Rightarrow> bool" where
  edge_claim: "dispatch_edge Queued Claimed"
| edge_cancel: "dispatch_edge Queued Cancelled"
| edge_supersede_queued: "dispatch_edge Queued Superseded"
| edge_progress: "dispatch_edge Claimed Claimed"
| edge_ack: "dispatch_edge Claimed Acked"
| edge_requeue: "dispatch_edge Claimed Queued"
| edge_dead_letter: "dispatch_edge Claimed DeadLetter"
| edge_supersede_claimed: "dispatch_edge Claimed Superseded"

code_pred dispatch_edge .

declare dispatch_edge.intros [intro!, simp]

inductive_cases dispatch_edge_from_terminal [elim!]:
  "dispatch_edge Acked s" "dispatch_edge Cancelled s" "dispatch_edge Superseded s"
  "dispatch_edge DeadLetter s"

inductive_simps dispatch_edge_Queued: "dispatch_edge Queued s"

inductive_simps dispatch_edge_Claimed: "dispatch_edge Claimed s"

lemma dispatch_edge_live: "dispatch_edge s s' \<Longrightarrow> \<not> is_terminal s"
  by (auto simp: is_terminal_def)

text \<open>
  What a store relies on when it runs a transition on a stored record: enabled on a good record
  it succeeds and leaves a good record in one of its target statuses at the epoch it names, and
  whatever happens the identity fields stay.
\<close>

locale dispatch_step =
  fixes step :: "RunDispatch \<Rightarrow> transition"
    and enabled :: "RunDispatch \<Rightarrow> bool"
    and targets :: "RunDispatchStatus set"
    and epoch_after :: "RunDispatch \<Rightarrow> u64"
  assumes step_ok: "dispatch_ok d \<Longrightarrow> enabled d \<Longrightarrow> fst (step d) = Ok ()"
    and step_keeps: "dispatch_ok d \<Longrightarrow> enabled d \<Longrightarrow> dispatch_ok (snd (step d))"
    and step_frame: "same_identity d (snd (step d))"
    and step_target: "dispatch_ok d \<Longrightarrow> enabled d \<Longrightarrow> status (snd (step d)) \<in> targets"
    and step_edge: "enabled d \<Longrightarrow> s \<in> targets \<Longrightarrow> dispatch_edge (status d) s"
    and step_epoch: "dispatch_ok d \<Longrightarrow> enabled d \<Longrightarrow> dispatch_epoch (snd (step d)) = epoch_after d"
begin

lemma expect_succeeds: "dispatch_ok d \<Longrightarrow> enabled d \<Longrightarrow> expect msg (fst (step d)) = Ok ()"
  by (simp add: step_ok)

lemma step_eq: "dispatch_ok d \<Longrightarrow> enabled d \<Longrightarrow> step d = (Ok (), snd (step d))"
  by (metis prod.collapse step_ok)

lemma step_along_edge: "dispatch_ok d \<Longrightarrow> enabled d \<Longrightarrow> dispatch_edge (status d) (status (snd (step d)))"
  by (simp add: step_edge step_target)

lemma not_enabled_terminal: "is_terminal (status d) \<Longrightarrow> dispatch_ok d \<Longrightarrow> \<not> enabled d"
  using dispatch_edge_live step_along_edge by blast

end

lemma guarded_enabled:
  assumes "status d = expected" and "dispatch_ok d'"
  shows "guarded d expected t d' = (Ok (), d')"
  using assms by (simp add: guarded_def require_status_def dispatch_ok_def valid_dispatch_def)

lemma guarded_frame: "same_identity d d' \<Longrightarrow> same_identity d (snd (guarded d expected t d'))"
  by (simp add: guarded_def require_status_def same_identity_def)

lemma dispatch_step_guarded:
  assumes "\<And>d. dispatch_ok d \<Longrightarrow> status d = expected \<Longrightarrow> extra \<Longrightarrow> dispatch_ok (f d)"
    and "\<And>d. same_identity d (f d)"
    and "\<And>d. status d = expected \<Longrightarrow> status (f d) \<in> targets"
    and "\<And>s. s \<in> targets \<Longrightarrow> dispatch_edge expected s"
    and "\<And>d. dispatch_epoch (f d) = dispatch_epoch d"
  shows "dispatch_step (\<lambda>d. guarded d expected t (f d)) (\<lambda>d. status d = expected \<and> extra)
    targets dispatch_epoch"
  using assms by unfold_locales (auto simp: guarded_enabled guarded_frame)

section \<open>Every transition meets the contract\<close>

lemmas field_defs =
  clear_claim_fields_def clear_runtime_projection_def superseded_fields_def with_reason_def
  identity_ok_def no_lease_def no_runtime_def is_terminal_def same_identity_def

interpretation claim_step: dispatch_step "\<lambda>d. claim d c t l n"
  "\<lambda>d. status d = Queued \<and> (\<not> blank c \<and> \<not> blank t)" "{Claimed}" dispatch_epoch for c t l n
  unfolding claim_def
  by (rule dispatch_step_guarded) (auto simp: dispatch_ok_iffs field_defs)

interpretation extend_step: dispatch_step "\<lambda>d. extend_lease d l n" "\<lambda>d. status d = Claimed \<and> True"
  "{Claimed}" dispatch_epoch for l n
  unfolding extend_lease_def
  by (rule dispatch_step_guarded) (auto simp: dispatch_ok_iffs field_defs)

interpretation start_step: dispatch_step "\<lambda>d. record_dispatch_start d i n"
  "\<lambda>d. status d = Claimed \<and> True" "{Claimed}" dispatch_epoch for i n
  unfolding record_dispatch_start_def
  by (rule dispatch_step_guarded) (auto simp: dispatch_ok_iffs field_defs)

interpretation ack_step: dispatch_step "\<lambda>d. mark_acked d n" "\<lambda>d. status d = Claimed \<and> True"
  "{Acked}" dispatch_epoch for n
  unfolding mark_acked_def
  by (rule dispatch_step_guarded) (auto simp: dispatch_ok_iffs field_defs)

interpretation cancel_step: dispatch_step "\<lambda>d. mark_cancelled d n" "\<lambda>d. status d = Queued \<and> True"
  "{Cancelled}" dispatch_epoch for n
  unfolding mark_cancelled_def
  by (rule dispatch_step_guarded) (auto simp: dispatch_ok_iffs field_defs)

interpretation dead_step: dispatch_step "\<lambda>d. mark_dead_letter d n e" "\<lambda>d. status d = Claimed \<and> True"
  "{DeadLetter}" dispatch_epoch for n e
  unfolding mark_dead_letter_def
  by (rule dispatch_step_guarded) (auto simp: dispatch_ok_iffs field_defs)

lemma dispatch_ok_identity: "dispatch_ok d \<Longrightarrow> identity_ok d"
  by (simp add: dispatch_ok_def valid_dispatch_iff)

lemma identity_ok_epoch [simp]: "identity_ok (d\<lparr>dispatch_epoch := e\<rparr>) = identity_ok d"
  by (simp add: identity_ok_def)

lemma superseded_fields_ok:
  "identity_ok d \<Longrightarrow> dispatch_ok (superseded_fields d now r)"
  by (cases r) (auto simp: dispatch_ok_terminal_iff field_defs)

lemma superseded_fields_simps [simp]:
  "status (superseded_fields d now r) = Superseded"
  "dispatch_epoch (superseded_fields d now r) = dispatch_epoch d"
  "thread_id (superseded_fields d now r) = thread_id d"
  "dispatch_id (superseded_fields d now r) = dispatch_id d"
  "same_identity d (superseded_fields d now r)"
  by (cases r; simp add: field_defs)+

interpretation supersede_step: dispatch_step "\<lambda>d. mark_superseded d n r"
  "\<lambda>d. status d = Queued \<and> True" "{Superseded}" dispatch_epoch for n r
  unfolding mark_superseded_def
  by (rule dispatch_step_guarded)
    (auto simp: superseded_fields_ok dispatch_ok_queued_iff is_terminal_def)

interpretation nack_step: dispatch_step "\<lambda>d. mark_nack_result d n at e"
  "\<lambda>d. status d = Claimed \<and> True" "{Queued, DeadLetter}" dispatch_epoch for n at e
  unfolding mark_nack_result_def
  by (rule dispatch_step_guarded)
    (auto simp: dispatch_ok_iffs field_defs Let_def saturating_add_one_le not_le)

interpretation expire_step: dispatch_step "\<lambda>d. mark_expired_lease d n e"
  "\<lambda>d. status d = Claimed \<and> True" "{Queued, DeadLetter}" dispatch_epoch for n e
  unfolding mark_expired_lease_def
  by (rule dispatch_step_guarded)
    (auto simp: dispatch_ok_iffs field_defs Let_def saturating_add_one_le not_le)

lemma not_terminal_iff: "\<not> is_terminal s \<longleftrightarrow> s = Queued \<or> s = Claimed"
  by (cases s) (auto simp: is_terminal_def)

lemma mark_superseded_at_epoch_eq:
  assumes "dispatch_ok d" and "\<not> is_terminal (status d)"
  shows "mark_superseded_at_epoch d now epoch r =
    (Ok (), superseded_fields (d\<lparr>dispatch_epoch := epoch\<rparr>) now r)"
proof -
  have ok: "dispatch_ok (superseded_fields (d\<lparr>dispatch_epoch := epoch\<rparr>) now r)"
    using assms by (simp add: superseded_fields_ok dispatch_ok_identity)
  from assms(2) have "status d = Queued \<or> status d = Claimed"
    by (simp add: not_terminal_iff)
  then show ?thesis
  proof
    assume q: "status d = Queued"
    then show ?thesis using ok
      by (simp add: mark_superseded_at_epoch_def mark_superseded_def guarded_enabled)
  next
    assume c: "status d = Claimed"
    then show ?thesis using ok
      by (simp add: mark_superseded_at_epoch_def Let_def dispatch_ok_def valid_dispatch_def)
  qed
qed

interpretation epoch_step: dispatch_step "\<lambda>d. mark_superseded_at_epoch d n e r"
  "\<lambda>d. \<not> is_terminal (status d)" "{Superseded}" "\<lambda>d. e" for n e r
proof
  show "same_identity d (snd (mark_superseded_at_epoch d n e r))" for d
    by (cases "status d"; cases r)
      (simp_all add: mark_superseded_at_epoch_def mark_superseded_def guarded_def
        require_status_def field_defs Let_def)
  show "dispatch_ok (snd (mark_superseded_at_epoch d n e r))"
    if "dispatch_ok d" "\<not> is_terminal (status d)" for d
    using that by (simp add: mark_superseded_at_epoch_eq superseded_fields_ok dispatch_ok_identity)
qed (auto simp add: mark_superseded_at_epoch_eq not_terminal_iff)

interpretation result_step: dispatch_step "\<lambda>d. record_run_result d res n"
  "\<lambda>d. status d = Claimed \<and> run_id d = rr_run_id res" "{Claimed}" dispatch_epoch for res n
proof
  show "same_identity d (snd (record_run_result d res n))" for d
    by (simp add: record_run_result_def require_status_def same_identity_def Let_def)
  fix d
  assume "dispatch_ok d" and "status d = Claimed \<and> run_id d = rr_run_id res"
  moreover from this have "dispatch_ok (d\<lparr>dispatch_instance_id := Some (rr_dispatch_instance_id res),
      run_status := Some (rr_status res), run_termination := rr_termination res,
      run_response := rr_response res, run_error := rr_error res, completed_at := Some n,
      updated_at := n\<rparr>)"
    by (auto simp: dispatch_ok_claimed_iff identity_ok_def)
  ultimately show "fst (record_run_result d res n) = Ok ()"
    and "dispatch_ok (snd (record_run_result d res n))"
    and "status (snd (record_run_result d res n)) \<in> {Claimed}"
    and "dispatch_epoch (snd (record_run_result d res n)) = dispatch_epoch d"
    by (simp_all add: record_run_result_def require_status_def Let_def dispatch_ok_def
        valid_dispatch_def)
qed auto

end
