(* ===== verification/Memory_Mailbox.thy ===== *)
theory Memory_Mailbox
  imports Run_Dispatch
begin

text \<open>
  The in-memory mailbox store: the lease-based queue of run dispatches with per-thread dispatch
  epochs (\<^verbatim>\<open>awaken-stores/src/memory_mailbox.rs\<close>) over the panicking transition wrappers of
  \<^verbatim>\<open>awaken-stores/src/mailbox_state.rs\<close>.

  Each store method takes the write lock on the dispatch table for its whole body, so a method is
  one atomic step: a function from the store to an outcome and the store it leaves. A claim
  token is a UUID drawn from an external crate, hence an argument.
\<close>

section \<open>State\<close>

record MailboxState =
  current_dispatch_epoch :: u64

record InMemoryMailboxStore =
  dispatches :: "(string, RunDispatch) hash_map"
  mb_state :: "(string, MailboxState) hash_map"

definition mb_new :: InMemoryMailboxStore where
  "mb_new = \<lparr>dispatches = [], mb_state = []\<rparr>"

definition current_epoch_from_state :: "(string, MailboxState) hash_map \<Rightarrow> string \<Rightarrow> u64" where
  "current_epoch_from_state state t =
     (case map_of state t of None \<Rightarrow> 0 | Some ms \<Rightarrow> current_dispatch_epoch ms)"

type_synonym 'a store_op = "('a, StorageError) outcome \<times> InMemoryMailboxStore"

section \<open>Transition wrappers\<close>

definition REASON_CLAIMED_SUPERSEDED_BY_EPOCH :: string where
  "REASON_CLAIMED_SUPERSEDED_BY_EPOCH = ''claimed dispatch superseded by newer dispatch epoch''"
definition REASON_CLAIMED_SUPERSEDED_BEFORE_START :: string where
  "REASON_CLAIMED_SUPERSEDED_BEFORE_START = ''claimed dispatch superseded before runtime start''"
definition REASON_CLAIMED_SUPERSEDED_BEFORE_RESULT :: string where
  "REASON_CLAIMED_SUPERSEDED_BEFORE_RESULT = ''claimed dispatch superseded before run result''"
definition REASON_CLAIMED_SUPERSEDED_BEFORE_NACK :: string where
  "REASON_CLAIMED_SUPERSEDED_BEFORE_NACK = ''claimed dispatch superseded before nack''"
definition REASON_CLAIMED_SUPERSEDED_BEFORE_DEAD_LETTER :: string where
  "REASON_CLAIMED_SUPERSEDED_BEFORE_DEAD_LETTER =
     ''claimed dispatch superseded before dead letter''"
definition REASON_CLAIMED_SUPERSEDED_DURING_LEASE_RENEWAL :: string where
  "REASON_CLAIMED_SUPERSEDED_DURING_LEASE_RENEWAL =
     ''claimed dispatch superseded during lease renewal''"
definition REASON_CLAIMED_LEASE_EXPIRED_AFTER_INTERRUPT :: string where
  "REASON_CLAIMED_LEASE_EXPIRED_AFTER_INTERRUPT =
     ''claimed dispatch lease expired after interrupt''"
definition REASON_QUEUED_SUPERSEDED_BY_INTERRUPT :: string where
  "REASON_QUEUED_SUPERSEDED_BY_INTERRUPT = ''queued dispatch superseded by interrupt''"
definition REASON_QUEUED_SUPERSEDED_BY_EPOCH :: string where
  "REASON_QUEUED_SUPERSEDED_BY_EPOCH = ''queued dispatch superseded by newer dispatch epoch''"
definition REASON_LEASE_EXPIRED_MAX_ATTEMPTS :: string where
  "REASON_LEASE_EXPIRED_MAX_ATTEMPTS = ''lease expired; max attempts reached''"

definition or_panic :: "string \<Rightarrow> transition \<Rightarrow> transition" where
  "or_panic msg tr = (expect msg (fst tr), snd tr)"

definition state_mark_superseded :: "RunDispatch \<Rightarrow> u64 \<Rightarrow> string option \<Rightarrow> transition" where
  "state_mark_superseded d now reason =
     or_panic ''superseded dispatch transition must preserve invariants''
       (mark_superseded d now reason)"

definition state_mark_superseded_at_epoch ::
  "RunDispatch \<Rightarrow> u64 \<Rightarrow> u64 \<Rightarrow> string option \<Rightarrow> transition" where
  "state_mark_superseded_at_epoch d now epoch reason =
     or_panic ''superseded dispatch transition must preserve invariants''
       (mark_superseded_at_epoch d now epoch reason)"

definition state_mark_acked :: "RunDispatch \<Rightarrow> u64 \<Rightarrow> transition" where
  "state_mark_acked d now =
     or_panic ''acked dispatch transition must preserve invariants'' (mark_acked d now)"

definition state_mark_cancelled :: "RunDispatch \<Rightarrow> u64 \<Rightarrow> transition" where
  "state_mark_cancelled d now =
     or_panic ''cancelled dispatch transition must preserve invariants'' (mark_cancelled d now)"

definition state_mark_dead_letter :: "RunDispatch \<Rightarrow> u64 \<Rightarrow> string \<Rightarrow> transition" where
  "state_mark_dead_letter d now error =
     or_panic ''dead-letter dispatch transition must preserve invariants''
       (mark_dead_letter d now error)"

definition state_mark_nack_result :: "RunDispatch \<Rightarrow> u64 \<Rightarrow> u64 \<Rightarrow> string \<Rightarrow> transition" where
  "state_mark_nack_result d now retry_at error =
     or_panic ''nack dispatch transition must preserve invariants''
       (mark_nack_result d now retry_at error)"

definition state_mark_expired_lease :: "RunDispatch \<Rightarrow> u64 \<Rightarrow> transition" where
  "state_mark_expired_lease d now =
     or_panic ''expired-lease dispatch transition must preserve invariants''
       (mark_expired_lease d now REASON_LEASE_EXPIRED_MAX_ATTEMPTS)"

section \<open>Operations\<close>

text \<open>
  \<open>finish\<close> is the end of a method that has run a transition on the record it holds by
  mutable reference: the record is stored as the transition left it, and the method goes on with
  \<open>res\<close> unless the transition failed.
\<close>

definition finish ::
  "string \<Rightarrow> transition \<Rightarrow> (RunDispatch \<Rightarrow> ('a, StorageError) outcome) \<Rightarrow>
   InMemoryMailboxStore \<Rightarrow> 'a store_op" where
  "finish d_id tr res st =
     (and_then (fst tr) (\<lambda>_. res (snd tr)),
      st\<lparr>dispatches := AList.update d_id (snd tr) (dispatches st)\<rparr>)"

abbreviation epoch_of :: "InMemoryMailboxStore \<Rightarrow> string \<Rightarrow> u64" where
  "epoch_of st t \<equiv> current_epoch_from_state (mb_state st) t"

text \<open>\<open>state.entry(thread).or_insert(epoch 0)\<close>\<close>

definition ensure_state :: "string \<Rightarrow> (string, MailboxState) hash_map \<Rightarrow> (string, MailboxState) hash_map" where
  "ensure_state t state =
     (case map_of state t of
        Some _ \<Rightarrow> state
      | None \<Rightarrow> AList.update t \<lparr>current_dispatch_epoch = 0\<rparr> state)"

definition dedupe_conflict :: "RunDispatch \<Rightarrow> string \<Rightarrow> InMemoryMailboxStore \<Rightarrow> bool" where
  "dedupe_conflict dispatch dk st =
     list_ex (\<lambda>j. thread_id j = thread_id dispatch \<and> dedupe_key j = Some dk \<and>
       \<not> is_terminal (status j)) (hm_values (dispatches st))"

text \<open>The part of \<open>enqueue\<close> after validation and the dedupe check.\<close>

definition mb_admit :: "RunDispatch \<Rightarrow> InMemoryMailboxStore \<Rightarrow> unit store_op" where
  "mb_admit dispatch st =
     (let st1 = st\<lparr>mb_state := ensure_state (thread_id dispatch) (mb_state st)\<rparr>;
          d = prepare_for_enqueue dispatch (epoch_of st1 (thread_id dispatch))
      in case validate_for_persist d of
           Err e \<Rightarrow> (Err e, st1)
         | Panic p \<Rightarrow> (Panic p, st1)
         | Ok _ \<Rightarrow> (Ok (), st1\<lparr>dispatches := AList.update (dispatch_id d) d (dispatches st1)\<rparr>))"

definition mb_enqueue :: "RunDispatch \<Rightarrow> InMemoryMailboxStore \<Rightarrow> unit store_op" where
  "mb_enqueue dispatch st =
     (case validate_for_enqueue dispatch of
        Err e \<Rightarrow> (Err e, st)
      | Panic p \<Rightarrow> (Panic p, st)
      | Ok _ \<Rightarrow>
          (case dedupe_key dispatch of
             Some dk \<Rightarrow>
               if dedupe_conflict dispatch dk st
               then (Err (AlreadyExists (''dedupe_key='' @ dk)), st)
               else mb_admit dispatch st
           | None \<Rightarrow> mb_admit dispatch st))"

text \<open>The first loop of \<open>claim\<close>: stale queued dispatches of the thread are superseded.\<close>

definition supersede_stale ::
  "string \<Rightarrow> u64 \<Rightarrow> u64 \<Rightarrow> RunDispatch \<Rightarrow> transition" where
  "supersede_stale t current_epoch now d =
     (if thread_id d = t \<and> status d = Queued \<and> dispatch_epoch d < current_epoch
      then state_mark_superseded_at_epoch d now current_epoch
             (Some REASON_QUEUED_SUPERSEDED_BY_EPOCH)
      else (Ok (), d))"

text \<open>The last loop of \<open>claim\<close>: each selected dispatch is claimed in place.\<close>

fun claim_ids ::
  "string list \<Rightarrow> string \<Rightarrow> string \<Rightarrow> u64 \<Rightarrow> u64 \<Rightarrow> (string, RunDispatch) hash_map \<Rightarrow>
   (RunDispatch list, StorageError) outcome \<times> (string, RunDispatch) hash_map" where
  "claim_ids [] consumer_id token lease now m = (Ok [], m)"
| "claim_ids (d_id # ids) consumer_id token lease now m =
     (case map_of m d_id of
        None \<Rightarrow> (Err (NotFound d_id), m)
      | Some d \<Rightarrow>
          (case claim d consumer_id token lease now of
             (Ok _, d') \<Rightarrow>
               (let (r, m') = claim_ids ids consumer_id token lease now (AList.update d_id d' m)
                in (map_ok (Cons d') r, m'))
           | (Err e, d') \<Rightarrow> (Err e, AList.update d_id d' m)
           | (Panic p, d') \<Rightarrow> (Panic p, AList.update d_id d' m)))"

definition claim_order :: "RunDispatch \<Rightarrow> u8 \<times> u64" where
  "claim_order j = (priority j, created_at j)"

definition claim_eligible ::
  "string \<Rightarrow> u64 \<Rightarrow> (string, RunDispatch) hash_map \<Rightarrow> (string, RunDispatch) hash_map" where
  "claim_eligible t now m =
     sort_key (\<lambda>(d_id, j). claim_order j)
       (filter (\<lambda>(d_id, j). thread_id j = t \<and> status j = Queued \<and> available_at j \<le> now) m)"

definition has_claimed :: "string \<Rightarrow> (string, RunDispatch) hash_map \<Rightarrow> bool" where
  "has_claimed t m = list_ex (\<lambda>j. thread_id j = t \<and> status j = Claimed) (hm_values m)"

definition mb_claim ::
  "string \<Rightarrow> string \<Rightarrow> u64 \<Rightarrow> u64 \<Rightarrow> nat \<Rightarrow> string \<Rightarrow> InMemoryMailboxStore \<Rightarrow> RunDispatch list store_op" where
  "mb_claim t consumer_id lease_ms now limit token st =
     (case each_value_mut (supersede_stale t (epoch_of st t) now) (dispatches st) of
        (Err e, m1) \<Rightarrow> (Err e, st\<lparr>dispatches := m1\<rparr>)
      | (Panic p, m1) \<Rightarrow> (Panic p, st\<lparr>dispatches := m1\<rparr>)
      | (Ok _, m1) \<Rightarrow>
          if has_claimed t m1 then (Ok [], st\<lparr>dispatches := m1\<rparr>)
          else
            (let ids = take limit (map fst (claim_eligible t now m1));
                 (r, m2) = claim_ids ids consumer_id token (now + lease_ms) now m1
             in (r, st\<lparr>dispatches := m2\<rparr>)))"

definition mb_claim_dispatch ::
  "string \<Rightarrow> string \<Rightarrow> u64 \<Rightarrow> u64 \<Rightarrow> string \<Rightarrow> InMemoryMailboxStore \<Rightarrow> RunDispatch option store_op" where
  "mb_claim_dispatch d_id consumer_id lease_ms now token st =
     (case map_of (dispatches st) d_id of
        None \<Rightarrow> (Ok None, st)
      | Some d \<Rightarrow>
          if status d \<noteq> Queued then (Ok None, st)
          else if dispatch_epoch d < epoch_of st (thread_id d) then
            finish d_id (state_mark_superseded_at_epoch d now (epoch_of st (thread_id d))
                (Some REASON_QUEUED_SUPERSEDED_BY_EPOCH)) (\<lambda>_. Ok None) st
          else if list_ex (\<lambda>j. thread_id j = thread_id d \<and> dispatch_id j \<noteq> d_id \<and> status j = Claimed)
              (hm_values (dispatches st)) then (Ok None, st)
          else finish d_id (claim d consumer_id token (now + lease_ms) now) (\<lambda>d'. Ok (Some d')) st)"

definition mb_ack :: "string \<Rightarrow> string \<Rightarrow> u64 \<Rightarrow> InMemoryMailboxStore \<Rightarrow> unit store_op" where
  "mb_ack d_id token now st =
     (case map_of (dispatches st) d_id of
        None \<Rightarrow> (Err (NotFound d_id), st)
      | Some d \<Rightarrow>
          if claim_token d \<noteq> Some token then (Err (VersionConflict 0 1), st)
          else if dispatch_epoch d < epoch_of st (thread_id d) then
            finish d_id (state_mark_superseded_at_epoch d now (epoch_of st (thread_id d))
                (Some REASON_CLAIMED_SUPERSEDED_BY_EPOCH))
              (\<lambda>_. Err (VersionConflict (dispatch_epoch d) (epoch_of st (thread_id d)))) st
          else finish d_id (state_mark_acked d now) (\<lambda>_. Ok ()) st)"

definition mb_record_dispatch_start ::
  "string \<Rightarrow> string \<Rightarrow> string \<Rightarrow> u64 \<Rightarrow> InMemoryMailboxStore \<Rightarrow> unit store_op" where
  "mb_record_dispatch_start d_id token instance_id now st =
     (case map_of (dispatches st) d_id of
        None \<Rightarrow> (Err (NotFound d_id), st)
      | Some d \<Rightarrow>
          if status d \<noteq> Claimed \<or> claim_token d \<noteq> Some token then (Err (VersionConflict 0 1), st)
          else if dispatch_epoch d < epoch_of st (thread_id d) then
            finish d_id (state_mark_superseded_at_epoch d now (epoch_of st (thread_id d))
                (Some REASON_CLAIMED_SUPERSEDED_BEFORE_START))
              (\<lambda>_. Err (VersionConflict (dispatch_epoch d) (epoch_of st (thread_id d)))) st
          else finish d_id (record_dispatch_start d instance_id now) (\<lambda>_. Ok ()) st)"

definition mb_record_run_result ::
  "string \<Rightarrow> string \<Rightarrow> RunDispatchResult \<Rightarrow> u64 \<Rightarrow> InMemoryMailboxStore \<Rightarrow> unit store_op" where
  "mb_record_run_result d_id token result now st =
     (case map_of (dispatches st) d_id of
        None \<Rightarrow> (Err (NotFound d_id), st)
      | Some d \<Rightarrow>
          if status d \<noteq> Claimed \<or> claim_token d \<noteq> Some token then (Err (VersionConflict 0 1), st)
          else if dispatch_epoch d < epoch_of st (thread_id d) then
            finish d_id (state_mark_superseded_at_epoch d now (epoch_of st (thread_id d))
                (Some REASON_CLAIMED_SUPERSEDED_BEFORE_RESULT))
              (\<lambda>_. Err (VersionConflict (dispatch_epoch d) (epoch_of st (thread_id d)))) st
          else finish d_id (record_run_result d result now) (\<lambda>_. Ok ()) st)"

definition mb_nack ::
  "string \<Rightarrow> string \<Rightarrow> u64 \<Rightarrow> string \<Rightarrow> u64 \<Rightarrow> InMemoryMailboxStore \<Rightarrow> unit store_op" where
  "mb_nack d_id token retry_at error now st =
     (case map_of (dispatches st) d_id of
        None \<Rightarrow> (Err (NotFound d_id), st)
      | Some d \<Rightarrow>
          if claim_token d \<noteq> Some token then (Err (VersionConflict 0 1), st)
          else if dispatch_epoch d < epoch_of st (thread_id d) then
            finish d_id (state_mark_superseded_at_epoch d now (epoch_of st (thread_id d))
                (Some REASON_CLAIMED_SUPERSEDED_BEFORE_NACK))
              (\<lambda>_. Err (VersionConflict (dispatch_epoch d) (epoch_of st (thread_id d)))) st
          else finish d_id (state_mark_nack_result d now retry_at error) (\<lambda>_. Ok ()) st)"

definition mb_dead_letter ::
  "string \<Rightarrow> string \<Rightarrow> string \<Rightarrow> u64 \<Rightarrow> InMemoryMailboxStore \<Rightarrow> unit store_op" where
  "mb_dead_letter d_id token error now st =
     (case map_of (dispatches st) d_id of
        None \<Rightarrow> (Err (NotFound d_id), st)
      | Some d \<Rightarrow>
          if claim_token d \<noteq> Some token then (Err (VersionConflict 0 1), st)
          else if dispatch_epoch d < epoch_of st (thread_id d) then
            finish d_id (state_mark_superseded_at_epoch d now (epoch_of st (thread_id d))
                (Some REASON_CLAIMED_SUPERSEDED_BEFORE_DEAD_LETTER))
              (\<lambda>_. Err (VersionConflict (dispatch_epoch d) (epoch_of st (thread_id d)))) st
          else finish d_id (state_mark_dead_letter d now error) (\<lambda>_. Ok ()) st)"

definition mb_cancel :: "string \<Rightarrow> u64 \<Rightarrow> InMemoryMailboxStore \<Rightarrow> RunDispatch option store_op" where
  "mb_cancel d_id now st =
     (case map_of (dispatches st) d_id of
        None \<Rightarrow> (Ok None, st)
      | Some d \<Rightarrow>
          if status d \<noteq> Queued then (Ok None, st)
          else finish d_id (state_mark_cancelled d now) (\<lambda>d'. Ok (Some d')) st)"

definition mb_extend_lease ::
  "string \<Rightarrow> string \<Rightarrow> u64 \<Rightarrow> u64 \<Rightarrow> InMemoryMailboxStore \<Rightarrow> bool store_op" where
  "mb_extend_lease d_id token extension_ms now st =
     (case map_of (dispatches st) d_id of
        None \<Rightarrow> (Ok False, st)
      | Some d \<Rightarrow>
          if \<not> (status d = Claimed \<and> claim_token d = Some token) then (Ok False, st)
          else if dispatch_epoch d < epoch_of st (thread_id d) then
            finish d_id (state_mark_superseded_at_epoch d now (epoch_of st (thread_id d))
                (Some REASON_CLAIMED_SUPERSEDED_DURING_LEASE_RENEWAL)) (\<lambda>_. Ok False) st
          else finish d_id (extend_lease d (now + extension_ms) now) (\<lambda>_. Ok True) st)"

record MailboxInterruptDetails =
  new_dispatch_epoch :: u64
  active_dispatch :: "RunDispatch option"
  superseded_count :: nat
  superseded_dispatches :: "RunDispatch list"

record MailboxInterrupt =
  mi_new_dispatch_epoch :: u64
  mi_active_dispatch :: "RunDispatch option"
  mi_superseded_count :: nat

definition into_summary :: "MailboxInterruptDetails \<Rightarrow> MailboxInterrupt" where
  "into_summary i =
     \<lparr>mi_new_dispatch_epoch = new_dispatch_epoch i, mi_active_dispatch = active_dispatch i,
      mi_superseded_count = superseded_count i\<rparr>"

text \<open>
  The loop of \<open>interrupt_detailed\<close>: it collects the superseded records in iteration order and
  keeps the last claimed record it meets.
\<close>

fun interrupt_scan ::
  "string \<Rightarrow> u64 \<Rightarrow> u64 \<Rightarrow> (string, RunDispatch) hash_map \<Rightarrow>
   (RunDispatch list \<times> RunDispatch option, StorageError) outcome \<times> (string, RunDispatch) hash_map" where
  "interrupt_scan t now old_epoch [] = (Ok ([], None), [])"
| "interrupt_scan t now old_epoch ((k, d) # m) =
     (if thread_id d = t \<and> status d = Queued \<and> dispatch_epoch d \<le> old_epoch then
        (case state_mark_superseded d now (Some REASON_QUEUED_SUPERSEDED_BY_INTERRUPT) of
           (Ok _, d') \<Rightarrow>
             (let (r, m') = interrupt_scan t now old_epoch m
              in (map_ok (\<lambda>(ds, a). (d' # ds, a)) r, (k, d') # m'))
         | (Err e, d') \<Rightarrow> (Err e, (k, d') # m)
         | (Panic p, d') \<Rightarrow> (Panic p, (k, d') # m))
      else if thread_id d = t \<and> status d = Claimed then
        (let (r, m') = interrupt_scan t now old_epoch m
         in (map_ok (\<lambda>(ds, a). (ds, case a of None \<Rightarrow> Some d | Some x \<Rightarrow> Some x)) r, (k, d) # m'))
      else
        (let (r, m') = interrupt_scan t now old_epoch m in (r, (k, d) # m')))"

definition mb_interrupt_detailed ::
  "string \<Rightarrow> u64 \<Rightarrow> InMemoryMailboxStore \<Rightarrow> MailboxInterruptDetails store_op" where
  "mb_interrupt_detailed t now st =
     (let state1 = ensure_state t (mb_state st);
          old_epoch = current_epoch_from_state state1 t;
          new_epoch = old_epoch + 1;
          state2 = AList.update t \<lparr>current_dispatch_epoch = new_epoch\<rparr> state1;
          (r, m') = interrupt_scan t now old_epoch (dispatches st)
      in (map_ok (\<lambda>(ds, a). \<lparr>new_dispatch_epoch = new_epoch, active_dispatch = a,
             superseded_count = length ds, superseded_dispatches = ds\<rparr>) r,
          st\<lparr>dispatches := m', mb_state := state2\<rparr>))"

definition mb_interrupt ::
  "string \<Rightarrow> u64 \<Rightarrow> InMemoryMailboxStore \<Rightarrow> MailboxInterrupt store_op" where
  "mb_interrupt t now st =
     (let (r, st') = mb_interrupt_detailed t now st in (map_ok into_summary r, st'))"

definition mb_current_dispatch_epoch ::
  "string \<Rightarrow> InMemoryMailboxStore \<Rightarrow> (u64, StorageError) outcome" where
  "mb_current_dispatch_epoch t st = Ok (epoch_of st t)"

definition mb_supersede_claimed ::
  "string \<Rightarrow> string \<Rightarrow> u64 \<Rightarrow> string \<Rightarrow> InMemoryMailboxStore \<Rightarrow> RunDispatch option store_op" where
  "mb_supersede_claimed d_id token now reason st =
     (case map_of (dispatches st) d_id of
        None \<Rightarrow> (Ok None, st)
      | Some d \<Rightarrow>
          if status d \<noteq> Claimed then (Ok None, st)
          else if claim_token d \<noteq> Some token then (Err (VersionConflict 0 1), st)
          else finish d_id (state_mark_superseded_at_epoch d now
                 (max (dispatch_epoch d) (epoch_of st (thread_id d))) (Some reason))
               (\<lambda>d'. Ok (Some d')) st)"

definition mb_load_dispatch :: "string \<Rightarrow> InMemoryMailboxStore \<Rightarrow> RunDispatch option" where
  "mb_load_dispatch d_id st = map_of (dispatches st) d_id"

definition mb_list_dispatches ::
  "string \<Rightarrow> RunDispatchStatus list option \<Rightarrow> nat \<Rightarrow> nat \<Rightarrow> InMemoryMailboxStore \<Rightarrow> RunDispatch list" where
  "mb_list_dispatches t status_filter limit offset st =
     take limit (drop offset (sort_key claim_order
       (filter (\<lambda>j. thread_id j = t \<and>
            (case status_filter of None \<Rightarrow> True | Some sf \<Rightarrow> status j \<in> set sf))
         (hm_values (dispatches st)))))"

definition mb_count_dispatches_by_status :: "RunDispatchStatus \<Rightarrow> InMemoryMailboxStore \<Rightarrow> nat" where
  "mb_count_dispatches_by_status s st =
     length (filter (\<lambda>d. status d = s) (hm_values (dispatches st)))"

definition mb_list_terminal_dispatches :: "nat \<Rightarrow> nat \<Rightarrow> InMemoryMailboxStore \<Rightarrow> RunDispatch list" where
  "mb_list_terminal_dispatches limit offset st =
     take limit (drop offset (sort_key (\<lambda>d. (updated_at d, created_at d, dispatch_id d))
       (filter (\<lambda>d. is_terminal (status d)) (hm_values (dispatches st)))))"

definition lease_expired :: "u64 \<Rightarrow> RunDispatch \<Rightarrow> bool" where
  "lease_expired now j \<longleftrightarrow>
     status j = Claimed \<and> (case lease_until j of None \<Rightarrow> False | Some lu \<Rightarrow> lu < now)"

fun reclaim_ids ::
  "string list \<Rightarrow> u64 \<Rightarrow> InMemoryMailboxStore \<Rightarrow> RunDispatch list store_op" where
  "reclaim_ids [] now st = (Ok [], st)"
| "reclaim_ids (d_id # ids) now st =
     (case map_of (dispatches st) d_id of
        None \<Rightarrow> (Err (NotFound d_id), st)
      | Some d \<Rightarrow>
          if dispatch_epoch d < epoch_of st (thread_id d) then
            (case state_mark_superseded_at_epoch d now (epoch_of st (thread_id d))
                (Some REASON_CLAIMED_LEASE_EXPIRED_AFTER_INTERRUPT) of
               (Ok _, d') \<Rightarrow>
                 reclaim_ids ids now (st\<lparr>dispatches := AList.update d_id d' (dispatches st)\<rparr>)
             | (Err e, d') \<Rightarrow> (Err e, st\<lparr>dispatches := AList.update d_id d' (dispatches st)\<rparr>)
             | (Panic p, d') \<Rightarrow> (Panic p, st\<lparr>dispatches := AList.update d_id d' (dispatches st)\<rparr>))
          else
            (case state_mark_expired_lease d now of
               (Ok _, d') \<Rightarrow>
                 (let (r, st') =
                    reclaim_ids ids now (st\<lparr>dispatches := AList.update d_id d' (dispatches st)\<rparr>)
                  in (map_ok (Cons d') r, st'))
             | (Err e, d') \<Rightarrow> (Err e, st\<lparr>dispatches := AList.update d_id d' (dispatches st)\<rparr>)
             | (Panic p, d') \<Rightarrow> (Panic p, st\<lparr>dispatches := AList.update d_id d' (dispatches st)\<rparr>)))"

definition mb_reclaim_expired_leases ::
  "u64 \<Rightarrow> nat \<Rightarrow> InMemoryMailboxStore \<Rightarrow> RunDispatch list store_op" where
  "mb_reclaim_expired_leases now limit st =
     reclaim_ids
       (map dispatch_id (take limit (filter (lease_expired now) (hm_values (dispatches st)))))
       now st"

definition mb_purge_terminal :: "u64 \<Rightarrow> InMemoryMailboxStore \<Rightarrow> nat \<times> InMemoryMailboxStore" where
  "mb_purge_terminal older_than st =
     (let before = length (dispatches st);
          m = hm_retain (\<lambda>_ j. \<not> (is_terminal (status j) \<and> updated_at j < older_than))
                (dispatches st);
          live_threads = map thread_id (hm_values m);
          state = hm_retain (\<lambda>t _. t \<in> set live_threads) (mb_state st)
      in (before - length m, st\<lparr>dispatches := m, mb_state := state\<rparr>))"

definition mb_queued_thread_ids :: "InMemoryMailboxStore \<Rightarrow> string list" where
  "mb_queued_thread_ids st =
     sort (remdups (map thread_id (filter (\<lambda>j. status j = Queued) (hm_values (dispatches st)))))"

end
