(* ===== verification/Mailbox_Invariant.thy ===== *)
theory Mailbox_Invariant
  imports Memory_Mailbox
begin

text \<open>
  Invariants of the in-memory mailbox store and the contract every store method meets: on a
  well-formed store it does not panic, it leaves a well-formed store, and it moves stored records
  only along the edges of the delivery state machine. The method contract is a locale that each
  method interprets; the reachable states of the store are then handled once, by rule induction
  over the commands a server issues.
\<close>

section \<open>Well-formed stores\<close>

text \<open>
  A stored record is filed under its own id, is valid with an attempt left while it is live, and
  never comes from a future epoch. A queued record is always of the current epoch of its thread.
\<close>

definition entry_ok :: "InMemoryMailboxStore \<Rightarrow> string \<Rightarrow> RunDispatch \<Rightarrow> bool" where
  "entry_ok st k d \<longleftrightarrow> dispatch_id d = k \<and> dispatch_ok d \<and>
     dispatch_epoch d \<le> epoch_of st (thread_id d) \<and>
     (status d = Queued \<longrightarrow> dispatch_epoch d = epoch_of st (thread_id d))"

definition store_ok :: "InMemoryMailboxStore \<Rightarrow> bool" where
  "store_ok st \<longleftrightarrow> hm_keys_distinct (dispatches st) \<and> hm_keys_distinct (mb_state st) \<and>
     list_all (\<lambda>(k, d). entry_ok st k d) (dispatches st)"

text \<open>No thread has two claimed dispatches.\<close>

definition both_claimed :: "RunDispatch \<Rightarrow> RunDispatch \<Rightarrow> bool" where
  "both_claimed d1 d2 \<longleftrightarrow>
     status d1 = Claimed \<and> status d2 = Claimed \<and> thread_id d1 = thread_id d2"

definition single_claim :: "InMemoryMailboxStore \<Rightarrow> bool" where
  "single_claim st \<longleftrightarrow> hm_unique both_claimed (dispatches st)"

text \<open>No thread has two live dispatches with the same dedupe key.\<close>

definition same_live_key :: "RunDispatch \<Rightarrow> RunDispatch \<Rightarrow> bool" where
  "same_live_key d1 d2 \<longleftrightarrow>
     \<not> is_terminal (status d1) \<and> \<not> is_terminal (status d2) \<and> thread_id d1 = thread_id d2 \<and>
     dedupe_key d1 \<noteq> None \<and> dedupe_key d1 = dedupe_key d2"

definition dedupe_ok :: "InMemoryMailboxStore \<Rightarrow> bool" where
  "dedupe_ok st \<longleftrightarrow> hm_unique same_live_key (dispatches st)"

definition mailbox_inv :: "InMemoryMailboxStore \<Rightarrow> bool" where
  "mailbox_inv st \<longleftrightarrow> store_ok st \<and> single_claim st \<and> dedupe_ok st"

abbreviation lookup :: "InMemoryMailboxStore \<Rightarrow> string \<Rightarrow> RunDispatch option" where
  "lookup st k \<equiv> map_of (dispatches st) k"

lemma store_ok_iff:
  "store_ok st \<longleftrightarrow> hm_keys_distinct (dispatches st) \<and> hm_keys_distinct (mb_state st) \<and>
     (\<forall>k d. lookup st k = Some d \<longrightarrow> entry_ok st k d)"
  using list_all_hm_iff [of "dispatches st" "entry_ok st"] by (simp add: store_ok_def cong: conj_cong)

lemma store_okD:
  assumes "store_ok st" and "lookup st k = Some d"
  shows "entry_ok st k d" "dispatch_ok d" "dispatch_id d = k"
    "dispatch_epoch d \<le> epoch_of st (thread_id d)"
    "status d = Queued \<Longrightarrow> dispatch_epoch d = epoch_of st (thread_id d)"
proof -
  show e: "entry_ok st k d" using assms by (simp add: store_ok_iff)
  then show "dispatch_ok d" "dispatch_id d = k" "dispatch_epoch d \<le> epoch_of st (thread_id d)"
    "status d = Queued \<Longrightarrow> dispatch_epoch d = epoch_of st (thread_id d)"
    by (simp_all add: entry_ok_def)
qed

lemma mailbox_invD:
  assumes "mailbox_inv st"
  shows "store_ok st" "single_claim st" "dedupe_ok st" "hm_keys_distinct (dispatches st)"
    "hm_keys_distinct (mb_state st)"
  using assms by (simp_all add: mailbox_inv_def store_ok_def)

section \<open>How a store may change\<close>

text \<open>
  A record moves by staying as it is or by taking an edge of the state machine with its identity
  fields kept. A store moves when each of its slots does: a record moves, a terminal record may be
  purged, and a new record arrives queued.
\<close>

definition record_moves :: "RunDispatch \<Rightarrow> RunDispatch \<Rightarrow> bool" where
  "record_moves d d' \<longleftrightarrow> d' = d \<or> dispatch_edge (status d) (status d') \<and> same_identity d d'"

fun slot_moves :: "RunDispatch option \<Rightarrow> RunDispatch option \<Rightarrow> bool" where
  "slot_moves None None = True"
| "slot_moves None (Some d') = (status d' = Queued)"
| "slot_moves (Some d) None = is_terminal (status d)"
| "slot_moves (Some d) (Some d') = record_moves d d'"

definition store_moves :: "InMemoryMailboxStore \<Rightarrow> InMemoryMailboxStore \<Rightarrow> bool" where
  "store_moves st st' \<longleftrightarrow> (\<forall>k. slot_moves (lookup st k) (lookup st' k))"

lemma record_moves_refl [simp]: "record_moves d d"
  by (simp add: record_moves_def)

lemma slot_moves_refl [simp]: "slot_moves s s"
  by (cases s) simp_all

lemma store_moves_refl [simp]: "store_moves st st"
  by (simp add: store_moves_def)

lemma store_movesD: "store_moves st st' \<Longrightarrow> slot_moves (lookup st k) (lookup st' k)"
  by (simp add: store_moves_def)

lemma record_moves_identity: "record_moves d d' \<Longrightarrow> same_identity d d'"
  by (auto simp: record_moves_def same_identity_def)

text \<open>A terminal record is final: while it is stored, it is the record it was.\<close>

lemma record_moves_terminal: "record_moves d d' \<Longrightarrow> is_terminal (status d) \<Longrightarrow> d' = d"
  by (auto simp: record_moves_def dest: dispatch_edge_live)

section \<open>Writing one record back\<close>

definition put_record :: "string \<Rightarrow> RunDispatch \<Rightarrow> InMemoryMailboxStore \<Rightarrow> InMemoryMailboxStore" where
  "put_record k d st = st\<lparr>dispatches := AList.update k d (dispatches st)\<rparr>"

lemma put_record_simps [simp]:
  "lookup (put_record k d st) k' = (if k' = k then Some d else lookup st k')"
  "mb_state (put_record k d st) = mb_state st"
  by (simp_all add: put_record_def)

lemma put_record_distinct:
  "hm_keys_distinct (dispatches st) \<Longrightarrow> hm_keys_distinct (dispatches (put_record k d st))"
  by (simp add: put_record_def distinct_update)

lemma put_record_ok:
  assumes "store_ok st" and "entry_ok st k d"
  shows "store_ok (put_record k d st)"
  using assms put_record_distinct [of st k d] by (auto simp: store_ok_iff entry_ok_def)

lemma put_record_moves:
  "lookup st k = Some d \<Longrightarrow> record_moves d d' \<Longrightarrow> store_moves st (put_record k d' st)"
  by (simp add: store_moves_def)

lemma put_record_single_claim:
  assumes "hm_keys_distinct (dispatches st)" and "single_claim st"
    and "\<And>k2 d2. status d' = Claimed \<Longrightarrow> k2 \<noteq> k \<Longrightarrow> lookup st k2 = Some d2 \<Longrightarrow>
      thread_id d2 = thread_id d' \<Longrightarrow> status d2 \<noteq> Claimed"
  shows "single_claim (put_record k d' st)"
  unfolding single_claim_def put_record_def
  using assms hm_unique_update [of both_claimed "dispatches st" k d']
  by (simp add: single_claim_def both_claimed_def) metis

text \<open>A live dedupe key can only vanish when records move.\<close>

lemma record_moves_live_key:
  "record_moves d1 e1 \<Longrightarrow> record_moves d2 e2 \<Longrightarrow> same_live_key e1 e2 \<Longrightarrow> same_live_key d1 d2"
  using record_moves_terminal [of d1 e1] record_moves_terminal [of d2 e2]
    record_moves_identity [of d1 e1] record_moves_identity [of d2 e2]
  unfolding same_live_key_def same_identity_def by metis

lemma store_moves_dedupe_ok:
  assumes "dedupe_ok st" and "hm_keys_distinct (dispatches st')" and mv: "store_moves st st'"
    and old: "\<And>k. lookup st' k \<noteq> None \<Longrightarrow> lookup st k \<noteq> None"
  shows "dedupe_ok st'"
  unfolding dedupe_ok_def
proof (rule hm_unique_back [OF assms(1) [unfolded dedupe_ok_def] assms(2)])
  fix k1 k2 e1 e2
  assume l: "lookup st' k1 = Some e1" "lookup st' k2 = Some e2" and e: "same_live_key e1 e2"
  then obtain d1 d2 where d: "lookup st k1 = Some d1" "lookup st k2 = Some d2"
    using old by blast
  with l store_movesD [OF mv, of k1] store_movesD [OF mv, of k2]
  have "record_moves d1 e1" "record_moves d2 e2" by simp_all
  with e d show "\<exists>d1 d2. lookup st k1 = Some d1 \<and> lookup st k2 = Some d2 \<and> same_live_key d1 d2"
    using record_moves_live_key by blast
qed

section \<open>The contract of a store method\<close>

text \<open>What a method may do to a well-formed store.\<close>

definition safe_step :: "InMemoryMailboxStore \<Rightarrow> 'a store_op \<Rightarrow> bool" where
  "safe_step st out \<longleftrightarrow> \<not> is_panic (fst out) \<and> mailbox_inv (snd out) \<and> store_moves st (snd out)"

lemma safe_step_stay: "mailbox_inv st \<Longrightarrow> \<not> is_panic r \<Longrightarrow> safe_step st (r, st)"
  by (simp add: safe_step_def)

locale store_method =
  fixes run :: "InMemoryMailboxStore \<Rightarrow> 'a store_op"
    and admissible :: "InMemoryMailboxStore \<Rightarrow> bool"
  assumes run_safe: "mailbox_inv st \<Longrightarrow> admissible st \<Longrightarrow> safe_step st (run st)"
begin

lemma no_panic: "mailbox_inv st \<Longrightarrow> admissible st \<Longrightarrow> \<not> is_panic (fst (run st))"
  using run_safe by (simp add: safe_step_def)

lemma keeps_inv: "mailbox_inv st \<Longrightarrow> admissible st \<Longrightarrow> mailbox_inv (snd (run st))"
  using run_safe by (simp add: safe_step_def)

lemma moves: "mailbox_inv st \<Longrightarrow> admissible st \<Longrightarrow> store_moves st (snd (run st))"
  using run_safe by (simp add: safe_step_def)

end

text \<open>No thread mate of the record at \<open>k\<close> is claimed.\<close>

definition thread_free :: "InMemoryMailboxStore \<Rightarrow> string \<Rightarrow> string \<Rightarrow> bool" where
  "thread_free st k t \<longleftrightarrow>
     (\<forall>k2 d2. k2 \<noteq> k \<longrightarrow> lookup st k2 = Some d2 \<longrightarrow> thread_id d2 = t \<longrightarrow> status d2 \<noteq> Claimed)"

lemma thread_free_of_claimed:
  assumes "mailbox_inv st" and "lookup st k = Some d" and "status d = Claimed"
  shows "thread_free st k (thread_id d)"
  unfolding thread_free_def
  using hm_uniqueD [OF mailbox_invD(2) [OF assms(1), unfolded single_claim_def] _ assms(2)] assms(3)
  by (simp add: both_claimed_def) metis

context dispatch_step
begin

lemma or_panic_eq: "dispatch_ok d \<Longrightarrow> enabled d \<Longrightarrow> or_panic msg (step d) = step d"
  by (metis or_panic_def expect_succeeds prod.collapse step_ok)

lemma finish_eq:
  "dispatch_ok d \<Longrightarrow> enabled d \<Longrightarrow>
   finish k (step d) res st = (res (snd (step d)), put_record k (snd (step d)) st)"
  by (simp add: finish_def put_record_def step_ok)

lemma step_fields [simp]:
  "thread_id (snd (step d)) = thread_id d" "dispatch_id (snd (step d)) = dispatch_id d"
  "max_attempts (snd (step d)) = max_attempts d" "priority (snd (step d)) = priority d"
  "created_at (snd (step d)) = created_at d" "dedupe_key (snd (step d)) = dedupe_key d"
  "run_id (snd (step d)) = run_id d"
  using step_frame [of d] by (simp_all add: same_identity_def)

text \<open>A transition on a stored record, written back, is a safe step of the store.\<close>

lemma put_safe:
  assumes inv: "mailbox_inv st" and l: "lookup st k = Some d" and en: "enabled d"
    and ep: "epoch_after d \<le> epoch_of st (thread_id d)"
    and q: "Queued \<in> targets \<Longrightarrow> epoch_after d = epoch_of st (thread_id d)"
    and c: "Claimed \<in> targets \<Longrightarrow> thread_free st k (thread_id d)"
    and r: "\<not> is_panic r"
  shows "safe_step st (r, put_record k (snd (step d)) st)"
proof -
  note ok = store_okD [OF mailbox_invD(1) [OF inv] l]
  have e: "dispatch_ok (snd (step d))" "status (snd (step d)) \<in> targets"
    "dispatch_epoch (snd (step d)) = epoch_after d"
    using ok(2) en step_keeps step_target step_epoch by blast+
  then have "entry_ok st k (snd (step d))"
    using ok(3) ep q by (simp add: entry_ok_def) metis
  then have 1: "store_ok (put_record k (snd (step d)) st)"
    by (rule put_record_ok [OF mailbox_invD(1) [OF inv]])
  have 2: "single_claim (put_record k (snd (step d)) st)"
    by (rule put_record_single_claim [OF mailbox_invD(4) [OF inv] mailbox_invD(2) [OF inv]])
      (metis c e(2) step_fields(1) thread_free_def)
  have "record_moves d (snd (step d))"
    using ok(2) en step_along_edge step_frame by (simp add: record_moves_def)
  then have 3: "store_moves st (put_record k (snd (step d)) st)"
    by (rule put_record_moves [OF l])
  have "dedupe_ok (put_record k (snd (step d)) st)"
    by (rule store_moves_dedupe_ok [OF mailbox_invD(3) [OF inv] _ 3])
      (simp_all add: put_record_distinct mailbox_invD [OF inv] l split: if_splits)
  with 1 2 3 r show ?thesis by (simp add: safe_step_def mailbox_inv_def)
qed

lemma finish_safe:
  assumes "mailbox_inv st" and "lookup st k = Some d" and "enabled d"
    and "epoch_after d \<le> epoch_of st (thread_id d)"
    and "Queued \<in> targets \<Longrightarrow> epoch_after d = epoch_of st (thread_id d)"
    and "Claimed \<in> targets \<Longrightarrow> thread_free st k (thread_id d)"
    and "\<And>d'. \<not> is_panic (res d')"
  shows "safe_step st (finish k (step d) res st)"
    and "safe_step st (finish k (or_panic msg (step d)) res st)"
  using put_safe [OF assms(1-6) assms(7)] store_okD(2) [OF mailbox_invD(1) [OF assms(1)] assms(2)]
  by (simp_all add: finish_eq or_panic_eq assms(3))

end

section \<open>Every method meets the contract\<close>

subsection \<open>Methods on one dispatch\<close>

lemmas state_mark_defs =
  state_mark_superseded_def state_mark_superseded_at_epoch_def state_mark_acked_def
  state_mark_cancelled_def state_mark_dead_letter_def state_mark_nack_result_def
  state_mark_expired_lease_def

text \<open>Only a claimed record carries a claim token.\<close>

lemma token_claimed: "dispatch_ok d \<Longrightarrow> claim_token d = Some t \<Longrightarrow> status d = Claimed"
  by (cases "status d") (simp_all add: shape_defs)

lemma stale_safe:
  assumes "mailbox_inv st" and "lookup st k = Some d" and "\<not> is_terminal (status d)"
    and "\<And>d'. \<not> is_panic (res d')"
  shows "safe_step st (finish k
    (state_mark_superseded_at_epoch d now (epoch_of st (thread_id d)) r) res st)"
  unfolding state_mark_defs
  by (rule epoch_step.finish_safe(2) [OF assms(1-3)]) (simp_all add: assms(4))

text \<open>A method that finds no record, or one it refuses, leaves the store as it is.\<close>

lemma safe_lookup:
  assumes "mailbox_inv st"
    and "\<not> is_panic r"
    and "\<And>d. lookup st k = Some d \<Longrightarrow> dispatch_ok d \<Longrightarrow> safe_step st (f d)"
  shows "safe_step st (case lookup st k of None \<Rightarrow> (r, st) | Some d \<Rightarrow> f d)"
  using assms store_okD(2) [OF mailbox_invD(1)] by (simp add: safe_step_stay split: option.split)

lemma safe_if:
  "(b \<Longrightarrow> safe_step st x) \<Longrightarrow> (\<not> b \<Longrightarrow> safe_step st y) \<Longrightarrow> safe_step st (if b then x else y)"
  by simp

lemma not_stale:
  "mailbox_inv st \<Longrightarrow> lookup st k = Some d \<Longrightarrow> \<not> dispatch_epoch d < epoch_of st (thread_id d) \<Longrightarrow>
   dispatch_epoch d = epoch_of st (thread_id d)"
  using store_okD(4) mailbox_invD(1) by (metis order_less_le)

lemma epoch_bound:
  "mailbox_inv st \<Longrightarrow> lookup st k = Some d \<Longrightarrow> dispatch_epoch d \<le> epoch_of st (thread_id d)"
  using store_okD(4) mailbox_invD(1) by blast

lemmas claimed_facts = token_claimed is_terminal_def thread_free_of_claimed not_stale epoch_bound

interpretation ack_method: store_method "mb_ack k tok now" "\<lambda>_. True" for k tok now
  by unfold_locales
    (simp only: mb_ack_def state_mark_acked_def, intro safe_lookup safe_if safe_step_stay stale_safe
      ack_step.finish_safe(2), auto simp: claimed_facts)

interpretation start_method: store_method "mb_record_dispatch_start k tok inst now" "\<lambda>_. True"
  for k tok inst now
  by unfold_locales
    (simp only: mb_record_dispatch_start_def, intro safe_lookup safe_if safe_step_stay stale_safe
      start_step.finish_safe(1), auto simp: claimed_facts)

interpretation nack_method: store_method "mb_nack k tok at e now" "\<lambda>_. True" for k tok at e now
  by unfold_locales
    (simp only: mb_nack_def state_mark_nack_result_def, intro safe_lookup safe_if safe_step_stay
      stale_safe nack_step.finish_safe(2), auto simp: claimed_facts)

interpretation dead_letter_method: store_method "mb_dead_letter k tok e now" "\<lambda>_. True"
  for k tok e now
  by unfold_locales
    (simp only: mb_dead_letter_def state_mark_dead_letter_def, intro safe_lookup safe_if
      safe_step_stay stale_safe dead_step.finish_safe(2), auto simp: claimed_facts)

interpretation cancel_method: store_method "mb_cancel k now" "\<lambda>_. True" for k now
  by unfold_locales
    (simp only: mb_cancel_def state_mark_cancelled_def, intro safe_lookup safe_if
      safe_step_stay cancel_step.finish_safe(2), auto simp: claimed_facts)

interpretation extend_method: store_method "mb_extend_lease k tok ext now" "\<lambda>_. True"
  for k tok ext now
  by unfold_locales
    (simp only: mb_extend_lease_def, intro safe_lookup safe_if safe_step_stay stale_safe
      extend_step.finish_safe(1), auto simp: claimed_facts)

lemma safe_rewrite:
  "mailbox_inv st \<Longrightarrow> lookup st k = Some d \<Longrightarrow> \<not> is_panic r \<Longrightarrow>
   (\<And>d'. \<not> is_panic (res d')) \<Longrightarrow> safe_step st (finish k (r, d) res st)"
  by (cases r) (simp_all add: finish_def update_triv safe_step_stay)

interpretation result_method: store_method "mb_record_run_result k tok res now" "\<lambda>_. True"
  for k tok res now
proof
  fix st
  assume inv: "mailbox_inv st"
  have "safe_step st (finish k (record_run_result d res now) (\<lambda>_. Ok ()) st)"
    if l: "lookup st k = Some d" and c: "status d = Claimed" for d
  proof (cases "run_id d = rr_run_id res")
    case True
    then show ?thesis
      by (intro result_step.finish_safe(1)) (use inv l c in \<open>auto simp: claimed_facts\<close>)
  next
    case False
    with c obtain e where "record_run_result d res now = (Err e, d)"
      by (auto simp: record_run_result_def require_status_def)
    with inv l show ?thesis by (auto intro: safe_rewrite)
  qed
  then show "safe_step st (mb_record_run_result k tok res now st)"
    unfolding mb_record_run_result_def
    by (intro safe_lookup safe_if safe_step_stay stale_safe inv) (auto simp: is_terminal_def)
qed

interpretation supersede_method: store_method "mb_supersede_claimed k tok now reason" "\<lambda>_. True"
  for k tok now reason
  by unfold_locales
    (simp only: mb_supersede_claimed_def state_mark_superseded_at_epoch_def,
      intro safe_lookup safe_if safe_step_stay epoch_step.finish_safe(2),
      auto simp: claimed_facts max_def)

lemma no_other_claimed:
  assumes "mailbox_inv st"
    and "\<not> list_ex (\<lambda>j. thread_id j = t \<and> dispatch_id j \<noteq> k \<and> status j = Claimed)
      (hm_values (dispatches st))"
  shows "thread_free st k t"
  using assms(2) store_okD(3) [OF mailbox_invD(1) [OF assms(1)]]
  unfolding thread_free_def list_ex_hm_iff [OF mailbox_invD(4) [OF assms(1)]] by metis

interpretation claim_dispatch_method: store_method "mb_claim_dispatch k c lease now tok"
  "\<lambda>_. \<not> blank c \<and> \<not> blank tok" for k c lease now tok
  by unfold_locales
    (simp only: mb_claim_dispatch_def, intro safe_lookup safe_if safe_step_stay stale_safe
      claim_step.finish_safe(1), auto simp: claimed_facts no_other_claimed)

subsection \<open>Enqueue\<close>

lemma ensure_state_simps [simp]:
  "current_epoch_from_state (ensure_state t state) t' = current_epoch_from_state state t'"
  "hm_keys_distinct (ensure_state t state) = hm_keys_distinct state"
  by (auto simp: ensure_state_def current_epoch_from_state_def distinct_update update_keys
      split: option.split)

lemma prepare_for_enqueue_simps [simp]:
  "status (prepare_for_enqueue d e) = Queued" "dispatch_epoch (prepare_for_enqueue d e) = e"
  "thread_id (prepare_for_enqueue d e) = thread_id d"
  "dispatch_id (prepare_for_enqueue d e) = dispatch_id d"
  "dedupe_key (prepare_for_enqueue d e) = dedupe_key d"
  by (simp_all add: prepare_for_enqueue_def)

lemma prepare_for_enqueue_ok:
  "validate_for_enqueue d = Ok () \<Longrightarrow> attempt_count d < max_attempts d \<Longrightarrow>
   dispatch_ok (prepare_for_enqueue d e)"
  by (simp add: validate_for_enqueue_Ok valid_dispatch_iff shape_defs prepare_for_enqueue_def)

text \<open>Admission files the prepared record under its id, in a thread whose epoch now exists.\<close>

definition admitted :: "RunDispatch \<Rightarrow> InMemoryMailboxStore \<Rightarrow> InMemoryMailboxStore" where
  "admitted d st =
     put_record (dispatch_id d) (prepare_for_enqueue d (epoch_of st (thread_id d)))
       (st\<lparr>mb_state := ensure_state (thread_id d) (mb_state st)\<rparr>)"

lemma mb_admit_eq:
  assumes "validate_for_enqueue d = Ok ()" and "attempt_count d < max_attempts d"
  shows "mb_admit d st = (Ok (), admitted d st)"
proof -
  have "validate_for_persist (prepare_for_enqueue d (epoch_of st (thread_id d))) = Ok ()"
    using prepare_for_enqueue_ok [OF assms] by (simp add: dispatch_ok_def valid_dispatch_def)
  then show ?thesis by (simp add: mb_admit_def admitted_def put_record_def Let_def)
qed

lemma ensure_state_inv:
  assumes "mailbox_inv st"
  shows "mailbox_inv (st\<lparr>mb_state := ensure_state t (mb_state st)\<rparr>)"
  using assms by (simp add: mailbox_inv_def store_ok_def single_claim_def dedupe_ok_def entry_ok_def)

lemma admitted_inv:
  assumes inv: "mailbox_inv st" and v: "validate_for_enqueue d = Ok ()"
    and a: "attempt_count d < max_attempts d" and fresh: "lookup st (dispatch_id d) = None"
    and dd: "\<And>dk. dedupe_key d = Some dk \<Longrightarrow> \<not> dedupe_conflict d dk st"
  shows "mailbox_inv (admitted d st)"
proof -
  let ?st = "st\<lparr>mb_state := ensure_state (thread_id d) (mb_state st)\<rparr>"
  let ?d = "prepare_for_enqueue d (epoch_of st (thread_id d))"
  note inv' = ensure_state_inv [OF inv, of "thread_id d"]
  have "entry_ok ?st (dispatch_id d) ?d"
    using prepare_for_enqueue_ok [OF v a] by (simp add: entry_ok_def)
  then have 1: "store_ok (admitted d st)"
    unfolding admitted_def by (rule put_record_ok [OF mailbox_invD(1) [OF inv']])
  have 2: "single_claim (admitted d st)"
    unfolding admitted_def
    by (rule put_record_single_claim [OF mailbox_invD(4) [OF inv'] mailbox_invD(2) [OF inv']]) simp
  have "\<not> same_live_key ?d v \<and> \<not> same_live_key v ?d" if "lookup st k = Some v" for k v
    using dd that unfolding dedupe_conflict_def list_ex_hm_iff [OF mailbox_invD(4) [OF inv]]
    by (simp add: same_live_key_def) (metis option.exhaust)
  then have 3: "dedupe_ok (admitted d st)"
    using hm_unique_update [of same_live_key "dispatches st" "dispatch_id d" ?d]
      mailbox_invD(3,4) [OF inv]
    by (simp add: dedupe_ok_def admitted_def put_record_def)
  from 1 2 3 show ?thesis by (simp add: mailbox_inv_def)
qed

lemma admitted_moves: "lookup st (dispatch_id d) = None \<Longrightarrow> store_moves st (admitted d st)"
  by (simp add: store_moves_def admitted_def)

lemma validate_for_enqueue_no_panic [simp]: "\<not> is_panic (validate_for_enqueue d)"
  by (simp add: validate_for_enqueue_def)

interpretation enqueue_method: store_method "mb_enqueue d"
  "\<lambda>st. lookup st (dispatch_id d) = None \<and> attempt_count d < max_attempts d" for d
proof
  fix st
  assume inv: "mailbox_inv st"
    and ad: "lookup st (dispatch_id d) = None \<and> attempt_count d < max_attempts d"
  show "safe_step st (mb_enqueue d st)"
  proof (cases "validate_for_enqueue d")
    case (Ok u)
    then have v: "validate_for_enqueue d = Ok ()" by simp
    have "safe_step st (mb_admit d st)" if "\<And>dk. dedupe_key d = Some dk \<Longrightarrow> \<not> dedupe_conflict d dk st"
      using inv v ad that by (simp add: safe_step_def mb_admit_eq admitted_inv admitted_moves)
    then show ?thesis
      using inv v by (cases "dedupe_key d") (simp_all add: mb_enqueue_def safe_step_stay)
  next
    case (Err e)
    then show ?thesis using inv by (simp add: mb_enqueue_def safe_step_stay)
  next
    case (Panic p)
    then show ?thesis using validate_for_enqueue_no_panic [of d] by simp
  qed
qed

subsection \<open>Claim\<close>

text \<open>On a well-formed store the sweep for stale queued dispatches finds nothing to do.\<close>

lemma supersede_stale_idle:
  assumes "mailbox_inv st"
  shows "each_value_mut (supersede_stale t (epoch_of st t) now) (dispatches st) = (Ok (), dispatches st)"
proof (rule each_value_mut_id)
  fix k d
  assume "(k, d) \<in> set (dispatches st)"
  then have "lookup st k = Some d" using mailbox_invD(4) [OF assms] by (simp add: hm_mem_iff)
  then show "supersede_stale t (epoch_of st t) now d = (Ok (), d)"
    using store_okD(5) [OF mailbox_invD(1) [OF assms]] by (auto simp: supersede_stale_def)
qed

lemma mb_claim_eq:
  assumes "mailbox_inv st"
  shows "mb_claim t c lease now limit tok st =
    (if has_claimed t (dispatches st) then (Ok [], st)
     else map_prod id (\<lambda>m. st\<lparr>dispatches := m\<rparr>)
       (claim_ids (take limit (map fst (claim_eligible t now (dispatches st)))) c tok
          (now + lease) now (dispatches st)))"
  by (simp add: mb_claim_def supersede_stale_idle [OF assms] Let_def split_beta map_prod_def)

lemma claim_eligible_set:
  assumes "hm_keys_distinct m"
  shows "set (map fst (claim_eligible t now m)) =
    {k. \<exists>d. map_of m k = Some d \<and> thread_id d = t \<and> status d = Queued \<and> available_at d \<le> now}"
    and "distinct (map fst (claim_eligible t now m))"
proof -
  show "set (map fst (claim_eligible t now m)) =
    {k. \<exists>d. map_of m k = Some d \<and> thread_id d = t \<and> status d = Queued \<and> available_at d \<le> now}"
    unfolding claim_eligible_def hm_mem_iff [OF assms, symmetric] by (auto simp: image_iff)
  have "inj_on fst (set m)" "distinct m"
    using assms by (simp_all add: distinct_map)
  then show "distinct (map fst (claim_eligible t now m))"
    by (auto simp: claim_eligible_def distinct_map inj_on_def)
qed

text \<open>The record a claim leaves.\<close>

definition claimed_as :: "string \<Rightarrow> string \<Rightarrow> u64 \<Rightarrow> u64 \<Rightarrow> RunDispatch \<Rightarrow> RunDispatch" where
  "claimed_as c tok lease now d = snd (claim d c tok lease now)"

lemma claim_ids_ok:
  assumes "distinct ids" and "\<not> blank c" "\<not> blank tok"
    and "\<And>k. k \<in> set ids \<Longrightarrow> \<exists>d. map_of m k = Some d \<and> dispatch_ok d \<and> status d = Queued"
  shows "fst (claim_ids ids c tok lease now m) =
      Ok (map (\<lambda>k. claimed_as c tok lease now (the (map_of m k))) ids) \<and>
    map_of (snd (claim_ids ids c tok lease now m)) k =
      (if k \<in> set ids then map_option (claimed_as c tok lease now) (map_of m k) else map_of m k)"
  using assms
proof (induction ids arbitrary: m)
  case (Cons i ids)
  from Cons.prems(4) [of i] obtain d where
    d: "map_of m i = Some d" "dispatch_ok d" "status d = Queued" by auto
  with Cons.prems have "fst (claim d c tok lease now) = Ok ()"
    using claim_step.step_ok [of d c tok lease now] by simp
  then have cl: "claim d c tok lease now = (Ok (), claimed_as c tok lease now d)"
    unfolding claimed_as_def by (metis prod.collapse)
  let ?m = "AList.update i (claimed_as c tok lease now d) m"
  have IH: "fst (claim_ids ids c tok lease now ?m) =
      Ok (map (\<lambda>k. claimed_as c tok lease now (the (map_of ?m k))) ids) \<and>
    map_of (snd (claim_ids ids c tok lease now ?m)) k =
      (if k \<in> set ids then map_option (claimed_as c tok lease now) (map_of ?m k) else map_of ?m k)"
    using Cons.prems by (intro Cons.IH) auto
  have "map (\<lambda>k. claimed_as c tok lease now (the (map_of ?m k))) ids =
      map (\<lambda>k. claimed_as c tok lease now (the (map_of m k))) ids"
    using Cons.prems(1) by auto
  with IH show ?case using Cons.prems(1) by (auto simp: d(1) cl split_beta)
qed simp

lemma not_has_claimed:
  assumes "mailbox_inv st" and "\<not> has_claimed t (dispatches st)"
  shows "thread_free st k t"
  using assms(2) unfolding has_claimed_def list_ex_hm_iff [OF mailbox_invD(4) [OF assms(1)]]
    thread_free_def by metis

interpretation claim_method: store_method "mb_claim t c lease now limit tok"
  "\<lambda>_. \<not> blank c \<and> \<not> blank tok \<and> limit \<le> 1" for t c lease now limit tok
proof
  fix st
  assume inv: "mailbox_inv st" and ad: "\<not> blank c \<and> \<not> blank tok \<and> limit \<le> 1"
  let ?ids = "take limit (map fst (claim_eligible t now (dispatches st)))"
  have "?ids = [] \<or> (\<exists>k. ?ids = [k])"
    using ad by (cases limit; cases "claim_eligible t now (dispatches st)") auto
  moreover have "safe_step st (mb_claim t c lease now limit tok st)"
    if nc: "\<not> has_claimed t (dispatches st)" and k: "?ids = [k]" for k
  proof -
    have "k \<in> set (map fst (claim_eligible t now (dispatches st)))"
      using k by (metis in_set_takeD list.set_intros(1))
    then obtain d where d: "lookup st k = Some d" "thread_id d = t" "status d = Queued"
      unfolding claim_eligible_set [OF mailbox_invD(4) [OF inv]] by auto
    have ok: "dispatch_ok d" using store_okD(2) [OF mailbox_invD(1) [OF inv] d(1)] .
    have "fst (claim d c tok (now + lease) now) = Ok ()"
      using claim_step.step_ok [OF ok] ad d(3) by simp
    then have eq: "mb_claim t c lease now limit tok st =
        (Ok [snd (claim d c tok (now + lease) now)], put_record k (snd (claim d c tok (now + lease) now)) st)"
      using nc k d by (simp add: mb_claim_eq [OF inv] put_record_def split_beta)
    show ?thesis
      unfolding eq
      by (rule claim_step.put_safe [OF inv d(1)])
        (use ad d not_has_claimed [OF inv nc] epoch_bound [OF inv d(1)] in auto)
  qed
  ultimately show "safe_step st (mb_claim t c lease now limit tok st)"
    using inv by (auto simp: mb_claim_eq safe_step_stay)
qed

subsection \<open>Interrupt\<close>

definition interrupt_hits :: "string \<Rightarrow> RunDispatch \<Rightarrow> bool" where
  "interrupt_hits t d \<longleftrightarrow> thread_id d = t \<and> status d = Queued"

definition interrupted :: "string \<Rightarrow> u64 \<Rightarrow> RunDispatch \<Rightarrow> RunDispatch" where
  "interrupted t now d =
     (if interrupt_hits t d
      then superseded_fields d now (Some REASON_QUEUED_SUPERSEDED_BY_INTERRUPT) else d)"

lemma state_mark_superseded_eq:
  assumes "dispatch_ok d" and "status d = Queued"
  shows "state_mark_superseded d now r = (Ok (), superseded_fields d now r)"
proof -
  have "mark_superseded d now r = (Ok (), superseded_fields d now r)"
    using assms guarded_enabled superseded_fields_ok dispatch_ok_identity
    by (simp add: mark_superseded_def)
  then show ?thesis by (simp add: state_mark_superseded_def or_panic_def)
qed

text \<open>
  The scan supersedes every queued record of the thread, reports them in iteration order, and
  reports the last claimed one.
\<close>

lemma interrupt_scan_eq:
  assumes "\<And>k d. (k, d) \<in> set m \<Longrightarrow>
    dispatch_ok d \<and> (interrupt_hits t d \<longrightarrow> dispatch_epoch d \<le> e)"
  shows "interrupt_scan t now e m =
    (Ok (map (interrupted t now) (filter (interrupt_hits t) (hm_values m)),
         find (\<lambda>d. thread_id d = t \<and> status d = Claimed) (rev (hm_values m))),
     hm_map_values (interrupted t now) m)"
  using assms
proof (induction m)
  case Nil
  then show ?case by (simp add: hm_map_values_def)
next
  case (Cons p m)
  obtain k d where p: "p = (k, d)" by (cases p)
  have IH: "interrupt_scan t now e m =
    (Ok (map (interrupted t now) (filter (interrupt_hits t) (hm_values m)),
         find (\<lambda>d. thread_id d = t \<and> status d = Claimed) (rev (hm_values m))),
     hm_map_values (interrupted t now) m)"
    by (rule Cons.IH) (metis Cons.prems list.set_intros(2))
  have d: "dispatch_ok d" "interrupt_hits t d \<longrightarrow> dispatch_epoch d \<le> e"
    using Cons.prems [of k d] p by auto
  have fa: "find P (xs @ [d]) = (case find P xs of None \<Rightarrow> if P d then Some d else None | Some y \<Rightarrow> Some y)"
    for P :: "RunDispatch \<Rightarrow> bool" and xs
    by (induction xs) auto
  show ?case
    using d
    by (cases "interrupt_hits t d")
      (auto simp: p IH fa state_mark_superseded_eq interrupt_hits_def [of t d]
        interrupted_def [of t now d] hm_map_values_def split: option.split)
qed

text \<open>The store an interrupt leaves.\<close>

definition interrupted_store :: "string \<Rightarrow> u64 \<Rightarrow> InMemoryMailboxStore \<Rightarrow> InMemoryMailboxStore" where
  "interrupted_store t now st =
     st\<lparr>dispatches := hm_map_values (interrupted t now) (dispatches st),
        mb_state := AList.update t \<lparr>current_dispatch_epoch = epoch_of st t + 1\<rparr>
          (ensure_state t (mb_state st))\<rparr>"

lemma mb_interrupt_detailed_eq:
  assumes "mailbox_inv st"
  shows "mb_interrupt_detailed t now st =
    (Ok \<lparr>new_dispatch_epoch = epoch_of st t + 1,
         active_dispatch = find (\<lambda>d. thread_id d = t \<and> status d = Claimed)
           (rev (hm_values (dispatches st))),
         superseded_count = length (filter (interrupt_hits t) (hm_values (dispatches st))),
         superseded_dispatches =
           map (interrupted t now) (filter (interrupt_hits t) (hm_values (dispatches st)))\<rparr>,
     interrupted_store t now st)"
proof -
  have "interrupt_scan t now (epoch_of st t) (dispatches st) =
    (Ok (map (interrupted t now) (filter (interrupt_hits t) (hm_values (dispatches st))),
         find (\<lambda>d. thread_id d = t \<and> status d = Claimed) (rev (hm_values (dispatches st)))),
     hm_map_values (interrupted t now) (dispatches st))"
  proof (rule interrupt_scan_eq)
    fix k d
    assume "(k, d) \<in> set (dispatches st)"
    then have l: "lookup st k = Some d" using mailbox_invD(4) [OF assms] by (simp add: hm_mem_iff)
    show "dispatch_ok d \<and> (interrupt_hits t d \<longrightarrow> dispatch_epoch d \<le> epoch_of st t)"
      using store_okD [OF mailbox_invD(1) [OF assms] l] by (auto simp: interrupt_hits_def)
  qed
  then show ?thesis
    by (simp add: mb_interrupt_detailed_def Let_def interrupted_store_def)
qed

lemma interrupted_store_simps [simp]:
  "lookup (interrupted_store t now st) k = map_option (interrupted t now) (lookup st k)"
  "epoch_of (interrupted_store t now st) t' = (if t' = t then epoch_of st t + 1 else epoch_of st t')"
  "hm_keys_distinct (dispatches (interrupted_store t now st)) = hm_keys_distinct (dispatches st)"
  "hm_keys_distinct (mb_state st) \<Longrightarrow> hm_keys_distinct (mb_state (interrupted_store t now st))"
  using ensure_state_simps(1) [of t "mb_state st" t']
  by (simp_all add: interrupted_store_def current_epoch_from_state_def distinct_update)

lemma interrupted_simps [simp]:
  "thread_id (interrupted t now d) = thread_id d"
  "dispatch_id (interrupted t now d) = dispatch_id d"
  "dispatch_epoch (interrupted t now d) = dispatch_epoch d"
  by (simp_all add: interrupted_def)

lemma interrupted_moves: "record_moves d (interrupted t now d)"
  by (simp add: interrupted_def interrupt_hits_def record_moves_def)

lemma interrupted_ok: "dispatch_ok d \<Longrightarrow> dispatch_ok (interrupted t now d)"
  by (simp add: interrupted_def superseded_fields_ok dispatch_ok_identity)

lemma interrupted_entry_ok:
  assumes "entry_ok st k d" and "epoch_of st t \<noteq> - 1"
  shows "entry_ok (interrupted_store t now st) k (interrupted t now d)"
proof -
  have "status (interrupted t now d) \<noteq> Queued" if "thread_id d = t"
    using that by (simp add: interrupted_def interrupt_hits_def)
  moreover have "status (interrupted t now d) = status d" if "thread_id d \<noteq> t"
    using that by (simp add: interrupted_def interrupt_hits_def)
  ultimately show ?thesis
    using assms by (auto simp: entry_ok_def interrupted_ok le_add_one_word)
qed

lemma interrupted_claimed_iff: "status (interrupted t now d) = Claimed \<longleftrightarrow> status d = Claimed"
  by (auto simp: interrupted_def interrupt_hits_def)

lemma interrupted_store_inv:
  assumes inv: "mailbox_inv st" and e: "epoch_of st t \<noteq> - 1"
  shows "mailbox_inv (interrupted_store t now st)" "store_moves st (interrupted_store t now st)"
proof -
  show mv: "store_moves st (interrupted_store t now st)"
    unfolding store_moves_def
  proof
    show "slot_moves (lookup st k) (lookup (interrupted_store t now st) k)" for k
      by (cases "lookup st k") (simp_all add: interrupted_moves)
  qed
  have "store_ok (interrupted_store t now st)"
    using mailbox_invD [OF inv] interrupted_entry_ok [OF store_okD(1) [OF mailbox_invD(1) [OF inv]] e]
    by (simp add: store_ok_iff) metis
  moreover have "single_claim (interrupted_store t now st)"
    using mailbox_invD(2) [OF inv]
      hm_unique_map_values [of both_claimed "dispatches st" "interrupted t now"]
    by (simp add: single_claim_def interrupted_store_def both_claimed_def interrupted_claimed_iff)
  moreover have "dedupe_ok (interrupted_store t now st)"
    by (rule store_moves_dedupe_ok [OF mailbox_invD(3) [OF inv] _ mv])
      (simp_all add: mailbox_invD [OF inv])
  ultimately show "mailbox_inv (interrupted_store t now st)"
    by (simp add: mailbox_inv_def)
qed

interpretation interrupt_detailed_method: store_method "mb_interrupt_detailed t now"
  "\<lambda>st. epoch_of st t \<noteq> - 1" for t now
  by unfold_locales
    (simp add: safe_step_def mb_interrupt_detailed_eq interrupted_store_inv)

interpretation interrupt_method: store_method "mb_interrupt t now"
  "\<lambda>st. epoch_of st t \<noteq> - 1" for t now
  by unfold_locales
    (simp add: safe_step_def mb_interrupt_def mb_interrupt_detailed_eq interrupted_store_inv)

subsection \<open>Lease reclamation and purge\<close>

text \<open>What reclamation makes of a claimed record.\<close>

definition reclaimed :: "InMemoryMailboxStore \<Rightarrow> u64 \<Rightarrow> RunDispatch \<Rightarrow> RunDispatch" where
  "reclaimed st now d = snd
     (if dispatch_epoch d < epoch_of st (thread_id d)
      then mark_superseded_at_epoch d now (epoch_of st (thread_id d))
             (Some REASON_CLAIMED_LEASE_EXPIRED_AFTER_INTERRUPT)
      else mark_expired_lease d now REASON_LEASE_EXPIRED_MAX_ATTEMPTS)"

lemma reclaimed_put: "reclaimed (put_record i d' st) now d = reclaimed st now d"
  by (simp add: reclaimed_def)

lemma reclaimed_safe:
  assumes inv: "mailbox_inv st" and l: "lookup st k = Some d" and c: "status d = Claimed"
  shows "safe_step st (Ok (), put_record k (reclaimed st now d) st)"
proof (cases "dispatch_epoch d < epoch_of st (thread_id d)")
  case True
  then show ?thesis
    unfolding reclaimed_def by simp
      (rule epoch_step.put_safe [OF inv l], use c in \<open>auto simp: is_terminal_def\<close>)
next
  case False
  then show ?thesis
    unfolding reclaimed_def by simp
      (rule expire_step.put_safe [OF inv l], use c not_stale [OF inv l] in auto)
qed

lemma reclaimed_moves:
  assumes "mailbox_inv st" and "lookup st k = Some d" and "status d = Claimed"
  shows "record_moves d (reclaimed st now d)"
  using store_movesD [of st "put_record k (reclaimed st now d) st" k] reclaimed_safe [OF assms] assms(2)
  by (simp add: safe_step_def)

lemma reclaim_ids_Cons:
  assumes inv: "mailbox_inv st" and l: "lookup st k = Some d" and c: "status d = Claimed"
  shows "reclaim_ids (k # ids) now st =
    map_prod (map_ok (if dispatch_epoch d < epoch_of st (thread_id d) then id
        else Cons (reclaimed st now d))) id
      (reclaim_ids ids now (put_record k (reclaimed st now d) st))"
proof -
  note ok = store_okD [OF mailbox_invD(1) [OF inv] l]
  have [simp]: "map_ok id r = r" for r :: "('a, 'e) outcome" by (cases r) auto
  show ?thesis
  proof (cases "dispatch_epoch d < epoch_of st (thread_id d)")
    case True
    then have "state_mark_superseded_at_epoch d now (epoch_of st (thread_id d))
      (Some REASON_CLAIMED_LEASE_EXPIRED_AFTER_INTERRUPT) = (Ok (), reclaimed st now d)"
      using epoch_step.or_panic_eq [OF ok(2)] epoch_step.step_eq [OF ok(2)] c
      by (simp add: state_mark_superseded_at_epoch_def reclaimed_def is_terminal_def)
    with True l show ?thesis by (simp add: put_record_def map_prod_def)
  next
    case False
    then have "state_mark_expired_lease d now = (Ok (), reclaimed st now d)"
      using expire_step.or_panic_eq [OF ok(2)] expire_step.step_eq [OF ok(2)] c
      by (simp add: state_mark_expired_lease_def reclaimed_def)
    with False l show ?thesis by (simp add: put_record_def map_prod_def split_beta)
  qed
qed

lemma reclaim_ids_ok:
  assumes "mailbox_inv st" and "distinct ids"
    and "\<And>k. k \<in> set ids \<Longrightarrow> \<exists>d. lookup st k = Some d \<and> status d = Claimed"
  shows "\<not> is_panic (fst (reclaim_ids ids now st)) \<and> mailbox_inv (snd (reclaim_ids ids now st)) \<and>
    lookup (snd (reclaim_ids ids now st)) k =
      (if k \<in> set ids then map_option (reclaimed st now) (lookup st k) else lookup st k)"
  using assms
proof (induction ids arbitrary: st)
  case (Cons i ids)
  from Cons.prems(3) [of i] obtain d where d: "lookup st i = Some d" "status d = Claimed" by auto
  let ?st = "put_record i (reclaimed st now d) st"
  have "\<not> is_panic (fst (reclaim_ids ids now ?st)) \<and> mailbox_inv (snd (reclaim_ids ids now ?st)) \<and>
    lookup (snd (reclaim_ids ids now ?st)) k =
      (if k \<in> set ids then map_option (reclaimed ?st now) (lookup ?st k) else lookup ?st k)"
  proof (rule Cons.IH)
    show "mailbox_inv ?st" using reclaimed_safe [OF Cons.prems(1) d] by (simp add: safe_step_def)
    show "distinct ids" using Cons.prems(2) by simp
    show "\<exists>d. lookup ?st k = Some d \<and> status d = Claimed" if "k \<in> set ids" for k
      using that Cons.prems(2) Cons.prems(3) [of k] by auto
  qed
  moreover have "reclaimed ?st now = reclaimed st now" by (simp add: fun_eq_iff reclaimed_put)
  ultimately show ?case
    using Cons.prems(2) d(1)
    unfolding reclaim_ids_Cons [OF Cons.prems(1) d] by (simp del: reclaim_ids.simps)
qed simp

text \<open>The ids reclamation works on: the expired leases, each under its own id, none twice.\<close>

lemma expired_ids:
  assumes inv: "mailbox_inv st" and ids: "ids = map dispatch_id
    (take limit (filter (lease_expired now) (hm_values (dispatches st))))"
  shows "distinct ids"
    and "k \<in> set ids \<Longrightarrow> \<exists>d. lookup st k = Some d \<and> lease_expired now d"
proof -
  have "map dispatch_id (hm_values (dispatches st)) = map fst (dispatches st)"
    using store_okD(3) [OF mailbox_invD(1) [OF inv]] hm_mem_iff [OF mailbox_invD(4) [OF inv]] by auto
  then have "distinct (map dispatch_id (hm_values (dispatches st)))"
    using mailbox_invD(4) [OF inv] by (simp only:)
  then have "distinct (map dispatch_id (filter (lease_expired now) (hm_values (dispatches st))))"
    by (rule distinct_map_filter)
  then show "distinct ids" unfolding ids by (metis distinct_take take_map)
  assume "k \<in> set ids"
  then obtain d where d: "dispatch_id d = k" "d \<in> set (hm_values (dispatches st))" "lease_expired now d"
    unfolding ids by (auto dest!: in_set_takeD)
  then obtain k' where "lookup st k' = Some d"
    using hm_values_iff [OF mailbox_invD(4) [OF inv]] by blast
  with d show "\<exists>d. lookup st k = Some d \<and> lease_expired now d"
    using store_okD(3) [OF mailbox_invD(1) [OF inv]] by blast
qed

lemma lease_expired_claimed: "lease_expired now d \<Longrightarrow> status d = Claimed"
  by (simp add: lease_expired_def)

interpretation reclaim_method: store_method "mb_reclaim_expired_leases now limit" "\<lambda>_. True"
  for now limit
proof
  fix st
  assume inv: "mailbox_inv st"
  define ids where "ids = map dispatch_id
    (take limit (filter (lease_expired now) (hm_values (dispatches st))))"
  have found: "\<exists>d. lookup st k = Some d \<and> status d = Claimed" if "k \<in> set ids" for k
    using expired_ids(2) [OF inv ids_def that] lease_expired_claimed by blast
  note res = reclaim_ids_ok [OF inv expired_ids(1) [OF inv ids_def] found, where now = now]
  have "slot_moves (lookup st k) (lookup (snd (reclaim_ids ids now st)) k)" for k
  proof (cases "k \<in> set ids")
    case True
    with found obtain d where "lookup st k = Some d" "status d = Claimed" by blast
    with True res [where k = k] reclaimed_moves [OF inv this] show ?thesis by simp
  next
    case False
    with res [where k = k] show ?thesis by (metis slot_moves_refl)
  qed
  with res show "safe_step st (mb_reclaim_expired_leases now limit st)"
    unfolding mb_reclaim_expired_leases_def ids_def [symmetric] safe_step_def store_moves_def by blast
qed

definition kept_by_purge :: "u64 \<Rightarrow> RunDispatch \<Rightarrow> bool" where
  "kept_by_purge older_than d \<longleftrightarrow> \<not> (is_terminal (status d) \<and> updated_at d < older_than)"

lemma purge_lookup:
  assumes "mailbox_inv st"
  shows "lookup (snd (mb_purge_terminal older_than st)) k =
    (case lookup st k of None \<Rightarrow> None | Some d \<Rightarrow> if kept_by_purge older_than d then Some d else None)"
  by (simp add: mb_purge_terminal_def Let_def kept_by_purge_def map_of_hm_retain mailbox_invD [OF assms]
      cong: option.case_cong)

lemma purge_epoch:
  assumes "mailbox_inv st" and "lookup (snd (mb_purge_terminal older_than st)) k = Some d"
  shows "epoch_of (snd (mb_purge_terminal older_than st)) (thread_id d) = epoch_of st (thread_id d)"
proof -
  let ?m = "dispatches (snd (mb_purge_terminal older_than st))"
  have "thread_id d \<in> set (map thread_id (hm_values ?m))"
    using map_of_SomeD [OF assms(2)] by force
  then show ?thesis
    by (simp add: mb_purge_terminal_def Let_def current_epoch_from_state_def map_of_hm_retain
        mailbox_invD [OF assms(1)] split: option.split)
qed

lemma purge_distinct:
  assumes "mailbox_inv st"
  shows "hm_keys_distinct (dispatches (snd (mb_purge_terminal older_than st)))"
    "hm_keys_distinct (mb_state (snd (mb_purge_terminal older_than st)))"
  using hm_keys_distinct_retain mailbox_invD [OF assms] by (simp_all add: mb_purge_terminal_def Let_def)

lemma purge_inv:
  assumes inv: "mailbox_inv st"
  shows "mailbox_inv (snd (mb_purge_terminal older_than st))"
proof -
  let ?st = "snd (mb_purge_terminal older_than st)"
  have sub: "lookup st k = Some d" if "lookup ?st k = Some d" for k d
    using that by (simp add: purge_lookup [OF inv] split: option.splits if_splits)
  have "entry_ok ?st k d" if "lookup ?st k = Some d" for k d
    using store_okD(1) [OF mailbox_invD(1) [OF inv] sub [OF that]] purge_epoch [OF inv that]
    by (simp add: entry_ok_def)
  then have "store_ok ?st" using purge_distinct [OF inv] by (simp add: store_ok_iff)
  moreover have "single_claim ?st" "dedupe_ok ?st"
    unfolding single_claim_def dedupe_ok_def
    using mailbox_invD(2,3) [OF inv] purge_distinct(1) [OF inv] sub
    by (auto intro!: hm_unique_back [of _ "dispatches st"] simp: single_claim_def dedupe_ok_def)
  ultimately show ?thesis by (simp add: mailbox_inv_def)
qed

lemma purge_moves:
  assumes "mailbox_inv st"
  shows "store_moves st (snd (mb_purge_terminal older_than st))"
  unfolding store_moves_def
proof
  show "slot_moves (lookup st k) (lookup (snd (mb_purge_terminal older_than st)) k)" for k
    by (cases "lookup st k") (simp_all add: purge_lookup [OF assms] kept_by_purge_def)
qed

text \<open>\<open>purge_terminal\<close> as a method: it returns the number of removed records.\<close>

interpretation purge_method: store_method
  "\<lambda>st. map_prod (\<lambda>n. Ok n) id (mb_purge_terminal older_than st)" "\<lambda>_. True" for older_than
  by unfold_locales (simp add: safe_step_def purge_inv purge_moves)

end
