(* ===== verification/Mailbox_Protocol.thy ===== *)
theory Mailbox_Protocol
  imports Mailbox_Invariant
begin

text \<open>
  The mailbox as a protocol: the commands a server issues against the store, the states they
  reach, and the theorems about them. The server keeps four promises, written as \<open>admissible\<close>:
  dispatch ids are fresh and enqueued dispatches have an attempt left, consumers and tokens are
  not blank, \<open>claim\<close> is called with a limit of at most one (as the signal loop does), and no
  thread is interrupted \<open>2^64 - 1\<close> times.
\<close>

section \<open>Commands\<close>

datatype mailbox_cmd =
    CmdEnqueue RunDispatch
  | CmdClaim string string u64 u64 nat string
  | CmdClaimDispatch string string u64 u64 string
  | CmdAck string string u64
  | CmdRecordStart string string string u64
  | CmdRecordResult string string RunDispatchResult u64
  | CmdNack string string u64 string u64
  | CmdDeadLetter string string string u64
  | CmdCancel string u64
  | CmdExtendLease string string u64 u64
  | CmdInterrupt string u64
  | CmdSupersedeClaimed string string u64 string
  | CmdReclaim u64 nat
  | CmdPurge u64

text \<open>A command with its typed result forgotten.\<close>

definition forget :: "'a store_op \<Rightarrow> unit store_op" where
  "forget out = (map_ok (\<lambda>_. ()) (fst out), snd out)"

fun exec_cmd :: "mailbox_cmd \<Rightarrow> InMemoryMailboxStore \<Rightarrow> unit store_op" where
  "exec_cmd (CmdEnqueue d) st = forget (mb_enqueue d st)"
| "exec_cmd (CmdClaim t c lease now limit tok) st = forget (mb_claim t c lease now limit tok st)"
| "exec_cmd (CmdClaimDispatch k c lease now tok) st = forget (mb_claim_dispatch k c lease now tok st)"
| "exec_cmd (CmdAck k tok now) st = forget (mb_ack k tok now st)"
| "exec_cmd (CmdRecordStart k tok inst now) st = forget (mb_record_dispatch_start k tok inst now st)"
| "exec_cmd (CmdRecordResult k tok res now) st = forget (mb_record_run_result k tok res now st)"
| "exec_cmd (CmdNack k tok at e now) st = forget (mb_nack k tok at e now st)"
| "exec_cmd (CmdDeadLetter k tok e now) st = forget (mb_dead_letter k tok e now st)"
| "exec_cmd (CmdCancel k now) st = forget (mb_cancel k now st)"
| "exec_cmd (CmdExtendLease k tok ext now) st = forget (mb_extend_lease k tok ext now st)"
| "exec_cmd (CmdInterrupt t now) st = forget (mb_interrupt_detailed t now st)"
| "exec_cmd (CmdSupersedeClaimed k tok now r) st = forget (mb_supersede_claimed k tok now r st)"
| "exec_cmd (CmdReclaim now limit) st = forget (mb_reclaim_expired_leases now limit st)"
| "exec_cmd (CmdPurge older) st = forget (map_prod (\<lambda>n. Ok n) id (mb_purge_terminal older st))"

fun admissible :: "mailbox_cmd \<Rightarrow> InMemoryMailboxStore \<Rightarrow> bool" where
  "admissible (CmdEnqueue d) st \<longleftrightarrow>
     lookup st (dispatch_id d) = None \<and> attempt_count d < max_attempts d"
| "admissible (CmdClaim t c lease now limit tok) st \<longleftrightarrow> \<not> blank c \<and> \<not> blank tok \<and> limit \<le> 1"
| "admissible (CmdClaimDispatch k c lease now tok) st \<longleftrightarrow> \<not> blank c \<and> \<not> blank tok"
| "admissible (CmdInterrupt t now) st \<longleftrightarrow> epoch_of st t \<noteq> - 1"
| "admissible _ st \<longleftrightarrow> True"

lemma safe_forget: "safe_step st (forget out) = safe_step st out"
  by (simp add: forget_def safe_step_def)

lemma exec_cmd_safe:
  assumes "mailbox_inv st" and "admissible c st"
  shows "safe_step st (exec_cmd c st)"
  using assms
  by (cases c) (simp_all add: safe_forget ack_method.run_safe start_method.run_safe
      result_method.run_safe nack_method.run_safe dead_letter_method.run_safe
      cancel_method.run_safe extend_method.run_safe supersede_method.run_safe
      claim_dispatch_method.run_safe enqueue_method.run_safe claim_method.run_safe
      interrupt_detailed_method.run_safe reclaim_method.run_safe purge_method.run_safe
      del: map_prod_simp)

section \<open>Reachable stores\<close>

inductive mailbox_reachable :: "InMemoryMailboxStore \<Rightarrow> bool" where
  reach_new: "mailbox_reachable mb_new"
| reach_cmd: "mailbox_reachable st \<Longrightarrow> admissible c st \<Longrightarrow> mailbox_reachable (snd (exec_cmd c st))"

text \<open>A whole run, for stating that a given sequence of commands is possible.\<close>

fun run_cmds :: "mailbox_cmd list \<Rightarrow> InMemoryMailboxStore \<Rightarrow> InMemoryMailboxStore option" where
  "run_cmds [] st = Some st"
| "run_cmds (c # cs) st = (if admissible c st then run_cmds cs (snd (exec_cmd c st)) else None)"

lemma mb_new_inv: "mailbox_inv mb_new"
  by (simp add: mailbox_inv_def store_ok_def single_claim_def dedupe_ok_def hm_unique_def mb_new_def)

lemma reachable_inv: "mailbox_reachable st \<Longrightarrow> mailbox_inv st"
proof (induction rule: mailbox_reachable.induct)
  case reach_new
  show ?case by (rule mb_new_inv)
next
  case (reach_cmd st c)
  then show ?case using exec_cmd_safe by (simp add: safe_step_def)
qed

lemma run_cmds_reachable:
  "run_cmds cs st = Some st' \<Longrightarrow> mailbox_reachable st \<Longrightarrow> mailbox_reachable st'"
  by (induction cs arbitrary: st) (auto split: if_splits intro: reach_cmd)

text \<open>A small run used as the concrete input of the witnesses.\<close>

definition ex_dispatch :: "string \<Rightarrow> RunDispatch" where
  "ex_dispatch k = queued k ''t'' ''r'' 100"

definition ex_cmds :: "mailbox_cmd list" where
  "ex_cmds = [CmdEnqueue (ex_dispatch ''a''), CmdEnqueue (ex_dispatch ''b''),
     CmdClaim ''t'' ''w'' 30 200 1 ''tok'']"

definition ex_queue :: InMemoryMailboxStore where
  "ex_queue = the (run_cmds (take 2 ex_cmds) mb_new)"

definition ex_store :: InMemoryMailboxStore where
  "ex_store = the (run_cmds ex_cmds mb_new)"

definition ex_claimed :: RunDispatch where
  "ex_claimed = the (lookup ex_store ''a'')"

lemma ex_queue_reachable: "mailbox_reachable ex_queue"
  by (rule run_cmds_reachable [OF _ reach_new, of "take 2 ex_cmds"]) code_simp

lemma ex_store_reachable: "mailbox_reachable ex_store"
  by (rule run_cmds_reachable [OF _ reach_new, of ex_cmds]) code_simp

lemmas ex_store_inv = reachable_inv [OF ex_store_reachable]

lemmas ex_queue_inv = reachable_inv [OF ex_queue_reachable]

lemma ex_store_lookup:
  "lookup ex_store ''a'' = Some ex_claimed" "status ex_claimed = Claimed"
  "claim_token ex_claimed = Some ''tok''" "thread_id ex_claimed = ''t''"
  by code_simp+

section \<open>Safety of the protocol\<close>

text \<open>
  C22: As long as the server keeps the promises of \<open>admissible\<close> (an enqueued id is fresh and has an
  attempt left, consumer and token are not blank, a claim asks for at most one dispatch, no thread is
  interrupted \<open>2^64 - 1\<close> times): the records of the store are valid and filed under their ids, live
  records have an attempt left, no record is of a future epoch, queued records are of the current
  one, no thread has two claimed dispatches or two live ones with one dedupe key; and no call that
  keeps the promises panics. Enqueueing a dispatch whose attempts are spent breaks them and does lead
  to a panic, see \<open>spent_dispatch_panics\<close>.
\<close>

theorem mailbox_never_panics:
  assumes "mailbox_reachable st"
  shows "mailbox_inv st \<and> (admissible c st \<longrightarrow> \<not> is_panic (fst (exec_cmd c st)))"
  using reachable_inv [OF assms] exec_cmd_safe by (simp add: safe_step_def)

theorem mailbox_never_panics_witness:
  "mailbox_inv ex_store \<and> \<not> is_panic (fst (exec_cmd (CmdReclaim 500 3) ex_store))"
  using mailbox_never_panics [OF ex_store_reachable, of "CmdReclaim 500 3"] by simp

text \<open>
  C1: Mutual exclusion of workers: in every reachable store a thread has at most one claimed
  dispatch.
\<close>

theorem one_claim_per_thread:
  assumes "mailbox_reachable st"
  shows "length (filter (\<lambda>d. thread_id d = t \<and> status d = Claimed) (hm_values (dispatches st))) \<le> 1"
  using hm_unique_length [of both_claimed "dispatches st" "\<lambda>d. thread_id d = t \<and> status d = Claimed"]
    mailbox_invD(2,4) [OF reachable_inv [OF assms]]
  by (simp add: single_claim_def both_claimed_def)

theorem one_claim_per_thread_witness:
  "length (filter (\<lambda>d. thread_id d = ''t'' \<and> status d = Claimed) (hm_values (dispatches ex_store))) \<le> 1"
  by (rule one_claim_per_thread [OF ex_store_reachable])

text \<open>How a method moves the epochs of the threads.\<close>

text \<open>
  The epoch of a thread stays, advances by one, or is forgotten with the last record of the thread.
  Where it does not stay no dispatch of the thread is queued afterwards.
\<close>

definition epoch_moves :: "InMemoryMailboxStore \<Rightarrow> InMemoryMailboxStore \<Rightarrow> bool" where
  "epoch_moves st st' \<longleftrightarrow> (\<forall>t. epoch_of st' t = epoch_of st t \<or>
     (\<forall>k d. lookup st' k = Some d \<longrightarrow> thread_id d \<noteq> t) \<and> epoch_of st' t = 0 \<or>
     (\<forall>k d. lookup st' k = Some d \<longrightarrow> thread_id d = t \<longrightarrow> status d \<noteq> Queued) \<and>
       epoch_of st' t = epoch_of st t + 1 \<and> epoch_of st t < epoch_of st' t)"

lemma epoch_moves_same: "mb_state st' = mb_state st \<Longrightarrow> epoch_moves st st'"
  by (simp add: epoch_moves_def)

lemma finish_mb_state [simp]: "mb_state (snd (finish k tr res st)) = mb_state st"
  by (simp add: finish_def)

lemma reclaim_ids_mb_state [simp]: "mb_state (snd (reclaim_ids ids now st)) = mb_state st"
  by (induction ids arbitrary: st) (simp_all add: Let_def case_prod_beta split: option.split outcome.split)

lemmas record_method_defs =
  mb_claim_dispatch_def mb_ack_def mb_record_dispatch_start_def mb_record_run_result_def mb_nack_def
  mb_dead_letter_def mb_cancel_def mb_extend_lease_def mb_supersede_claimed_def
  mb_reclaim_expired_leases_def

lemma mb_claim_mb_state [simp]: "mb_state (snd (mb_claim t c lease now limit tok st)) = mb_state st"
  by (auto simp: mb_claim_def Let_def split: prod.split outcome.split)

lemma ensure_state_epoch [simp]: "current_epoch_from_state (ensure_state t m) t' = current_epoch_from_state m t'"
  by (simp add: ensure_state_def current_epoch_from_state_def split: option.split)

lemma mb_enqueue_epoch: "epoch_of (snd (mb_enqueue d st)) t = epoch_of st t"
  by (auto simp: mb_enqueue_def mb_admit_def Let_def split: option.split outcome.split)

lemma interrupted_not_queued: "thread_id d = t \<Longrightarrow> status (interrupted t now d) \<noteq> Queued"
  by (simp add: interrupted_def interrupt_hits_def)

lemma interrupted_queued_iff: "status (interrupted t now d) = Queued \<longleftrightarrow> thread_id d \<noteq> t \<and> status d = Queued"
  by (auto simp: interrupted_def interrupt_hits_def)

lemma interrupt_epoch_moves:
  assumes "mailbox_inv st" and "epoch_of st t \<noteq> - 1"
  shows "epoch_moves st (snd (mb_interrupt_detailed t now st))"
  unfolding mb_interrupt_detailed_eq [OF assms(1)] epoch_moves_def
  using le_add_one_word(2) [OF order_refl assms(2)] by (auto simp: interrupted_queued_iff)

lemma purge_epoch_moves:
  assumes "mailbox_inv st"
  shows "epoch_moves st (snd (mb_purge_terminal older st))"
  unfolding epoch_moves_def
proof
  fix t
  let ?st = "snd (mb_purge_terminal older st)"
  show "epoch_of ?st t = epoch_of st t \<or>
    (\<forall>k d. lookup ?st k = Some d \<longrightarrow> thread_id d \<noteq> t) \<and> epoch_of ?st t = 0 \<or>
    (\<forall>k d. lookup ?st k = Some d \<longrightarrow> thread_id d = t \<longrightarrow> status d \<noteq> Queued) \<and>
      epoch_of ?st t = epoch_of st t + 1 \<and> epoch_of st t < epoch_of ?st t"
  proof (cases "\<exists>k d. lookup ?st k = Some d \<and> thread_id d = t")
    case True
    then show ?thesis using purge_epoch [OF assms] by blast
  next
    case False
    then have "t \<notin> thread_id ` set (hm_values (dispatches ?st))"
      using hm_values_iff [OF purge_distinct(1) [OF assms]] by blast
    then have "epoch_of ?st t = 0"
      by (simp add: mb_purge_terminal_def Let_def current_epoch_from_state_def map_of_hm_retain
          mailbox_invD [OF assms] image_image split: option.split)
    with False show ?thesis by blast
  qed
qed

lemma exec_cmd_epochs:
  assumes "mailbox_inv st" and "admissible c st"
  shows "epoch_moves st (snd (exec_cmd c st))"
proof (cases c)
  case (CmdEnqueue d)
  then show ?thesis by (simp add: forget_def epoch_moves_def mb_enqueue_epoch)
next
  case (CmdInterrupt t now)
  then show ?thesis using interrupt_epoch_moves assms by (simp add: forget_def)
next
  case (CmdPurge older)
  then show ?thesis using purge_epoch_moves [OF assms(1)] by (simp add: forget_def)
qed (rule epoch_moves_same, simp add: forget_def record_method_defs split: option.split)+

text \<open>
  The specification of the mailbox a client sees: the thread and status of each id, and the epoch
  of each thread. A step leaves every slot as it is, moves it along an edge of the delivery state
  machine, files a new id as queued, or forgets a terminal one. An epoch stays, advances by one,
  which leaves no dispatch of its thread queued, or starts over once its thread has no dispatch.
\<close>

record mailbox_view =
  mv_slot :: "string \<Rightarrow> (string \<times> RunDispatchStatus) option"
  mv_epoch :: "string \<Rightarrow> u64"

fun spec_slot :: "(string \<times> RunDispatchStatus) option \<Rightarrow> (string \<times> RunDispatchStatus) option \<Rightarrow> bool" where
  "spec_slot None s' \<longleftrightarrow> s' = None \<or> (\<exists>t. s' = Some (t, Queued))"
| "spec_slot (Some (t, s)) None \<longleftrightarrow> is_terminal s"
| "spec_slot (Some (t, s)) (Some (t', s')) \<longleftrightarrow> t' = t \<and> (s' = s \<or> dispatch_edge s s')"

definition spec_epoch :: "mailbox_view \<Rightarrow> mailbox_view \<Rightarrow> string \<Rightarrow> bool" where
  "spec_epoch a a' t \<longleftrightarrow> mv_epoch a' t = mv_epoch a t \<or>
     (\<forall>k s. mv_slot a' k \<noteq> Some (t, s)) \<and> mv_epoch a' t = 0 \<or>
     (\<forall>k. mv_slot a' k \<noteq> Some (t, Queued)) \<and> mv_epoch a' t = mv_epoch a t + 1 \<and> mv_epoch a t < mv_epoch a' t"

definition spec_step :: "mailbox_view \<Rightarrow> mailbox_view \<Rightarrow> bool" where
  "spec_step a a' \<longleftrightarrow> (\<forall>k. spec_slot (mv_slot a k) (mv_slot a' k)) \<and> (\<forall>t. spec_epoch a a' t)"

definition abs_mailbox :: "InMemoryMailboxStore \<Rightarrow> mailbox_view" where
  "abs_mailbox st = \<lparr>mv_slot = (\<lambda>k. map_option (\<lambda>d. (thread_id d, status d)) (lookup st k)), mv_epoch = epoch_of st\<rparr>"

lemma slot_moves_spec:
  "slot_moves s s' \<Longrightarrow> spec_slot (map_option (\<lambda>d. (thread_id d, status d)) s) (map_option (\<lambda>d. (thread_id d, status d)) s')"
  by (cases s; cases s') (auto simp: record_moves_def same_identity_def)

lemma epoch_moves_spec: "epoch_moves st st' \<Longrightarrow> spec_epoch (abs_mailbox st) (abs_mailbox st') t"
  by (auto simp: epoch_moves_def spec_epoch_def abs_mailbox_def)

text \<open>
  C2: The store refines the delivery state machine: every admissible command on a reachable store
  is a step of the specification, whatever the command and however many records it touches: every
  record keeps its thread and moves along the edges of the life cycle, and every epoch stays,
  advances by one, or starts over once its thread has no dispatch left.
\<close>

theorem exec_cmd_refines:
  assumes "mailbox_reachable st" and "admissible c st"
  shows "spec_step (abs_mailbox st) (abs_mailbox (snd (exec_cmd c st)))"
proof -
  note inv = reachable_inv [OF assms(1)]
  have "store_moves st (snd (exec_cmd c st))"
    using exec_cmd_safe [OF inv assms(2)] by (simp add: safe_step_def)
  then have "spec_slot (mv_slot (abs_mailbox st) k) (mv_slot (abs_mailbox (snd (exec_cmd c st))) k)" for k
    using slot_moves_spec store_movesD by (simp add: abs_mailbox_def)
  then show ?thesis
    using epoch_moves_spec [OF exec_cmd_epochs [OF inv assms(2)]] by (simp add: spec_step_def)
qed

theorem exec_cmd_refines_witness:
  "spec_step (abs_mailbox ex_store) (abs_mailbox (snd (exec_cmd (CmdInterrupt ''t'' 300) ex_store)))"
  by (rule exec_cmd_refines [OF ex_store_reachable]) code_simp

text \<open>
  C32: A terminal dispatch is final: no command changes its record, it is at most purged.
\<close>

theorem terminal_is_final:
  assumes "mailbox_reachable st" and "admissible c st" and "lookup st k = Some d"
    and "is_terminal (status d)"
  shows "lookup (snd (exec_cmd c st)) k \<in> {Some d, None}"
proof -
  have "store_moves st (snd (exec_cmd c st))"
    using exec_cmd_safe [OF reachable_inv [OF assms(1)] assms(2)] by (simp add: safe_step_def)
  from store_movesD [OF this, of k] show ?thesis
    using assms(3,4) record_moves_terminal
    by (cases "lookup (snd (exec_cmd c st)) k") auto
qed

definition ex_acked :: InMemoryMailboxStore where
  "ex_acked = snd (exec_cmd (CmdAck ''a'' ''tok'' 250) ex_store)"

lemma ex_acked_reachable: "mailbox_reachable ex_acked"
  unfolding ex_acked_def by (rule reach_cmd [OF ex_store_reachable]) simp

theorem terminal_is_final_witness:
  "lookup (snd (exec_cmd (CmdReclaim 900 5) ex_acked)) ''a'' \<in> {lookup ex_acked ''a'', None}"
proof -
  have "lookup ex_acked ''a'' = Some (the (lookup ex_acked ''a''))"
    "is_terminal (status (the (lookup ex_acked ''a'')))" by code_simp+
  with terminal_is_final [OF ex_acked_reachable, of "CmdReclaim 900 5" "''a''"]
  show ?thesis by (metis admissible.simps(13))
qed

end
