(* ===== verification/Mailbox_Behaviour.thy ===== *)
theory Mailbox_Behaviour
  imports Mailbox_Protocol
begin

text \<open>
  What each method of the mailbox store does, branch by branch: fencing by token and by epoch,
  claim order, retry and dead-lettering, lease expiry, deduplication and purge. The last section
  records inputs on which the store does not do what its comments promise.
\<close>

section \<open>Fencing\<close>

text \<open>
  C4: Fencing by token: a worker that does not hold the claim token of a dispatch changes nothing.
  Every completing or renewing method refuses it and leaves the whole store as it was.
\<close>

theorem wrong_token_changes_nothing:
  assumes "lookup st k = Some d" and "claim_token d \<noteq> Some tok"
  shows "mb_ack k tok now st = (Err (VersionConflict 0 1), st)
    \<and> mb_record_dispatch_start k tok inst now st = (Err (VersionConflict 0 1), st)
    \<and> mb_record_run_result k tok res now st = (Err (VersionConflict 0 1), st)
    \<and> mb_nack k tok at e now st = (Err (VersionConflict 0 1), st)
    \<and> mb_dead_letter k tok e now st = (Err (VersionConflict 0 1), st)
    \<and> mb_extend_lease k tok ext now st = (Ok False, st)
    \<and> mb_supersede_claimed k tok now r st =
        (if status d = Claimed then Err (VersionConflict 0 1) else Ok None, st)"
  using assms
  by (simp add: mb_ack_def mb_record_dispatch_start_def mb_record_run_result_def mb_nack_def
      mb_dead_letter_def mb_extend_lease_def mb_supersede_claimed_def)

theorem wrong_token_changes_nothing_witness:
  "mb_ack ''a'' ''old'' 300 ex_store = (Err (VersionConflict 0 1), ex_store)"
  using wrong_token_changes_nothing [OF ex_store_lookup(1), of "''old''" 300]
  by (simp add: ex_store_lookup)

text \<open>
  \<open>fenced_off st st' k e\<close>: the record of \<open>k\<close> ends as superseded at epoch \<open>e\<close>, without lease or
  runtime projection, and no other record and no epoch has changed.
\<close>

definition fenced_off :: "InMemoryMailboxStore \<Rightarrow> string \<Rightarrow> u64 \<Rightarrow> InMemoryMailboxStore \<Rightarrow> bool" where
  "fenced_off st k e st' \<longleftrightarrow> mb_state st' = mb_state st \<and> (\<forall>k'. k' \<noteq> k \<longrightarrow> lookup st' k' = lookup st k') \<and>
     (case lookup st' k of None \<Rightarrow> False
      | Some d' \<Rightarrow> status d' = Superseded \<and> dispatch_epoch d' = e \<and> no_lease d' \<and> no_runtime d')"

lemma stale_finish:
  assumes "dispatch_ok d" and "\<not> is_terminal (status d)"
  shows "fst (finish k (state_mark_superseded_at_epoch d now e r) (\<lambda>_. res) st) = res"
    and "fenced_off st k e (snd (finish k (state_mark_superseded_at_epoch d now e r) (\<lambda>_. res) st))"
  using assms(2)
  by (simp_all add: state_mark_superseded_at_epoch_def or_panic_def mark_superseded_at_epoch_eq [OF assms(1)]
      finish_def fenced_off_def superseded_fields_def with_reason_def no_lease_def no_runtime_def
      clear_claim_fields_def clear_runtime_projection_def split: option.split)

definition fences :: "InMemoryMailboxStore \<Rightarrow> string \<Rightarrow> u64 \<Rightarrow> ('a, StorageError) outcome \<Rightarrow> 'a store_op \<Rightarrow> bool" where
  "fences st k e refusal out \<longleftrightarrow> fst out = refusal \<and> fenced_off st k e (snd out)"

text \<open>
  C39: Fencing by epoch: once a thread is interrupted, the dispatch that was running can no longer be
  acknowledged, retried, buried, started or given a result, each of which is refused with the two
  epochs in conflict, nor can its lease be extended. Each of these supersedes the dispatch at the new
  epoch, without lease or runtime projection, and changes nothing else.
\<close>

theorem interrupt_fences_running:
  assumes "mailbox_reachable st" and "epoch_of st t \<noteq> - 1" and "lookup st k = Some d"
    and "thread_id d = t" and "claim_token d = Some tok"
    and "st1 = snd (mb_interrupt_detailed t now0 st)" and "new_epoch = epoch_of st t + 1"
  shows "fences st1 k new_epoch (Err (VersionConflict (dispatch_epoch d) new_epoch)) (mb_ack k tok now st1)
    \<and> fences st1 k new_epoch (Err (VersionConflict (dispatch_epoch d) new_epoch)) (mb_nack k tok at e now st1)
    \<and> fences st1 k new_epoch (Err (VersionConflict (dispatch_epoch d) new_epoch)) (mb_dead_letter k tok e now st1)
    \<and> fences st1 k new_epoch (Err (VersionConflict (dispatch_epoch d) new_epoch))
        (mb_record_dispatch_start k tok inst now st1)
    \<and> fences st1 k new_epoch (Err (VersionConflict (dispatch_epoch d) new_epoch))
        (mb_record_run_result k tok res now st1)
    \<and> fences st1 k new_epoch (Ok False) (mb_extend_lease k tok ext now st1)"
proof -
  note inv = reachable_inv [OF assms(1)]
  note ok = store_okD(2) [OF mailbox_invD(1) [OF inv] assms(3)]
  have st1: "st1 = interrupted_store t now0 st" using assms(6) by (simp add: mb_interrupt_detailed_eq [OF inv])
  have c: "status d = Claimed" by (rule token_claimed [OF ok assms(5)])
  then have live: "\<not> is_terminal (status d)" by (simp add: is_terminal_def)
  have l: "lookup st1 k = Some d" using assms(3) c by (simp add: st1 interrupted_def interrupt_hits_def)
  have ep: "epoch_of st1 (thread_id d) = new_epoch" using assms(4,7) by (simp add: st1)
  have "dispatch_epoch d < new_epoch"
    using le_add_one_word(2) [OF order_refl assms(2)] epoch_bound [OF inv assms(3)] assms(4,7)
    by (metis order_le_less_trans)
  then show ?thesis
    by (simp add: record_method_defs l ep assms(5) c stale_finish [OF ok live] fences_def)
qed

theorem interrupt_fences_running_witness:
  "fences (snd (mb_interrupt_detailed ''t'' 300 ex_store)) ''a'' 1 (Err (VersionConflict 0 1))
     (mb_nack ''a'' ''tok'' 900 ''late'' 400 (snd (mb_interrupt_detailed ''t'' 300 ex_store)))"
proof -
  have e: "epoch_of ex_store ''t'' \<noteq> - 1" "1 = epoch_of ex_store ''t'' + 1" "dispatch_epoch ex_claimed = 0"
    by code_simp+
  from interrupt_fences_running [OF ex_store_reachable e(1) ex_store_lookup(1,4,3) refl e(2)] e(3)
  show ?thesis by simp
qed

section \<open>Interrupt\<close>

lemma interrupt_hits_eq: "interrupt_hits t = (\<lambda>d. thread_id d = t \<and> status d = Queued)"
  by (simp add: interrupt_hits_def fun_eq_iff)

lemma interrupt_reported:
  assumes inv: "mailbox_inv st"
    and "d \<in> set (map (interrupted t now) (filter (interrupt_hits t) (hm_values (dispatches st))))"
  shows "lookup (interrupted_store t now st) (dispatch_id d) = Some d \<and> status d = Superseded"
proof -
  from assms(2) obtain e where e: "d = interrupted t now e" "interrupt_hits t e"
    "e \<in> set (hm_values (dispatches st))" by auto
  then obtain k where k: "lookup st k = Some e"
    using hm_values_iff [OF mailbox_invD(4) [OF inv]] by blast
  then have "dispatch_id e = k" using store_okD(3) [OF mailbox_invD(1) [OF inv]] by blast
  with e k show ?thesis by simp (simp add: interrupted_def)
qed

text \<open>Scanning for the claimed dispatch of a thread finds the one there is.\<close>

lemma find_claimed:
  assumes inv: "mailbox_inv st" and d: "lookup st k = Some d" "thread_id d = t \<and> status d = Claimed"
  shows "find (\<lambda>d. thread_id d = t \<and> status d = Claimed) (rev (hm_values (dispatches st))) = Some d"
    (is "find ?c ?l = _")
proof (cases "find ?c ?l")
  case None
  then show ?thesis using d hm_values_iff [OF mailbox_invD(4) [OF inv], of d]
    by (simp add: find_None_iff) blast
next
  case (Some e)
  then have e: "e \<in> set (hm_values (dispatches st))" "?c e"
    using find_Some_iff [of ?c ?l e] by (metis nth_mem set_rev)+
  then obtain k' where k': "lookup st k' = Some e"
    using hm_values_iff [OF mailbox_invD(4) [OF inv]] by blast
  have "thread_free st k t" using thread_free_of_claimed [OF inv d(1)] d(2) by blast
  with e(2) k' have "k' = k" unfolding thread_free_def by blast
  with d(1) k' Some show ?thesis by simp
qed

text \<open>
  An interrupt advances the epoch of the thread by one, supersedes exactly its queued
  dispatches and reports them, reports the claimed dispatch if there is one, and touches no other
  record and no other epoch. No dispatch of the thread is queued afterwards.
\<close>

theorem interrupt_effect:
  assumes "mailbox_reachable st" and "epoch_of st t \<noteq> - 1"
    and "mb_interrupt_detailed t now st = (r, st')"
  shows "\<exists>det. r = Ok det
    \<and> new_dispatch_epoch det = epoch_of st t + 1 \<and> epoch_of st t < new_dispatch_epoch det
    \<and> (\<forall>t'. epoch_of st' t' = (if t' = t then new_dispatch_epoch det else epoch_of st t'))
    \<and> superseded_count det = length (superseded_dispatches det)
    \<and> map dispatch_id (superseded_dispatches det) =
        map dispatch_id (filter (\<lambda>d. thread_id d = t \<and> status d = Queued) (hm_values (dispatches st)))
    \<and> (\<forall>d \<in> set (superseded_dispatches det). lookup st' (dispatch_id d) = Some d \<and> status d = Superseded)
    \<and> (\<forall>k d. lookup st k = Some d \<longrightarrow> thread_id d = t \<and> status d = Claimed \<longrightarrow> active_dispatch det = Some d)
    \<and> (\<forall>k d. lookup st k = Some d \<longrightarrow> \<not> (thread_id d = t \<and> status d = Queued) \<longrightarrow> lookup st' k = Some d)
    \<and> (\<forall>k d. lookup st' k = Some d \<longrightarrow> thread_id d = t \<longrightarrow> status d \<noteq> Queued)"
proof -
  note inv = reachable_inv [OF assms(1)]
  let ?c = "\<lambda>d. thread_id d = t \<and> status d = Claimed"
  let ?q = "filter (interrupt_hits t) (hm_values (dispatches st))"
  let ?det = "\<lparr>new_dispatch_epoch = epoch_of st t + 1,
    active_dispatch = find ?c (rev (hm_values (dispatches st))),
    superseded_count = length ?q, superseded_dispatches = map (interrupted t now) ?q\<rparr>"
  have eq: "r = Ok ?det" "st' = interrupted_store t now st"
    using assms(3) mb_interrupt_detailed_eq [OF inv, of t now] by simp_all
  show ?thesis
    unfolding interrupt_hits_eq [symmetric]
  proof (intro exI conjI)
    show "r = Ok ?det" by (rule eq)
    show "epoch_of st t < new_dispatch_epoch ?det"
      using le_add_one_word(2) [OF order_refl assms(2)] by simp
    show "\<forall>d\<in>set (superseded_dispatches ?det). lookup st' (dispatch_id d) = Some d \<and> status d = Superseded"
      unfolding eq(2) using interrupt_reported [OF inv] by simp
    show "\<forall>k d. lookup st k = Some d \<longrightarrow> ?c d \<longrightarrow> active_dispatch ?det = Some d"
      using find_claimed [OF inv, of _ _ t]
      by (simp only: MailboxInterruptDetails.select_convs) blast
    show "\<forall>k d. lookup st k = Some d \<longrightarrow> \<not> (thread_id d = t \<and> status d = Queued) \<longrightarrow> lookup st' k = Some d"
      by (simp add: eq(2) interrupted_def interrupt_hits_eq)
    show "\<forall>k d. lookup st' k = Some d \<longrightarrow> thread_id d = t \<longrightarrow> status d \<noteq> Queued"
      using interrupted_not_queued by (simp add: eq(2)) (metis interrupted_simps(1))
  qed (simp_all add: eq(2) comp_def)
qed

theorem interrupt_effect_witness:
  "\<exists>det. fst (mb_interrupt_detailed ''t'' 300 ex_store) = Ok det \<and> new_dispatch_epoch det = 1 \<and>
     superseded_count det = 1 \<and> active_dispatch det = Some ex_claimed"
proof -
  obtain r st' where eq: "mb_interrupt_detailed ''t'' 300 ex_store = (r, st')" by fastforce
  have e: "epoch_of ex_store ''t'' = 0" "epoch_of ex_store ''t'' \<noteq> - 1" by code_simp+
  have q: "length (map dispatch_id (filter (\<lambda>d. thread_id d = ''t'' \<and> status d = Queued)
    (hm_values (dispatches ex_store)))) = 1" by code_simp
  from interrupt_effect [OF ex_store_reachable e(2) eq] obtain det where
    det: "r = Ok det" "new_dispatch_epoch det = epoch_of ex_store ''t'' + 1"
      "superseded_count det = length (superseded_dispatches det)"
      "map dispatch_id (superseded_dispatches det) = map dispatch_id
        (filter (\<lambda>d. thread_id d = ''t'' \<and> status d = Queued) (hm_values (dispatches ex_store)))"
    and act: "\<forall>k d. lookup ex_store k = Some d \<longrightarrow> thread_id d = ''t'' \<and> status d = Claimed \<longrightarrow>
      active_dispatch det = Some d"
    by blast
  have "active_dispatch det = Some ex_claimed" using act ex_store_lookup by blast
  moreover have "superseded_count det = 1" 
    using arg_cong [OF det(4), of length] q by (simp only: length_map det(3))
  ultimately show ?thesis using det(1,2) e(1) eq by simp
qed

section \<open>Claim order\<close>

lemma claim_eligible_lookup:
  assumes "hm_keys_distinct m"
  shows "map (\<lambda>k. the (map_of m k)) (map fst (claim_eligible t now m)) = map snd (claim_eligible t now m)"
proof -
  have "map_of m k = Some d" if "(k, d) \<in> set (claim_eligible t now m)" for k d
    using that assms by (simp add: claim_eligible_def hm_mem_iff)
  then show ?thesis by force
qed

lemma claim_eligible_ids:
  assumes "mailbox_inv st"
  shows "map dispatch_id (map snd (claim_eligible t now (dispatches st))) =
    map fst (claim_eligible t now (dispatches st))"
proof -
  have "dispatch_id d = k" if "(k, d) \<in> set (claim_eligible t now (dispatches st))" for k d
    using that store_okD(3) [OF mailbox_invD(1) [OF assms]] hm_mem_iff [OF mailbox_invD(4) [OF assms]]
    by (simp add: claim_eligible_def)
  then show ?thesis by force
qed

lemma sorted_claim_eligible: "sorted (map claim_order (map snd (claim_eligible t now m)))"
proof -
  have "sorted (map (\<lambda>(k, j). claim_order j) (claim_eligible t now m))"
    unfolding claim_eligible_def by (rule sorted_sort_key)
  then show ?thesis by (simp add: comp_def case_prod_beta')
qed

text \<open>
  When no dispatch of the thread is claimed, \<open>claim\<close> hands out the first \<open>limit\<close> of the
  thread's queued and available dispatches in order of priority and then creation time, each with
  the caller's lease and the fresh token, and leaves every other record alone.
\<close>

theorem claim_hands_out_in_order:
  assumes "mailbox_reachable st" and "\<not> blank c" and "\<not> blank tok"
    and "\<not> has_claimed t (dispatches st)"
    and "chosen = take limit (map snd (claim_eligible t now (dispatches st)))"
    and "mb_claim t c lease now limit tok st = (r, st')"
  shows "r = Ok (map (claimed_as c tok (now + lease) now) chosen)
    \<and> sorted (map claim_order (map snd (claim_eligible t now (dispatches st))))
    \<and> set (map snd (claim_eligible t now (dispatches st))) =
        {d \<in> set (hm_values (dispatches st)). thread_id d = t \<and> status d = Queued \<and> available_at d \<le> now}
    \<and> (\<forall>k. lookup st' k =
        (if k \<in> dispatch_id ` set chosen
         then map_option (claimed_as c tok (now + lease) now) (lookup st k) else lookup st k))"
proof -
  note inv = reachable_inv [OF assms(1)]
  note dist = mailbox_invD(4) [OF inv]
  let ?el = "claim_eligible t now (dispatches st)"
  let ?ids = "take limit (map fst ?el)"
  have sub: "set ?ids \<subseteq> set (map fst ?el)" by (rule set_take_subset)
  have ids: "distinct ?ids"
    using claim_eligible_set(2) [OF dist] by (rule distinct_take)
  have q: "\<exists>d. lookup st k = Some d \<and> dispatch_ok d \<and> status d = Queued" if "k \<in> set ?ids" for k
    using claim_eligible_set(1) [OF dist, of t now] that sub store_okD(2) [OF mailbox_invD(1) [OF inv]]
    by blast
  have claim: "mb_claim t c lease now limit tok st =
      map_prod id (\<lambda>m. st\<lparr>dispatches := m\<rparr>) (claim_ids ?ids c tok (now + lease) now (dispatches st))"
    using assms(4) by (simp add: mb_claim_eq [OF inv])
  have sel: "map (\<lambda>k. the (lookup st k)) ?ids = chosen"
    using arg_cong [OF claim_eligible_lookup [OF dist, of t now], of "take limit"] assms(5)
    by (simp only: take_map)
  have "?ids = map dispatch_id chosen"
    using claim_eligible_ids [OF inv] assms(5) by (metis take_map)
  then have ch: "set ?ids = dispatch_id ` set chosen" by simp
  have "r = Ok (map (claimed_as c tok (now + lease) now) chosen)"
    using claim assms(6) claim_ids_ok [OF ids assms(2,3) q, where lease = "now + lease" and now = now]
    by (cases "claim_ids ?ids c tok (now + lease) now (dispatches st)")
      (simp add: sel [symmetric] comp_def)
  moreover have "lookup st' k = (if k \<in> dispatch_id ` set chosen
      then map_option (claimed_as c tok (now + lease) now) (lookup st k) else lookup st k)" for k
    using claim assms(6) claim_ids_ok [OF ids assms(2,3) q, where lease = "now + lease" and now = now and k = k] ch
    by (cases "claim_ids ?ids c tok (now + lease) now (dispatches st)") simp
  moreover have "set (map snd ?el) =
      {d \<in> set (hm_values (dispatches st)). thread_id d = t \<and> status d = Queued \<and> available_at d \<le> now}"
    by (force simp: claim_eligible_def)
  ultimately show ?thesis using sorted_claim_eligible by blast
qed

theorem claim_hands_out_in_order_witness:
  "fst (mb_claim ''t'' ''w'' 30 200 1 ''tok'' ex_queue) =
     Ok [claimed_as ''w'' ''tok'' 230 200 (prepare_for_enqueue (ex_dispatch ''a'') 0)]"
proof -
  obtain r st' where eq: "mb_claim ''t'' ''w'' 30 200 1 ''tok'' ex_queue = (r, st')" by fastforce
  have h: "\<not> blank ''w''" "\<not> blank ''tok''" "\<not> has_claimed ''t'' (dispatches ex_queue)"
    by code_simp+
  have "take 1 (map snd (claim_eligible ''t'' 200 (dispatches ex_queue))) =
      [prepare_for_enqueue (ex_dispatch ''a'') 0]" by code_simp
  with claim_hands_out_in_order [OF ex_queue_reachable h refl eq] eq show ?thesis by simp
qed

section \<open>Completion and retry\<close>

text \<open>
  Acknowledging a dispatch with its token while its epoch is current succeeds, and the record
  becomes acknowledged, completed now and free of its lease; nothing else in the store changes.
\<close>

theorem ack_completes:
  assumes "mailbox_reachable st" and "lookup st k = Some d" and "claim_token d = Some tok"
    and "dispatch_epoch d = epoch_of st (thread_id d)"
  shows "mb_ack k tok now st =
    (Ok (), put_record k (d\<lparr>status := Acked, completed_at := Some now, updated_at := now,
       claim_token := None, claimed_by := None, lease_until := None\<rparr>) st)"
proof -
  note ok = store_okD(2) [OF mailbox_invD(1) [OF reachable_inv [OF assms(1)]] assms(2)]
  have c: "status d = Claimed" by (rule token_claimed [OF ok assms(3)])
  have "snd (mark_acked d now) = d\<lparr>status := Acked, completed_at := Some now, updated_at := now,
       claim_token := None, claimed_by := None, lease_until := None\<rparr>"
    using c by (simp add: mark_acked_def guarded_def require_status_def clear_claim_fields_def)
  moreover have "mb_ack k tok now st = finish k (mark_acked d now) (\<lambda>_. Ok ()) st"
    using assms c by (simp add: mb_ack_def state_mark_acked_def ack_step.or_panic_eq [OF ok])
  ultimately show ?thesis using c by (simp add: ack_step.finish_eq [OF ok])
qed

theorem ack_completes_witness:
  "fst (mb_ack ''a'' ''tok'' 250 ex_store) = Ok () \<and>
   map_option status (lookup (snd (mb_ack ''a'' ''tok'' 250 ex_store)) ''a'') = Some Acked"
proof -
  have "dispatch_epoch ex_claimed = epoch_of ex_store (thread_id ex_claimed)" by code_simp
  from ack_completes [OF ex_store_reachable ex_store_lookup(1,3) this, of 250] show ?thesis by simp
qed

text \<open>
  A nack with the right token and epoch counts the attempt: the dispatch is queued again for
  the retry time while attempts are left, and is dead-lettered when this was the last one. Its
  lease is gone either way.
\<close>

theorem nack_retries_or_buries:
  assumes "mailbox_reachable st" and "lookup st k = Some d" and "claim_token d = Some tok"
    and "dispatch_epoch d = epoch_of st (thread_id d)"
    and "mb_nack k tok retry_at err now st = (r, st')"
  shows "r = Ok () \<and> (\<exists>d'. st' = put_record k d' st
    \<and> unat (attempt_count d') = Suc (unat (attempt_count d)) \<and> last_error d' = Some err \<and> no_lease d'
    \<and> (if unat (attempt_count d) + 1 < unat (max_attempts d)
       then status d' = Queued \<and> available_at d' = retry_at \<and> no_runtime d' \<and> completed_at d' = None
       else status d' = DeadLetter \<and> completed_at d' = Some now))"
proof -
  note ok = store_okD(2) [OF mailbox_invD(1) [OF reachable_inv [OF assms(1)]] assms(2)]
  have c: "status d = Claimed" by (rule token_claimed [OF ok assms(3)])
  have lt: "attempt_count d < max_attempts d" using ok c by (simp add: dispatch_ok_claimed_iff)
  define d' where "d' = snd (mark_nack_result d now retry_at err)"
  have "mb_nack k tok retry_at err now st = finish k (mark_nack_result d now retry_at err) (\<lambda>_. Ok ()) st"
    using assms c by (simp add: mb_nack_def state_mark_nack_result_def nack_step.or_panic_eq [OF ok])
  then have eq: "r = Ok ()" "st' = put_record k d' st"
    using c assms(5) by (simp_all add: nack_step.finish_eq [OF ok] d'_def)
  have "unat (attempt_count d') = Suc (unat (attempt_count d)) \<and> last_error d' = Some err \<and> no_lease d'
    \<and> (if unat (attempt_count d) + 1 < unat (max_attempts d)
       then status d' = Queued \<and> available_at d' = retry_at \<and> no_runtime d' \<and> completed_at d' = None
       else status d' = DeadLetter \<and> completed_at d' = Some now)"
    using c unat_add_one [OF lt] saturating_add_one [OF lt]
    by (simp add: d'_def mark_nack_result_def guarded_def require_status_def field_defs Let_def
        word_le_nat_alt)
  with eq show ?thesis by blast
qed

theorem nack_retries_or_buries_witness:
  "fst (mb_nack ''a'' ''tok'' 900 ''boom'' 250 ex_store) = Ok ()"
proof -
  have e: "dispatch_epoch ex_claimed = epoch_of ex_store (thread_id ex_claimed)" by code_simp
  obtain r st' where "mb_nack ''a'' ''tok'' 900 ''boom'' 250 ex_store = (r, st')" by fastforce
  with nack_retries_or_buries [OF ex_store_reachable ex_store_lookup(1,3) e this] show ?thesis
    by simp
qed

text \<open>
  One delivery attempt that fails, on the store: a worker claims from the thread and hands the
  dispatch it got back with an error.
\<close>

record Attempt =
  at_consumer :: string
  at_token :: string
  at_lease_ms :: u64
  at_claimed :: u64
  at_retry :: u64
  at_error :: string
  at_failed :: u64

definition failed_attempt :: "string \<Rightarrow> Attempt \<Rightarrow> InMemoryMailboxStore \<Rightarrow> (RunDispatch list, StorageError) outcome \<times> InMemoryMailboxStore" where
  "failed_attempt t a st =
     (case mb_claim t (at_consumer a) (at_lease_ms a) (at_claimed a) 1 (at_token a) st of
        (Ok [d], st1) \<Rightarrow> (Ok [d], snd (mb_nack (dispatch_id d) (at_token a) (at_retry a) (at_error a) (at_failed a) st1))
      | (r, st1) \<Rightarrow> (r, st1))"

text \<open>The ids each attempt of a sequence was handed, and the store in the end.\<close>

fun failed_attempts :: "string \<Rightarrow> Attempt list \<Rightarrow> InMemoryMailboxStore \<Rightarrow> string list list \<times> InMemoryMailboxStore" where
  "failed_attempts t [] st = ([], st)"
| "failed_attempts t (a # as) st =
     (let (r, st1) = failed_attempt t a st; (rs, st2) = failed_attempts t as st1
      in ((case r of Ok ds \<Rightarrow> map dispatch_id ds | _ \<Rightarrow> []) # rs, st2))"

text \<open>A worker names itself and its token, and does not come back before the retry time it set.\<close>

definition attempts_ok :: "Attempt list \<Rightarrow> bool" where
  "attempts_ok as \<longleftrightarrow> list_all (\<lambda>a. \<not> blank (at_consumer a) \<and> \<not> blank (at_token a)) as \<and>
     successively (\<lambda>a b. at_retry a \<le> at_claimed b) as"

text \<open>\<open>only_live st t k\<close>: the dispatch \<open>k\<close> is the only one of the thread that is not terminal.\<close>

definition only_live :: "InMemoryMailboxStore \<Rightarrow> string \<Rightarrow> string \<Rightarrow> bool" where
  "only_live st t k \<longleftrightarrow> (\<forall>k' d'. lookup st k' = Some d' \<longrightarrow> thread_id d' = t \<longrightarrow> k' \<noteq> k \<longrightarrow> is_terminal (status d'))"

lemma claimed_as_fields:
  assumes "dispatch_ok d" and "status d = Queued" and "\<not> blank c" "\<not> blank tok"
  shows "claim_token (claimed_as c tok lease now d) = Some tok" "dispatch_id (claimed_as c tok lease now d) = dispatch_id d"
    "thread_id (claimed_as c tok lease now d) = thread_id d" "max_attempts (claimed_as c tok lease now d) = max_attempts d"
    "attempt_count (claimed_as c tok lease now d) = attempt_count d"
    "dispatch_epoch (claimed_as c tok lease now d) = dispatch_epoch d"
  using assms by (simp_all add: claimed_as_def claim_def guarded_def require_status_def)

lemma distinct_singleton_list: "set xs = {x} \<Longrightarrow> distinct xs \<Longrightarrow> xs = [x]"
  by (cases xs; cases "tl xs") auto

lemma claimed_live: "status d = Claimed \<Longrightarrow> \<not> is_terminal (status d)"
  and queued_live: "status d = Queued \<Longrightarrow> \<not> is_terminal (status d)"
  by (simp_all add: is_terminal_def)

lemma claim_only_live:
  assumes "mailbox_reachable st" and k: "lookup st k = Some d" "thread_id d = t" "status d = Queued"
    and only: "only_live st t k" and c: "\<not> blank c" "\<not> blank tok" and av: "available_at d \<le> now"
    and eq: "mb_claim t c lease now 1 tok st = (r, st')"
  shows "r = Ok [claimed_as c tok (now + lease) now d]"
    and "lookup st' k' = (if k' = k then Some (claimed_as c tok (now + lease) now d) else lookup st k')"
proof -
  note inv = reachable_inv [OF assms(1)]
  note dist = mailbox_invD(4) [OF inv]
  have others: "k' = k" if "lookup st k' = Some d'" "thread_id d' = t" "\<not> is_terminal (status d')" for k' d'
    using only that by (auto simp: only_live_def)
  have free: "\<not> has_claimed t (dispatches st)"
    unfolding has_claimed_def list_ex_hm_iff [OF dist] using others k
    by (metis RunDispatchStatus.distinct(1) option.inject claimed_live)
  have "set (map fst (claim_eligible t now (dispatches st))) = {k}"
    unfolding claim_eligible_set(1) [OF dist] using others k av queued_live by blast
  then have "map fst (claim_eligible t now (dispatches st)) = [k]"
    using claim_eligible_set(2) [OF dist, of t now] by (rule distinct_singleton_list)
  then have el: "map snd (claim_eligible t now (dispatches st)) = [d]"
    using claim_eligible_lookup [OF dist, of t now] k(1) by simp
  have id: "dispatch_id d = k" using store_okD(3) [OF mailbox_invD(1) [OF inv] k(1)] .
  have "[d] = take 1 (map snd (claim_eligible t now (dispatches st)))" by (simp add: el)
  note out = claim_hands_out_in_order [OF assms(1) c free this eq]
  then show "r = Ok [claimed_as c tok (now + lease) now d]" by simp
  from out show "lookup st' k' = (if k' = k then Some (claimed_as c tok (now + lease) now d) else lookup st k')"
    using id k(1) by simp
qed

lemma claim_nothing_live:
  assumes "mailbox_reachable st" and only: "only_live st t k"
    and k: "\<And>d. lookup st k = Some d \<Longrightarrow> is_terminal (status d)"
  shows "mb_claim t c lease now 1 tok st = (Ok [], st)"
proof -
  note inv = reachable_inv [OF assms(1)]
  note dist = mailbox_invD(4) [OF inv]
  have none: "is_terminal (status d')" if "lookup st k' = Some d'" "thread_id d' = t" for k' d'
    using only k that by (cases "k' = k") (auto simp: only_live_def)
  have "\<not> has_claimed t (dispatches st)"
    unfolding has_claimed_def list_ex_hm_iff [OF dist] using none claimed_live by blast
  moreover have "set (map fst (claim_eligible t now (dispatches st))) = {}"
    unfolding claim_eligible_set(1) [OF dist] using none queued_live by blast
  ultimately show ?thesis by (simp add: mb_claim_eq [OF inv])
qed

lemma failed_attempt_step:
  assumes st: "mailbox_reachable st" and k: "lookup st k = Some d" "thread_id d = t" "status d = Queued"
    and only: "only_live st t k" and a: "\<not> blank (at_consumer a)" "\<not> blank (at_token a)" "available_at d \<le> at_claimed a"
  shows "\<exists>c st' d'. failed_attempt t a st = (Ok [c], st') \<and> dispatch_id c = k \<and> mailbox_reachable st' \<and> only_live st' t k \<and>
    lookup st' k = Some d' \<and> thread_id d' = t \<and> max_attempts d' = max_attempts d \<and>
    unat (attempt_count d') = Suc (unat (attempt_count d)) \<and>
    (if unat (attempt_count d) + 1 < unat (max_attempts d)
     then status d' = Queued \<and> available_at d' = at_retry a else status d' = DeadLetter)"
proof -
  note inv = reachable_inv [OF st]
  note ok = store_okD [OF mailbox_invD(1) [OF inv] k(1)]
  obtain r st1 where cl: "mb_claim t (at_consumer a) (at_lease_ms a) (at_claimed a) 1 (at_token a) st = (r, st1)"
    by fastforce
  define c where "c = claimed_as (at_consumer a) (at_token a) (at_claimed a + at_lease_ms a) (at_claimed a) d"
  note C = claimed_as_fields [OF ok(2) k(3) a(1,2), of "at_claimed a + at_lease_ms a" "at_claimed a", folded c_def]
  have r: "r = Ok [c]" and l1: "\<And>k'. lookup st1 k' = (if k' = k then Some c else lookup st k')"
    using claim_only_live [OF st k only a cl] by (simp_all add: c_def)
  have st1: "mailbox_reachable st1"
    using reach_cmd [OF st, of "CmdClaim t (at_consumer a) (at_lease_ms a) (at_claimed a) 1 (at_token a)"] a cl
    by (simp add: forget_def)
  have same_state: "mb_state st1 = mb_state st"
    using mb_claim_mb_state [of t "at_consumer a" "at_lease_ms a" "at_claimed a" 1 "at_token a" st]
    unfolding cl snd_conv .
  have ep: "dispatch_epoch c = epoch_of st1 (thread_id c)"
    using C ok(5) [OF k(3)] k(2) same_state by simp
  obtain r2 st2 where nk: "mb_nack k (at_token a) (at_retry a) (at_error a) (at_failed a) st1 = (r2, st2)" by fastforce
  have lc: "lookup st1 k = Some c" by (simp add: l1)
  from nack_retries_or_buries [OF st1 lc C(1) ep nk] obtain d' where
    d': "st2 = put_record k d' st1" "unat (attempt_count d') = Suc (unat (attempt_count c))"
      "if unat (attempt_count c) + 1 < unat (max_attempts c) then status d' = Queued \<and> available_at d' = at_retry a
       else status d' = DeadLetter"
    by (auto split: if_splits)
  have st2: "mailbox_reachable st2"
    using reach_cmd [OF st1, of "CmdNack k (at_token a) (at_retry a) (at_error a) (at_failed a)"] nk
    by (simp add: forget_def)
  have "store_moves st1 st2"
    using exec_cmd_safe [OF reachable_inv [OF st1], of "CmdNack k (at_token a) (at_retry a) (at_error a) (at_failed a)"] nk
    by (simp add: safe_step_def forget_def)
  from store_movesD [OF this, of k] have "same_identity c d'"
    using record_moves_identity by (simp add: lc d'(1))
  then have same: "thread_id d' = t" "max_attempts d' = max_attempts d"
    using C k(2) by (simp_all add: same_identity_def)
  have "only_live st2 t k" using only l1 by (simp add: only_live_def d'(1))
  moreover have "failed_attempt t a st = (Ok [c], st2)"
    by (simp add: failed_attempt_def cl r C ok(3) nk del: One_nat_def)
  ultimately show ?thesis using st2 d' same C ok(3) by auto
qed

lemma failed_attempts_spent:
  assumes "mailbox_reachable st" and "only_live st t k"
    and "\<And>d. lookup st k = Some d \<Longrightarrow> is_terminal (status d)"
  shows "failed_attempts t as st = (replicate (length as) [], st)"
  by (induction as) (simp_all add: failed_attempt_def claim_nothing_live [OF assms] del: One_nat_def)

text \<open>
  C33: The retry budget is exact: where a thread has one live dispatch and each attempt at it fails, a
  worker that comes back after each retry time is handed the dispatch exactly as often as it has
  attempts left and nothing afterwards; it stays queued until the last of them dead-letters it.
\<close>

theorem retry_budget_exact:
  assumes "mailbox_reachable st" and "lookup st k = Some d" and "thread_id d = t" and "status d = Queued"
    and "only_live st t k" and "attempts_ok as" and "as \<noteq> [] \<longrightarrow> available_at d \<le> at_claimed (hd as)"
    and "n = unat (max_attempts d) - unat (attempt_count d)" and "failed_attempts t as st = (handed, st')"
  shows "handed = replicate (min n (length as)) [k] @ replicate (length as - n) [] \<and>
    (\<exists>d'. lookup st' k = Some d' \<and> status d' = (if length as < n then Queued else DeadLetter) \<and>
      unat (attempt_count d') = unat (attempt_count d) + min n (length as))"
proof -
  have left: "attempt_count d < max_attempts d" if "mailbox_reachable st" "lookup st k = Some d" "status d = Queued" for st d
    using store_okD(2) [OF mailbox_invD(1) [OF reachable_inv [OF that(1)]] that(2)] that(3)
    by (simp add: dispatch_ok_queued_iff)
  show ?thesis using assms
  proof (induction as arbitrary: st d n handed st')
    case Nil
    then show ?case using left [OF Nil.prems(1,2,4)] by (simp add: word_less_nat_alt)
  next
    case (Cons a as)
    have a: "\<not> blank (at_consumer a)" "\<not> blank (at_token a)" "attempts_ok as"
      using Cons.prems(6) by (auto simp: attempts_ok_def successively_Cons)
    have av: "available_at d \<le> at_claimed a" using Cons.prems(7) by simp
    from failed_attempt_step [OF Cons.prems(1-5) a(1,2) av] obtain c st1 d1 where
      step: "failed_attempt t a st = (Ok [c], st1)" "dispatch_id c = k" "mailbox_reachable st1" "only_live st1 t k"
        "lookup st1 k = Some d1" "thread_id d1 = t" "max_attempts d1 = max_attempts d"
        "unat (attempt_count d1) = Suc (unat (attempt_count d))"
      and after: "if unat (attempt_count d) + 1 < unat (max_attempts d)
        then status d1 = Queued \<and> available_at d1 = at_retry a else status d1 = DeadLetter" by blast
    obtain rs st2 where rest: "failed_attempts t as st1 = (rs, st2)" by fastforce
    then have out: "handed = [k] # rs" "st' = st2" using Cons.prems(9) step by simp_all
    have lt: "attempt_count d < max_attempts d" by (rule left [OF Cons.prems(1,2,4)])
    show ?case
    proof (cases "unat (attempt_count d) + 1 < unat (max_attempts d)")
      case True
      have "as \<noteq> [] \<longrightarrow> available_at d1 \<le> at_claimed (hd as)"
        using Cons.prems(6) after True by (auto simp: attempts_ok_def successively_Cons)
      with Cons.IH [OF step(3,5,6) _ step(4) a(3) _ _ rest] after True
      have "rs = replicate (min (unat (max_attempts d1) - unat (attempt_count d1)) (length as)) [k] @
          replicate (length as - (unat (max_attempts d1) - unat (attempt_count d1))) []"
        "\<exists>d'. lookup st2 k = Some d' \<and>
          status d' = (if length as < unat (max_attempts d1) - unat (attempt_count d1) then Queued else DeadLetter) \<and>
          unat (attempt_count d') = unat (attempt_count d1) + min (unat (max_attempts d1) - unat (attempt_count d1)) (length as)"
        by simp_all
      moreover have "n = Suc (unat (max_attempts d1) - unat (attempt_count d1))"
        using True Cons.prems(8) step(7,8) by simp
      ultimately show ?thesis using out step(8) by auto
    next
      case False
      then have "n = 1" using Cons.prems(8) lt by (simp add: word_less_nat_alt)
      moreover have "status d1 = DeadLetter" using after False by simp
      moreover from this have "rs = replicate (length as) []" "st2 = st1"
        using failed_attempts_spent [OF step(3,4), of as] step(5) rest by (simp_all add: is_terminal_def)
      ultimately show ?thesis using out step by simp
    qed
  qed
qed

definition ex_attempt :: "u64 \<Rightarrow> Attempt" where
  "ex_attempt now = \<lparr>at_consumer = ''w'', at_token = ''tok'', at_lease_ms = 30, at_claimed = now,
     at_retry = now + 10, at_error = ''boom'', at_failed = now + 5\<rparr>"

definition ex_single :: InMemoryMailboxStore where
  "ex_single = snd (exec_cmd (CmdEnqueue (ex_dispatch ''a'')) mb_new)"

theorem retry_budget_exact_witness:
  "fst (failed_attempts ''t'' (map ex_attempt [200, 300, 400, 500, 600, 700]) ex_single) =
     [[''a''], [''a''], [''a''], [''a''], [''a''], []]"
proof -
  define d where "d = the (lookup ex_single ''a'')"
  define as where "as = map ex_attempt [200, 300, 400, 500, 600, 700]"
  have st: "mailbox_reachable ex_single"
    unfolding ex_single_def by (rule reach_cmd [OF reach_new]) code_simp
  have d: "lookup ex_single ''a'' = Some d" "thread_id d = ''t''" "status d = Queued"
    "5 = unat (max_attempts d) - unat (attempt_count d)"
    unfolding d_def by code_simp+
  have "map fst (dispatches ex_single) = [''a'']" by code_simp
  then have only: "only_live ex_single ''t'' ''a''"
    unfolding only_live_def by (metis domI dom_map_of_conv_image_fst empty_set list.set_map list.simps(15) singletonD)
  have as: "attempts_ok as" "as \<noteq> [] \<longrightarrow> available_at d \<le> at_claimed (hd as)" "length as = 6"
    unfolding as_def d_def by code_simp+
  obtain handed st' where eq: "failed_attempts ''t'' as ex_single = (handed, st')" by fastforce
  from retry_budget_exact [OF st d(1-3) only as(1,2) d(4) eq] show ?thesis
    unfolding as_def [symmetric] eq using as(3) by (simp add: numeral_eq_Suc)
qed

section \<open>Expired leases\<close>

lemma reclaim_lookup:
  assumes "mailbox_inv st"
    and "limit \<ge> length (filter (lease_expired now) (hm_values (dispatches st)))"
    and "lookup st k = Some d"
  shows "lookup (snd (mb_reclaim_expired_leases now limit st)) k =
    Some (if lease_expired now d then reclaimed st now d else d)"
proof -
  define ids where "ids = map dispatch_id
    (take limit (filter (lease_expired now) (hm_values (dispatches st))))"
  note ids = expired_ids [OF assms(1) ids_def]
  have found: "\<exists>d. lookup st k = Some d \<and> status d = Claimed" if "k \<in> set ids" for k
    using ids(2) [OF that] lease_expired_claimed by blast
  have "d \<in> set (hm_values (dispatches st))" "dispatch_id d = k"
    using assms(3) hm_values_iff [OF mailbox_invD(4) [OF assms(1)]]
      store_okD(3) [OF mailbox_invD(1) [OF assms(1)] assms(3)] by blast+
  then have "k \<in> set ids" if "lease_expired now d"
    using that assms(2) by (auto simp: ids_def)
  moreover have "lease_expired now d" if "k \<in> set ids"
    using ids(2) [OF that] assms(3) by (metis option.inject)
  ultimately have "k \<in> set ids \<longleftrightarrow> lease_expired now d" by blast
  then show ?thesis
    using reclaim_ids_ok [OF assms(1) ids(1) found, where k = k and now = now] assms(3)
    unfolding mb_reclaim_expired_leases_def ids_def [symmetric] by simp
qed

text \<open>
  Lease expiry: a reclamation pass whose limit covers the expired leases leaves every other
  record alone; an expired dispatch of the current epoch is charged an attempt and is available at
  once or dead-lettered with the reason, and an expired dispatch of an interrupted epoch is
  superseded without a further attempt.
\<close>

theorem reclaim_effect:
  assumes "mailbox_reachable st" and "lookup st k = Some d"
    and "limit \<ge> length (filter (lease_expired now) (hm_values (dispatches st)))"
  shows "\<exists>d'. lookup (snd (mb_reclaim_expired_leases now limit st)) k = Some d' \<and>
    (if \<not> lease_expired now d then d' = d
     else if dispatch_epoch d < epoch_of st (thread_id d) then
       status d' = Superseded \<and> attempt_count d' = attempt_count d \<and>
       last_error d' = Some REASON_CLAIMED_LEASE_EXPIRED_AFTER_INTERRUPT
     else unat (attempt_count d') = Suc (unat (attempt_count d)) \<and> no_lease d' \<and> no_runtime d' \<and>
       (if unat (attempt_count d) + 1 < unat (max_attempts d)
        then status d' = Queued \<and> available_at d' = now
        else status d' = DeadLetter \<and> last_error d' = Some REASON_LEASE_EXPIRED_MAX_ATTEMPTS))"
proof -
  note inv = reachable_inv [OF assms(1)]
  note ok = store_okD(2) [OF mailbox_invD(1) [OF inv] assms(2)]
  have l: "lookup (snd (mb_reclaim_expired_leases now limit st)) k =
      Some (if lease_expired now d then reclaimed st now d else d)"
    by (rule reclaim_lookup [OF inv assms(3,2)])
  show ?thesis
  proof (cases "lease_expired now d")
    case True
    then have c: "status d = Claimed" by (rule lease_expired_claimed)
    have lt: "attempt_count d < max_attempts d" using ok c by (simp add: dispatch_ok_claimed_iff)
    show ?thesis
      unfolding l
      using True c unat_add_one [OF lt] saturating_add_one [OF lt]
      by (simp add: reclaimed_def mark_superseded_at_epoch_eq [OF ok] superseded_fields_def
          mark_expired_lease_def guarded_def require_status_def field_defs Let_def word_le_nat_alt)
  qed (simp add: l)
qed

theorem reclaim_effect_witness:
  "\<exists>d'. lookup (snd (mb_reclaim_expired_leases 500 2 ex_store)) ''a'' = Some d' \<and> status d' = Queued"
proof -
  have "length (filter (lease_expired 500) (hm_values (dispatches ex_store))) \<le> 2" by code_simp
  moreover have "lease_expired 500 ex_claimed" "\<not> dispatch_epoch ex_claimed < epoch_of ex_store (thread_id ex_claimed)"
    "unat (attempt_count ex_claimed) + 1 < unat (max_attempts ex_claimed)" by code_simp+
  ultimately show ?thesis
    using reclaim_effect [OF ex_store_reachable ex_store_lookup(1), of 500 2] by auto
qed

section \<open>Enqueue and purge\<close>

text \<open>A dispatch that passes validation has nothing to reset but its epoch.\<close>

lemma prepare_for_enqueue_id:
  assumes "validate_for_enqueue d = Ok ()"
  shows "prepare_for_enqueue d e = d\<lparr>dispatch_epoch := e\<rparr>"
proof -
  have "status d = Queued" "no_lease d" "completed_at d = None" "no_runtime d"
    using assms by (auto simp add: validate_for_enqueue_Ok valid_dispatch_iff shape_ok_def)
  then show ?thesis
    by (cases d) (simp add: prepare_for_enqueue_def no_lease_def no_runtime_def)
qed

text \<open>
  Enqueue, on every branch: an invalid dispatch is refused with its validation error, a live
  dispatch of the same thread with the same dedupe key refuses it as already existing, and
  otherwise it is stored as queued at the current epoch of its thread. A refusal changes nothing.
\<close>

theorem enqueue_branches:
  assumes "attempt_count d < max_attempts d"
  shows "mb_enqueue d st =
    (case validate_for_enqueue d of
       Err e \<Rightarrow> (Err e, st)
     | Panic p \<Rightarrow> (Panic p, st)
     | Ok _ \<Rightarrow>
         if \<exists>dk. dedupe_key d = Some dk \<and>
              (\<exists>j \<in> set (hm_values (dispatches st)). thread_id j = thread_id d \<and>
                 dedupe_key j = Some dk \<and> \<not> is_terminal (status j))
         then (Err (AlreadyExists (''dedupe_key='' @ the (dedupe_key d))), st)
         else (Ok (), put_record (dispatch_id d) (d\<lparr>dispatch_epoch := epoch_of st (thread_id d)\<rparr>)
                (st\<lparr>mb_state := ensure_state (thread_id d) (mb_state st)\<rparr>)))"
proof (cases "validate_for_enqueue d")
  case (Ok u)
  then have v: "validate_for_enqueue d = Ok ()" by simp
  have "mb_admit d st = (Ok (), put_record (dispatch_id d)
      (d\<lparr>dispatch_epoch := epoch_of st (thread_id d)\<rparr>)
      (st\<lparr>mb_state := ensure_state (thread_id d) (mb_state st)\<rparr>))"
    using mb_admit_eq [OF v assms] prepare_for_enqueue_id [OF v] by (simp add: admitted_def)
  then show ?thesis
    by (cases "dedupe_key d") (simp_all add: mb_enqueue_def v dedupe_conflict_def list_ex_iff conj_ac)
qed (simp_all add: mb_enqueue_def)

theorem enqueue_branches_witness:
  "fst (mb_enqueue (ex_dispatch ''c'') ex_store) = Ok ()"
proof -
  have "attempt_count (ex_dispatch ''c'') < max_attempts (ex_dispatch ''c'')"
    "validate_for_enqueue (ex_dispatch ''c'') = Ok ()" "dedupe_key (ex_dispatch ''c'') = None"
    by code_simp+
  with enqueue_branches [of "ex_dispatch ''c''" ex_store] show ?thesis by simp
qed

text \<open>
  Purging removes exactly the terminal dispatches last updated before the bound, reports how
  many, and never loses the epoch of a thread that still has a dispatch.
\<close>

theorem purge_exact:
  assumes "mailbox_reachable st" and "mb_purge_terminal older_than st = (n, st')"
  shows "lookup st' k = (case lookup st k of
      None \<Rightarrow> None
    | Some d \<Rightarrow> if is_terminal (status d) \<and> updated_at d < older_than then None else Some d)
    \<and> n = length (filter (\<lambda>d. is_terminal (status d) \<and> updated_at d < older_than)
            (hm_values (dispatches st)))
    \<and> (lookup st' k = Some d \<longrightarrow> epoch_of st' (thread_id d) = epoch_of st (thread_id d))"
proof -
  note inv = reachable_inv [OF assms(1)]
  have "length (filter P m) + length (filter (\<lambda>x. \<not> P x) m) = length m" for P and m :: "'a list"
    by (rule sum_length_filter_compl)
  from this [of "\<lambda>(k, d). is_terminal (status d) \<and> updated_at d < older_than" "dispatches st"]
  have "n = length (filter (\<lambda>d. is_terminal (status d) \<and> updated_at d < older_than)
      (hm_values (dispatches st)))"
    using assms(2)
    by (auto simp: mb_purge_terminal_def Let_def hm_retain_def filter_map comp_def case_prod_beta')
  moreover have "lookup st' k = (case lookup st k of
      None \<Rightarrow> None
    | Some d \<Rightarrow> if is_terminal (status d) \<and> updated_at d < older_than then None else Some d)"
    using purge_lookup [OF inv, of older_than k] assms(2)
    by (simp add: kept_by_purge_def split: option.split)
  ultimately show ?thesis using purge_epoch [OF inv, of older_than k d] assms(2) by simp
qed

theorem purge_exact_witness:
  "fst (mb_purge_terminal 300 ex_acked) = 1"
proof -
  obtain n st' where "mb_purge_terminal 300 ex_acked = (n, st')" by fastforce
  moreover have "length (filter (\<lambda>d. is_terminal (status d) \<and> updated_at d < 300)
    (hm_values (dispatches ex_acked))) = 1" by code_simp
  ultimately show ?thesis using purge_exact [OF ex_acked_reachable, of 300 n st'] by simp
qed

section \<open>The persistence codec\<close>

text \<open>
  The persistence codec round-trips exactly the valid records: reading back what was written
  gives the record, reading an invalid one fails, and whatever is read was written in just those
  parts.
\<close>

theorem persisted_parts_roundtrip:
  "(from_persisted_parts (to_persisted_parts d) = Ok d \<longleftrightarrow> valid_dispatch d)
   \<and> (\<forall>e. from_persisted_parts p = Ok e \<longrightarrow> to_persisted_parts e = p \<and> valid_dispatch e)"
proof -
  have "from_persisted_parts (to_persisted_parts d) = and_then (validate_for_persist d) (\<lambda>_. Ok d)"
    by (cases d) (simp add: from_persisted_parts_def to_persisted_parts_def Let_def)
  moreover have "to_persisted_parts e = p \<and> valid_dispatch e" if "from_persisted_parts p = Ok e" for e
    using that
    by (auto simp: from_persisted_parts_def to_persisted_parts_def and_then_eq_Ok_iff Let_def
        valid_dispatch_def)
  ultimately show ?thesis
    by (auto simp: and_then_eq_Ok_iff valid_dispatch_def)
qed

theorem persisted_parts_roundtrip_witness:
  "from_persisted_parts (to_persisted_parts ex_claimed) = Ok ex_claimed"
proof -
  have "valid_dispatch ex_claimed" by code_simp
  with persisted_parts_roundtrip show ?thesis by blast
qed

section \<open>Inputs outside the promises\<close>

text \<open>
  The promises of \<^const>\<open>admissible\<close> are not idle. Each of the following runs the store on a
  command that its own validation accepts but that breaks one of them.
\<close>

definition spent_dispatch :: RunDispatch where
  "spent_dispatch = with_attempt_count (with_max_attempts (queued ''s'' ''t'' ''r'' 100) 1) 1"

definition spent_claimed :: InMemoryMailboxStore where
  "spent_claimed = snd (mb_claim ''t'' ''w'' 30 200 1 ''tok'' (snd (mb_enqueue spent_dispatch mb_new)))"

text \<open>
  Validation lets a dispatch in whose attempts are already spent. It is claimed like any other,
  and the nack of that claim, or the expiry of its lease, then panics in the transition wrapper,
  because the counted attempt exceeds the bound the closing validation checks.
\<close>

theorem spent_dispatch_panics:
  "mb_enqueue spent_dispatch mb_new = (Ok (), snd (mb_enqueue spent_dispatch mb_new))
   \<and> is_ok (fst (mb_claim ''t'' ''w'' 30 200 1 ''tok'' (snd (mb_enqueue spent_dispatch mb_new))))
   \<and> is_panic (fst (mb_nack ''s'' ''tok'' 300 ''failed'' 250 spent_claimed))
   \<and> is_panic (fst (mb_reclaim_expired_leases 900 10 spent_claimed))"
  by code_simp

text \<open>
  With a limit of two, one \<open>claim\<close> gives a worker two claimed dispatches of one thread, which
  the comment in the code says must not happen.
\<close>

theorem claim_limit_two_claims_twice:
  "\<not> single_claim (snd (mb_claim ''t'' ''w'' 30 200 2 ''tok'' ex_queue))"
  by code_simp

text \<open>
  A claim by a consumer with a blank name fails, but leaves the dispatch marked as claimed in
  the store, an invalid record that blocks the thread.
\<close>

theorem blank_consumer_corrupts:
  "is_panic (fst (mb_claim ''t'' '' '' 30 200 1 ''tok'' ex_queue)) = False
   \<and> is_ok (fst (mb_claim ''t'' '' '' 30 200 1 ''tok'' ex_queue)) = False
   \<and> \<not> store_ok (snd (mb_claim ''t'' '' '' 30 200 1 ''tok'' ex_queue))
   \<and> mb_claim ''t'' ''v'' 30 210 1 ''tok2'' (snd (mb_claim ''t'' '' '' 30 200 1 ''tok'' ex_queue)) =
       (Ok [], snd (mb_claim ''t'' '' '' 30 200 1 ''tok'' ex_queue))"
  by code_simp

end
