(* ===== verification/Scoped_Mailbox.thy ===== *)
theory Scoped_Mailbox
  imports Mailbox_Protocol
begin

text \<open>
  Scope ids and the mailbox store that confines a client to one scope
  (\<^verbatim>\<open>awaken-server-contract/src/contract/scope.rs\<close> and \<open>ScopedMailboxStore\<close> in
  \<^verbatim>\<open>contract/mailbox.rs\<close>). The wrapper prefixes every identifier with the scope, calls the
  inner store, and decodes what comes back; here the inner store is the in-memory one. The key
  encoding carries the byte length of the scope, which is what makes it injective.
\<close>

section \<open>Scope ids\<close>

definition DEFAULT_SCOPE_ID :: string where
  "DEFAULT_SCOPE_ID = ''default''"

definition MAX_SCOPE_ID_LEN :: nat where
  "MAX_SCOPE_ID_LEN = 512"

datatype ScopeError = ScopeEmpty | ScopeTooLong nat | ScopeControlCharacter

datatype ScopeId = ScopeId (as_str: string)

definition ScopeId_new :: "string \<Rightarrow> (ScopeId, ScopeError) outcome" where
  "ScopeId_new value =
     (if blank value then Err ScopeEmpty
      else if str_len value > MAX_SCOPE_ID_LEN then Err (ScopeTooLong MAX_SCOPE_ID_LEN)
      else if list_ex is_control value then Err ScopeControlCharacter
      else Ok (ScopeId value))"

definition default_scope :: ScopeId where
  "default_scope = ScopeId DEFAULT_SCOPE_ID"

definition scope_prefix :: "ScopeId \<Rightarrow> string" where
  "scope_prefix s = ''scope:'' @ show_nat (str_len (as_str s)) @ '':'' @ as_str s @ '':''"

definition scoped_key :: "ScopeId \<Rightarrow> string \<Rightarrow> string" where
  "scoped_key s value = scope_prefix s @ value"

definition unscoped_key :: "ScopeId \<Rightarrow> string \<Rightarrow> string option" where
  "unscoped_key s value = strip_prefix (scope_prefix s) value"

section \<open>The key encoding is injective\<close>

lemma str_len_append [simp]: "str_len (s @ t) = str_len s + str_len t"
  by (simp add: str_len_def)

lemma str_len_eq_0 [simp]: "str_len s = 0 \<longleftrightarrow> s = []"
  by (cases s) (auto simp: str_len_def)

text \<open>A digit string is over at the first character that is not a digit.\<close>

lemma digits_delimited:
  assumes "show_nat m @ c # s = show_nat n @ c # t" and "\<not> is_digit c"
  shows "m = n \<and> s = t"
proof -
  have "takeWhile is_digit (show_nat k @ c # u) = show_nat k" for k u
    using assms(2) set_show_nat by (subst takeWhile_append2) auto
  then have "show_nat m = show_nat n" using assms(1) by metis
  then show ?thesis using assms(1) by (simp add: show_nat_inject)
qed

lemma same_length_append:
  assumes "s @ u = t @ v" and "str_len s = str_len t"
  shows "s = t \<and> u = v"
proof -
  from assms(1) obtain w where "s = t @ w \<and> w @ u = v \<or> s @ w = t \<and> u = w @ v"
    by (auto simp: append_eq_append_conv2)
  with assms(2) show ?thesis by auto
qed

lemma colon_not_digit: "\<not> is_digit (CHR '':'')"
  by (simp add: is_digit_def)

lemma scope_prefix_inject:
  assumes "scope_prefix s1 @ v1 = scope_prefix s2 @ v2"
  shows "s1 = s2 \<and> v1 = v2"
proof -
  let ?t1 = "as_str s1 @ CHR '':'' # v1" and ?t2 = "as_str s2 @ CHR '':'' # v2"
  have "show_nat (str_len (as_str s1)) @ CHR '':'' # ?t1 = show_nat (str_len (as_str s2)) @ CHR '':'' # ?t2"
    using assms by (simp add: scope_prefix_def)
  from digits_delimited [OF this colon_not_digit]
  have "?t1 = ?t2" "str_len (as_str s1) = str_len (as_str s2)" by simp_all
  then show ?thesis using same_length_append by (metis ScopeId.expand list.inject)
qed

lemma scoped_key_inject [simp]: "scoped_key s1 v1 = scoped_key s2 v2 \<longleftrightarrow> s1 = s2 \<and> v1 = v2"
  using scope_prefix_inject by (auto simp: scoped_key_def)

lemma unscoped_key_iff: "unscoped_key s k = Some v \<longleftrightarrow> k = scoped_key s v"
  by (simp add: unscoped_key_def scoped_key_def strip_prefix_eq_Some)

lemma unscoped_scoped [simp]: "unscoped_key s (scoped_key s v) = Some v"
  by (simp add: unscoped_key_iff)

lemma unscoped_other: "s1 \<noteq> s2 \<Longrightarrow> unscoped_key s1 (scoped_key s2 v) = None"
  by (metis option.exhaust scoped_key_inject unscoped_key_iff)

text \<open>A non-empty scope never encodes a value to a blank key.\<close>

lemma scoped_key_not_blank [simp]: "\<not> blank (scoped_key s v)"
  by (simp add: blank_iff scoped_key_def scope_prefix_def is_whitespace_def)

section \<open>Encoding dispatches\<close>

definition encode_dispatch :: "ScopeId \<Rightarrow> RunDispatch \<Rightarrow> RunDispatch" where
  "encode_dispatch s d =
     d\<lparr>dispatch_id := scoped_key s (dispatch_id d), thread_id := scoped_key s (thread_id d),
       run_id := scoped_key s (run_id d), dedupe_key := map_option (scoped_key s) (dedupe_key d)\<rparr>"

definition decode_dispatch :: "ScopeId \<Rightarrow> RunDispatch \<Rightarrow> RunDispatch option" where
  "decode_dispatch s d =
     (case unscoped_key s (dispatch_id d) of
        None \<Rightarrow> None
      | Some d_id \<Rightarrow>
          (case unscoped_key s (thread_id d) of
             None \<Rightarrow> None
           | Some t_id \<Rightarrow>
               (case unscoped_key s (run_id d) of
                  None \<Rightarrow> None
                | Some r_id \<Rightarrow>
                    Some (d\<lparr>dispatch_id := d_id, thread_id := t_id, run_id := r_id,
                      dedupe_key := Option.bind (dedupe_key d) (unscoped_key s)\<rparr>))))"

definition encode_result :: "ScopeId \<Rightarrow> RunDispatchResult \<Rightarrow> RunDispatchResult" where
  "encode_result s res = res\<lparr>rr_run_id := scoped_key s (rr_run_id res)\<rparr>"

lemma decode_encode: "decode_dispatch s (encode_dispatch s d) = Some d"
  by (cases d; cases "dedupe_key d") (simp_all add: encode_dispatch_def decode_dispatch_def)

lemma decode_other_scope:
  "s1 \<noteq> s2 \<Longrightarrow> decode_dispatch s1 (encode_dispatch s2 d) = None"
  by (simp add: encode_dispatch_def decode_dispatch_def unscoped_other)

section \<open>The scoped store\<close>

definition decode_all :: "ScopeId \<Rightarrow> RunDispatch list \<Rightarrow> RunDispatch list" where
  "decode_all s ds = List.map_filter (decode_dispatch s) ds"

definition decode_opt :: "ScopeId \<Rightarrow> RunDispatch option \<Rightarrow> RunDispatch option" where
  "decode_opt s d = Option.bind d (decode_dispatch s)"

definition on_ok :: "('a \<Rightarrow> 'b) \<Rightarrow> 'a store_op \<Rightarrow> 'b store_op" where
  "on_ok f out = (map_ok f (fst out), snd out)"

definition sc_enqueue :: "ScopeId \<Rightarrow> RunDispatch \<Rightarrow> InMemoryMailboxStore \<Rightarrow> unit store_op" where
  "sc_enqueue s d st = mb_enqueue (encode_dispatch s d) st"

definition sc_claim where
  "sc_claim s t c lease now limit tok st =
     on_ok (decode_all s) (mb_claim (scoped_key s t) c lease now limit tok st)"

definition sc_claim_dispatch where
  "sc_claim_dispatch s k c lease now tok st =
     on_ok (decode_opt s) (mb_claim_dispatch (scoped_key s k) c lease now tok st)"

definition sc_ack where
  "sc_ack s k tok now st = mb_ack (scoped_key s k) tok now st"

definition sc_record_dispatch_start where
  "sc_record_dispatch_start s k tok inst now st =
     mb_record_dispatch_start (scoped_key s k) tok inst now st"

definition sc_record_run_result where
  "sc_record_run_result s k tok res now st =
     mb_record_run_result (scoped_key s k) tok (encode_result s res) now st"

definition sc_nack where
  "sc_nack s k tok at e now st = mb_nack (scoped_key s k) tok at e now st"

definition sc_dead_letter where
  "sc_dead_letter s k tok e now st = mb_dead_letter (scoped_key s k) tok e now st"

definition sc_cancel where
  "sc_cancel s k now st = on_ok (decode_opt s) (mb_cancel (scoped_key s k) now st)"

definition sc_extend_lease where
  "sc_extend_lease s k tok ext now st = mb_extend_lease (scoped_key s k) tok ext now st"

definition sc_interrupt where
  "sc_interrupt s t now st =
     on_ok (\<lambda>i. i\<lparr>mi_active_dispatch := decode_opt s (mi_active_dispatch i)\<rparr>)
       (mb_interrupt (scoped_key s t) now st)"

definition sc_interrupt_detailed where
  "sc_interrupt_detailed s t now st =
     on_ok (\<lambda>det. let ds = decode_all s (superseded_dispatches det) in
         \<lparr>new_dispatch_epoch = new_dispatch_epoch det,
          active_dispatch = decode_opt s (active_dispatch det),
          superseded_count = length ds, superseded_dispatches = ds\<rparr>)
       (mb_interrupt_detailed (scoped_key s t) now st)"

definition sc_current_dispatch_epoch where
  "sc_current_dispatch_epoch s t st = mb_current_dispatch_epoch (scoped_key s t) st"

definition sc_supersede_claimed where
  "sc_supersede_claimed s k tok now r st =
     on_ok (decode_opt s) (mb_supersede_claimed (scoped_key s k) tok now r st)"

definition sc_load_dispatch :: "ScopeId \<Rightarrow> string \<Rightarrow> InMemoryMailboxStore \<Rightarrow> RunDispatch option" where
  "sc_load_dispatch s k st = decode_opt s (mb_load_dispatch (scoped_key s k) st)"

definition sc_list_dispatches where
  "sc_list_dispatches s t status_filter limit offset st =
     decode_all s (mb_list_dispatches (scoped_key s t) status_filter limit offset st)"

text \<open>\<open>usize::MAX\<close> as a limit: at least as long as any list in memory.\<close>

definition sc_list_terminal_dispatches ::
  "ScopeId \<Rightarrow> nat \<Rightarrow> nat \<Rightarrow> InMemoryMailboxStore \<Rightarrow> RunDispatch list" where
  "sc_list_terminal_dispatches s limit offset st =
     take limit (drop offset (decode_all s
       (mb_list_terminal_dispatches (length (dispatches st)) 0 st)))"

definition sc_reclaim_expired_leases where
  "sc_reclaim_expired_leases s now limit st =
     on_ok (decode_all s) (mb_reclaim_expired_leases now limit st)"

definition sc_purge_terminal :: "ScopeId \<Rightarrow> u64 \<Rightarrow> InMemoryMailboxStore \<Rightarrow> nat store_op" where
  "sc_purge_terminal s older_than st =
     (Err (Io ''scoped terminal dispatch purge is not supported''), st)"

definition sc_queued_thread_ids :: "ScopeId \<Rightarrow> InMemoryMailboxStore \<Rightarrow> string list" where
  "sc_queued_thread_ids s st = List.map_filter (unscoped_key s) (mb_queued_thread_ids st)"

definition sc_count_dispatches_by_status ::
  "ScopeId \<Rightarrow> RunDispatchStatus \<Rightarrow> InMemoryMailboxStore \<Rightarrow> (nat, StorageError) outcome" where
  "sc_count_dispatches_by_status s wanted st =
     (if wanted = Queued then
        Ok (sum_list (map (\<lambda>t. length
             (sc_list_dispatches s t (Some [Queued]) (length (dispatches st)) 0 st))
           (sc_queued_thread_ids s st)))
      else if is_terminal wanted then
        Ok (length (filter (\<lambda>d. status d = wanted)
             (sc_list_terminal_dispatches s (length (dispatches st)) 0 st)))
      else Err (Io ''scoped claimed dispatch count is not supported''))"

section \<open>What a command leaves alone\<close>

datatype cmd_target = ById string | ByThread string | Everything

fun target_of :: "mailbox_cmd \<Rightarrow> cmd_target" where
  "target_of (CmdEnqueue d) = ById (dispatch_id d)"
| "target_of (CmdClaim t c lease now limit tok) = ByThread t"
| "target_of (CmdClaimDispatch k c lease now tok) = ById k"
| "target_of (CmdAck k tok now) = ById k"
| "target_of (CmdRecordStart k tok inst now) = ById k"
| "target_of (CmdRecordResult k tok res now) = ById k"
| "target_of (CmdNack k tok at e now) = ById k"
| "target_of (CmdDeadLetter k tok e now) = ById k"
| "target_of (CmdCancel k now) = ById k"
| "target_of (CmdExtendLease k tok ext now) = ById k"
| "target_of (CmdInterrupt t now) = ByThread t"
| "target_of (CmdSupersedeClaimed k tok now r) = ById k"
| "target_of (CmdReclaim now limit) = Everything"
| "target_of (CmdPurge older) = Everything"

definition aside :: "mailbox_cmd \<Rightarrow> string \<Rightarrow> InMemoryMailboxStore \<Rightarrow> bool" where
  "aside c k st \<longleftrightarrow>
     (case target_of c of
        ById k' \<Rightarrow> k \<noteq> k'
      | ByThread t \<Rightarrow> (case lookup st k of None \<Rightarrow> True | Some d \<Rightarrow> thread_id d \<noteq> t)
      | Everything \<Rightarrow> False)"

lemma finish_frame [simp]:
  "k' \<noteq> k \<Longrightarrow> lookup (snd (finish k tr res st)) k' = lookup st k'"
  "mb_state (snd (finish k tr res st)) = mb_state st"
  by (simp_all add: finish_def)

lemma snd_forget [simp]: "snd (forget out) = snd out"
  by (simp add: forget_def)

lemma enqueue_frame:
  "k \<noteq> dispatch_id d \<Longrightarrow> lookup (snd (mb_enqueue d st)) k = lookup st k"
  "epoch_of (snd (mb_enqueue d st)) t = epoch_of st t"
  by (simp_all add: mb_enqueue_def mb_admit_def Let_def split: outcome.split option.split)

lemma claim_frame:
  assumes "mailbox_inv st" and "\<not> blank c" and "\<not> blank tok"
    and "case lookup st k of None \<Rightarrow> True | Some d \<Rightarrow> thread_id d \<noteq> t"
  shows "lookup (snd (mb_claim t c lease now limit tok st)) k = lookup st k"
proof -
  note dist = mailbox_invD(4) [OF assms(1)]
  let ?ids = "take limit (map fst (claim_eligible t now (dispatches st)))"
  have el: "\<exists>d. lookup st i = Some d \<and> thread_id d = t \<and> dispatch_ok d \<and> status d = Queued"
    if "i \<in> set ?ids" for i
    using in_set_takeD [OF that] claim_eligible_set(1) [OF dist, of t now]
      store_okD(2) [OF mailbox_invD(1) [OF assms(1)]] by blast
  have "k \<notin> set ?ids" using el assms(4) by fastforce
  moreover have "distinct ?ids" using claim_eligible_set(2) [OF dist] by (rule distinct_take)
  then have "map_of (snd (claim_ids ?ids c tok (now + lease) now (dispatches st))) k =
      (if k \<in> set ?ids then map_option (claimed_as c tok (now + lease) now) (lookup st k) else lookup st k)"
    by (rule conjunct2 [OF claim_ids_ok [OF _ assms(2,3)]]) (use el in blast)
  ultimately have "map_of (snd (claim_ids ?ids c tok (now + lease) now (dispatches st))) k = lookup st k"
    by simp
  then show ?thesis by (simp add: mb_claim_eq [OF assms(1)])
qed

lemmas id_op_defs =
  mb_ack_def mb_record_dispatch_start_def mb_record_run_result_def mb_nack_def mb_dead_letter_def
  mb_cancel_def mb_extend_lease_def mb_supersede_claimed_def mb_claim_dispatch_def

lemma exec_cmd_frame:
  assumes "mailbox_inv st" and "admissible c st" and "aside c k st"
  shows "lookup (snd (exec_cmd c st)) k = lookup st k"
proof (cases c)
  case (CmdEnqueue d)
  then show ?thesis using assms(3) by (simp add: aside_def enqueue_frame)
next
  case (CmdClaim t con lease now limit tok)
  then show ?thesis using assms claim_frame [OF assms(1), of con tok t k]
    by (simp add: aside_def)
next
  case (CmdInterrupt t now)
  then show ?thesis
    using assms(3)
    by (cases "lookup st k")
      (simp_all add: aside_def mb_interrupt_detailed_eq [OF assms(1)] interrupted_def interrupt_hits_def)
qed (use assms(3) in \<open>simp_all add: aside_def id_op_defs split: option.split\<close>)

lemma claim_state [simp]: "mb_state (snd (mb_claim t c lease now limit tok st)) = mb_state st"
  by (simp add: mb_claim_def Let_def split: prod.split outcome.split)

lemma exec_cmd_epoch_frame:
  assumes "mailbox_inv st" and "target_of c \<noteq> Everything" and "target_of c \<noteq> ByThread t"
  shows "epoch_of (snd (exec_cmd c st)) t = epoch_of st t"
proof (cases c)
  case (CmdInterrupt t' now)
  then show ?thesis using assms by (simp add: mb_interrupt_detailed_eq)
qed (use assms(2,3) in \<open>simp_all add: enqueue_frame id_op_defs split: option.split\<close>)

section \<open>Isolation of scopes\<close>

text \<open>The inner command a scoped method issues.\<close>

fun scope_cmd :: "ScopeId \<Rightarrow> mailbox_cmd \<Rightarrow> mailbox_cmd" where
  "scope_cmd s (CmdEnqueue d) = CmdEnqueue (encode_dispatch s d)"
| "scope_cmd s (CmdClaim t c lease now limit tok) = CmdClaim (scoped_key s t) c lease now limit tok"
| "scope_cmd s (CmdClaimDispatch k c lease now tok) = CmdClaimDispatch (scoped_key s k) c lease now tok"
| "scope_cmd s (CmdAck k tok now) = CmdAck (scoped_key s k) tok now"
| "scope_cmd s (CmdRecordStart k tok inst now) = CmdRecordStart (scoped_key s k) tok inst now"
| "scope_cmd s (CmdRecordResult k tok res now) =
     CmdRecordResult (scoped_key s k) tok (encode_result s res) now"
| "scope_cmd s (CmdNack k tok at e now) = CmdNack (scoped_key s k) tok at e now"
| "scope_cmd s (CmdDeadLetter k tok e now) = CmdDeadLetter (scoped_key s k) tok e now"
| "scope_cmd s (CmdCancel k now) = CmdCancel (scoped_key s k) now"
| "scope_cmd s (CmdExtendLease k tok ext now) = CmdExtendLease (scoped_key s k) tok ext now"
| "scope_cmd s (CmdInterrupt t now) = CmdInterrupt (scoped_key s t) now"
| "scope_cmd s (CmdSupersedeClaimed k tok now r) = CmdSupersedeClaimed (scoped_key s k) tok now r"
| "scope_cmd s (CmdReclaim now limit) = CmdReclaim now limit"
| "scope_cmd s (CmdPurge older) = CmdPurge older"

fun sc_exec :: "ScopeId \<Rightarrow> mailbox_cmd \<Rightarrow> InMemoryMailboxStore \<Rightarrow> unit store_op" where
  "sc_exec s (CmdEnqueue d) st = forget (sc_enqueue s d st)"
| "sc_exec s (CmdClaim t c lease now limit tok) st = forget (sc_claim s t c lease now limit tok st)"
| "sc_exec s (CmdClaimDispatch k c lease now tok) st = forget (sc_claim_dispatch s k c lease now tok st)"
| "sc_exec s (CmdAck k tok now) st = forget (sc_ack s k tok now st)"
| "sc_exec s (CmdRecordStart k tok inst now) st = forget (sc_record_dispatch_start s k tok inst now st)"
| "sc_exec s (CmdRecordResult k tok res now) st = forget (sc_record_run_result s k tok res now st)"
| "sc_exec s (CmdNack k tok at e now) st = forget (sc_nack s k tok at e now st)"
| "sc_exec s (CmdDeadLetter k tok e now) st = forget (sc_dead_letter s k tok e now st)"
| "sc_exec s (CmdCancel k now) st = forget (sc_cancel s k now st)"
| "sc_exec s (CmdExtendLease k tok ext now) st = forget (sc_extend_lease s k tok ext now st)"
| "sc_exec s (CmdInterrupt t now) st = forget (sc_interrupt_detailed s t now st)"
| "sc_exec s (CmdSupersedeClaimed k tok now r) st = forget (sc_supersede_claimed s k tok now r st)"
| "sc_exec s (CmdReclaim now limit) st = forget (sc_reclaim_expired_leases s now limit st)"
| "sc_exec s (CmdPurge older) st = forget (sc_purge_terminal s older st)"

lemma forget_on_ok: "forget (on_ok f out) = forget out"
  by (cases "fst out") (simp_all add: forget_def on_ok_def)

lemmas sc_defs =
  sc_enqueue_def sc_claim_def sc_claim_dispatch_def sc_ack_def sc_record_dispatch_start_def
  sc_record_run_result_def sc_nack_def sc_dead_letter_def sc_cancel_def sc_extend_lease_def
  sc_interrupt_detailed_def sc_supersede_claimed_def sc_reclaim_expired_leases_def

text \<open>Apart from the refused purge, a scoped method acts on the store as its inner command does.\<close>

lemma sc_exec_eq: "(\<nexists>older. c = CmdPurge older) \<Longrightarrow> sc_exec s c st = exec_cmd (scope_cmd s c) st"
  by (cases c) (simp_all add: sc_defs forget_on_ok)

lemma encode_dispatch_simps [simp]:
  "dispatch_id (encode_dispatch s d) = scoped_key s (dispatch_id d)"
  "thread_id (encode_dispatch s d) = scoped_key s (thread_id d)"
  "attempt_count (encode_dispatch s d) = attempt_count d"
  "max_attempts (encode_dispatch s d) = max_attempts d"
  by (simp_all add: encode_dispatch_def)

text \<open>The stores scoped clients reach, interleaved in any order.\<close>

inductive scoped_reachable :: "InMemoryMailboxStore \<Rightarrow> bool" where
  sc_new: "scoped_reachable mb_new"
| sc_step: "scoped_reachable st \<Longrightarrow> admissible (scope_cmd s c) st \<Longrightarrow> scoped_reachable (snd (sc_exec s c st))"
| sc_purge: "scoped_reachable st \<Longrightarrow> scoped_reachable (snd (exec_cmd (CmdPurge older) st))"

text \<open>The id and the thread of every record lie in one scope.\<close>

definition well_scoped :: "InMemoryMailboxStore \<Rightarrow> bool" where
  "well_scoped st \<longleftrightarrow>
     (\<forall>k d. lookup st k = Some d \<longrightarrow>
        (\<exists>s v t. dispatch_id d = scoped_key s v \<and> thread_id d = scoped_key s t))"

lemma sc_exec_purge: "sc_exec s (CmdPurge older) st =
  (Err (Io ''scoped terminal dispatch purge is not supported''), st)"
  by (simp add: sc_purge_terminal_def forget_def)

lemma scoped_reachable_mailbox: "scoped_reachable st \<Longrightarrow> mailbox_reachable st"
proof (induction rule: scoped_reachable.induct)
  case (sc_step st s c)
  then show ?case
    using sc_exec_eq [of c s st] reach_cmd [OF sc_step.IH sc_step.hyps(2)] sc_exec_purge [of s _ st]
    by (cases "\<exists>older. c = CmdPurge older") auto
next
  case (sc_purge st older)
  then show ?case by (intro reach_cmd) simp_all
qed (rule reach_new)

lemma in_scope_moves:
  assumes "record_moves d d'" and "dispatch_id d = scoped_key s v \<and> thread_id d = scoped_key s t"
  shows "dispatch_id d' = scoped_key s v \<and> thread_id d' = scoped_key s t"
  using record_moves_identity [OF assms(1)] assms(2) by (simp add: same_identity_def)

text \<open>Only enqueue files a new id, and it files the encoded dispatch.\<close>

lemma enqueue_new_record:
  assumes "lookup st k = None" and "lookup (snd (mb_enqueue d st)) k = Some d'"
  shows "dispatch_id d' = dispatch_id d \<and> thread_id d' = thread_id d"
  using assms
  by (simp add: mb_enqueue_def mb_admit_def Let_def split: outcome.splits option.splits if_splits) auto

lemma reclaim_no_new:
  assumes "mailbox_inv st" and "lookup st k = None"
  shows "lookup (snd (mb_reclaim_expired_leases now limit st)) k = None"
proof -
  define ids where "ids = map dispatch_id
    (take limit (filter (lease_expired now) (hm_values (dispatches st))))"
  note ids = expired_ids [OF assms(1) ids_def]
  have found: "\<exists>d. lookup st k = Some d \<and> status d = Claimed" if "k \<in> set ids" for k
    using ids(2) [OF that] lease_expired_claimed by blast
  show ?thesis
    using reclaim_ids_ok [OF assms(1) ids(1) found, where k = k and now = now] assms(2)
    unfolding mb_reclaim_expired_leases_def ids_def [symmetric] by simp
qed

lemma exec_cmd_no_new:
  assumes inv: "mailbox_inv st" and ad: "admissible c st" and l: "lookup st k = None"
    and ne: "\<nexists>d. c = CmdEnqueue d"
  shows "lookup (snd (exec_cmd c st)) k = None"
proof (cases "aside c k st")
  case True
  then show ?thesis using exec_cmd_frame [OF inv ad] l by simp
next
  case False
  then show ?thesis
    using l ne by (cases c) (simp_all add: aside_def id_op_defs reclaim_no_new [OF inv] purge_lookup [OF inv])
qed

lemma exec_well_scoped:
  assumes inv: "mailbox_inv st" and ad: "admissible c st" and ws: "well_scoped st"
    and enc: "\<And>d. c = CmdEnqueue d \<Longrightarrow> \<exists>s v t. dispatch_id d = scoped_key s v \<and> thread_id d = scoped_key s t"
  shows "well_scoped (snd (exec_cmd c st))"
  unfolding well_scoped_def
proof (intro allI impI)
  fix k d'
  assume d': "lookup (snd (exec_cmd c st)) k = Some d'"
  show "\<exists>s v t. dispatch_id d' = scoped_key s v \<and> thread_id d' = scoped_key s t"
  proof (cases "lookup st k")
    case None
    then obtain d where c: "c = CmdEnqueue d"
      using exec_cmd_no_new [OF inv ad None] d' by fastforce
    with enc [OF c] enqueue_new_record [OF None, of d d'] d' show ?thesis by simp
  next
    case (Some d)
    have "store_moves st (snd (exec_cmd c st))"
      using exec_cmd_safe [OF inv ad] by (simp add: safe_step_def)
    from store_movesD [OF this, of k] have "record_moves d d'" using Some d' by simp
    with ws Some show ?thesis unfolding well_scoped_def using in_scope_moves by meson
  qed
qed

lemma scoped_reachable_scoped: "scoped_reachable st \<Longrightarrow> well_scoped st"
proof (induction rule: scoped_reachable.induct)
  case sc_new
  then show ?case by (simp add: well_scoped_def mb_new_def)
next
  case (sc_step st s c)
  note inv = reachable_inv [OF scoped_reachable_mailbox [OF sc_step.hyps(1)]]
  show ?case
  proof (cases "\<exists>older. c = CmdPurge older")
    case True
    then show ?thesis using sc_step.IH sc_exec_purge by auto
  next
    case False
    have "well_scoped (snd (exec_cmd (scope_cmd s c) st))"
    proof (rule exec_well_scoped [OF inv sc_step.hyps(2) sc_step.IH])
      show "\<exists>s v t. dispatch_id d = scoped_key s v \<and> thread_id d = scoped_key s t"
        if "scope_cmd s c = CmdEnqueue d" for d
        using that by (cases c) auto
    qed
    then show ?thesis using False sc_exec_eq by metis
  qed
next
  case (sc_purge st older)
  note inv = reachable_inv [OF scoped_reachable_mailbox [OF sc_purge.hyps]]
  show ?case by (rule exec_well_scoped [OF inv _ sc_purge.IH]) simp_all
qed

lemma scope_cmd_target:
  "target_of (scope_cmd s c) =
    (case target_of c of ById k \<Rightarrow> ById (scoped_key s k) | ByThread t \<Rightarrow> ByThread (scoped_key s t)
     | Everything \<Rightarrow> Everything)"
  by (cases c) simp_all

lemma scope_cmd_aside:
  assumes "mailbox_inv st" and "well_scoped st" and "s1 \<noteq> s2" and "target_of c \<noteq> Everything"
  shows "aside (scope_cmd s1 c) (scoped_key s2 k) st"
proof (cases "target_of c")
  case (ByThread t)
  have "thread_id d \<noteq> scoped_key s1 t" if "lookup st (scoped_key s2 k) = Some d" for d
  proof -
    have "dispatch_id d = scoped_key s2 k" using store_okD(3) [OF mailbox_invD(1) [OF assms(1)] that] .
    with assms(2) that obtain v where "thread_id d = scoped_key s2 v"
      unfolding well_scoped_def by (metis scoped_key_inject)
    with assms(3) show ?thesis by simp
  qed
  with ByThread show ?thesis by (simp add: aside_def scope_cmd_target split: option.split)
qed (use assms in \<open>simp_all add: aside_def scope_cmd_target\<close>)

text \<open>
  C38: Scopes are isolated: whatever scoped clients did before, a method called in one scope, lease
  reclamation apart, leaves every dispatch and every epoch another scope can see exactly as it was.
\<close>

theorem scopes_isolated:
  assumes "scoped_reachable st" and "admissible (scope_cmd s1 c) st" and "s1 \<noteq> s2"
    and "\<nexists>now limit. c = CmdReclaim now limit"
  shows "sc_load_dispatch s2 k (snd (sc_exec s1 c st)) = sc_load_dispatch s2 k st
    \<and> sc_current_dispatch_epoch s2 t (snd (sc_exec s1 c st)) = sc_current_dispatch_epoch s2 t st"
proof (cases "\<exists>older. c = CmdPurge older")
  case True
  then show ?thesis using sc_exec_purge by auto
next
  case False
  note inv = reachable_inv [OF scoped_reachable_mailbox [OF assms(1)]]
  have t: "target_of c \<noteq> Everything" using False assms(4) by (cases c) auto
  have "lookup (snd (sc_exec s1 c st)) (scoped_key s2 k) = lookup st (scoped_key s2 k)"
    using exec_cmd_frame [OF inv assms(2) scope_cmd_aside [OF inv scoped_reachable_scoped [OF assms(1)] assms(3) t]]
      sc_exec_eq False by simp
  moreover have "epoch_of (snd (sc_exec s1 c st)) (scoped_key s2 t) = epoch_of st (scoped_key s2 t)" for t
    using exec_cmd_epoch_frame [OF inv, of "scope_cmd s1 c" "scoped_key s2 t"] t assms(3)
      sc_exec_eq False by (cases "target_of c") (simp_all add: scope_cmd_target)
  ultimately show ?thesis
    by (simp add: sc_load_dispatch_def mb_load_dispatch_def sc_current_dispatch_epoch_def
        mb_current_dispatch_epoch_def)
qed

text \<open>Two tenants, one of which has a dispatch under the id the other uses.\<close>

definition ex_scoped :: InMemoryMailboxStore where
  "ex_scoped = snd (sc_exec (ScopeId ''a'') (CmdEnqueue (ex_dispatch ''d''))
     (snd (sc_exec (ScopeId ''b'') (CmdEnqueue (ex_dispatch ''d'')) mb_new)))"

lemma ex_scoped_reachable: "scoped_reachable ex_scoped"
  unfolding ex_scoped_def by (intro sc_step sc_new) code_simp+

theorem scopes_isolated_witness:
  "sc_load_dispatch (ScopeId ''b'') ''d'' (snd (sc_exec (ScopeId ''a'') (CmdCancel ''d'' 300) ex_scoped))
     = sc_load_dispatch (ScopeId ''b'') ''d'' ex_scoped"
  using scopes_isolated [OF ex_scoped_reachable, of "ScopeId ''a''" "CmdCancel ''d'' 300" "ScopeId ''b''"]
  by simp

text \<open>
  The scoped key encoding separates every pair of scope and value, decodes in its own scope
  and in no other, and dispatches encoded in one scope are invisible in the others.
\<close>

theorem scoped_key_roundtrip:
  "unscoped_key s1 (scoped_key s2 v) = (if s1 = s2 then Some v else None)
   \<and> (scoped_key s1 v1 = scoped_key s2 v2 \<longleftrightarrow> s1 = s2 \<and> v1 = v2)
   \<and> decode_dispatch s1 (encode_dispatch s2 d) = (if s1 = s2 then Some d else None)"
  by (simp add: unscoped_other decode_encode decode_other_scope)

text \<open>
  What a scoped client enqueues is what it loads: after an accepted enqueue in a scope the
  scope's own lookup returns the dispatch with the current epoch of its thread, under its own
  unprefixed names.
\<close>

theorem scoped_enqueue_load:
  assumes "attempt_count d < max_attempts d" and "sc_enqueue s d st = (Ok (), st')"
  shows "sc_load_dispatch s (dispatch_id d) st' =
    Some (prepare_for_enqueue d (epoch_of st (scoped_key s (thread_id d))))"
proof -
  let ?d = "encode_dispatch s d"
  have v: "validate_for_enqueue ?d = Ok ()" and m: "mb_admit ?d st = (Ok (), st')"
    using assms(2)
    by (auto simp: sc_enqueue_def mb_enqueue_def split: outcome.splits option.splits if_splits)
  have "st' = admitted ?d st" using mb_admit_eq [OF v, of st] assms(1) m by simp
  then have "lookup st' (scoped_key s (dispatch_id d)) =
      Some (encode_dispatch s (prepare_for_enqueue d (epoch_of st (scoped_key s (thread_id d)))))"
    by (simp add: admitted_def) (simp add: prepare_for_enqueue_def encode_dispatch_def)
  then show ?thesis
    by (simp add: sc_load_dispatch_def mb_load_dispatch_def decode_opt_def decode_encode)
qed

theorem scoped_enqueue_load_witness:
  "sc_load_dispatch (ScopeId ''a'') ''d'' (snd (sc_enqueue (ScopeId ''a'') (ex_dispatch ''d'') mb_new)) =
     Some (prepare_for_enqueue (ex_dispatch ''d'') 0)"
proof -
  have h: "attempt_count (ex_dispatch ''d'') < max_attempts (ex_dispatch ''d'')"
    "fst (sc_enqueue (ScopeId ''a'') (ex_dispatch ''d'') mb_new) = Ok ()"
    "dispatch_id (ex_dispatch ''d'') = ''d''"
    "epoch_of mb_new (scoped_key (ScopeId ''a'') (thread_id (ex_dispatch ''d''))) = 0"
    by code_simp+
  have "sc_enqueue (ScopeId ''a'') (ex_dispatch ''d'') mb_new =
      (Ok (), snd (sc_enqueue (ScopeId ''a'') (ex_dispatch ''d'') mb_new))"
    using h(2) by (metis prod.collapse)
  from scoped_enqueue_load [OF h(1) this] show ?thesis unfolding h(3,4) .
qed

definition ex_foreign_lease :: InMemoryMailboxStore where
  "ex_foreign_lease = snd (sc_exec (ScopeId ''b'') (CmdClaim ''t'' ''w'' 30 200 1 ''tok'') ex_scoped)"

text \<open>
  Lease reclamation is the exception to isolation: a scoped pass reclaims the expired lease of
  another scope and does not report it.
\<close>

theorem scoped_reclaim_crosses_scopes:
  "fst (sc_reclaim_expired_leases (ScopeId ''a'') 900 10 ex_foreign_lease) = Ok []
   \<and> map_option status (sc_load_dispatch (ScopeId ''b'') ''d'' ex_foreign_lease) = Some Claimed
   \<and> map_option status (sc_load_dispatch (ScopeId ''b'') ''d''
        (snd (sc_reclaim_expired_leases (ScopeId ''a'') 900 10 ex_foreign_lease))) = Some Queued"
  by code_simp

end
