(* ===== verification/Live_Channel.thy ===== *)
theory Live_Channel
  imports Scoped_Mailbox
begin

text \<open>
  The live channel of the in-memory mailbox store: ephemeral commands to a running run
  (\<open>deliver_live_key\<close> and \<open>open_live_key\<close> in \<^verbatim>\<open>awaken-stores/src/memory_mailbox.rs\<close>, the
  targets in \<^verbatim>\<open>awaken-runtime-contract/src/contract/live_control.rs\<close>).

  The table of senders has its own lock, which delivery does not hold across its awaits: it reads
  the sender, sends, and takes the lock again to clean up. What other tasks do in between is an
  argument of the model, a function from state to state at each of the two gaps. A channel is its
  queue of commands with a flag for a dropped receiver; whether the consumer acknowledges within
  the timeout is an argument too.
\<close>

section \<open>State\<close>

record LiveRunTarget =
  lt_thread_id :: string
  lt_run_id :: string
  lt_dispatch_id :: "string option"

definition LiveRunTarget_new :: "string \<Rightarrow> string \<Rightarrow> LiveRunTarget" where
  "LiveRunTarget_new t r = \<lparr>lt_thread_id = t, lt_run_id = r, lt_dispatch_id = None\<rparr>"

definition LiveRunTarget_with_dispatch_id :: "LiveRunTarget \<Rightarrow> string \<Rightarrow> LiveRunTarget" where
  "LiveRunTarget_with_dispatch_id tg d = tg\<lparr>lt_dispatch_id := Some d\<rparr>"

datatype LiveDeliveryOutcome = Delivered | NoSubscriber

record 'cmd channel =
  ch_queue :: "'cmd list"
  ch_closed :: bool

record 'cmd live_state =
  live :: "(string, nat) hash_map"
  channels :: "'cmd channel list"

definition is_closed :: "nat \<Rightarrow> 'cmd live_state \<Rightarrow> bool" where
  "is_closed ch st \<longleftrightarrow> \<not> (ch < length (channels st) \<and> \<not> ch_closed (channels st ! ch))"

definition send :: "nat \<Rightarrow> 'cmd \<Rightarrow> 'cmd live_state \<Rightarrow> 'cmd live_state" where
  "send ch cmd st =
     st\<lparr>channels := (channels st)[ch := (channels st ! ch)\<lparr>ch_queue := ch_queue (channels st ! ch) @ [cmd]\<rparr>]\<rparr>"

section \<open>Operations\<close>

definition live_key_for_thread :: "string \<Rightarrow> string" where
  "live_key_for_thread t = ''thread:'' @ t"

definition live_key_for_target :: "LiveRunTarget \<Rightarrow> string" where
  "live_key_for_target tg =
     (case lt_dispatch_id tg of
        Some d \<Rightarrow> ''thread:'' @ lt_thread_id tg @ '':run:'' @ lt_run_id tg @ '':dispatch:'' @ d
      | None \<Rightarrow> ''thread:'' @ lt_thread_id tg @ '':run:'' @ lt_run_id tg)"

definition remove_if_closed :: "string \<Rightarrow> 'cmd live_state \<Rightarrow> 'cmd live_state" where
  "remove_if_closed key st =
     (case map_of (live st) key of
        None \<Rightarrow> st
      | Some current \<Rightarrow>
          if is_closed current st then st\<lparr>live := AList.delete key (live st)\<rparr> else st)"

definition deliver_live_key ::
  "string \<Rightarrow> 'cmd \<Rightarrow> ('cmd live_state \<Rightarrow> 'cmd live_state) \<Rightarrow> ('cmd live_state \<Rightarrow> 'cmd live_state) \<Rightarrow> bool \<Rightarrow>
   'cmd live_state \<Rightarrow> LiveDeliveryOutcome \<times> 'cmd live_state" where
  "deliver_live_key key cmd env1 env2 acked st =
     (case map_of (live st) key of
        None \<Rightarrow> (NoSubscriber, st)
      | Some ch \<Rightarrow>
          (let st1 = env1 st in
           if is_closed ch st1 then (NoSubscriber, remove_if_closed key (env2 st1))
           else (if acked then Delivered else NoSubscriber, send ch cmd st1)))"

definition open_live_key :: "string \<Rightarrow> 'cmd live_state \<Rightarrow> nat \<times> 'cmd live_state" where
  "open_live_key key st =
     (length (channels st),
      st\<lparr>live := AList.update key (length (channels st)) (live st),
         channels := channels st @ [\<lparr>ch_queue = [], ch_closed = False\<rparr>]\<rparr>)"

definition deliver_live where
  "deliver_live t = deliver_live_key (live_key_for_thread t)"

definition deliver_live_to where
  "deliver_live_to tg = deliver_live_key (live_key_for_target tg)"

definition open_live_channel where
  "open_live_channel t = open_live_key (live_key_for_thread t)"

definition open_live_channel_for where
  "open_live_channel_for tg = open_live_key (live_key_for_target tg)"

definition encode_target :: "ScopeId \<Rightarrow> LiveRunTarget \<Rightarrow> LiveRunTarget" where
  "encode_target s tg =
     \<lparr>lt_thread_id = scoped_key s (lt_thread_id tg), lt_run_id = scoped_key s (lt_run_id tg),
      lt_dispatch_id = map_option (scoped_key s) (lt_dispatch_id tg)\<rparr>"

section \<open>Theorems\<close>

lemma remove_if_closed_keeps_open:
  "map_of (live st) key' = Some ch \<Longrightarrow> \<not> is_closed ch st \<Longrightarrow>
   map_of (live (remove_if_closed key st)) key' = Some ch"
  by (auto simp: remove_if_closed_def map_of_delete_if split: option.split)

lemma remove_if_closed_channels [simp]: "channels (remove_if_closed key st) = channels st"
  by (simp add: remove_if_closed_def split: option.split)

text \<open>
  Live delivery is honest under interference: \<open>Delivered\<close> is reported only if the subscriber
  read at the start was still listening, got the command, and acknowledged it; and whatever other
  tasks did meanwhile, a subscriber that is listening at the end of a failed delivery is still
  subscribed, also one that re-opened the key during the delivery.
\<close>

theorem live_delivery_honest:
  assumes "deliver_live_key key cmd env1 env2 acked st = (r, st')"
  shows "(r = Delivered \<longrightarrow> acked \<and> (\<exists>ch. map_of (live st) key = Some ch \<and> \<not> is_closed ch (env1 st) \<and>
        ch_queue (channels st' ! ch) = ch_queue (channels (env1 st) ! ch) @ [cmd]))
    \<and> (map_of (live st) key = Some ch \<and> is_closed ch (env1 st) \<longrightarrow>
        r = NoSubscriber \<and>
        (\<forall>key' ch'. map_of (live (env2 (env1 st))) key' = Some ch' \<and> \<not> is_closed ch' (env2 (env1 st)) \<longrightarrow>
           map_of (live st') key' = Some ch'))"
proof -
  have "acked \<and> (\<exists>ch. map_of (live st) key = Some ch \<and> \<not> is_closed ch (env1 st) \<and>
      ch_queue (channels st' ! ch) = ch_queue (channels (env1 st) ! ch) @ [cmd])" if "r = Delivered"
    using assms that
    by (auto simp: deliver_live_key_def Let_def send_def is_closed_def split: option.splits if_splits)
  then show ?thesis
    using assms remove_if_closed_keeps_open
    by (auto simp: deliver_live_key_def Let_def)
qed

definition ex_live :: "nat live_state" where
  "ex_live = \<lparr>live = [(''thread:t'', 0)], channels = [\<lparr>ch_queue = [], ch_closed = False\<rparr>]\<rparr>"

theorem live_delivery_honest_witness:
  "fst (deliver_live ''t'' (7::nat) id id True ex_live) = Delivered \<and>
   ch_queue (channels (snd (deliver_live ''t'' 7 id id True ex_live)) ! 0) = [7]"
proof -
  obtain r st' where eq: "deliver_live_key ''thread:t'' (7::nat) id id True ex_live = (r, st')"
    by fastforce
  moreover have "fst (deliver_live_key ''thread:t'' (7::nat) id id True ex_live) = Delivered"
    by code_simp
  ultimately have "r = Delivered" by simp
  with live_delivery_honest [OF eq] have "ch_queue (channels st' ! 0) = [7]"
    by (auto simp: ex_live_def)
  with eq \<open>r = Delivered\<close> show ?thesis by (simp add: deliver_live_def live_key_for_thread_def)
qed

text \<open>
  The live keys do not separate threads from runs: the thread-level key of one thread can be
  the run-level key of another, so a command for a whole thread can reach a subscriber of a run of
  a different thread. Keys made by the scoped store from distinct scopes stay distinct.
\<close>

theorem live_keys_collide:
  "live_key_for_thread ''a:run:b'' = live_key_for_target (LiveRunTarget_new ''a'' ''b'')
   \<and> (s1 \<noteq> s2 \<longrightarrow> live_key_for_thread (scoped_key s1 t) \<noteq> live_key_for_target (encode_target s2 tg))"
proof -
  have "live_key_for_thread (scoped_key s1 t) \<noteq> live_key_for_target (encode_target s2 tg)" if "s1 \<noteq> s2"
  proof
    assume eq: "live_key_for_thread (scoped_key s1 t) = live_key_for_target (encode_target s2 tg)"
    obtain v where "live_key_for_target (encode_target s2 tg) = ''thread:'' @ scope_prefix s2 @ v"
      by (cases "lt_dispatch_id tg")
        (auto simp: live_key_for_target_def encode_target_def scoped_key_def)
    with eq have "scope_prefix s1 @ t = scope_prefix s2 @ v"
      by (simp add: live_key_for_thread_def scoped_key_def)
    with that show False using scope_prefix_inject by blast
  qed
  then show ?thesis
    by (simp add: live_key_for_thread_def live_key_for_target_def LiveRunTarget_new_def)
qed

theorem live_keys_collide_witness:
  "live_key_for_thread (scoped_key (ScopeId ''a'') ''t'') \<noteq>
     live_key_for_target (encode_target (ScopeId ''b'') (LiveRunTarget_new ''x'' ''y''))"
  using live_keys_collide [of "ScopeId ''a''" "ScopeId ''b''"] by simp

end
