(* ===== verification/Messages.thy ===== *)
theory Messages
  imports Awaken_Prelude
begin

text \<open>
  The data of a conversation: content blocks (\<^verbatim>\<open>contract/content.rs\<close>), tool calls and messages
  with their constructors (\<^verbatim>\<open>contract/message.rs\<close>), token estimates (\<^verbatim>\<open>contract/transform.rs\<close>) and the
  shape the append path demands of a message (\<^verbatim>\<open>contract/storage/message_append.rs\<close>).

  JSON values are the type variable \<open>'v\<close>. A constructor that generates a message id takes it as
  its first argument.
\<close>

section \<open>Content\<close>

text \<open>The source enums of images, documents, audio and video have the same two variants.\<close>

datatype MediaSource = SrcBase64 string string | SrcUrl string

datatype 'v ContentBlock =
    TextBlock string
  | ImageBlock MediaSource
  | DocumentBlock MediaSource "string option"
  | AudioBlock MediaSource
  | VideoBlock MediaSource
  | ToolUseBlock string string 'v
  | ToolResultBlock string "'v ContentBlock list"
  | ThinkingBlock string

fun block_text :: "'v ContentBlock \<Rightarrow> string option" where
  "block_text (TextBlock t) = Some t"
| "block_text _ = None"

definition extract_text :: "'v ContentBlock list \<Rightarrow> string" where
  "extract_text blocks = concat (List.map_filter block_text blocks)"

section \<open>Messages\<close>

datatype Role = RoleSystem | RoleUser | RoleAssistant | RoleTool

datatype Visibility = VisAll | VisInternal

record 'v ToolCall =
  tcall_id :: string
  tcall_name :: string
  tcall_arguments :: 'v

record CompactionMark =
  mark_from :: u64
  mark_to :: u64

record MessageMetadata =
  md_run_id :: "string option"
  md_step_index :: "u32 option"
  md_sender_agent_id :: "string option"
  md_compaction :: "CompactionMark option"

definition no_metadata :: MessageMetadata where
  "no_metadata = \<lparr>md_run_id = None, md_step_index = None, md_sender_agent_id = None, md_compaction = None\<rparr>"

record 'v Message =
  msg_id :: "string option"
  msg_role :: Role
  msg_content :: "'v ContentBlock list"
  msg_tool_calls :: "'v ToolCall list option"
  msg_tool_call_id :: "string option"
  msg_visibility :: Visibility
  msg_metadata :: "MessageMetadata option"

text \<open>The fields every constructor fills alike.\<close>

definition text_message :: "string \<Rightarrow> Role \<Rightarrow> Visibility \<Rightarrow> string \<Rightarrow> 'v Message" where
  "text_message fresh role vis t = \<lparr>msg_id = Some fresh, msg_role = role, msg_content = [TextBlock t],
     msg_tool_calls = None, msg_tool_call_id = None, msg_visibility = vis, msg_metadata = None\<rparr>"

definition system_message :: "string \<Rightarrow> string \<Rightarrow> 'v Message" where
  "system_message fresh t = text_message fresh RoleSystem VisAll t"

definition internal_system :: "string \<Rightarrow> string \<Rightarrow> 'v Message" where
  "internal_system fresh t = text_message fresh RoleSystem VisInternal t"

definition internal_user :: "string \<Rightarrow> string \<Rightarrow> 'v Message" where
  "internal_user fresh t = text_message fresh RoleUser VisInternal t"

definition user_message :: "string \<Rightarrow> string \<Rightarrow> 'v Message" where
  "user_message fresh t = text_message fresh RoleUser VisAll t"

definition assistant_message :: "string \<Rightarrow> string \<Rightarrow> 'v Message" where
  "assistant_message fresh t = text_message fresh RoleAssistant VisAll t"

definition assistant_with_tool_calls :: "string \<Rightarrow> string \<Rightarrow> 'v ToolCall list \<Rightarrow> 'v Message" where
  "assistant_with_tool_calls fresh t calls =
     (text_message fresh RoleAssistant VisAll t)\<lparr>msg_tool_calls := (if calls = [] then None else Some calls)\<rparr>"

definition tool_message :: "string \<Rightarrow> string \<Rightarrow> string \<Rightarrow> 'v Message" where
  "tool_message fresh call_id t = (text_message fresh RoleTool VisAll t)\<lparr>msg_tool_call_id := Some call_id\<rparr>"

definition message_text :: "'v Message \<Rightarrow> string" where
  "message_text m = extract_text (msg_content m)"

definition is_internal_tool_result :: "'v Message \<Rightarrow> bool" where
  "is_internal_tool_result m \<longleftrightarrow> msg_role m = RoleTool \<and> msg_visibility m = VisInternal"

definition produced_by_run_id :: "'v Message \<Rightarrow> string option" where
  "produced_by_run_id m = Option.bind (msg_metadata m) md_run_id"

definition message_mark :: "'v Message \<Rightarrow> CompactionMark option" where
  "message_mark m = Option.bind (msg_metadata m) md_compaction"

definition mark_produced_by :: "string \<Rightarrow> u32 option \<Rightarrow> 'v Message \<Rightarrow> 'v Message" where
  "mark_produced_by run step m =
     (let md = (case msg_metadata m of None \<Rightarrow> no_metadata | Some d \<Rightarrow> d)
      in m\<lparr>msg_metadata := Some (md\<lparr>
          md_run_id := (if md_run_id md = None then Some run else md_run_id md),
          md_step_index := (if md_step_index md = None then step else md_step_index md)\<rparr>)\<rparr>)"

text \<open>The ids of the tool calls a message makes, and of the call it answers.\<close>

definition call_ids :: "'v Message \<Rightarrow> string list" where
  "call_ids m = (case msg_tool_calls m of None \<Rightarrow> [] | Some calls \<Rightarrow> map tcall_id calls)"

definition makes_call :: "string \<Rightarrow> 'v Message \<Rightarrow> bool" where
  "makes_call i m \<longleftrightarrow> msg_role m = RoleAssistant \<and> i \<in> set (call_ids m)"

section \<open>Token estimates\<close>

fun block_chars :: "'v ContentBlock \<Rightarrow> nat" where
  "block_chars (TextBlock t) = str_len t"
| "block_chars (ThinkingBlock t) = str_len t"
| "block_chars _ = 50"

definition estimate_message_tokens :: "'v Message \<Rightarrow> nat" where
  "estimate_message_tokens m = 4 + sum_list (map block_chars (msg_content m)) div 4"

definition estimate_tokens :: "'v Message list \<Rightarrow> nat" where
  "estimate_tokens ms = sum_list (map estimate_message_tokens ms)"

lemma estimate_tokens_simps [simp]:
  "estimate_tokens [] = 0"
  "estimate_tokens (m # ms) = estimate_message_tokens m + estimate_tokens ms"
  "estimate_tokens (ms @ ms') = estimate_tokens ms + estimate_tokens ms'"
  by (simp_all add: estimate_tokens_def)

lemma estimate_message_tokens_pos: "0 < estimate_message_tokens m"
  by (simp add: estimate_message_tokens_def)

section \<open>The shape of appended messages\<close>

text \<open>The tool calls of an assistant message are checked in order; a repeated id is an error.\<close>

fun check_calls :: "string \<Rightarrow> 'v ToolCall list \<Rightarrow> string list \<Rightarrow> (unit, string) outcome" where
  "check_calls mid [] seen = Ok ()"
| "check_calls mid (c # cs) seen =
     (if blank (tcall_id c) then Err (''assistant message '' @ in_quotes mid @ '' tool call id must not be empty'')
      else if blank (tcall_name c) then Err (''assistant message '' @ in_quotes mid @ '' tool call name must not be empty'')
      else if tcall_id c \<in> set seen then
        Err (''assistant message '' @ in_quotes mid @ '' contains duplicate tool call id '' @ in_quotes (tcall_id c))
      else check_calls mid cs (tcall_id c # seen))"

definition validate_message_shape :: "'v Message \<Rightarrow> string \<Rightarrow> (unit, string) outcome" where
  "validate_message_shape m context =
     (case msg_id m of
        None \<Rightarrow> Err (context @ '' message id must not be missing'')
      | Some mid \<Rightarrow>
          if blank mid then Err (context @ '' message id must not be empty'')
          else and_then
            (case msg_tool_call_id m of
               None \<Rightarrow> if msg_role m = RoleTool
                  then Err (''tool message '' @ in_quotes mid @ '' must carry tool_call_id'') else Ok ()
             | Some c \<Rightarrow> if msg_role m = RoleTool
                  then (if blank c then Err (''tool message '' @ in_quotes mid @ '' tool_call_id must not be empty'') else Ok ())
                  else Err (''non-tool message '' @ in_quotes mid @ '' must not carry tool_call_id''))
            (\<lambda>_. if msg_role m \<noteq> RoleAssistant \<and> msg_tool_calls m \<noteq> None
               then Err (''non-assistant message '' @ in_quotes mid @ '' must not carry tool_calls'')
               else (case msg_tool_calls m of None \<Rightarrow> Ok () | Some calls \<Rightarrow> check_calls mid calls [])))"

definition validate_compaction_mark :: "string \<Rightarrow> CompactionMark \<Rightarrow> u64 \<Rightarrow> (unit, string) outcome" where
  "validate_compaction_mark mid mark summary_seq =
     (if mark_from mark = 0 \<or> mark_to mark < mark_from mark then
        Err (''compaction mark on message '' @ in_quotes mid @ '' must be 1-based and non-empty'')
      else if summary_seq \<le> mark_to mark then
        Err (''compaction mark on summary message '' @ in_quotes mid @ '' must not cover the summary seq '' @
             show_nat (unat summary_seq))
      else Ok ())"

definition validate_message_for_append :: "'v Message \<Rightarrow> u64 \<Rightarrow> (unit, string) outcome" where
  "validate_message_for_append m summary_seq =
     and_then (validate_message_shape m ''append delta'') (\<lambda>_.
       case message_mark m of None \<Rightarrow> Ok ()
       | Some mark \<Rightarrow> (case msg_id m of Some mid \<Rightarrow> validate_compaction_mark mid mark summary_seq
            | None \<Rightarrow> Panic ''validate_message_shape requires message id''))"

text \<open>
  \<open>n\<close> is the number of committed messages plus the index in the delta; the sets of ids seen are
  lists here.
\<close>

fun check_delta :: "string list \<Rightarrow> nat \<Rightarrow> 'v Message list \<Rightarrow> string list \<Rightarrow> (unit, string) outcome" where
  "check_delta existing n [] seen = Ok ()"
| "check_delta existing n (m # ms) seen =
     and_then (validate_message_for_append m (of_nat n + 1)) (\<lambda>_.
       case msg_id m of None \<Rightarrow> Panic ''validate_message_for_append requires message id''
       | Some mid \<Rightarrow>
           if mid \<in> set existing then
             Err (''append delta contains already committed message id '' @ in_quotes mid)
           else if mid \<in> set seen then Err (''append delta contains duplicate message id '' @ in_quotes mid)
           else check_delta existing (n + 1) ms (mid # seen))"

definition validate_append_only_delta :: "'v Message list \<Rightarrow> 'v Message list \<Rightarrow> (unit, string) outcome" where
  "validate_append_only_delta existing delta =
     check_delta (List.map_filter msg_id existing) (length existing) delta []"

definition merge_checkpoint_append_messages ::
  "'v Message list \<Rightarrow> 'v Message list \<Rightarrow> (unit, string) outcome \<times> 'v Message list" where
  "merge_checkpoint_append_messages existing delta =
     (case validate_append_only_delta existing delta of
        Ok _ \<Rightarrow> (Ok (), existing @ delta)
      | Err e \<Rightarrow> (Err e, existing)
      | Panic p \<Rightarrow> (Panic p, existing))"

text \<open>What a successful append says of each message of the delta.\<close>

definition appendable :: "'v Message \<Rightarrow> bool" where
  "appendable m \<longleftrightarrow> (\<exists>mid. msg_id m = Some mid \<and> \<not> blank mid) \<and>
     (msg_role m = RoleTool \<longleftrightarrow> msg_tool_call_id m \<noteq> None) \<and>
     (\<forall>c. msg_tool_call_id m = Some c \<longrightarrow> \<not> blank c) \<and>
     (msg_tool_calls m \<noteq> None \<longrightarrow> msg_role m = RoleAssistant) \<and> distinct (call_ids m)"

lemma check_calls_Ok: "check_calls mid cs seen = Ok u \<Longrightarrow>
   distinct (map tcall_id cs) \<and> (\<forall>c \<in> set cs. tcall_id c \<notin> set seen \<and> \<not> blank (tcall_id c))"
proof (induction cs arbitrary: seen)
  case (Cons c cs)
  have "check_calls mid cs (tcall_id c # seen) = Ok u" "tcall_id c \<notin> set seen" "\<not> blank (tcall_id c)"
    using Cons.prems by (auto split: if_splits)
  with Cons.IH [of "tcall_id c # seen"] show ?case by auto
qed simp

lemma validate_message_shape_Ok: "validate_message_shape m context = Ok u \<Longrightarrow> appendable m"
  by (auto simp: validate_message_shape_def appendable_def call_ids_def and_then_eq_Ok_iff
      dest: check_calls_Ok split: option.splits if_splits)

lemma validate_message_for_append_Ok: "validate_message_for_append m n = Ok u \<Longrightarrow> appendable m"
  by (auto simp: validate_message_for_append_def and_then_eq_Ok_iff dest: validate_message_shape_Ok)

lemma validate_message_shape_no_panic: "\<not> is_panic (validate_message_shape m context)"
proof -
  have "\<not> is_panic (check_calls mid cs seen)" for mid cs seen
    by (induction cs arbitrary: seen) auto
  then show ?thesis by (auto simp: validate_message_shape_def split: option.splits)
qed

text \<open>The ids of the messages of a log.\<close>

definition msg_ids :: "'v Message list \<Rightarrow> string list" where
  "msg_ids ms = List.map_filter msg_id ms"

lemma msg_ids_simps [simp]:
  "msg_ids [] = []"
  "msg_ids (m # ms) = (case msg_id m of None \<Rightarrow> msg_ids ms | Some i \<Rightarrow> i # msg_ids ms)"
  "msg_ids (ms @ ms') = msg_ids ms @ msg_ids ms'"
  by (simp_all add: msg_ids_def map_filter_def split: option.splits)

lemma set_msg_ids: "i \<in> set (msg_ids ms) \<longleftrightarrow> (\<exists>m \<in> set ms. msg_id m = Some i)"
  by (auto simp: msg_ids_def set_map_filter)

lemma check_delta_Ok:
  "check_delta existing n delta seen = Ok u \<Longrightarrow>
   (\<forall>m \<in> set delta. appendable m) \<and> distinct (msg_ids delta) \<and>
   set (msg_ids delta) \<inter> set existing = {} \<and> set (msg_ids delta) \<inter> set seen = {}"
proof (induction delta arbitrary: n seen)
  case (Cons m ms)
  from Cons.prems obtain mid where a: "appendable m" and mid: "msg_id m = Some mid"
    and fresh: "mid \<notin> set existing" "mid \<notin> set seen"
    and rest: "check_delta existing (n + 1) ms (mid # seen) = Ok u"
    by (auto simp: and_then_eq_Ok_iff dest: validate_message_for_append_Ok split: option.splits if_splits)
  show ?case using Cons.IH [OF rest] a mid fresh by auto
qed simp

text \<open>
  What the append path keeps of a log: ids are present and distinct, every message has the shape of
  its role.
\<close>

definition log_ok :: "'v Message list \<Rightarrow> bool" where
  "log_ok ms \<longleftrightarrow> (\<forall>m \<in> set ms. appendable m) \<and> distinct (msg_ids ms)"

lemma merge_checkpoint_append_eq:
  "merge_checkpoint_append_messages existing delta =
   (map_ok (\<lambda>_. ()) (validate_append_only_delta existing delta),
    if is_ok (validate_append_only_delta existing delta) then existing @ delta else existing)"
  by (cases "validate_append_only_delta existing delta") (simp_all add: merge_checkpoint_append_messages_def)

lemma merge_checkpoint_append_ok:
  assumes "log_ok existing"
  shows "log_ok (snd (merge_checkpoint_append_messages existing delta))"
proof (cases "validate_append_only_delta existing delta")
  case (Ok u)
  then show ?thesis
    using assms check_delta_Ok [of "msg_ids existing" "length existing" delta "[]" u]
    by (auto simp: merge_checkpoint_append_messages_def validate_append_only_delta_def log_ok_def
        simp flip: msg_ids_def)
qed (use assms in \<open>simp_all add: merge_checkpoint_append_messages_def\<close>)

end
