(* ===== verification/Inference_Error.thy ===== *)
theory Inference_Error
  imports Messages
begin

text \<open>
  The inference errors and their policy classes, the snapshot of an interrupted stream with its
  recovery plan, the conversion of a collected result to stream events
  (\<^verbatim>\<open>awaken-runtime-contract/src/contract/executor.rs\<close>) and the routing key of a request
  (\<^verbatim>\<open>executor/routing_key.rs\<close>).

  JSON values are the type variable \<open>'v\<close>. The \<open>serde_json\<close> crate is a parameter: \<open>parse\<close> for
  \<open>from_str\<close>, \<open>is_null\<close> and \<open>print\<close> for \<open>to_string\<close>.
\<close>

section \<open>Interrupted streams\<close>

datatype InterruptCause =
    ConnectionReset | IdleStall | GoAway | Provider5xxMidStream u16 | ResumedFromCheckpoint

fun display_cause :: "InterruptCause \<Rightarrow> string" where
  "display_cause ConnectionReset = ''connection reset''"
| "display_cause IdleStall = ''idle stall''"
| "display_cause GoAway = ''goaway''"
| "display_cause (Provider5xxMidStream s) = ''provider '' @ show_nat (unat s) @ '' mid-stream''"
| "display_cause ResumedFromCheckpoint = ''resumed from checkpoint''"

record InFlightTool =
  if_id :: string
  if_name :: string
  if_partial_args :: string

record 'v InterruptSnapshot =
  is_text :: "string option"
  is_completed_tool_calls :: "'v ToolCall list"
  is_in_flight_tool :: "InFlightTool option"
  is_bytes_received :: usize

datatype 'v RecoveryPlan =
    ContinueText string
  | SynthesizeToolUse "'v ToolCall list" "InFlightTool option"
  | TruncateBeforeTool string string string
  | WholeRestart

text \<open>The loop of \<open>from_partials\<close> over \<open>(id, name, args_json)\<close> triples.\<close>

fun partials_loop ::
  "(string \<Rightarrow> 'v option) \<Rightarrow> ('v \<Rightarrow> bool) \<Rightarrow> (string \<times> string \<times> string) list \<Rightarrow>
   'v ToolCall list \<Rightarrow> InFlightTool option \<Rightarrow> 'v ToolCall list \<times> InFlightTool option" where
  "partials_loop parse is_null [] completed in_flight = (completed, in_flight)"
| "partials_loop parse is_null ((i, n, a) # ps) completed in_flight =
     (if n = '''' then
        partials_loop parse is_null ps completed (Some \<lparr>if_id = i, if_name = '''', if_partial_args = a\<rparr>)
      else
        (case parse a of
           Some v \<Rightarrow>
             if \<not> is_null v \<or> a = '''' then
               partials_loop parse is_null ps
                 (completed @ [\<lparr>tcall_id = i, tcall_name = n, tcall_arguments = v\<rparr>]) in_flight
             else partials_loop parse is_null ps completed
                    (Some \<lparr>if_id = i, if_name = n, if_partial_args = a\<rparr>)
         | None \<Rightarrow> partials_loop parse is_null ps completed
                    (Some \<lparr>if_id = i, if_name = n, if_partial_args = a\<rparr>)))"

definition from_partials ::
  "(string \<Rightarrow> 'v option) \<Rightarrow> ('v \<Rightarrow> bool) \<Rightarrow> string option \<Rightarrow> (string \<times> string \<times> string) list \<Rightarrow> usize \<Rightarrow>
   'v InterruptSnapshot" where
  "from_partials parse is_null text partials bytes =
     (let (completed, in_flight) = partials_loop parse is_null partials [] None
      in \<lparr>is_text = text, is_completed_tool_calls = completed, is_in_flight_tool = in_flight,
          is_bytes_received = bytes\<rparr>)"

definition plan :: "'v InterruptSnapshot \<Rightarrow> 'v RecoveryPlan" where
  "plan s =
     (let text = (case is_text s of None \<Rightarrow> '''' | Some t \<Rightarrow> t);
          has_text = (text \<noteq> '''');
          has_completed = (is_completed_tool_calls s \<noteq> [])
      in if has_completed then SynthesizeToolUse (is_completed_tool_calls s) (is_in_flight_tool s)
         else if has_text then
           (case is_in_flight_tool s of
              Some p \<Rightarrow> TruncateBeforeTool text (if_id p) (if_name p)
            | None \<Rightarrow> ContinueText text)
         else WholeRestart)"

section \<open>Errors\<close>

datatype 'v InferenceExecutionError =
    Provider string
  | RateLimited string "nat option"
  | Overloaded string "nat option"
  | Timeout string
  | StreamInterrupted InterruptCause "'v InterruptSnapshot"
  | ContextOverflow string
  | InvalidRequest string
  | Unauthorized string
  | ModelNotFound string
  | ContentFiltered string
  | AllModelsUnavailable
  | PoolAttemptsExhausted
  | IE_Cancelled

definition rate_limited :: "string \<Rightarrow> 'v InferenceExecutionError" where
  "rate_limited message = RateLimited message None"

definition err_overloaded :: "string \<Rightarrow> 'v InferenceExecutionError" where
  "err_overloaded message = Overloaded message None"

fun is_retryable :: "'v InferenceExecutionError \<Rightarrow> bool" where
  "is_retryable (Provider _) = True"
| "is_retryable (RateLimited _ _) = True"
| "is_retryable (Overloaded _ _) = True"
| "is_retryable (Timeout _) = True"
| "is_retryable (StreamInterrupted _ _) = True"
| "is_retryable _ = False"

definition counts_toward_circuit_breaker :: "'v InferenceExecutionError \<Rightarrow> bool" where
  "counts_toward_circuit_breaker e = is_retryable e"

fun retry_after :: "'v InferenceExecutionError \<Rightarrow> nat option" where
  "retry_after (RateLimited _ ra) = ra"
| "retry_after (Overloaded _ ra) = ra"
| "retry_after _ = None"

section \<open>Collected results as stream events\<close>

text \<open>
  Usage and stop reason are passed through untouched, the type variables \<open>'u\<close> and \<open>'s\<close>.
\<close>

datatype ('u, 's) LlmStreamEvent =
    TextDelta string
  | ReasoningDelta string
  | ToolCallStart string string
  | ToolCallDelta string string
  | ContentBlockStop
  | Usage 'u
  | Stop 's

record ('v, 'u, 's) StreamResult =
  res_content :: "'v ContentBlock list"
  res_tool_calls :: "'v ToolCall list"
  res_usage :: "'u option"
  res_stop_reason :: "'s option"
  res_has_incomplete_tool_calls :: bool

fun block_events :: "'v ContentBlock \<Rightarrow> ('u, 's) LlmStreamEvent list" where
  "block_events (TextBlock t) = (if t \<noteq> '''' then [TextDelta t] else [])"
| "block_events (ThinkingBlock t) = (if t \<noteq> '''' then [ReasoningDelta t] else [])"
| "block_events _ = []"

definition call_events :: "('v \<Rightarrow> string) \<Rightarrow> 'v ToolCall \<Rightarrow> ('u, 's) LlmStreamEvent list" where
  "call_events print c =
     ToolCallStart (tcall_id c) (tcall_name c) #
     (let args = print (tcall_arguments c)
      in if args \<noteq> '''' then [ToolCallDelta (tcall_id c) args] else [])"

definition collected_to_stream_events ::
  "('v \<Rightarrow> string) \<Rightarrow> ('v, 'u, 's) StreamResult \<Rightarrow> ('u, 's) LlmStreamEvent list" where
  "collected_to_stream_events print r =
     concat (map block_events (res_content r)) @
     concat (map (call_events print) (res_tool_calls r)) @
     (case res_usage r of None \<Rightarrow> [] | Some u \<Rightarrow> [Usage u]) @
     (case res_stop_reason r of None \<Rightarrow> [] | Some s \<Rightarrow> [Stop s])"

section \<open>Routing keys\<close>

datatype StickyScope = ScopeThread | ScopeRun

record InferenceRoutingKey =
  rk_thread_id :: "string option"
  rk_run_id :: "string option"
  rk_fallback :: "string option"
  rk_logical_inference_id :: "string option"

definition non_empty_owned :: "string \<Rightarrow> string option" where
  "non_empty_owned value = (if \<not> blank value then Some value else None)"

definition routing_default :: InferenceRoutingKey where
  "routing_default =
     \<lparr>rk_thread_id = None, rk_run_id = None, rk_fallback = None, rk_logical_inference_id = None\<rparr>"

text \<open>Of a run identity only the thread and run ids are read.\<close>

definition from_run_identity :: "string \<Rightarrow> string \<Rightarrow> InferenceRoutingKey" where
  "from_run_identity thread run =
     routing_default\<lparr>rk_thread_id := non_empty_owned thread, rk_run_id := non_empty_owned run\<rparr>"

definition routing_thread :: "string \<Rightarrow> InferenceRoutingKey" where
  "routing_thread t = routing_default\<lparr>rk_thread_id := non_empty_owned t\<rparr>"

definition routing_fallback :: "string \<Rightarrow> InferenceRoutingKey" where
  "routing_fallback k = routing_default\<lparr>rk_fallback := non_empty_owned k\<rparr>"

definition for_scope :: "InferenceRoutingKey \<Rightarrow> StickyScope \<Rightarrow> string option" where
  "for_scope key scope =
     (case (case scope of ScopeThread \<Rightarrow> rk_thread_id key | ScopeRun \<Rightarrow> rk_run_id key) of
        Some k \<Rightarrow> Some k
      | None \<Rightarrow> rk_fallback key)"

section \<open>Theorems\<close>

text \<open>A tool call that arrived whole: it has a name, and its arguments parse to a non-null value.\<close>

definition arrived_whole ::
  "(string \<Rightarrow> 'v option) \<Rightarrow> ('v \<Rightarrow> bool) \<Rightarrow> string \<times> string \<times> string \<Rightarrow> bool" where
  "arrived_whole parse is_null p \<longleftrightarrow>
     (case p of (i, n, a) \<Rightarrow> n \<noteq> '''' \<and>
        (case parse a of None \<Rightarrow> False | Some v \<Rightarrow> \<not> is_null v \<or> a = ''''))"

definition whole_call :: "(string \<Rightarrow> 'v option) \<Rightarrow> string \<times> string \<times> string \<Rightarrow> 'v ToolCall" where
  "whole_call parse p =
     (case p of (i, n, a) \<Rightarrow> \<lparr>tcall_id = i, tcall_name = n, tcall_arguments = the (parse a)\<rparr>)"

definition broken_call :: "string \<times> string \<times> string \<Rightarrow> InFlightTool" where
  "broken_call p = (case p of (i, n, a) \<Rightarrow> \<lparr>if_id = i, if_name = n, if_partial_args = a\<rparr>)"

lemma partials_loop_eq:
  "partials_loop parse is_null ps completed in_flight =
    (completed @ map (whole_call parse) (filter (arrived_whole parse is_null) ps),
     case filter (\<lambda>p. \<not> arrived_whole parse is_null p) (rev ps) of
       [] \<Rightarrow> in_flight | p # _ \<Rightarrow> Some (broken_call p))"
proof (induction ps arbitrary: completed in_flight)
  case (Cons p ps)
  obtain i n a where p: "p = (i, n, a)" by (cases p)
  show ?case
    by (cases "filter (\<lambda>p. \<not> arrived_whole parse is_null p) (rev ps)"; cases "parse a")
      (auto simp: p Cons.IH arrived_whole_def whole_call_def broken_call_def)
qed simp

text \<open>
  Recovery of an interrupted stream loses no finished tool call and runs no broken one: the
  snapshot holds exactly the calls that arrived whole, in order, with the last broken one as in
  flight, and the plan executes those calls if there is one, continues from the text if there is
  only text, and restarts only when there is neither.
\<close>

theorem recovery_plan_sound:
  assumes "snap = from_partials parse is_null text ps bytes"
    and "whole = filter (arrived_whole parse is_null) ps"
  shows "is_completed_tool_calls snap = map (whole_call parse) whole
    \<and> (is_in_flight_tool snap = None \<longleftrightarrow> whole = ps)
    \<and> (case plan snap of
         SynthesizeToolUse calls hint \<Rightarrow>
           whole \<noteq> [] \<and> calls = map (whole_call parse) whole \<and> hint = is_in_flight_tool snap
       | TruncateBeforeTool pre i n \<Rightarrow>
           whole = [] \<and> text = Some pre \<and> pre \<noteq> '''' \<and>
           (\<exists>tool. is_in_flight_tool snap = Some tool \<and> if_id tool = i \<and> if_name tool = n)
       | ContinueText pre \<Rightarrow> ps = [] \<and> text = Some pre \<and> pre \<noteq> ''''
       | WholeRestart \<Rightarrow> whole = [] \<and> (text = None \<or> text = Some ''''))"
proof -
  let ?w = "arrived_whole parse is_null"
  have c: "is_completed_tool_calls snap = map (whole_call parse) whole" "is_text snap = text"
    and f: "is_in_flight_tool snap =
      (case filter (\<lambda>p. \<not> ?w p) (rev ps) of [] \<Rightarrow> None | p # _ \<Rightarrow> Some (broken_call p))"
    using assms by (simp_all add: from_partials_def partials_loop_eq)
  have "filter (\<lambda>p. \<not> ?w p) (rev ps) = [] \<longleftrightarrow> whole = ps"
    using assms(2) by (auto simp: filter_empty_conv filter_id_conv)
  then have n: "is_in_flight_tool snap = None \<longleftrightarrow> whole = ps"
    using f by (cases "filter (\<lambda>p. \<not> ?w p) (rev ps)") simp_all
  show ?thesis
    using c n by (auto simp: plan_def Let_def split: option.splits if_splits)
qed

theorem recovery_plan_sound_witness:
  "is_completed_tool_calls (from_partials (\<lambda>s. if s = ''x'' then Some (1::nat) else None) (\<lambda>_. False)
     (Some ''hi'') [(''a'', ''f'', ''x''), (''b'', ''g'', ''{'')] 9) =
     [\<lparr>tcall_id = ''a'', tcall_name = ''f'', tcall_arguments = 1\<rparr>]"
  using recovery_plan_sound [OF refl refl, of "\<lambda>s. if s = ''x'' then Some (1::nat) else None"
      "\<lambda>_. False" "Some ''hi''" "[(''a'', ''f'', ''x''), (''b'', ''g'', ''{'')]" 9]
  by (simp add: arrived_whole_def whole_call_def)

end
