(* ===== verification/Pool_Router.thy ===== *)
theory Pool_Router
  imports Inference_Error Complex_Main
begin

text \<open>
  The routing decisions of a model pool (\<^verbatim>\<open>awaken-runtime/src/engine/pool_router.rs\<close>) over the
  pool specification (\<^verbatim>\<open>awaken-runtime-contract/src/registry_spec/model_pool_spec.rs\<close>).

  The rendezvous score is a double computed from a 64-bit FNV-1a hash. The hash is modelled in
  64-bit words; the floating-point shaping of hash and weight into a score is a parameter
  \<open>shape\<close>, any function to the reals, since rounding is left open and nothing proved here
  depends on it. The sum of weights is a natural number: fewer than \<open>2^32\<close> weights below \<open>2^32\<close>
  stay below \<open>2^64\<close>.
\<close>

unbundle bit_operations_syntax

section \<open>Pool specification\<close>

datatype PoolMemberRole = Member | FailoverOnly

datatype HomeStrategy = Deterministic | RoundRobin | FirstHealthy

record PoolMemberSpec =
  ms_model_id :: string
  ms_weight :: "u32 option"
  ms_role :: PoolMemberRole

record PoolRoutingPolicy =
  home :: HomeStrategy
  sticky_scope :: StickyScope

definition PoolRoutingPolicy_default :: PoolRoutingPolicy where
  "PoolRoutingPolicy_default = \<lparr>home = Deterministic, sticky_scope = ScopeThread\<rparr>"

record PoolSwitchPolicy =
  on_circuit_open :: bool
  on_quota :: bool
  quota_retry_after_threshold_secs :: "u64 option"
  on_permanent :: bool
  max_switches_per_session :: "u32 option"

definition PoolSwitchPolicy_default :: PoolSwitchPolicy where
  "PoolSwitchPolicy_default =
     \<lparr>on_circuit_open = True, on_quota = True, quota_retry_after_threshold_secs = None,
      on_permanent = True, max_switches_per_session = None\<rparr>"

record ModelPoolSpec =
  mp_id :: string
  mp_members :: "PoolMemberSpec list"
  mp_routing :: PoolRoutingPolicy
  mp_switch :: PoolSwitchPolicy

definition ModelPoolSpec_new :: "string \<Rightarrow> string list \<Rightarrow> ModelPoolSpec" where
  "ModelPoolSpec_new i model_ids =
     \<lparr>mp_id = i,
      mp_members = map (\<lambda>m. \<lparr>ms_model_id = m, ms_weight = None, ms_role = Member\<rparr>) model_ids,
      mp_routing = PoolRoutingPolicy_default, mp_switch = PoolSwitchPolicy_default\<rparr>"

section \<open>Router\<close>

record RouterMember =
  rm_model_id :: string
  rm_role :: PoolMemberRole
  rm_weight :: u32

record PoolRouter =
  pr_members :: "RouterMember list"
  pr_routing :: PoolRoutingPolicy
  pr_switch :: PoolSwitchPolicy

definition PoolRouter_new ::
  "RouterMember list \<Rightarrow> PoolRoutingPolicy \<Rightarrow> PoolSwitchPolicy \<Rightarrow> PoolRouter" where
  "PoolRouter_new ms r s = \<lparr>pr_members = ms, pr_routing = r, pr_switch = s\<rparr>"

text \<open>\<open>healthy.get(idx).copied().unwrap_or(true)\<close>\<close>

definition is_healthy :: "bool list \<Rightarrow> nat \<Rightarrow> bool" where
  "is_healthy healthy idx = (if idx < length healthy then healthy ! idx else True)"

definition fnv1a :: "string \<Rightarrow> string \<Rightarrow> u64" where
  "fnv1a routing_key model_id =
     foldl (\<lambda>hash byte. (hash XOR ucast byte) * 0x00000100000001b3) 0xcbf29ce484222325
       (as_bytes routing_key @ [0] @ as_bytes model_id)"

definition weighted_rendezvous_score ::
  "(u64 \<Rightarrow> u32 \<Rightarrow> real) \<Rightarrow> string \<Rightarrow> string \<Rightarrow> u32 \<Rightarrow> real" where
  "weighted_rendezvous_score shape routing_key model_id weight =
     shape (fnv1a routing_key model_id) (max weight 1)"

definition member_score :: "(u64 \<Rightarrow> u32 \<Rightarrow> real) \<Rightarrow> PoolRouter \<Rightarrow> string \<Rightarrow> nat \<Rightarrow> real" where
  "member_score shape r routing_key idx =
     (case home (pr_routing r) of
        FirstHealthy \<Rightarrow> - real idx
      | _ \<Rightarrow> weighted_rendezvous_score shape routing_key (rm_model_id (pr_members r ! idx))
               (rm_weight (pr_members r ! idx)))"

fun best_loop ::
  "(nat \<Rightarrow> real) \<Rightarrow> (nat \<Rightarrow> bool) \<Rightarrow> nat list \<Rightarrow> (nat \<times> real) option \<Rightarrow> (nat \<times> real) option" where
  "best_loop score accept [] best = best"
| "best_loop score accept (idx # ids) best =
     (if \<not> accept idx then best_loop score accept ids best
      else (case best of
          Some (b, best_score) \<Rightarrow>
            if score idx \<le> best_score then best_loop score accept ids best
            else best_loop score accept ids (Some (idx, score idx))
        | None \<Rightarrow> best_loop score accept ids (Some (idx, score idx))))"

definition best_by_score ::
  "(u64 \<Rightarrow> u32 \<Rightarrow> real) \<Rightarrow> PoolRouter \<Rightarrow> string \<Rightarrow> (nat \<Rightarrow> bool) \<Rightarrow> nat option" where
  "best_by_score shape r routing_key accept =
     map_option fst
       (best_loop (member_score shape r routing_key) accept [0..<length (pr_members r)] None)"

text \<open>The closure \<open>choose\<close> of \<open>round_robin_home\<close>, over the accepted members with their weights.\<close>

definition accepted_weights :: "PoolRouter \<Rightarrow> (nat \<Rightarrow> bool) \<Rightarrow> (nat \<times> nat) list" where
  "accepted_weights r accept =
     map (\<lambda>idx. (idx, unat (max (rm_weight (pr_members r ! idx)) 1)))
       (filter accept [0..<length (pr_members r)])"

fun rr_walk :: "(nat \<times> nat) list \<Rightarrow> nat \<Rightarrow> nat option" where
  "rr_walk [] slot = None"
| "rr_walk ((idx, weight) # ms) slot = (if slot < weight then Some idx else rr_walk ms (slot - weight))"

definition rr_choose :: "PoolRouter \<Rightarrow> (nat \<Rightarrow> bool) \<Rightarrow> nat \<Rightarrow> nat option" where
  "rr_choose r accept sequence =
     (let ms = accepted_weights r accept; total_weight = sum_list (map snd ms)
      in if total_weight = 0 then None else rr_walk ms (sequence mod total_weight))"

definition home_eligible :: "PoolRouter \<Rightarrow> nat \<Rightarrow> bool" where
  "home_eligible r idx \<longleftrightarrow> rm_role (pr_members r ! idx) = Member"

definition round_robin_home :: "PoolRouter \<Rightarrow> bool list \<Rightarrow> u64 \<Rightarrow> nat option" where
  "round_robin_home r healthy sequence =
     (case rr_choose r (\<lambda>idx. home_eligible r idx \<and> is_healthy healthy idx) (unat sequence) of
        Some i \<Rightarrow> Some i
      | None \<Rightarrow> rr_choose r (home_eligible r) (unat sequence))"

definition unwrap_or :: "'a option \<Rightarrow> 'a \<Rightarrow> 'a" where
  "unwrap_or x d = (case x of None \<Rightarrow> d | Some v \<Rightarrow> v)"

definition select_home_with_sequence ::
  "(u64 \<Rightarrow> u32 \<Rightarrow> real) \<Rightarrow> PoolRouter \<Rightarrow> string \<Rightarrow> bool list \<Rightarrow> u64 option \<Rightarrow> nat" where
  "select_home_with_sequence shape r routing_key healthy sequence =
     (if home (pr_routing r) = RoundRobin then
        unwrap_or (round_robin_home r healthy (unwrap_or sequence 0)) 0
      else
        unwrap_or
          (case best_by_score shape r routing_key (\<lambda>idx. home_eligible r idx \<and> is_healthy healthy idx) of
             Some i \<Rightarrow> Some i
           | None \<Rightarrow> best_by_score shape r routing_key (home_eligible r)) 0)"

definition select_home ::
  "(u64 \<Rightarrow> u32 \<Rightarrow> real) \<Rightarrow> PoolRouter \<Rightarrow> string \<Rightarrow> bool list \<Rightarrow> nat" where
  "select_home shape r routing_key healthy = select_home_with_sequence shape r routing_key healthy None"

definition select_failover ::
  "(u64 \<Rightarrow> u32 \<Rightarrow> real) \<Rightarrow> PoolRouter \<Rightarrow> string \<Rightarrow> nat \<Rightarrow> bool list \<Rightarrow> nat option" where
  "select_failover shape r routing_key current_idx healthy =
     best_by_score shape r routing_key (\<lambda>idx. idx \<noteq> current_idx \<and> is_healthy healthy idx)"

definition quota_threshold_met :: "PoolRouter \<Rightarrow> nat option \<Rightarrow> bool" where
  "quota_threshold_met r hint =
     (case (quota_retry_after_threshold_secs (pr_switch r), hint) of
        (Some threshold, Some after) \<Rightarrow> after div 10 ^ 9 \<ge> unat threshold
      | _ \<Rightarrow> True)"

fun should_switch_on_error :: "PoolRouter \<Rightarrow> 'v InferenceExecutionError \<Rightarrow> bool" where
  "should_switch_on_error r (RateLimited _ ra) \<longleftrightarrow> on_quota (pr_switch r) \<and> quota_threshold_met r ra"
| "should_switch_on_error r (Overloaded _ ra) \<longleftrightarrow> on_quota (pr_switch r) \<and> quota_threshold_met r ra"
| "should_switch_on_error r (Unauthorized _) \<longleftrightarrow> on_permanent (pr_switch r)"
| "should_switch_on_error r (ModelNotFound _) \<longleftrightarrow> on_permanent (pr_switch r)"
| "should_switch_on_error r _ \<longleftrightarrow> False"

section \<open>The contract of a member selection\<close>

text \<open>
  A selection among the members below \<open>n\<close>: it returns an accepted member, and nothing only if
  none is accepted. Home and failover selection need no more than this of the way the router
  picks. Preferring one group of members over a larger one is derived once.
\<close>

locale selection =
  fixes pick :: "(nat \<Rightarrow> bool) \<Rightarrow> nat option"
    and n :: nat
  assumes pick_sound: "pick P = Some i \<Longrightarrow> i < n \<and> P i"
    and pick_complete: "pick P = None \<Longrightarrow> i < n \<Longrightarrow> \<not> P i"
begin

lemma pick_None_iff: "pick P = None \<longleftrightarrow> (\<forall>i<n. \<not> P i)"
  using pick_sound pick_complete by (metis option.exhaust)

lemma pick_total: "i < n \<Longrightarrow> P i \<Longrightarrow> \<exists>j. pick P = Some j \<and> j < n \<and> P j"
  using pick_sound pick_complete by (metis option.exhaust)

text \<open>First the members with \<open>P\<close> and \<open>Q\<close>, then those with \<open>P\<close> alone.\<close>

lemma pick_preferred:
  assumes "i < n" and "P i"
    and "r = (case pick (\<lambda>i. P i \<and> Q i) of Some j \<Rightarrow> Some j | None \<Rightarrow> pick P)"
  shows "\<exists>j. r = Some j \<and> j < n \<and> P j \<and> ((\<exists>k<n. P k \<and> Q k) \<longrightarrow> Q j)"
proof (cases "pick (\<lambda>i. P i \<and> Q i)")
  case None
  with pick_total [of i P] assms show ?thesis by (auto simp: pick_None_iff)
next
  case (Some j)
  with assms(3) pick_sound [OF Some] show ?thesis by simp
qed

end

section \<open>Highest score\<close>

text \<open>The winner of the loop: the highest score, the lowest index among equals.\<close>

definition beats :: "(nat \<Rightarrow> real) \<Rightarrow> nat \<Rightarrow> nat \<Rightarrow> bool" where
  "beats score i j \<longleftrightarrow> score j < score i \<or> score j = score i \<and> i \<le> j"

lemma beats_refl [simp]: "beats score i i"
  by (simp add: beats_def)

lemma beats_trans: "beats score i j \<Longrightarrow> beats score j k \<Longrightarrow> beats score i k"
  by (auto simp: beats_def)

lemma beats_antisym: "beats score i j \<Longrightarrow> beats score j i \<Longrightarrow> i = j"
  by (auto simp: beats_def)

lemma best_loop_winner:
  assumes "sorted_wrt (<) ids" and "\<forall>b \<in> set_option best. \<forall>i \<in> set ids. fst b < i"
    and "\<forall>b \<in> set_option best. snd b = score (fst b)"
  shows "case best_loop score accept ids best of
      None \<Rightarrow> best = None \<and> (\<forall>i \<in> set ids. \<not> accept i)
    | Some (w, sw) \<Rightarrow> sw = score w \<and> (w \<in> set ids \<and> accept w \<or> (\<exists>b. best = Some b \<and> fst b = w)) \<and>
        (\<forall>i \<in> set ids. accept i \<longrightarrow> beats score w i) \<and> (\<forall>b \<in> set_option best. beats score w (fst b))"
  using assms
proof (induction ids arbitrary: best)
  case Nil
  then show ?case by (cases best) auto
next
  case (Cons i ids)
  have so: "sorted_wrt (<) ids" and le: "\<forall>j \<in> set ids. i < j" using Cons.prems(1) by simp_all
  show ?case
  proof (cases "accept i")
    case False
    with Cons.IH [OF so, of best] Cons.prems(2,3) show ?thesis
      by (auto split: option.splits)
  next
    case True
    define keep where "keep \<longleftrightarrow> (\<exists>b. best = Some b \<and> score i \<le> snd b)"
    define best' where "best' = (if keep then best else Some (i, score i))"
    have eq: "best_loop score accept (i # ids) best = best_loop score accept ids best'"
      using True by (cases best) (auto simp: best'_def keep_def)
    have 1: "\<forall>b \<in> set_option best'. \<forall>j \<in> set ids. fst b < j"
      and 2: "\<forall>b \<in> set_option best'. snd b = score (fst b)"
      using Cons.prems(2,3) le by (auto simp: best'_def keep_def)
    have 3: "\<exists>b. best' = Some b \<and> beats score (fst b) i \<and> (\<forall>c \<in> set_option best. beats score (fst b) (fst c)) \<and>
        (fst b = i \<or> best = Some b)"
      using Cons.prems(2,3) by (cases best) (auto simp: best'_def keep_def beats_def not_le)
    from Cons.IH [OF so 1 2] 3 True show ?thesis
      unfolding eq by (auto split: option.splits intro: beats_trans)
  qed
qed

lemma best_by_score_winner:
  "best_by_score shape r key accept = Some w \<longleftrightarrow>
     w < length (pr_members r) \<and> accept w \<and>
     (\<forall>i < length (pr_members r). accept i \<longrightarrow> beats (member_score shape r key) w i)"
  (is "?l \<longleftrightarrow> ?r w")
proof -
  let ?n = "length (pr_members r)" and ?s = "member_score shape r key"
  have main: "case best_loop ?s accept [0..<?n] None of
      None \<Rightarrow> (\<forall>i < ?n. \<not> accept i)
    | Some (w, sw) \<Rightarrow> w < ?n \<and> accept w \<and> (\<forall>i < ?n. accept i \<longrightarrow> beats ?s w i)"
    using best_loop_winner [of "[0..<?n]" None ?s accept] by (auto split: option.splits)
  show ?thesis
  proof
    assume ?l
    with main show "?r w" by (auto simp: best_by_score_def split: option.splits)
  next
    assume r: "?r w"
    with main obtain w' sw where w': "best_loop ?s accept [0..<?n] None = Some (w', sw)" "?r w'"
      by (auto split: option.splits)
    with r have "w' = w" using beats_antisym by blast
    with w' show ?l by (simp add: best_by_score_def)
  qed
qed

lemma best_by_score_None:
  "best_by_score shape r key accept = None \<Longrightarrow> i < length (pr_members r) \<Longrightarrow> \<not> accept i"
  using best_loop_winner [of "[0..<length (pr_members r)]" None "member_score shape r key" accept]
  by (auto simp: best_by_score_def split: option.splits)

interpretation by_score: selection "best_by_score shape r key" "length (pr_members r)" for shape r key
  by unfold_locales (auto simp: best_by_score_winner best_by_score_None)

section \<open>Weighted round robin\<close>

lemma rr_walk_sound: "rr_walk ms slot = Some i \<Longrightarrow> i \<in> fst ` set ms"
  by (induction ms slot rule: rr_walk.induct) (auto split: if_splits)

lemma rr_walk_total: "slot < sum_list (map snd ms) \<Longrightarrow> rr_walk ms slot \<noteq> None"
  by (induction ms slot rule: rr_walk.induct) auto

lemma accepted_weights_set:
  "fst ` set (accepted_weights r accept) = {i. i < length (pr_members r) \<and> accept i}"
  by (force simp: accepted_weights_def)

lemma weight_pos: "0 < unat (max w (1 :: u32))"
proof -
  have "0 < max w 1" by (metis less_max_iff_disj word_greater_zero_iff zero_neq_one)
  then show ?thesis by (simp add: word_less_nat_alt)
qed

lemma accepted_weights_pos: "(i, w) \<in> set (accepted_weights r accept) \<Longrightarrow> 0 < w"
  using weight_pos by (auto simp: accepted_weights_def)

lemma total_weight_zero:
  "sum_list (map snd (accepted_weights r accept)) = 0 \<longleftrightarrow> accepted_weights r accept = []"
  using accepted_weights_pos [of _ _ r accept]
  by (cases "accepted_weights r accept") (force simp: sum_list_eq_0_iff)+

interpretation by_turn: selection "\<lambda>P. rr_choose r P seq" "length (pr_members r)" for r seq
proof
  fix P i
  let ?ms = "accepted_weights r P"
  show "i < length (pr_members r) \<and> P i" if "rr_choose r P seq = Some i"
    using that rr_walk_sound [of ?ms _ i] accepted_weights_set [of r P]
    by (auto simp: rr_choose_def Let_def split: if_splits)
  assume none: "rr_choose r P seq = None" and i: "i < length (pr_members r)"
  have "sum_list (map snd ?ms) = 0"
  proof (rule ccontr)
    assume "sum_list (map snd ?ms) \<noteq> 0"
    then have "rr_walk ?ms (seq mod sum_list (map snd ?ms)) \<noteq> None"
      by (intro rr_walk_total mod_less_divisor) linarith
    with none \<open>sum_list (map snd ?ms) \<noteq> 0\<close> show False
      by (simp add: rr_choose_def Let_def del: sum_list_eq_0_iff split: if_splits)
  qed
  then show "\<not> P i"
    using accepted_weights_set [of r P] i total_weight_zero by auto
qed

lemma card_rr_walk:
  assumes "distinct (map fst ms)" and "(i, w) \<in> set ms"
  shows "card {s. s < sum_list (map snd ms) \<and> rr_walk ms s = Some i} = w"
  using assms
proof (induction ms)
  case (Cons m ms)
  obtain j v where m: "m = (j, v)" by (cases m)
  let ?S = "sum_list (map snd ms)"
  let ?rest = "{s. s < ?S \<and> rr_walk ms s = Some i}"
  have split: "{s. s < sum_list (map snd (m # ms)) \<and> rr_walk (m # ms) s = Some i} =
      {s. s < v \<and> j = i} \<union> (\<lambda>s. s + v) ` ?rest" (is "?A = ?B")
  proof (rule set_eqI)
    fix s
    show "s \<in> ?A \<longleftrightarrow> s \<in> ?B"
    proof (cases "s < v")
      case False
      then have "s \<in> ?A \<longleftrightarrow> s - v \<in> ?rest" by (auto simp: m)
      moreover have "s \<in> ?B \<longleftrightarrow> s - v \<in> ?rest"
        using False by (auto simp: image_iff intro: exI [of _ "s - v"])
      ultimately show ?thesis by simp
    qed (auto simp: m)
  qed
  have disj: "{s. s < v \<and> j = i} \<inter> (\<lambda>s. s + v) ` ?rest = {}" by auto
  have fin: "finite ?rest" by simp
  have cardB: "card ?B = card {s. s < v \<and> j = i} + card ?rest"
    using disj fin by (subst card_Un_disjoint) (auto simp: card_image inj_on_def)
  show ?case
  proof (cases "j = i")
    case True
    then have "i \<notin> fst ` set ms" using Cons.prems(1) by (simp add: m)
    moreover from this have "(i, w) \<notin> set ms" by (metis fst_conv image_eqI)
    with True Cons.prems(2) have "w = v" by (simp add: m)
    ultimately have "?rest = {}" using rr_walk_sound by fastforce
    with True \<open>w = v\<close> show ?thesis unfolding split cardB by simp
  next
    case False
    then have "card ?rest = w" using Cons.IH Cons.prems by (simp add: m)
    with False show ?thesis unfolding split cardB by simp
  qed
qed simp

section \<open>Theorems\<close>

text \<open>
  Home selection honours roles and health: for every strategy, a pool with a home-eligible member
  homes a session to a home-eligible member, never to a failover-only one, and to a healthy one
  whenever some home-eligible member is healthy.
\<close>

theorem home_is_eligible_and_healthy:
  assumes "i < length (pr_members r)" and "home_eligible r i"
    and "h = select_home_with_sequence shape r key healthy seq"
  shows "h < length (pr_members r) \<and> home_eligible r h \<and>
    ((\<exists>j < length (pr_members r). home_eligible r j \<and> is_healthy healthy j) \<longrightarrow> is_healthy healthy h)"
proof (cases "home (pr_routing r) = RoundRobin")
  case True
  have "\<exists>j. round_robin_home r healthy (unwrap_or seq 0) = Some j \<and> j < length (pr_members r) \<and> home_eligible r j \<and>
    ((\<exists>k < length (pr_members r). home_eligible r k \<and> is_healthy healthy k) \<longrightarrow> is_healthy healthy j)"
    using by_turn.pick_preferred [of i r "home_eligible r"] assms(1,2) by (simp add: round_robin_home_def)
  with True assms(3) show ?thesis by (auto simp: select_home_with_sequence_def unwrap_or_def)
next
  case False
  have "\<exists>j. (case best_by_score shape r key (\<lambda>idx. home_eligible r idx \<and> is_healthy healthy idx) of
      Some i \<Rightarrow> Some i | None \<Rightarrow> best_by_score shape r key (home_eligible r)) = Some j \<and>
    j < length (pr_members r) \<and> home_eligible r j \<and>
    ((\<exists>k < length (pr_members r). home_eligible r k \<and> is_healthy healthy k) \<longrightarrow> is_healthy healthy j)"
    using by_score.pick_preferred [of i r "home_eligible r"] assms(1,2) by simp
  with False assms(3) show ?thesis by (auto simp: select_home_with_sequence_def unwrap_or_def)
qed

definition ex_router :: "HomeStrategy \<Rightarrow> PoolRouter" where
  "ex_router s =
     PoolRouter_new
       [\<lparr>rm_model_id = ''a'', rm_role = Member, rm_weight = 1\<rparr>,
        \<lparr>rm_model_id = ''b'', rm_role = FailoverOnly, rm_weight = 1\<rparr>,
        \<lparr>rm_model_id = ''c'', rm_role = Member, rm_weight = 3\<rparr>]
       \<lparr>home = s, sticky_scope = ScopeThread\<rparr> PoolSwitchPolicy_default"

theorem home_is_eligible_and_healthy_witness:
  "home_eligible (ex_router FirstHealthy)
     (select_home_with_sequence (\<lambda>h w. 0) (ex_router FirstHealthy) ''k'' [False, True, True] None)"
  using home_is_eligible_and_healthy [of 0 "ex_router FirstHealthy", OF _ _ refl]
  by (simp add: ex_router_def PoolRouter_new_def home_eligible_def)

text \<open>
  Failover selection moves off the current member to a healthy one if there is any other healthy
  member, of whatever role, and reports none exactly when there is not.
\<close>

theorem failover_is_healthy_alternative:
  "(\<forall>j. select_failover shape r key cur healthy = Some j \<longrightarrow>
      j < length (pr_members r) \<and> j \<noteq> cur \<and> is_healthy healthy j)
   \<and> (select_failover shape r key cur healthy = None \<longleftrightarrow>
      \<not> (\<exists>j < length (pr_members r). j \<noteq> cur \<and> is_healthy healthy j))"
  using by_score.pick_sound [of shape r key "\<lambda>idx. idx \<noteq> cur \<and> is_healthy healthy idx"]
    by_score.pick_None_iff [of shape r key "\<lambda>idx. idx \<noteq> cur \<and> is_healthy healthy idx"]
  unfolding select_failover_def by blast

theorem failover_is_healthy_alternative_witness:
  "select_failover (\<lambda>h w. 0) (ex_router Deterministic) ''k'' 0 [True, False, False] = None"
  using failover_is_healthy_alternative [of "\<lambda>h w. 0" "ex_router Deterministic" "''k''" 0 "[True, False, False]"]
  by (auto simp: ex_router_def PoolRouter_new_def is_healthy_def less_Suc_eq nth_Cons')

text \<open>
  Rendezvous routing is minimally disruptive: when other members turn unhealthy the home of a
  session stays where it was, as long as its own member is healthy. Only sessions homed on a failed
  member move.
\<close>

theorem home_stable_under_failures:
  assumes "home (pr_routing r) \<noteq> RoundRobin"
    and "best_by_score shape r key (\<lambda>idx. home_eligible r idx \<and> is_healthy healthy idx) = Some h"
    and "\<And>i. is_healthy healthy' i \<Longrightarrow> is_healthy healthy i" and "is_healthy healthy' h"
  shows "select_home shape r key healthy = h \<and> select_home shape r key healthy' = h"
proof -
  have "best_by_score shape r key (\<lambda>idx. home_eligible r idx \<and> is_healthy healthy' idx) = Some h"
    using assms(2-4) by (auto simp: best_by_score_winner)
  with assms(1,2) show ?thesis
    by (simp add: select_home_def select_home_with_sequence_def unwrap_or_def)
qed

theorem home_stable_under_failures_witness:
  "select_home (\<lambda>h w. 0) (ex_router FirstHealthy) ''k'' [True, True, False] = 0"
proof -
  have "best_by_score (\<lambda>h w. 0) (ex_router FirstHealthy) ''k''
      (\<lambda>idx. home_eligible (ex_router FirstHealthy) idx \<and> is_healthy [True, True, True] idx) = Some 0"
    by (simp add: best_by_score_def ex_router_def PoolRouter_new_def home_eligible_def is_healthy_def
        member_score_def upt_rec)
  moreover have "home (pr_routing (ex_router FirstHealthy)) \<noteq> RoundRobin"
    by (simp add: ex_router_def PoolRouter_new_def)
  moreover have "is_healthy [True, True, True] i" for i
    by (auto simp: is_healthy_def nth_Cons split: nat.split)
  moreover have "is_healthy [True, True, False] 0" by (simp add: is_healthy_def)
  ultimately show ?thesis using home_stable_under_failures by blast
qed

text \<open>
  Weighted round robin is fair: over any full turn of as many sequence numbers as there is total
  weight, each accepted member is chosen exactly as often as its weight says.
\<close>

theorem round_robin_fair:
  assumes "i < length (pr_members r)" and "accept i"
    and "turn = sum_list (map snd (accepted_weights r accept))"
  shows "card {s. s < turn \<and> rr_choose r accept s = Some i} = unat (max (rm_weight (pr_members r ! i)) 1)"
proof -
  let ?ms = "accepted_weights r accept"
  have mem: "(i, unat (max (rm_weight (pr_members r ! i)) 1)) \<in> set ?ms"
    using assms(1,2) by (auto simp: accepted_weights_def)
  then have pos: "turn \<noteq> 0" using total_weight_zero [of r accept] assms(3) by auto
  have "distinct (map fst ?ms)" by (simp add: accepted_weights_def comp_def)
  moreover have "{s. s < turn \<and> rr_choose r accept s = Some i} = {s. s < turn \<and> rr_walk ?ms s = Some i}"
    using assms(3) pos by (auto simp: rr_choose_def Let_def)
  ultimately show ?thesis using card_rr_walk [OF _ mem] assms(3) by simp
qed

theorem round_robin_fair_witness:
  "card {s. s < sum_list (map snd (accepted_weights (ex_router RoundRobin) (home_eligible (ex_router RoundRobin)))) \<and>
     rr_choose (ex_router RoundRobin) (home_eligible (ex_router RoundRobin)) s = Some 2} = 3"
proof -
  have "unat (max (rm_weight (pr_members (ex_router RoundRobin) ! 2)) 1) = 3" by code_simp
  with round_robin_fair [of 2 "ex_router RoundRobin" "home_eligible (ex_router RoundRobin)", OF _ _ refl]
  show ?thesis by (simp add: ex_router_def PoolRouter_new_def home_eligible_def)
qed

text \<open>
  A pool leaves a member at once only for a reason that lies with the member: a switch-worthy
  error is a quota signal, with its threshold met, or a permanent member error. Timeouts, provider
  errors, interrupted streams and request errors never switch.
\<close>

theorem switch_only_on_member_errors:
  "should_switch_on_error r err \<longleftrightarrow>
    (\<exists>msg hint. (err = RateLimited msg hint \<or> err = Overloaded msg hint) \<and> on_quota (pr_switch r) \<and>
       (\<forall>t h. quota_retry_after_threshold_secs (pr_switch r) = Some t \<longrightarrow> hint = Some h \<longrightarrow>
          unat t * 10 ^ 9 \<le> h))
    \<or> (\<exists>msg. (err = Unauthorized msg \<or> err = ModelNotFound msg) \<and> on_permanent (pr_switch r))"
proof -
  have "quota_threshold_met r hint \<longleftrightarrow>
      (\<forall>t h. quota_retry_after_threshold_secs (pr_switch r) = Some t \<longrightarrow> hint = Some h \<longrightarrow>
         unat t * 10 ^ 9 \<le> h)" for hint
    by (auto simp: quota_threshold_met_def less_eq_div_iff_mult_less_eq split: option.split)
  then show ?thesis by (cases err) simp_all
qed

theorem switch_only_on_member_errors_witness:
  "\<not> should_switch_on_error (ex_router Deterministic) (Timeout ''t'' :: nat InferenceExecutionError)"
  using switch_only_on_member_errors [of "ex_router Deterministic" "Timeout ''t'' :: nat InferenceExecutionError"]
  by simp

end
