(* ===== verification/Circuit_Breaker.thy ===== *)
theory Circuit_Breaker
  imports Inference_Error
begin

text \<open>
  The per-model circuit breaker (\<^verbatim>\<open>awaken-runtime/src/engine/circuit_breaker.rs\<close>). Time is an
  argument: \<open>now\<close> is what \<open>Instant::now\<close> returns during the call, in nanoseconds, and
  \<open>elapsed\<close> is the truncated difference, as in the standard library. Each method holds the write
  lock for its whole body.
\<close>

section \<open>State\<close>

datatype CircuitStatus = CB_Closed | CB_Open | CB_HalfOpen

record CircuitState =
  consecutive_failures :: u32
  last_failure :: nat
  cb_status :: CircuitStatus
  half_open_attempts :: u32

definition CircuitState_new :: "nat \<Rightarrow> CircuitState" where
  "CircuitState_new now =
     \<lparr>consecutive_failures = 0, last_failure = now, cb_status = CB_Closed, half_open_attempts = 0\<rparr>"

record CircuitBreakerConfig =
  failure_threshold :: u32
  cooldown :: nat
  half_open_max :: u32

definition CircuitBreakerConfig_default :: CircuitBreakerConfig where
  "CircuitBreakerConfig_default =
     \<lparr>failure_threshold = 5, cooldown = 30 * 10 ^ 9, half_open_max = 1\<rparr>"

record CircuitBreaker =
  cb_states :: "(string, CircuitState) hash_map"
  cb_config :: CircuitBreakerConfig

definition CircuitBreaker_new :: "CircuitBreakerConfig \<Rightarrow> CircuitBreaker" where
  "CircuitBreaker_new config = \<lparr>cb_states = [], cb_config = config\<rparr>"

text \<open>\<open>entry(model).or_insert_with(CircuitState::new)\<close>\<close>

definition entry_state :: "string \<Rightarrow> nat \<Rightarrow> CircuitBreaker \<Rightarrow> CircuitState" where
  "entry_state model now cb =
     (case map_of (cb_states cb) model of None \<Rightarrow> CircuitState_new now | Some s \<Rightarrow> s)"

definition put_state :: "string \<Rightarrow> CircuitState \<Rightarrow> CircuitBreaker \<Rightarrow> CircuitBreaker" where
  "put_state model s cb = cb\<lparr>cb_states := AList.update model s (cb_states cb)\<rparr>"

definition cooled_down :: "nat \<Rightarrow> CircuitBreaker \<Rightarrow> CircuitState \<Rightarrow> bool" where
  "cooled_down now cb s \<longleftrightarrow> now - last_failure s \<ge> cooldown (cb_config cb)"

section \<open>Operations\<close>

definition cb_rejection :: "string \<Rightarrow> 'v InferenceExecutionError" where
  "cb_rejection model = Provider (''circuit breaker open for model '' @ model)"

definition cb_check ::
  "string \<Rightarrow> nat \<Rightarrow> CircuitBreaker \<Rightarrow> (unit, 'v InferenceExecutionError) outcome \<times> CircuitBreaker" where
  "cb_check model now cb =
     (let s = entry_state model now cb in
      case cb_status s of
        CB_Closed \<Rightarrow> (Ok (), put_state model s cb)
      | CB_Open \<Rightarrow>
          if cooled_down now cb s
          then (Ok (), put_state model (s\<lparr>cb_status := CB_HalfOpen, half_open_attempts := 1\<rparr>) cb)
          else (Err (cb_rejection model), put_state model s cb)
      | CB_HalfOpen \<Rightarrow>
          if half_open_attempts s < half_open_max (cb_config cb)
          then (Ok (), put_state model (s\<lparr>half_open_attempts := half_open_attempts s + 1\<rparr>) cb)
          else (Err (cb_rejection model), put_state model s cb))"

definition cb_is_available :: "string \<Rightarrow> nat \<Rightarrow> CircuitBreaker \<Rightarrow> bool" where
  "cb_is_available model now cb =
     (case map_of (cb_states cb) model of
        None \<Rightarrow> True
      | Some s \<Rightarrow>
          (case cb_status s of
             CB_Closed \<Rightarrow> True
           | CB_Open \<Rightarrow> cooled_down now cb s
           | CB_HalfOpen \<Rightarrow> half_open_attempts s < half_open_max (cb_config cb)))"

definition cb_record_success :: "string \<Rightarrow> CircuitBreaker \<Rightarrow> CircuitBreaker" where
  "cb_record_success model cb =
     (case map_of (cb_states cb) model of
        None \<Rightarrow> cb
      | Some s \<Rightarrow>
          put_state model
            (s\<lparr>consecutive_failures := 0, half_open_attempts := 0, cb_status := CB_Closed\<rparr>) cb)"

definition cb_record_failure :: "string \<Rightarrow> nat \<Rightarrow> CircuitBreaker \<Rightarrow> CircuitBreaker" where
  "cb_record_failure model now cb =
     (let s = entry_state model now cb;
          s1 = s\<lparr>consecutive_failures := consecutive_failures s + 1, last_failure := now\<rparr>;
          s2 = (if cb_status s1 = CB_HalfOpen then s1\<lparr>cb_status := CB_Open\<rparr>
                else if consecutive_failures s1 \<ge> failure_threshold (cb_config cb)
                     then s1\<lparr>cb_status := CB_Open\<rparr>
                else s1)
      in put_state model s2 cb)"

definition cb_record_abandoned_probe :: "string \<Rightarrow> nat \<Rightarrow> CircuitBreaker \<Rightarrow> CircuitBreaker" where
  "cb_record_abandoned_probe model now cb =
     (case map_of (cb_states cb) model of
        None \<Rightarrow> cb
      | Some s \<Rightarrow>
          if cb_status s = CB_HalfOpen
          then put_state model
                 (s\<lparr>cb_status := CB_Open, half_open_attempts := 0, last_failure := now\<rparr>) cb
          else cb)"

section \<open>The contract its clients rely on\<close>

text \<open>
  A health monitor at one instant: the read-only peek agrees with the admitting check, every
  operation is local to its model, and a success makes the model available.
\<close>

locale health_monitor =
  fixes check :: "string \<Rightarrow> 'b \<Rightarrow> (unit, 'e) outcome \<times> 'b"
    and available :: "string \<Rightarrow> 'b \<Rightarrow> bool"
    and success :: "string \<Rightarrow> 'b \<Rightarrow> 'b"
    and failure :: "string \<Rightarrow> 'b \<Rightarrow> 'b"
  assumes check_iff: "fst (check m b) = Ok () \<longleftrightarrow> available m b"
    and check_no_panic: "\<not> is_panic (fst (check m b))"
    and check_local: "m' \<noteq> m \<Longrightarrow> available m' (snd (check m b)) = available m' b"
    and success_available: "available m (success m b)"
    and success_local: "m' \<noteq> m \<Longrightarrow> available m' (success m b) = available m' b"
    and failure_local: "m' \<noteq> m \<Longrightarrow> available m' (failure m b) = available m' b"
begin

lemma check_err: "\<not> available m b \<Longrightarrow> \<exists>e. fst (check m b) = Err e"
  using check_iff [of m b] check_no_panic [of m b] by (cases "fst (check m b)") auto

lemma check_admits: "available m b \<Longrightarrow> check m b = (Ok (), snd (check m b))"
  using check_iff by (metis prod.collapse)

text \<open>The health of the other models survives any run of calls on one model.\<close>

lemma fold_success_local:
  "m' \<notin> set ms \<Longrightarrow> available m' (fold success ms b) = available m' b"
  by (induction ms arbitrary: b) (simp_all add: success_local)

end

lemma put_state_simps [simp]:
  "map_of (cb_states (put_state m s cb)) m' = (if m' = m then Some s else map_of (cb_states cb) m')"
  "cb_config (put_state m s cb) = cb_config cb"
  by (simp_all add: put_state_def)

lemma cooled_down_put [simp]: "cooled_down now (put_state m s cb) = cooled_down now cb"
  by (simp add: cooled_down_def fun_eq_iff)

lemma cb_config_check [simp]: "cb_config (snd (cb_check m now cb)) = cb_config cb"
  by (simp add: cb_check_def Let_def split: CircuitStatus.split)

lemma cb_config_record [simp]:
  "cb_config (cb_record_success m cb) = cb_config cb"
  "cb_config (cb_record_failure m now cb) = cb_config cb"
  "cb_config (cb_record_abandoned_probe m now cb) = cb_config cb"
  by (simp_all add: cb_record_success_def cb_record_failure_def cb_record_abandoned_probe_def Let_def
      split: option.split)

lemma cb_available_entry:
  "cb_is_available m now cb \<longleftrightarrow>
    (case cb_status (entry_state m now cb) of
       CB_Closed \<Rightarrow> True
     | CB_Open \<Rightarrow> cooled_down now cb (entry_state m now cb)
     | CB_HalfOpen \<Rightarrow> half_open_attempts (entry_state m now cb) < half_open_max (cb_config cb))"
  by (cases "map_of (cb_states cb) m")
    (simp_all add: cb_is_available_def entry_state_def CircuitState_new_def cong: CircuitStatus.case_cong)

lemma cb_check_iff: "fst (cb_check m now cb) = Ok () \<longleftrightarrow> cb_is_available m now cb"
  unfolding cb_available_entry by (simp add: cb_check_def Let_def split: CircuitStatus.split)

lemma cb_available_put:
  "m' \<noteq> m \<Longrightarrow> cb_is_available m' now (put_state m s cb) = cb_is_available m' now cb"
  by (simp add: cb_is_available_def split: option.split CircuitStatus.split)

interpretation cb: health_monitor "\<lambda>m. cb_check m now" "\<lambda>m. cb_is_available m now"
  cb_record_success "\<lambda>m. cb_record_failure m now" for now
proof
  fix m m' cb
  show "fst (cb_check m now cb :: (unit, 'a InferenceExecutionError) outcome \<times> _) = Ok () \<longleftrightarrow>
      cb_is_available m now cb" by (rule cb_check_iff)
  show "\<not> is_panic (fst (cb_check m now cb :: (unit, 'a InferenceExecutionError) outcome \<times> _))"
    by (simp add: cb_check_def Let_def split: CircuitStatus.split)
  show "cb_is_available m now (cb_record_success m cb)"
    by (simp add: cb_record_success_def cb_is_available_def split: option.split)
  assume "m' \<noteq> m"
  then show "cb_is_available m' now (snd (cb_check m now cb :: (unit, 'a InferenceExecutionError) outcome \<times> _)) =
      cb_is_available m' now cb"
    and "cb_is_available m' now (cb_record_success m cb) = cb_is_available m' now cb"
    and "cb_is_available m' now (cb_record_failure m now cb) = cb_is_available m' now cb"
    by (simp_all add: cb_check_def cb_record_success_def cb_record_failure_def Let_def
        cb_available_put split: CircuitStatus.split option.split)
qed

section \<open>Theorems\<close>

definition fail_at :: "string \<Rightarrow> CircuitBreaker \<Rightarrow> nat \<Rightarrow> CircuitBreaker" where
  "fail_at m cb now = cb_record_failure m now cb"

lemma of_nat_Suc_word: "of_nat (Suc n) = (of_nat n + 1 :: 'a::len word)"
  by simp

lemma le_of_nat_iff:
  "n < 2 ^ LENGTH('a) \<Longrightarrow> a \<le> (of_nat n :: 'a::len word) \<longleftrightarrow> unat a \<le> n"
  by (simp add: word_le_nat_alt unat_of_nat take_bit_nat_eq_self)

text \<open>The state after a run of failures that starts on an unknown model.\<close>

lemma failures_state:
  assumes "map_of (cb_states cb) m = None" and "ts \<noteq> []" and "length ts < 2 ^ 32"
  shows "map_of (cb_states (foldl (fail_at m) cb ts)) m = Some
    \<lparr>consecutive_failures = of_nat (length ts), last_failure = last ts,
     cb_status = (if unat (failure_threshold (cb_config cb)) \<le> length ts then CB_Open else CB_Closed),
     half_open_attempts = 0\<rparr> \<and> cb_config (foldl (fail_at m) cb ts) = cb_config cb"
  using assms(2,3)
proof (induction ts rule: rev_induct)
  case (snoc t ts)
  let ?th = "failure_threshold (cb_config cb)"
  have w: "?th \<le> of_nat (length ts) + 1 \<longleftrightarrow> unat ?th \<le> Suc (length ts)"
    unfolding of_nat_Suc_word [symmetric] by (rule le_of_nat_iff) (use snoc.prems in simp)
  show ?case
  proof (cases "ts = []")
    case True
    then show ?thesis
      using assms(1) w
      by (simp add: fail_at_def cb_record_failure_def entry_state_def CircuitState_new_def Let_def)
  next
    case False
    then show ?thesis
      using snoc.IH snoc.prems w
      by (simp add: fail_at_def cb_record_failure_def entry_state_def Let_def)
  qed
qed simp

text \<open>
  The breaker opens exactly at its threshold: after a run of failures on a fresh model it admits
  requests as before while the run is shorter than the threshold, and from the threshold on it
  rejects until the cooldown has passed since the last failure. Other models are not affected.
\<close>

theorem breaker_opens_at_threshold:
  assumes "map_of (cb_states cb) m = None" and "ts \<noteq> []" and "length ts < 2 ^ 32"
  shows "(fst (cb_check m now (foldl (fail_at m) cb ts)) = (Ok () :: (unit, 'v InferenceExecutionError) outcome)
      \<longleftrightarrow> length ts < unat (failure_threshold (cb_config cb)) \<or> cooldown (cb_config cb) \<le> now - last ts)
    \<and> (m' \<noteq> m \<longrightarrow> cb_is_available m' now (foldl (fail_at m) cb ts) = cb_is_available m' now cb)"
proof -
  have local: "cb_is_available m' now (foldl (fail_at m) cb ts) = cb_is_available m' now cb" if "m' \<noteq> m"
    using that
    by (induction ts arbitrary: cb)
      (simp_all add: fail_at_def cb_record_failure_def Let_def cb_available_put)
  show ?thesis
    unfolding cb_check_iff cb_is_available_def cooled_down_def
    using failures_state [OF assms] local [unfolded cb_is_available_def cooled_down_def] by auto
qed

theorem breaker_opens_at_threshold_witness:
  "fst (cb_check ''m'' 50 (foldl (fail_at ''m'')
      (CircuitBreaker_new \<lparr>failure_threshold = 2, cooldown = 100, half_open_max = 1\<rparr>) [10, 20])) \<noteq>
     (Ok () :: (unit, nat InferenceExecutionError) outcome)"
proof -
  let ?cb = "CircuitBreaker_new \<lparr>failure_threshold = 2, cooldown = 100, half_open_max = 1\<rparr>"
  have "map_of (cb_states ?cb) ''m'' = None" by (simp add: CircuitBreaker_new_def)
  from breaker_opens_at_threshold [where 'v = nat, OF this, of "[10, 20]" 50 "''n''"] show ?thesis
    by (simp add: CircuitBreaker_new_def)
qed

text \<open>One more admitted or rejected request at the same instant.\<close>

definition probe :: "string \<Rightarrow> nat \<Rightarrow> CircuitBreaker \<Rightarrow> CircuitBreaker" where
  "probe m now cb = snd (cb_check m now cb :: (unit, unit InferenceExecutionError) outcome \<times> CircuitBreaker)"

lemma capped_less:
  fixes M :: "'a::len word"
  shows "of_nat (min k (max 1 (unat M))) < M \<longleftrightarrow> k < unat M"
proof -
  have one: "1 < (2::nat) ^ LENGTH('a)" by (rule one_less_power) simp_all
  have "min k (max 1 (unat M)) < 2 ^ LENGTH('a)"
    using unat_bound [of M] one by (meson le_less_trans max_less_iff_conj min.cobounded2)
  then have "M \<le> of_nat (min k (max 1 (unat M))) \<longleftrightarrow> unat M \<le> min k (max 1 (unat M))"
    by (rule le_of_nat_iff)
  then show ?thesis by (simp only: not_le [symmetric]) (simp add: min_def max_def)
qed

lemma probes_state:
  assumes "map_of (cb_states cb) m = Some s" and "cb_status s = CB_Open" and "cooled_down now cb s"
  shows "map_of (cb_states ((probe m now ^^ Suc k) cb)) m =
    Some (s\<lparr>cb_status := CB_HalfOpen,
      half_open_attempts := of_nat (min (Suc k) (max 1 (unat (half_open_max (cb_config cb)))))\<rparr>)
    \<and> cb_config ((probe m now ^^ Suc k) cb) = cb_config cb"
proof (induction k)
  case 0
  then show ?case using assms by (simp add: probe_def cb_check_def entry_state_def Let_def)
next
  case (Suc k)
  let ?M = "half_open_max (cb_config cb)"
  let ?a = "of_nat (min (Suc k) (max 1 (unat ?M))) :: u32"
  have lt: "?a < ?M \<longleftrightarrow> Suc k < unat ?M" by (rule capped_less)
  show ?case
  proof (cases "Suc k < unat ?M")
    case True
    then have "min (Suc (Suc k)) (max 1 (unat ?M)) = Suc (min (Suc k) (max 1 (unat ?M)))" by auto
    with True Suc.IH lt show ?thesis
      by (simp add: probe_def cb_check_def entry_state_def Let_def)
  next
    case False
    then have "min (Suc (Suc k)) (max 1 (unat ?M)) = min (Suc k) (max 1 (unat ?M))" by auto
    with False Suc.IH lt show ?thesis
      by (simp add: probe_def cb_check_def entry_state_def Let_def)
  qed
qed

text \<open>
  Half-open probing is bounded: when the cooldown of an open circuit has passed, exactly the
  configured number of probe requests (at least one) are admitted, and every further request is
  rejected at any later time until a result is recorded. A recorded success closes the circuit, a
  recorded failure opens it again for a full cooldown.
\<close>

theorem half_open_probes_bounded:
  assumes "map_of (cb_states cb) m = Some s" and "cb_status s = CB_Open" and "cooled_down now cb s"
    and "n = max 1 (unat (half_open_max (cb_config cb)))"
  shows "(cb_is_available m now ((probe m now ^^ k) cb) \<longleftrightarrow> k < n)
    \<and> (n \<le> k \<longrightarrow> \<not> cb_is_available m later ((probe m now ^^ k) cb))
    \<and> cb_is_available m later (cb_record_success m ((probe m now ^^ Suc k) cb))
    \<and> (cb_is_available m later (cb_record_failure m now ((probe m now ^^ Suc k) cb)) \<longleftrightarrow>
         cooldown (cb_config cb) \<le> later - now)"
proof -
  let ?M = "half_open_max (cb_config cb)"
  have half: "cb_is_available m t ((probe m now ^^ Suc j) cb) \<longleftrightarrow> Suc j < unat ?M" for t j
    using probes_state [OF assms(1-3), of j] capped_less [of "Suc j" ?M]
    by (simp add: cb_is_available_def del: funpow.simps of_nat_min)
  have zero: "cb_is_available m now cb" using assms(1-3) by (simp add: cb_is_available_def)
  have fail: "cb_is_available m later (cb_record_failure m now ((probe m now ^^ Suc k) cb)) \<longleftrightarrow>
      cooldown (cb_config cb) \<le> later - now"
    using probes_state [OF assms(1-3), of k]
    by (simp add: cb_record_failure_def entry_state_def Let_def cb_is_available_def cooled_down_def)
  show ?thesis
    using half zero fail cb.success_available [of m] assms(4)
    by (cases k) (auto simp: max_def)
qed

theorem half_open_probes_bounded_witness:
  "cb_is_available ''m'' 500 (probe ''m'' 200
     (fail_at ''m'' (CircuitBreaker_new \<lparr>failure_threshold = 1, cooldown = 100, half_open_max = 1\<rparr>) 10)) = False"
proof -
  let ?cb = "fail_at ''m'' (CircuitBreaker_new \<lparr>failure_threshold = 1, cooldown = 100, half_open_max = 1\<rparr>) 10"
  have "map_of (cb_states ?cb) ''m'' =
      Some \<lparr>consecutive_failures = 1, last_failure = 10, cb_status = CB_Open, half_open_attempts = 0\<rparr>"
    "unat (half_open_max (cb_config ?cb)) = 1"
    by code_simp+
  moreover have "cooled_down 200 ?cb
      \<lparr>consecutive_failures = 1, last_failure = 10, cb_status = CB_Open, half_open_attempts = 0\<rparr>"
    by code_simp
  ultimately show ?thesis
    using half_open_probes_bounded [of ?cb "''m''" _ 200 _ 1 500] by simp
qed

end
