(* ===== verification/Retry.thy ===== *)
theory Retry
  imports Circuit_Breaker
begin

text \<open>
  The retry policy and the retrying executor (\<^verbatim>\<open>awaken-runtime/src/engine/retry.rs\<close>).

  The wrapped executor is a parameter: \<open>answer n\<close> is the outcome of its \<open>n\<close>-th call of this run
  and the time it takes. Every attempt sends the same request, so ranging over all answer
  sequences ranges over all executors, stateful ones too. The circuit breaker is shared, so what
  other holders do to it while a call or a sleep is pending is a parameter as well: \<open>env n\<close> after
  call \<open>n\<close>. Durations are nanoseconds.
\<close>

section \<open>Policy\<close>

definition MAX_BACKOFF_MS :: u64 where
  "MAX_BACKOFF_MS = 8000"

record LlmRetryPolicy =
  max_retries :: u32
  backoff_base_ms :: u64
  overloaded_backoff_base_ms :: u64
  max_stream_retries :: u32
  stream_idle_timeout_secs :: u64

definition LlmRetryPolicy_default :: LlmRetryPolicy where
  "LlmRetryPolicy_default =
     \<lparr>max_retries = 2, backoff_base_ms = 500, overloaded_backoff_base_ms = 2000,
      max_stream_retries = 2, stream_idle_timeout_secs = 60\<rparr>"

definition no_retry :: LlmRetryPolicy where
  "no_retry = LlmRetryPolicy_default\<lparr>max_retries := 0\<rparr>"

definition with_max_retries :: "LlmRetryPolicy \<Rightarrow> u32 \<Rightarrow> LlmRetryPolicy" where
  "with_max_retries p n = p\<lparr>max_retries := n\<rparr>"

definition with_backoff_base_ms :: "LlmRetryPolicy \<Rightarrow> u64 \<Rightarrow> LlmRetryPolicy" where
  "with_backoff_base_ms p ms = p\<lparr>backoff_base_ms := ms\<rparr>"

definition with_overloaded_backoff_base_ms :: "LlmRetryPolicy \<Rightarrow> u64 \<Rightarrow> LlmRetryPolicy" where
  "with_overloaded_backoff_base_ms p ms = p\<lparr>overloaded_backoff_base_ms := ms\<rparr>"

definition with_max_stream_retries :: "LlmRetryPolicy \<Rightarrow> u32 \<Rightarrow> LlmRetryPolicy" where
  "with_max_stream_retries p n = p\<lparr>max_stream_retries := n\<rparr>"

definition with_stream_idle_timeout_secs :: "LlmRetryPolicy \<Rightarrow> u64 \<Rightarrow> LlmRetryPolicy" where
  "with_stream_idle_timeout_secs p secs = p\<lparr>stream_idle_timeout_secs := secs\<rparr>"

definition from_millis :: "u64 \<Rightarrow> nat" where
  "from_millis ms = unat ms * 10 ^ 6"

definition backoff_delay_with_base :: "u64 \<Rightarrow> u32 \<Rightarrow> nat" where
  "backoff_delay_with_base base_ms attempt =
     (if base_ms = 0 then 0
      else from_millis
        (min (saturating_mul base_ms (push_bit (unat (min attempt 16)) 1)) MAX_BACKOFF_MS))"

definition backoff_delay :: "LlmRetryPolicy \<Rightarrow> u32 \<Rightarrow> nat" where
  "backoff_delay p attempt = backoff_delay_with_base (backoff_base_ms p) attempt"

definition overloaded_backoff_delay :: "LlmRetryPolicy \<Rightarrow> u32 \<Rightarrow> nat" where
  "overloaded_backoff_delay p attempt = backoff_delay_with_base (overloaded_backoff_base_ms p) attempt"

definition delay_before_retry :: "LlmRetryPolicy \<Rightarrow> 'v InferenceExecutionError \<Rightarrow> u32 \<Rightarrow> nat" where
  "delay_before_retry p err attempt =
     (let base = (case err of
            Overloaded _ _ \<Rightarrow> overloaded_backoff_delay p attempt
          | _ \<Rightarrow> backoff_delay p attempt)
      in case retry_after err of
           Some hint \<Rightarrow> if hint > base then hint else base
         | None \<Rightarrow> base)"

section \<open>The retrying executor\<close>

record retry_state =
  rs_breaker :: "CircuitBreaker option"
  rs_clock :: nat
  rs_calls :: nat
  rs_sleeps :: "nat list"

type_synonym ('r, 'v) answers = "nat \<Rightarrow> ('r, 'v InferenceExecutionError) outcome \<times> nat"

definition check_breaker ::
  "string \<Rightarrow> retry_state \<Rightarrow> (unit, 'v InferenceExecutionError) outcome \<times> retry_state" where
  "check_breaker model st =
     (case rs_breaker st of
        None \<Rightarrow> (Ok (), st)
      | Some cb \<Rightarrow>
          (let (r, cb') = cb_check model (rs_clock st) cb in (r, st\<lparr>rs_breaker := Some cb'\<rparr>)))"

definition call_inner ::
  "('r, 'v) answers \<Rightarrow> (nat \<Rightarrow> CircuitBreaker \<Rightarrow> CircuitBreaker) \<Rightarrow> retry_state \<Rightarrow>
   ('r, 'v InferenceExecutionError) outcome \<times> retry_state" where
  "call_inner answer env st =
     (let (r, took) = answer (rs_calls st)
      in (r, st\<lparr>rs_calls := rs_calls st + 1, rs_clock := rs_clock st + took,
                rs_breaker := map_option (env (rs_calls st)) (rs_breaker st)\<rparr>))"

definition note_success :: "string \<Rightarrow> retry_state \<Rightarrow> retry_state" where
  "note_success model st = st\<lparr>rs_breaker := map_option (cb_record_success model) (rs_breaker st)\<rparr>"

definition note_failure :: "string \<Rightarrow> 'v InferenceExecutionError \<Rightarrow> retry_state \<Rightarrow> retry_state" where
  "note_failure model err st =
     (if counts_toward_circuit_breaker err
      then st\<lparr>rs_breaker := map_option (cb_record_failure model (rs_clock st)) (rs_breaker st)\<rparr>
      else st)"

definition sleep :: "nat \<Rightarrow> retry_state \<Rightarrow> retry_state" where
  "sleep delay st =
     (if delay \<noteq> 0 then st\<lparr>rs_clock := rs_clock st + delay, rs_sleeps := rs_sleeps st @ [delay]\<rparr>
      else st)"

text \<open>\<open>Err(last_error.expect(msg))\<close>\<close>

definition after_loop :: "string \<Rightarrow> 'e option \<Rightarrow> ('r, 'e) outcome" where
  "after_loop msg last_error = (case last_error of Some e \<Rightarrow> Err e | None \<Rightarrow> Panic msg)"

fun retry_loop ::
  "string \<Rightarrow> LlmRetryPolicy \<Rightarrow> string \<Rightarrow> ('r, 'v) answers \<Rightarrow> (nat \<Rightarrow> CircuitBreaker \<Rightarrow> CircuitBreaker) \<Rightarrow>
   nat list \<Rightarrow> 'v InferenceExecutionError option \<Rightarrow> retry_state \<Rightarrow>
   ('r, 'v InferenceExecutionError) outcome \<times> retry_state" where
  "retry_loop msg policy model answer env [] last_error st = (after_loop msg last_error, st)"
| "retry_loop msg policy model answer env (attempt # attempts) last_error st =
     (case check_breaker model st of
        (Err e, st1) \<Rightarrow> (Err e, st1)
      | (Panic p, st1) \<Rightarrow> (Panic p, st1)
      | (Ok _, st1) \<Rightarrow>
          (case call_inner answer env st1 of
             (Ok r, st2) \<Rightarrow> (Ok r, note_success model st2)
           | (Panic p, st2) \<Rightarrow> (Panic p, st2)
           | (Err err, st2) \<Rightarrow>
               (let st3 = note_failure model err st2 in
                if \<not> is_retryable err then (Err err, st3)
                else if attempt = unat (max_retries policy) then (after_loop msg (Some err), st3)
                else retry_loop msg policy model answer env attempts (Some err)
                       (sleep (delay_before_retry policy err (of_nat attempt)) st3))))"

definition try_with_retries ::
  "LlmRetryPolicy \<Rightarrow> string \<Rightarrow> ('r, 'v) answers \<Rightarrow> (nat \<Rightarrow> CircuitBreaker \<Rightarrow> CircuitBreaker) \<Rightarrow>
   retry_state \<Rightarrow> ('r, 'v InferenceExecutionError) outcome \<times> retry_state" where
  "try_with_retries policy model answer env st =
     retry_loop ''at least one attempt was made'' policy model answer env
       [0..<Suc (unat (max_retries policy))] None st"

definition try_stream_with_retries ::
  "LlmRetryPolicy \<Rightarrow> string \<Rightarrow> ('r, 'v) answers \<Rightarrow> (nat \<Rightarrow> CircuitBreaker \<Rightarrow> CircuitBreaker) \<Rightarrow>
   retry_state \<Rightarrow> ('r, 'v InferenceExecutionError) outcome \<times> retry_state" where
  "try_stream_with_retries policy model answer env st =
     retry_loop ''at least one stream attempt was made'' policy model answer env
       [0..<Suc (unat (max_retries policy))] None st"

section \<open>Backoff\<close>

lemma unat_two_power: "k \<le> 16 \<Longrightarrow> unat (2 ^ k :: u64) = 2 ^ k"
proof -
  assume "k \<le> 16"
  then have "(2::nat) ^ k < 2 ^ 64" by (intro power_strict_increasing) simp_all
  then have "unat (of_nat (2 ^ k) :: u64) = 2 ^ k" unfolding unat_of_nat by simp
  then show ?thesis by simp
qed

lemma unat_min: "unat (min a b) = min (unat a) (unat b)" for a b :: "'a::len word"
  by (simp add: min_def word_le_nat_alt)

lemma backoff_exact:
  "backoff_delay_with_base b a = min (unat b * 2 ^ unat a) 8000 * 10 ^ 6"
proof (cases "b = 0")
  case False
  then have pos: "1 \<le> unat b" by (metis One_nat_def Suc_leI unat_gt_0)
  have "min (unat b * 2 ^ min (unat a) 16) 8000 = min (unat b * 2 ^ unat a) 8000"
  proof (cases "unat a \<le> 16")
    case big: False
    have "(2::nat) ^ 16 \<le> 2 ^ unat a" using big by (intro power_increasing) simp_all
    then have "(8000::nat) \<le> 2 ^ unat a" by simp
    with pos have "8000 \<le> unat b * 2 ^ unat a" by (metis mult_le_mono nat_mult_1)
    moreover have "8000 \<le> unat b * 2 ^ 16" using pos by simp
    ultimately show ?thesis using big by (simp add: min_def)
  qed (simp add: min_def)
  then show ?thesis
    using False
    by (simp add: backoff_delay_with_base_def from_millis_def unat_min unat_saturating_mul
        unat_two_power MAX_BACKOFF_MS_def min.assoc)
qed (simp add: backoff_delay_with_base_def)

lemma delay_before_retry_eq:
  "delay_before_retry p err a =
    max (min (unat (case err of Overloaded _ _ \<Rightarrow> overloaded_backoff_base_ms p | _ \<Rightarrow> backoff_base_ms p)
               * 2 ^ unat a) 8000 * 10 ^ 6)
        (case retry_after err of None \<Rightarrow> 0 | Some hint \<Rightarrow> hint)"
  by (cases err; simp add: delay_before_retry_def backoff_delay_def overloaded_backoff_delay_def
      backoff_exact Let_def max_def split: option.split)

lemma delay_before_retry_bound:
  assumes "\<And>d. retry_after err = Some d \<Longrightarrow> d \<le> H"
  shows "delay_before_retry p err a \<le> max (8 * 10 ^ 9) H"
proof -
  have "min n 8000 * 10 ^ 6 \<le> 8 * 10 ^ 9" for n :: nat
    using mult_le_mono1 [OF min.cobounded2 [of n 8000], of "10 ^ 6"] by simp
  moreover have "(case retry_after err of None \<Rightarrow> 0 | Some hint \<Rightarrow> hint) \<le> H"
    using assms by (simp split: option.split)
  ultimately show ?thesis unfolding delay_before_retry_eq by (intro max.mono)
qed

text \<open>
  The retry delay is the documented one, the base doubled per attempt and capped at eight
  seconds, computed without overflow for every base and attempt; it never decreases with the
  attempt, and a provider hint replaces it exactly when the hint is longer.
\<close>

theorem retry_delay_exact:
  "delay_before_retry p err a =
    max (min (unat (case err of Overloaded _ _ \<Rightarrow> overloaded_backoff_base_ms p | _ \<Rightarrow> backoff_base_ms p)
               * 2 ^ unat a) 8000 * 10 ^ 6)
        (case retry_after err of None \<Rightarrow> 0 | Some hint \<Rightarrow> hint)
   \<and> (a \<le> a' \<longrightarrow> delay_before_retry p err a \<le> delay_before_retry p err a')"
proof -
  have "min (b * 2 ^ unat a) 8000 * 10 ^ 6 \<le> min (b * 2 ^ unat a') (8000::nat) * 10 ^ 6" if "a \<le> a'" for b
  proof -
    have "(2::nat) ^ unat a \<le> 2 ^ unat a'"
      using that by (intro power_increasing) (simp_all add: word_le_nat_alt)
    then show ?thesis by (intro mult_le_mono1 min.mono mult_le_mono2) simp_all
  qed
  then show ?thesis
    unfolding delay_before_retry_eq by (intro conjI impI refl max.mono order_refl)
qed

theorem retry_delay_exact_witness:
  "delay_before_retry LlmRetryPolicy_default (Timeout ''t'' :: nat InferenceExecutionError) 1 \<le>
   delay_before_retry LlmRetryPolicy_default (Timeout ''t'' :: nat InferenceExecutionError) 40"
  using retry_delay_exact [of LlmRetryPolicy_default "Timeout ''t'' :: nat InferenceExecutionError" 1 40]
  by simp

section \<open>The retry loop\<close>

lemma step_frames [simp]:
  "rs_calls (snd (check_breaker m st)) = rs_calls st"
  "rs_sleeps (snd (check_breaker m st)) = rs_sleeps st"
  "rs_calls (snd (call_inner answer env st)) = rs_calls st + 1"
  "rs_sleeps (snd (call_inner answer env st)) = rs_sleeps st"
  "fst (call_inner answer env st) = fst (answer (rs_calls st))"
  "rs_calls (note_success m st) = rs_calls st" "rs_sleeps (note_success m st) = rs_sleeps st"
  "rs_calls (note_failure m err st) = rs_calls st" "rs_sleeps (note_failure m err st) = rs_sleeps st"
  "rs_calls (sleep d st) = rs_calls st"
  "rs_sleeps (sleep d st) = rs_sleeps st @ (if d \<noteq> 0 then [d] else [])"
  by (simp_all add: check_breaker_def call_inner_def note_success_def note_failure_def sleep_def
      Let_def split_beta split: option.split)

lemma check_breaker_no_panic:
  "\<not> is_panic (fst (check_breaker m st :: (unit, 'v InferenceExecutionError) outcome \<times> retry_state))"
  by (simp add: check_breaker_def split_beta Let_def cb.check_no_panic split: option.split)

text \<open>One pass of the loop, read off its components.\<close>

lemma retry_loop_step:
  fixes answer :: "('r, 'v) answers"
  shows "retry_loop msg p m answer env (a # as) le st =
   (let st1 = snd (check_breaker m st :: (unit, 'v InferenceExecutionError) outcome \<times> retry_state);
        st2 = snd (call_inner answer env st1)
    in case fst (check_breaker m st :: (unit, 'v InferenceExecutionError) outcome \<times> retry_state) of
         Err e \<Rightarrow> (Err e, st1)
       | Panic q \<Rightarrow> (Panic q, st1)
       | Ok _ \<Rightarrow>
           (case fst (answer (rs_calls st)) of
              Ok r \<Rightarrow> (Ok r, note_success m st2)
            | Panic q \<Rightarrow> (Panic q, st2)
            | Err err \<Rightarrow>
                if \<not> is_retryable err \<or> a = unat (max_retries p) then (Err err, note_failure m err st2)
                else retry_loop msg p m answer env as (Some err)
                       (sleep (delay_before_retry p err (of_nat a)) (note_failure m err st2))))"
proof -
  obtain o1 st1 where 1: "check_breaker m st = (o1 :: (unit, 'v InferenceExecutionError) outcome, st1)"
    by fastforce
  obtain o2 st2 where 2: "call_inner answer env st1 = (o2, st2)" by fastforce
  have "fst (answer (rs_calls st)) = o2"
    using 1 2 step_frames(1) [of m st, where 'a = 'v] step_frames(5) [of answer env st1] by simp
  with 1 2 show ?thesis
    by (cases o1; cases o2) (simp_all add: Let_def after_loop_def)
qed

lemma upt_Cons: "k \<le> M \<Longrightarrow> [k..<Suc M] = k # [Suc k..<Suc M]"
  by (simp add: upt_rec [of k])

lemma retry_loop_bounds:
  fixes answer :: "('r, 'v) answers"
  assumes np: "\<And>n. \<not> is_panic (fst (answer n))"
    and dl: "\<And>n e a. fst (answer n) = Err e \<Longrightarrow> P (delay_before_retry p e a)"
    and "k \<le> unat (max_retries p)"
  shows "\<not> is_panic (fst (retry_loop msg p m answer env [k..<Suc (unat (max_retries p))] le st)) \<and>
    rs_calls (snd (retry_loop msg p m answer env [k..<Suc (unat (max_retries p))] le st))
      \<le> rs_calls st + (Suc (unat (max_retries p)) - k) \<and>
    (\<exists>ds. rs_sleeps (snd (retry_loop msg p m answer env [k..<Suc (unat (max_retries p))] le st)) =
        rs_sleeps st @ ds \<and> length ds \<le> unat (max_retries p) - k \<and> (\<forall>d \<in> set ds. P d))"
  using assms(3)
proof (induction "unat (max_retries p) - k" arbitrary: k le st)
  case 0
  then have k: "k = unat (max_retries p)" by simp
  show ?case
    using np [of "rs_calls st"] check_breaker_no_panic [of m st, where 'v = 'v]
    unfolding upt_Cons [OF "0.prems"] retry_loop_step
    by (cases "fst (check_breaker m st :: (unit, 'v InferenceExecutionError) outcome \<times> retry_state)";
        cases "fst (answer (rs_calls st))") (simp_all add: k Let_def)
next
  case (Suc n)
  let ?M = "unat (max_retries p)"
  have k: "Suc k \<le> ?M" "k \<noteq> ?M" "n = ?M - Suc k" using Suc.hyps(2) by simp_all
  note IH = Suc.hyps(1) [OF k(3) k(1)]
  show ?case
  proof (cases "fst (check_breaker m st :: (unit, 'v InferenceExecutionError) outcome \<times> retry_state)")
    case (Ok u)
    show ?thesis
    proof (cases "fst (answer (rs_calls st))")
      case (Err err)
      let ?st = "sleep (delay_before_retry p err (of_nat k)) (note_failure m err (snd (call_inner answer env
        (snd (check_breaker m st :: (unit, 'v InferenceExecutionError) outcome \<times> retry_state)))))"
      from IH [of "Some err" ?st] obtain ds where
        "rs_sleeps (snd (retry_loop msg p m answer env [Suc k..<Suc ?M] (Some err) ?st)) =
          rs_sleeps ?st @ ds" "length ds \<le> ?M - Suc k" "\<forall>d \<in> set ds. P d" by blast
      with IH [of "Some err" ?st] dl [OF Err] k show ?thesis
        unfolding upt_Cons [OF Suc.prems] retry_loop_step
        by (auto simp: Let_def Ok Err simp del: retry_loop.simps upt_Suc)
    qed (use k np [of "rs_calls st"] in \<open>simp_all add: upt_Cons [OF Suc.prems] retry_loop_step Let_def Ok
        del: retry_loop.simps upt_Suc\<close>)
  qed (use check_breaker_no_panic [of m st, where 'v = 'v] in \<open>simp_all add: upt_Cons [OF Suc.prems]
      retry_loop_step Let_def del: retry_loop.simps upt_Suc\<close>)
qed

lemma try_with_retries_calls:
  fixes answer :: "('r, 'v) answers"
  assumes "\<And>n. \<not> is_panic (fst (answer n))"
  shows "\<not> is_panic (fst (try_with_retries p m answer env st))"
    and "rs_calls (snd (try_with_retries p m answer env st)) \<le> rs_calls st + Suc (unat (max_retries p))"
  using retry_loop_bounds [of answer "\<lambda>_. True" p 0 "''at least one attempt was made''" m env None st] assms
  by (simp_all add: try_with_retries_def del: retry_loop.simps upt_Suc)

text \<open>
  Retrying is bounded and cannot panic: whatever the inner executor answers and whatever other
  holders do to the shared breaker, a call makes at most \<open>max_retries + 1\<close> attempts and at most
  \<open>max_retries\<close> sleeps, none longer than eight seconds or the longest provider hint, and the
  \<open>expect\<close> at its end never fires.
\<close>

theorem retries_bounded:
  fixes answer :: "('r, 'v) answers"
  assumes "\<And>n. \<not> is_panic (fst (answer n))"
    and "\<And>n e d. fst (answer n) = Err e \<Longrightarrow> retry_after e = Some d \<Longrightarrow> d \<le> H"
    and "try_with_retries p m answer env st = (r, st')"
  shows "\<not> is_panic r \<and> rs_calls st' \<le> rs_calls st + unat (max_retries p) + 1 \<and>
    (\<exists>ds. rs_sleeps st' = rs_sleeps st @ ds \<and> length ds \<le> unat (max_retries p) \<and>
      (\<forall>d \<in> set ds. d \<le> max (8 * 10 ^ 9) H))"
proof -
  have "delay_before_retry p e a \<le> max (8 * 10 ^ 9) H" if "fst (answer n) = Err e" for n e a
    using assms(2) [OF that] by (rule delay_before_retry_bound)
  with retry_loop_bounds [of answer "\<lambda>d. d \<le> max (8 * 10 ^ 9) H" p 0 "''at least one attempt was made''"
      m env None st] assms(1,3)
  show ?thesis by (simp add: try_with_retries_def del: retry_loop.simps upt_Suc)
qed

definition ex_retry :: retry_state where
  "ex_retry = \<lparr>rs_breaker = None, rs_clock = 0, rs_calls = 0, rs_sleeps = []\<rparr>"

theorem retries_bounded_witness:
  "rs_calls (snd (try_with_retries LlmRetryPolicy_default ''m''
     ((\<lambda>n. (Err (Timeout ''t''), 1)) :: (unit, unit) answers) (\<lambda>_. id) ex_retry)) \<le> 3"
proof -
  let ?a = "(\<lambda>n. (Err (Timeout ''t''), 1)) :: (unit, unit) answers"
  obtain r st' where "try_with_retries LlmRetryPolicy_default ''m'' ?a (\<lambda>_. id) ex_retry = (r, st')"
    by fastforce
  moreover have "unat (max_retries LlmRetryPolicy_default) = 2" by code_simp
  moreover have "\<not> is_panic (fst (?a n))" for n by simp
  moreover have "d \<le> 0" if "fst (?a n) = Err e" "retry_after e = Some d" for n e d
    using that by auto
  ultimately show ?thesis
    using retries_bounded [of ?a 0 LlmRetryPolicy_default "''m''" "\<lambda>_. id" ex_retry r st']
    by (simp add: ex_retry_def)
qed

lemma no_breaker_steps [simp]:
  "rs_breaker st = None \<Longrightarrow> check_breaker m st = (Ok (), st)"
  "rs_breaker st = None \<Longrightarrow> rs_breaker (snd (call_inner answer env st)) = None"
  "rs_breaker st = None \<Longrightarrow> rs_breaker (note_failure m err st) = None"
  "rs_breaker (sleep d st) = rs_breaker st"
  by (simp_all add: check_breaker_def call_inner_def note_failure_def sleep_def split_beta Let_def)

text \<open>An answer the loop returns at attempt \<open>a\<close>: a result, a permanent error, or any error at the end.\<close>

definition final_answer :: "LlmRetryPolicy \<Rightarrow> nat \<Rightarrow> ('r, 'v InferenceExecutionError) outcome \<Rightarrow> bool" where
  "final_answer p a r =
     (case r of Ok _ \<Rightarrow> True | Err e \<Rightarrow> \<not> is_retryable e \<or> a = unat (max_retries p) | Panic _ \<Rightarrow> False)"

lemma retry_loop_final:
  fixes answer :: "('r, 'v) answers"
  assumes "rs_breaker st = None" and "k + n \<le> unat (max_retries p)"
    and "\<And>i. i < n \<Longrightarrow> \<exists>e. fst (answer (rs_calls st + i)) = Err e \<and> is_retryable e"
    and "final_answer p (k + n) (fst (answer (rs_calls st + n)))"
  shows "fst (retry_loop msg p m answer env [k..<Suc (unat (max_retries p))] le st) =
      fst (answer (rs_calls st + n)) \<and>
    rs_calls (snd (retry_loop msg p m answer env [k..<Suc (unat (max_retries p))] le st)) =
      rs_calls st + n + 1"
  using assms
proof (induction n arbitrary: k st le)
  case 0
  then have k: "k \<le> unat (max_retries p)" by simp
  show ?case
    using "0.prems"(1,4) unfolding upt_Cons [OF k] retry_loop_step
    by (cases "fst (answer (rs_calls st))") (simp_all add: final_answer_def Let_def)
next
  case (Suc n)
  then have k: "k \<le> unat (max_retries p)" "k \<noteq> unat (max_retries p)" by simp_all
  obtain e where e: "fst (answer (rs_calls st)) = Err e" "is_retryable e"
    using Suc.prems(3) [of 0] by auto
  let ?st = "sleep (delay_before_retry p e (of_nat k)) (note_failure m e (snd (call_inner answer env st)))"
  have "fst (retry_loop msg p m answer env [Suc k..<Suc (unat (max_retries p))] (Some e) ?st) =
      fst (answer (rs_calls ?st + n)) \<and>
    rs_calls (snd (retry_loop msg p m answer env [Suc k..<Suc (unat (max_retries p))] (Some e) ?st)) =
      rs_calls ?st + n + 1"
  proof (rule Suc.IH)
    show "\<exists>e. fst (answer (rs_calls ?st + i)) = Err e \<and> is_retryable e" if "i < n" for i
      using Suc.prems(3) [of "Suc i"] that by simp
  qed (use Suc.prems in simp_all)
  then show ?case
    using Suc.prems(1) e k(2) unfolding upt_Cons [OF k(1)] retry_loop_step
    by (simp add: Let_def del: retry_loop.simps upt_Suc)
qed

text \<open>
  Without a breaker the executor returns the first answer that is worth returning: after any
  number of transient errors within the budget it gives back the first result or the first permanent
  error, and when every attempt fails transiently, the error of the last one, having called the inner
  executor exactly that often. Opening a stream follows the same rule.
\<close>

theorem retry_returns_first_final:
  fixes answer :: "('r, 'v) answers"
  assumes "rs_breaker st = None" and "n \<le> unat (max_retries p)"
    and "\<And>i. i < n \<Longrightarrow> \<exists>e. fst (answer (rs_calls st + i)) = Err e \<and> is_retryable e"
    and "final_answer p n (fst (answer (rs_calls st + n)))"
  shows "fst (try_with_retries p m answer env st) = fst (answer (rs_calls st + n))
    \<and> rs_calls (snd (try_with_retries p m answer env st)) = rs_calls st + n + 1
    \<and> fst (try_stream_with_retries p m answer env st) = fst (answer (rs_calls st + n))"
  using retry_loop_final [of st 0 n p answer] assms
  by (simp add: try_with_retries_def try_stream_with_retries_def del: retry_loop.simps upt_Suc)

theorem retry_returns_first_final_witness:
  "fst (try_with_retries LlmRetryPolicy_default ''m''
     ((\<lambda>n. (if n = 0 then Err (Timeout ''t'') else Ok n, 1)) :: (nat, unit) answers) (\<lambda>_. id) ex_retry) = Ok 1"
proof -
  let ?a = "(\<lambda>n. (if n = 0 then Err (Timeout ''t'') else Ok n, 1)) :: (nat, unit) answers"
  have "unat (max_retries LlmRetryPolicy_default) = 2" by code_simp
  then show ?thesis
    using retry_returns_first_final [of ex_retry 1 LlmRetryPolicy_default ?a "''m''" "\<lambda>_. id"]
    by (simp add: ex_retry_def final_answer_def)
qed

text \<open>
  A breaker that rejects keeps the request away from the provider: the executor returns the
  rejection, makes no call and does not sleep.
\<close>

theorem open_breaker_blocks_calls:
  fixes answer :: "('r, 'v) answers"
  assumes "rs_breaker st = Some cb" and "\<not> cb_is_available m (rs_clock st) cb"
  shows "fst (try_with_retries p m answer env st) = Err (cb_rejection m)
    \<and> rs_calls (snd (try_with_retries p m answer env st)) = rs_calls st
    \<and> rs_sleeps (snd (try_with_retries p m answer env st)) = rs_sleeps st"
proof -
  have "fst (cb_check m (rs_clock st) cb :: (unit, 'v InferenceExecutionError) outcome \<times> _) = Err (cb_rejection m)"
    using assms(2) unfolding cb_available_entry
    by (simp add: cb_check_def Let_def split: CircuitStatus.splits)
  then have "fst (check_breaker m st :: (unit, 'v InferenceExecutionError) outcome \<times> _) = Err (cb_rejection m)"
    using assms(1) by (simp add: check_breaker_def split_beta Let_def)
  then show ?thesis
    unfolding try_with_retries_def upt_Cons [OF le0] retry_loop_step by (simp add: Let_def)
qed

definition ex_open_breaker :: CircuitBreaker where
  "ex_open_breaker =
     fail_at ''m'' (CircuitBreaker_new \<lparr>failure_threshold = 1, cooldown = 100, half_open_max = 1\<rparr>) 10"

theorem open_breaker_blocks_calls_witness:
  "fst (try_with_retries LlmRetryPolicy_default ''m'' ((\<lambda>n. (Ok n, 1)) :: (nat, unit) answers) (\<lambda>_. id)
     (ex_retry\<lparr>rs_breaker := Some ex_open_breaker, rs_clock := 50\<rparr>)) = Err (cb_rejection ''m'')"
proof -
  have "\<not> cb_is_available ''m'' 50 ex_open_breaker" by code_simp
  then show ?thesis
    using open_breaker_blocks_calls [of "ex_retry\<lparr>rs_breaker := Some ex_open_breaker, rs_clock := 50\<rparr>"
        ex_open_breaker "''m''" LlmRetryPolicy_default "(\<lambda>n. (Ok n, 1)) :: (nat, unit) answers" "\<lambda>_. id"]
    by simp
qed

text \<open>
  A half-open probe that ends in a permanent error is never resolved: the error does not count
  as a failure and is no success, so the breaker stays half-open with its probe spent and rejects the
  model at every later time, although the cooldown has long passed.
\<close>

theorem permanent_error_wedges_breaker:
  assumes "wedged = snd (try_with_retries LlmRetryPolicy_default ''m''
      ((\<lambda>n. (Err (InvalidRequest ''bad''), 1)) :: (unit, unit) answers) (\<lambda>_. id)
      (ex_retry\<lparr>rs_breaker := Some ex_open_breaker, rs_clock := 200\<rparr>))"
  shows "\<exists>cb. rs_breaker wedged = Some cb \<and> (\<forall>later. \<not> cb_is_available ''m'' later cb)"
proof -
  have "map_option (\<lambda>cb. (map_of (cb_states cb) ''m'', half_open_max (cb_config cb))) (rs_breaker wedged) =
      Some (Some \<lparr>consecutive_failures = 1, last_failure = 10, cb_status = CB_HalfOpen,
        half_open_attempts = 1\<rparr>, 1)"
    unfolding assms by code_simp
  then show ?thesis by (auto simp: cb_is_available_def)
qed

theorem permanent_error_wedges_breaker_witness:
  "\<exists>cb. rs_breaker (snd (try_with_retries LlmRetryPolicy_default ''m''
      ((\<lambda>n. (Err (InvalidRequest ''bad''), 1)) :: (unit, unit) answers) (\<lambda>_. id)
      (ex_retry\<lparr>rs_breaker := Some ex_open_breaker, rs_clock := 200\<rparr>))) = Some cb \<and>
    \<not> cb_is_available ''m'' (10 ^ 12) cb"
  using permanent_error_wedges_breaker [OF refl] by blast

end
