(* ===== verification/Pool_Executor.thy ===== *)
theory Pool_Executor
  imports Pool_Router Retry
begin

text \<open>
  The pool executor: a model pool behind the single-model executor interface
  (\<^verbatim>\<open>awaken-runtime/src/engine/pool_executor.rs\<close>, \<^verbatim>\<open>pool_executor_llm.rs\<close> and
  \<^verbatim>\<open>pool_observed_stream.rs\<close>).

  The immutable part of \<open>PoolExecutorInner\<close> is \<open>PoolConfig\<close>, the part behind locks and atomics is
  \<open>PoolState\<close>, which also carries the shared breaker, the clock that the breaker reads, and a
  component \<open>ps_world\<close> for whatever the member executors work on. Between two awaits the executor
  runs alone here. A call to a member executor is the parameter \<open>run idx\<close>, a function from the
  whole state to an outcome and a state, so it covers what concurrent requests do to the shared
  state during the await.
\<close>

section \<open>State\<close>

definition MAX_POOL_SESSION_STATES :: nat where
  "MAX_POOL_SESSION_STATES = 4096"

definition MAX_POOL_STREAM_ATTEMPTS :: nat where
  "MAX_POOL_STREAM_ATTEMPTS = 4096"

record PoolMemberExecutor =
  pm_model_id :: string
  pm_upstream_model :: string

record PoolSessionState =
  ss_active :: "nat option"
  ss_switch_count :: u32
  ss_last_access :: usize

definition PoolSessionState_default :: PoolSessionState where
  "PoolSessionState_default = \<lparr>ss_active = None, ss_switch_count = 0, ss_last_access = 0\<rparr>"

record PoolStreamAttemptState =
  sa_active :: "nat option"
  sa_tried :: "bool list"
  sa_failure_observed :: bool
  sa_in_flight :: bool
  sa_live_streams :: usize
  sa_request_callbacks_ambiguous :: bool
  sa_last_access :: usize

definition PoolStreamAttemptState_new :: "nat \<Rightarrow> PoolStreamAttemptState" where
  "PoolStreamAttemptState_new member_count =
     \<lparr>sa_active = None, sa_tried = replicate member_count False, sa_failure_observed = False,
      sa_in_flight = False, sa_live_streams = 0, sa_request_callbacks_ambiguous = False,
      sa_last_access = 0\<rparr>"

record PoolConfig =
  pc_pool_id :: string
  pc_fallback_home_key :: string
  pc_members :: "PoolMemberExecutor list"
  pc_router :: PoolRouter
  pc_shape :: "u64 \<Rightarrow> u32 \<Rightarrow> real"

record 'w PoolState =
  ps_breaker :: CircuitBreaker
  ps_sessions :: "(string, PoolSessionState) hash_map"
  ps_stream_attempts :: "(string, PoolStreamAttemptState) hash_map"
  ps_permanent_quarantine :: "bool list"
  ps_home_sequence :: u64
  ps_anonymous_session_sequence :: u64
  ps_stream_attempt_sequence :: usize
  ps_session_sequence :: usize
  ps_clock :: nat
  ps_world :: 'w

definition PoolState_new :: "PoolConfig \<Rightarrow> CircuitBreaker \<Rightarrow> nat \<Rightarrow> 'w \<Rightarrow> 'w PoolState" where
  "PoolState_new cfg breaker now w =
     \<lparr>ps_breaker = breaker, ps_sessions = [], ps_stream_attempts = [],
      ps_permanent_quarantine = replicate (length (pc_members cfg)) False, ps_home_sequence = 0,
      ps_anonymous_session_sequence = 0, ps_stream_attempt_sequence = 0, ps_session_sequence = 0,
      ps_clock = now, ps_world = w\<rparr>"

text \<open>Of a request the pool reads the routing key; \<open>request_for\<close> replaces the upstream model.\<close>

record InferenceRequest =
  rq_upstream_model :: string
  rq_routing_key :: "InferenceRoutingKey option"

section \<open>Health and keys\<close>

definition member_model :: "PoolConfig \<Rightarrow> nat \<Rightarrow> string" where
  "member_model cfg idx = pm_model_id (pc_members cfg ! idx)"

definition quarantined :: "'w PoolState \<Rightarrow> nat \<Rightarrow> bool" where
  "quarantined st idx =
     (idx < length (ps_permanent_quarantine st) \<and> ps_permanent_quarantine st ! idx)"

definition switch_policy :: "PoolConfig \<Rightarrow> PoolSwitchPolicy" where
  "switch_policy cfg = pr_switch (pc_router cfg)"

definition health_mask :: "PoolConfig \<Rightarrow> 'w PoolState \<Rightarrow> bool list" where
  "health_mask cfg st =
     (if on_circuit_open (switch_policy cfg) then
        map (\<lambda>idx. \<not> quarantined st idx \<and>
            cb_is_available (member_model cfg idx) (ps_clock st) (ps_breaker st))
          [0..<length (pc_members cfg)]
      else map (\<lambda>idx. \<not> quarantined st idx) [0..<length (pc_members cfg)])"

definition switches_remain :: "PoolConfig \<Rightarrow> u32 \<Rightarrow> bool" where
  "switches_remain cfg switch_count =
     (case max_switches_per_session (switch_policy cfg) of
        Some m \<Rightarrow> switch_count < m
      | None \<Rightarrow> True)"

definition nul :: string where
  "nul = [CHR 0x00]"

definition session_key :: "PoolConfig \<Rightarrow> InferenceRequest \<Rightarrow> 'w PoolState \<Rightarrow> string \<times> 'w PoolState" where
  "session_key cfg request st =
     (case Option.bind (rq_routing_key request) (\<lambda>key. for_scope key (sticky_scope (pr_routing (pc_router cfg)))) of
        Some key \<Rightarrow> (key, st)
      | None \<Rightarrow>
          (case Option.bind (rq_routing_key request) rk_logical_inference_id of
             Some logical_id \<Rightarrow> (pc_fallback_home_key cfg @ nul @ ''logical'' @ nul @ logical_id, st)
           | None \<Rightarrow>
               (let sequence = saturating_add (ps_anonymous_session_sequence st) 1
                in (pc_fallback_home_key cfg @ nul @ ''anonymous'' @ nul @ show_nat (unat sequence),
                    st\<lparr>ps_anonymous_session_sequence := ps_anonymous_session_sequence st + 1\<rparr>))))"

definition stream_attempt_key :: "string \<Rightarrow> InferenceRequest \<Rightarrow> string option" where
  "stream_attempt_key skey request =
     map_option (\<lambda>i. skey @ nul @ i) (Option.bind (rq_routing_key request) rk_logical_inference_id)"

text \<open>\<open>Iterator::min_by_key\<close>: the first of the elements with the least key.\<close>

fun min_by_key :: "('a \<Rightarrow> usize) \<Rightarrow> 'a list \<Rightarrow> 'a option" where
  "min_by_key f [] = None"
| "min_by_key f (x # xs) =
     (case min_by_key f xs of
        None \<Rightarrow> Some x
      | Some y \<Rightarrow> if f x \<le> f y then Some x else Some y)"

definition ensure_session_capacity ::
  "string \<Rightarrow> (string, PoolSessionState) hash_map \<Rightarrow> (string, PoolSessionState) hash_map" where
  "ensure_session_capacity current sessions =
     (if length sessions < MAX_POOL_SESSION_STATES \<or> map_of sessions current \<noteq> None then sessions
      else (case min_by_key (ss_last_access \<circ> snd) (filter (\<lambda>(key, _). key \<noteq> current) sessions) of
          Some victim \<Rightarrow> AList.delete (fst victim) sessions
        | None \<Rightarrow> sessions))"

definition ensure_stream_attempt_capacity ::
  "string \<Rightarrow> (string, PoolStreamAttemptState) hash_map \<Rightarrow>
   bool \<times> (string, PoolStreamAttemptState) hash_map" where
  "ensure_stream_attempt_capacity current attempts =
     (if length attempts < MAX_POOL_STREAM_ATTEMPTS \<or> map_of attempts current \<noteq> None
      then (True, attempts)
      else (case min_by_key (sa_last_access \<circ> snd)
              (filter (\<lambda>(key, a). key \<noteq> current \<and> \<not> sa_in_flight a) attempts) of
          Some victim \<Rightarrow> (True, AList.delete (fst victim) attempts)
        | None \<Rightarrow> (False, attempts)))"

definition next_session_sequence :: "'w PoolState \<Rightarrow> usize \<times> 'w PoolState" where
  "next_session_sequence st =
     (saturating_add (ps_session_sequence st) 1, st\<lparr>ps_session_sequence := ps_session_sequence st + 1\<rparr>)"

definition next_stream_attempt_sequence :: "'w PoolState \<Rightarrow> usize \<times> 'w PoolState" where
  "next_stream_attempt_sequence st =
     (saturating_add (ps_stream_attempt_sequence st) 1,
      st\<lparr>ps_stream_attempt_sequence := ps_stream_attempt_sequence st + 1\<rparr>)"

definition home_sequence_for_new_session :: "PoolConfig \<Rightarrow> 'w PoolState \<Rightarrow> u64 option \<times> 'w PoolState" where
  "home_sequence_for_new_session cfg st =
     (if home (pr_routing (pc_router cfg)) = RoundRobin
      then (Some (ps_home_sequence st), st\<lparr>ps_home_sequence := ps_home_sequence st + 1\<rparr>)
      else (None, st))"

section \<open>Sessions\<close>

text \<open>\<open>sessions.entry(key).or_default()\<close> after making room.\<close>

definition session_entry ::
  "string \<Rightarrow> 'w PoolState \<Rightarrow> PoolSessionState \<times> (string, PoolSessionState) hash_map" where
  "session_entry key st =
     (let sessions = ensure_session_capacity key (ps_sessions st)
      in (case map_of sessions key of None \<Rightarrow> PoolSessionState_default | Some s \<Rightarrow> s, sessions))"

definition put_session ::
  "string \<Rightarrow> PoolSessionState \<Rightarrow> (string, PoolSessionState) hash_map \<Rightarrow> 'w PoolState \<Rightarrow> 'w PoolState" where
  "put_session key s sessions st = st\<lparr>ps_sessions := AList.update key s sessions\<rparr>"

definition select_active :: "PoolConfig \<Rightarrow> string \<Rightarrow> 'w PoolState \<Rightarrow> nat \<times> 'w PoolState" where
  "select_active cfg skey st =
     (let health = health_mask cfg st;
          (access, st1) = next_session_sequence st;
          (s0, sessions) = session_entry skey st1;
          s = s0\<lparr>ss_last_access := access\<rparr>
      in case ss_active s of
           None \<Rightarrow>
             (let (seq, st2) = home_sequence_for_new_session cfg st1;
                  h = select_home_with_sequence (pc_shape cfg) (pc_router cfg) skey health seq
              in (h, put_session skey (s\<lparr>ss_active := Some h\<rparr>) sessions st2))
         | Some current \<Rightarrow>
             (let unhealthy = (current < length health \<and> \<not> health ! current)
              in if unhealthy \<and> switches_remain cfg (ss_switch_count s) then
                   (case select_failover (pc_shape cfg) (pc_router cfg) skey current health of
                      Some nxt \<Rightarrow>
                        (nxt, put_session skey (s\<lparr>ss_switch_count := ss_switch_count s + 1,
                                ss_active := Some nxt\<rparr>) sessions st1)
                    | None \<Rightarrow> (current, put_session skey s sessions st1))
                 else (current, put_session skey s sessions st1)))"

definition mask_out :: "bool list \<Rightarrow> bool list \<Rightarrow> bool list" where
  "mask_out tried health = map (\<lambda>i. health ! i \<and> \<not> (i < length tried \<and> tried ! i)) [0..<length health]"

text \<open>The common part of \<open>next_on_error\<close> and \<open>next_on_unavailable\<close>.\<close>

definition next_member ::
  "PoolConfig \<Rightarrow> string \<Rightarrow> nat \<Rightarrow> bool list \<Rightarrow> 'w PoolState \<Rightarrow> nat option \<times> 'w PoolState" where
  "next_member cfg skey current tried st =
     (let hmask = mask_out tried (health_mask cfg st);
          (access, st1) = next_session_sequence st;
          (s, sessions) = session_entry skey st1
      in if ss_active s \<noteq> Some current then
           (case ss_active s of
              None \<Rightarrow> None
            | Some active \<Rightarrow> if active < length hmask \<and> hmask ! active then Some active else None,
            put_session skey (s\<lparr>ss_last_access := access\<rparr>) sessions st1)
         else if \<not> switches_remain cfg (ss_switch_count s) then
           (None, put_session skey (s\<lparr>ss_last_access := access\<rparr>) sessions st1)
         else
           (case select_failover (pc_shape cfg) (pc_router cfg) skey current hmask of
              None \<Rightarrow> (None, put_session skey s sessions st1)
            | Some nxt \<Rightarrow>
                (Some nxt, put_session skey (s\<lparr>ss_last_access := access,
                   ss_switch_count := ss_switch_count s + 1, ss_active := Some nxt\<rparr>) sessions st1)))"

definition next_on_error ::
  "PoolConfig \<Rightarrow> string \<Rightarrow> nat \<Rightarrow> 'v InferenceExecutionError \<Rightarrow> bool list \<Rightarrow> 'w PoolState \<Rightarrow>
   nat option \<times> 'w PoolState" where
  "next_on_error cfg skey current err tried st =
     (if \<not> should_switch_on_error (pc_router cfg) err then (None, st)
      else next_member cfg skey current tried st)"

definition next_on_unavailable ::
  "PoolConfig \<Rightarrow> string \<Rightarrow> nat \<Rightarrow> bool list \<Rightarrow> 'w PoolState \<Rightarrow> nat option \<times> 'w PoolState" where
  "next_on_unavailable cfg skey current tried st = next_member cfg skey current tried st"

definition check_member ::
  "PoolConfig \<Rightarrow> nat \<Rightarrow> 'w PoolState \<Rightarrow> (unit, 'v InferenceExecutionError) outcome \<times> 'w PoolState" where
  "check_member cfg idx st =
     (if quarantined st idx then
        (Err (Provider (''model pool member '' @ member_model cfg idx @ '' is quarantined'')), st)
      else if on_circuit_open (switch_policy cfg) then
        (let (r, cb) = cb_check (member_model cfg idx) (ps_clock st) (ps_breaker st)
         in (r, st\<lparr>ps_breaker := cb\<rparr>))
      else (Ok (), st))"

definition was_tried :: "bool list \<Rightarrow> nat \<Rightarrow> bool" where
  "was_tried tried idx = (idx < length tried \<and> tried ! idx)"

definition no_member_available_error ::
  "PoolConfig \<Rightarrow> 'v InferenceExecutionError \<Rightarrow> bool list \<Rightarrow> 'w PoolState \<Rightarrow> 'v InferenceExecutionError" where
  "no_member_available_error cfg fallback tried st =
     (let health = health_mask cfg st in
      if \<not> list_ex id health then AllModelsUnavailable
      else if list_all (\<lambda>idx. \<not> health ! idx \<or> was_tried tried idx) [0..<length health]
           then PoolAttemptsExhausted
      else fallback)"

definition error_driven_no_member_available_error ::
  "PoolConfig \<Rightarrow> 'v InferenceExecutionError \<Rightarrow> bool list \<Rightarrow> 'w PoolState \<Rightarrow> 'v InferenceExecutionError" where
  "error_driven_no_member_available_error cfg fallback tried st =
     (if list_all (was_tried tried) [0..<length (pc_members cfg)] then PoolAttemptsExhausted
      else no_member_available_error cfg fallback tried st)"

definition reset_switch_budget :: "string \<Rightarrow> 'w PoolState \<Rightarrow> 'w PoolState" where
  "reset_switch_budget skey st =
     (let (access, st1) = next_session_sequence st
      in case map_of (ps_sessions st1) skey of
           None \<Rightarrow> st1
         | Some s \<Rightarrow>
             put_session skey (s\<lparr>ss_last_access := access, ss_switch_count := 0\<rparr>) (ps_sessions st1) st1)"

fun is_member_permanent_error :: "'v InferenceExecutionError \<Rightarrow> bool" where
  "is_member_permanent_error (Unauthorized _) = True"
| "is_member_permanent_error (ModelNotFound _) = True"
| "is_member_permanent_error _ = False"

definition record_failure :: "PoolConfig \<Rightarrow> nat \<Rightarrow> 'v InferenceExecutionError \<Rightarrow> 'w PoolState \<Rightarrow> 'w PoolState" where
  "record_failure cfg idx err st =
     (let st1 = (if on_permanent (switch_policy cfg) \<and> is_member_permanent_error err \<and>
                    idx < length (ps_permanent_quarantine st)
                 then st\<lparr>ps_permanent_quarantine := (ps_permanent_quarantine st)[idx := True]\<rparr> else st)
      in if counts_toward_circuit_breaker err
         then st1\<lparr>ps_breaker := cb_record_failure (member_model cfg idx) (ps_clock st1) (ps_breaker st1)\<rparr>
         else st1)"

definition record_member_success :: "PoolConfig \<Rightarrow> nat \<Rightarrow> 'w PoolState \<Rightarrow> 'w PoolState" where
  "record_member_success cfg idx st =
     st\<lparr>ps_breaker := cb_record_success (member_model cfg idx) (ps_breaker st)\<rparr>"

definition request_for :: "PoolConfig \<Rightarrow> nat \<Rightarrow> InferenceRequest \<Rightarrow> InferenceRequest" where
  "request_for cfg idx base = base\<lparr>rq_upstream_model := pm_upstream_model (pc_members cfg ! idx)\<rparr>"

section \<open>Stream attempts\<close>

text \<open>
  The cache of stream attempts, keyed by session and logical inference. Member indices handed to
  these methods are the indices an open loop has used, so they are in range; the invariant below
  states it.
\<close>

definition stream_tried_mask :: "PoolConfig \<Rightarrow> string option \<Rightarrow> 'w PoolState \<Rightarrow> bool list \<times> 'w PoolState" where
  "stream_tried_mask cfg attempt_key st =
     (case attempt_key of
        None \<Rightarrow> (replicate (length (pc_members cfg)) False, st)
      | Some key \<Rightarrow>
          (case map_of (ps_stream_attempts st) key of
             None \<Rightarrow> (replicate (length (pc_members cfg)) False, st)
           | Some a \<Rightarrow>
               (let (access, st1) = next_stream_attempt_sequence st
                in (sa_tried a, st1\<lparr>ps_stream_attempts :=
                      AList.update key (a\<lparr>sa_last_access := access\<rparr>) (ps_stream_attempts st1)\<rparr>))))"

text \<open>\<open>tried.iter_mut().zip(cached)\<close> stops at the shorter list and leaves the rest of \<open>tried\<close>.\<close>

fun or_zip :: "bool list \<Rightarrow> bool list \<Rightarrow> bool list" where
  "or_zip (t # tried) (c # cached) = (t \<or> c) # or_zip tried cached"
| "or_zip tried _ = tried"

definition merge_stream_tried_mask ::
  "PoolConfig \<Rightarrow> bool list \<Rightarrow> string option \<Rightarrow> 'w PoolState \<Rightarrow> bool list \<times> 'w PoolState" where
  "merge_stream_tried_mask cfg tried attempt_key st =
     (let (cached, st1) = stream_tried_mask cfg attempt_key st in (or_zip tried cached, st1))"

text \<open>\<open>attempts.entry(key).or_insert_with(new)\<close>\<close>

definition attempt_entry ::
  "PoolConfig \<Rightarrow> string \<Rightarrow> (string, PoolStreamAttemptState) hash_map \<Rightarrow> PoolStreamAttemptState" where
  "attempt_entry cfg key attempts =
     (case map_of attempts key of
        None \<Rightarrow> PoolStreamAttemptState_new (length (pc_members cfg))
      | Some a \<Rightarrow> a)"

definition put_attempt ::
  "string \<Rightarrow> PoolStreamAttemptState \<Rightarrow> (string, PoolStreamAttemptState) hash_map \<Rightarrow> 'w PoolState \<Rightarrow> 'w PoolState" where
  "put_attempt key a attempts st = st\<lparr>ps_stream_attempts := AList.update key a attempts\<rparr>"

definition mark_stream_active :: "PoolConfig \<Rightarrow> string option \<Rightarrow> nat \<Rightarrow> 'w PoolState \<Rightarrow> bool \<times> 'w PoolState" where
  "mark_stream_active cfg attempt_key idx st =
     (case attempt_key of
        None \<Rightarrow> (False, st)
      | Some key \<Rightarrow>
          (case ensure_stream_attempt_capacity key (ps_stream_attempts st) of
             (False, attempts) \<Rightarrow> (False, st\<lparr>ps_stream_attempts := attempts\<rparr>)
           | (True, attempts) \<Rightarrow>
               (let a = attempt_entry cfg key attempts;
                    (access, st1) = next_stream_attempt_sequence st
                in (True, put_attempt key
                     (a\<lparr>sa_last_access := access, sa_tried := (sa_tried a)[idx := True],
                        sa_active := Some idx, sa_failure_observed := False,
                        sa_request_callbacks_ambiguous :=
                          sa_request_callbacks_ambiguous a \<or> 0 < sa_live_streams a,
                        sa_live_streams := saturating_add (sa_live_streams a) 1,
                        sa_in_flight := True\<rparr>) attempts st1))))"

definition mark_stream_open_failure :: "PoolConfig \<Rightarrow> string option \<Rightarrow> nat \<Rightarrow> 'w PoolState \<Rightarrow> 'w PoolState" where
  "mark_stream_open_failure cfg attempt_key idx st =
     (case attempt_key of
        None \<Rightarrow> st
      | Some key \<Rightarrow>
          (case ensure_stream_attempt_capacity key (ps_stream_attempts st) of
             (False, attempts) \<Rightarrow> st\<lparr>ps_stream_attempts := attempts\<rparr>
           | (True, attempts) \<Rightarrow>
               (let a = attempt_entry cfg key attempts;
                    (access, st1) = next_stream_attempt_sequence st
                in put_attempt key
                     (a\<lparr>sa_last_access := access, sa_tried := (sa_tried a)[idx := True],
                        sa_active := Some idx, sa_failure_observed := True,
                        sa_in_flight := 0 < sa_live_streams a\<rparr>) attempts st1)))"

definition record_stream_attempt_failure ::
  "PoolConfig \<Rightarrow> string \<Rightarrow> string option \<Rightarrow> nat \<Rightarrow> 'v InferenceExecutionError \<Rightarrow> 'w PoolState \<Rightarrow> 'w PoolState" where
  "record_stream_attempt_failure cfg skey attempt_key current err st =
     (let st1 = record_failure cfg current err st;
          local_tried = (replicate (length (pc_members cfg)) False)[current := True];
          (tried, st2) =
            (case attempt_key of
               None \<Rightarrow> (local_tried, st1)
             | Some key \<Rightarrow>
                 (case ensure_stream_attempt_capacity key (ps_stream_attempts st1) of
                    (False, attempts) \<Rightarrow> (local_tried, st1\<lparr>ps_stream_attempts := attempts\<rparr>)
                  | (True, attempts) \<Rightarrow>
                      (let a = attempt_entry cfg key attempts;
                           (access, st') = next_stream_attempt_sequence st1;
                           a1 = a\<lparr>sa_last_access := access, sa_tried := (sa_tried a)[current := True],
                                  sa_active := Some current, sa_in_flight := 0 < sa_live_streams a\<rparr>
                       in (sa_tried a1, put_attempt key a1 attempts st'))))
      in if should_switch_on_error (pc_router cfg) err then
           snd (next_on_error cfg skey current err tried st2)
         else if on_circuit_open (switch_policy cfg) \<and>
                 \<not> cb_is_available (member_model cfg current) (ps_clock st2) (ps_breaker st2) then
           snd (next_on_unavailable cfg skey current tried st2)
         else st2)"

text \<open>One stream of the attempt has ended: \<open>live_streams\<close> and \<open>in_flight\<close>.\<close>

definition stream_ended :: "PoolStreamAttemptState \<Rightarrow> PoolStreamAttemptState" where
  "stream_ended a =
     (let live = saturating_sub (sa_live_streams a) 1
      in a\<lparr>sa_live_streams := live, sa_in_flight := 0 < live\<rparr>)"

definition record_stream_attempt_success ::
  "PoolConfig \<Rightarrow> string \<Rightarrow> string option \<Rightarrow> nat \<Rightarrow> 'w PoolState \<Rightarrow> 'w PoolState" where
  "record_stream_attempt_success cfg skey attempt_key current st =
     (let finish = (\<lambda>st'. reset_switch_budget skey (record_member_success cfg current st'))
      in case attempt_key of
           None \<Rightarrow> finish st
         | Some key \<Rightarrow>
             (case map_of (ps_stream_attempts st) key of
                None \<Rightarrow> st
              | Some a \<Rightarrow>
                  if sa_active a \<noteq> Some current
                  then put_attempt key (stream_ended a) (ps_stream_attempts st) st
                  else finish (st\<lparr>ps_stream_attempts := AList.delete key (ps_stream_attempts st)\<rparr>)))"

definition record_stream_attempt_failure_once ::
  "PoolConfig \<Rightarrow> string \<Rightarrow> string option \<Rightarrow> nat \<Rightarrow> 'v InferenceExecutionError \<Rightarrow> bool \<Rightarrow>
   'w PoolState \<Rightarrow> 'w PoolState" where
  "record_stream_attempt_failure_once cfg skey attempt_key current err stream_finished st =
     (case attempt_key of
        None \<Rightarrow> record_stream_attempt_failure cfg skey attempt_key current err st
      | Some key \<Rightarrow>
          (case map_of (ps_stream_attempts st) key of
             None \<Rightarrow> st
           | Some a \<Rightarrow>
               (let (access, st1) = next_stream_attempt_sequence st;
                    a1 = a\<lparr>sa_last_access := access\<rparr>;
                    a2 = (if stream_finished then stream_ended a1 else a1)
                in if sa_active a2 \<noteq> Some current then put_attempt key a2 (ps_stream_attempts st1) st1
                   else
                     (let st2 = put_attempt key
                            (a2\<lparr>sa_tried := (sa_tried a2)[current := True], sa_failure_observed := True,
                                sa_in_flight := 0 < sa_live_streams a2\<rparr>) (ps_stream_attempts st1) st1
                      in if sa_failure_observed a2 then st2
                         else record_stream_attempt_failure cfg skey attempt_key current err st2))))"

definition record_stream_attempt_abandoned ::
  "PoolConfig \<Rightarrow> string option \<Rightarrow> nat \<Rightarrow> 'w PoolState \<Rightarrow> 'w PoolState" where
  "record_stream_attempt_abandoned cfg attempt_key current st =
     (let finish = (\<lambda>st'. st'\<lparr>ps_breaker :=
            cb_record_abandoned_probe (member_model cfg current) (ps_clock st') (ps_breaker st')\<rparr>)
      in case attempt_key of
           None \<Rightarrow> finish st
         | Some key \<Rightarrow>
             (case map_of (ps_stream_attempts st) key of
                None \<Rightarrow> st
              | Some a \<Rightarrow>
                  if sa_active a \<noteq> Some current
                  then put_attempt key (stream_ended a) (ps_stream_attempts st) st
                  else
                    (let (access, st1) = next_stream_attempt_sequence st
                     in if sa_failure_observed a
                        then finish (put_attempt key ((stream_ended a)\<lparr>sa_last_access := access\<rparr>)
                               (ps_stream_attempts st1) st1)
                        else finish (st1\<lparr>ps_stream_attempts := AList.delete key (ps_stream_attempts st1)\<rparr>))))"

definition record_stream_member_failure ::
  "PoolConfig \<Rightarrow> InferenceRequest \<Rightarrow> 'v InferenceExecutionError \<Rightarrow> 'w PoolState \<Rightarrow> 'w PoolState" where
  "record_stream_member_failure cfg request err st =
     (let (skey, st1) = session_key cfg request st;
          attempt_key = stream_attempt_key skey request
      in case Option.bind attempt_key (\<lambda>key. Option.bind (map_of (ps_stream_attempts st1) key)
             (\<lambda>a. if sa_request_callbacks_ambiguous a then None else sa_active a)) of
           None \<Rightarrow> st1
         | Some current \<Rightarrow>
             record_stream_attempt_failure_once cfg skey attempt_key current err False st1)"

section \<open>The observed stream\<close>

text \<open>\<open>poll_next\<close> forwards what the inner stream's poll returns, the argument here.\<close>

datatype ('ev, 'v) poll =
  Pending | Ready "('ev + 'v InferenceExecutionError) option"

record PoolObservedStream =
  os_session_key :: string
  os_attempt_key :: "string option"
  os_member_idx :: nat
  os_finished :: bool

definition PoolObservedStream_new :: "string \<Rightarrow> string option \<Rightarrow> nat \<Rightarrow> PoolObservedStream" where
  "PoolObservedStream_new skey attempt_key idx =
     \<lparr>os_session_key = skey, os_attempt_key = attempt_key, os_member_idx = idx, os_finished = False\<rparr>"

definition poll_next ::
  "PoolConfig \<Rightarrow> ('ev, 'v) poll \<Rightarrow> PoolObservedStream \<Rightarrow> 'w PoolState \<Rightarrow>
   ('ev, 'v) poll \<times> PoolObservedStream \<times> 'w PoolState" where
  "poll_next cfg polled s st =
     (case polled of
        Ready (Some (Inr err)) \<Rightarrow>
          (polled, s\<lparr>os_finished := True\<rparr>,
           record_stream_attempt_failure_once cfg (os_session_key s) (os_attempt_key s)
             (os_member_idx s) err True st)
      | Ready None \<Rightarrow>
          if os_finished s then (polled, s, st)
          else (polled, s\<lparr>os_finished := True\<rparr>,
                record_stream_attempt_success cfg (os_session_key s) (os_attempt_key s)
                  (os_member_idx s) st)
      | _ \<Rightarrow> (polled, s, st))"

definition drop_stream :: "PoolConfig \<Rightarrow> PoolObservedStream \<Rightarrow> 'w PoolState \<Rightarrow> 'w PoolState" where
  "drop_stream cfg s st =
     (if os_finished s then st
      else record_stream_attempt_abandoned cfg (os_attempt_key s) (os_member_idx s) st)"

section \<open>The request loops\<close>

text \<open>
  Each round marks the member it looks at, and a switch only goes to a member that is not marked,
  so the number of unmarked members decreases.
\<close>

lemma length_health_mask [simp]: "length (health_mask cfg st) = length (pc_members cfg)"
  by (simp add: health_mask_def)

lemma length_mask_out [simp]: "length (mask_out tried health) = length health"
  by (simp add: mask_out_def)

lemma mask_out_nth:
  "i < length health \<Longrightarrow> mask_out tried health ! i \<longleftrightarrow> health ! i \<and> \<not> was_tried tried i"
  by (simp add: mask_out_def was_tried_def)

lemma next_member_sound:
  assumes "next_member cfg skey current tried st = (Some nxt, st')"
    and "length tried = length (pc_members cfg)"
  shows "nxt < length tried \<Longrightarrow> \<not> tried ! nxt \<and> health_mask cfg st ! nxt"
    and "nxt < length (pc_members cfg) \<or> nxt < length (pr_members (pc_router cfg))"
proof -
  let ?m = "mask_out tried (health_mask cfg st)"
  obtain s sessions where entry: "session_entry skey (snd (next_session_sequence st)) = (s, sessions)"
    by fastforce
  from assms(1) have "nxt < length ?m \<and> ?m ! nxt \<or>
      select_failover (pc_shape cfg) (pc_router cfg) skey current ?m = Some nxt"
    using entry
    by (simp add: next_member_def Let_def split_beta split: if_splits option.splits)
  then have "is_healthy ?m nxt \<and> (nxt < length ?m \<or> nxt < length (pr_members (pc_router cfg)))"
    using by_score.pick_sound [of "pc_shape cfg" "pc_router cfg" skey "\<lambda>idx. idx \<noteq> current \<and> is_healthy ?m idx" nxt]
    by (auto simp: select_failover_def is_healthy_def)
  with assms(2) show "nxt < length tried \<Longrightarrow> \<not> tried ! nxt \<and> health_mask cfg st ! nxt"
    and "nxt < length (pc_members cfg) \<or> nxt < length (pr_members (pc_router cfg))"
    by (auto simp: is_healthy_def mask_out_nth was_tried_def split: if_splits)
qed

lemma next_on_error_sound:
  assumes "next_on_error cfg skey current err tried st = (Some nxt, st')"
    and "length tried = length (pc_members cfg)"
  shows "nxt < length tried \<Longrightarrow> \<not> tried ! nxt \<and> health_mask cfg st ! nxt"
    and "nxt < length (pc_members cfg) \<or> nxt < length (pr_members (pc_router cfg))"
  using next_member_sound [of cfg skey current tried st nxt st'] assms
  by (simp_all add: next_on_error_def split: if_splits)

lemma next_on_unavailable_sound:
  assumes "next_on_unavailable cfg skey current tried st = (Some nxt, st')"
    and "length tried = length (pc_members cfg)"
  shows "nxt < length tried \<Longrightarrow> \<not> tried ! nxt \<and> health_mask cfg st ! nxt"
    and "nxt < length (pc_members cfg) \<or> nxt < length (pr_members (pc_router cfg))"
  using next_member_sound [of cfg skey current tried st nxt st'] assms
  by (simp_all add: next_on_unavailable_def)

lemma length_or_zip [simp]: "length (or_zip tried cached) = length tried"
  by (induction tried cached rule: or_zip.induct) simp_all

lemma or_zip_keeps: "i < length tried \<Longrightarrow> tried ! i \<Longrightarrow> or_zip tried cached ! i"
  by (induction tried cached arbitrary: i rule: or_zip.induct) (auto simp: nth_Cons split: nat.splits)

definition unmarked :: "bool list \<Rightarrow> nat set" where
  "unmarked tried = {i. i < length tried \<and> \<not> tried ! i}"

lemma finite_unmarked [simp]: "finite (unmarked tried)"
  by (simp add: unmarked_def)

text \<open>The measure: an index out of range ends the loop at once.\<close>

definition rounds_left :: "nat \<Rightarrow> bool list \<Rightarrow> nat" where
  "rounds_left idx tried = (if idx < length tried then Suc (card (unmarked (tried[idx := True]))) else 0)"

lemma rounds_left_decreases:
  assumes "idx < length tried0" and "length tried' = length tried0"
    and "nxt < length tried0 \<Longrightarrow> \<not> tried0[idx := True] ! nxt"
    and "\<And>i. i < length tried0 \<Longrightarrow> tried0[idx := True] ! i \<Longrightarrow> tried' ! i"
  shows "rounds_left nxt tried' < rounds_left idx tried0"
proof (cases "nxt < length tried0")
  case True
  have "unmarked (tried'[nxt := True]) \<subseteq> unmarked (tried0[idx := True])"
  proof
    fix i
    assume i: "i \<in> unmarked (tried'[nxt := True])"
    then have "i \<noteq> nxt" and "i < length tried0" using assms(2) by (auto simp: unmarked_def)
    with i assms(2,4) show "i \<in> unmarked (tried0[idx := True])" by (auto simp: unmarked_def)
  qed
  moreover have "nxt \<in> unmarked (tried0[idx := True])" and "nxt \<notin> unmarked (tried'[nxt := True])"
    using assms(2,3) True by (auto simp: unmarked_def)
  ultimately have "unmarked (tried'[nxt := True]) \<subset> unmarked (tried0[idx := True])" by blast
  then show ?thesis
    using assms(1,2) True by (simp add: rounds_left_def psubset_card_mono)
qed (use assms(1,2) in \<open>simp add: rounds_left_def\<close>)

lemma switch_decreases:
  assumes "idx < length tried0" and "length tried0 = length (pc_members cfg)"
    and "(Some nxt, st') = next_on_error cfg skey idx err (tried0[idx := True]) st \<or>
      (Some nxt, st') = next_on_unavailable cfg skey idx (tried0[idx := True]) st"
    and "length tried' = length tried0"
    and "\<And>i. i < length tried0 \<Longrightarrow> tried0[idx := True] ! i \<Longrightarrow> tried' ! i"
  shows "rounds_left nxt tried' < rounds_left idx tried0"
proof (rule rounds_left_decreases [OF assms(1,4) _ assms(5)])
  show "\<not> tried0[idx := True] ! nxt" if "nxt < length tried0"
    using assms(2,3) that next_on_error_sound(1) [OF sym, of nxt st' cfg skey idx err "tried0[idx := True]" st]
      next_on_unavailable_sound(1) [OF sym, of nxt st' cfg skey idx "tried0[idx := True]" st]
    by auto
qed

text \<open>A call to the executor of member \<open>idx\<close>, with whatever happens to the pool while it runs.\<close>

type_synonym ('r, 'v, 'w) member_call =
  "nat \<Rightarrow> InferenceRequest \<Rightarrow> 'w PoolState \<Rightarrow> ('r, 'v InferenceExecutionError) outcome \<times> 'w PoolState"

definition index_panic :: string where
  "index_panic = ''index out of bounds''"

function pool_loop ::
  "PoolConfig \<Rightarrow> ('r, 'v, 'w) member_call \<Rightarrow> InferenceRequest \<Rightarrow> string \<Rightarrow> nat \<Rightarrow> bool list \<Rightarrow>
   'w PoolState \<Rightarrow> ('r, 'v InferenceExecutionError) outcome \<times> 'w PoolState" where
  "pool_loop cfg run request skey idx tried0 st =
     (if \<not> (idx < length tried0 \<and> length tried0 = length (pc_members cfg)) then (Panic index_panic, st)
      else
        (let tried = tried0[idx := True]
         in case check_member cfg idx st of
              (Panic p, st1) \<Rightarrow> (Panic p, st1)
            | (Err err, st1) \<Rightarrow>
                (case next_on_unavailable cfg skey idx tried st1 of
                   (Some nxt, st2) \<Rightarrow> pool_loop cfg run request skey nxt tried st2
                 | (None, st2) \<Rightarrow> (Err (no_member_available_error cfg err tried st2), st2))
            | (Ok _, st1) \<Rightarrow>
                (case run idx (request_for cfg idx request) st1 of
                   (Panic p, st2) \<Rightarrow> (Panic p, st2)
                 | (Ok result, st2) \<Rightarrow>
                     (Ok result, reset_switch_budget skey (record_member_success cfg idx st2))
                 | (Err err, st2) \<Rightarrow>
                     (let st3 = record_failure cfg idx err st2
                      in case next_on_error cfg skey idx err tried st3 of
                           (Some nxt, st4) \<Rightarrow> pool_loop cfg run request skey nxt tried st4
                         | (None, st4) \<Rightarrow>
                             (Err (if should_switch_on_error (pc_router cfg) err
                                   then error_driven_no_member_available_error cfg err tried st4
                                   else err), st4)))))"
  by pat_completeness auto

termination
  by (relation "measure (\<lambda>(cfg, run, request, skey, idx, tried, st). rounds_left idx tried)")
    (simp_all, metis length_list_update switch_decreases, metis length_list_update switch_decreases)

declare pool_loop.simps [simp del]

definition pool_execute ::
  "PoolConfig \<Rightarrow> ('r, 'v, 'w) member_call \<Rightarrow> InferenceRequest \<Rightarrow> 'w PoolState \<Rightarrow>
   ('r, 'v InferenceExecutionError) outcome \<times> 'w PoolState" where
  "pool_execute cfg run request st =
     (let (skey, st1) = session_key cfg request st;
          (idx, st2) = select_active cfg skey st1
      in pool_loop cfg run request skey idx (replicate (length (pc_members cfg)) False) st2)"

lemma merge_stream_tried_mask_keeps:
  assumes "merge_stream_tried_mask cfg tried akey st = (tried', st')"
  shows "length tried' = length tried" and "i < length tried \<Longrightarrow> tried ! i \<Longrightarrow> tried' ! i"
  using assms by (auto simp: merge_stream_tried_mask_def Let_def or_zip_keeps split: prod.splits)

lemma merged_switch_decreases:
  assumes "idx < length tried0 \<and> length tried0 = length (pc_members cfg)"
    and "(Some nxt, st4) = next_on_error cfg skey idx err (tried0[idx := True]) st3"
  shows "(case if akey \<noteq> None then merge_stream_tried_mask cfg (tried0[idx := True]) akey st4
        else (tried0[idx := True], st4) of (tried', st5) \<Rightarrow> rounds_left nxt tried')
      < rounds_left idx tried0"
  using assms switch_decreases [of idx tried0 cfg nxt st4 skey err st3]
    merge_stream_tried_mask_keeps [of cfg "tried0[idx := True]" akey st4]
  by (auto split: prod.split)

function pool_stream_loop ::
  "PoolConfig \<Rightarrow> (unit, 'v, 'w) member_call \<Rightarrow> InferenceRequest \<Rightarrow> string \<Rightarrow> string option \<Rightarrow> nat \<Rightarrow>
   bool list \<Rightarrow> 'w PoolState \<Rightarrow> (PoolObservedStream, 'v InferenceExecutionError) outcome \<times> 'w PoolState" where
  "pool_stream_loop cfg run request skey akey idx tried0 st =
     (if \<not> (idx < length tried0 \<and> length tried0 = length (pc_members cfg)) then (Panic index_panic, st)
      else
        (let tried = tried0[idx := True]
         in case check_member cfg idx st of
              (Panic p, st1) \<Rightarrow> (Panic p, st1)
            | (Err err, st1) \<Rightarrow>
                (case next_on_unavailable cfg skey idx tried st1 of
                   (Some nxt, st2) \<Rightarrow> pool_stream_loop cfg run request skey akey nxt tried st2
                 | (None, st2) \<Rightarrow> (Err (no_member_available_error cfg err tried st2), st2))
            | (Ok _, st1) \<Rightarrow>
                (case run idx (request_for cfg idx request) st1 of
                   (Panic p, st2) \<Rightarrow> (Panic p, st2)
                 | (Ok _, st2) \<Rightarrow>
                     (let (cached, st3) = mark_stream_active cfg akey idx st2
                      in (Ok (PoolObservedStream_new skey (if cached then akey else None) idx), st3))
                 | (Err err, st2) \<Rightarrow>
                     (let st3 = mark_stream_open_failure cfg akey idx (record_failure cfg idx err st2)
                      in case next_on_error cfg skey idx err tried st3 of
                           (Some nxt, st4) \<Rightarrow>
                             (let (tried', st5) =
                                (if akey \<noteq> None then merge_stream_tried_mask cfg tried akey st4
                                 else (tried, st4))
                              in pool_stream_loop cfg run request skey akey nxt tried' st5)
                         | (None, st4) \<Rightarrow>
                             (Err (if should_switch_on_error (pc_router cfg) err
                                   then error_driven_no_member_available_error cfg err tried st4
                                   else err), st4)))))"
  by pat_completeness auto

termination
proof (relation "measure (\<lambda>(cfg, run, request, skey, akey, idx, tried, st). rounds_left idx tried)",
    goal_cases)
  case 2
  then show ?case
    by (hypsubst, simp only: in_measure prod.case) (rule merged_switch_decreases; simp)
next
  case 3
  then show ?case by simp (metis length_list_update switch_decreases)
qed simp

declare pool_stream_loop.simps [simp del]

definition pool_execute_stream ::
  "PoolConfig \<Rightarrow> (unit, 'v, 'w) member_call \<Rightarrow> InferenceRequest \<Rightarrow> 'w PoolState \<Rightarrow>
   (PoolObservedStream, 'v InferenceExecutionError) outcome \<times> 'w PoolState" where
  "pool_execute_stream cfg run request st =
     (let (skey, st1) = session_key cfg request st;
          akey = stream_attempt_key skey request;
          (idx, st2) = select_active cfg skey st1;
          (tried, st3) = stream_tried_mask cfg akey st2
      in pool_stream_loop cfg run request skey akey idx tried st3)"

end
