(* ===== verification/Pool_Safety.thy ===== *)
theory Pool_Safety
  imports Pool_Executor
begin

text \<open>
  What the pool executor guarantees: the invariant of its tables, kept by every operation, the
  contract of a member executor as a locale, and the theorems about requests, sessions and streams.
\<close>

section \<open>Bounded tables\<close>

definition table_ok :: "nat \<Rightarrow> ('v \<Rightarrow> bool) \<Rightarrow> ('k, 'v) hash_map \<Rightarrow> bool" where
  "table_ok cap ok m \<longleftrightarrow>
     hm_keys_distinct m \<and> length m \<le> cap \<and> (\<forall>k v. map_of m k = Some v \<longrightarrow> ok v)"

definition table_room :: "nat \<Rightarrow> 'k \<Rightarrow> ('k, 'v) hash_map \<Rightarrow> bool" where
  "table_room cap k m \<longleftrightarrow> length m < cap \<or> map_of m k \<noteq> None"

lemma length_update:
  "length (AList.update k v m) = (if map_of m k = None then Suc (length m) else length m)"
  by (induction m) auto

lemma table_ok_get: "table_ok cap ok m \<Longrightarrow> map_of m k = Some v \<Longrightarrow> ok v"
  by (simp add: table_ok_def)

lemma table_ok_update:
  "table_ok cap ok m \<Longrightarrow> table_room cap k m \<Longrightarrow> ok v \<Longrightarrow> table_ok cap ok (AList.update k v m)"
  by (auto simp: table_ok_def table_room_def length_update distinct_update split: if_splits)

lemma length_delete: "map_of m k \<noteq> None \<Longrightarrow> length (AList.delete k m) < length m"
proof (induction m)
  case (Cons kv m)
  have "length (AList.delete k m) \<le> length m" by (simp add: AList.length_delete_le)
  with Cons show ?case by (cases kv) (auto simp: less_Suc_eq_le split: if_splits)
qed simp

lemma table_ok_delete: "table_ok cap ok m \<Longrightarrow> table_ok cap ok (AList.delete k m)"
  using AList.length_delete_le [of k m]
  by (auto simp: table_ok_def map_of_delete_if distinct_delete split: if_splits)

lemma min_by_key_mem: "min_by_key f xs = Some x \<Longrightarrow> x \<in> set xs"
  by (induction xs arbitrary: x) (auto split: option.splits if_splits)

lemma min_by_key_None: "min_by_key f xs = None \<longleftrightarrow> xs = []"
  by (cases xs) (auto split: option.splits)

lemma min_by_key_least: "min_by_key f xs = Some x \<Longrightarrow> y \<in> set xs \<Longrightarrow> f x \<le> f y"
proof (induction xs arbitrary: x y)
  case (Cons z xs)
  show ?case
  proof (cases "min_by_key f xs")
    case None
    with Cons.prems show ?thesis by (simp add: min_by_key_None)
  next
    case (Some w)
    with Cons.IH [OF Some] Cons.prems show ?thesis
      by (auto split: if_splits intro: order_trans)
  qed
qed simp

lemma ensure_session_capacity_ok:
  assumes "table_ok MAX_POOL_SESSION_STATES ok m"
  shows "table_ok MAX_POOL_SESSION_STATES ok (ensure_session_capacity k m)"
    and "table_room MAX_POOL_SESSION_STATES k (ensure_session_capacity k m)"
proof -
  let ?cands = "filter (\<lambda>(key, _). key \<noteq> k) m"
  show "table_ok MAX_POOL_SESSION_STATES ok (ensure_session_capacity k m)"
    using assms table_ok_delete by (auto simp: ensure_session_capacity_def split: option.split)
  show "table_room MAX_POOL_SESSION_STATES k (ensure_session_capacity k m)"
  proof (cases "length m < MAX_POOL_SESSION_STATES \<or> map_of m k \<noteq> None")
    case True
    then show ?thesis by (auto simp: ensure_session_capacity_def table_room_def)
  next
    case False
    then have len: "length m = MAX_POOL_SESSION_STATES" and k: "map_of m k = None"
      using assms by (auto simp: table_ok_def)
    then have "?cands = m" by (auto simp: map_of_eq_None_iff filter_id_conv image_iff)
    with len obtain v where v: "min_by_key (ss_last_access \<circ> snd) ?cands = Some v"
      by (cases "min_by_key (ss_last_access \<circ> snd) ?cands")
        (auto simp: min_by_key_None MAX_POOL_SESSION_STATES_def)
    then have "v \<in> set m" using min_by_key_mem by fastforce
    then have "map_of m (fst v) \<noteq> None" by (auto simp: map_of_eq_None_iff)
    with v len k show ?thesis
      using length_delete [of m "fst v"] by (simp add: ensure_session_capacity_def table_room_def)
  qed
qed

lemma ensure_stream_attempt_capacity_ok:
  assumes "table_ok MAX_POOL_STREAM_ATTEMPTS ok m"
    and "ensure_stream_attempt_capacity k m = (fits, m')"
  shows "table_ok MAX_POOL_STREAM_ATTEMPTS ok m'"
    and "fits \<Longrightarrow> table_room MAX_POOL_STREAM_ATTEMPTS k m'"
proof -
  let ?cands = "filter (\<lambda>(key, a). key \<noteq> k \<and> \<not> sa_in_flight a) m"
  show "table_ok MAX_POOL_STREAM_ATTEMPTS ok m'"
    using assms table_ok_delete
    by (auto simp: ensure_stream_attempt_capacity_def split: option.splits if_splits)
  assume fits
  show "table_room MAX_POOL_STREAM_ATTEMPTS k m'"
  proof (cases "length m < MAX_POOL_STREAM_ATTEMPTS \<or> map_of m k \<noteq> None")
    case True
    with assms(2) show ?thesis by (auto simp: ensure_stream_attempt_capacity_def table_room_def)
  next
    case False
    with assms(2) \<open>fits\<close> obtain v where v: "min_by_key (sa_last_access \<circ> snd) ?cands = Some v"
      and m': "m' = AList.delete (fst v) m"
      by (auto simp: ensure_stream_attempt_capacity_def split: option.splits)
    then have "v \<in> set m" using min_by_key_mem by fastforce
    then have "map_of m (fst v) \<noteq> None" by (auto simp: map_of_eq_None_iff)
    then have "length m' < length m" unfolding m' by (rule length_delete)
    with assms(1) show ?thesis by (simp add: table_ok_def table_room_def)
  qed
qed

section \<open>The invariant\<close>

definition pool_aligned :: "PoolConfig \<Rightarrow> bool" where
  "pool_aligned cfg \<longleftrightarrow>
     pc_members cfg \<noteq> [] \<and> length (pr_members (pc_router cfg)) = length (pc_members cfg)"

definition in_pool :: "PoolConfig \<Rightarrow> nat option \<Rightarrow> bool" where
  "in_pool cfg i \<longleftrightarrow> (case i of None \<Rightarrow> True | Some idx \<Rightarrow> idx < length (pc_members cfg))"

definition within_budget :: "PoolConfig \<Rightarrow> u32 \<Rightarrow> bool" where
  "within_budget cfg switch_count \<longleftrightarrow>
     (case max_switches_per_session (switch_policy cfg) of
        None \<Rightarrow> True
      | Some m \<Rightarrow> switch_count \<le> m)"

definition session_ok :: "PoolConfig \<Rightarrow> PoolSessionState \<Rightarrow> bool" where
  "session_ok cfg s \<longleftrightarrow> in_pool cfg (ss_active s) \<and> within_budget cfg (ss_switch_count s)"

definition attempt_ok :: "PoolConfig \<Rightarrow> PoolStreamAttemptState \<Rightarrow> bool" where
  "attempt_ok cfg a \<longleftrightarrow> in_pool cfg (sa_active a) \<and> length (sa_tried a) = length (pc_members cfg)"

definition pool_ok :: "PoolConfig \<Rightarrow> 'w PoolState \<Rightarrow> bool" where
  "pool_ok cfg st \<longleftrightarrow>
     table_ok MAX_POOL_SESSION_STATES (session_ok cfg) (ps_sessions st) \<and>
     table_ok MAX_POOL_STREAM_ATTEMPTS (attempt_ok cfg) (ps_stream_attempts st) \<and>
     length (ps_permanent_quarantine st) = length (pc_members cfg)"

lemma pool_ok_cong:
  "ps_sessions st' = ps_sessions st \<Longrightarrow> ps_stream_attempts st' = ps_stream_attempts st \<Longrightarrow>
   length (ps_permanent_quarantine st') = length (ps_permanent_quarantine st) \<Longrightarrow>
   pool_ok cfg st \<Longrightarrow> pool_ok cfg st'"
  by (simp add: pool_ok_def)

lemma pool_ok_frames [simp]:
  "pool_ok cfg (st\<lparr>ps_breaker := b\<rparr>) = pool_ok cfg st"
  "pool_ok cfg (st\<lparr>ps_clock := c\<rparr>) = pool_ok cfg st"
  "pool_ok cfg (st\<lparr>ps_world := w\<rparr>) = pool_ok cfg st"
  "pool_ok cfg (st\<lparr>ps_session_sequence := q\<rparr>) = pool_ok cfg st"
  "pool_ok cfg (st\<lparr>ps_stream_attempt_sequence := q\<rparr>) = pool_ok cfg st"
  "pool_ok cfg (st\<lparr>ps_anonymous_session_sequence := a\<rparr>) = pool_ok cfg st"
  "pool_ok cfg (st\<lparr>ps_home_sequence := a\<rparr>) = pool_ok cfg st"
  "pool_ok cfg (st\<lparr>ps_permanent_quarantine := (ps_permanent_quarantine st)[i := x]\<rparr>) = pool_ok cfg st"
  by (simp_all add: pool_ok_def)

lemma pool_ok_session: "pool_ok cfg st \<Longrightarrow> map_of (ps_sessions st) k = Some s \<Longrightarrow> session_ok cfg s"
  by (auto simp: pool_ok_def dest: table_ok_get)

lemma pool_ok_attempt: "pool_ok cfg st \<Longrightarrow> map_of (ps_stream_attempts st) k = Some a \<Longrightarrow> attempt_ok cfg a"
  by (auto simp: pool_ok_def dest: table_ok_get)

lemma pool_ok_put_session:
  "pool_ok cfg st \<Longrightarrow> table_ok MAX_POOL_SESSION_STATES (session_ok cfg) sessions \<Longrightarrow>
   table_room MAX_POOL_SESSION_STATES k sessions \<Longrightarrow> session_ok cfg s \<Longrightarrow>
   pool_ok cfg (put_session k s sessions st)"
  by (simp add: pool_ok_def put_session_def table_ok_update)

lemma pool_ok_put_attempt:
  "pool_ok cfg st \<Longrightarrow> table_ok MAX_POOL_STREAM_ATTEMPTS (attempt_ok cfg) attempts \<Longrightarrow>
   table_room MAX_POOL_STREAM_ATTEMPTS k attempts \<Longrightarrow> attempt_ok cfg a \<Longrightarrow>
   pool_ok cfg (put_attempt k a attempts st)"
  by (simp add: pool_ok_def put_attempt_def table_ok_update)

text \<open>An entry that is there can be put back changed.\<close>

lemma pool_ok_change_attempt:
  assumes "pool_ok cfg st" and "map_of (ps_stream_attempts st) k = Some a" and "attempt_ok cfg a'"
  shows "pool_ok cfg (put_attempt k a' (ps_stream_attempts st) st)"
  using assms by (intro pool_ok_put_attempt) (auto simp: pool_ok_def table_room_def)

lemma pool_ok_forget_attempt:
  "pool_ok cfg st \<Longrightarrow> pool_ok cfg (st\<lparr>ps_stream_attempts := AList.delete k (ps_stream_attempts st)\<rparr>)"
  by (simp add: pool_ok_def table_ok_delete)

lemma session_default_ok [simp]: "session_ok cfg PoolSessionState_default"
  by (simp add: session_ok_def PoolSessionState_default_def in_pool_def within_budget_def split: option.split)

lemma session_entry_ok:
  assumes "pool_ok cfg st" and "session_entry k st = (s, sessions)"
  shows "session_ok cfg s" and "table_ok MAX_POOL_SESSION_STATES (session_ok cfg) sessions"
    and "table_room MAX_POOL_SESSION_STATES k sessions"
proof -
  have sessions: "sessions = ensure_session_capacity k (ps_sessions st)"
    using assms(2) by (simp add: session_entry_def Let_def)
  have ok: "table_ok MAX_POOL_SESSION_STATES (session_ok cfg) (ps_sessions st)"
    using assms(1) by (simp add: pool_ok_def)
  show t: "table_ok MAX_POOL_SESSION_STATES (session_ok cfg) sessions"
    and "table_room MAX_POOL_SESSION_STATES k sessions"
    unfolding sessions by (rule ensure_session_capacity_ok [OF ok])+
  show "session_ok cfg s"
    using assms(2) t table_ok_get [OF t] by (auto simp: session_entry_def Let_def split: option.splits)
qed

lemma attempt_entry_ok:
  "table_ok cap (attempt_ok cfg) attempts \<Longrightarrow> attempt_ok cfg (attempt_entry cfg k attempts)"
  by (auto simp: attempt_entry_def attempt_ok_def PoolStreamAttemptState_new_def in_pool_def
      dest: table_ok_get split: option.split)

lemma within_budget_switch:
  "switches_remain cfg c \<Longrightarrow> within_budget cfg (c + 1)"
  by (auto simp: switches_remain_def within_budget_def split: option.splits intro: inc_le)

lemma select_home_in_range:
  assumes "pr_members r \<noteq> []"
  shows "select_home_with_sequence shape r key healthy seq < length (pr_members r)"
proof -
  have "0 < length (pr_members r)" using assms by simp
  then show ?thesis
    using by_score.pick_sound [of shape r key] by_turn.pick_sound [of r]
    by (auto simp: select_home_with_sequence_def unwrap_or_def round_robin_home_def split: option.split)
qed

section \<open>Every operation keeps the invariant\<close>

lemma session_key_ok: "pool_ok cfg st \<Longrightarrow> session_key cfg request st = (k, st') \<Longrightarrow> pool_ok cfg st'"
  by (auto simp: session_key_def Let_def split: option.splits)

lemma select_active_ok:
  assumes "pool_aligned cfg" and "pool_ok cfg st" and "select_active cfg skey st = (idx, st')"
  shows "pool_ok cfg st'" and "idx < length (pc_members cfg)"
proof -
  let ?st1 = "snd (next_session_sequence st)"
  obtain s sessions where e: "session_entry skey ?st1 = (s, sessions)" by fastforce
  have ok1: "pool_ok cfg ?st1" using assms(2) by (simp add: next_session_sequence_def)
  note entry = session_entry_ok [OF ok1 e]
  have ok2: "pool_ok cfg (snd (home_sequence_for_new_session cfg ?st1))"
    using ok1 by (simp add: home_sequence_for_new_session_def)
  have home: "select_home_with_sequence (pc_shape cfg) (pc_router cfg) skey h q < length (pc_members cfg)" for h q
    using assms(1) select_home_in_range [of "pc_router cfg"] by (fastforce simp: pool_aligned_def)
  have failover: "select_failover (pc_shape cfg) (pc_router cfg) skey c h = Some i \<Longrightarrow> i < length (pc_members cfg)" for c h i
    using assms(1) by_score.pick_sound [of "pc_shape cfg" "pc_router cfg"]
    by (auto simp: pool_aligned_def select_failover_def)
  have "pool_ok cfg st' \<and> idx < length (pc_members cfg)"
    using assms(3) e entry(1) ok1 ok2 home failover
    by (auto simp: select_active_def Let_def split_beta session_ok_def in_pool_def within_budget_switch
        intro!: pool_ok_put_session entry(2,3) split: option.splits if_splits)
  then show "pool_ok cfg st'" and "idx < length (pc_members cfg)" by simp_all
qed

lemma next_member_ok:
  assumes "pool_aligned cfg" and "pool_ok cfg st" and "next_member cfg skey current tried st = (r, st')"
  shows "pool_ok cfg st'"
proof -
  let ?st1 = "snd (next_session_sequence st)"
  obtain s sessions where e: "session_entry skey ?st1 = (s, sessions)" by fastforce
  have ok1: "pool_ok cfg ?st1" using assms(2) by (simp add: next_session_sequence_def)
  note entry = session_entry_ok [OF ok1 e]
  have failover: "select_failover (pc_shape cfg) (pc_router cfg) skey c h = Some i \<Longrightarrow> i < length (pc_members cfg)" for c h i
    using assms(1) by_score.pick_sound [of "pc_shape cfg" "pc_router cfg"]
    by (auto simp: pool_aligned_def select_failover_def)
  show ?thesis
    using assms(3) e entry(1) ok1 failover
    by (auto simp: next_member_def Let_def split_beta session_ok_def in_pool_def within_budget_switch
        intro!: pool_ok_put_session entry(2,3) split: option.splits if_splits)
qed

lemma next_on_error_ok:
  "pool_aligned cfg \<Longrightarrow> pool_ok cfg st \<Longrightarrow> next_on_error cfg skey current err tried st = (r, st') \<Longrightarrow> pool_ok cfg st'"
  using next_member_ok by (auto simp: next_on_error_def split: if_splits)

lemma next_on_unavailable_ok:
  "pool_aligned cfg \<Longrightarrow> pool_ok cfg st \<Longrightarrow> next_on_unavailable cfg skey current tried st = (r, st') \<Longrightarrow> pool_ok cfg st'"
  using next_member_ok by (auto simp: next_on_unavailable_def)

lemma check_member_ok: "pool_ok cfg st \<Longrightarrow> check_member cfg idx st = (r, st') \<Longrightarrow> pool_ok cfg st'"
  by (auto simp: check_member_def Let_def split_beta split: if_splits)

lemma record_failure_ok [simp]: "pool_ok cfg (record_failure cfg idx err st) = pool_ok cfg st"
  by (simp add: record_failure_def Let_def)

lemma record_member_success_ok [simp]: "pool_ok cfg (record_member_success cfg idx st) = pool_ok cfg st"
  by (simp add: record_member_success_def)

lemma reset_switch_budget_ok:
  assumes "pool_ok cfg st"
  shows "pool_ok cfg (reset_switch_budget skey st)"
proof (cases "map_of (ps_sessions st) skey")
  case None
  with assms show ?thesis by (simp add: reset_switch_budget_def next_session_sequence_def)
next
  case (Some s)
  have "session_ok cfg (s\<lparr>ss_last_access := a, ss_switch_count := 0\<rparr>)" for a
    using pool_ok_session [OF assms Some] by (simp add: session_ok_def within_budget_def split: option.split)
  moreover have "table_ok MAX_POOL_SESSION_STATES (session_ok cfg) (ps_sessions st)"
    and "table_room MAX_POOL_SESSION_STATES skey (ps_sessions st)"
    using assms Some by (simp_all add: pool_ok_def table_room_def)
  ultimately show ?thesis
    using assms Some pool_ok_put_session [of cfg "snd (next_session_sequence st)"]
    by (simp add: reset_switch_budget_def next_session_sequence_def)
qed

lemma stream_tried_mask_ok:
  assumes "pool_ok cfg st" and "stream_tried_mask cfg akey st = (tried, st')"
  shows "pool_ok cfg st'" and "length tried = length (pc_members cfg)"
proof -
  have ok1: "pool_ok cfg (snd (next_stream_attempt_sequence st))"
    using assms(1) by (simp add: next_stream_attempt_sequence_def)
  have "pool_ok cfg (snd (stream_tried_mask cfg akey st)) \<and>
      length (fst (stream_tried_mask cfg akey st)) = length (pc_members cfg)"
  proof (cases "Option.bind akey (map_of (ps_stream_attempts st))")
    case None
    with assms(1) show ?thesis by (auto simp: stream_tried_mask_def bind_eq_None_conv split: option.split)
  next
    case (Some a)
    then obtain k where k: "akey = Some k" "map_of (ps_stream_attempts st) k = Some a"
      by (auto simp: bind_eq_Some_conv)
    then have "attempt_ok cfg a" using assms(1) pool_ok_attempt by blast
    then show ?thesis
      using pool_ok_change_attempt [OF ok1, of k a "a\<lparr>sa_last_access := fst (next_stream_attempt_sequence st)\<rparr>"] k
      by (simp add: stream_tried_mask_def put_attempt_def attempt_ok_def next_stream_attempt_sequence_def)
  qed
  with assms(2) show "pool_ok cfg st'" and "length tried = length (pc_members cfg)" by simp_all
qed

lemma merge_stream_tried_mask_ok:
  "pool_ok cfg st \<Longrightarrow> merge_stream_tried_mask cfg tried akey st = (tried', st') \<Longrightarrow> pool_ok cfg st'"
  using stream_tried_mask_ok by (auto simp: merge_stream_tried_mask_def Let_def split: prod.splits)

text \<open>
  The shape that four methods share: make room for the attempt, take or create its entry, change
  it. \<open>put_attempt\<close> keeps the invariant if the change does.
\<close>

lemma attempt_change_ok:
  assumes "pool_ok cfg st" and "ensure_stream_attempt_capacity k (ps_stream_attempts st) = (True, attempts)"
    and "\<And>a. attempt_ok cfg a \<Longrightarrow> attempt_ok cfg (f a)"
  shows "pool_ok cfg (put_attempt k (f (attempt_entry cfg k attempts)) attempts
    (st\<lparr>ps_stream_attempt_sequence := q\<rparr>))"
proof -
  have t: "table_ok MAX_POOL_STREAM_ATTEMPTS (attempt_ok cfg) (ps_stream_attempts st)"
    using assms(1) by (simp add: pool_ok_def)
  note cap = ensure_stream_attempt_capacity_ok [OF t assms(2)]
  show ?thesis
    using assms(1) cap assms(3) [OF attempt_entry_ok [OF cap(1)]] by (simp add: pool_ok_put_attempt)
qed

lemma attempt_no_room_ok:
  assumes "pool_ok cfg st" and "ensure_stream_attempt_capacity k (ps_stream_attempts st) = (False, attempts)"
  shows "pool_ok cfg (st\<lparr>ps_stream_attempts := attempts\<rparr>)"
  using assms ensure_stream_attempt_capacity_ok(1) [OF _ assms(2)] by (simp add: pool_ok_def)

lemma mark_stream_active_ok:
  assumes "pool_ok cfg st" and "idx < length (pc_members cfg)"
    and "mark_stream_active cfg akey idx st = (r, st')"
  shows "pool_ok cfg st'"
proof -
  have "attempt_ok cfg a \<Longrightarrow>
      attempt_ok cfg (a\<lparr>sa_last_access := x, sa_tried := (sa_tried a)[idx := True],
        sa_active := Some idx, sa_failure_observed := False,
        sa_request_callbacks_ambiguous := sa_request_callbacks_ambiguous a \<or> 0 < sa_live_streams a,
        sa_live_streams := saturating_add (sa_live_streams a) 1, sa_in_flight := True\<rparr>)" for a x
    using assms(2) by (simp add: attempt_ok_def in_pool_def)
  with assms(1,3) show ?thesis
    by (auto simp: mark_stream_active_def next_stream_attempt_sequence_def Let_def attempt_no_room_ok
        intro!: attempt_change_ok split: option.splits prod.splits bool.splits)
qed

lemma mark_stream_open_failure_ok:
  assumes "pool_ok cfg st" and "idx < length (pc_members cfg)"
  shows "pool_ok cfg (mark_stream_open_failure cfg akey idx st)"
proof -
  have "attempt_ok cfg a \<Longrightarrow>
      attempt_ok cfg (a\<lparr>sa_last_access := x, sa_tried := (sa_tried a)[idx := True],
        sa_active := Some idx, sa_failure_observed := True, sa_in_flight := 0 < sa_live_streams a\<rparr>)" for a x
    using assms(2) by (simp add: attempt_ok_def in_pool_def)
  with assms(1) show ?thesis
    by (auto simp: mark_stream_open_failure_def next_stream_attempt_sequence_def Let_def attempt_no_room_ok
        intro!: attempt_change_ok split: option.splits prod.splits bool.splits)
qed

lemma stream_ended_ok [simp]: "attempt_ok cfg (stream_ended a) = attempt_ok cfg a"
  by (simp add: stream_ended_def attempt_ok_def Let_def)

lemma record_stream_attempt_failure_ok:
  assumes "pool_aligned cfg" and "pool_ok cfg st" and "current < length (pc_members cfg)"
  shows "pool_ok cfg (record_stream_attempt_failure cfg skey akey current err st)"
proof -
  let ?st1 = "record_failure cfg current err st"
  define mid where "mid =
    (case akey of
       None \<Rightarrow> ((replicate (length (pc_members cfg)) False)[current := True], ?st1)
     | Some key \<Rightarrow>
         (case ensure_stream_attempt_capacity key (ps_stream_attempts ?st1) of
            (False, attempts) \<Rightarrow> ((replicate (length (pc_members cfg)) False)[current := True],
                ?st1\<lparr>ps_stream_attempts := attempts\<rparr>)
          | (True, attempts) \<Rightarrow>
              (let a = attempt_entry cfg key attempts;
                   (access, st') = next_stream_attempt_sequence ?st1;
                   a1 = a\<lparr>sa_last_access := access, sa_tried := (sa_tried a)[current := True],
                          sa_active := Some current, sa_in_flight := 0 < sa_live_streams a\<rparr>
               in (sa_tried a1, put_attempt key a1 attempts st'))))"
  have change: "attempt_ok cfg a \<Longrightarrow>
      attempt_ok cfg (a\<lparr>sa_last_access := x, sa_tried := (sa_tried a)[current := True],
        sa_active := Some current, sa_in_flight := 0 < sa_live_streams a\<rparr>)" for a x
    using assms(3) by (simp add: attempt_ok_def in_pool_def)
  have ok1: "pool_ok cfg ?st1" using assms(2) by simp
  have mid_ok: "pool_ok cfg (snd mid)"
    using ok1 change
    by (auto simp: mid_def next_stream_attempt_sequence_def Let_def attempt_no_room_ok
        intro!: attempt_change_ok split: option.splits prod.splits bool.splits)
  have "record_stream_attempt_failure cfg skey akey current err st =
      (case mid of (tried, st2) \<Rightarrow>
         if should_switch_on_error (pc_router cfg) err then
           snd (next_on_error cfg skey current err tried st2)
         else if on_circuit_open (switch_policy cfg) \<and>
                 \<not> cb_is_available (member_model cfg current) (ps_clock st2) (ps_breaker st2) then
           snd (next_on_unavailable cfg skey current tried st2)
         else st2)"
    by (simp add: record_stream_attempt_failure_def mid_def Let_def)
  with mid_ok show ?thesis
    using next_on_error_ok [OF assms(1) mid_ok prod.collapse [symmetric], of skey current err]
      next_on_unavailable_ok [OF assms(1) mid_ok prod.collapse [symmetric], of skey current]
    by (simp add: split_beta)
qed

lemma record_stream_attempt_success_ok:
  assumes "pool_ok cfg st"
  shows "pool_ok cfg (record_stream_attempt_success cfg skey akey current st)"
  using assms
  by (auto simp: record_stream_attempt_success_def Let_def reset_switch_budget_ok pool_ok_forget_attempt
      dest: pool_ok_attempt intro!: pool_ok_change_attempt split: option.split)

lemma record_stream_attempt_failure_once_ok:
  assumes "pool_aligned cfg" and "pool_ok cfg st" and "current < length (pc_members cfg)"
  shows "pool_ok cfg (record_stream_attempt_failure_once cfg skey akey current err fin st)"
proof (cases "Option.bind akey (map_of (ps_stream_attempts st))")
  case None
  with assms record_stream_attempt_failure_ok show ?thesis
    by (auto simp: record_stream_attempt_failure_once_def bind_eq_None_conv split: option.split)
next
  case (Some a)
  then obtain k where k: "akey = Some k" "map_of (ps_stream_attempts st) k = Some a"
    by (auto simp: bind_eq_Some_conv)
  then have a: "attempt_ok cfg a" using assms(2) pool_ok_attempt by blast
  define a2 where "a2 = (if fin then stream_ended (a\<lparr>sa_last_access := fst (next_stream_attempt_sequence st)\<rparr>)
    else a\<lparr>sa_last_access := fst (next_stream_attempt_sequence st)\<rparr>)"
  let ?st1 = "snd (next_stream_attempt_sequence st)"
  have ok1: "pool_ok cfg ?st1" and k1: "map_of (ps_stream_attempts ?st1) k = Some a"
    using assms(2) k by (simp_all add: next_stream_attempt_sequence_def)
  have a2: "attempt_ok cfg a2" using a by (simp add: a2_def attempt_ok_def stream_ended_def Let_def)
  let ?a3 = "a2\<lparr>sa_tried := (sa_tried a2)[current := True], sa_failure_observed := True,
      sa_in_flight := 0 < sa_live_streams a2\<rparr>"
  have "attempt_ok cfg ?a3" using a2 by (simp add: attempt_ok_def)
  note put2 = pool_ok_change_attempt [OF ok1 k1 a2] and put3 = pool_ok_change_attempt [OF ok1 k1 this]
  have "record_stream_attempt_failure_once cfg skey akey current err fin st =
      (if sa_active a2 \<noteq> Some current then put_attempt k a2 (ps_stream_attempts ?st1) ?st1
       else if sa_failure_observed a2 then put_attempt k ?a3 (ps_stream_attempts ?st1) ?st1
       else record_stream_attempt_failure cfg skey akey current err
              (put_attempt k ?a3 (ps_stream_attempts ?st1) ?st1))"
    using k by (simp add: record_stream_attempt_failure_once_def Let_def split_beta a2_def)
  with put2 put3 record_stream_attempt_failure_ok [OF assms(1) put3 assms(3), where err = err] show ?thesis by simp
qed

lemma record_stream_attempt_abandoned_ok:
  assumes "pool_ok cfg st"
  shows "pool_ok cfg (record_stream_attempt_abandoned cfg akey current st)"
proof (cases "Option.bind akey (map_of (ps_stream_attempts st))")
  case None
  with assms show ?thesis
    by (auto simp: record_stream_attempt_abandoned_def Let_def bind_eq_None_conv split: option.split)
next
  case (Some a)
  then obtain k where k: "akey = Some k" "map_of (ps_stream_attempts st) k = Some a"
    by (auto simp: bind_eq_Some_conv)
  then have a: "attempt_ok cfg a" using assms pool_ok_attempt by blast
  have ok1: "pool_ok cfg (snd (next_stream_attempt_sequence st))"
    using assms by (simp add: next_stream_attempt_sequence_def)
  have "attempt_ok cfg ((stream_ended a)\<lparr>sa_last_access := x\<rparr>)" for x
    using a by (simp add: attempt_ok_def stream_ended_def Let_def)
  note put = pool_ok_change_attempt [OF ok1 _ this, of k a]
  show ?thesis
    using k put pool_ok_forget_attempt [OF ok1, of k] pool_ok_change_attempt [OF assms k(2), of "stream_ended a"] a
    by (simp add: record_stream_attempt_abandoned_def Let_def next_stream_attempt_sequence_def)
qed

lemma record_stream_member_failure_ok:
  assumes "pool_aligned cfg" and "pool_ok cfg st"
  shows "pool_ok cfg (record_stream_member_failure cfg request err st)"
proof -
  obtain skey st1 where sk: "session_key cfg request st = (skey, st1)" by fastforce
  have ok1: "pool_ok cfg st1" using session_key_ok [OF assms(2) sk] .
  define who where "who = Option.bind (stream_attempt_key skey request) (\<lambda>key.
    Option.bind (map_of (ps_stream_attempts st1) key)
      (\<lambda>a. if sa_request_callbacks_ambiguous a then None else sa_active a))"
  have "current < length (pc_members cfg)" if "who = Some current" for current
    using that pool_ok_attempt [OF ok1]
    by (force simp: who_def bind_eq_Some_conv attempt_ok_def in_pool_def split: if_splits)
  with ok1 sk record_stream_attempt_failure_once_ok [OF assms(1) ok1, where err = err] show ?thesis
    unfolding record_stream_member_failure_def who_def [symmetric]
    by (simp add: Let_def who_def [symmetric] split: option.split)
qed

section \<open>Calls to members\<close>

text \<open>The pool's own bookkeeping leaves what the members work on alone.\<close>

lemma ps_world_bookkeeping [simp]:
  "ps_world (snd (session_key cfg request st)) = ps_world st"
  "ps_world (snd (select_active cfg skey st)) = ps_world st"
  "ps_world (snd (next_on_error cfg skey idx err tried st)) = ps_world st"
  "ps_world (snd (next_on_unavailable cfg skey idx tried st)) = ps_world st"
  "ps_world (snd (check_member cfg idx st)) = ps_world st"
  "ps_world (record_failure cfg idx err st) = ps_world st"
  "ps_world (record_member_success cfg idx st) = ps_world st"
  "ps_world (reset_switch_budget skey st) = ps_world st"
  by (simp_all add: session_key_def select_active_def next_on_error_def next_on_unavailable_def
      next_member_def check_member_def record_failure_def record_member_success_def
      reset_switch_budget_def next_session_sequence_def home_sequence_for_new_session_def
      put_session_def Let_def split_beta split: option.split)

lemma ps_world_stream_bookkeeping [simp]:
  "ps_world (snd (stream_tried_mask cfg akey st)) = ps_world st"
  "ps_world (snd (merge_stream_tried_mask cfg tried akey st)) = ps_world st"
  "ps_world (snd (mark_stream_active cfg akey idx st)) = ps_world st"
  "ps_world (mark_stream_open_failure cfg akey idx st) = ps_world st"
  by (simp_all add: stream_tried_mask_def merge_stream_tried_mask_def mark_stream_active_def
      mark_stream_open_failure_def next_stream_attempt_sequence_def put_attempt_def Let_def split_beta
      split: option.split bool.split)

lemma ps_world_eq:
  "next_on_error cfg skey idx err tried st = (r, st') \<Longrightarrow> ps_world st' = ps_world st"
  "next_on_unavailable cfg skey idx tried st = (r, st') \<Longrightarrow> ps_world st' = ps_world st"
  "check_member cfg idx st = (c, st') \<Longrightarrow> ps_world st' = ps_world st"
  "mark_stream_active cfg akey idx st = (b, st') \<Longrightarrow> ps_world st' = ps_world st"
  "merge_stream_tried_mask cfg tried akey st = (t, st') \<Longrightarrow> ps_world st' = ps_world st"
  by (metis ps_world_bookkeeping ps_world_stream_bookkeeping snd_conv)+

lemma check_member_no_panic: "check_member cfg idx st \<noteq> (Panic p, st')"
  by (auto simp: check_member_def cb_check_def Let_def split: if_splits CircuitStatus.splits)

lemma check_member_admits: "check_member cfg idx st = (Ok u, st') \<Longrightarrow> \<not> quarantined st' idx"
  by (auto simp: check_member_def quarantined_def Let_def split_beta split: if_splits)

text \<open>The calls of one request: each member at most once, none marked before, none quarantined.\<close>

definition fresh_calls :: "PoolConfig \<Rightarrow> bool list \<Rightarrow> nat \<Rightarrow> (nat \<times> bool) list \<Rightarrow> bool" where
  "fresh_calls cfg tried idx cs \<longleftrightarrow>
     distinct (map fst cs) \<and>
     (\<forall>(i, q) \<in> set cs. i < length (pc_members cfg) \<and> (i = idx \<or> \<not> tried ! i) \<and> \<not> q)"

lemma fresh_calls_Nil [simp]: "fresh_calls cfg tried idx []"
  by (simp add: fresh_calls_def)

lemma fresh_calls_switch:
  assumes "fresh_calls cfg tried' nxt cs" and "idx < length tried" and "length tried = length (pc_members cfg)"
    and "\<not> tried[idx := True] ! nxt"
    and "\<And>i. i < length tried \<Longrightarrow> tried[idx := True] ! i \<Longrightarrow> tried' ! i"
  shows "fresh_calls cfg tried idx cs" and "fresh_calls cfg tried idx ((idx, False) # cs)"
proof -
  have "i \<noteq> idx \<and> \<not> tried ! i" if "(i, q) \<in> set cs" for i q
  proof -
    have i: "i < length tried" "i = nxt \<or> \<not> tried' ! i"
      using assms(1,3) that by (auto simp: fresh_calls_def)
    then have "\<not> tried[idx := True] ! i" using assms(4,5) by auto
    with assms(2) show ?thesis by (cases "i = idx") auto
  qed
  moreover from this have "idx \<notin> fst ` set cs" by (metis imageE prod.collapse)
  ultimately show "fresh_calls cfg tried idx cs" and "fresh_calls cfg tried idx ((idx, False) # cs)"
    using assms(1-3) by (auto simp: fresh_calls_def)
qed

text \<open>One switch of a request loop: a fresh member, the invariant, and progress.\<close>

lemma switch_sound:
  assumes "pool_aligned cfg" and "pool_ok cfg st" and "idx < length tried"
    and "length tried = length (pc_members cfg)"
    and "next_on_error cfg skey idx err (tried[idx := True]) st = (Some nxt, st') \<or>
      next_on_unavailable cfg skey idx (tried[idx := True]) st = (Some nxt, st')"
  shows "nxt < length tried" and "\<not> tried[idx := True] ! nxt" and "pool_ok cfg st'"
    and "ps_world st' = ps_world st" and "rounds_left nxt (tried[idx := True]) < rounds_left idx tried"
proof -
  let ?t = "tried[idx := True]"
  note sound = next_on_error_sound [of cfg skey idx err ?t st nxt st']
    next_on_unavailable_sound [of cfg skey idx ?t st nxt st']
  show nxt: "nxt < length tried" using assms(1,4,5) sound(2,4) by (auto simp: pool_aligned_def)
  show "\<not> ?t ! nxt" using assms(4,5) sound(1,3) nxt by auto
  show "pool_ok cfg st'"
    using assms(5) next_on_error_ok [OF assms(1,2)] next_on_unavailable_ok [OF assms(1,2)] by blast
  show "ps_world st' = ps_world st" using assms(5) ps_world_eq(1,2) by metis
  show "rounds_left nxt ?t < rounds_left idx tried"
    using switch_decreases [of idx tried cfg nxt st' skey err st ?t] assms(3-5) by auto
qed

text \<open>The rounds of the two loops.\<close>

lemma pool_loop_blocked:
  "idx < length tried \<Longrightarrow> length tried = length (pc_members cfg) \<Longrightarrow>
   check_member cfg idx st = (Err e, st1) \<Longrightarrow>
   next_on_unavailable cfg skey idx (tried[idx := True]) st1 = (r, st2) \<Longrightarrow>
   pool_loop cfg run request skey idx tried st =
     (case r of Some nxt \<Rightarrow> pool_loop cfg run request skey nxt (tried[idx := True]) st2
      | None \<Rightarrow> (Err (no_member_available_error cfg e (tried[idx := True]) st2), st2))"
  by (simp add: pool_loop.simps [of cfg run request skey idx] Let_def split: option.split)

lemma pool_loop_answered:
  "idx < length tried \<Longrightarrow> length tried = length (pc_members cfg) \<Longrightarrow>
   check_member cfg idx st = (Ok u :: (unit, 'v InferenceExecutionError) outcome, st1) \<Longrightarrow>
   run idx (request_for cfg idx request) st1 = (Ok res, st2) \<Longrightarrow>
   pool_loop cfg (run :: ('r, 'v, 'w) member_call) request skey idx tried st =
     (Ok res, reset_switch_budget skey (record_member_success cfg idx st2))"
  by (simp add: pool_loop.simps [of cfg run request skey idx] Let_def)

lemma pool_loop_failed:
  "idx < length tried \<Longrightarrow> length tried = length (pc_members cfg) \<Longrightarrow>
   check_member cfg idx st = (Ok u :: (unit, 'v InferenceExecutionError) outcome, st1) \<Longrightarrow>
   run idx (request_for cfg idx request) st1 = (Err err, st2) \<Longrightarrow>
   next_on_error cfg skey idx err (tried[idx := True]) (record_failure cfg idx err st2) = (r, st4) \<Longrightarrow>
   pool_loop cfg (run :: ('r, 'v, 'w) member_call) request skey idx tried st =
     (case r of Some nxt \<Rightarrow> pool_loop cfg run request skey nxt (tried[idx := True]) st4
      | None \<Rightarrow> (Err (if should_switch_on_error (pc_router cfg) err
            then error_driven_no_member_available_error cfg err (tried[idx := True]) st4 else err), st4))"
  by (simp add: pool_loop.simps [of cfg run request skey idx] Let_def split: option.split)

lemma stream_loop_blocked:
  "idx < length tried \<Longrightarrow> length tried = length (pc_members cfg) \<Longrightarrow>
   check_member cfg idx st = (Err e, st1) \<Longrightarrow>
   next_on_unavailable cfg skey idx (tried[idx := True]) st1 = (r, st2) \<Longrightarrow>
   pool_stream_loop cfg run request skey akey idx tried st =
     (case r of Some nxt \<Rightarrow> pool_stream_loop cfg run request skey akey nxt (tried[idx := True]) st2
      | None \<Rightarrow> (Err (no_member_available_error cfg e (tried[idx := True]) st2), st2))"
  by (simp add: pool_stream_loop.simps [of cfg run request skey akey idx] Let_def split: option.split)

lemma stream_loop_opened:
  "idx < length tried \<Longrightarrow> length tried = length (pc_members cfg) \<Longrightarrow>
   check_member cfg idx st = (Ok u :: (unit, 'v InferenceExecutionError) outcome, st1) \<Longrightarrow>
   run idx (request_for cfg idx request) st1 = (Ok res, st2) \<Longrightarrow>
   pool_stream_loop cfg (run :: (unit, 'v, 'w) member_call) request skey akey idx tried st =
     (case mark_stream_active cfg akey idx st2 of (cached, st3) \<Rightarrow>
        (Ok (PoolObservedStream_new skey (if cached then akey else None) idx), st3))"
  by (simp add: pool_stream_loop.simps [of cfg run request skey akey idx] Let_def)

lemma stream_loop_failed:
  "idx < length tried \<Longrightarrow> length tried = length (pc_members cfg) \<Longrightarrow>
   check_member cfg idx st = (Ok u :: (unit, 'v InferenceExecutionError) outcome, st1) \<Longrightarrow>
   run idx (request_for cfg idx request) st1 = (Err err, st2) \<Longrightarrow>
   next_on_error cfg skey idx err (tried[idx := True])
     (mark_stream_open_failure cfg akey idx (record_failure cfg idx err st2)) = (r, st4) \<Longrightarrow>
   pool_stream_loop cfg (run :: (unit, 'v, 'w) member_call) request skey akey idx tried st =
     (case r of
        Some nxt \<Rightarrow>
          (case (if akey \<noteq> None then merge_stream_tried_mask cfg (tried[idx := True]) akey st4
                 else (tried[idx := True], st4)) of
             (tried', st5) \<Rightarrow> pool_stream_loop cfg run request skey akey nxt tried' st5)
      | None \<Rightarrow> (Err (if should_switch_on_error (pc_router cfg) err
            then error_driven_no_member_available_error cfg err (tried[idx := True]) st4 else err), st4))"
  by (simp add: pool_stream_loop.simps [of cfg run request skey akey idx] Let_def split: option.split)

text \<open>The marks after a failed open include those before it.\<close>

lemma merged_marks:
  assumes "pool_ok cfg st"
    and "(if akey \<noteq> None then merge_stream_tried_mask cfg tried akey st else (tried, st)) = (tried', st')"
  shows "length tried' = length tried" and "pool_ok cfg st'" and "ps_world st' = ps_world st"
    and "i < length tried \<Longrightarrow> tried ! i \<Longrightarrow> tried' ! i"
  using assms merge_stream_tried_mask_keeps [of cfg tried akey st tried' st']
    merge_stream_tried_mask_ok [of cfg st tried akey tried' st'] ps_world_eq(5) [of cfg tried akey st tried' st']
  by (auto split: if_splits)

lemma round_cases:
  fixes run :: "('r, 'v, 'w) member_call"
  assumes "\<And>idx req st. \<not> is_panic (fst (run idx req st))"
  obtains (blocked) e st1 where "check_member cfg idx st = (Err (e :: 'v InferenceExecutionError), st1)"
  | (answered) u st1 res st2 where
      "check_member cfg idx st = (Ok u :: (unit, 'v InferenceExecutionError) outcome, st1)" and
      "run idx req st1 = (Ok res, st2)"
  | (failed) u st1 err st2 where
      "check_member cfg idx st = (Ok u :: (unit, 'v InferenceExecutionError) outcome, st1)" and
      "run idx req st1 = (Err err, st2)"
proof (cases "check_member cfg idx st :: (unit, 'v InferenceExecutionError) outcome \<times> 'w PoolState")
  case (Pair c st1)
  show ?thesis
  proof (cases c)
    case (Ok u)
    with Pair show ?thesis
      using assms [of idx req st1] answered failed
      by (cases "run idx req st1"; cases "fst (run idx req st1)") auto
  qed (use Pair blocked check_member_no_panic in \<open>metis+\<close>)
qed

text \<open>
  The contract of a member executor, as far as the pool relies on it: a call leaves the pool's
  tables well formed, whatever other requests do in the meantime, it returns, and it adds at most
  one entry to the record of calls, with the member's quarantine flag at that moment.
\<close>

locale member_calls =
  fixes cfg :: PoolConfig
    and run :: "('r, 'v, 'w) member_call"
    and calls :: "'w \<Rightarrow> (nat \<times> bool) list"
  assumes call_keeps: "pool_ok cfg st \<Longrightarrow> pool_ok cfg (snd (run idx req st))"
    and call_returns: "\<not> is_panic (fst (run idx req st))"
    and call_logged: "\<exists>c. calls (ps_world (snd (run idx req st))) = calls (ps_world st) @ c \<and>
      (c = [] \<or> c = [(idx, quarantined st idx)])"
begin

definition logged :: "nat \<Rightarrow> 'w PoolState \<Rightarrow> 'w PoolState \<Rightarrow> bool" where
  "logged idx st st' \<longleftrightarrow>
     (\<exists>c. calls (ps_world st') = calls (ps_world st) @ c \<and> (c = [] \<or> c = [(idx, False)]))"

lemma logged_same: "ps_world st' = ps_world st \<Longrightarrow> logged idx st st'"
  by (simp add: logged_def)

lemma logged_world: "ps_world st'' = ps_world st' \<Longrightarrow> logged idx st st'' = logged idx st st'"
  by (simp add: logged_def)

definition served :: "bool list \<Rightarrow> nat \<Rightarrow> 'w PoolState \<Rightarrow> ('a, 'b) outcome \<times> 'w PoolState \<Rightarrow> bool" where
  "served tried idx st res \<longleftrightarrow>
     pool_ok cfg (snd res) \<and> \<not> is_panic (fst res) \<and>
     (\<exists>cs. calls (ps_world (snd res)) = calls (ps_world st) @ cs \<and> fresh_calls cfg tried idx cs)"

lemma served_done: "pool_ok cfg st' \<Longrightarrow> \<not> is_panic r \<Longrightarrow> ps_world st' = ps_world st \<Longrightarrow> served tried idx st (r, st')"
  by (auto simp: served_def intro: exI [of _ "[]"])

lemma served_switch:
  assumes "served tried' nxt st' res" and "idx < length tried" and "length tried = length (pc_members cfg)"
    and "\<not> tried[idx := True] ! nxt" and "\<And>i. i < length tried \<Longrightarrow> tried[idx := True] ! i \<Longrightarrow> tried' ! i"
    and "logged idx st st'"
  shows "served tried idx st res"
proof -
  obtain cs where cs: "calls (ps_world (snd res)) = calls (ps_world st') @ cs"
    and fresh: "fresh_calls cfg tried' nxt cs"
    using assms(1) by (auto simp: served_def)
  obtain c where c: "calls (ps_world st') = calls (ps_world st) @ c" "c = [] \<or> c = [(idx, False)]"
    using assms(6) by (auto simp: logged_def)
  have "fresh_calls cfg tried idx (c @ cs)"
    using fresh_calls_switch [OF fresh assms(2-5)] c(2) by auto
  with assms(1) cs c(1) show ?thesis by (auto simp: served_def)
qed

lemma served_call:
  assumes "logged idx st st'" and "pool_ok cfg st'" and "\<not> is_panic r" and "idx < length (pc_members cfg)"
  shows "served tried idx st (r, st')"
  using assms by (fastforce simp: served_def logged_def fresh_calls_def)

lemma call_result:
  assumes "pool_ok cfg st"
    and "check_member cfg idx st = (Ok u :: (unit, 'v InferenceExecutionError) outcome, st1)"
    and "run idx req st1 = (r, st2)"
  shows "pool_ok cfg st2" and "logged idx st st2"
  using assms check_member_admits [OF assms(2)] check_member_ok [OF assms(1,2)] ps_world_eq(3) [OF assms(2)]
    call_keeps [of st1 idx req] call_logged [of idx req st1] by (simp_all add: logged_def)

lemma loop_served:
  assumes "pool_aligned cfg" and "pool_ok cfg st" and "idx < length tried"
    and "length tried = length (pc_members cfg)"
  shows "served tried idx st (pool_loop cfg run request skey idx tried st)"
  using assms(2-4)
proof (induction "rounds_left idx tried" arbitrary: idx tried st rule: less_induct)
  case less
  let ?t = "tried[idx := True]"
  note sw = switch_sound [OF assms(1) _ less.prems(2,3)]
  have again: "served ?t nxt st' (pool_loop cfg run request skey nxt ?t st')"
    if "next_on_error cfg skey idx (err :: 'v InferenceExecutionError) ?t st0 = (Some nxt, st') \<or>
        next_on_unavailable cfg skey idx ?t st0 = (Some nxt, st')" and "pool_ok cfg st0" for nxt st' st0 err
    using less.hyps [OF sw(5) [OF that(2,1)] sw(3) [OF that(2,1)]] sw(1) [OF that(2,1)] less.prems(3) by simp
  from call_returns show ?case
  proof (cases rule: round_cases [where run = run and cfg = cfg and idx = idx and st = st and req = "request_for cfg idx request",
        case_names blocked answered failed])
    case (blocked e st1)
    obtain r st2 where n: "next_on_unavailable cfg skey idx ?t st1 = (r, st2)" by fastforce
    have ok1: "pool_ok cfg st1" and w: "ps_world st1 = ps_world st"
      using check_member_ok blocked ps_world_eq(3) less.prems(1) by blast+
    show ?thesis
    proof (cases r)
      case None
      with n w show ?thesis
        using pool_loop_blocked [OF less.prems(2,3) blocked n, of run] next_on_unavailable_ok [OF assms(1) ok1 n]
          ps_world_eq(2) [OF n] by (simp add: served_done)
    next
      case (Some nxt)
      note n' = disjI2 [OF n [unfolded Some]]
      show ?thesis
        using pool_loop_blocked [OF less.prems(2,3) blocked n, of run] Some logged_same [of st2 st idx] w sw(4) [OF ok1 n']
          served_switch [OF again [OF n' ok1] less.prems(2,3) sw(2) [OF ok1 n']] by simp
    qed
  next
    case (answered u st1 res st2)
    show ?thesis
      unfolding pool_loop_answered [where run = run, OF less.prems(2,3) answered]
      using call_result [OF less.prems(1) answered] less.prems(2,3)
      by (intro served_call) (simp_all add: reset_switch_budget_ok logged_world [of "reset_switch_budget skey (record_member_success cfg idx st2)" st2])
  next
    case (failed u st1 err st2)
    note called = call_result [OF less.prems(1) failed]
    have ok3: "pool_ok cfg (record_failure cfg idx err st2)" using called by simp
    obtain r st4 where n: "next_on_error cfg skey idx err ?t (record_failure cfg idx err st2) = (r, st4)"
      by fastforce
    show ?thesis
    proof (cases r)
      case None
      with n show ?thesis
        using pool_loop_failed [where run = run, OF less.prems(2,3) failed n] next_on_error_ok [OF assms(1) ok3 n]
          ps_world_eq(1) [OF n] called(2) less.prems(2,3) by (simp add: served_call logged_world [of st4 st2])
    next
      case (Some nxt)
      note n' = disjI1 [OF n [unfolded Some]]
      show ?thesis
        using pool_loop_failed [where run = run, OF less.prems(2,3) failed n] Some called(2) sw(4) [OF ok3 n'] logged_world [of st4 st2]
          served_switch [OF again [OF n' ok3] less.prems(2,3) sw(2) [OF ok3 n']] by simp
    qed
  qed
qed

end

text \<open>Opening a stream calls members under the same rules.\<close>

locale stream_calls = member_calls cfg run calls
  for cfg and run :: "(unit, 'v, 'w) member_call" and calls
begin

lemma stream_loop_served:
  assumes "pool_aligned cfg" and "pool_ok cfg st" and "idx < length tried"
    and "length tried = length (pc_members cfg)"
  shows "served tried idx st (pool_stream_loop cfg run request skey akey idx tried st)"
  using assms(2-4)
proof (induction "rounds_left idx tried" arbitrary: idx tried st rule: less_induct)
  case less
  let ?t = "tried[idx := True]"
  note sw = switch_sound [OF assms(1) _ less.prems(2,3)]
  have idx: "idx < length (pc_members cfg)" using less.prems(2,3) by simp
  from call_returns show ?case
  proof (cases rule: round_cases [where run = run and cfg = cfg and idx = idx and st = st
        and req = "request_for cfg idx request"])
    case (blocked e st1)
    obtain r st2 where n: "next_on_unavailable cfg skey idx ?t st1 = (r, st2)" by fastforce
    have ok1: "pool_ok cfg st1" and w: "ps_world st1 = ps_world st"
      using check_member_ok blocked ps_world_eq(3) less.prems(1) by blast+
    note unfolded = stream_loop_blocked [OF less.prems(2,3) blocked n, of run request akey]
    show ?thesis
    proof (cases r)
      case None
      with n w unfolded show ?thesis
        using next_on_unavailable_ok [OF assms(1) ok1 n] ps_world_eq(2) [OF n] by (simp add: served_done)
    next
      case (Some nxt)
      note n' = disjI2 [OF n [unfolded Some]]
      have "served ?t nxt st2 (pool_stream_loop cfg run request skey akey nxt ?t st2)"
        using less.hyps [OF sw(5) [OF ok1 n'] sw(3) [OF ok1 n']] sw(1) [OF ok1 n'] less.prems(3) by simp
      then show ?thesis
        using unfolded Some logged_same [of st2 st idx] w sw(4) [OF ok1 n'] served_switch [OF _ less.prems(2,3) sw(2) [OF ok1 n']] by simp
    qed
  next
    case (answered u st1 res st2)
    obtain b st3 where m: "mark_stream_active cfg akey idx st2 = (b, st3)" by fastforce
    note called = call_result [OF less.prems(1) answered]
    show ?thesis
      using stream_loop_opened [where run = run, OF less.prems(2,3) answered] m
        mark_stream_active_ok [OF called(1) idx m] ps_world_eq(4) [OF m] called(2) idx
      by (simp add: served_call logged_world [of st3 st2])
  next
    case (failed u st1 err st2)
    note called = call_result [OF less.prems(1) failed]
    let ?st3 = "mark_stream_open_failure cfg akey idx (record_failure cfg idx err st2)"
    have ok3: "pool_ok cfg ?st3" using called idx by (simp add: mark_stream_open_failure_ok)
    obtain r st4 where n: "next_on_error cfg skey idx err ?t ?st3 = (r, st4)" by fastforce
    note unfolded = stream_loop_failed [where run = run, OF less.prems(2,3) failed n]
    show ?thesis
    proof (cases r)
      case None
      with n unfolded show ?thesis
        using next_on_error_ok [OF assms(1) ok3 n] ps_world_eq(1) [OF n] called(2) idx by (simp add: served_call logged_world [of st4 st2])
    next
      case (Some nxt)
      note n' = disjI1 [OF n [unfolded Some]]
      obtain t' st5 where m: "(if akey \<noteq> None then merge_stream_tried_mask cfg ?t akey st4 else (?t, st4)) = (t', st5)"
        by fastforce
      note mm = merged_marks [OF sw(3) [OF ok3 n'] m]
      have "rounds_left nxt t' < rounds_left idx tried"
        using merged_switch_decreases [of idx tried cfg nxt st4 skey err ?st3 akey] less.prems(2,3) n Some m by simp
      then have next_served: "served t' nxt st5 (pool_stream_loop cfg run request skey akey nxt t' st5)"
        using less.hyps [OF _ mm(2)] sw(1) [OF ok3 n'] mm(1) less.prems(3) by simp
      show ?thesis
        using unfolded Some m called(2) sw(4) [OF ok3 n'] mm(3,4) logged_world [of st5 st2]
          served_switch [OF next_served less.prems(2,3) sw(2) [OF ok3 n']] by simp
    qed
  qed
qed

end

end
