(* ===== verification/Pool_Protocol.thy ===== *)
theory Pool_Protocol
  imports Pool_Safety
begin

text \<open>
  The pool executor as a whole: which states it can get into when requests, streams, callbacks and
  other holders of the shared breaker interleave, and the theorems about requests, sessions and
  streams.
\<close>

section \<open>Whole requests\<close>

definition proper_calls :: "PoolConfig \<Rightarrow> (nat \<times> bool) list \<Rightarrow> bool" where
  "proper_calls cfg cs \<longleftrightarrow>
     distinct (map fst cs) \<and> (\<forall>(i, q) \<in> set cs. i < length (pc_members cfg) \<and> \<not> q)"

lemma proper_calls_length: "proper_calls cfg cs \<Longrightarrow> length cs \<le> length (pc_members cfg)"
proof -
  assume p: "proper_calls cfg cs"
  then have "set (map fst cs) \<subseteq> {..<length (pc_members cfg)}" by (auto simp: proper_calls_def)
  then have "card (set (map fst cs)) \<le> card {..<length (pc_members cfg)}" by (rule card_mono [rotated]) simp
  with p show ?thesis using distinct_card [of "map fst cs"] by (simp add: proper_calls_def)
qed

context member_calls
begin

lemma served_proper:
  "served tried idx st res \<Longrightarrow> \<exists>cs. calls (ps_world (snd res)) = calls (ps_world st) @ cs \<and> proper_calls cfg cs"
  by (force simp: served_def fresh_calls_def proper_calls_def)

lemma execute_served:
  assumes "pool_aligned cfg" and "pool_ok cfg st"
  shows "pool_ok cfg (snd (pool_execute cfg run request st))"
    and "\<not> is_panic (fst (pool_execute cfg run request st))"
    and "\<exists>cs. calls (ps_world (snd (pool_execute cfg run request st))) = calls (ps_world st) @ cs \<and>
      proper_calls cfg cs"
proof -
  obtain skey st1 where k: "session_key cfg request st = (skey, st1)" by fastforce
  obtain idx st2 where a: "select_active cfg skey st1 = (idx, st2)" by fastforce
  have w: "ps_world st2 = ps_world st" using k a ps_world_bookkeeping(1,2) by (metis snd_conv)
  note active = select_active_ok [OF assms(1) session_key_ok [OF assms(2) k] a]
  have "served (replicate (length (pc_members cfg)) False) idx st2
      (pool_execute cfg run request st)"
    using loop_served [OF assms(1) active(1), of idx "replicate (length (pc_members cfg)) False"] active(2) k a
    by (simp add: pool_execute_def)
  with served_proper [OF this] w show "pool_ok cfg (snd (pool_execute cfg run request st))"
    and "\<not> is_panic (fst (pool_execute cfg run request st))"
    and "\<exists>cs. calls (ps_world (snd (pool_execute cfg run request st))) = calls (ps_world st) @ cs \<and>
      proper_calls cfg cs"
    by (simp_all add: served_def)
qed

end

context stream_calls
begin

lemma open_served:
  assumes "pool_aligned cfg" and "pool_ok cfg st"
  shows "pool_ok cfg (snd (pool_execute_stream cfg run request st))"
    and "\<not> is_panic (fst (pool_execute_stream cfg run request st))"
    and "\<exists>cs. calls (ps_world (snd (pool_execute_stream cfg run request st))) = calls (ps_world st) @ cs \<and>
      proper_calls cfg cs"
proof -
  obtain skey st1 where k: "session_key cfg request st = (skey, st1)" by fastforce
  obtain idx st2 where a: "select_active cfg skey st1 = (idx, st2)" by fastforce
  obtain tried st3 where t: "stream_tried_mask cfg (stream_attempt_key skey request) st2 = (tried, st3)" by fastforce
  have w: "ps_world st3 = ps_world st"
    using k a t ps_world_bookkeeping(1,2) ps_world_stream_bookkeeping(1) by (metis snd_conv)
  note active = select_active_ok [OF assms(1) session_key_ok [OF assms(2) k] a]
  note tried = stream_tried_mask_ok [OF active(1) t]
  have "served tried idx st3 (pool_execute_stream cfg run request st)"
    using stream_loop_served [OF assms(1) tried(1), of idx tried] tried(2) active(2) k a t
    by (simp add: pool_execute_stream_def Let_def)
  with served_proper [OF this] w show "pool_ok cfg (snd (pool_execute_stream cfg run request st))"
    and "\<not> is_panic (fst (pool_execute_stream cfg run request st))"
    and "\<exists>cs. calls (ps_world (snd (pool_execute_stream cfg run request st))) = calls (ps_world st) @ cs \<and>
      proper_calls cfg cs"
    by (simp_all add: served_def)
qed

end

section \<open>Interleaving\<close>

text \<open>
  What can happen to a pool: requests and stream openings, in whose awaits anything else can happen
  to the pool, items and drops of observed streams, failure callbacks, the passing of time, and what
  other holders of the breaker do to it. An observed stream carries the index of the member that
  opened it. Results, events and JSON payloads, which the pool only forwards, are strings here.
\<close>

inductive pool_moves :: "PoolConfig \<Rightarrow> 'w PoolState \<Rightarrow> 'w PoolState \<Rightarrow> bool" for cfg where
  idle: "pool_moves cfg st st"
| next_move: "pool_moves cfg st st' \<Longrightarrow> pool_moves cfg st' st'' \<Longrightarrow> pool_moves cfg st st''"
| elsewhere: "pool_moves cfg st (st\<lparr>ps_breaker := b, ps_clock := now, ps_world := w\<rparr>)"
| request: "(\<And>idx req s. pool_moves cfg s (snd (run idx req s))) \<Longrightarrow>
    (\<And>idx req s. \<not> is_panic (fst (run idx req s :: (string, string InferenceExecutionError) outcome \<times> 'w PoolState))) \<Longrightarrow>
    pool_moves cfg st (snd (pool_execute cfg run rq st))"
| open_stream: "(\<And>idx req s. pool_moves cfg s (snd (run idx req s))) \<Longrightarrow>
    (\<And>idx req s. \<not> is_panic (fst (run idx req s :: (unit, string InferenceExecutionError) outcome \<times> 'w PoolState))) \<Longrightarrow>
    pool_moves cfg st (snd (pool_execute_stream cfg run rq st))"
| poll: "os_member_idx s < length (pc_members cfg) \<Longrightarrow>
    pool_moves cfg st (snd (snd (poll_next cfg (polled :: (string, string) poll) s st)))"
| drop: "os_member_idx s < length (pc_members cfg) \<Longrightarrow> pool_moves cfg st (drop_stream cfg s st)"
| callback: "pool_moves cfg st (record_stream_member_failure cfg rq (err :: string InferenceExecutionError) st)"

lemma poll_next_ok:
  assumes "pool_aligned cfg" and "pool_ok cfg st" and "os_member_idx s < length (pc_members cfg)"
  shows "pool_ok cfg (snd (snd (poll_next cfg polled s st)))"
  by (simp add: poll_next_def assms record_stream_attempt_failure_once_ok record_stream_attempt_success_ok
      split: poll.split option.split sum.split)

lemma drop_stream_ok: "pool_ok cfg st \<Longrightarrow> pool_ok cfg (drop_stream cfg s st)"
  by (simp add: drop_stream_def record_stream_attempt_abandoned_ok)

text \<open>Members whose calls keep the invariant satisfy the contract, with nothing recorded.\<close>

lemma quiet_member:
  "(\<And>idx req s. pool_ok cfg s \<Longrightarrow> pool_ok cfg (snd (run idx req s))) \<Longrightarrow>
   (\<And>idx req s. \<not> is_panic (fst (run idx req s))) \<Longrightarrow> member_calls cfg run (\<lambda>_. [])"
  by (simp add: member_calls_def)

lemma pool_moves_ok:
  assumes "pool_moves cfg st st'" and "pool_aligned cfg"
  shows "pool_ok cfg st \<Longrightarrow> pool_ok cfg st'"
  using assms(1)
proof (induction rule: pool_moves.induct)
  case (request run st rq)
  show ?case
    by (rule member_calls.execute_served(1) [OF quiet_member assms(2)]) (use request in simp_all)
next
  case (open_stream run st rq)
  show ?case
    by (rule stream_calls.open_served(1) [OF stream_calls.intro [OF quiet_member] assms(2)])
      (use open_stream in simp_all)
next
  case (elsewhere st b now w)
  then show ?case by (simp add: pool_ok_def)
qed (simp_all add: assms(2) poll_next_ok drop_stream_ok record_stream_member_failure_ok)

lemma pool_new_ok: "pool_ok cfg (PoolState_new cfg breaker now w)"
  by (simp add: pool_ok_def PoolState_new_def table_ok_def)

section \<open>Theorems\<close>

text \<open>
  C28: However requests, streams, callbacks and time interleave, a pool keeps its tables bounded: at
  most 4096 sessions and 4096 stream attempts. Every session and attempt points at a member of the
  pool, and no session has switched more often since its last success than the policy allows.
\<close>

theorem pool_tables_bounded:
  assumes "pool_aligned cfg" and "pool_moves cfg (PoolState_new cfg breaker now w) st"
  shows "length (ps_sessions st) \<le> 4096 \<and> length (ps_stream_attempts st) \<le> 4096 \<and>
    (\<forall>k s i. map_of (ps_sessions st) k = Some s \<longrightarrow> ss_active s = Some i \<longrightarrow> i < length (pc_members cfg)) \<and>
    (\<forall>k s m. map_of (ps_sessions st) k = Some s \<longrightarrow>
       max_switches_per_session (switch_policy cfg) = Some m \<longrightarrow> ss_switch_count s \<le> m) \<and>
    (\<forall>k a i. map_of (ps_stream_attempts st) k = Some a \<longrightarrow> sa_active a = Some i \<longrightarrow> i < length (pc_members cfg))"
proof -
  have ok: "pool_ok cfg st" using pool_moves_ok [OF assms(2,1) pool_new_ok] .
  have "session_ok cfg s" if "map_of (ps_sessions st) k = Some s" for k s
    using pool_ok_session [OF ok that] .
  moreover have "attempt_ok cfg a" if "map_of (ps_stream_attempts st) k = Some a" for k a
    using pool_ok_attempt [OF ok that] .
  moreover have "length (ps_sessions st) \<le> 4096" "length (ps_stream_attempts st) \<le> 4096"
    using ok by (simp_all add: pool_ok_def table_ok_def MAX_POOL_SESSION_STATES_def MAX_POOL_STREAM_ATTEMPTS_def)
  ultimately show ?thesis
    by (simp add: session_ok_def attempt_ok_def in_pool_def within_budget_def) (metis option.simps(5))
qed

definition ex_pool :: PoolConfig where
  "ex_pool =
     \<lparr>pc_pool_id = ''p'', pc_fallback_home_key = ''h'',
      pc_members = [\<lparr>pm_model_id = ''a'', pm_upstream_model = ''ua''\<rparr>,
                    \<lparr>pm_model_id = ''b'', pm_upstream_model = ''ub''\<rparr>,
                    \<lparr>pm_model_id = ''c'', pm_upstream_model = ''uc''\<rparr>],
      pc_router = ex_router Deterministic, pc_shape = (\<lambda>h w. 0)\<rparr>"

definition ex_request :: InferenceRequest where
  "ex_request = \<lparr>rq_upstream_model = ''u'', rq_routing_key = Some (routing_thread ''t'')\<rparr>"

lemma ex_pool_aligned: "pool_aligned ex_pool"
  by (simp add: pool_aligned_def ex_pool_def ex_router_def PoolRouter_new_def)

text \<open>Every member is over its quota.\<close>

definition ex_quota :: "(string, string, (nat \<times> bool) list) member_call" where
  "ex_quota idx req st = (Err (rate_limited ''quota''), st\<lparr>ps_world := ps_world st @ [(idx, quarantined st idx)]\<rparr>)"

theorem pool_tables_bounded_witness:
  "length (ps_sessions (snd (pool_execute ex_pool ex_quota ex_request
     (PoolState_new ex_pool (CircuitBreaker_new CircuitBreakerConfig_default) 0 [])))) \<le> 4096"
proof -
  have "pool_moves ex_pool s (snd (ex_quota idx req s))" for idx req s
    using pool_moves.elsewhere [of ex_pool s, where b = "ps_breaker s" and now = "ps_clock s"] by (simp add: ex_quota_def)
  moreover have "\<not> is_panic (fst (ex_quota idx req s))" for idx req s by (simp add: ex_quota_def)
  ultimately show ?thesis
    using pool_tables_bounded [OF ex_pool_aligned pool_moves.request [where run = ex_quota]] by blast
qed

text \<open>
  C24: One request calls each member of the pool at most once, only members of the pool, and never a
  member that is quarantined at that moment. It returns an answer or an error, never a panic, for
  every behaviour of the members, as long as what happens to the pool during their calls keeps it
  well formed. The loop needs no other bound.
\<close>

theorem pool_request_calls_members_once:
  assumes "pool_aligned cfg" and "pool_ok cfg st"
    and "\<And>idx req s. pool_ok cfg s \<Longrightarrow> pool_ok cfg (snd (run idx req s))"
    and "\<And>idx req s. \<not> is_panic (fst (run idx req s))"
    and "\<And>idx req s. ps_world (snd (run idx req s)) = ps_world s @ [(idx, quarantined s idx)]"
  shows "\<exists>cs. ps_world (snd (pool_execute cfg run request st)) = ps_world st @ cs \<and>
      distinct (map fst cs) \<and> (\<forall>(i, q) \<in> set cs. i < length (pc_members cfg) \<and> \<not> q) \<and>
      \<not> is_panic (fst (pool_execute cfg run request st))"
proof -
  have "member_calls cfg run (\<lambda>w. w)" using assms(3-5) by (simp add: member_calls_def)
  from member_calls.execute_served [OF this assms(1,2), of request] show ?thesis
    by (simp add: proper_calls_def)
qed

theorem pool_request_calls_members_once_witness:
  "\<not> is_panic (fst (pool_execute ex_pool ex_quota ex_request
     (PoolState_new ex_pool (CircuitBreaker_new CircuitBreakerConfig_default) 0 [])))"
proof -
  have "pool_ok ex_pool s \<Longrightarrow> pool_ok ex_pool (snd (ex_quota idx req s))" for idx req s
    by (simp add: ex_quota_def)
  moreover have "\<not> is_panic (fst (ex_quota idx req s))" for idx req s by (simp add: ex_quota_def)
  moreover have "ps_world (snd (ex_quota idx req s)) = ps_world s @ [(idx, quarantined s idx)]" for idx req s
    by (simp add: ex_quota_def)
  ultimately show ?thesis
    using pool_request_calls_members_once [OF ex_pool_aligned pool_new_ok, of ex_quota] by blast
qed

text \<open>
  Sessions are sticky: once a session has been given a member, the next request of the session
  gets the same member, as long as that member is healthy, whatever became of the others, and
  however the breaker, the clock and the other sessions have changed.
\<close>

theorem session_affinity:
  assumes "select_active cfg skey st = (idx, st1)"
    and "map_of (ps_sessions st2) skey = map_of (ps_sessions st1) skey"
    and "idx < length (pc_members cfg) \<longrightarrow> health_mask cfg st2 ! idx"
  shows "fst (select_active cfg skey st2) = idx"
proof -
  have "\<exists>s. map_of (ps_sessions st1) skey = Some s \<and> ss_active s = Some idx"
    using assms(1)
    by (auto simp: select_active_def next_session_sequence_def session_entry_def put_session_def Let_def
        home_sequence_for_new_session_def split: option.splits if_splits prod.splits)
  with assms(2) obtain s where "map_of (ps_sessions st2) skey = Some s" and "ss_active s = Some idx" by auto
  moreover from this have "session_entry skey (st2\<lparr>ps_session_sequence := q\<rparr>) = (s, ps_sessions st2)" for q
    by (simp add: session_entry_def ensure_session_capacity_def)
  ultimately show ?thesis
    using assms(3)
    by (cases "idx < length (pc_members cfg)") (simp_all add: select_active_def next_session_sequence_def Let_def)
qed

theorem session_affinity_witness:
  "fst (select_active ex_pool ''t'' (snd (select_active ex_pool ''t''
     (PoolState_new ex_pool (CircuitBreaker_new CircuitBreakerConfig_default) 0 ())))) =
   fst (select_active ex_pool ''t''
     (PoolState_new ex_pool (CircuitBreaker_new CircuitBreakerConfig_default) 0 ()))"
proof -
  let ?st = "PoolState_new ex_pool (CircuitBreaker_new CircuitBreakerConfig_default) 0 ()"
  have "ps_permanent_quarantine (snd (select_active ex_pool ''t'' ?st)) = [False, False, False] \<and>
      ps_breaker (snd (select_active ex_pool ''t'' ?st)) = CircuitBreaker_new CircuitBreakerConfig_default"
    by (simp add: select_active_def next_session_sequence_def session_entry_def put_session_def
        home_sequence_for_new_session_def Let_def PoolState_new_def ex_pool_def ensure_session_capacity_def
        MAX_POOL_SESSION_STATES_def PoolSessionState_default_def split_beta)
  then have "i < length (pc_members ex_pool) \<longrightarrow> health_mask ex_pool (snd (select_active ex_pool ''t'' ?st)) ! i" for i
    by (auto simp: health_mask_def ex_pool_def quarantined_def cb_is_available_def CircuitBreaker_new_def less_Suc_eq)
  then show ?thesis using session_affinity [OF prod.collapse [symmetric] refl] by blast
qed

section \<open>Stream failures\<close>

text \<open>What recording a failure of member \<open>idx\<close> may touch of the health of other members.\<close>

definition same_health :: "'w PoolState \<Rightarrow> 'w PoolState \<Rightarrow> bool" where
  "same_health st st' \<longleftrightarrow>
     ps_breaker st' = ps_breaker st \<and> ps_permanent_quarantine st' = ps_permanent_quarantine st \<and>
     ps_sessions st' = ps_sessions st"

lemma next_member_attempts [simp]:
  "ps_stream_attempts (snd (next_on_error cfg skey idx err tried st)) = ps_stream_attempts st"
  "ps_stream_attempts (snd (next_on_unavailable cfg skey idx tried st)) = ps_stream_attempts st"
  by (simp_all add: next_on_error_def next_on_unavailable_def next_member_def next_session_sequence_def
      put_session_def Let_def split_beta split: option.split)

lemma record_failure_attempts [simp]:
  "ps_stream_attempts (record_failure cfg idx err st) = ps_stream_attempts st"
  by (simp add: record_failure_def Let_def)

text \<open>Recording a failure leaves the attempt marked as failed.\<close>

lemma failure_stays_observed:
  assumes "map_of (ps_stream_attempts st) key = Some a" and "sa_failure_observed a"
  shows "\<exists>a'. map_of (ps_stream_attempts (record_stream_attempt_failure cfg skey (Some key) idx err st)) key = Some a' \<and>
    sa_failure_observed a'"
  using assms
  by (simp add: record_stream_attempt_failure_def ensure_stream_attempt_capacity_def attempt_entry_def
      next_stream_attempt_sequence_def put_attempt_def Let_def)

text \<open>An attempt that is gone, that has moved on, or whose failure is known records nothing more.\<close>

lemma settled_failure:
  assumes "\<And>a. map_of (ps_stream_attempts st) key = Some a \<Longrightarrow> sa_active a \<noteq> Some idx \<or> sa_failure_observed a"
  shows "same_health st (record_stream_attempt_failure_once cfg skey (Some key) idx err fin st)"
  using assms
  by (cases "map_of (ps_stream_attempts st) key")
    (auto simp: record_stream_attempt_failure_once_def next_stream_attempt_sequence_def same_health_def
      put_attempt_def stream_ended_def Let_def)

lemma first_failure_settles:
  assumes "map_of (ps_stream_attempts (record_stream_attempt_failure_once cfg skey (Some key) idx err fin st)) key = Some a"
  shows "sa_active a \<noteq> Some idx \<or> sa_failure_observed a"
proof (cases "map_of (ps_stream_attempts st) key")
  case None
  with assms show ?thesis by (simp add: record_stream_attempt_failure_once_def)
next
  case (Some b)
  let ?q = "ps_stream_attempt_sequence st"
  define b2 where "b2 = (if fin then stream_ended (b\<lparr>sa_last_access := saturating_add ?q 1\<rparr>)
    else b\<lparr>sa_last_access := saturating_add ?q 1\<rparr>)"
  have same: "sa_active b2 = sa_active b" "sa_failure_observed b2 = sa_failure_observed b"
    by (simp_all add: b2_def stream_ended_def Let_def)
  let ?b3 = "b2\<lparr>sa_tried := (sa_tried b2)[idx := True], sa_failure_observed := True,
    sa_in_flight := 0 < sa_live_streams b2\<rparr>"
  let ?st2 = "\<lambda>x. put_attempt key x (ps_stream_attempts st) (st\<lparr>ps_stream_attempt_sequence := ?q + 1\<rparr>)"
  have eq: "record_stream_attempt_failure_once cfg skey (Some key) idx err fin st =
      (if sa_active b \<noteq> Some idx then ?st2 b2
       else if sa_failure_observed b then ?st2 ?b3
       else record_stream_attempt_failure cfg skey (Some key) idx err (?st2 ?b3))"
    using Some
    by (simp add: record_stream_attempt_failure_once_def next_stream_attempt_sequence_def Let_def
        b2_def [symmetric] same)
  have put: "map_of (ps_stream_attempts (?st2 x)) key = Some x" for x
    by (simp add: put_attempt_def)
  show ?thesis
    using assms put [of b2] put [of ?b3] same
      failure_stays_observed [OF put [of ?b3], of cfg skey idx err] unfolding eq
    by (auto split: if_splits)
qed

text \<open>
  A failing stream counts once. Whatever reports its failure again, an item of the stream or a
  callback of the caller, with this error or another, the second report changes neither the
  breaker nor the quarantine nor any session: a member cannot be tripped twice by one stream.
\<close>

theorem stream_failure_counted_once:
  fixes err err' :: "'v InferenceExecutionError"
  shows "let st1 = record_stream_attempt_failure_once cfg skey (Some key) idx err fin st;
       st2 = record_stream_attempt_failure_once cfg skey' (Some key) idx err' fin' st1
   in ps_breaker st2 = ps_breaker st1 \<and> ps_permanent_quarantine st2 = ps_permanent_quarantine st1 \<and>
      ps_sessions st2 = ps_sessions st1"
proof -
  have "same_health (record_stream_attempt_failure_once cfg skey (Some key) idx err fin st)
      (record_stream_attempt_failure_once cfg skey' (Some key) idx err' fin'
        (record_stream_attempt_failure_once cfg skey (Some key) idx err fin st))"
    by (rule settled_failure) (rule first_failure_settles)
  then show ?thesis by (simp add: same_health_def Let_def)
qed

end
