(* ===== verification/Retrying_Pool.thy ===== *)
theory Retrying_Pool
  imports Pool_Protocol
begin

text \<open>
  A pool whose members are retrying executors, the composition that \<open>PoolMemberExecutor\<close> documents:
  each call the pool makes to a member is a run of \<open>try_with_retries\<close> on that member's provider.
\<close>

section \<open>Retrying members\<close>

text \<open>
  A provider answers or fails, and takes its time: \<open>answer idx n\<close> for the \<open>n\<close>-th attempt of a call to
  member \<open>idx\<close>. The world of the pool is the record of member calls and the number of provider
  calls so far. The members have no breaker of their own.
\<close>

type_synonym pool_log = "(nat \<times> bool) list \<times> nat"

definition provider_answers :: "(nat \<Rightarrow> ('r + 'v InferenceExecutionError) \<times> nat) \<Rightarrow> ('r, 'v) answers" where
  "provider_answers answer n = (case answer n of (Inl r, d) \<Rightarrow> (Ok r, d) | (Inr e, d) \<Rightarrow> (Err e, d))"

definition retrying_member ::
  "LlmRetryPolicy \<Rightarrow> (nat \<Rightarrow> nat \<Rightarrow> ('r + 'v InferenceExecutionError) \<times> nat) \<Rightarrow>
   ('r, 'v, pool_log) member_call" where
  "retrying_member policy answer idx req st =
     (let start = \<lparr>rs_breaker = None, rs_clock = ps_clock st, rs_calls = 0, rs_sleeps = []\<rparr>;
          (r, fin) = try_with_retries policy (rq_upstream_model req) (provider_answers (answer idx)) (\<lambda>_ cb. cb) start
      in (r, st\<lparr>ps_clock := rs_clock fin,
               ps_world := (fst (ps_world st) @ [(idx, quarantined st idx)], snd (ps_world st) + rs_calls fin)\<rparr>))"

lemma provider_no_panic: "\<not> is_panic (fst (provider_answers answer n))"
  by (simp add: provider_answers_def split: prod.split sum.split)

lemma retrying_member_world:
  "fst (ps_world (snd (retrying_member policy answer idx req st))) = fst (ps_world st) @ [(idx, quarantined st idx)]"
  "snd (ps_world (snd (retrying_member policy answer idx req st))) \<le>
     snd (ps_world st) + Suc (unat (max_retries policy))"
proof -
  let ?start = "\<lparr>rs_breaker = None, rs_clock = ps_clock st, rs_calls = 0, rs_sleeps = []\<rparr>"
  have "rs_calls (snd (try_with_retries policy (rq_upstream_model req) (provider_answers (answer idx))
      (\<lambda>_ cb. cb) ?start)) \<le> Suc (unat (max_retries policy))"
    using try_with_retries_calls(2) [of "provider_answers (answer idx)", OF provider_no_panic, of policy _ _ ?start]
    by simp
  then show "snd (ps_world (snd (retrying_member policy answer idx req st))) \<le>
     snd (ps_world st) + Suc (unat (max_retries policy))"
    by (simp add: retrying_member_def split_beta Let_def)
  show "fst (ps_world (snd (retrying_member policy answer idx req st))) = fst (ps_world st) @ [(idx, quarantined st idx)]"
    by (simp add: retrying_member_def split_beta Let_def)
qed

text \<open>The record that the contract asks for; each entry stands for one bounded run of attempts.\<close>

interpretation retrying: member_calls cfg "retrying_member policy answer" fst for cfg policy answer
proof
  fix st :: "pool_log PoolState" and idx req
  show "pool_ok cfg st \<Longrightarrow> pool_ok cfg (snd (retrying_member policy answer idx req st))"
    by (simp add: retrying_member_def split_beta Let_def)
  show "\<not> is_panic (fst (retrying_member policy answer idx req st))"
    using try_with_retries_calls(1) [of "provider_answers (answer idx)", OF provider_no_panic]
    by (simp add: retrying_member_def split_beta Let_def)
qed (simp add: retrying_member_world)

interpretation retrying: stream_calls cfg "retrying_member policy answer" fst for cfg policy answer
  by unfold_locales

section \<open>Provider calls\<close>

text \<open>Provider calls are paid for by recorded member calls.\<close>

definition paid :: "nat \<Rightarrow> pool_log \<Rightarrow> pool_log \<Rightarrow> bool" where
  "paid k w w' \<longleftrightarrow> (\<exists>cs. fst w' = fst w @ cs \<and> snd w' \<le> snd w + k * length cs)"

lemma paid_refl [simp]: "paid k w w"
  by (simp add: paid_def)

lemma paid_trans: "paid k w w' \<Longrightarrow> paid k w' w'' \<Longrightarrow> paid k w w''"
  by (fastforce simp: paid_def algebra_simps)

lemma retrying_member_paid:
  "paid (Suc (unat (max_retries policy))) (ps_world st) (ps_world (snd (retrying_member policy answer idx req st)))"
  using retrying_member_world [of policy answer idx req st] by (simp add: paid_def)

text \<open>
  What holds of the world across every member call holds of it across the loop: the rest of the
  pool does not touch it.
\<close>

lemma pool_loop_world:
  fixes run :: "('r, 'v, 'w) member_call"
  assumes R: "\<And>w. R w w" "\<And>u v w. R u v \<Longrightarrow> R v w \<Longrightarrow> R u w"
    and run: "\<And>idx req s. R (ps_world s) (ps_world (snd (run idx req s)))"
      "\<And>idx req s. \<not> is_panic (fst (run idx req s))"
  shows "R (ps_world st) (ps_world (snd (pool_loop cfg run request skey idx tried st)))"
proof (induction "rounds_left idx tried" arbitrary: idx tried st rule: less_induct)
  case less
  show ?case
  proof (cases "idx < length tried \<and> length tried = length (pc_members cfg)")
    case True
    note guard = conjunct1 [OF True] conjunct2 [OF True]
    let ?t = "tried[idx := True]"
    have dec: "rounds_left nxt ?t < rounds_left idx tried"
      if "next_on_error cfg skey idx (err :: 'v InferenceExecutionError) ?t s0 = (Some nxt, s1) \<or>
        next_on_unavailable cfg skey idx ?t s0 = (Some nxt, s1)" for nxt s0 s1 err
      using switch_decreases [of idx tried cfg nxt s1 skey err s0 ?t] guard that by auto
    from run(2) show ?thesis
    proof (cases rule: round_cases [where run = run and cfg = cfg and idx = idx and st = st
          and req = "request_for cfg idx request"])
      case (blocked e st1)
      obtain r st2 where n: "next_on_unavailable cfg skey idx ?t st1 = (r, st2)" by fastforce
      have w: "ps_world st2 = ps_world st" using ps_world_eq(2) [OF n] ps_world_eq(3) [OF blocked] by simp
      show ?thesis
        unfolding pool_loop_blocked [where run = run, OF guard blocked n]
        using w R(1) less.hyps [OF dec [OF disjI2], of st1 _ st2 st2] n by (auto split: option.split)
    next
      case (answered u st1 res st2)
      show ?thesis
        using pool_loop_answered [where run = run, OF guard answered] ps_world_eq(3) [OF answered(1)]
          run(1) [of st1 idx "request_for cfg idx request"] answered(2) by simp
    next
      case (failed u st1 err st2)
      obtain r st4 where n: "next_on_error cfg skey idx err ?t (record_failure cfg idx err st2) = (r, st4)"
        by fastforce
      have w: "R (ps_world st) (ps_world st4)"
        using ps_world_eq(1) [OF n] ps_world_eq(3) [OF failed(1)] failed(2)
          run(1) [of st1 idx "request_for cfg idx request"] by simp
      show ?thesis
        unfolding pool_loop_failed [where run = run, OF guard failed n]
        using w R(2) [OF w] less.hyps [OF dec [OF disjI1], of err "record_failure cfg idx err st2" _ st4 st4] n
        by (auto split: option.split)
    qed
  qed (simp add: pool_loop.simps R(1))
qed

text \<open>
  C40: A pool of retrying members bounds what one request costs: at most as many member calls as
  there are members, each at most \<open>max_retries + 1\<close> provider calls, so no more provider calls than
  the product, whatever the providers answer and however they interleave errors.
\<close>

theorem retrying_pool_provider_calls:
  assumes "pool_aligned cfg" and "pool_ok cfg st" and "snd (ps_world st) = 0"
  shows "\<not> is_panic (fst (pool_execute cfg (retrying_member policy answer) request st)) \<and>
    snd (ps_world (snd (pool_execute cfg (retrying_member policy answer) request st)))
      \<le> (unat (max_retries policy) + 1) * length (pc_members cfg)"
proof -
  let ?res = "pool_execute cfg (retrying_member policy answer) request st" and ?k = "Suc (unat (max_retries policy))"
  obtain skey st1 where k: "session_key cfg request st = (skey, st1)" by fastforce
  obtain idx st2 where a: "select_active cfg skey st1 = (idx, st2)" by fastforce
  have w: "ps_world st2 = ps_world st" using k a ps_world_bookkeeping(1,2) by (metis snd_conv)
  have "paid ?k (ps_world st2) (ps_world (snd ?res))"
    using pool_loop_world [of "paid ?k" "retrying_member policy answer", OF paid_refl paid_trans
        retrying_member_paid retrying.call_returns] k a
    by (simp add: pool_execute_def)
  then obtain cs where cs: "fst (ps_world (snd ?res)) = fst (ps_world st) @ cs"
    "snd (ps_world (snd ?res)) \<le> ?k * length cs"
    using w assms(3) by (auto simp: paid_def)
  moreover have "length cs \<le> length (pc_members cfg)"
    using retrying.execute_served(3) [OF assms(1,2), of policy answer request] cs(1) proper_calls_length by auto
  ultimately have "snd (ps_world (snd ?res)) \<le> ?k * length (pc_members cfg)"
    by (meson mult_le_mono2 order_trans)
  with retrying.execute_served(2) [OF assms(1,2), of policy answer request] show ?thesis by simp
qed

theorem retrying_pool_provider_calls_witness:
  "snd (ps_world (snd (pool_execute ex_pool (retrying_member LlmRetryPolicy_default
       (\<lambda>idx n. (Inr (Timeout ''t'') :: nat + string InferenceExecutionError, 1))) ex_request
     (PoolState_new ex_pool (CircuitBreaker_new CircuitBreakerConfig_default) 0 ([], 0))))) \<le> 9"
proof -
  have "snd (ps_world (PoolState_new ex_pool (CircuitBreaker_new CircuitBreakerConfig_default) 0 ([], 0) ::
      pool_log PoolState)) = 0" by (simp add: PoolState_new_def)
  note bound = retrying_pool_provider_calls [OF ex_pool_aligned pool_new_ok this]
  have "(unat (max_retries LlmRetryPolicy_default) + 1) * length (pc_members ex_pool) = 9" by code_simp
  then show ?thesis
    using bound [of LlmRetryPolicy_default "\<lambda>idx n. (Inr (Timeout ''t'') :: nat + string InferenceExecutionError, 1)" ex_request] by simp
qed

end
