(* ===== verification/Tool_Id.thy ===== *)
theory Tool_Id
  imports Awaken_Prelude
begin

text \<open>
  Tool id globs (\<^verbatim>\<open>awaken-tool-pattern/src/tool_id.rs\<close>): the matcher works on bytes, with one saved
  star to go back to. It is proved equal to the declarative reading of a pattern as a list of
  literals and stars.
\<close>

section \<open>The matcher\<close>

text \<open>\<open>b as char\<close> for a byte; a byte string is compared and indexed in this form.\<close>

definition byte_as_char :: "u8 \<Rightarrow> char" where
  "byte_as_char b = char_of (unat b)"

definition byte_chars :: "string \<Rightarrow> string" where
  "byte_chars s = map byte_as_char (as_bytes s)"

datatype ToolIdPatternError = PatternEmpty | DanglingEscape

text \<open>
  The \<open>while\<close> loop with its variables; it ends with the pattern index, or with \<open>return false\<close>.
\<close>

definition escaped_at :: "string \<Rightarrow> nat \<Rightarrow> bool" where
  "escaped_at p i \<longleftrightarrow> p ! i = CHR 0x5C \<and> i + 1 < length p"

function id_loop :: "string \<Rightarrow> string \<Rightarrow> nat \<Rightarrow> nat \<Rightarrow> nat option \<Rightarrow> nat \<Rightarrow> nat option" where
  "id_loop p v i j star_i star_j =
     (if \<not> j < length v then Some i
      else if i < length p \<and> escaped_at p i \<and> p ! (i + 1) = v ! j then
        id_loop p v (i + 2) (j + 1) star_i star_j
      else if i < length p \<and> \<not> escaped_at p i \<and> p ! i = CHR ''*'' then
        id_loop p v (i + 1) j (Some i) j
      else if i < length p \<and> \<not> escaped_at p i \<and> p ! i = v ! j then
        id_loop p v (i + 1) (j + 1) star_i star_j
      else
        (case star_i of
           Some s \<Rightarrow> id_loop p v (s + 1) (star_j + 1) star_i (star_j + 1)
         | None \<Rightarrow> None))"
  by pat_completeness auto
termination
  by (relation "measures
      [\<lambda>(p, v, i, j, s, k). if (\<forall>x \<in> set_option s. x < i) \<and> (s \<noteq> None \<longrightarrow> k \<le> j) then 0 else 1,
       \<lambda>(p, v, i, j, s, k). case s of None \<Rightarrow> length p + 1 | Some x \<Rightarrow> length p - x,
       \<lambda>(p, v, i, j, s, k). length v - k,
       \<lambda>(p, v, i, j, s, k). length v - j]")
    (auto split: option.split)

declare id_loop.simps [simp del]

definition skip_stars :: "string \<Rightarrow> nat \<Rightarrow> nat" where
  "skip_stars p i = i + length (takeWhile ((=) CHR ''*'') (drop i p))"

definition tool_id_match :: "string \<Rightarrow> string \<Rightarrow> bool" where
  "tool_id_match pattern tool_id =
     (let p = byte_chars pattern; v = byte_chars tool_id
      in case id_loop p v 0 0 None 0 of
           None \<Rightarrow> False
         | Some i \<Rightarrow> skip_stars p i = length p)"

fun escapes_complete :: "string \<Rightarrow> bool" where
  "escapes_complete [] = True"
| "escapes_complete (c # cs) =
     (if c = CHR 0x5C then (case cs of [] \<Rightarrow> False | _ # ds \<Rightarrow> escapes_complete ds) else escapes_complete cs)"

definition validate_tool_id_pattern :: "string \<Rightarrow> (unit, ToolIdPatternError) outcome" where
  "validate_tool_id_pattern pattern =
     (if pattern = [] then Err PatternEmpty
      else if \<not> escapes_complete (byte_chars pattern) then Err DanglingEscape
      else Ok ())"

section \<open>What a pattern means\<close>

datatype token = Star | Lit char

fun tokens :: "string \<Rightarrow> token list" where
  "tokens [] = []"
| "tokens [c] = [if c = CHR ''*'' then Star else Lit c]"
| "tokens (c # d # cs) =
     (if c = CHR 0x5C then Lit d # tokens cs
      else if c = CHR ''*'' then Star # tokens (d # cs)
      else Lit c # tokens (d # cs))"

text \<open>A literal stands for itself, a star for any sequence.\<close>

fun denotes :: "token list \<Rightarrow> string \<Rightarrow> bool" where
  "denotes [] v \<longleftrightarrow> v = []"
| "denotes (Lit c # ts) v \<longleftrightarrow> (case v of [] \<Rightarrow> False | x # xs \<Rightarrow> x = c \<and> denotes ts xs)"
| "denotes (Star # ts) v \<longleftrightarrow> list_ex (\<lambda>n. denotes ts (drop n v)) [0..<Suc (length v)]"

lemma denotes_Star: "denotes (Star # ts) v \<longleftrightarrow> (\<exists>n \<le> length v. denotes ts (drop n v))"
  by (auto simp: list_ex_iff less_Suc_eq_le simp del: upt_Suc)

declare denotes.simps(3) [simp del]

lemma denotes_Star_drop: "denotes (Star # ts) (drop n v) \<Longrightarrow> denotes (Star # ts) v"
proof -
  assume "denotes (Star # ts) (drop n v)"
  then obtain m where "m \<le> length v - n" and "denotes ts (drop (m + n) v)"
    by (auto simp: denotes_Star)
  then show ?thesis
    by (cases "m + n \<le> length v")
      (auto simp: denotes_Star intro: exI [of _ "m + n"] exI [of _ "length v"])
qed

lemma denotes_literals:
  "denotes (map Lit ls @ ts) v \<Longrightarrow> length ls \<le> length v \<and> denotes ts (drop (length ls) v)"
  by (induction ls arbitrary: v) (auto split: list.splits)

lemma denotes_Nil: "denotes ts [] \<longleftrightarrow> set ts \<subseteq> {Star}"
  by (induction ts) (auto simp: denotes_Star elim!: denotes.elims)

lemma tokens_escaped:
  "i < length p \<Longrightarrow> escaped_at p i \<Longrightarrow> tokens (drop i p) = Lit (p ! (i + 1)) # tokens (drop (i + 2) p)"
  by (simp add: escaped_at_def Cons_nth_drop_Suc [symmetric])

lemma tokens_plain:
  assumes "i < length p" and "\<not> escaped_at p i"
  shows "tokens (drop i p) = (if p ! i = CHR ''*'' then Star else Lit (p ! i)) # tokens (drop (i + 1) p)"
proof (cases "i + 1 < length p")
  case True
  then have "drop i p = p ! i # p ! (i + 1) # drop (i + 2) p" and "drop (i + 1) p = p ! (i + 1) # drop (i + 2) p"
    using assms(1) by (simp_all add: Cons_nth_drop_Suc)
  with assms(2) True show ?thesis by (simp add: escaped_at_def)
next
  case False
  then have "drop i p = [p ! i]" and "drop (i + 1) p = []"
    using assms(1) by (simp_all add: Cons_nth_drop_Suc [symmetric])
  then show ?thesis by simp
qed

section \<open>The loop decides the meaning\<close>

text \<open>
  What the loop still has to decide: the rest of the pattern against the rest of the id, or the
  pattern after the saved star at a later position. One saved star is enough: since it, only
  literals have been matched, so any match through an earlier choice is one through the later star.
\<close>

definition open_match :: "string \<Rightarrow> string \<Rightarrow> nat \<Rightarrow> nat \<Rightarrow> nat option \<Rightarrow> nat \<Rightarrow> bool" where
  "open_match p v i j star_i star_j \<longleftrightarrow>
     denotes (tokens (drop i p)) (drop j v) \<or>
     (\<exists>s k. star_i = Some s \<and> star_j < k \<and> k \<le> length v \<and> denotes (tokens (drop (s + 1) p)) (drop k v))"

definition literal_since :: "string \<Rightarrow> string \<Rightarrow> nat \<Rightarrow> nat \<Rightarrow> nat option \<Rightarrow> nat \<Rightarrow> bool" where
  "literal_since p v i j star_i star_j \<longleftrightarrow>
     i \<le> length p \<and> j \<le> length v \<and>
     (\<forall>s. star_i = Some s \<longrightarrow> s < i \<and> star_j \<le> j \<and>
       (\<exists>ls. length ls = j - star_j \<and> tokens (drop (s + 1) p) = map Lit ls @ tokens (drop i p)))"

lemma literal_step:
  assumes "literal_since p v i j star_i star_j" and "tokens (drop i p) = Lit c # tokens (drop i' p)"
    and "i < i'" and "i' \<le> length p" and "j < length v"
  shows "literal_since p v i' (j + 1) star_i star_j"
proof -
  have "\<exists>ls. length ls = j + 1 - star_j \<and> tokens (drop (s + 1) p) = map Lit ls @ tokens (drop i' p)"
    if st: "star_i = Some s" for s
  proof -
    obtain ls where "length ls = j - star_j" "tokens (drop (s + 1) p) = map Lit ls @ tokens (drop i p)" "star_j \<le> j"
      using assms(1) st unfolding literal_since_def by blast
    with assms(2) show ?thesis by (intro exI [of _ "ls @ [c]"]) simp
  qed
  with assms show ?thesis by (fastforce simp: literal_since_def)
qed

lemma saved_star_covers:
  assumes "literal_since p v i j (Some s) star_j" and "star_j < k" and "k \<le> length v"
    and "denotes (tokens (drop (s + 1) p)) (drop k v)"
  shows "j < length v" and "\<exists>m. j < m \<and> m \<le> length v \<and> denotes (tokens (drop i p)) (drop m v)"
proof -
  obtain ls where ls: "length ls = j - star_j" "tokens (drop (s + 1) p) = map Lit ls @ tokens (drop i p)"
    and le: "star_j \<le> j" using assms(1) unfolding literal_since_def by blast
  from denotes_literals [of ls "tokens (drop i p)" "drop k v"] assms(4) ls(2)
  have "length ls \<le> length v - k" and d: "denotes (tokens (drop i p)) (drop (length ls + k) v)" by simp_all
  then have m: "j < length ls + k" "length ls + k \<le> length v" using ls(1) le assms(2,3) by simp_all
  then show "j < length v" by simp
  from m d show "\<exists>m. j < m \<and> m \<le> length v \<and> denotes (tokens (drop i p)) (drop m v)" by blast
qed

lemma open_literal:
  assumes "tokens (drop i p) = Lit (v ! j) # tokens (drop i' p)" and "j < length v"
  shows "open_match p v i j star_i star_j = open_match p v i' (j + 1) star_i star_j"
  using assms by (simp add: open_match_def Cons_nth_drop_Suc [symmetric])

lemma open_star:
  assumes "literal_since p v i j star_i star_j" and "tokens (drop i p) = Star # tokens (drop (i + 1) p)"
  shows "open_match p v i j star_i star_j = open_match p v (i + 1) j (Some i) j"
proof -
  have jl: "j \<le> length v" using assms(1) by (simp add: literal_since_def)
  have star: "denotes (tokens (drop i p)) (drop j v) \<longleftrightarrow> (\<exists>m. j \<le> m \<and> m \<le> length v \<and> denotes (tokens (drop (i + 1) p)) (drop m v))"
    unfolding assms(2) denotes_Star
  proof safe
    fix n assume "n \<le> length (drop j v)" "denotes (tokens (drop (i + 1) p)) (drop n (drop j v))"
    with jl show "\<exists>m. j \<le> m \<and> m \<le> length v \<and> denotes (tokens (drop (i + 1) p)) (drop m v)"
      by (intro exI [of _ "n + j"]) simp
  next
    fix m assume "j \<le> m" "m \<le> length v" "denotes (tokens (drop (i + 1) p)) (drop m v)"
    then show "\<exists>n \<le> length (drop j v). denotes (tokens (drop (i + 1) p)) (drop n (drop j v))"
      by (intro exI [of _ "m - j"]) simp
  qed
  have "denotes (tokens (drop i p)) (drop j v)"
    if k: "star_i = Some s" "star_j < k" "k \<le> length v" "denotes (tokens (drop (s + 1) p)) (drop k v)" for s k
  proof -
    obtain m where "j < m" "m \<le> length v" "denotes (tokens (drop i p)) (drop m v)"
      using saved_star_covers(2) assms(1) k by blast
    moreover have "drop m v = drop (m - j) (drop j v)" using \<open>j < m\<close> by simp
    ultimately show ?thesis using denotes_Star_drop assms(2) by metis
  qed
  then have "open_match p v i j star_i star_j \<longleftrightarrow> denotes (tokens (drop i p)) (drop j v)"
    by (auto simp: open_match_def)
  also have "\<dots> \<longleftrightarrow> open_match p v (i + 1) j (Some i) j"
    unfolding star open_match_def using jl by (auto simp: le_less)
  finally show ?thesis .
qed

lemma open_back:
  assumes "\<not> denotes (tokens (drop i p)) (drop j v)" and "star_j < length v"
  shows "open_match p v i j (Some s) star_j = open_match p v (s + 1) (star_j + 1) (Some s) (star_j + 1)"
proof -
  have "(\<exists>k. star_j < k \<and> k \<le> length v \<and> Q k) \<longleftrightarrow>
      Q (star_j + 1) \<or> (\<exists>k. star_j + 1 < k \<and> k \<le> length v \<and> Q k)" for Q
    using assms(2) by (metis Suc_eq_plus1 Suc_leI Suc_lessD Suc_lessI lessI)
  with assms(1) show ?thesis unfolding open_match_def by auto
qed

lemma mismatch:
  assumes "j < length v" and "\<not> (i < length p \<and> escaped_at p i \<and> p ! (i + 1) = v ! j)"
    and "\<not> (i < length p \<and> \<not> escaped_at p i \<and> p ! i = CHR ''*'')"
    and "\<not> (i < length p \<and> \<not> escaped_at p i \<and> p ! i = v ! j)"
  shows "\<not> denotes (tokens (drop i p)) (drop j v)"
proof (cases "i < length p")
  case True
  then show ?thesis
    using assms tokens_escaped [of i p] tokens_plain [of i p]
    by (cases "escaped_at p i") (auto simp: Cons_nth_drop_Suc [symmetric])
qed (use assms(1) in simp)

lemma id_loop_back:
  "j < length v \<Longrightarrow> \<not> (i < length p \<and> escaped_at p i \<and> p ! (i + 1) = v ! j) \<Longrightarrow>
   \<not> (i < length p \<and> \<not> escaped_at p i \<and> p ! i = CHR ''*'') \<Longrightarrow>
   \<not> (i < length p \<and> \<not> escaped_at p i \<and> p ! i = v ! j) \<Longrightarrow>
   id_loop p v i j star_i star_j =
     (case star_i of Some s \<Rightarrow> id_loop p v (s + 1) (star_j + 1) star_i (star_j + 1) | None \<Rightarrow> None)"
  by (subst id_loop.simps) (simp only: if_False not_True_eq_False)

lemma id_loop_decides:
  "literal_since p v i j star_i star_j \<Longrightarrow>
   (case id_loop p v i j star_i star_j of None \<Rightarrow> False | Some i' \<Rightarrow> i' \<le> length p \<and> denotes (tokens (drop i' p)) [])
     \<longleftrightarrow> open_match p v i j star_i star_j"
proof (induction p v i j star_i star_j rule: id_loop.induct)
  case (1 p v i j star_i star_j)
  note inv = "1.prems" and IH = "1.IH"
  note unfold = id_loop.simps [of p v i j star_i star_j]
  have il: "i \<le> length p" and jl: "j \<le> length v" using inv by (auto simp: literal_since_def)
  show ?case
  proof (cases "j < length v")
    case False
    then have "drop j v = []" by simp
    moreover have "\<not> (\<exists>s k. star_i = Some s \<and> star_j < k \<and> k \<le> length v \<and> denotes (tokens (drop (s + 1) p)) (drop k v))"
      using saved_star_covers(1) inv False by blast
    ultimately show ?thesis using False il by (auto simp: unfold open_match_def)
  next
    case j: True
    consider (esc) "i < length p" "escaped_at p i" "p ! (i + 1) = v ! j"
      | (star) "i < length p" "\<not> escaped_at p i" "p ! i = CHR ''*''"
      | (lit) "i < length p" "\<not> escaped_at p i" "p ! i \<noteq> CHR ''*''" "p ! i = v ! j"
      | (none) "\<not> (i < length p \<and> escaped_at p i \<and> p ! (i + 1) = v ! j)"
          "\<not> (i < length p \<and> \<not> escaped_at p i \<and> p ! i = CHR ''*'')"
          "\<not> (i < length p \<and> \<not> escaped_at p i \<and> p ! i = v ! j)" by blast
    then show ?thesis
    proof cases
      case esc
      have t: "tokens (drop i p) = Lit (v ! j) # tokens (drop (i + 2) p)" and "i + 2 \<le> length p"
        using tokens_escaped esc by (auto simp: escaped_at_def)
      with literal_step [OF inv t] j esc show ?thesis
        using IH(1) open_literal [OF t j] by (simp add: unfold)
    next
      case star
      have t: "tokens (drop i p) = Star # tokens (drop (i + 1) p)" using tokens_plain star by simp
      have "literal_since p v (i + 1) j (Some i) j" using star jl by (simp add: literal_since_def)
      with star j show ?thesis using IH(2) open_star [OF inv t] by (simp add: unfold)
    next
      case lit
      have t: "tokens (drop i p) = Lit (v ! j) # tokens (drop (i + 1) p)" using tokens_plain lit by simp
      with literal_step [OF inv t] j lit show ?thesis
        using IH(3) open_literal [OF t j] by (simp add: unfold)
    next
      case none
      note no = mismatch [OF j none]
      show ?thesis
      proof (cases star_i)
        case None
        with no show ?thesis unfolding id_loop_back [OF j none] by (simp add: open_match_def)
      next
        case (Some s)
        then have k: "star_j < length v" and s: "s + 1 \<le> length p" using inv j by (auto simp: literal_since_def)
        then have "literal_since p v (s + 1) (star_j + 1) (Some s) (star_j + 1)" by (simp add: literal_since_def)
        with Some IH(4) [OF _ none Some] j show ?thesis
          unfolding id_loop_back [OF j none] using open_back [OF no k, of s] by simp
      qed
    qed
  qed
qed

lemma skip_stars_end: "skip_stars p i = length p \<longleftrightarrow> i \<le> length p \<and> set (drop i p) \<subseteq> {CHR ''*''}"
proof -
  define n m where "n = length (takeWhile ((=) CHR ''*'') (drop i p))"
    and "m = length (dropWhile ((=) CHR ''*'') (drop i p))"
  have "n + m = length (drop i p)"
    unfolding n_def m_def by (metis length_append takeWhile_dropWhile_id)
  then have "i + n = length p \<longleftrightarrow> i \<le> length p \<and> m = 0" by (simp only: length_drop) arith
  moreover have "m = 0 \<longleftrightarrow> (\<forall>x \<in> set (drop i p). CHR ''*'' = x)"
    by (simp only: m_def length_0_conv dropWhile_eq_Nil_conv)
  moreover have "A \<subseteq> {c} \<longleftrightarrow> (\<forall>x \<in> A. c = x)" for A and c :: char by auto
  ultimately show ?thesis by (simp only: skip_stars_def n_def [symmetric])
qed

lemma tokens_all_stars: "set (tokens p) \<subseteq> {Star} \<longleftrightarrow> set p \<subseteq> {CHR ''*''}"
  by (induction p rule: tokens.induct) auto

section \<open>Correctness\<close>

lemma match_denotes:
  "tool_id_match pattern tool_id = denotes (tokens (byte_chars pattern)) (byte_chars tool_id)"
proof -
  let ?p = "byte_chars pattern" and ?v = "byte_chars tool_id"
  have "literal_since ?p ?v 0 0 None 0" by (simp add: literal_since_def)
  from id_loop_decides [OF this] show ?thesis
    by (cases "id_loop ?p ?v 0 0 None 0")
      (simp_all add: tool_id_match_def open_match_def denotes_Nil tokens_all_stars skip_stars_end)
qed

text \<open>
  C25: The tool id matcher, a loop over indices that remembers only the last star, decides exactly
  the declarative reading of the pattern: the bytes of the id, in full, are the literals of the
  pattern in order with any bytes in place of the stars. Whatever the pattern, the loop ends.
\<close>

theorem tool_id_match_correct:
  "tool_id_match pattern tool_id = denotes (tokens (byte_chars pattern)) (byte_chars tool_id)"
  by (rule match_denotes)

end
