(* ===== verification/Tool_Pattern.thy ===== *)
theory Tool_Pattern
  imports Tool_Id
begin

text \<open>
  Tool call patterns: the types and the matcher of \<^verbatim>\<open>awaken-tool-pattern\<close> (\<^verbatim>\<open>types.rs\<close>,
  \<^verbatim>\<open>matcher.rs\<close>).

  The glob matcher (\<^verbatim>\<open>glob-match\<close>), the regex engine (\<^verbatim>\<open>regex\<close>) and the JSON text of arrays and
  objects (\<^verbatim>\<open>serde_json\<close>) are other crates: they are the parameter \<open>Engines\<close> of every definition
  that uses them. A JSON number is its canonical text. An object is an association list in the
  iteration order of the crate's map.
\<close>

section \<open>JSON values\<close>

datatype json =
  JNull | JBool bool | JNumber string | JString string | JArray "json list" | JObject "(string \<times> json) list"

record Engines =
  glob_match :: "string \<Rightarrow> string \<Rightarrow> bool"
  regex_new :: "string \<Rightarrow> string + (string \<Rightarrow> bool)"
  json_text :: "json \<Rightarrow> string"

definition json_get :: "json \<Rightarrow> string \<Rightarrow> json option" where
  "json_get v name = (case v of JObject kvs \<Rightarrow> map_of kvs name | _ \<Rightarrow> None)"

definition json_array :: "json \<Rightarrow> json list option" where
  "json_array v = (case v of JArray xs \<Rightarrow> Some xs | _ \<Rightarrow> None)"

definition json_object :: "json \<Rightarrow> (string \<times> json) list option" where
  "json_object v = (case v of JObject kvs \<Rightarrow> Some kvs | _ \<Rightarrow> None)"

section \<open>Patterns\<close>

datatype PathSegment = Field string | Index usize | AnyIndex | Wildcard

datatype MatchOp = Glob | Exact | Regex | NotGlob | NotExact | NotRegex

record FieldCondition =
  fc_path :: "PathSegment list"
  fc_op :: MatchOp
  fc_value :: string

text \<open>A compiled regex is kept as its source; only sources that compile get into a matcher.\<close>

datatype ToolMatcher = ToolExact string | ToolGlob string | ToolRegex string

datatype ArgMatcher = ArgAny | ArgPrimary MatchOp string | ArgFields "FieldCondition list"

record ToolCallPattern =
  tp_tool :: ToolMatcher
  tp_args :: ArgMatcher

definition pattern_tool :: "string \<Rightarrow> ToolCallPattern" where
  "pattern_tool name = \<lparr>tp_tool = ToolExact name, tp_args = ArgAny\<rparr>"

definition tool_with_primary :: "string \<Rightarrow> string \<Rightarrow> ToolCallPattern" where
  "tool_with_primary name pattern = \<lparr>tp_tool = ToolExact name, tp_args = ArgPrimary Glob pattern\<rparr>"

definition tool_glob :: "string \<Rightarrow> ToolCallPattern" where
  "tool_glob pattern = \<lparr>tp_tool = ToolGlob pattern, tp_args = ArgAny\<rparr>"

definition with_args :: "ToolCallPattern \<Rightarrow> ArgMatcher \<Rightarrow> ToolCallPattern" where
  "with_args p args = p\<lparr>tp_args := args\<rparr>"

record Specificity =
  tool_kind :: u8
  has_args :: bool
  field_count :: u8
  field_precision :: u8

text \<open>The derived \<open>Ord\<close>: the fields in this order.\<close>

instantiation Specificity_ext :: (linorder) linorder
begin

definition less_eq_Specificity_ext :: "'a Specificity_ext \<Rightarrow> 'a Specificity_ext \<Rightarrow> bool" where
  "s \<le> t \<longleftrightarrow>
     (tool_kind s, has_args s, field_count s, field_precision s, Specificity.more s) \<le>
     (tool_kind t, has_args t, field_count t, field_precision t, Specificity.more t)"

definition less_Specificity_ext :: "'a Specificity_ext \<Rightarrow> 'a Specificity_ext \<Rightarrow> bool" where
  "s < t \<longleftrightarrow>
     (tool_kind s, has_args s, field_count s, field_precision s, Specificity.more s) <
     (tool_kind t, has_args t, field_count t, field_precision t, Specificity.more t)"

instance
proof
  fix s t u :: "'a Specificity_ext"
  show "s < t \<longleftrightarrow> s \<le> t \<and> \<not> t \<le> s"
    unfolding less_eq_Specificity_ext_def less_Specificity_ext_def by (rule less_le_not_le)
  show "s \<le> s" unfolding less_eq_Specificity_ext_def by (rule order_refl)
  show "s \<le> t \<Longrightarrow> t \<le> u \<Longrightarrow> s \<le> u" unfolding less_eq_Specificity_ext_def by (rule order_trans)
  show "s \<le> t \<Longrightarrow> t \<le> s \<Longrightarrow> s = t"
    unfolding less_eq_Specificity_ext_def
    by (intro Specificity.equality) (drule (1) order_antisym, simp)+
  show "s \<le> t \<or> t \<le> s" unfolding less_eq_Specificity_ext_def by (rule linear)
qed

end

datatype MatchResult = NoMatch | Match Specificity

fun is_match :: "MatchResult \<Rightarrow> bool" where
  "is_match NoMatch = False"
| "is_match (Match _) = True"

section \<open>Display\<close>

fun show_segment :: "PathSegment \<Rightarrow> string" where
  "show_segment (Field name) = name"
| "show_segment (Index i) = ''['' @ show_nat (unat i) @ '']''"
| "show_segment AnyIndex = ''[*]''"
| "show_segment Wildcard = ''*''"

fun show_op :: "MatchOp \<Rightarrow> string" where
  "show_op Glob = ''~''"
| "show_op Exact = ''=''"
| "show_op Regex = ''=~''"
| "show_op NotGlob = ''!~''"
| "show_op NotExact = ''!=''"
| "show_op NotRegex = ''!=~''"

fun is_index :: "PathSegment \<Rightarrow> bool" where
  "is_index (Index _) = True"
| "is_index AnyIndex = True"
| "is_index _ = False"

text \<open>The segments after the first: a dot, except before an index.\<close>

fun show_tail :: "PathSegment list \<Rightarrow> string" where
  "show_tail [] = []"
| "show_tail (seg # segs) = (if is_index seg then [] else ''.'') @ show_segment seg @ show_tail segs"

fun show_path :: "PathSegment list \<Rightarrow> string" where
  "show_path [] = []"
| "show_path (seg # segs) = show_segment seg @ show_tail segs"

definition dquote :: char where
  "dquote = CHR 0x22"

definition show_condition :: "FieldCondition \<Rightarrow> string" where
  "show_condition c =
     show_path (fc_path c) @ '' '' @ show_op (fc_op c) @ '' '' @ [dquote] @ fc_value c @ [dquote]"

fun show_conditions :: "FieldCondition list \<Rightarrow> string" where
  "show_conditions [] = []"
| "show_conditions [c] = show_condition c"
| "show_conditions (c # cs) = show_condition c @ '', '' @ show_conditions cs"

fun show_tool :: "ToolMatcher \<Rightarrow> string" where
  "show_tool (ToolExact s) = s"
| "show_tool (ToolGlob s) = s"
| "show_tool (ToolRegex re) = ''/'' @ re @ ''/''"

fun show_args :: "ArgMatcher \<Rightarrow> string" where
  "show_args ArgAny = ''*''"
| "show_args (ArgPrimary op value) =
     (if op = Glob then value else show_op op @ '' '' @ [dquote] @ value @ [dquote])"
| "show_args (ArgFields cs) = show_conditions cs"

definition show_pattern :: "ToolCallPattern \<Rightarrow> string" where
  "show_pattern p = show_tool (tp_tool p) @
     (if tp_args p = ArgAny then [] else ''('' @ show_args (tp_args p) @ '')'')"

section \<open>Wildcards\<close>

text \<open>
  \<open>normalize_wildcards\<close> goes over the bytes and pushes each \<open>as char\<close>. The loop is over the index
  as in the source.
\<close>

definition preceded_by_globstar :: "string \<Rightarrow> nat \<Rightarrow> bool" where
  "preceded_by_globstar bs start \<longleftrightarrow> 3 \<le> start \<and> take 3 (drop (start - 3) bs) = ''**/''"

definition followed_by_globstar :: "string \<Rightarrow> nat \<Rightarrow> bool" where
  "followed_by_globstar bs i \<longleftrightarrow>
     i + 2 < length bs \<and> take 2 (drop i bs) = ''/*'' \<and> bs ! (i + 2) = CHR ''*''"

definition star_run :: "string \<Rightarrow> nat \<Rightarrow> nat" where
  "star_run bs i = length (takeWhile ((=) CHR ''*'') (drop i bs))"

lemma star_run_pos: "i < length bs \<Longrightarrow> bs ! i = CHR ''*'' \<Longrightarrow> 0 < star_run bs i"
  by (simp add: star_run_def Cons_nth_drop_Suc [symmetric])

function normalize_loop :: "string \<Rightarrow> nat \<Rightarrow> string" where
  "normalize_loop bs i =
     (if \<not> i < length bs then []
      else if bs ! i = CHR ''*'' then
        (let count = star_run bs i; j = i + count
         in (if count \<ge> 2 then replicate count (CHR ''*'')
             else if preceded_by_globstar bs i \<or> followed_by_globstar bs j then ''*''
             else ''**'') @ normalize_loop bs j)
      else bs ! i # normalize_loop bs (i + 1))"
  by pat_completeness auto
termination
  by (relation "measure (\<lambda>(bs, i). length bs - i)") (auto intro!: diff_less_mono2 simp: star_run_pos)

declare normalize_loop.simps [simp del]

definition normalize_wildcards :: "string \<Rightarrow> string" where
  "normalize_wildcards pattern = normalize_loop (byte_chars pattern) 0"

definition wildcard_match :: "Engines \<Rightarrow> string \<Rightarrow> string \<Rightarrow> bool" where
  "wildcard_match E pattern value = glob_match E (normalize_wildcards pattern) value"

section \<open>Matching\<close>

fun resolve_path :: "json \<Rightarrow> PathSegment list \<Rightarrow> json list" where
  "resolve_path v [] = [v]"
| "resolve_path v (Field name # path) =
     (case json_get v name of Some child \<Rightarrow> resolve_path child path | None \<Rightarrow> [])"
| "resolve_path v (Index i # path) =
     (case json_array v of
        Some xs \<Rightarrow> if unat i < length xs then resolve_path (xs ! unat i) path else []
      | None \<Rightarrow> [])"
| "resolve_path v (AnyIndex # path) =
     (case json_array v of Some xs \<Rightarrow> concat (map (\<lambda>e. resolve_path e path) xs) | None \<Rightarrow> [])"
| "resolve_path v (Wildcard # path) =
     (case json_object v of
        Some kvs \<Rightarrow> concat (map (\<lambda>f. resolve_path (snd f) path) kvs)
      | None \<Rightarrow> [])"

fun value_to_string :: "Engines \<Rightarrow> json \<Rightarrow> string" where
  "value_to_string E (JString s) = s"
| "value_to_string E JNull = []"
| "value_to_string E (JBool b) = (if b then ''true'' else ''false'')"
| "value_to_string E (JNumber n) = n"
| "value_to_string E v = json_text E v"

definition infer_primary_value :: "Engines \<Rightarrow> json \<Rightarrow> string" where
  "infer_primary_value E args =
     (case json_object args of
        Some [(_, v)] \<Rightarrow> value_to_string E v
      | _ \<Rightarrow> value_to_string E args)"

fun evaluate_op :: "Engines \<Rightarrow> MatchOp \<Rightarrow> string \<Rightarrow> string \<Rightarrow> bool" where
  "evaluate_op E Glob pattern value = wildcard_match E pattern value"
| "evaluate_op E Exact pattern value = (pattern = value)"
| "evaluate_op E Regex pattern value =
     (case regex_new E pattern of Inr re \<Rightarrow> re value | Inl _ \<Rightarrow> False)"
| "evaluate_op E NotGlob pattern value = (\<not> wildcard_match E pattern value)"
| "evaluate_op E NotExact pattern value = (pattern \<noteq> value)"
| "evaluate_op E NotRegex pattern value =
     (case regex_new E pattern of Inr re \<Rightarrow> \<not> re value | Inl _ \<Rightarrow> True)"

definition evaluate_field_condition :: "Engines \<Rightarrow> FieldCondition \<Rightarrow> json \<Rightarrow> bool" where
  "evaluate_field_condition E c args =
     list_ex (\<lambda>v. evaluate_op E (fc_op c) (fc_value c) (value_to_string E v)) (resolve_path args (fc_path c))"

fun op_precision :: "MatchOp \<Rightarrow> u8" where
  "op_precision Exact = 3"
| "op_precision NotExact = 3"
| "op_precision Glob = 2"
| "op_precision NotGlob = 2"
| "op_precision Regex = 1"
| "op_precision NotRegex = 1"

fun match_fields :: "Engines \<Rightarrow> FieldCondition list \<Rightarrow> json \<Rightarrow> u8 \<Rightarrow> u8 option" where
  "match_fields E [] args precision = Some precision"
| "match_fields E (c # cs) args precision =
     (if \<not> evaluate_field_condition E c args then None
      else match_fields E cs args (saturating_add precision (op_precision (fc_op c))))"

fun match_tool :: "Engines \<Rightarrow> ToolMatcher \<Rightarrow> string \<Rightarrow> u8 option" where
  "match_tool E (ToolExact name) tool_id = (if name \<noteq> tool_id then None else Some 3)"
| "match_tool E (ToolGlob pat) tool_id = (if \<not> wildcard_match E pat tool_id then None else Some 2)"
| "match_tool E (ToolRegex re) tool_id =
     (case regex_new E re of Inr f \<Rightarrow> if f tool_id then Some 1 else None | Inl _ \<Rightarrow> None)"

definition pattern_matches :: "Engines \<Rightarrow> ToolCallPattern \<Rightarrow> string \<Rightarrow> json \<Rightarrow> MatchResult" where
  "pattern_matches E pattern tool_id tool_args =
     (case match_tool E (tp_tool pattern) tool_id of
        None \<Rightarrow> NoMatch
      | Some kind \<Rightarrow>
          (case tp_args pattern of
             ArgAny \<Rightarrow>
               Match \<lparr>tool_kind = kind, has_args = False, field_count = 0, field_precision = 0\<rparr>
           | ArgPrimary op value \<Rightarrow>
               if evaluate_op E op value (infer_primary_value E tool_args)
               then Match \<lparr>tool_kind = kind, has_args = True, field_count = 1, field_precision = op_precision op\<rparr>
               else NoMatch
           | ArgFields conditions \<Rightarrow>
               (case match_fields E conditions tool_args 0 of
                  None \<Rightarrow> NoMatch
                | Some precision \<Rightarrow>
                    Match \<lparr>tool_kind = kind, has_args = True,
                      field_count = of_nat (min (length conditions) 255), field_precision = precision\<rparr>)))"

section \<open>Schema validation\<close>

definition additional_schema :: "json \<Rightarrow> json option" where
  "additional_schema schema =
     (case json_get schema ''additionalProperties'' of
        Some ap \<Rightarrow> if json_object ap \<noteq> None then Some ap else None
      | None \<Rightarrow> None)"

function schema_has_path :: "json \<Rightarrow> PathSegment list \<Rightarrow> bool" where
  "schema_has_path schema [] = True"
| "schema_has_path schema (Field name # path) =
     (case Option.bind (json_get schema ''properties'') (\<lambda>p. json_get p name) of
        Some sub \<Rightarrow> schema_has_path sub path
      | None \<Rightarrow> (case additional_schema schema of Some ap \<Rightarrow> schema_has_path ap path | None \<Rightarrow> False))"
| "schema_has_path schema (Index i # path) =
     (case json_get schema ''items'' of Some items \<Rightarrow> schema_has_path items path | None \<Rightarrow> False)"
| "schema_has_path schema (AnyIndex # path) =
     (case json_get schema ''items'' of Some items \<Rightarrow> schema_has_path items path | None \<Rightarrow> False)"
| "schema_has_path schema (Wildcard # path) =
     (case Option.bind (json_get schema ''properties'') json_object of
        Some props \<Rightarrow> list_ex (\<lambda>f. schema_has_path (snd f) path) props
      | None \<Rightarrow> (case additional_schema schema of Some ap \<Rightarrow> schema_has_path ap path | None \<Rightarrow> False))"
  by pat_completeness auto
termination
  by (relation "measure (\<lambda>(schema, path). length path)") auto

fun join_dots :: "string list \<Rightarrow> string" where
  "join_dots [] = []"
| "join_dots [s] = s"
| "join_dots (s # ss) = s @ ''.'' @ join_dots ss"

definition validate_pattern_fields :: "ToolCallPattern \<Rightarrow> json \<Rightarrow> string list" where
  "validate_pattern_fields pattern schema =
     (case tp_args pattern of
        ArgFields conditions \<Rightarrow>
          map (\<lambda>c. join_dots (map show_segment (fc_path c)))
            (filter (\<lambda>c. \<not> schema_has_path schema (fc_path c)) conditions)
      | _ \<Rightarrow> [])"

end
