(* ===== verification/Pattern_Parser.thy ===== *)
theory Pattern_Parser
  imports Tool_Pattern
begin

text \<open>
  The pattern parser (\<^verbatim>\<open>awaken-tool-pattern/src/parser.rs\<close>). A cursor is the trimmed input together
  with what is left of it; the position an error carries is the number of bytes read. Each parsing
  function takes the rest and returns its result with the new rest.
\<close>

section \<open>The cursor\<close>

record PatternParseError =
  pe_message :: string
  pe_position :: nat

type_synonym 'a parse = "('a \<times> string, PatternParseError) outcome"

definition is_ascii :: "char \<Rightarrow> bool" where
  "is_ascii c \<longleftrightarrow> (of_char c :: nat) < 128"

definition is_ascii_whitespace :: "char \<Rightarrow> bool" where
  "is_ascii_whitespace c \<longleftrightarrow> c \<in> {CHR '' '', CHR 0x09, CHR 0x0A, CHR 0x0C, CHR 0x0D}"

definition is_ascii_alphanumeric :: "char \<Rightarrow> bool" where
  "is_ascii_alphanumeric c \<longleftrightarrow>
     (let n = (of_char c :: nat) in 48 \<le> n \<and> n \<le> 57 \<or> 65 \<le> n \<and> n \<le> 90 \<or> 97 \<le> n \<and> n \<le> 122)"

definition parse_error :: "string \<Rightarrow> string \<Rightarrow> string \<Rightarrow> 'a parse" where
  "parse_error inp rest message = Err \<lparr>pe_message = message, pe_position = str_len inp - str_len rest\<rparr>"

definition skip_whitespace :: "string \<Rightarrow> string" where
  "skip_whitespace rest = dropWhile is_ascii_whitespace rest"

fun peek :: "string \<Rightarrow> char option" where
  "peek [] = None"
| "peek (c # _) = Some c"

definition expect_char :: "string \<Rightarrow> char \<Rightarrow> string \<Rightarrow> unit parse" where
  "expect_char inp ch rest =
     (case skip_whitespace rest of
        [] \<Rightarrow> parse_error inp [] (''expected '' @ in_quotes [ch] @ '', found end of input'')
      | c # cs \<Rightarrow>
          if c = ch then Ok ((), cs)
          else parse_error inp (c # cs) (''expected '' @ in_quotes [ch] @ '', found '' @ in_quotes [c]))"

section \<open>The tool part\<close>

text \<open>
  The body of a regex up to the closing slash outside parentheses. A backslash moves one byte past
  the character that follows, so a longer character leaves the position inside it, and the next
  slice of the input panics: \<open>None\<close>.
\<close>

fun regex_body :: "nat \<Rightarrow> string \<Rightarrow> (string \<times> string) option" where
  "regex_body depth [] = Some ([], [])"
| "regex_body depth (c # cs) =
     (if c = CHR 0x5C then
        (case cs of
           [] \<Rightarrow> Some ([c], [])
         | e # es \<Rightarrow>
             if is_ascii e then map_option (\<lambda>(b, r). (c # e # b, r)) (regex_body depth es) else None)
      else if c = CHR ''('' then map_option (\<lambda>(b, r). (c # b, r)) (regex_body (depth + 1) cs)
      else if c = CHR '')'' then map_option (\<lambda>(b, r). (c # b, r)) (regex_body (depth - 1) cs)
      else if c = CHR ''/'' \<and> depth = 0 then Some ([], c # cs)
      else map_option (\<lambda>(b, r). (c # b, r)) (regex_body depth cs))"

definition has_glob_chars :: "string \<Rightarrow> bool" where
  "has_glob_chars s \<longleftrightarrow> CHR ''*'' \<in> set s \<or> CHR ''?'' \<in> set s \<or> CHR ''['' \<in> set s"

definition name_char :: "char \<Rightarrow> bool" where
  "name_char c \<longleftrightarrow> c \<noteq> CHR ''('' \<and> \<not> is_ascii_whitespace c"

definition parse_tool_part :: "Engines \<Rightarrow> string \<Rightarrow> string \<Rightarrow> ToolMatcher parse" where
  "parse_tool_part E inp rest0 =
     (let rest = skip_whitespace rest0
      in if peek rest = Some (CHR ''/'') then
           (case regex_body 0 (tl rest) of
              None \<Rightarrow> Panic ''byte index is not a char boundary''
            | Some (body, r) \<Rightarrow>
                if body = [] then parse_error inp r ''empty regex pattern''
                else and_then (expect_char inp (CHR ''/'') r) (\<lambda>(_, r').
                  case regex_new E body of
                    Inl e \<Rightarrow> parse_error inp r' (''invalid regex: '' @ e)
                  | Inr _ \<Rightarrow> Ok (ToolRegex body, r')))
         else
           (let name = takeWhile name_char rest; r = dropWhile name_char rest
            in if name = [] then parse_error inp r ''empty tool name''
               else if has_glob_chars name then Ok (ToolGlob name, r)
               else Ok (ToolExact name, r)))"

section \<open>Field conditions\<close>

definition ident_char :: "char \<Rightarrow> bool" where
  "ident_char c \<longleftrightarrow> is_ascii_alphanumeric c \<or> c = CHR ''_'' \<or> c = CHR ''-''"

definition parse_identifier :: "string \<Rightarrow> string \<Rightarrow> string parse" where
  "parse_identifier inp rest =
     (let ident = takeWhile ident_char rest; r = dropWhile ident_char rest
      in if ident = [] then parse_error inp r ''expected identifier'' else Ok (ident, r))"

definition digits_value :: "string \<Rightarrow> nat" where
  "digits_value = foldl (\<lambda>n c. 10 * n + (of_char c - 48)) 0"

text \<open>\<open>str::parse::<usize>\<close> on a string of digits.\<close>

definition parse_usize :: "string \<Rightarrow> string \<Rightarrow> usize parse" where
  "parse_usize inp rest =
     (let digits = takeWhile is_digit rest; r = dropWhile is_digit rest
      in if digits = [] \<or> digits_value digits \<ge> 2 ^ 64
         then parse_error inp r (''invalid index: '' @ in_quotes digits)
         else Ok (of_nat (digits_value digits), r))"

text \<open>One bracket, behind its opening.\<close>

definition parse_index :: "string \<Rightarrow> string \<Rightarrow> PathSegment parse" where
  "parse_index inp rest =
     (let r = skip_whitespace rest
      in and_then
           (if peek r = Some (CHR ''*'') then Ok (AnyIndex, tl r)
            else map_ok (\<lambda>(i, r'). (Index i, r')) (parse_usize inp r))
           (\<lambda>(seg, r'). map_ok (\<lambda>(_, r''). (seg, r'')) (expect_char inp (CHR '']'') r')))"

lemma length_skip: "length (skip_whitespace r) \<le> length r"
  by (simp add: skip_whitespace_def length_dropWhile_le)

lemma expect_char_shorter: "expect_char inp ch r = Ok (u, r') \<Longrightarrow> length r' < length r"
  using length_skip [of r]
  by (auto simp: expect_char_def parse_error_def split: list.splits if_splits)

lemma parse_usize_shorter: "parse_usize inp r = Ok (i, r') \<Longrightarrow> length r' \<le> length r"
  by (auto simp: parse_usize_def parse_error_def Let_def length_dropWhile_le split: if_splits)

lemma parse_index_shorter: "parse_index inp r = Ok (seg, r') \<Longrightarrow> length r' < length r"
  using length_skip [of r]
  by (force simp: parse_index_def Let_def and_then_eq_Ok_iff map_ok_eq_Ok_iff
      dest: expect_char_shorter parse_usize_shorter split: if_splits)

function parse_indices :: "string \<Rightarrow> string \<Rightarrow> PathSegment list parse" where
  "parse_indices inp rest =
     (if peek rest \<noteq> Some (CHR ''['') then Ok ([], rest)
      else (case parse_index inp (tl rest) of
          Ok (seg, r) \<Rightarrow> map_ok (\<lambda>(segs, r'). (seg # segs, r')) (parse_indices inp r)
        | Err e \<Rightarrow> Err e
        | Panic p \<Rightarrow> Panic p))"
  by pat_completeness auto
termination
  by (relation "measure (\<lambda>(inp, rest). length rest)") (auto dest!: parse_index_shorter)

declare parse_indices.simps [simp del]

definition parse_head :: "string \<Rightarrow> string \<Rightarrow> PathSegment parse" where
  "parse_head inp rest0 =
     (let rest = skip_whitespace rest0
      in if peek rest = Some (CHR ''*'') then Ok (Wildcard, tl rest)
         else map_ok (\<lambda>(ident, r). (Field ident, r)) (parse_identifier inp rest))"

lemma parse_head_shorter: "parse_head inp r = Ok (seg, r') \<Longrightarrow> length r' < length r"
proof -
  assume "parse_head inp r = Ok (seg, r')"
  then have "length r' < length (skip_whitespace r)"
    by (cases "skip_whitespace r")
      (auto simp: parse_head_def Let_def map_ok_eq_Ok_iff parse_identifier_def parse_error_def
        le_imp_less_Suc length_dropWhile_le split: if_splits)
  with length_skip [of r] show ?thesis by simp
qed

lemma parse_indices_shorter: "parse_indices inp r = Ok (segs, r') \<Longrightarrow> length r' \<le> length r"
proof (induction inp r arbitrary: segs r' rule: parse_indices.induct)
  case (1 inp rest)
  show ?case
  proof (cases "peek rest = Some (CHR ''['')")
    case True
    with 1 show ?thesis
      by (force simp: parse_indices.simps [of inp rest] map_ok_eq_Ok_iff dest: parse_index_shorter
          split: outcome.splits)
  qed (use 1 in \<open>simp add: parse_indices.simps\<close>)
qed

function parse_field_path :: "string \<Rightarrow> string \<Rightarrow> PathSegment list parse" where
  "parse_field_path inp rest =
     (case parse_head inp rest of
        Err e \<Rightarrow> Err e
      | Panic p \<Rightarrow> Panic p
      | Ok (seg, r) \<Rightarrow>
          (case parse_indices inp r of
             Err e \<Rightarrow> Err e
           | Panic p \<Rightarrow> Panic p
           | Ok (segs, r') \<Rightarrow>
               if peek r' = Some (CHR ''.'')
               then map_ok (\<lambda>(more, r''). (seg # segs @ more, r'')) (parse_field_path inp (tl r'))
               else Ok (seg # segs, r')))"
  by pat_completeness auto
termination
  by (relation "measure (\<lambda>(inp, rest). length rest)") (auto dest!: parse_head_shorter parse_indices_shorter)

declare parse_field_path.simps [simp del]

text \<open>The operators in the order in which the parser tries them.\<close>

definition op_table :: "(string \<times> MatchOp) list" where
  "op_table = [(''!=~'', NotRegex), (''!='', NotExact), (''!~'', NotGlob), (''=~'', Regex), (''~'', Glob), (''='', Exact)]"

definition parse_match_op :: "string \<Rightarrow> string \<Rightarrow> MatchOp parse" where
  "parse_match_op inp rest =
     (case find (\<lambda>(s, op). prefix s rest) op_table of
        Some (s, op) \<Rightarrow> Ok (op, drop (length s) rest)
      | None \<Rightarrow> parse_error inp rest ''expected operator: ~, =, =~, !~, !=, or !=~'')"

fun quoted_body :: "string \<Rightarrow> string \<Rightarrow> string parse" where
  "quoted_body inp [] = parse_error inp [] ''unterminated string literal''"
| "quoted_body inp (c # cs) =
     (if c = dquote then Ok ([], cs)
      else if c = CHR 0x5C then
        (case cs of
           [] \<Rightarrow> parse_error inp [] ''unterminated escape sequence''
         | e # es \<Rightarrow>
             map_ok (\<lambda>(v, r). ((if e = dquote \<or> e = CHR 0x5C then [e] else [c, e]) @ v, r)) (quoted_body inp es))
      else map_ok (\<lambda>(v, r). (c # v, r)) (quoted_body inp cs))"

definition parse_quoted_value :: "string \<Rightarrow> string \<Rightarrow> string parse" where
  "parse_quoted_value inp rest0 =
     (let rest = skip_whitespace rest0
      in if peek rest \<noteq> Some dquote
         then parse_error inp rest (''expected '' @ in_quotes [dquote] @ '' to start value'')
         else quoted_body inp (tl rest))"

definition parse_single_field_condition :: "string \<Rightarrow> string \<Rightarrow> FieldCondition parse" where
  "parse_single_field_condition inp rest =
     and_then (parse_field_path inp (skip_whitespace rest)) (\<lambda>(path, r1).
       and_then (parse_match_op inp (skip_whitespace r1)) (\<lambda>(op, r2).
         map_ok (\<lambda>(value, r3). (\<lparr>fc_path = path, fc_op = op, fc_value = value\<rparr>, r3))
           (parse_quoted_value inp (skip_whitespace r2))))"

lemma parse_field_path_shorter: "parse_field_path inp r = Ok (path, r') \<Longrightarrow> length r' < length r"
proof (induction inp r arbitrary: path r' rule: parse_field_path.induct)
  case (1 inp rest)
  obtain seg r where h: "parse_head inp rest = Ok (seg, r)"
    using "1.prems" by (auto simp: parse_field_path.simps [of inp rest] split: outcome.splits)
  obtain segs r1 where i: "parse_indices inp r = Ok (segs, r1)"
    using "1.prems" h by (auto simp: parse_field_path.simps [of inp rest] split: outcome.splits)
  have "length r1 < length rest" using parse_head_shorter [OF h] parse_indices_shorter [OF i] by simp
  then show ?case
    using 1 h i by (fastforce simp: parse_field_path.simps [of inp rest] map_ok_eq_Ok_iff split: if_splits)
qed

lemma quoted_body_shorter: "quoted_body inp r = Ok (v, r') \<Longrightarrow> length r' < length r"
  by (induction inp r arbitrary: v r' rule: quoted_body.induct)
    (fastforce simp: parse_error_def map_ok_eq_Ok_iff split: if_splits list.splits)+

lemma parse_match_op_shorter: "parse_match_op inp r = Ok (op, r') \<Longrightarrow> length r' \<le> length r"
  by (auto simp: parse_match_op_def parse_error_def split: option.splits)

lemma parse_quoted_value_shorter: "parse_quoted_value inp r = Ok (v, r') \<Longrightarrow> length r' < length r"
  using length_skip [of r]
  by (auto simp: parse_quoted_value_def parse_error_def Let_def dest!: quoted_body_shorter split: if_splits)

lemma parse_single_shorter:
  assumes "parse_single_field_condition inp r = Ok (c, r')"
  shows "length r' < length r"
proof -
  obtain path r1 op r2 v where 1: "parse_field_path inp (skip_whitespace r) = Ok (path, r1)"
    and 2: "parse_match_op inp (skip_whitespace r1) = Ok (op, r2)"
    and 3: "parse_quoted_value inp (skip_whitespace r2) = Ok (v, r')"
    using assms by (auto simp: parse_single_field_condition_def and_then_eq_Ok_iff map_ok_eq_Ok_iff)
  from parse_field_path_shorter [OF 1] parse_match_op_shorter [OF 2] parse_quoted_value_shorter [OF 3]
    length_skip [of r] length_skip [of r1] length_skip [of r2]
  show ?thesis by linarith
qed

lemma next_condition_shorter:
  "parse_single_field_condition inp (skip_whitespace r) = Ok (c, r') \<Longrightarrow>
   length (tl (skip_whitespace r')) < length r"
  using parse_single_shorter [of inp "skip_whitespace r" c r'] length_skip [of r] length_skip [of r']
  by simp

text \<open>The loop over conditions: another one follows a comma.\<close>

function parse_field_conditions :: "string \<Rightarrow> string \<Rightarrow> FieldCondition list parse" where
  "parse_field_conditions inp rest =
     (case parse_single_field_condition inp (skip_whitespace rest) of
        Err e \<Rightarrow> Err e
      | Panic p \<Rightarrow> Panic p
      | Ok (c, r) \<Rightarrow>
          (let r' = skip_whitespace r
           in if peek r' = Some (CHR '','')
              then map_ok (\<lambda>(cs, r''). (c # cs, r'')) (parse_field_conditions inp (tl r'))
              else Ok ([c], r')))"
  by pat_completeness auto
termination
  by (relation "measure (\<lambda>(inp, rest). length rest)")
    (rule wf_measure, simp only: in_measure prod.case, metis next_condition_shorter)

declare parse_field_conditions.simps [simp del]

section \<open>Arguments\<close>

text \<open>
  \<open>looks_like_field_conditions\<close>: skip what could be a field path, then white space, and look for an
  operator.
\<close>

function path_scan :: "string \<Rightarrow> string" where
  "path_scan [] = []"
| "path_scan (c # cs) =
     (if is_ascii_alphanumeric c \<or> c = CHR ''_'' \<or> c = CHR ''.'' then path_scan cs
      else if c = CHR ''['' then path_scan (drop 1 (dropWhile (\<lambda>d. d \<noteq> CHR '']'') cs))
      else if c = CHR ''*'' then
        (if peek cs = Some (CHR ''.'') \<or> peek cs = Some (CHR ''['') then path_scan cs else cs)
      else c # cs)"
  by pat_completeness auto
termination
  by (relation "measure length") (auto intro!: le_imp_less_Suc order.trans [OF diff_le_self] length_dropWhile_le)

definition looks_like_field_conditions :: "string \<Rightarrow> bool" where
  "looks_like_field_conditions s =
     (let remaining = skip_whitespace (path_scan (trim s))
      in prefix ''~'' remaining \<or> prefix ''='' remaining \<or> prefix ''!~'' remaining \<or> prefix ''!='' remaining)"

text \<open>The primary value: up to the closing parenthesis that is not its own.\<close>

fun primary_body :: "nat \<Rightarrow> string \<Rightarrow> string \<times> string" where
  "primary_body depth [] = ([], [])"
| "primary_body depth (c # cs) =
     (if c = CHR ''('' then apfst (Cons c) (primary_body (depth + 1) cs)
      else if c = CHR '')'' \<and> depth > 0 then apfst (Cons c) (primary_body (depth - 1) cs)
      else if c = CHR '')'' then ([], c # cs)
      else apfst (Cons c) (primary_body depth cs))"

definition parse_primary_value :: "string \<Rightarrow> string \<Rightarrow> ArgMatcher parse" where
  "parse_primary_value inp rest =
     (let (body, r) = primary_body 0 (skip_whitespace rest); value = trim body
      in if value = [] then parse_error inp r ''empty primary pattern'' else Ok (ArgPrimary Glob value, r))"

definition star_alone :: "string \<Rightarrow> bool" where
  "star_alone cs = (case cs of [] \<Rightarrow> True | c # _ \<Rightarrow> \<not> is_ascii c \<or> c = CHR '')'' \<or> is_ascii_whitespace c)"

definition parse_arg_part :: "string \<Rightarrow> string \<Rightarrow> ArgMatcher parse" where
  "parse_arg_part inp rest0 =
     (let rest = skip_whitespace rest0
      in if peek rest = Some (CHR ''*'') \<and> star_alone (tl rest) then Ok (ArgAny, skip_whitespace (tl rest))
         else if looks_like_field_conditions rest
           then map_ok (\<lambda>(cs, r). (ArgFields cs, r)) (parse_field_conditions inp rest)
         else parse_primary_value inp rest)"

definition parse_args :: "string \<Rightarrow> string \<Rightarrow> ArgMatcher parse" where
  "parse_args inp rest =
     (if peek rest = Some (CHR ''('') then
        and_then (parse_arg_part inp (tl rest)) (\<lambda>(args, r).
          map_ok (\<lambda>(_, r'). (args, r')) (expect_char inp (CHR '')'') r))
      else Ok (ArgAny, rest))"

definition parse_pattern :: "Engines \<Rightarrow> string \<Rightarrow> (ToolCallPattern, PatternParseError) outcome" where
  "parse_pattern E input =
     (let inp = trim input
      in and_then (parse_tool_part E inp inp) (\<lambda>(tool, r1).
           and_then (parse_args inp (skip_whitespace r1)) (\<lambda>(args, r2).
             (let r3 = skip_whitespace r2
              in if r3 \<noteq> [] then
                   map_ok fst (parse_error inp r3 (''unexpected trailing: '' @ in_quotes r3))
                 else Ok \<lparr>tp_tool = tool, tp_args = args\<rparr>))))"

end
