(* ===== verification/Pattern_Roundtrip.thy ===== *)
theory Pattern_Roundtrip
  imports Pattern_Parser
begin

text \<open>
  Printing a pattern and parsing it again: which patterns come back, and which do not. Patterns are
  stored and keyed by their printed form.
\<close>

section \<open>Pieces of the input\<close>

lemma trim_id: "s \<noteq> [] \<Longrightarrow> \<not> is_whitespace (hd s) \<Longrightarrow> \<not> is_whitespace (last s) \<Longrightarrow> trim s = s"
proof -
  assume s: "s \<noteq> []" "\<not> is_whitespace (hd s)" "\<not> is_whitespace (last s)"
  then have "dropWhile is_whitespace s = s" by (cases s) simp_all
  moreover have "dropWhile is_whitespace (rev s) = rev s"
    using s by (cases "rev s") (simp_all add: last_rev hd_rev [symmetric])
  ultimately show ?thesis by (simp add: trim_def)
qed

lemma ascii_whitespace: "is_ascii_whitespace c \<Longrightarrow> is_whitespace c"
  by (auto simp: is_ascii_whitespace_def is_whitespace_def)

lemma skip_nothing: "\<not> is_ascii_whitespace c \<Longrightarrow> skip_whitespace (c # r) = c # r"
  by (simp add: skip_whitespace_def)

lemma skip_blank [simp]: "skip_whitespace (CHR '' '' # r) = skip_whitespace r"
  by (simp add: skip_whitespace_def is_ascii_whitespace_def)

lemma skip_mark [simp]:
  "skip_whitespace (CHR '')'' # r) = CHR '')'' # r" "skip_whitespace (CHR '','' # r) = CHR '','' # r"
  "skip_whitespace (dquote # r) = dquote # r" "skip_whitespace (CHR ''('' # r) = CHR ''('' # r"
  "skip_whitespace (CHR ''*'' # r) = CHR ''*'' # r" "skip_whitespace [] = []"
  "skip_whitespace (CHR ''/'' # r) = CHR ''/'' # r" "skip_whitespace (CHR '']'' # r) = CHR '']'' # r"
  by (simp_all add: skip_whitespace_def is_ascii_whitespace_def dquote_def)

lemma ident_char_plain:
  assumes "ident_char c"
  shows "\<not> is_ascii_whitespace c" and "\<not> is_whitespace c" and "c \<noteq> CHR ''*''" and "c \<noteq> CHR ''[''"
  using assms
  by (auto simp: ident_char_def is_ascii_alphanumeric_def is_ascii_whitespace_def is_whitespace_def Let_def)

lemma ident_stops [simp]:
  "\<not> ident_char (CHR ''['')" "\<not> ident_char (CHR ''.'')" "\<not> ident_char (CHR '' '')"
  by (simp_all add: ident_char_def is_ascii_alphanumeric_def)

lemma takeWhile_stop: "(\<forall>x \<in> set xs. P x) \<Longrightarrow> \<not> P y \<Longrightarrow> takeWhile P (xs @ y # ys) = xs"
  by (simp add: takeWhile_append)

lemma dropWhile_stop: "(\<forall>x \<in> set xs. P x) \<Longrightarrow> \<not> P y \<Longrightarrow> dropWhile P (xs @ y # ys) = y # ys"
  by (simp add: dropWhile_append)

lemma digits_value_snoc: "digits_value (ds @ [d]) = 10 * digits_value ds + (of_char d - 48)"
  by (simp add: digits_value_def)

lemma digits_value_show: "digits_value (show_nat n) = n"
proof (induction n rule: show_nat.induct)
  case (1 n)
  show ?case
  proof (cases "n < 10")
    case True
    then show ?thesis by (subst show_nat.simps) (simp add: digits_value_def of_char_digit)
  next
    case False
    with 1 show ?thesis
      by (subst show_nat.simps) (simp del: show_nat.simps add: digits_value_snoc of_char_digit)
  qed
qed

lemma digit_plain: "is_digit c \<Longrightarrow> \<not> is_ascii_whitespace c \<and> c \<noteq> CHR ''*''"
  by (auto simp: is_digit_def is_ascii_whitespace_def)

section \<open>Paths\<close>

fun segment_ok :: "PathSegment \<Rightarrow> bool" where
  "segment_ok (Field name) \<longleftrightarrow> name \<noteq> [] \<and> list_all ident_char name"
| "segment_ok _ \<longleftrightarrow> True"

definition path_ok :: "PathSegment list \<Rightarrow> bool" where
  "path_ok path \<longleftrightarrow> (case path of [] \<Rightarrow> False | seg # _ \<Rightarrow> \<not> is_index seg) \<and> list_all segment_ok path"

lemma parse_index_show:
  assumes "is_index seg"
  shows "parse_index inp (tl (show_segment seg @ r)) = Ok (seg, r)"
proof (cases seg)
  case (Index i)
  let ?n = "show_nat (unat i)"
  have d: "\<forall>c \<in> set ?n. is_digit c" using set_show_nat by blast
  obtain c cs where n: "?n = c # cs" by (cases ?n) auto
  have skip: "skip_whitespace (?n @ CHR '']'' # r) = ?n @ CHR '']'' # r"
    using d digit_plain n by (simp add: skip_nothing)
  have nostar: "peek (?n @ CHR '']'' # r) \<noteq> Some (CHR ''*'')" using d digit_plain n by simp
  have stop: "\<not> is_digit (CHR '']'')" by (simp add: is_digit_def)
  have "unat i < 2 ^ 64" using unat_bound [of i] by simp
  then have "parse_usize inp (?n @ CHR '']'' # r) = Ok (i, CHR '']'' # r)"
    by (simp add: parse_usize_def takeWhile_stop [OF d stop] dropWhile_stop [OF d stop] digits_value_show Let_def)
  with Index skip nostar show ?thesis
    by (simp add: parse_index_def expect_char_def)
qed (use assms in \<open>simp_all add: parse_index_def expect_char_def\<close>)

lemma show_index_Cons: "is_index seg \<Longrightarrow> \<exists>s. show_segment seg = CHR ''['' # s"
  by (cases seg) simp_all

lemma parse_indices_show:
  assumes "list_all is_index segs" and "peek r \<noteq> Some (CHR ''['')"
  shows "parse_indices inp (show_tail segs @ r) = Ok (segs, r)"
  using assms(1)
proof (induction segs)
  case Nil
  with assms(2) show ?case by (simp add: parse_indices.simps)
next
  case (Cons seg segs)
  then have i: "is_index seg" by simp
  then obtain s where s: "show_segment seg = CHR ''['' # s" using show_index_Cons by blast
  from parse_index_show [OF i, of inp "show_tail segs @ r"] Cons i s show ?case
    by (subst parse_indices.simps) simp
qed

lemma parse_head_show:
  assumes "segment_ok seg" and "\<not> is_index seg" and "peek r \<in> Some ` {CHR ''['', CHR ''.'', CHR '' ''}"
  shows "parse_head inp (show_segment seg @ r) = Ok (seg, r)"
proof (cases seg)
  case (Field name)
  obtain c cs where n: "name = c # cs" using assms(1) Field by (cases name) auto
  have all: "\<forall>x \<in> set name. ident_char x" using assms(1) Field by (simp add: list_all_iff)
  obtain d ds where r: "r = d # ds" "\<not> ident_char d" using assms(3) by (cases r) auto
  have "parse_identifier inp (name @ r) = Ok (name, r)"
    unfolding parse_identifier_def r(1) takeWhile_stop [OF all r(2)] dropWhile_stop [OF all r(2)]
    using n by simp
  moreover have "skip_whitespace (name @ r) = name @ r" "peek (name @ r) \<noteq> Some (CHR ''*'')"
    using all ident_char_plain n by (simp_all add: skip_nothing)
  ultimately show ?thesis using Field by (simp add: parse_head_def)
qed (use assms in \<open>simp_all add: parse_head_def\<close>)

lemma show_tail_append: "show_tail (xs @ ys) = show_tail xs @ show_tail ys"
  by (induction xs) simp_all

lemma show_tail_peek: "segs \<noteq> [] \<Longrightarrow> peek (show_tail segs @ r) = Some (if is_index (hd segs) then CHR ''['' else CHR ''.'')"
  by (cases segs) (auto dest: show_index_Cons)

lemma parse_field_path_show:
  assumes "path_ok path"
  shows "parse_field_path inp (show_path path @ CHR '' '' # r) = Ok (path, CHR '' '' # r)"
  using assms
proof (induction "length path" arbitrary: path rule: less_induct)
  case less
  obtain seg segs where p: "path = seg # segs" "\<not> is_index seg" "segment_ok seg" "list_all segment_ok segs"
    using less.prems by (auto simp: path_ok_def split: list.splits)
  define idx rest where "idx = takeWhile is_index segs" and "rest = dropWhile is_index segs"
  have segs: "segs = idx @ rest" by (simp add: idx_def rest_def)
  have idx: "list_all is_index idx" by (auto simp: idx_def list_all_iff dest: set_takeWhileD)
  let ?r = "show_tail rest @ CHR '' '' # r"
  have head: "parse_head inp (show_path path @ CHR '' '' # r) = Ok (seg, show_tail segs @ CHR '' '' # r)"
    using parse_head_show [OF p(3,2), of "show_tail segs @ CHR '' '' # r"] p(1)
    by (cases "segs = []") (simp_all add: show_tail_peek)
  have rest_dot: "rest \<noteq> [] \<Longrightarrow> \<not> is_index (hd rest)" unfolding rest_def by (rule hd_dropWhile)
  then have "peek ?r \<noteq> Some (CHR ''['')" by (cases "rest = []") (simp_all add: show_tail_peek)
  then have indices: "parse_indices inp (show_tail segs @ CHR '' '' # r) = Ok (idx, ?r)"
    using parse_indices_show [OF idx, of ?r] by (simp add: segs show_tail_append)
  show ?case
  proof (cases rest)
    case Nil
    with head indices p(1) segs show ?thesis by (subst parse_field_path.simps) simp
  next
    case (Cons seg' segs')
    have ok: "path_ok rest"
      using rest_dot Cons p(4) segs by (simp add: path_ok_def)
    have "length rest < length path" using p(1) segs by simp
    from less.hyps [OF this ok] Cons rest_dot
    have "parse_field_path inp (tl ?r) = Ok (rest, CHR '' '' # r)" "peek ?r = Some (CHR ''.'')" by simp_all
    with head indices p(1) segs show ?thesis by (subst parse_field_path.simps) simp
  qed
qed

section \<open>Conditions\<close>

lemma op_starts: "\<exists>c cs. show_op op = c # cs \<and> \<not> is_ascii_whitespace c"
  by (cases op) (simp_all add: is_ascii_whitespace_def)

lemma skip_op [simp]: "skip_whitespace (show_op op @ r) = show_op op @ r"
  using op_starts [of op] by (auto simp: skip_nothing)

lemma parse_match_op_show: "parse_match_op inp (show_op op @ CHR '' '' # r) = Ok (op, CHR '' '' # r)"
  by (cases op) (simp_all add: parse_match_op_def op_table_def)

text \<open>Values are printed without escapes: what survives has no quote and no backslash before a backslash.\<close>

fun value_ok :: "string \<Rightarrow> bool" where
  "value_ok [] = True"
| "value_ok (c # cs) =
     (if c = dquote then False
      else if c = CHR 0x5C then
        (case cs of [] \<Rightarrow> False | e # es \<Rightarrow> e \<noteq> dquote \<and> e \<noteq> CHR 0x5C \<and> value_ok es)
      else value_ok cs)"

lemma quoted_body_show: "value_ok v \<Longrightarrow> quoted_body inp (v @ dquote # r) = Ok (v, r)"
  by (induction v rule: value_ok.induct) (auto split: if_splits list.splits)

definition condition_ok :: "FieldCondition \<Rightarrow> bool" where
  "condition_ok c \<longleftrightarrow> path_ok (fc_path c) \<and> value_ok (fc_value c)"

lemma show_path_starts:
  assumes "path_ok path"
  obtains c cs where "show_path path = c # cs" and "\<not> is_whitespace c" and "\<not> is_ascii_whitespace c"
proof -
  obtain seg segs where p: "path = seg # segs" "\<not> is_index seg" "segment_ok seg"
    using assms by (auto simp: path_ok_def split: list.splits)
  show ?thesis
  proof (cases seg)
    case (Field name)
    with p obtain c cs where "name = c # cs" "ident_char c" by (cases name) auto
    with that [of c "cs @ show_tail segs"] Field p ident_char_plain show ?thesis by simp
  next
    case Wildcard
    with that [of "CHR ''*''" "show_tail segs"] p show ?thesis
      by (simp add: is_whitespace_def is_ascii_whitespace_def)
  qed (use p in simp_all)
qed

lemma skip_path: "path_ok path \<Longrightarrow> skip_whitespace (show_path path @ r) = show_path path @ r"
  by (erule show_path_starts) (simp add: skip_nothing)

lemma parse_single_show:
  assumes "condition_ok c"
  shows "parse_single_field_condition inp (show_condition c @ r) = Ok (c, r)"
proof -
  have p: "path_ok (fc_path c)" and v: "value_ok (fc_value c)" using assms by (simp_all add: condition_ok_def)
  have "show_condition c @ r =
      show_path (fc_path c) @ CHR '' '' # show_op (fc_op c) @ CHR '' '' # dquote # fc_value c @ dquote # r"
    by (simp add: show_condition_def)
  then show ?thesis
    by (simp add: parse_single_field_condition_def skip_path [OF p] parse_field_path_show [OF p]
        parse_match_op_show parse_quoted_value_def quoted_body_show [OF v])
qed

lemma skip_condition: "condition_ok c \<Longrightarrow> skip_whitespace (show_condition c @ r) = show_condition c @ r"
  by (simp add: show_condition_def condition_ok_def skip_path)

lemma parse_conditions_blank [simp]:
  "parse_field_conditions inp (CHR '' '' # r) = parse_field_conditions inp r"
  by (subst (1 2) parse_field_conditions.simps) simp

lemma parse_field_conditions_show:
  "cs \<noteq> [] \<Longrightarrow> list_all condition_ok cs \<Longrightarrow>
   parse_field_conditions inp (show_conditions cs @ CHR '')'' # r) = Ok (cs, CHR '')'' # r)"
proof (induction cs rule: show_conditions.induct)
  case (2 c)
  then show ?case
    by (subst parse_field_conditions.simps) (simp add: skip_condition parse_single_show)
next
  case (3 c d cs)
  with 3 show ?case
    by (subst parse_field_conditions.simps) (simp add: skip_condition parse_single_show)
qed simp

text \<open>The look-ahead sees a path and an operator where the first path has no hyphen.\<close>

fun scan_ok :: "PathSegment \<Rightarrow> bool" where
  "scan_ok (Field name) \<longleftrightarrow> CHR ''-'' \<notin> set name"
| "scan_ok _ \<longleftrightarrow> True"

lemma path_scan_field:
  "\<forall>x \<in> set name. ident_char x \<Longrightarrow> CHR ''-'' \<notin> set name \<Longrightarrow> path_scan (name @ r) = path_scan r"
  by (induction name) (auto simp: ident_char_def)

lemma path_scan_blank [simp]: "path_scan (CHR '' '' # r) = CHR '' '' # r"
  by (simp add: is_ascii_alphanumeric_def)

lemma path_scan_dot [simp]: "path_scan (CHR ''.'' # r) = path_scan r"
  by simp

lemma path_scan_bracket:
  "CHR '']'' \<notin> set s \<Longrightarrow> path_scan (CHR ''['' # s @ CHR '']'' # r) = path_scan r"
  by (simp add: is_ascii_alphanumeric_def dropWhile_append)

lemma path_scan_segment:
  assumes "segment_ok seg" and "scan_ok seg" and "peek r \<in> Some ` {CHR ''['', CHR ''.'', CHR '' ''}"
  shows "path_scan (show_segment seg @ r) = path_scan r"
proof (cases seg)
  case (Field name)
  with assms show ?thesis by (simp add: path_scan_field list_all_iff)
next
  case (Index i)
  have "CHR '']'' \<notin> set (show_nat (unat i))"
    using set_show_nat by (fastforce simp: is_digit_def)
  with Index path_scan_bracket show ?thesis by simp
next
  case AnyIndex
  with path_scan_bracket [of "''*''" r] show ?thesis by simp
next
  case Wildcard
  obtain c cs where "r = c # cs" using assms(3) by (cases r) auto
  with Wildcard assms(3) show ?thesis by (auto simp: is_ascii_alphanumeric_def)
qed

declare path_scan.simps [simp del]

lemma path_scan_tail:
  "list_all segment_ok segs \<Longrightarrow> list_all scan_ok segs \<Longrightarrow>
   path_scan (show_tail segs @ CHR '' '' # r) = CHR '' '' # r"
proof (induction segs)
  case (Cons seg segs)
  have "peek (show_tail segs @ CHR '' '' # r) \<in> Some ` {CHR ''['', CHR ''.'', CHR '' ''}"
    by (cases "segs = []") (simp_all add: show_tail_peek)
  from path_scan_segment [OF _ _ this, of seg] Cons show ?case by simp
qed simp

lemma looks_like_shown:
  assumes "path_ok path" and "list_all scan_ok path" and "last r = CHR '')''" and "r \<noteq> []"
  shows "looks_like_field_conditions (show_path path @ CHR '' '' # show_op op @ CHR '' '' # r)"
proof -
  let ?s = "show_path path @ CHR '' '' # show_op op @ CHR '' '' # r"
  obtain seg segs where p: "path = seg # segs" "segment_ok seg" "list_all segment_ok segs"
    using assms(1) by (auto simp: path_ok_def split: list.splits)
  obtain c cs where s: "show_path path = c # cs" "\<not> is_whitespace c"
    using show_path_starts [OF assms(1)] by metis
  have "last ?s = CHR '')''" using assms(3,4) by simp
  then have "\<not> is_whitespace (last ?s)" by (simp add: is_whitespace_def)
  then have t: "trim ?s = ?s" using s by (intro trim_id) simp_all
  have "peek (show_tail segs @ CHR '' '' # q) \<in> Some ` {CHR ''['', CHR ''.'', CHR '' ''}" for q
    by (cases "segs = []") (simp_all add: show_tail_peek)
  then have scan: "path_scan ?s = CHR '' '' # show_op op @ CHR '' '' # r"
    using p assms(2) by (simp add: path_scan_segment path_scan_tail)
  show ?thesis
    unfolding looks_like_field_conditions_def t scan skip_blank skip_op by (cases op) simp_all
qed

section \<open>Primary values\<close>

fun balanced :: "nat \<Rightarrow> string \<Rightarrow> bool" where
  "balanced depth [] \<longleftrightarrow> depth = 0"
| "balanced depth (c # cs) =
     (if c = CHR ''('' then balanced (depth + 1) cs
      else if c = CHR '')'' then depth > 0 \<and> balanced (depth - 1) cs
      else balanced depth cs)"

lemma primary_body_show: "balanced depth v \<Longrightarrow> primary_body depth (v @ CHR '')'' # r) = (v, CHR '')'' # r)"
  by (induction depth v rule: balanced.induct) (auto split: if_splits)

definition primary_ok :: "string \<Rightarrow> bool" where
  "primary_ok v \<longleftrightarrow> v \<noteq> [] \<and> \<not> is_whitespace (hd v) \<and> \<not> is_whitespace (last v) \<and> balanced 0 v \<and>
     \<not> (hd v = CHR ''*'' \<and> star_alone (tl v @ '')'')) \<and> \<not> looks_like_field_conditions (v @ '')'')"

section \<open>Patterns\<close>

text \<open>The body of a regex ends before a slash outside parentheses, and its escapes are of ASCII characters.\<close>

fun regex_ok :: "nat \<Rightarrow> string \<Rightarrow> bool" where
  "regex_ok depth [] \<longleftrightarrow> depth = 0"
| "regex_ok depth (c # cs) =
     (if c = CHR 0x5C then (case cs of [] \<Rightarrow> False | e # es \<Rightarrow> is_ascii e \<and> regex_ok depth es)
      else if c = CHR ''('' then regex_ok (depth + 1) cs
      else if c = CHR '')'' then regex_ok (depth - 1) cs
      else (c \<noteq> CHR ''/'' \<or> depth \<noteq> 0) \<and> regex_ok depth cs)"

lemma regex_body_show: "regex_ok depth re \<Longrightarrow> regex_body depth (re @ CHR ''/'' # r) = Some (re, CHR ''/'' # r)"
  by (induction depth re rule: regex_ok.induct) (auto split: if_splits list.splits)

definition name_ok :: "string \<Rightarrow> bool" where
  "name_ok name \<longleftrightarrow> name \<noteq> [] \<and> hd name \<noteq> CHR ''/'' \<and> list_all (\<lambda>c. c \<noteq> CHR ''('' \<and> \<not> is_whitespace c) name"

fun tool_ok :: "Engines \<Rightarrow> ToolMatcher \<Rightarrow> bool" where
  "tool_ok E (ToolExact name) \<longleftrightarrow> name_ok name \<and> \<not> has_glob_chars name"
| "tool_ok E (ToolGlob name) \<longleftrightarrow> name_ok name \<and> has_glob_chars name"
| "tool_ok E (ToolRegex re) \<longleftrightarrow> re \<noteq> [] \<and> regex_ok 0 re \<and> \<not> isl (regex_new E re)"

fun args_ok :: "ArgMatcher \<Rightarrow> bool" where
  "args_ok ArgAny \<longleftrightarrow> True"
| "args_ok (ArgPrimary op v) \<longleftrightarrow> op = Glob \<and> primary_ok v"
| "args_ok (ArgFields cs) \<longleftrightarrow> cs \<noteq> [] \<and> list_all condition_ok cs \<and>
     list_all scan_ok (fc_path (hd cs)) \<and> fc_path (hd cs) \<noteq> [Wildcard]"

definition canonical :: "Engines \<Rightarrow> ToolCallPattern \<Rightarrow> bool" where
  "canonical E p \<longleftrightarrow> tool_ok E (tp_tool p) \<and> args_ok (tp_args p)"

lemma parse_name_show:
  assumes "name_ok name" and "r = [] \<or> hd r = CHR ''(''"
  shows "parse_tool_part E inp (name @ r) =
    Ok (if has_glob_chars name then ToolGlob name else ToolExact name, r)"
proof -
  obtain c cs where n: "name = c # cs" using assms(1) by (cases name) (auto simp: name_ok_def)
  have nc: "\<forall>x \<in> set name. name_char x"
    using assms(1) ascii_whitespace by (auto simp: name_ok_def name_char_def list_all_iff)
  have "takeWhile name_char r = []" "dropWhile name_char r = r"
    using assms(2) by (cases r; force simp: name_char_def)+
  with nc have "takeWhile name_char (name @ r) = name" "dropWhile name_char (name @ r) = r"
    by (simp_all add: takeWhile_append dropWhile_append)
  moreover have "skip_whitespace (name @ r) = name @ r" "c \<noteq> CHR ''/''"
    using nc n assms(1) by (simp_all add: skip_nothing name_char_def name_ok_def)
  ultimately show ?thesis using n by (simp add: parse_tool_part_def Let_def)
qed

lemma parse_tool_show:
  assumes "tool_ok E tool" and "r = [] \<or> hd r = CHR ''(''"
  shows "parse_tool_part E inp (show_tool tool @ r) = Ok (tool, r)"
proof (cases tool)
  case (ToolRegex re)
  with assms regex_body_show [of 0 re r] show ?thesis
    by (auto simp: parse_tool_part_def expect_char_def split: sum.splits)
qed (use assms parse_name_show in auto)

lemma show_condition_append:
  "show_condition c @ r =
     show_path (fc_path c) @ CHR '' '' # show_op (fc_op c) @ CHR '' '' # dquote # fc_value c @ dquote # r"
  by (simp add: show_condition_def)

lemma show_conditions_Cons:
  "\<exists>q. show_conditions (c # cs) @ r = show_condition c @ q @ r \<and> (cs = [] \<longrightarrow> q = [])"
  by (cases cs) auto

lemma parse_arg_show:
  assumes "args_ok args" and "args \<noteq> ArgAny"
  shows "parse_arg_part inp (show_args args @ '')'') = Ok (args, '')'')"
proof (cases args)
  case (ArgPrimary op v)
  with assms have v: "primary_ok v" and op: "op = Glob" by simp_all
  then obtain c cs where n: "v = c # cs" by (cases v) (auto simp: primary_ok_def)
  have skip: "skip_whitespace (v @ '')'') = v @ '')''"
  proof -
    have "\<not> is_ascii_whitespace c" using v n ascii_whitespace [of c] by (auto simp: primary_ok_def)
    then show ?thesis using n by (simp add: skip_nothing)
  qed
  have trim: "trim v = v" using v by (simp add: primary_ok_def trim_id)
  have body: "primary_body 0 (v @ '')'') = (v, '')'')"
    using v by (intro primary_body_show) (simp add: primary_ok_def)
  have "parse_primary_value inp (v @ '')'') = Ok (ArgPrimary Glob v, '')'')"
    unfolding parse_primary_value_def skip body using n trim by simp
  with v n skip ArgPrimary op show ?thesis
    by (auto simp: parse_arg_part_def primary_ok_def)
next
  case (ArgFields cs)
  with assms obtain d ds where cs: "cs = d # ds" "condition_ok d" "list_all scan_ok (fc_path d)"
      "fc_path d \<noteq> [Wildcard]" "list_all condition_ok cs"
    by (cases cs) auto
  obtain q where q: "show_conditions cs @ '')'' = show_condition d @ q @ '')''"
    using show_conditions_Cons [of d ds "'')''"] cs(1) by auto
  let ?s = "show_condition d @ q @ '')''"
  have p: "path_ok (fc_path d)" using cs(2) by (simp add: condition_ok_def)
  have look: "looks_like_field_conditions ?s"
    unfolding show_condition_append by (rule looks_like_shown [OF p cs(3)]) simp_all
  have "\<not> (peek ?s = Some (CHR ''*'') \<and> star_alone (tl ?s))"
  proof -
    obtain seg segs where p': "fc_path d = seg # segs" "segment_ok seg" "\<not> is_index seg"
      using p by (auto simp: path_ok_def split: list.splits)
    show ?thesis
    proof (cases seg)
      case (Field name)
      with p' obtain c cs where "name = c # cs" "ident_char c" by (cases name) auto
      with p' Field ident_char_plain show ?thesis by (simp add: show_condition_def)
    next
      case Wildcard
      with p' cs(4) have "segs \<noteq> []" by auto
      then obtain c cs where "show_tail segs = c # cs" "c = CHR ''['' \<or> c = CHR ''.''"
        using show_tail_peek [of segs "[]"] by (cases "show_tail segs") (auto split: if_splits)
      with Wildcard p' show ?thesis
        by (auto simp: show_condition_def star_alone_def is_ascii_def is_ascii_whitespace_def)
    qed (use p' in simp_all)
  qed
  moreover have "skip_whitespace ?s = ?s" using cs(2) by (rule skip_condition)
  ultimately have "parse_arg_part inp ?s = map_ok (\<lambda>(cs, r). (ArgFields cs, r)) (parse_field_conditions inp ?s)"
    using look by (auto simp: parse_arg_part_def)
  with parse_field_conditions_show [of cs inp "[]"] cs ArgFields q show ?thesis by simp
qed (use assms in simp)

lemma show_pattern_trim:
  assumes "canonical E p"
  shows "trim (show_pattern p) = show_pattern p"
proof (rule trim_id)
  have "show_tool (tp_tool p) \<noteq> [] \<and> \<not> is_whitespace (hd (show_tool (tp_tool p))) \<and>
      \<not> is_whitespace (last (show_tool (tp_tool p)))"
    using assms
    by (cases "tp_tool p") (auto simp: canonical_def name_ok_def list_all_iff is_whitespace_def)
  then show "show_pattern p \<noteq> []" "\<not> is_whitespace (hd (show_pattern p))" "\<not> is_whitespace (last (show_pattern p))"
    by (auto simp: show_pattern_def is_whitespace_def)
qed

text \<open>
  C30: A canonical pattern is read back as it was printed, so the printed form identifies it.
\<close>

theorem pattern_roundtrip:
  assumes "canonical E p"
  shows "parse_pattern E (show_pattern p) = Ok p"
proof -
  let ?args = "if tp_args p = ArgAny then [] else ''('' @ show_args (tp_args p) @ '')''"
  have tool: "parse_tool_part E inp (show_pattern p) = Ok (tp_tool p, ?args)" for inp
    unfolding show_pattern_def using assms by (intro parse_tool_show) (auto simp: canonical_def)
  have "parse_args inp ?args = Ok (tp_args p, [])" for inp
  proof (cases "tp_args p = ArgAny")
    case False
    with assms parse_arg_show [of "tp_args p" inp] show ?thesis
      by (simp add: canonical_def parse_args_def expect_char_def)
  qed (simp add: parse_args_def)
  moreover have "skip_whitespace ?args = ?args" by simp
  ultimately show ?thesis
    unfolding parse_pattern_def show_pattern_trim [OF assms] Let_def tool by simp
qed

definition sample_engines :: Engines where
  "sample_engines = \<lparr>glob_match = (=), regex_new = (\<lambda>re. Inr ((=) re)), json_text = (\<lambda>_. [])\<rparr>"

definition sample_pattern :: ToolCallPattern where
  "sample_pattern = \<lparr>tp_tool = ToolRegex ''mcp__(gh/|gl)'', tp_args = ArgFields
     [\<lparr>fc_path = [Field ''a'', Field ''b'', Index 12, AnyIndex, Wildcard], fc_op = NotRegex, fc_value = ''x, y)''\<rparr>,
      \<lparr>fc_path = [Field ''file-name''], fc_op = Exact, fc_value = []\<rparr>]\<rparr>"

theorem pattern_roundtrip_witness:
  "canonical sample_engines sample_pattern \<and>
   parse_pattern sample_engines (show_pattern sample_pattern) = Ok sample_pattern"
proof -
  have "canonical sample_engines sample_pattern" by code_simp
  with pattern_roundtrip show ?thesis by blast
qed

section \<open>What does not come back\<close>

text \<open>
  The quotes of a value are not escaped when it is printed: two different policies share one printed
  key, and the printed form of a value that ends in a backslash is not a pattern.
\<close>

definition equals_pattern :: "string \<Rightarrow> string \<Rightarrow> FieldCondition" where
  "equals_pattern name v = \<lparr>fc_path = [Field name], fc_op = Exact, fc_value = v\<rparr>"

theorem printed_value_not_escaped:
  "show_pattern (with_args (pattern_tool ''Bash'') (ArgFields [equals_pattern ''a'' (''x'' @ [dquote] @ '', b = '' @ [dquote] @ ''y'')])) =
   show_pattern (with_args (pattern_tool ''Bash'') (ArgFields [equals_pattern ''a'' ''x'', equals_pattern ''b'' ''y''])) \<and>
   (\<exists>e. parse_pattern sample_engines
      (show_pattern (with_args (pattern_tool ''Bash'') (ArgFields [equals_pattern ''a'' [CHR 0x5C]]))) = Err e)"
proof
  show "\<exists>e. parse_pattern sample_engines
      (show_pattern (with_args (pattern_tool ''Bash'') (ArgFields [equals_pattern ''a'' [CHR 0x5C]]))) = Err e"
    by (rule exI [of _ "\<lparr>pe_message = ''unterminated string literal'', pe_position = 13\<rparr>"]) code_simp
qed code_simp

text \<open>An escaped character that is not ASCII panics the parser.\<close>

theorem regex_escape_panics:
  "is_panic (parse_pattern sample_engines [CHR ''/'', CHR 0x5C, CHR 0xE9, CHR ''/''])"
  by code_simp

text \<open>A first field name with a hyphen is read as a primary value.\<close>

theorem hyphenated_field_is_primary:
  "let p = with_args (pattern_tool ''Edit'') (ArgFields [equals_pattern ''file-path'' ''x'']) in
   parse_pattern sample_engines (show_pattern p) =
     Ok (with_args (pattern_tool ''Edit'') (ArgPrimary Glob (show_condition (equals_pattern ''file-path'' ''x''))))"
  by code_simp

text \<open>A wildcard pattern with a character that is not ASCII does not match that character.\<close>

theorem wildcard_mangles_bytes:
  "normalize_wildcards [CHR 0xE9] = [CHR 0xC3, CHR 0xA9]"
  by code_simp

end
