(* ===== verification/Tool_Gate.thy ===== *)
theory Tool_Gate
  imports Tool_Pattern Tool_Call
begin

text \<open>
  The decisions about one tool call and about the tool list of one step: tool results
  (\<^verbatim>\<open>contract/tool.rs\<close>), interception payloads and policy decisions
  (\<^verbatim>\<open>contract/tool_intercept.rs\<close>), their resolution and the tool filter
  (\<^verbatim>\<open>loop_runner/actions.rs\<close>, \<^verbatim>\<open>agent/state/loop_actions.rs\<close>).
\<close>

section \<open>Tool results\<close>

record ToolResult =
  tr_tool_name :: string
  tr_status :: ToolStatus
  tr_data :: json
  tr_message :: "string option"
  tr_suspension :: "json SuspendTicket option"
  tr_metadata :: "(string, json) hash_map"

definition result_success :: "string \<Rightarrow> json \<Rightarrow> ToolResult" where
  "result_success tool_name dat =
     \<lparr>tr_tool_name = tool_name, tr_status = TS_Success, tr_data = dat, tr_message = None,
      tr_suspension = None, tr_metadata = []\<rparr>"

definition result_error :: "string \<Rightarrow> string \<Rightarrow> ToolResult" where
  "result_error tool_name message =
     \<lparr>tr_tool_name = tool_name, tr_status = TS_Error, tr_data = JNull, tr_message = Some message,
      tr_suspension = None, tr_metadata = []\<rparr>"

definition result_suspended_with :: "string \<Rightarrow> string \<Rightarrow> json SuspendTicket \<Rightarrow> ToolResult" where
  "result_suspended_with tool_name message ticket =
     \<lparr>tr_tool_name = tool_name, tr_status = TS_Pending, tr_data = JNull, tr_message = Some message,
      tr_suspension = Some ticket, tr_metadata = []\<rparr>"

definition result_with_metadata :: "ToolResult \<Rightarrow> string \<Rightarrow> json \<Rightarrow> ToolResult" where
  "result_with_metadata r key v = r\<lparr>tr_metadata := AList.update key v (tr_metadata r)\<rparr>"

record ToolDescriptor =
  td_id :: string
  td_name :: string
  td_description :: string
  td_parameters :: json
  td_category :: "string option"
  td_metadata :: "(string, json) hash_map"

section \<open>Interception\<close>

datatype ToolInterceptPayload = Block string | Suspend "json SuspendTicket" | SetResult ToolResult

datatype ToolPolicyDecision =
    Policy_Allow
  | Policy_Deny string
  | Policy_Suspend "json SuspendTicket"
  | Policy_ReplaceResult ToolResult
  | Policy_AuditOnly

fun into_intercept_payload :: "ToolPolicyDecision \<Rightarrow> ToolInterceptPayload option" where
  "into_intercept_payload Policy_Allow = None"
| "into_intercept_payload Policy_AuditOnly = None"
| "into_intercept_payload (Policy_Deny reason) = Some (Block reason)"
| "into_intercept_payload (Policy_Suspend ticket) = Some (Suspend ticket)"
| "into_intercept_payload (Policy_ReplaceResult result) = Some (SetResult result)"

datatype ToolKind = Kind_Execute | Kind_Read | Kind_Edit | Kind_Search | Kind_Other

definition to_ascii_lowercase :: "string \<Rightarrow> string" where
  "to_ascii_lowercase s =
     map (\<lambda>c. let n = (of_char c :: nat) in if 65 \<le> n \<and> n \<le> 90 then char_of (n + 32) else c) s"

definition contains_any :: "string \<Rightarrow> string list \<Rightarrow> bool" where
  "contains_any value needles = list_ex (\<lambda>needle. list_ex (prefix needle) (suffixes value)) needles"

definition infer_name :: "string \<Rightarrow> ToolKind" where
  "infer_name name =
     (let lower = to_ascii_lowercase name
      in if contains_any lower [''edit'', ''write'', ''patch'', ''apply_patch'', ''replace'', ''create'',
              ''delete'', ''remove'', ''move'', ''rename'']
         then Kind_Edit
         else if contains_any lower [''search'', ''grep'', ''find'', ''rg''] then Kind_Search
         else if contains_any lower [''read'', ''cat'', ''view'', ''open'', ''list'', ''ls'', ''glob'',
              ''fetch'', ''http'', ''curl'']
         then Kind_Read
         else if contains_any lower [''bash'', ''shell'', ''exec'', ''execute'', ''run'', ''command'', ''terminal'']
         then Kind_Execute
         else Kind_Other)"

fun intercept_priority :: "ToolInterceptPayload \<Rightarrow> u8" where
  "intercept_priority (Block _) = 3"
| "intercept_priority (Suspend _) = 2"
| "intercept_priority (SetResult _) = 1"

fun resolve_loop :: "ToolInterceptPayload option \<Rightarrow> ToolInterceptPayload list \<Rightarrow> ToolInterceptPayload option" where
  "resolve_loop winner [] = winner"
| "resolve_loop winner (payload # payloads) =
     resolve_loop
       (case winner of
          None \<Rightarrow> Some payload
        | Some existing \<Rightarrow>
            if intercept_priority payload > intercept_priority existing then Some payload else Some existing)
       payloads"

definition resolve_intercept_payloads :: "ToolInterceptPayload list \<Rightarrow> ToolInterceptPayload option" where
  "resolve_intercept_payloads payloads = resolve_loop None payloads"

text \<open>\<open>run_tool_gate\<close> collects what the hooks return, in their order; each hook is its answer.\<close>

definition run_tool_gate :: "ToolInterceptPayload option list \<Rightarrow> ToolInterceptPayload option" where
  "run_tool_gate answers = resolve_intercept_payloads (List.map_filter (\<lambda>a. a) answers)"

section \<open>The tool filter of a step\<close>

record ToolFilterStateValue =
  tf_excluded :: "string list"
  tf_include_only :: "string list list"

definition ToolFilterState_default :: ToolFilterStateValue where
  "ToolFilterState_default = \<lparr>tf_excluded = [], tf_include_only = []\<rparr>"

datatype ToolFilterStateAction = Exclude string | IncludeOnly "string list" | ClearFilter

fun ToolFilterState_apply :: "ToolFilterStateValue \<Rightarrow> ToolFilterStateAction \<Rightarrow> ToolFilterStateValue" where
  "ToolFilterState_apply v (Exclude i) = v\<lparr>tf_excluded := tf_excluded v @ [i]\<rparr>"
| "ToolFilterState_apply v (IncludeOnly ids) = v\<lparr>tf_include_only := tf_include_only v @ [ids]\<rparr>"
| "ToolFilterState_apply v ClearFilter = v\<lparr>tf_excluded := [], tf_include_only := []\<rparr>"

definition apply_tool_filter_payloads ::
  "ToolDescriptor list \<Rightarrow> string list \<Rightarrow> string list list \<Rightarrow> ToolDescriptor list" where
  "apply_tool_filter_payloads tools exclusions inclusions =
     (let tools1 = (if inclusions \<noteq> [] then filter (\<lambda>t. td_id t \<in> set (concat inclusions)) tools else tools)
      in if exclusions \<noteq> [] then filter (\<lambda>t. td_id t \<notin> set exclusions) tools1 else tools1)"

section \<open>Lemmas\<close>

lemma resolve_loop_from:
  "\<exists>q \<in> insert p (set ps). resolve_loop (Some p) ps = Some q \<and>
     (\<forall>r \<in> insert p (set ps). intercept_priority r \<le> intercept_priority q)"
proof (induction ps arbitrary: p)
  case (Cons x xs)
  show ?case
  proof (cases "intercept_priority x > intercept_priority p")
    case True
    with Cons [of x] show ?thesis by (force intro: order_trans)
  next
    case False
    with Cons [of p] show ?thesis by (force intro: order_trans)
  qed
qed simp

lemma resolve_wins:
  "ps \<noteq> [] \<Longrightarrow> \<exists>q \<in> set ps. resolve_intercept_payloads ps = Some q \<and>
     (\<forall>r \<in> set ps. intercept_priority r \<le> intercept_priority q)"
  using resolve_loop_from [of "hd ps" "tl ps"] by (cases ps) (auto simp: resolve_intercept_payloads_def)

lemma resolve_none_iff: "resolve_intercept_payloads ps = None \<longleftrightarrow> ps = []"
  using resolve_wins [of ps] by (cases "ps = []") (auto simp: resolve_intercept_payloads_def)

lemma priority_block: "intercept_priority p = 3 \<longleftrightarrow> (\<exists>reason. p = Block reason)"
  by (cases p) simp_all

lemma priority_le: "intercept_priority p \<le> 3"
  by (cases p) simp_all

lemma gate_blocks:
  assumes "Some (Block reason) \<in> set answers"
  shows "\<exists>reason'. run_tool_gate answers = Some (Block reason') \<and> Some (Block reason') \<in> set answers"
proof -
  let ?ps = "List.map_filter (\<lambda>a. a) answers"
  have b: "Block reason \<in> set ?ps" using assms by (simp add: set_map_filter)
  then have "?ps \<noteq> []" by auto
  with resolve_wins obtain q where q: "q \<in> set ?ps" "resolve_intercept_payloads ?ps = Some q"
    "\<forall>r \<in> set ?ps. intercept_priority r \<le> intercept_priority q" by blast
  from q(3) b have "3 \<le> intercept_priority q" by force
  with priority_le [of q] have "intercept_priority q = 3" by (rule order_antisym)
  then obtain reason' where "q = Block reason'" using priority_block by blast
  with q(1,2) show ?thesis by (auto simp: run_tool_gate_def set_map_filter)
qed

lemma gate_passes_iff: "run_tool_gate answers = None \<longleftrightarrow> set answers \<subseteq> {None}"
proof -
  have "List.map_filter (\<lambda>a. a) answers = [] \<longleftrightarrow> set answers \<subseteq> {None}"
    by (induction answers) (auto simp: List.map_filter_simps split: option.splits)
  then show ?thesis by (simp add: run_tool_gate_def resolve_none_iff)
qed

lemma filtered_tools:
  "t \<in> set (apply_tool_filter_payloads tools exclusions inclusions) \<longleftrightarrow>
   t \<in> set tools \<and> (inclusions = [] \<or> td_id t \<in> set (concat inclusions)) \<and> td_id t \<notin> set exclusions"
  by (auto simp: apply_tool_filter_payloads_def Let_def)

lemma exclusions_accumulate:
  "tf_excluded (foldl ToolFilterState_apply v (map Exclude ids)) = tf_excluded v @ ids \<and>
   tf_include_only (foldl ToolFilterState_apply v (map Exclude ids)) = tf_include_only v"
  by (induction ids arbitrary: v) simp_all

end
