(* ===== verification/Permission_Rules.thy ===== *)
theory Permission_Rules
  imports Pattern_Parser Tool_Gate
begin

text \<open>
  The permission extension: rules and their evaluation (\<^verbatim>\<open>rules.rs\<close>), the policy and override
  reducers (\<^verbatim>\<open>state.rs\<close>), the configuration (\<^verbatim>\<open>config.rs\<close>), and what the plugin does with them
  (\<^verbatim>\<open>plugin/\<close>): the tool gate, the filter before inference, the seeding on activation.

  A rule table is a hash map; every theorem holds for every iteration order.
\<close>

section \<open>Rules\<close>

datatype ToolPermissionBehavior = Allow | Ask | Deny

definition ToolPermissionBehavior_default :: ToolPermissionBehavior where
  "ToolPermissionBehavior_default = Ask"

datatype PermissionSubject = Subject_Tool string | Subject_Pattern ToolCallPattern

fun subject_key :: "PermissionSubject \<Rightarrow> string" where
  "subject_key (Subject_Tool tool_id) = ''tool:'' @ tool_id"
| "subject_key (Subject_Pattern pattern) = ''pattern:'' @ show_pattern pattern"

fun matches_tool :: "Engines \<Rightarrow> PermissionSubject \<Rightarrow> string \<Rightarrow> bool" where
  "matches_tool E (Subject_Tool i) tool_id = (i = tool_id)"
| "matches_tool E (Subject_Pattern pattern) tool_id = is_match (pattern_matches E pattern tool_id JNull)"

fun matches_tool_call :: "Engines \<Rightarrow> PermissionSubject \<Rightarrow> string \<Rightarrow> json \<Rightarrow> Specificity option" where
  "matches_tool_call E (Subject_Tool i) tool_id tool_args =
     (if i = tool_id
      then Some \<lparr>tool_kind = 3, has_args = False, field_count = 0, field_precision = 0\<rparr> else None)"
| "matches_tool_call E (Subject_Pattern pattern) tool_id tool_args =
     (case pattern_matches E pattern tool_id tool_args of Match specificity \<Rightarrow> Some specificity | NoMatch \<Rightarrow> None)"

datatype PermissionRuleScope = Scope_Once | Scope_Session | Scope_Thread | Scope_Project | Scope_User

datatype PermissionRuleSource =
  Source_System | Source_Definition | Source_Skill | Source_Session | Source_User | Source_Cli | Source_Runtime

record PermissionRule =
  ru_subject :: PermissionSubject
  ru_behavior :: ToolPermissionBehavior
  ru_scope :: PermissionRuleScope
  ru_source :: PermissionRuleSource

definition new_tool :: "string \<Rightarrow> ToolPermissionBehavior \<Rightarrow> PermissionRule" where
  "new_tool tool_id behavior =
     \<lparr>ru_subject = Subject_Tool tool_id, ru_behavior = behavior, ru_scope = Scope_Thread, ru_source = Source_Runtime\<rparr>"

definition new_pattern :: "ToolCallPattern \<Rightarrow> ToolPermissionBehavior \<Rightarrow> PermissionRule" where
  "new_pattern pattern behavior =
     \<lparr>ru_subject = Subject_Pattern pattern, ru_behavior = behavior, ru_scope = Scope_Thread, ru_source = Source_Runtime\<rparr>"

definition with_scope :: "PermissionRule \<Rightarrow> PermissionRuleScope \<Rightarrow> PermissionRule" where
  "with_scope rule scope = rule\<lparr>ru_scope := scope\<rparr>"

definition with_source :: "PermissionRule \<Rightarrow> PermissionRuleSource \<Rightarrow> PermissionRule" where
  "with_source rule source = rule\<lparr>ru_source := source\<rparr>"

section \<open>Evaluation\<close>

type_synonym rule_table = "(string, PermissionRule) hash_map"

record PermissionRuleset =
  rs_default_behavior :: ToolPermissionBehavior
  rs_rules :: rule_table

definition PermissionRuleset_default :: PermissionRuleset where
  "PermissionRuleset_default = \<lparr>rs_default_behavior = ToolPermissionBehavior_default, rs_rules = []\<rparr>"

definition rule_for_tool :: "Engines \<Rightarrow> PermissionRuleset \<Rightarrow> string \<Rightarrow> PermissionRule option" where
  "rule_for_tool E rs tool_id = find (\<lambda>rule. matches_tool E (ru_subject rule) tool_id) (hm_values (rs_rules rs))"

fun behavior_priority :: "ToolPermissionBehavior \<Rightarrow> u8" where
  "behavior_priority Deny = 2"
| "behavior_priority Allow = 1"
| "behavior_priority Ask = 0"

text \<open>\<open>Iterator::max_by\<close>: the last of the greatest elements.\<close>

fun max_from :: "('a \<Rightarrow> 'k::linorder) \<Rightarrow> 'a \<Rightarrow> 'a list \<Rightarrow> 'a" where
  "max_from key a [] = a"
| "max_from key a (x # xs) = max_from key (if key a \<le> key x then x else a) xs"

definition max_by :: "('a \<Rightarrow> 'k::linorder) \<Rightarrow> 'a list \<Rightarrow> 'a option" where
  "max_by key xs = (case xs of [] \<Rightarrow> None | x # xs \<Rightarrow> Some (max_from key x xs))"

definition matching_rules ::
  "Engines \<Rightarrow> rule_table \<Rightarrow> string \<Rightarrow> json \<Rightarrow> (PermissionRule \<times> Specificity) list" where
  "matching_rules E rules tool_id tool_args =
     List.map_filter (\<lambda>rule. map_option (Pair rule) (matches_tool_call E (ru_subject rule) tool_id tool_args))
       (hm_values rules)"

definition rule_for_tool_call ::
  "Engines \<Rightarrow> PermissionRuleset \<Rightarrow> string \<Rightarrow> json \<Rightarrow> PermissionRule option" where
  "rule_for_tool_call E rs tool_id tool_args =
     map_option fst
       (max_by (\<lambda>(rule, specificity). (behavior_priority (ru_behavior rule), specificity))
         (matching_rules E (rs_rules rs) tool_id tool_args))"

record PermissionEvaluation =
  ev_subject :: PermissionSubject
  ev_behavior :: ToolPermissionBehavior
  ev_matched_rule :: "PermissionRule option"

definition evaluate_tool_permission ::
  "Engines \<Rightarrow> PermissionRuleset \<Rightarrow> string \<Rightarrow> json \<Rightarrow> PermissionEvaluation" where
  "evaluate_tool_permission E rs tool_id tool_args =
     (let matched = rule_for_tool_call E rs tool_id tool_args
      in \<lparr>ev_subject = Subject_Tool tool_id,
          ev_behavior = (case matched of Some rule \<Rightarrow> ru_behavior rule | None \<Rightarrow> rs_default_behavior rs),
          ev_matched_rule = matched\<rparr>)"

text \<open>The name an unconditional deny rule gives away without a registry.\<close>

fun denied_name :: "PermissionSubject \<Rightarrow> string option" where
  "denied_name (Subject_Tool tool_id) = Some tool_id"
| "denied_name (Subject_Pattern pattern) =
     (case (tp_tool pattern, tp_args pattern) of
        (ToolExact name, ArgAny) \<Rightarrow> Some name
      | _ \<Rightarrow> None)"

definition unconditionally_denied_tools :: "PermissionRuleset \<Rightarrow> string list" where
  "unconditionally_denied_tools rs =
     List.map_filter (\<lambda>rule. denied_name (ru_subject rule))
       (filter (\<lambda>rule. ru_behavior rule = Deny) (hm_values (rs_rules rs)))"

text \<open>What the loop over the rules adds for one rule.\<close>

fun expanded_names :: "Engines \<Rightarrow> PermissionSubject \<Rightarrow> string list \<Rightarrow> string list" where
  "expanded_names E (Subject_Tool _) tool_ids = []"
| "expanded_names E (Subject_Pattern pattern) tool_ids =
     (if tp_args pattern \<noteq> ArgAny then []
      else (case tp_tool pattern of
          ToolExact _ \<Rightarrow> []
        | _ \<Rightarrow> filter (matches_tool E (Subject_Pattern pattern)) tool_ids))"

definition unconditionally_denied_against :: "Engines \<Rightarrow> PermissionRuleset \<Rightarrow> string list \<Rightarrow> string set" where
  "unconditionally_denied_against E rs tool_ids =
     (let denied = set (unconditionally_denied_tools rs)
      in if tool_ids = [] then denied
         else denied \<union> set (concat (map (\<lambda>rule.
           if ru_behavior rule \<noteq> Deny then [] else expanded_names E (ru_subject rule) tool_ids)
           (hm_values (rs_rules rs)))))"

section \<open>Policy state\<close>

datatype PermissionAction =
    SetDefault ToolPermissionBehavior
  | SetTool string ToolPermissionBehavior
  | SetRule string ToolPermissionBehavior
  | RemoveTool string
  | RemoveRule string
  | ClearTools
  | AllowTool string
  | DenyTool string

record PermissionPolicy =
  po_default_behavior :: ToolPermissionBehavior
  po_rules :: rule_table

definition PermissionPolicy_default :: PermissionPolicy where
  "PermissionPolicy_default = \<lparr>po_default_behavior = ToolPermissionBehavior_default, po_rules = []\<rparr>"

definition insert_rule :: "PermissionRule \<Rightarrow> rule_table \<Rightarrow> rule_table" where
  "insert_rule rule rules = AList.update (subject_key (ru_subject rule)) rule rules"

definition upsert_tool_rule ::
  "rule_table \<Rightarrow> string \<Rightarrow> ToolPermissionBehavior \<Rightarrow> PermissionRuleSource \<Rightarrow> rule_table" where
  "upsert_tool_rule rules tool_id behavior source =
     insert_rule (with_source (with_scope (new_tool tool_id behavior) Scope_Thread) source) rules"

text \<open>A reducer cannot fail, but the parser it calls can panic.\<close>

definition upsert_pattern_rule ::
  "Engines \<Rightarrow> rule_table \<Rightarrow> string \<Rightarrow> ToolPermissionBehavior \<Rightarrow> PermissionRuleSource \<Rightarrow> (rule_table, unit) outcome" where
  "upsert_pattern_rule E rules s behavior source =
     (case parse_pattern E s of
        Ok pattern \<Rightarrow> Ok (insert_rule (with_source (with_scope (new_pattern pattern behavior) Scope_Thread) source) rules)
      | Err _ \<Rightarrow> Ok rules
      | Panic m \<Rightarrow> Panic m)"

fun reduce_permission_action ::
  "Engines \<Rightarrow> rule_table \<Rightarrow> PermissionAction \<Rightarrow> PermissionRuleSource \<Rightarrow> (rule_table, unit) outcome" where
  "reduce_permission_action E rules (SetTool tool_id behavior) source =
     Ok (upsert_tool_rule rules tool_id behavior source)"
| "reduce_permission_action E rules (SetRule s behavior) source = upsert_pattern_rule E rules s behavior source"
| "reduce_permission_action E rules (AllowTool tool_id) source = Ok (upsert_tool_rule rules tool_id Allow source)"
| "reduce_permission_action E rules (DenyTool tool_id) source = Ok (upsert_tool_rule rules tool_id Deny source)"
| "reduce_permission_action E rules (RemoveTool tool_id) source =
     Ok (AList.delete (subject_key (ru_subject (new_tool tool_id Ask))) rules)"
| "reduce_permission_action E rules (RemoveRule s) source =
     (case parse_pattern E s of
        Ok pattern \<Rightarrow> Ok (AList.delete (subject_key (Subject_Pattern pattern)) rules)
      | Err _ \<Rightarrow> Ok rules
      | Panic m \<Rightarrow> Panic m)"
| "reduce_permission_action E rules ClearTools source = Ok []"
| "reduce_permission_action E rules (SetDefault _) source = Ok rules"

definition PermissionPolicy_reduce ::
  "Engines \<Rightarrow> PermissionPolicy \<Rightarrow> PermissionAction \<Rightarrow> (PermissionPolicy, unit) outcome" where
  "PermissionPolicy_reduce E p action =
     (case action of
        SetDefault behavior \<Rightarrow> Ok (p\<lparr>po_default_behavior := behavior\<rparr>)
      | _ \<Rightarrow> map_ok (\<lambda>rules. p\<lparr>po_rules := rules\<rparr>)
               (reduce_permission_action E (po_rules p) action Source_Runtime))"

record PermissionOverrides =
  ov_rules :: rule_table

definition PermissionOverrides_reduce ::
  "Engines \<Rightarrow> PermissionOverrides \<Rightarrow> PermissionAction \<Rightarrow> (PermissionOverrides, unit) outcome" where
  "PermissionOverrides_reduce E ov action =
     map_ok (\<lambda>rules. ov\<lparr>ov_rules := rules\<rparr>) (reduce_permission_action E (ov_rules ov) action Source_Skill)"

text \<open>\<open>HashMap::extend\<close>.\<close>

definition hm_extend :: "('k, 'v) hash_map \<Rightarrow> ('k, 'v) hash_map \<Rightarrow> ('k, 'v) hash_map" where
  "hm_extend m m' = foldl (\<lambda>m (k, v). AList.update k v m) m m'"

definition permission_rules_from_state ::
  "PermissionPolicy option \<Rightarrow> PermissionOverrides option \<Rightarrow> PermissionRuleset" where
  "permission_rules_from_state policy overrides =
     (let rs1 = (case policy of
          Some p \<Rightarrow> \<lparr>rs_default_behavior = po_default_behavior p,
                       rs_rules = hm_extend (rs_rules PermissionRuleset_default) (po_rules p)\<rparr>
        | None \<Rightarrow> PermissionRuleset_default)
      in (case overrides of
          Some ov \<Rightarrow> rs1\<lparr>rs_rules := hm_extend (rs_rules rs1) (ov_rules ov)\<rparr>
        | None \<Rightarrow> rs1))"

section \<open>Configuration\<close>

record PermissionRuleEntry =
  en_tool :: string
  en_behavior :: ToolPermissionBehavior
  en_scope :: PermissionRuleScope

record PermissionRulesConfig =
  co_default_behavior :: ToolPermissionBehavior
  co_rules :: "PermissionRuleEntry list"

text \<open>No branch returns an error; the parser can panic.\<close>

definition rule_from_entry :: "Engines \<Rightarrow> PermissionRuleEntry \<Rightarrow> (PermissionRule, unit) outcome" where
  "rule_from_entry E entry =
     (let rule = (\<lambda>subject. \<lparr>ru_subject = subject, ru_behavior = en_behavior entry,
            ru_scope = en_scope entry, ru_source = Source_Definition\<rparr>)
      in case parse_pattern E (en_tool entry) of
           Ok pattern \<Rightarrow> Ok (rule (Subject_Pattern pattern))
         | Panic m \<Rightarrow> Panic m
         | Err _ \<Rightarrow>
             if has_glob_chars (en_tool entry) then Ok (rule (Subject_Pattern (tool_glob (en_tool entry))))
             else Ok (rule (Subject_Tool (en_tool entry))))"

fun insert_entries :: "Engines \<Rightarrow> PermissionRuleEntry list \<Rightarrow> rule_table \<Rightarrow> (rule_table, unit) outcome" where
  "insert_entries E [] rules = Ok rules"
| "insert_entries E (entry # entries) rules =
     and_then (rule_from_entry E entry) (\<lambda>rule. insert_entries E entries (insert_rule rule rules))"

definition into_ruleset :: "Engines \<Rightarrow> PermissionRulesConfig \<Rightarrow> (PermissionRuleset, unit) outcome" where
  "into_ruleset E config =
     map_ok (\<lambda>rules. \<lparr>rs_default_behavior = co_default_behavior config, rs_rules = rules\<rparr>)
       (insert_entries E (co_rules config) [])"

section \<open>The plugin\<close>

text \<open>The updates \<open>on_activate\<close> puts into the patch.\<close>

definition on_activate :: "PermissionRulesConfig \<Rightarrow> PermissionAction list" where
  "on_activate config =
     (if co_default_behavior config \<noteq> ToolPermissionBehavior_default
      then [SetDefault (co_default_behavior config)] else []) @
     map (\<lambda>entry. SetRule (en_tool entry) (en_behavior entry)) (co_rules config)"

fun apply_policy_actions ::
  "Engines \<Rightarrow> PermissionPolicy \<Rightarrow> PermissionAction list \<Rightarrow> (PermissionPolicy, unit) outcome" where
  "apply_policy_actions E p [] = Ok p"
| "apply_policy_actions E p (a # as) =
     and_then (PermissionPolicy_reduce E p a) (\<lambda>p'. apply_policy_actions E p' as)"

text \<open>The part of the phase context the hooks read.\<close>

record GateContext =
  cx_tool_name :: "string option"
  cx_tool_args :: "json option"
  cx_tool_call_id :: "string option"
  cx_resume_input :: "json ToolCallResume option"
  cx_policy :: "PermissionPolicy option"
  cx_overrides :: "PermissionOverrides option"

definition permission_ticket :: "string \<Rightarrow> string \<Rightarrow> json \<Rightarrow> json SuspendTicket" where
  "permission_ticket call_id tool_name tool_args =
     SuspendTicket_new
       \<lparr>su_id = ''perm_'' @ call_id, su_action = ''tool:PermissionConfirm'',
        su_message = ''Permission required for tool '' @ in_quotes tool_name,
        su_parameters = tool_args, su_response_schema = None\<rparr>
       \<lparr>pc_id = ''perm_'' @ call_id, pc_name = ''permission_confirm'', pc_arguments = tool_args\<rparr>
       ReplayToolCall"

definition gate_run :: "Engines \<Rightarrow> GateContext \<Rightarrow> ToolInterceptPayload option" where
  "gate_run E ctx =
     (case cx_tool_name ctx of
        None \<Rightarrow> None
      | Some tool_name \<Rightarrow>
          (let tool_args = (case cx_tool_args ctx of Some v \<Rightarrow> v | None \<Rightarrow> JNull);
               is_resume = (case cx_resume_input ctx of Some r \<Rightarrow> re_action r = Resume | None \<Rightarrow> False);
               ruleset = permission_rules_from_state (cx_policy ctx) (cx_overrides ctx)
           in case ev_behavior (evaluate_tool_permission E ruleset tool_name tool_args) of
                Allow \<Rightarrow> None
              | Deny \<Rightarrow> Some (Block (''Tool '' @ in_quotes tool_name @ '' denied by permission rules''))
              | Ask \<Rightarrow>
                  if is_resume then None
                  else Some (Suspend (permission_ticket
                    (case cx_tool_call_id ctx of Some i \<Rightarrow> i | None \<Rightarrow> []) tool_name tool_args))))"

text \<open>The filter before inference: the ids it schedules for exclusion, in order.\<close>

definition filter_run ::
  "Engines \<Rightarrow> PermissionPolicy option \<Rightarrow> PermissionOverrides option \<Rightarrow> string list option \<Rightarrow> string list" where
  "filter_run E policy overrides registry =
     (let ruleset = permission_rules_from_state policy overrides;
          tool_ids = (case registry of Some ids \<Rightarrow> ids | None \<Rightarrow> [])
      in sorted_list_of_set (unconditionally_denied_against E ruleset tool_ids))"

end
