(* ===== verification/Permission_Safety.thy ===== *)
theory Permission_Safety
  imports Permission_Rules Pattern_Roundtrip
begin

text \<open>
  What the permission rules guarantee: how the tiers decide, that a tool denied for all arguments is
  neither offered nor run, that an approval cannot lift a denial, that the rule tables stay keyed by
  their subjects, and that the ruleset a configuration describes is the one activation installs.
\<close>

section \<open>Choosing a rule\<close>

lemma max_from_greatest:
  "max_from key a xs \<in> insert a (set xs) \<and> (\<forall>x \<in> insert a (set xs). key x \<le> key (max_from key a xs))"
proof (induction xs arbitrary: a)
  case (Cons x xs)
  show ?case
  proof (cases "key a \<le> key x")
    case True
    with Cons [of x] show ?thesis by (force intro: order_trans)
  next
    case False
    then have "key x \<le> key a" by simp
    with Cons [of a] False show ?thesis by (force intro: order_trans)
  qed
qed simp

lemma max_by_Some: "max_by key xs = Some x \<Longrightarrow> x \<in> set xs \<and> (\<forall>y \<in> set xs. key y \<le> key x)"
  using max_from_greatest [of key "hd xs" "tl xs"] by (cases xs) (auto simp: max_by_def)

lemma max_by_None: "max_by key xs = None \<longleftrightarrow> xs = []"
  by (simp add: max_by_def split: list.splits)

lemma mem_matching:
  "(rule, s) \<in> set (matching_rules E rules t a) \<longleftrightarrow>
   rule \<in> set (hm_values rules) \<and> matches_tool_call E (ru_subject rule) t a = Some s"
  by (auto simp: matching_rules_def set_map_filter)

definition rule_matches :: "Engines \<Rightarrow> PermissionRule \<Rightarrow> string \<Rightarrow> json \<Rightarrow> bool" where
  "rule_matches E rule tool_id tool_args \<longleftrightarrow> matches_tool_call E (ru_subject rule) tool_id tool_args \<noteq> None"

definition some_rule :: "Engines \<Rightarrow> PermissionRuleset \<Rightarrow> ToolPermissionBehavior \<Rightarrow> string \<Rightarrow> json \<Rightarrow> bool" where
  "some_rule E rs behavior tool_id tool_args \<longleftrightarrow>
     list_ex (\<lambda>rule. ru_behavior rule = behavior \<and> rule_matches E rule tool_id tool_args) (hm_values (rs_rules rs))"

lemma some_rule_iff:
  "some_rule E rs b t a \<longleftrightarrow> (\<exists>rule s. (rule, s) \<in> set (matching_rules E (rs_rules rs) t a) \<and> ru_behavior rule = b)"
  unfolding some_rule_def list_ex_iff rule_matches_def mem_matching by blast

lemma no_match_iff:
  "matching_rules E (rs_rules rs) t a = [] \<longleftrightarrow>
   \<not> some_rule E rs Deny t a \<and> \<not> some_rule E rs Allow t a \<and> \<not> some_rule E rs Ask t a"
proof
  assume none: "\<not> some_rule E rs Deny t a \<and> \<not> some_rule E rs Allow t a \<and> \<not> some_rule E rs Ask t a"
  show "matching_rules E (rs_rules rs) t a = []"
  proof (rule ccontr)
    assume "matching_rules E (rs_rules rs) t a \<noteq> []"
    then obtain rule s where "(rule, s) \<in> set (matching_rules E (rs_rules rs) t a)"
      by (metis list.set_sel(1) prod.collapse)
    then have "some_rule E rs (ru_behavior rule) t a" unfolding some_rule_iff by blast
    with none show False by (cases "ru_behavior rule") simp_all
  qed
qed (simp add: some_rule_iff)

lemma priority_le_iff [simp]:
  "behavior_priority b \<le> behavior_priority c \<longleftrightarrow> b = Ask \<or> c = Deny \<or> b = c"
  by (cases b; cases c) (simp_all add: word_le_nat_alt)

lemma priority_less_iff [simp]:
  "behavior_priority b < behavior_priority c \<longleftrightarrow> b \<noteq> c \<and> (b = Ask \<or> c = Deny)"
  by (cases b; cases c) (simp_all add: word_less_nat_alt)

declare behavior_priority.simps [simp del]

lemma chosen_rule:
  assumes "rule_for_tool_call E rs t a = Some rule"
  obtains s where "(rule, s) \<in> set (matching_rules E (rs_rules rs) t a)"
    and "\<forall>(r, s') \<in> set (matching_rules E (rs_rules rs) t a).
      behavior_priority (ru_behavior r) < behavior_priority (ru_behavior rule) \<or>
      ru_behavior r = ru_behavior rule \<and> s' \<le> s"
proof -
  obtain s where m: "max_by (\<lambda>(r, s). (behavior_priority (ru_behavior r), s)) (matching_rules E (rs_rules rs) t a) = Some (rule, s)"
    using assms by (auto simp: rule_for_tool_call_def)
  show ?thesis
  proof (rule that [of s])
    show "(rule, s) \<in> set (matching_rules E (rs_rules rs) t a)" using max_by_Some [OF m] by blast
    show "\<forall>(r, s') \<in> set (matching_rules E (rs_rules rs) t a).
      behavior_priority (ru_behavior r) < behavior_priority (ru_behavior rule) \<or>
      ru_behavior r = ru_behavior rule \<and> s' \<le> s"
    proof (rule ballI, rule prod.case_eq_if [THEN iffD2], goal_cases)
      case (1 x)
      obtain r s' where x: "x = (r, s')" by (cases x)
      have "(behavior_priority (ru_behavior r), s') \<le> (behavior_priority (ru_behavior rule), s)"
        using max_by_Some [OF m] 1 x by fastforce
      then show ?case using x by (auto simp: less_eq_prod_def)
    qed
  qed
qed

lemma evaluate_behavior:
  "ev_behavior (evaluate_tool_permission E rs t a) =
   (if some_rule E rs Deny t a then Deny
    else if some_rule E rs Allow t a then Allow
    else if some_rule E rs Ask t a then Ask
    else rs_default_behavior rs)"
proof (cases "rule_for_tool_call E rs t a")
  case None
  then have "matching_rules E (rs_rules rs) t a = []" by (simp add: rule_for_tool_call_def max_by_None)
  with None show ?thesis by (simp add: evaluate_tool_permission_def no_match_iff)
next
  case (Some rule)
  then obtain s where s: "(rule, s) \<in> set (matching_rules E (rs_rules rs) t a)"
    and best: "\<forall>(r, s') \<in> set (matching_rules E (rs_rules rs) t a).
      behavior_priority (ru_behavior r) < behavior_priority (ru_behavior rule) \<or>
      ru_behavior r = ru_behavior rule \<and> s' \<le> s"
    by (rule chosen_rule)
  have le: "behavior_priority b \<le> behavior_priority (ru_behavior rule)" if "some_rule E rs b t a" for b
    using that best by (fastforce simp: some_rule_iff)
  have this_one: "some_rule E rs (ru_behavior rule) t a" using s by (auto simp: some_rule_iff)
  have "ev_behavior (evaluate_tool_permission E rs t a) = ru_behavior rule"
    by (simp add: evaluate_tool_permission_def Some Let_def)
  with this_one le [of Deny] le [of Allow] show ?thesis
    by (cases "ru_behavior rule") auto
qed

text \<open>
  The tiers decide whatever the iteration order of the rule table: any matching deny rule denies,
  otherwise any matching allow rule allows, otherwise a matching ask rule asks, and the default is
  for the calls no rule matches.
\<close>

theorem tiers_decide:
  "ev_behavior (evaluate_tool_permission E rs tool_id tool_args) =
   (if some_rule E rs Deny tool_id tool_args then Deny
    else if some_rule E rs Allow tool_id tool_args then Allow
    else if some_rule E rs Ask tool_id tool_args then Ask
    else rs_default_behavior rs)"
  by (rule evaluate_behavior)

text \<open>
  The rule an evaluation reports matches the call, and no rule of the same behavior that matches is
  more specific.
\<close>

theorem reported_rule_most_specific:
  assumes "ev_matched_rule (evaluate_tool_permission E rs tool_id tool_args) = Some rule"
  shows "\<exists>s. matches_tool_call E (ru_subject rule) tool_id tool_args = Some s \<and>
    list_all (\<lambda>r. case matches_tool_call E (ru_subject r) tool_id tool_args of
        Some s' \<Rightarrow> ru_behavior r \<noteq> ru_behavior rule \<or> s' \<le> s
      | None \<Rightarrow> True) (hm_values (rs_rules rs))"
proof -
  have "rule_for_tool_call E rs tool_id tool_args = Some rule"
    using assms by (simp add: evaluate_tool_permission_def Let_def)
  then obtain s where s: "(rule, s) \<in> set (matching_rules E (rs_rules rs) tool_id tool_args)"
    and best: "\<forall>(r, s') \<in> set (matching_rules E (rs_rules rs) tool_id tool_args).
      behavior_priority (ru_behavior r) < behavior_priority (ru_behavior rule) \<or>
      ru_behavior r = ru_behavior rule \<and> s' \<le> s"
    by (rule chosen_rule)
  have "list_all (\<lambda>r. case matches_tool_call E (ru_subject r) tool_id tool_args of
        Some s' \<Rightarrow> ru_behavior r \<noteq> ru_behavior rule \<or> s' \<le> s
      | None \<Rightarrow> True) (hm_values (rs_rules rs))"
    unfolding list_all_iff
  proof
    fix r assume "r \<in> set (hm_values (rs_rules rs))"
    with best show "case matches_tool_call E (ru_subject r) tool_id tool_args of
        Some s' \<Rightarrow> ru_behavior r \<noteq> ru_behavior rule \<or> s' \<le> s | None \<Rightarrow> True"
      by (cases "matches_tool_call E (ru_subject r) tool_id tool_args") (force simp: mem_matching)+
  qed
  with s show ?thesis by (auto simp: mem_matching)
qed

definition sample_ruleset :: PermissionRuleset where
  "sample_ruleset = \<lparr>rs_default_behavior = Ask, rs_rules =
     [(''a'', new_pattern (tool_with_primary ''Bash'' ''ls'') Allow), (''b'', new_tool ''Bash'' Allow)]\<rparr>"

theorem reported_rule_most_specific_witness:
  "ev_matched_rule (evaluate_tool_permission sample_engines sample_ruleset ''Bash'' (JString ''ls'')) =
     Some (new_pattern (tool_with_primary ''Bash'' ''ls'') Allow) \<and>
   (\<exists>s. matches_tool_call sample_engines (Subject_Pattern (tool_with_primary ''Bash'' ''ls'')) ''Bash'' (JString ''ls'') = Some s)"
proof
  show 1: "ev_matched_rule (evaluate_tool_permission sample_engines sample_ruleset ''Bash'' (JString ''ls'')) =
     Some (new_pattern (tool_with_primary ''Bash'' ''ls'') Allow)" by code_simp
  from reported_rule_most_specific [OF 1]
  show "\<exists>s. matches_tool_call sample_engines (Subject_Pattern (tool_with_primary ''Bash'' ''ls'')) ''Bash'' (JString ''ls'') = Some s"
    by (auto simp: new_pattern_def)
qed

section \<open>Tools denied for all arguments\<close>

fun unconditional :: "PermissionSubject \<Rightarrow> bool" where
  "unconditional (Subject_Tool _) = True"
| "unconditional (Subject_Pattern pattern) = (tp_args pattern = ArgAny)"

lemma unconditional_matches:
  "unconditional subject \<Longrightarrow> matches_tool_call E subject t a \<noteq> None \<longleftrightarrow> matches_tool E subject t"
  by (cases subject) (auto simp: pattern_matches_def split: option.splits)

definition always_denied :: "Engines \<Rightarrow> PermissionRuleset \<Rightarrow> string \<Rightarrow> bool" where
  "always_denied E rs tool_id \<longleftrightarrow>
     list_ex (\<lambda>rule. ru_behavior rule = Deny \<and> unconditional (ru_subject rule) \<and> matches_tool E (ru_subject rule) tool_id)
       (hm_values (rs_rules rs))"

lemma denied_name_matches:
  "denied_name subject = Some t \<longleftrightarrow>
   unconditional subject \<and> matches_tool E subject t \<and>
   (case subject of Subject_Tool _ \<Rightarrow> True | Subject_Pattern p \<Rightarrow> (\<exists>name. tp_tool p = ToolExact name))"
  by (cases subject)
    (auto simp: pattern_matches_def split: ToolMatcher.splits ArgMatcher.splits option.splits)

lemma expanded_matches:
  "t \<in> set (expanded_names E subject ids) \<longleftrightarrow>
   unconditional subject \<and> matches_tool E subject t \<and> t \<in> set ids \<and>
   (case subject of Subject_Tool _ \<Rightarrow> False | Subject_Pattern p \<Rightarrow> (\<nexists>name. tp_tool p = ToolExact name))"
  by (cases subject) (auto split: ToolMatcher.splits)

lemma denied_against_iff:
  "t \<in> unconditionally_denied_against E rs ids \<longleftrightarrow>
   (\<exists>rule \<in> set (hm_values (rs_rules rs)). ru_behavior rule = Deny \<and>
      (denied_name (ru_subject rule) = Some t \<or> t \<in> set (expanded_names E (ru_subject rule) ids)))"
proof -
  have empty: "set (expanded_names E subject []) = {}" for subject
    by (cases subject) (auto split: ToolMatcher.splits)
  have names: "t \<in> set (unconditionally_denied_tools rs) \<longleftrightarrow>
      (\<exists>rule \<in> set (hm_values (rs_rules rs)). ru_behavior rule = Deny \<and> denied_name (ru_subject rule) = Some t)"
    unfolding unconditionally_denied_tools_def set_map_filter by auto
  show ?thesis
  proof (cases "ids = []")
    case True
    with names empty show ?thesis by (simp add: unconditionally_denied_against_def)
  next
    case False
    have "t \<in> unconditionally_denied_against E rs ids \<longleftrightarrow>
        t \<in> set (unconditionally_denied_tools rs) \<or>
        (\<exists>rule \<in> set (hm_values (rs_rules rs)). ru_behavior rule = Deny \<and> t \<in> set (expanded_names E (ru_subject rule) ids))"
      using False unfolding unconditionally_denied_against_def Let_def by (auto split: if_splits)
    with names show ?thesis by blast
  qed
qed

lemma denied_against_sound: "t \<in> unconditionally_denied_against E rs ids \<Longrightarrow> always_denied E rs t"
  unfolding denied_against_iff always_denied_def list_ex_iff denied_name_matches [of _ _ E] expanded_matches
  by blast

lemma denied_against_complete:
  assumes "t \<in> set ids" and "always_denied E rs t"
  shows "t \<in> unconditionally_denied_against E rs ids"
proof -
  obtain rule where rule: "rule \<in> set (hm_values (rs_rules rs))" "ru_behavior rule = Deny"
      "unconditional (ru_subject rule)" "matches_tool E (ru_subject rule) t"
    using assms(2) by (auto simp: always_denied_def list_ex_iff)
  have "denied_name (ru_subject rule) = Some t \<or> t \<in> set (expanded_names E (ru_subject rule) ids)"
    using rule(3,4) assms(1) unfolding denied_name_matches [of _ _ E] expanded_matches
    by (cases "ru_subject rule") auto
  with rule(1,2) show ?thesis unfolding denied_against_iff by blast
qed

lemma finite_denied: "finite (unconditionally_denied_against E rs ids)"
  by (simp add: unconditionally_denied_against_def Let_def)

lemma always_denied_some: "always_denied E rs t \<Longrightarrow> some_rule E rs Deny t a"
  unfolding always_denied_def some_rule_def list_ex_iff rule_matches_def
  using unconditional_matches by blast

text \<open>
  The set the filter and the preview share is exact on registered tools: a tool is in it if and only
  if some deny rule without argument conditions matches it.
\<close>

theorem denied_against_exact:
  "set ids \<inter> unconditionally_denied_against E rs ids = set (filter (always_denied E rs) ids)"
  using denied_against_sound denied_against_complete by fastforce

section \<open>The gate and the filter\<close>

definition ruleset_of :: "GateContext \<Rightarrow> PermissionRuleset" where
  "ruleset_of ctx = permission_rules_from_state (cx_policy ctx) (cx_overrides ctx)"

definition approved :: "GateContext \<Rightarrow> bool" where
  "approved ctx \<longleftrightarrow> (case cx_resume_input ctx of Some r \<Rightarrow> re_action r = Resume | None \<Rightarrow> False)"

definition gate_args :: "GateContext \<Rightarrow> json" where
  "gate_args ctx = (case cx_tool_args ctx of Some v \<Rightarrow> v | None \<Rightarrow> JNull)"

lemma gate_run_unfold:
  assumes "cx_tool_name ctx = Some name"
  shows "gate_run E ctx =
     (case ev_behavior (evaluate_tool_permission E (ruleset_of ctx) name (gate_args ctx)) of
        Allow \<Rightarrow> None
      | Deny \<Rightarrow> Some (Block (''Tool '' @ in_quotes name @ '' denied by permission rules''))
      | Ask \<Rightarrow> if approved ctx then None
          else Some (Suspend (permission_ticket
            (case cx_tool_call_id ctx of Some i \<Rightarrow> i | None \<Rightarrow> []) name (gate_args ctx))))"
  unfolding gate_run_def ruleset_of_def approved_def gate_args_def Let_def assms by simp

text \<open>
  C31: The gate follows the tiers: it blocks exactly the denied calls, approved or not; it lets a call
  pass exactly when the rules allow it or an asked call has been approved; any other asked call is
  suspended with a ticket that replays the call with its arguments.
\<close>

theorem gate_decision:
  assumes "cx_tool_name ctx = Some name"
  shows "let rs = ruleset_of ctx; args = gate_args ctx;
      behavior = (if some_rule E rs Deny name args then Deny else if some_rule E rs Allow name args then Allow
        else if some_rule E rs Ask name args then Ask else rs_default_behavior rs)
    in ((\<exists>reason. gate_run E ctx = Some (Block reason)) \<longleftrightarrow> behavior = Deny) \<and>
       (gate_run E ctx = None \<longleftrightarrow> behavior = Allow \<or> behavior = Ask \<and> approved ctx) \<and>
       ((\<exists>ticket. gate_run E ctx = Some (Suspend ticket) \<and> ti_resume_mode ticket = ReplayToolCall \<and>
          pc_arguments (ti_pending ticket) = args) \<longleftrightarrow> behavior = Ask \<and> \<not> approved ctx)"
  unfolding Let_def evaluate_behavior [symmetric] gate_run_unfold [OF assms]
  by (cases "ev_behavior (evaluate_tool_permission E (ruleset_of ctx) name (gate_args ctx))")
    (simp_all add: permission_ticket_def SuspendTicket_new_def)

definition sample_context :: GateContext where
  "sample_context = \<lparr>cx_tool_name = Some ''rm'', cx_tool_args = None, cx_tool_call_id = Some ''c1'',
     cx_resume_input = Some \<lparr>re_decision_id = ''d'', re_action = Resume, re_result = JNull,
       re_reason = None, re_updated_at = 0\<rparr>,
     cx_policy = Some \<lparr>po_default_behavior = Ask, po_rules = [(''tool:rm'', new_tool ''rm'' Deny)]\<rparr>,
     cx_overrides = None\<rparr>"

theorem gate_decision_witness:
  "approved sample_context \<and> (\<exists>reason. gate_run sample_engines sample_context = Some (Block reason))"
proof
  show "approved sample_context" by code_simp
  have "cx_tool_name sample_context = Some ''rm''" by code_simp
  note d = gate_decision [OF this, of sample_engines, unfolded Let_def]
  have "some_rule sample_engines (ruleset_of sample_context) Deny ''rm'' (gate_args sample_context)"
    by code_simp
  with d show "\<exists>reason. gate_run sample_engines sample_context = Some (Block reason)" by simp
qed

text \<open>
  C3: A registered tool with a deny rule for all arguments is out of reach: the filter excludes it from
  every tool list of the step, whatever else is excluded or included, and the gate blocks every call
  of it, whatever the arguments, an approval or the answers of other hooks.
\<close>

theorem denied_tool_out_of_reach:
  assumes "always_denied E (permission_rules_from_state policy overrides) t" and "t \<in> set ids"
  shows "t \<notin> td_id ` set (apply_tool_filter_payloads tools
      (tf_excluded (foldl ToolFilterState_apply v (map Exclude (filter_run E policy overrides (Some ids))))) inclusions) \<and>
    (\<exists>reason. run_tool_gate (before @ gate_run E \<lparr>cx_tool_name = Some t, cx_tool_args = args,
        cx_tool_call_id = call_id, cx_resume_input = resume, cx_policy = policy, cx_overrides = overrides\<rparr> # after)
      = Some (Block reason))"
proof (rule conjI)
  have "t \<in> set (filter_run E policy overrides (Some ids))"
    using denied_against_complete [OF assms(2,1)] finite_denied by (simp add: filter_run_def)
  then show "t \<notin> td_id ` set (apply_tool_filter_payloads tools
      (tf_excluded (foldl ToolFilterState_apply v (map Exclude (filter_run E policy overrides (Some ids))))) inclusions)"
    by (auto simp: filtered_tools exclusions_accumulate)
  let ?ctx = "\<lparr>cx_tool_name = Some t, cx_tool_args = args,
        cx_tool_call_id = call_id, cx_resume_input = resume, cx_policy = policy, cx_overrides = overrides\<rparr>"
  have "gate_run E ?ctx = Some (Block (''Tool '' @ in_quotes t @ '' denied by permission rules''))"
    using always_denied_some [OF assms(1), of "gate_args ?ctx"]
    by (simp add: gate_run_unfold ruleset_of_def evaluate_behavior)
  then have "Some (Block (''Tool '' @ in_quotes t @ '' denied by permission rules'')) \<in> set (before @ gate_run E ?ctx # after)"
    by simp
  from gate_blocks [OF this] show "\<exists>reason. run_tool_gate (before @ gate_run E ?ctx # after) = Some (Block reason)"
    by blast
qed

definition sample_policy :: PermissionPolicy where
  "sample_policy = \<lparr>po_default_behavior = Allow,
     po_rules = [(''pattern:mcp__*'', new_pattern (tool_glob ''db'') Deny), (''tool:db'', new_tool ''db'' Allow)]\<rparr>"

definition sample_tool :: "string \<Rightarrow> ToolDescriptor" where
  "sample_tool i = \<lparr>td_id = i, td_name = i, td_description = [], td_parameters = JNull, td_category = None, td_metadata = []\<rparr>"

theorem denied_tool_out_of_reach_witness:
  "''db'' \<notin> td_id ` set (apply_tool_filter_payloads [sample_tool ''db'', sample_tool ''ls'']
     (tf_excluded (foldl ToolFilterState_apply ToolFilterState_default
       (map Exclude (filter_run sample_engines (Some sample_policy) None (Some [''ls'', ''db'']))))) [[''db'', ''ls'']])"
proof -
  have "always_denied sample_engines (permission_rules_from_state (Some sample_policy) None) ''db''"
    "''db'' \<in> set [''ls'', ''db'']" by code_simp+
  from denied_tool_out_of_reach [OF this] show ?thesis by blast
qed

section \<open>Rule tables\<close>

definition rules_ok :: "rule_table \<Rightarrow> bool" where
  "rules_ok rules \<longleftrightarrow> hm_keys_distinct rules \<and> list_all (\<lambda>(key, rule). key = subject_key (ru_subject rule)) rules"

lemma rules_ok_update: "rules_ok rules \<Longrightarrow> rules_ok (insert_rule rule rules)"
  unfolding rules_ok_def insert_rule_def
  by (auto simp: list_all_hm_iff distinct_update split: if_splits)

lemma rules_ok_delete: "rules_ok rules \<Longrightarrow> rules_ok (AList.delete k rules)"
  unfolding rules_ok_def by (auto simp: list_all_hm_iff distinct_delete map_of_delete_if split: if_splits)

lemma rules_ok_Nil: "rules_ok []"
  by (simp add: rules_ok_def)

lemma rules_ok_reduce:
  "rules_ok rules \<Longrightarrow> reduce_permission_action E rules action source = Ok rules' \<Longrightarrow> rules_ok rules'"
  by (cases action)
    (auto simp: upsert_tool_rule_def upsert_pattern_rule_def rules_ok_update rules_ok_delete rules_ok_Nil
      split: outcome.splits)

lemma policy_reduce_rules:
  assumes "PermissionPolicy_reduce E p action = Ok p'"
  shows "reduce_permission_action E (po_rules p) action Source_Runtime = Ok (po_rules p')"
proof (cases "\<exists>b. action = SetDefault b")
  case False
  then have "PermissionPolicy_reduce E p action =
      map_ok (\<lambda>rules. p\<lparr>po_rules := rules\<rparr>) (reduce_permission_action E (po_rules p) action Source_Runtime)"
    by (cases action) (simp_all add: PermissionPolicy_reduce_def del: reduce_permission_action.simps)
  with assms show ?thesis by (auto simp: map_ok_eq_Ok_iff)
qed (use assms in \<open>auto simp: PermissionPolicy_reduce_def\<close>)

lemma rules_ok_policy:
  "rules_ok (po_rules p) \<Longrightarrow> PermissionPolicy_reduce E p action = Ok p' \<Longrightarrow> rules_ok (po_rules p')"
  by (erule rules_ok_reduce) (rule policy_reduce_rules)

text \<open>
  The table of a policy stays keyed by the subjects of its rules under any sequence of updates, so a
  subject has one rule.
\<close>

theorem policy_keyed_by_subject:
  assumes "apply_policy_actions E p actions = Ok p'" and "rules_ok (po_rules p)"
  shows "rules_ok (po_rules p')"
  using assms
proof (induction actions arbitrary: p)
  case (Cons a actions)
  then show ?case by (auto simp: and_then_eq_Ok_iff dest: rules_ok_policy)
qed simp

theorem policy_keyed_by_subject_witness:
  "\<exists>p'. apply_policy_actions sample_engines PermissionPolicy_default
      [SetTool ''Bash'' Allow, SetRule ''Bash(ls)'' Deny, DenyTool ''Bash'', SetRule ''Bash(ls)'' Ask, RemoveTool ''x''] = Ok p' \<and>
    rules_ok (po_rules p') \<and> length (po_rules p') = 2"
proof -
  let ?actions = "[SetTool ''Bash'' Allow, SetRule ''Bash(ls)'' Deny, DenyTool ''Bash'', SetRule ''Bash(ls)'' Ask, RemoveTool ''x'']"
  let ?p' = "\<lparr>po_default_behavior = Ask, po_rules =
      [(''tool:Bash'', new_tool ''Bash'' Deny), (''pattern:Bash(ls)'', new_pattern (tool_with_primary ''Bash'' ''ls'') Ask)]\<rparr>"
  have 1: "apply_policy_actions sample_engines PermissionPolicy_default ?actions = Ok ?p'" by code_simp
  moreover have "rules_ok (po_rules PermissionPolicy_default)" by code_simp
  ultimately have "rules_ok (po_rules ?p')" by (rule policy_keyed_by_subject)
  with 1 show ?thesis by (intro exI [of _ ?p']) simp
qed

section \<open>Activation installs the configured rules\<close>

text \<open>What of a table decides: the subject and the behavior of every rule.\<close>

definition declared :: "rule_table \<Rightarrow> (string \<times> PermissionSubject \<times> ToolPermissionBehavior) list" where
  "declared rules = map (\<lambda>(k, rule). (k, ru_subject rule, ru_behavior rule)) rules"

lemma declared_update:
  "declared (AList.update k rule rules) = AList.update k (ru_subject rule, ru_behavior rule) (declared rules)"
  by (induction rules) (auto simp: declared_def)

lemma declared_insert:
  "ru_subject rule = ru_subject rule' \<Longrightarrow> ru_behavior rule = ru_behavior rule' \<Longrightarrow>
   declared rules = declared rules' \<Longrightarrow> declared (insert_rule rule rules) = declared (insert_rule rule' rules')"
  by (simp add: insert_rule_def declared_update)

lemma declared_values:
  assumes "declared rules = declared rules'"
  shows "list_ex (\<lambda>rule. P (ru_subject rule) (ru_behavior rule)) (hm_values rules) =
    list_ex (\<lambda>rule. P (ru_subject rule) (ru_behavior rule)) (hm_values rules')"
proof -
  have "list_ex (\<lambda>rule. P (ru_subject rule) (ru_behavior rule)) (hm_values m) =
      list_ex (\<lambda>(k, s, b). P s b) (declared m)" for m
    by (induction m) (auto simp: declared_def)
  then show ?thesis by (simp add: assms)
qed

lemma declared_evaluate:
  assumes "declared (rs_rules rs) = declared (rs_rules rs')" and "rs_default_behavior rs = rs_default_behavior rs'"
  shows "ev_behavior (evaluate_tool_permission E rs t a) = ev_behavior (evaluate_tool_permission E rs' t a)"
proof -
  have "some_rule E rs b t a = some_rule E rs' b t a" for b
    unfolding some_rule_def rule_matches_def
    by (rule declared_values [of _ _ "\<lambda>s b'. b' = b \<and> matches_tool_call E s t a \<noteq> None"]) (rule assms(1))
  with assms(2) show ?thesis by (simp add: evaluate_behavior)
qed

lemma declared_denied:
  assumes "declared (rs_rules rs) = declared (rs_rules rs')"
  shows "unconditionally_denied_against E rs ids = unconditionally_denied_against E rs' ids"
proof -
  have "t \<in> unconditionally_denied_against E rs ids \<longleftrightarrow> t \<in> unconditionally_denied_against E rs' ids" for t
    unfolding denied_against_iff list_ex_iff [symmetric]
    by (rule declared_values [of _ _ "\<lambda>s b. b = Deny \<and> (denied_name s = Some t \<or> t \<in> set (expanded_names E s ids))"])
      (rule assms)
  then show ?thesis by blast
qed

definition entry_parses :: "Engines \<Rightarrow> PermissionRuleEntry \<Rightarrow> bool" where
  "entry_parses E entry \<longleftrightarrow> is_ok (parse_pattern E (en_tool entry))"

lemma seed_entries:
  assumes "list_all (entry_parses E) entries" and "declared (po_rules p) = declared rules"
  shows "\<exists>p' rules'. apply_policy_actions E p (map (\<lambda>entry. SetRule (en_tool entry) (en_behavior entry)) entries) = Ok p' \<and>
    insert_entries E entries rules = Ok rules' \<and> declared (po_rules p') = declared rules' \<and>
    po_default_behavior p' = po_default_behavior p"
  using assms
proof (induction entries arbitrary: p rules)
  case (Cons entry entries)
  then obtain pattern where pat: "parse_pattern E (en_tool entry) = Ok pattern"
    by (cases "parse_pattern E (en_tool entry)") (auto simp: entry_parses_def)
  let ?r = "with_source (with_scope (new_pattern pattern (en_behavior entry)) Scope_Thread) Source_Runtime"
  let ?r' = "\<lparr>ru_subject = Subject_Pattern pattern, ru_behavior = en_behavior entry,
            ru_scope = en_scope entry, ru_source = Source_Definition\<rparr>"
  have "declared (insert_rule ?r (po_rules p)) = declared (insert_rule ?r' rules)"
    using Cons.prems(2) by (intro declared_insert) (simp_all add: with_source_def with_scope_def new_pattern_def)
  with Cons.IH [of "p\<lparr>po_rules := insert_rule ?r (po_rules p)\<rparr>" "insert_rule ?r' rules"] Cons.prems(1)
  show ?case by (simp add: PermissionPolicy_reduce_def upsert_pattern_rule_def rule_from_entry_def pat Let_def)
qed simp

lemma hm_extend_append:
  "hm_keys_distinct (m @ m') \<Longrightarrow> hm_extend m m' = m @ m'"
proof (induction m' arbitrary: m)
  case (Cons x m')
  obtain k v where x: "x = (k, v)" by (cases x)
  have "k \<notin> fst ` set m" using Cons.prems x by auto
  then have "AList.update k v m = m @ [(k, v)]" by (rule update_fresh)
  with Cons x show ?case by (simp add: hm_extend_def)
qed (simp add: hm_extend_def)

lemma rules_ok_apply:
  "apply_policy_actions E p actions = Ok p' \<Longrightarrow> rules_ok (po_rules p) \<Longrightarrow> rules_ok (po_rules p')"
  by (induction actions arbitrary: p) (auto simp: and_then_eq_Ok_iff dest: rules_ok_policy)

lemma rules_from_policy:
  "rules_ok (po_rules p) \<Longrightarrow>
   permission_rules_from_state (Some p) None =
     \<lparr>rs_default_behavior = po_default_behavior p, rs_rules = po_rules p\<rparr>"
  using hm_extend_append [of "[]" "po_rules p"]
  by (simp add: permission_rules_from_state_def PermissionRuleset_default_def rules_ok_def)

lemma activated_ruleset:
  assumes "list_all (entry_parses E) (co_rules config)"
  shows "\<exists>p rs. apply_policy_actions E PermissionPolicy_default (on_activate config) = Ok p \<and>
    into_ruleset E config = Ok rs \<and>
    (\<forall>tool_id tool_args. ev_behavior (evaluate_tool_permission E (permission_rules_from_state (Some p) None) tool_id tool_args) =
       ev_behavior (evaluate_tool_permission E rs tool_id tool_args)) \<and>
    (\<forall>ids. unconditionally_denied_against E (permission_rules_from_state (Some p) None) ids =
       unconditionally_denied_against E rs ids)"
proof -
  let ?p0 = "PermissionPolicy_default\<lparr>po_default_behavior := co_default_behavior config\<rparr>"
  let ?rules = "map (\<lambda>entry. SetRule (en_tool entry) (en_behavior entry)) (co_rules config)"
  have "declared (po_rules ?p0) = declared []" by (simp add: PermissionPolicy_default_def)
  from seed_entries [OF assms this] obtain p rules where
    p: "apply_policy_actions E ?p0 ?rules = Ok p" and r: "insert_entries E (co_rules config) [] = Ok rules"
    and d: "declared (po_rules p) = declared rules" and def: "po_default_behavior p = co_default_behavior config"
    by auto
  have act: "apply_policy_actions E PermissionPolicy_default (on_activate config) = apply_policy_actions E ?p0 ?rules"
    by (simp add: on_activate_def PermissionPolicy_reduce_def PermissionPolicy_default_def)
  let ?rs = "\<lparr>rs_default_behavior = co_default_behavior config, rs_rules = rules\<rparr>"
  have "rules_ok (po_rules p)"
    using p by (rule rules_ok_apply) (simp add: PermissionPolicy_default_def rules_ok_Nil)
  then have st: "permission_rules_from_state (Some p) None =
      \<lparr>rs_default_behavior = po_default_behavior p, rs_rules = po_rules p\<rparr>" by (rule rules_from_policy)
  have "ev_behavior (evaluate_tool_permission E (permission_rules_from_state (Some p) None) t a) =
      ev_behavior (evaluate_tool_permission E ?rs t a)" for t a
    unfolding st by (rule declared_evaluate) (simp_all add: d def)
  moreover have "unconditionally_denied_against E (permission_rules_from_state (Some p) None) ids =
      unconditionally_denied_against E ?rs ids" for ids
    unfolding st by (rule declared_denied) (simp add: d)
  moreover have "into_ruleset E config = Ok ?rs" by (simp add: into_ruleset_def r)
  ultimately show ?thesis using act p by auto
qed

text \<open>
  C37: Where every entry of a configuration parses, activating the plugin on a fresh policy installs the
  ruleset the preview compiles: the same decision for every call and the same tools stripped for
  every registry.
\<close>

theorem activation_installs_config:
  assumes "list_all (entry_parses E) (co_rules config)"
  shows "\<exists>p rs. apply_policy_actions E PermissionPolicy_default (on_activate config) = Ok p \<and>
    into_ruleset E config = Ok rs \<and>
    (\<forall>tool_id tool_args. ev_behavior (evaluate_tool_permission E (permission_rules_from_state (Some p) None) tool_id tool_args) =
       ev_behavior (evaluate_tool_permission E rs tool_id tool_args)) \<and>
    (\<forall>ids. unconditionally_denied_against E (permission_rules_from_state (Some p) None) ids =
       unconditionally_denied_against E rs ids)"
  by (rule activated_ruleset) (rule assms)

definition sample_config :: PermissionRulesConfig where
  "sample_config = \<lparr>co_default_behavior = Deny, co_rules =
     [\<lparr>en_tool = ''Bash(ls)'', en_behavior = Allow, en_scope = Scope_Project\<rparr>,
      \<lparr>en_tool = ''mcp__*'', en_behavior = Deny, en_scope = Scope_Project\<rparr>]\<rparr>"

theorem activation_installs_config_witness:
  "\<exists>p. apply_policy_actions sample_engines PermissionPolicy_default (on_activate sample_config) = Ok p"
proof -
  have "list_all (entry_parses sample_engines) (co_rules sample_config)" by code_simp
  from activation_installs_config [OF this] show ?thesis by blast
qed

section \<open>Where the rules do less than they say\<close>

text \<open>
  An entry that does not parse is compiled by \<open>into_ruleset\<close> as a plain name and dropped by the
  reducer: a denial the preview shows is not installed.
\<close>

definition spaced_config :: PermissionRulesConfig where
  "spaced_config = \<lparr>co_default_behavior = Allow, co_rules =
     [\<lparr>en_tool = ''drop db'', en_behavior = Deny, en_scope = Scope_Project\<rparr>]\<rparr>"

theorem unparsable_denial_dropped:
  "(case into_ruleset sample_engines spaced_config of
      Ok rs \<Rightarrow> ev_behavior (evaluate_tool_permission sample_engines rs ''drop db'' JNull) = Deny
    | _ \<Rightarrow> False) \<and>
   (case apply_policy_actions sample_engines PermissionPolicy_default (on_activate spaced_config) of
      Ok p \<Rightarrow> po_rules p = [] \<and>
        ev_behavior (evaluate_tool_permission sample_engines (permission_rules_from_state (Some p) None) ''drop db'' JNull) = Allow
    | _ \<Rightarrow> False)"
  by code_simp

text \<open>
  An override replaces only the rule with its own key: a run-scoped grant of a tool does not lift the
  denial of a pattern that names the same tool.
\<close>

theorem override_does_not_win:
  "(case PermissionOverrides_reduce sample_engines \<lparr>ov_rules = []\<rparr> (AllowTool ''Bash'') of
      Ok ov \<Rightarrow>
        ev_behavior (evaluate_tool_permission sample_engines
          (permission_rules_from_state
            (Some \<lparr>po_default_behavior = Ask, po_rules = [(''pattern:Bash'', new_pattern (pattern_tool ''Bash'') Deny)]\<rparr>)
            (Some ov)) ''Bash'' JNull) = Deny
    | _ \<Rightarrow> False)"
  by code_simp

text \<open>The updates of a key declared commutative do not commute.\<close>

theorem policy_updates_do_not_commute:
  "apply_policy_actions sample_engines PermissionPolicy_default [AllowTool ''Bash'', DenyTool ''Bash''] \<noteq>
   apply_policy_actions sample_engines PermissionPolicy_default [DenyTool ''Bash'', AllowTool ''Bash'']"
  by code_simp

end
