(* ===== verification/Tool_Catalog.thy ===== *)
theory Tool_Catalog
  imports Tool_Pattern
begin

text \<open>
  The tool catalog of an agent: the allow and exclude lists
  (\<^verbatim>\<open>registry_spec/catalog_match.rs\<close>), their validation (\<^verbatim>\<open>registry_spec/catalog_validation.rs\<close>) and
  the diagnostics of the resolve pipeline (\<^verbatim>\<open>registry/resolve/pipeline/catalog.rs\<close>, \<^verbatim>\<open>filter.rs\<close>).
\<close>

section \<open>The four catalog fields\<close>

text \<open>The part of an agent spec that decides about tools, and its permission section.\<close>

record AgentSpec =
  as_allowed_tools :: "string list option"
  as_allowed_tool_patterns :: "string list option"
  as_excluded_tools :: "string list option"
  as_excluded_tool_patterns :: "string list option"
  as_plugin_ids :: "string list"
  as_active_hook_filter :: "string list"
  as_sections :: "(string, json) hash_map"

definition is_some_and :: "'a option \<Rightarrow> ('a \<Rightarrow> bool) \<Rightarrow> bool" where
  "is_some_and opt P \<longleftrightarrow> (case opt of Some x \<Rightarrow> P x | None \<Rightarrow> False)"

definition in_allow_set :: "AgentSpec \<Rightarrow> string \<Rightarrow> bool" where
  "in_allow_set spec i \<longleftrightarrow>
     is_some_and (as_allowed_tools spec) (list_ex (\<lambda>t. t = i)) \<or>
     is_some_and (as_allowed_tool_patterns spec) (list_ex (\<lambda>p. tool_id_match p i))"

definition in_exclude_set :: "AgentSpec \<Rightarrow> string \<Rightarrow> bool" where
  "in_exclude_set spec i \<longleftrightarrow>
     is_some_and (as_excluded_tools spec) (list_ex (\<lambda>t. t = i)) \<or>
     is_some_and (as_excluded_tool_patterns spec) (list_ex (\<lambda>p. tool_id_match p i))"

definition tool_allowed :: "AgentSpec \<Rightarrow> string \<Rightarrow> bool" where
  "tool_allowed spec tool_id \<longleftrightarrow> in_allow_set spec tool_id \<and> \<not> in_exclude_set spec tool_id"

definition filter_tools :: "(string, 'tool) hash_map \<Rightarrow> AgentSpec \<Rightarrow> (string, 'tool) hash_map" where
  "filter_tools tools spec = hm_retain (\<lambda>i _. tool_allowed spec i) tools"

section \<open>Validation\<close>

datatype IssueSeverity = Severity_Warning | Severity_Error

record ValidationIssue =
  vi_severity :: IssueSeverity
  vi_field :: string
  vi_entry :: string
  vi_message :: string

fun contains_unescaped_star :: "string \<Rightarrow> bool" where
  "contains_unescaped_star [] = False"
| "contains_unescaped_star (c # cs) =
     (if c = CHR 0x5C \<and> cs \<noteq> [] then contains_unescaped_star (tl cs)
      else c = CHR ''*'' \<or> contains_unescaped_star cs)"

fun show_pattern_error :: "ToolIdPatternError \<Rightarrow> string" where
  "show_pattern_error PatternEmpty = ''pattern is empty''"
| "show_pattern_error DanglingEscape =
     ''pattern ends with a dangling escape ('' @ [CHR 0x60, CHR 0x5C, CHR 0x60] @ '')''"

definition star_issue :: "string \<Rightarrow> string \<Rightarrow> ValidationIssue" where
  "star_issue field_name e =
     \<lparr>vi_severity = Severity_Warning, vi_field = field_name, vi_entry = e,
      vi_message = field_name @ ''['' @ e @ ''] contains '' @ in_quotes ''*'' @
        '' but literal fields never parse patterns; this entry will only match the literal tool id '' @
        in_quotes e @ ''. Move it to '' @ field_name @ ''_patterns if you intended a glob.''\<rparr>"

definition pattern_issue :: "string \<Rightarrow> string \<Rightarrow> ToolIdPatternError \<Rightarrow> ValidationIssue" where
  "pattern_issue field_name e err =
     \<lparr>vi_severity = Severity_Error, vi_field = field_name, vi_entry = e,
      vi_message = field_name @ ''['' @ e @ ''] is not a valid pattern: '' @ show_pattern_error err\<rparr>"

definition entries :: "string list option \<Rightarrow> string list" where
  "entries l = (case l of Some es \<Rightarrow> es | None \<Rightarrow> [])"

definition literal_issues :: "string \<times> string list option \<Rightarrow> ValidationIssue list" where
  "literal_issues = (\<lambda>(field_name, l). map (star_issue field_name)
     (filter (\<lambda>e. contains_unescaped_star (byte_chars e)) (entries l)))"

definition pattern_issues :: "string \<times> string list option \<Rightarrow> ValidationIssue list" where
  "pattern_issues = (\<lambda>(field_name, l). List.map_filter
     (\<lambda>e. case validate_tool_id_pattern e of Err err \<Rightarrow> Some (pattern_issue field_name e err) | _ \<Rightarrow> None)
     (entries l))"

definition validate_catalog :: "AgentSpec \<Rightarrow> ValidationIssue list" where
  "validate_catalog spec =
     concat (map literal_issues
       [(''allowed_tools'', as_allowed_tools spec), (''excluded_tools'', as_excluded_tools spec)]) @
     concat (map pattern_issues
       [(''allowed_tool_patterns'', as_allowed_tool_patterns spec),
        (''excluded_tool_patterns'', as_excluded_tool_patterns spec)])"

section \<open>Diagnostics of the resolve pipeline\<close>

definition unmatched_patterns :: "AgentSpec \<Rightarrow> string list \<Rightarrow> (string \<times> string) list" where
  "unmatched_patterns spec registered =
     concat (map (\<lambda>(field_name, l). map (Pair field_name)
         (filter (\<lambda>p. \<not> list_ex (\<lambda>i. tool_id_match p i) registered) (entries l)))
       [(''allowed_tool_patterns'', as_allowed_tool_patterns spec),
        (''excluded_tool_patterns'', as_excluded_tool_patterns spec)])"

definition looks_like_argument_pattern :: "string \<Rightarrow> bool" where
  "looks_like_argument_pattern entry =
     (case dropWhile (\<lambda>c. c \<noteq> CHR ''('') entry of
        [] \<Rightarrow> False
      | _ # inner \<Rightarrow> inner \<noteq> [] \<and> last inner = CHR '')'' \<and> butlast inner \<noteq> [])"

definition argument_pattern_misuse :: "AgentSpec \<Rightarrow> (string \<times> string) list" where
  "argument_pattern_misuse spec =
     concat (map (\<lambda>(field_name, l). map (Pair field_name) (filter looks_like_argument_pattern (entries l)))
       [(''allowed_tools'', as_allowed_tools spec),
        (''allowed_tool_patterns'', as_allowed_tool_patterns spec),
        (''excluded_tools'', as_excluded_tools spec),
        (''excluded_tool_patterns'', as_excluded_tool_patterns spec)])"

text \<open>\<open>has_glob_chars\<close> of the parser asks for the same three characters.\<close>

definition is_literal_tool_id :: "string \<Rightarrow> bool" where
  "is_literal_tool_id i =
     (if CHR ''*'' \<in> set i \<or> CHR ''?'' \<in> set i \<or> CHR ''['' \<in> set i then False
      else \<not> (prefix ''/'' i \<and> suffix ''/'' i \<and> 2 \<le> str_len i))"

fun json_str :: "json \<Rightarrow> string option" where
  "json_str (JString s) = Some s"
| "json_str _ = None"

definition permission_rules_without_catalog_match :: "AgentSpec \<Rightarrow> string list \<Rightarrow> string list" where
  "permission_rules_without_catalog_match spec surviving =
     (case Option.bind (Option.bind (map_of (as_sections spec) ''permission'') (\<lambda>p. json_get p ''rules'')) json_array of
        None \<Rightarrow> []
      | Some rules \<Rightarrow>
          remdups_adj (sort (List.map_filter (\<lambda>rule.
            case Option.bind (json_get rule ''tool'') json_str of
              None \<Rightarrow> None
            | Some tool_field \<Rightarrow>
                (let bare = trim (takeWhile (\<lambda>c. c \<noteq> CHR ''('') tool_field)
                 in if bare = [] \<or> \<not> is_literal_tool_id bare then None
                    else if bare \<notin> set surviving then Some bare else None)) rules)))"

section \<open>Theorems\<close>

text \<open>What an entry of a pattern list stands for.\<close>

definition names_tool :: "string \<Rightarrow> string \<Rightarrow> bool" where
  "names_tool pattern tool_id \<longleftrightarrow> denotes (tokens (byte_chars pattern)) (byte_chars tool_id)"

lemma is_some_and_entries: "is_some_and l (list_ex P) = list_ex P (entries l)"
  by (simp add: is_some_and_def entries_def split: option.splits)

text \<open>
  The catalog admits exactly the ids that are listed or denoted by an allow pattern and are neither
  listed nor denoted on the exclude side, and filtering a tool map keeps exactly these entries.
\<close>

theorem catalog_deny_wins:
  "set (filter_tools tools spec) =
   set tools \<inter> {(i, tool).
     (i \<in> set (entries (as_allowed_tools spec)) \<or> list_ex (\<lambda>p. names_tool p i) (entries (as_allowed_tool_patterns spec))) \<and>
     \<not> (i \<in> set (entries (as_excluded_tools spec)) \<or> list_ex (\<lambda>p. names_tool p i) (entries (as_excluded_tool_patterns spec)))}"
proof -
  have mem: "list_ex (\<lambda>t. t = i) xs \<longleftrightarrow> i \<in> set xs" for i and xs :: "string list"
    by (auto simp: list_ex_iff)
  show ?thesis
    unfolding filter_tools_def hm_retain_def tool_allowed_def in_allow_set_def in_exclude_set_def
      is_some_and_entries names_tool_def match_denotes mem
    by auto
qed

text \<open>
  A pattern the diagnostics call unmatched can be deleted from the spec: the catalog decides every
  registered id as before.
\<close>

definition without_pattern :: "AgentSpec \<Rightarrow> string \<Rightarrow> AgentSpec" where
  "without_pattern spec p = spec
     \<lparr>as_allowed_tool_patterns := map_option (filter (\<lambda>q. q \<noteq> p)) (as_allowed_tool_patterns spec),
      as_excluded_tool_patterns := map_option (filter (\<lambda>q. q \<noteq> p)) (as_excluded_tool_patterns spec)\<rparr>"

lemma unmatched_iff:
  "(\<exists>f. (f, p) \<in> set (unmatched_patterns spec registered)) \<longleftrightarrow>
   (p \<in> set (entries (as_allowed_tool_patterns spec)) \<or> p \<in> set (entries (as_excluded_tool_patterns spec))) \<and>
   (\<forall>i \<in> set registered. \<not> tool_id_match p i)"
  by (auto simp: unmatched_patterns_def list_ex_iff)

lemma entries_filtered: "entries (map_option (filter P) l) = filter P (entries l)"
  by (cases l) (simp_all add: entries_def)

theorem unmatched_pattern_removable:
  assumes "(field_name, p) \<in> set (unmatched_patterns spec registered)" and "i \<in> set registered"
  shows "tool_allowed (without_pattern spec p) i = tool_allowed spec i"
proof -
  have "\<not> tool_id_match p i" using assms unmatched_iff by blast
  then have "list_ex (\<lambda>q. tool_id_match q i) (filter (\<lambda>q. q \<noteq> p) ps) = list_ex (\<lambda>q. tool_id_match q i) ps" for ps
    by (auto simp: list_ex_iff)
  then show ?thesis
    by (simp add: tool_allowed_def in_allow_set_def in_exclude_set_def is_some_and_entries without_pattern_def entries_filtered)
qed

definition sample_spec :: AgentSpec where
  "sample_spec = \<lparr>as_allowed_tools = Some [''Bash''], as_allowed_tool_patterns = Some [''mcp:*'', ''old-*''],
     as_excluded_tools = None, as_excluded_tool_patterns = Some [''*:rm''], as_plugin_ids = [''permission''],
     as_active_hook_filter = [], as_sections = []\<rparr>"

theorem unmatched_pattern_removable_witness:
  "tool_allowed (without_pattern sample_spec ''old-*'') ''mcp:ls'' = tool_allowed sample_spec ''mcp:ls'' \<and>
   tool_allowed sample_spec ''mcp:ls'' \<and> \<not> tool_allowed sample_spec ''mcp:rm''"
proof -
  have "(''allowed_tool_patterns'', ''old-*'') \<in> set (unmatched_patterns sample_spec [''Bash'', ''mcp:ls'', ''mcp:rm''])"
    and "''mcp:ls'' \<in> set [''Bash'', ''mcp:ls'', ''mcp:rm'']" by code_simp+
  from unmatched_pattern_removable [OF this]
  have "tool_allowed (without_pattern sample_spec ''old-*'') ''mcp:ls'' = tool_allowed sample_spec ''mcp:ls''" .
  moreover have "tool_allowed sample_spec ''mcp:ls'' \<and> \<not> tool_allowed sample_spec ''mcp:rm''"
    unfolding tool_allowed_def in_allow_set_def in_exclude_set_def match_denotes by code_simp
  ultimately show ?thesis by blast
qed

lemma unescaped_star_token: "contains_unescaped_star s \<longleftrightarrow> Star \<in> set (tokens s)"
  by (induction s rule: tokens.induct) auto

lemma mem_literal_issues:
  "(s, f, e) \<in> (\<lambda>i. (vi_severity i, vi_field i, vi_entry i)) ` set (literal_issues (f', l)) \<longleftrightarrow>
   s = Severity_Warning \<and> f = f' \<and> e \<in> set (entries l) \<and> Star \<in> set (tokens (byte_chars e))"
  by (auto simp: literal_issues_def star_issue_def unescaped_star_token image_iff)

lemma pattern_issue_fields [simp]:
  "vi_severity (pattern_issue f e err) = Severity_Error" "vi_field (pattern_issue f e err) = f"
  "vi_entry (pattern_issue f e err) = e"
  by (simp_all add: pattern_issue_def)

lemma pattern_invalid_iff:
  "(\<exists>err. validate_tool_id_pattern e = Err err) \<longleftrightarrow> e = [] \<or> \<not> escapes_complete (byte_chars e)"
  by (simp add: validate_tool_id_pattern_def)

lemma mem_pattern_issues:
  "(s, f, e) \<in> (\<lambda>i. (vi_severity i, vi_field i, vi_entry i)) ` set (pattern_issues (f', l)) \<longleftrightarrow>
   s = Severity_Error \<and> f = f' \<and> e \<in> set (entries l) \<and> (e = [] \<or> \<not> escapes_complete (byte_chars e))"
proof -
  have "set (pattern_issues (f', l)) =
      {i. \<exists>e \<in> set (entries l). \<exists>err. validate_tool_id_pattern e = Err err \<and> i = pattern_issue f' e err}"
  proof -
    have "(case validate_tool_id_pattern e of Err err \<Rightarrow> Some (pattern_issue f' e err) | _ \<Rightarrow> None) = Some i \<longleftrightarrow>
        (\<exists>err. validate_tool_id_pattern e = Err err \<and> i = pattern_issue f' e err)" for e i
      by (cases "validate_tool_id_pattern e") auto
    then show ?thesis unfolding pattern_issues_def prod.case set_map_filter by simp
  qed
  also have "(s, f, e) \<in> (\<lambda>i. (vi_severity i, vi_field i, vi_entry i)) ` \<dots> \<longleftrightarrow>
      s = Severity_Error \<and> f = f' \<and> e \<in> set (entries l) \<and> (\<exists>err. validate_tool_id_pattern e = Err err)"
    by (fastforce simp: image_iff)
  finally show ?thesis unfolding pattern_invalid_iff .
qed

lemma mem_catalog_issues:
  "(s, f, e) \<in> (\<lambda>i. (vi_severity i, vi_field i, vi_entry i)) `
     set (concat (map literal_issues [(f1, l1), (f2, l2)]) @ concat (map pattern_issues [(f3, l3), (f4, l4)])) \<longleftrightarrow>
   s = Severity_Warning \<and> Star \<in> set (tokens (byte_chars e)) \<and>
     (f = f1 \<and> e \<in> set (entries l1) \<or> f = f2 \<and> e \<in> set (entries l2)) \<or>
   s = Severity_Error \<and> (e = [] \<or> \<not> escapes_complete (byte_chars e)) \<and>
     (f = f3 \<and> e \<in> set (entries l3) \<or> f = f4 \<and> e \<in> set (entries l4))"
  unfolding set_append image_Un Un_iff list.map concat.simps append_Nil2
    mem_literal_issues mem_pattern_issues
  by blast

text \<open>
  Validation is exact: a warning for exactly the literal entries whose reading as a pattern has a
  star, an error for exactly the pattern entries that are empty or end inside an escape.
\<close>

theorem catalog_issues_exact:
  "(severity, field_name, entry) \<in> (\<lambda>i. (vi_severity i, vi_field i, vi_entry i)) ` set (validate_catalog spec) \<longleftrightarrow>
   severity = Severity_Warning \<and> Star \<in> set (tokens (byte_chars entry)) \<and>
     (field_name = ''allowed_tools'' \<and> entry \<in> set (entries (as_allowed_tools spec)) \<or>
      field_name = ''excluded_tools'' \<and> entry \<in> set (entries (as_excluded_tools spec))) \<or>
   severity = Severity_Error \<and> \<not> (entry \<noteq> [] \<and> escapes_complete (byte_chars entry)) \<and>
     (field_name = ''allowed_tool_patterns'' \<and> entry \<in> set (entries (as_allowed_tool_patterns spec)) \<or>
      field_name = ''excluded_tool_patterns'' \<and> entry \<in> set (entries (as_excluded_tool_patterns spec)))"
  unfolding validate_catalog_def mem_catalog_issues by simp

end
