(* ===== verification/Permission_Preview.thy ===== *)
theory Permission_Preview
  imports Permission_Safety Tool_Catalog
begin

text \<open>
  The permission preview of the server (\<^verbatim>\<open>services/permission_preview.rs\<close>): which tools the model is
  offered, computed from the agent spec, the registry and the permission configuration; proved equal
  to what the runtime offers after activation, catalog filter and filter hook.
\<close>

section \<open>The preview\<close>

record ArgConditionalRule =
  ac_tool :: string
  ac_behavior :: string
  ac_pattern :: string

record PermissionPreviewResponse =
  pp_agent_id :: string
  pp_permission_plugin_enabled :: bool
  pp_default_behavior :: "string option"
  pp_candidate_tools :: "string list"
  pp_unconditionally_denied :: "string list"
  pp_effective_tools :: "string list"
  pp_args_conditional_rules :: "ArgConditionalRule list"

datatype PermissionPreviewError = InvalidPermissionConfig string string

fun behavior_label :: "ToolPermissionBehavior \<Rightarrow> string" where
  "behavior_label Allow = ''allow''"
| "behavior_label Ask = ''ask''"
| "behavior_label Deny = ''deny''"

fun tool_display :: "ToolMatcher \<Rightarrow> string" where
  "tool_display (ToolExact name) = name"
| "tool_display (ToolGlob g) = g"
| "tool_display (ToolRegex r) = ''/'' @ r @ ''/''"

definition describe_args_conditional ::
  "Engines \<Rightarrow> PermissionRule \<Rightarrow> string list \<Rightarrow> ArgConditionalRule option" where
  "describe_args_conditional E rule callable =
     (case ru_subject rule of
        Subject_Tool _ \<Rightarrow> None
      | Subject_Pattern pattern \<Rightarrow>
          if tp_args pattern = ArgAny \<and>
             ((case tp_tool pattern of ToolExact _ \<Rightarrow> True | _ \<Rightarrow> False) \<or> ru_behavior rule = Deny)
          then None
          else if \<not> (case tp_tool pattern of
              ToolExact name \<Rightarrow> list_ex (\<lambda>tool. tool = name) callable
            | _ \<Rightarrow> list_ex (matches_tool E (ru_subject rule)) callable)
          then None
          else Some \<lparr>ac_tool = tool_display (tp_tool pattern), ac_behavior = behavior_label (ru_behavior rule),
                     ac_pattern = show_pattern pattern\<rparr>)"

definition collect_args_conditional_rules ::
  "Engines \<Rightarrow> PermissionRuleset \<Rightarrow> string list \<Rightarrow> ArgConditionalRule list" where
  "collect_args_conditional_rules E rs callable =
     sort_key (\<lambda>a. (ac_tool a, ac_pattern a))
       (List.map_filter (\<lambda>rule. describe_args_conditional E rule callable) (hm_values (rs_rules rs)))"

text \<open>
  \<open>preview_agent_permissions\<close> behind the look-ups: the agent spec, the ids of the registry, and the
  permission section as decoded (an error is the decoder's text).
\<close>

definition preview_agent_permissions ::
  "Engines \<Rightarrow> string \<Rightarrow> AgentSpec \<Rightarrow> string list \<Rightarrow> string + PermissionRulesConfig \<Rightarrow>
   (PermissionPreviewResponse, PermissionPreviewError) outcome" where
  "preview_agent_permissions E agent_id spec all_tools decoded =
     (let candidate_tools = remdups_adj (sort (filter (tool_allowed spec) all_tools));
          permission_loaded = list_ex (\<lambda>i. i = ''permission'') (as_plugin_ids spec);
          permission_hooks_active = as_active_hook_filter spec = [] \<or>
            list_ex (\<lambda>i. i = ''permission'') (as_active_hook_filter spec)
      in if \<not> (permission_loaded \<and> permission_hooks_active) then
           Ok \<lparr>pp_agent_id = agent_id, pp_permission_plugin_enabled = False, pp_default_behavior = None,
               pp_candidate_tools = candidate_tools, pp_unconditionally_denied = [],
               pp_effective_tools = candidate_tools, pp_args_conditional_rules = []\<rparr>
         else (case decoded of
             Inl reason \<Rightarrow> Err (InvalidPermissionConfig agent_id reason)
           | Inr config \<Rightarrow>
               (case into_ruleset E config of
                  Panic m \<Rightarrow> Panic m
                | Err _ \<Rightarrow> Err (InvalidPermissionConfig agent_id [])
                | Ok rs \<Rightarrow>
                    (let denied = unconditionally_denied_against E rs all_tools;
                         effective = filter (\<lambda>tool. tool \<notin> denied) candidate_tools
                     in Ok \<lparr>pp_agent_id = agent_id, pp_permission_plugin_enabled = True,
                            pp_default_behavior = Some (behavior_label (co_default_behavior config)),
                            pp_candidate_tools = candidate_tools,
                            pp_unconditionally_denied =
                              sorted_list_of_set {tool \<in> denied. tool \<in> set candidate_tools},
                            pp_effective_tools = effective,
                            pp_args_conditional_rules = collect_args_conditional_rules E rs effective\<rparr>))))"

section \<open>Theorems\<close>

definition permission_active :: "AgentSpec \<Rightarrow> bool" where
  "permission_active spec \<longleftrightarrow> ''permission'' \<in> set (as_plugin_ids spec) \<and>
     (as_active_hook_filter spec = [] \<or> ''permission'' \<in> set (as_active_hook_filter spec))"

lemma list_ex_eq: "list_ex (\<lambda>i. i = x) xs \<longleftrightarrow> x \<in> set xs"
  by (auto simp: list_ex_iff)

text \<open>The tools a step of the runtime offers: the registry through the catalog and the filter hook.\<close>

definition offered_tools ::
  "Engines \<Rightarrow> AgentSpec \<Rightarrow> ToolDescriptor list \<Rightarrow> PermissionPolicy option \<Rightarrow> ToolDescriptor list" where
  "offered_tools E spec registry policy =
     apply_tool_filter_payloads (filter (\<lambda>t. tool_allowed spec (td_id t)) registry)
       (tf_excluded (foldl ToolFilterState_apply ToolFilterState_default
         (map Exclude (if permission_active spec then filter_run E policy None (Some (map td_id registry)) else []))))
       []"

lemma offered_iff:
  "x \<in> td_id ` set (offered_tools E spec registry policy) \<longleftrightarrow>
   x \<in> td_id ` set registry \<and> tool_allowed spec x \<and>
   (permission_active spec \<longrightarrow>
      x \<notin> unconditionally_denied_against E (permission_rules_from_state policy None) (map td_id registry))"
  by (auto simp: offered_tools_def filtered_tools exclusions_accumulate ToolFilterState_default_def
      filter_run_def finite_denied)

lemma preview_effective:
  assumes "preview_agent_permissions E agent_id spec ids decoded = Ok response"
  shows "if permission_active spec then
      \<exists>config rs. decoded = Inr config \<and> into_ruleset E config = Ok rs \<and>
        set (pp_effective_tools response) = {x \<in> set ids. tool_allowed spec x \<and> x \<notin> unconditionally_denied_against E rs ids}
    else set (pp_effective_tools response) = {x \<in> set ids. tool_allowed spec x}"
proof (cases "permission_active spec")
  case True
  then have on: "list_ex (\<lambda>i. i = ''permission'') (as_plugin_ids spec) \<and>
      (as_active_hook_filter spec = [] \<or> list_ex (\<lambda>i. i = ''permission'') (as_active_hook_filter spec))"
    by (simp only: permission_active_def list_ex_eq)
  obtain config where config: "decoded = Inr config"
    using assms on by (cases decoded) (simp_all add: preview_agent_permissions_def Let_def)
  obtain rs where rs: "into_ruleset E config = Ok rs"
    using assms on config by (cases "into_ruleset E config") (simp_all add: preview_agent_permissions_def Let_def)
  from assms on have "pp_effective_tools response =
      filter (\<lambda>tool. tool \<notin> unconditionally_denied_against E rs ids) (remdups_adj (sort (filter (tool_allowed spec) ids)))"
    by (auto simp: preview_agent_permissions_def Let_def config rs)
  with True config rs show ?thesis by auto
next
  case False
  then have off: "\<not> (list_ex (\<lambda>i. i = ''permission'') (as_plugin_ids spec) \<and>
      (as_active_hook_filter spec = [] \<or> list_ex (\<lambda>i. i = ''permission'') (as_active_hook_filter spec)))"
    by (simp only: permission_active_def list_ex_eq not_False_eq_True)
  from assms have "pp_effective_tools response = remdups_adj (sort (filter (tool_allowed spec) ids))"
    unfolding preview_agent_permissions_def Let_def if_P [OF off] by auto
  with False show ?thesis by simp
qed

text \<open>
  C26: What the preview calls the effective tools is what a step offers to the model on a thread whose
  policy came from activating the same configuration, for every registry and catalog, wherever the
  entries of the configuration parse.
\<close>

theorem preview_matches_runtime:
  assumes "preview_agent_permissions E agent_id spec (map td_id registry) (Inr config) = Ok response"
    and "list_all (entry_parses E) (co_rules config)"
    and "apply_policy_actions E PermissionPolicy_default (on_activate config) = Ok policy"
  shows "set (pp_effective_tools response) = td_id ` set (offered_tools E spec registry (Some policy))"
proof -
  have "unconditionally_denied_against E (permission_rules_from_state (Some policy) None) ids =
      unconditionally_denied_against E rs ids" if "into_ruleset E config = Ok rs" for rs ids
    using activated_ruleset [OF assms(2)] assms(3) that by auto
  with preview_effective [OF assms(1)] show ?thesis
    by (cases "permission_active spec") (auto simp: set_eq_iff offered_iff)
qed

definition preview_spec :: AgentSpec where
  "preview_spec = \<lparr>as_allowed_tools = Some [''db'', ''ls'', ''gone''], as_allowed_tool_patterns = None,
     as_excluded_tools = None, as_excluded_tool_patterns = None, as_plugin_ids = [''permission''],
     as_active_hook_filter = [], as_sections = []\<rparr>"

definition preview_config :: PermissionRulesConfig where
  "preview_config = \<lparr>co_default_behavior = Ask, co_rules =
     [\<lparr>en_tool = ''db'', en_behavior = Deny, en_scope = Scope_Project\<rparr>,
      \<lparr>en_tool = ''Bash(ls)'', en_behavior = Allow, en_scope = Scope_Project\<rparr>]\<rparr>"

theorem preview_matches_runtime_witness:
  "\<exists>policy. apply_policy_actions sample_engines PermissionPolicy_default (on_activate preview_config) = Ok policy \<and>
    td_id ` set (offered_tools sample_engines preview_spec [sample_tool ''ls'', sample_tool ''db''] (Some policy)) = {''ls''}"
proof -
  let ?registry = "[sample_tool ''ls'', sample_tool ''db'']"
  let ?response = "\<lparr>pp_agent_id = ''a'', pp_permission_plugin_enabled = True, pp_default_behavior = Some ''ask'',
      pp_candidate_tools = [''db'', ''ls''], pp_unconditionally_denied = [''db''], pp_effective_tools = [''ls''],
      pp_args_conditional_rules = []\<rparr>"
  let ?policy = "\<lparr>po_default_behavior = Ask, po_rules =
      [(''pattern:db'', new_pattern (pattern_tool ''db'') Deny),
       (''pattern:Bash(ls)'', new_pattern (tool_with_primary ''Bash'' ''ls'') Allow)]\<rparr>"
  have 1: "preview_agent_permissions sample_engines ''a'' preview_spec (map td_id ?registry) (Inr preview_config) = Ok ?response"
    by code_simp
  have 2: "list_all (entry_parses sample_engines) (co_rules preview_config)" by code_simp
  have 3: "apply_policy_actions sample_engines PermissionPolicy_default (on_activate preview_config) = Ok ?policy"
    by code_simp
  from preview_matches_runtime [OF 1 2 3] 3 show ?thesis by auto
qed

section \<open>Rules the preview does not show\<close>

lemma resolve_null: "path \<noteq> [] \<Longrightarrow> resolve_path JNull path = []"
  by (induction "JNull" path rule: resolve_path.induct)
    (simp_all add: json_get_def json_array_def json_object_def)

lemma null_fields_no_match:
  "list_ex (\<lambda>c. fc_path c \<noteq> []) cs \<Longrightarrow> match_fields E cs JNull n = None"
  by (induction cs arbitrary: n) (auto simp: evaluate_field_condition_def resolve_null)

text \<open>
  The preview asks whether a rule can fire by matching it against null arguments: a rule for a glob or
  regex of tools with conditions on fields never shows, although it decides calls.
\<close>

theorem conditional_glob_rule_hidden:
  assumes "ru_subject rule = Subject_Pattern p" and "\<nexists>name. tp_tool p = ToolExact name"
    and "tp_args p = ArgFields cs" and "list_ex (\<lambda>c. fc_path c \<noteq> []) cs"
  shows "describe_args_conditional E rule callable = None"
proof -
  have "\<not> matches_tool E (Subject_Pattern p) tool" for tool
    using null_fields_no_match [OF assms(4)] assms(3) by (simp add: pattern_matches_def split: option.splits)
  then have "\<not> list_ex (matches_tool E (Subject_Pattern p)) callable" by (simp add: list_ex_iff)
  with assms show ?thesis
    by (cases "tp_tool p") (auto simp: describe_args_conditional_def)
qed

definition hidden_rule :: PermissionRule where
  "hidden_rule = new_pattern (with_args (tool_glob ''*'') (ArgFields [equals_pattern ''path'' ''x''])) Deny"

theorem conditional_glob_rule_hidden_witness:
  "describe_args_conditional (sample_engines\<lparr>glob_match := \<lambda>_ _. True\<rparr>) hidden_rule [''rm''] = None \<and>
   ev_behavior (evaluate_tool_permission (sample_engines\<lparr>glob_match := \<lambda>_ _. True\<rparr>)
     \<lparr>rs_default_behavior = Allow, rs_rules = [(''r'', hidden_rule)]\<rparr> ''rm'' (JObject [(''path'', JString ''x'')])) = Deny"
proof
  let ?p = "with_args (tool_glob ''*'') (ArgFields [equals_pattern ''path'' ''x''])"
  show "describe_args_conditional (sample_engines\<lparr>glob_match := \<lambda>_ _. True\<rparr>) hidden_rule [''rm''] = None"
    by (rule conditional_glob_rule_hidden [of _ ?p "[equals_pattern ''path'' ''x'']"])
      (simp_all add: hidden_rule_def new_pattern_def with_args_def tool_glob_def equals_pattern_def)
qed code_simp

end
