(* ===== verification/State_Store.thy ===== *)
theory State_Store
  imports Tool_Pattern
begin

text \<open>
  The typed state of a run: state keys and maps (\<^verbatim>\<open>state/slot.rs\<close>), mutation batches and commands
  (\<^verbatim>\<open>state/mutation.rs\<close>, \<^verbatim>\<open>state/command.rs\<close>), the key registry (\<^verbatim>\<open>plugins/registry.rs\<close>), the store with
  its commits (\<^verbatim>\<open>state/store.rs\<close>) and its persistence (\<^verbatim>\<open>state/persistence.rs\<close>).

  A Rust type that implements \<open>StateKey\<close> is an element of a type \<open>'t\<close> of type ids; what the trait gives
  for it is \<open>K t\<close>, with \<open>K\<close> an argument of the definitions. Values and updates of all keys are one
  type each. A \<open>StateMap\<close> is a map from type ids: its order is never observed.
\<close>

section \<open>Errors\<close>

datatype Phase =
    RunStart | StepStart | BeforeInference | AfterInference | ToolGate | BeforeToolExecute
  | AfterToolExecute | StepEnd | RunEnd

datatype StateError =
    RevisionConflict u64 u64
  | MutationBaseRevisionMismatch u64 u64
  | PluginAlreadyInstalled string
  | PluginNotInstalled string
  | KeyAlreadyRegistered string
  | UnknownKey string
  | KeyDecode string string
  | KeyEncode string string
  | HandlerAlreadyRegistered string
  | EffectHandlerAlreadyRegistered string
  | PhaseRunLoopExceeded Phase usize
  | UnknownScheduledActionHandler string
  | UnknownEffectHandler string
  | ParallelMergeConflict string
  | ToolAlreadyRegistered string
  | StateCancelled

fun debug_phase :: "Phase \<Rightarrow> string" where
  "debug_phase RunStart = ''RunStart''"
| "debug_phase StepStart = ''StepStart''"
| "debug_phase BeforeInference = ''BeforeInference''"
| "debug_phase AfterInference = ''AfterInference''"
| "debug_phase ToolGate = ''ToolGate''"
| "debug_phase BeforeToolExecute = ''BeforeToolExecute''"
| "debug_phase AfterToolExecute = ''AfterToolExecute''"
| "debug_phase StepEnd = ''StepEnd''"
| "debug_phase RunEnd = ''RunEnd''"

fun show_StateError :: "StateError \<Rightarrow> string" where
  "show_StateError (RevisionConflict e a) =
     ''revision conflict: expected '' @ show_nat (unat e) @ '', actual '' @ show_nat (unat a)"
| "show_StateError (MutationBaseRevisionMismatch l r) =
     ''patch base revision mismatch: '' @ show_nat (unat l) @ '' vs '' @ show_nat (unat r)"
| "show_StateError (PluginAlreadyInstalled n) = ''plugin already installed: '' @ n"
| "show_StateError (PluginNotInstalled n) = ''plugin not installed: '' @ n"
| "show_StateError (KeyAlreadyRegistered k) = ''key already registered: '' @ k"
| "show_StateError (UnknownKey k) = ''unknown key: '' @ k"
| "show_StateError (KeyDecode k m) = ''failed to decode key '' @ k @ '': '' @ m"
| "show_StateError (KeyEncode k m) = ''failed to encode key '' @ k @ '': '' @ m"
| "show_StateError (HandlerAlreadyRegistered k) = ''scheduled action handler already registered: '' @ k"
| "show_StateError (EffectHandlerAlreadyRegistered k) = ''effect handler already registered: '' @ k"
| "show_StateError (PhaseRunLoopExceeded p n) =
     ''phase '' @ debug_phase p @ '' did not converge after '' @ show_nat (unat n) @ '' rounds''"
| "show_StateError (UnknownScheduledActionHandler k) = ''no scheduled action handler registered for '' @ k"
| "show_StateError (UnknownEffectHandler k) = ''no effect handler registered for '' @ k"
| "show_StateError (ParallelMergeConflict k) = ''parallel merge conflict on exclusive key: '' @ k"
| "show_StateError (ToolAlreadyRegistered i) = ''tool already registered: '' @ i"
| "show_StateError StateCancelled = ''operation cancelled''"

section \<open>Keys and maps\<close>

datatype KeyScope = Key_Run | Key_Thread

datatype MergeStrategy = Exclusive | Commutative

record StateKeyOptions =
  op_persistent :: bool
  op_retain_on_uninstall :: bool
  op_scope :: KeyScope

definition StateKeyOptions_default :: StateKeyOptions where
  "StateKeyOptions_default = \<lparr>op_persistent = True, op_retain_on_uninstall = False, op_scope = Key_Run\<rparr>"

record ('v, 'u) StateKey =
  sk_key :: string
  sk_merge :: MergeStrategy
  sk_apply :: "'v \<Rightarrow> 'u \<Rightarrow> 'v"
  sk_default :: 'v
  sk_encode :: "'v \<Rightarrow> (json, StateError) outcome"
  sk_decode :: "json \<Rightarrow> ('v, StateError) outcome"

type_synonym ('t, 'v) StateMap = "'t \<rightharpoonup> 'v"

section \<open>Mutation batches\<close>

datatype ('t, 'u) MutationOp = KeyPatch 't 'u | ClearKey 't

fun op_type :: "('t, 'u) MutationOp \<Rightarrow> 't" where
  "op_type (KeyPatch t _) = t"
| "op_type (ClearKey t) = t"

text \<open>A patch works on the value, or on the default it inserts first.\<close>

definition get_or_insert_default :: "('t \<Rightarrow> ('v, 'u) StateKey) \<Rightarrow> ('t, 'v) StateMap \<Rightarrow> 't \<Rightarrow> 'v" where
  "get_or_insert_default K m t = (case m t of Some v \<Rightarrow> v | None \<Rightarrow> sk_default (K t))"

fun op_apply :: "('t \<Rightarrow> ('v, 'u) StateKey) \<Rightarrow> ('t, 'v) StateMap \<Rightarrow> ('t, 'u) MutationOp \<Rightarrow> ('t, 'v) StateMap" where
  "op_apply K m (KeyPatch t u) = m(t \<mapsto> sk_apply (K t) (get_or_insert_default K m t) u)"
| "op_apply K m (ClearKey t) = m(t := None)"

record ('t, 'u) MutationBatch =
  ba_base_revision :: "u64 option"
  ba_ops :: "('t, 'u) MutationOp list"
  ba_touched_keys :: "string list"

definition batch_new :: "('t, 'u) MutationBatch" where
  "batch_new = \<lparr>ba_base_revision = None, ba_ops = [], ba_touched_keys = []\<rparr>"

definition with_base_revision :: "('t, 'u) MutationBatch \<Rightarrow> u64 \<Rightarrow> ('t, 'u) MutationBatch" where
  "with_base_revision b revision = b\<lparr>ba_base_revision := Some revision\<rparr>"

definition batch_update ::
  "('t \<Rightarrow> ('v, 'u) StateKey) \<Rightarrow> ('t, 'u) MutationBatch \<Rightarrow> 't \<Rightarrow> 'u \<Rightarrow> ('t, 'u) MutationBatch" where
  "batch_update K b t u =
     b\<lparr>ba_ops := ba_ops b @ [KeyPatch t u], ba_touched_keys := ba_touched_keys b @ [sk_key (K t)]\<rparr>"

definition clear_extension_with :: "('t, 'u) MutationBatch \<Rightarrow> string \<Rightarrow> 't \<Rightarrow> ('t, 'u) MutationBatch" where
  "clear_extension_with b key t =
     b\<lparr>ba_ops := ba_ops b @ [ClearKey t], ba_touched_keys := ba_touched_keys b @ [key]\<rparr>"

fun reconcile :: "u64 option \<Rightarrow> u64 option \<Rightarrow> (u64 option, StateError) outcome" where
  "reconcile (Some l) (Some r) = (if l \<noteq> r then Err (MutationBaseRevisionMismatch l r) else Ok (Some l))"
| "reconcile (Some l) None = Ok (Some l)"
| "reconcile None r = Ok r"

definition append_batch :: "('t, 'u) MutationBatch \<Rightarrow> ('t, 'u) MutationBatch \<Rightarrow> u64 option \<Rightarrow> ('t, 'u) MutationBatch" where
  "append_batch b c base = \<lparr>ba_base_revision = base, ba_ops = ba_ops b @ ba_ops c,
     ba_touched_keys = ba_touched_keys b @ ba_touched_keys c\<rparr>"

definition batch_extend ::
  "('t, 'u) MutationBatch \<Rightarrow> ('t, 'u) MutationBatch \<Rightarrow> (('t, 'u) MutationBatch, StateError) outcome" where
  "batch_extend b other =
     map_ok (append_batch b other) (reconcile (ba_base_revision b) (ba_base_revision other))"

definition merge_parallel ::
  "('t, 'u) MutationBatch \<Rightarrow> ('t, 'u) MutationBatch \<Rightarrow> (string \<Rightarrow> MergeStrategy) \<Rightarrow>
   (('t, 'u) MutationBatch, StateError) outcome" where
  "merge_parallel b other strategy =
     and_then (reconcile (ba_base_revision b) (ba_base_revision other)) (\<lambda>base.
       case find (\<lambda>key. key \<in> set (ba_touched_keys b) \<and> strategy key = Exclusive) (ba_touched_keys other) of
         Some key \<Rightarrow> Err (ParallelMergeConflict key)
       | None \<Rightarrow> Ok (append_batch b other base))"

section \<open>Commands\<close>

text \<open>Scheduled actions and effects are opaque here.\<close>

record ('t, 'u, 'a, 'e) StateCommand =
  cm_patch :: "('t, 'u) MutationBatch"
  cm_scheduled_actions :: "'a list"
  cm_effects :: "'e list"

definition command_new :: "('t, 'u, 'a, 'e) StateCommand" where
  "command_new = \<lparr>cm_patch = batch_new, cm_scheduled_actions = [], cm_effects = []\<rparr>"

definition command_extend ::
  "('t, 'u, 'a, 'e) StateCommand \<Rightarrow> ('t, 'u, 'a, 'e) StateCommand \<Rightarrow> (('t, 'u, 'a, 'e) StateCommand, StateError) outcome" where
  "command_extend c d =
     map_ok (\<lambda>patch. \<lparr>cm_patch = patch, cm_scheduled_actions = cm_scheduled_actions c @ cm_scheduled_actions d,
         cm_effects = cm_effects c @ cm_effects d\<rparr>)
       (batch_extend (cm_patch c) (cm_patch d))"

definition command_merge_parallel ::
  "('t, 'u, 'a, 'e) StateCommand \<Rightarrow> ('t, 'u, 'a, 'e) StateCommand \<Rightarrow> (string \<Rightarrow> MergeStrategy) \<Rightarrow>
   (('t, 'u, 'a, 'e) StateCommand, StateError) outcome" where
  "command_merge_parallel c d strategy =
     map_ok (\<lambda>patch. \<lparr>cm_patch = patch, cm_scheduled_actions = cm_scheduled_actions c @ cm_scheduled_actions d,
         cm_effects = cm_effects c @ cm_effects d\<rparr>)
       (merge_parallel (cm_patch c) (cm_patch d) strategy)"

text \<open>\<open>validate_parallel_state_batches\<close>: the owners of a key, with repetitions; the hash map is walked in any order.\<close>

record ToolStateBatch =
  tb_call_id :: string
  tb_touched_keys :: "string list"

datatype ParallelMergeError = ExclusiveConflict string string string

fun add_owner :: "(string, string list) hash_map \<Rightarrow> string \<Rightarrow> string \<Rightarrow> (string, string list) hash_map" where
  "add_owner m call_id key = AList.update key ((case map_of m key of Some os \<Rightarrow> os | None \<Rightarrow> []) @ [call_id]) m"

definition key_owners :: "ToolStateBatch list \<Rightarrow> (string, string list) hash_map" where
  "key_owners batches =
     foldl (\<lambda>m b. foldl (\<lambda>m key. add_owner m (tb_call_id b) key) m (tb_touched_keys b)) [] batches"

definition validate_parallel_state_batches ::
  "ToolStateBatch list \<Rightarrow> (string \<Rightarrow> MergeStrategy) \<Rightarrow> (unit, ParallelMergeError) outcome" where
  "validate_parallel_state_batches batches strategy =
     (case find (\<lambda>(key, owners). length owners > 1 \<and> strategy key = Exclusive) (key_owners batches) of
        Some (key, owners) \<Rightarrow> Err (ExclusiveConflict key (owners ! 0) (owners ! 1))
      | None \<Rightarrow> Ok ())"

definition collect_all_touched_keys :: "ToolStateBatch list \<Rightarrow> string list" where
  "collect_all_touched_keys batches =
     foldl (\<lambda>ks key. if key \<in> set ks then ks else ks @ [key]) [] (concat (map tb_touched_keys batches))"

section \<open>The key registry\<close>

record 't KeyRegistration =
  kr_type_id :: 't
  kr_key :: string
  kr_options :: StateKeyOptions
  kr_merge_strategy :: MergeStrategy
  kr_scope :: KeyScope

definition KeyRegistration_new :: "('t \<Rightarrow> ('v, 'u) StateKey) \<Rightarrow> 't \<Rightarrow> StateKeyOptions \<Rightarrow> 't KeyRegistration" where
  "KeyRegistration_new K t options =
     \<lparr>kr_type_id = t, kr_key = sk_key (K t), kr_options = options, kr_merge_strategy = sk_merge (K t),
      kr_scope = op_scope options\<rparr>"

definition reg_export ::
  "('t \<Rightarrow> ('v, 'u) StateKey) \<Rightarrow> 't KeyRegistration \<Rightarrow> ('t, 'v) StateMap \<Rightarrow> (json option, StateError) outcome" where
  "reg_export K reg m =
     (case m (kr_type_id reg) of
        Some v \<Rightarrow> map_ok Some (sk_encode (K (kr_type_id reg)) v)
      | None \<Rightarrow> Ok None)"

definition reg_import ::
  "('t \<Rightarrow> ('v, 'u) StateKey) \<Rightarrow> 't KeyRegistration \<Rightarrow> ('t, 'v) StateMap \<Rightarrow> json \<Rightarrow> (('t, 'v) StateMap, StateError) outcome" where
  "reg_import K reg m js = map_ok (\<lambda>v. m(kr_type_id reg \<mapsto> v)) (sk_decode (K (kr_type_id reg)) js)"

definition reg_clear :: "'t KeyRegistration \<Rightarrow> ('t, 'v) StateMap \<Rightarrow> ('t, 'v) StateMap" where
  "reg_clear reg m = m(kr_type_id reg := None)"

record ('p, 't) PluginRegistry =
  rg_plugins :: "('p, 't list) hash_map"
  rg_keys_by_type :: "('t, 't KeyRegistration) hash_map"
  rg_keys_by_name :: "(string, 't KeyRegistration) hash_map"

definition PluginRegistry_default :: "('p, 't) PluginRegistry" where
  "PluginRegistry_default = \<lparr>rg_plugins = [], rg_keys_by_type = [], rg_keys_by_name = []\<rparr>"

definition registry_merge_strategy :: "('p, 't) PluginRegistry \<Rightarrow> string \<Rightarrow> MergeStrategy" where
  "registry_merge_strategy rg key =
     (case map_of (rg_keys_by_name rg) key of Some reg \<Rightarrow> kr_merge_strategy reg | None \<Rightarrow> Exclusive)"

definition ensure_key :: "('p, 't) PluginRegistry \<Rightarrow> string \<Rightarrow> (unit, StateError) outcome" where
  "ensure_key rg key = (if map_of (rg_keys_by_name rg) key \<noteq> None then Ok () else Err (UnknownKey key))"

text \<open>The state key part of a \<open>PluginRegistrar\<close>. A failed registration has already noted the type.\<close>

record 't KeyRegistrar =
  kg_keys :: "'t KeyRegistration list"
  kg_key_type_ids :: "'t set"
  kg_key_names :: "string set"

definition registrar_new :: "'t KeyRegistrar" where
  "registrar_new = \<lparr>kg_keys = [], kg_key_type_ids = {}, kg_key_names = {}\<rparr>"

definition register_key ::
  "('t \<Rightarrow> ('v, 'u) StateKey) \<Rightarrow> 't KeyRegistrar \<Rightarrow> 't \<Rightarrow> StateKeyOptions \<Rightarrow> (unit, StateError) outcome \<times> 't KeyRegistrar" where
  "register_key K g t options =
     (let known_type = t \<in> kg_key_type_ids g;
          g1 = g\<lparr>kg_key_type_ids := insert t (kg_key_type_ids g)\<rparr>
      in if known_type then (Err (KeyAlreadyRegistered (sk_key (K t))), g1)
         else (let known_name = sk_key (K t) \<in> kg_key_names g1;
                   g2 = g1\<lparr>kg_key_names := insert (sk_key (K t)) (kg_key_names g1)\<rparr>
               in if known_name then (Err (KeyAlreadyRegistered (sk_key (K t))), g2)
                  else (Ok (), g2\<lparr>kg_keys := kg_keys g2 @ [KeyRegistration_new K t options]\<rparr>)))"

section \<open>The store\<close>

record ('p, 't, 'v) StateStore =
  ss_revision :: u64
  ss_ext :: "('t, 'v) StateMap"
  ss_registry :: "('p, 't) PluginRegistry"

record ('t, 'v) CommitEvent =
  ce_previous_revision :: u64
  ce_new_revision :: u64
  ce_op_count :: nat
  ce_snapshot :: "u64 \<times> ('t, 'v) StateMap"

definition StateStore_new :: "('p, 't, 'v) StateStore" where
  "StateStore_new = \<lparr>ss_revision = 0, ss_ext = Map.empty, ss_registry = PluginRegistry_default\<rparr>"

definition store_merge_parallel ::
  "('p, 't, 'v) StateStore \<Rightarrow> ('t, 'u) MutationBatch \<Rightarrow> ('t, 'u) MutationBatch \<Rightarrow> (('t, 'u) MutationBatch, StateError) outcome" where
  "store_merge_parallel st l r = merge_parallel l r (registry_merge_strategy (ss_registry st))"

fun merge_all_from ::
  "('t, 'u, 'a, 'e) StateCommand \<Rightarrow> ('t, 'u, 'a, 'e) StateCommand list \<Rightarrow> (string \<Rightarrow> MergeStrategy) \<Rightarrow>
   (('t, 'u, 'a, 'e) StateCommand, StateError) outcome" where
  "merge_all_from acc [] strategy = Ok acc"
| "merge_all_from acc (c # cs) strategy =
     and_then (command_merge_parallel acc c strategy) (\<lambda>acc'. merge_all_from acc' cs strategy)"

definition merge_all_commands ::
  "('p, 't, 'v) StateStore \<Rightarrow> ('t, 'u, 'a, 'e) StateCommand list \<Rightarrow> (('t, 'u, 'a, 'e) StateCommand, StateError) outcome" where
  "merge_all_commands st cs = merge_all_from command_new cs (registry_merge_strategy (ss_registry st))"

text \<open>\<open>commit\<close>: the result, the event the hooks see, and the store. First the part behind the revision check.\<close>

definition apply_ops ::
  "('t \<Rightarrow> ('v, 'u) StateKey) \<Rightarrow> ('t, 'v) StateMap \<Rightarrow> ('t, 'u) MutationOp list \<Rightarrow> ('t, 'v) StateMap" where
  "apply_ops K m ops = foldl (op_apply K) m ops"

definition commit_checked ::
  "('t \<Rightarrow> ('v, 'u) StateKey) \<Rightarrow> ('p, 't, 'v) StateStore \<Rightarrow> ('t, 'u) MutationBatch \<Rightarrow>
   (u64, StateError) outcome \<times> ('t, 'v) CommitEvent option \<times> ('p, 't, 'v) StateStore" where
  "commit_checked K st patch =
     (case find (\<lambda>key. \<not> is_ok (ensure_key (ss_registry st) key)) (ba_touched_keys patch) of
        Some key \<Rightarrow> (Err (UnknownKey key), None, st)
      | None \<Rightarrow>
          (let ext' = apply_ops K (ss_ext st) (ba_ops patch); revision' = ss_revision st + 1
           in (Ok revision',
               Some \<lparr>ce_previous_revision = ss_revision st, ce_new_revision = revision',
                     ce_op_count = length (ba_ops patch), ce_snapshot = (revision', ext')\<rparr>,
               st\<lparr>ss_ext := ext', ss_revision := revision'\<rparr>)))"

definition commit ::
  "('t \<Rightarrow> ('v, 'u) StateKey) \<Rightarrow> ('p, 't, 'v) StateStore \<Rightarrow> ('t, 'u) MutationBatch \<Rightarrow>
   (u64, StateError) outcome \<times> ('t, 'v) CommitEvent option \<times> ('p, 't, 'v) StateStore" where
  "commit K st patch =
     (if ba_ops patch = [] then (Ok (ss_revision st), None, st)
      else (case ba_base_revision patch of
          Some expected \<Rightarrow>
            if ss_revision st \<noteq> expected then (Err (RevisionConflict expected (ss_revision st)), None, st)
            else commit_checked K st patch
        | None \<Rightarrow> commit_checked K st patch))"

definition add_key :: "('p, 't) PluginRegistry \<Rightarrow> 't KeyRegistration \<Rightarrow> ('p, 't) PluginRegistry" where
  "add_key rg reg = rg\<lparr>rg_keys_by_name := AList.update (kr_key reg) reg (rg_keys_by_name rg),
     rg_keys_by_type := AList.update (kr_type_id reg) reg (rg_keys_by_type rg)\<rparr>"

definition install_plugin_with_keys ::
  "('p, 't, 'v) StateStore \<Rightarrow> 'p \<Rightarrow> string \<Rightarrow> 't KeyRegistration list \<Rightarrow>
   (unit, StateError) outcome \<times> ('p, 't, 'v) StateStore" where
  "install_plugin_with_keys st p name regs =
     (let rg = ss_registry st
      in if map_of (rg_plugins rg) p \<noteq> None then (Err (PluginAlreadyInstalled name), st)
         else (case find (\<lambda>reg. map_of (rg_keys_by_name rg) (kr_key reg) \<noteq> None) regs of
             Some reg \<Rightarrow> (Err (KeyAlreadyRegistered (kr_key reg)), st)
           | None \<Rightarrow>
               (let rg' = foldl add_key rg regs
                in (Ok (), st\<lparr>ss_registry := rg'\<lparr>rg_plugins :=
                      AList.update p (map kr_type_id regs) (rg_plugins rg')\<rparr>\<rparr>))))"

definition register_keys ::
  "('p, 't, 'v) StateStore \<Rightarrow> 't KeyRegistration list \<Rightarrow> ('p, 't, 'v) StateStore" where
  "register_keys st regs =
     st\<lparr>ss_registry := foldl (\<lambda>rg reg. if map_of (rg_keys_by_name rg) (kr_key reg) \<noteq> None then rg else add_key rg reg)
       (ss_registry st) regs\<rparr>"

definition drop_key :: "('p, 't) PluginRegistry \<Rightarrow> 't \<Rightarrow> ('p, 't) PluginRegistry" where
  "drop_key rg t =
     (case map_of (rg_keys_by_type rg) t of
        Some reg \<Rightarrow> rg\<lparr>rg_keys_by_type := AList.delete t (rg_keys_by_type rg),
                       rg_keys_by_name := AList.delete (kr_key reg) (rg_keys_by_name rg)\<rparr>
      | None \<Rightarrow> rg)"

definition unregister_plugin_type_id ::
  "('p, 't, 'v) StateStore \<Rightarrow> 'p \<Rightarrow> (unit, StateError) outcome \<times> ('p, 't, 'v) StateStore" where
  "unregister_plugin_type_id st p =
     (let rg = ss_registry st
      in case map_of (rg_plugins rg) p of
           None \<Rightarrow> (Err (PluginNotInstalled ''unknown''), st)
         | Some owned \<Rightarrow>
             (Ok (), st\<lparr>ss_registry := foldl drop_key (rg\<lparr>rg_plugins := AList.delete p (rg_plugins rg)\<rparr>) owned\<rparr>))"

text \<open>\<open>type_name\<close> is what the compiler calls the plugin's type.\<close>

definition uninstall_plugin ::
  "('t \<Rightarrow> ('v, 'u) StateKey) \<Rightarrow> ('p, 't, 'v) StateStore \<Rightarrow> 'p \<Rightarrow> string \<Rightarrow>
   (unit, StateError) outcome \<times> ('p, 't, 'v) StateStore" where
  "uninstall_plugin K st p type_name =
     (let rg = ss_registry st
      in case map_of (rg_plugins rg) p of
           None \<Rightarrow> (Err (PluginNotInstalled type_name), st)
         | Some owned \<Rightarrow>
             (let regs = List.map_filter (map_of (rg_keys_by_type rg)) owned;
                  patch = foldl (\<lambda>b reg. if op_retain_on_uninstall (kr_options reg) then b
                      else clear_extension_with b (kr_key reg) (kr_type_id reg))
                    (with_base_revision batch_new (ss_revision st)) regs
              in case commit K st patch of
                   (Ok _, _, st') \<Rightarrow> unregister_plugin_type_id st' p
                 | (Err e, _, st') \<Rightarrow> (Err e, st')
                 | (Panic m, _, st') \<Rightarrow> (Panic m, st')))"

section \<open>Persistence\<close>

record PersistedState =
  ps_revision :: u64
  ps_extensions :: "(string, json) hash_map"

datatype UnknownKeyPolicy = Unknown_Error | Unknown_Skip

fun encode_error :: "string \<Rightarrow> StateError \<Rightarrow> StateError" where
  "encode_error _ (KeyEncode key m) = KeyEncode key m"
| "encode_error reg_key other = KeyEncode reg_key (show_StateError other)"

fun decode_error :: "string \<Rightarrow> StateError \<Rightarrow> StateError" where
  "decode_error _ (KeyDecode key m) = KeyDecode key m"
| "decode_error reg_key other = KeyDecode reg_key (show_StateError other)"

fun export_loop ::
  "('t \<Rightarrow> ('v, 'u) StateKey) \<Rightarrow> (KeyScope \<Rightarrow> bool) \<Rightarrow> ('t, 'v) StateMap \<Rightarrow> 't KeyRegistration list \<Rightarrow>
   (string, json) hash_map \<Rightarrow> ((string, json) hash_map, StateError) outcome" where
  "export_loop K include m [] extensions = Ok extensions"
| "export_loop K include m (reg # regs) extensions =
     (if \<not> op_persistent (kr_options reg) \<or> \<not> include (kr_scope reg) then export_loop K include m regs extensions
      else (case reg_export K reg m of
          Ok (Some js) \<Rightarrow> export_loop K include m regs (AList.update (kr_key reg) js extensions)
        | Ok None \<Rightarrow> export_loop K include m regs extensions
        | Err e \<Rightarrow> Err (encode_error (kr_key reg) e)
        | Panic p \<Rightarrow> Panic p))"

definition export_filtered ::
  "('t \<Rightarrow> ('v, 'u) StateKey) \<Rightarrow> ('p, 't, 'v) StateStore \<Rightarrow> (KeyScope \<Rightarrow> bool) \<Rightarrow> (PersistedState, StateError) outcome" where
  "export_filtered K st include =
     map_ok (\<lambda>extensions. \<lparr>ps_revision = ss_revision st, ps_extensions = extensions\<rparr>)
       (export_loop K include (ss_ext st) (hm_values (rg_keys_by_type (ss_registry st))) [])"

definition export_persisted where
  "export_persisted K st = export_filtered K st (\<lambda>_. True)"

definition export_thread_scoped where
  "export_thread_scoped K st = export_filtered K st (\<lambda>scope. scope = Key_Thread)"

definition export_run_scoped where
  "export_run_scoped K st = export_filtered K st (\<lambda>scope. scope \<noteq> Key_Thread)"

text \<open>
  The import loops: the result and the map at the point where the loop stopped. \<open>keep\<close> is the scope
  filter of \<open>restore_thread_scoped\<close>.
\<close>

fun import_loop ::
  "('t \<Rightarrow> ('v, 'u) StateKey) \<Rightarrow> ('p, 't) PluginRegistry \<Rightarrow> UnknownKeyPolicy \<Rightarrow> (KeyScope \<Rightarrow> bool) \<Rightarrow>
   ('t, 'v) StateMap \<Rightarrow> (string \<times> json) list \<Rightarrow> (unit, StateError) outcome \<times> ('t, 'v) StateMap" where
  "import_loop K rg policy keep m [] = (Ok (), m)"
| "import_loop K rg policy keep m ((key, js) # rest) =
     (case map_of (rg_keys_by_name rg) key of
        None \<Rightarrow>
          (case policy of
             Unknown_Error \<Rightarrow> (Err (UnknownKey key), m)
           | Unknown_Skip \<Rightarrow> import_loop K rg policy keep m rest)
      | Some reg \<Rightarrow>
          if \<not> keep (kr_scope reg) then import_loop K rg policy keep m rest
          else (case reg_import K reg m js of
              Ok m' \<Rightarrow> import_loop K rg policy keep m' rest
            | Err e \<Rightarrow> (Err (decode_error (kr_key reg) e), m)
            | Panic p \<Rightarrow> (Panic p, m)))"

definition restore_persisted ::
  "('t \<Rightarrow> ('v, 'u) StateKey) \<Rightarrow> ('p, 't, 'v) StateStore \<Rightarrow> PersistedState \<Rightarrow> UnknownKeyPolicy \<Rightarrow>
   (unit, StateError) outcome \<times> ('p, 't, 'v) StateStore" where
  "restore_persisted K st persisted policy =
     (case import_loop K (ss_registry st) policy (\<lambda>_. True) Map.empty (ps_extensions persisted) of
        (Ok _, m) \<Rightarrow> (Ok (), st\<lparr>ss_ext := m, ss_revision := ps_revision persisted\<rparr>)
      | (r, _) \<Rightarrow> (r, st))"

definition restore_thread_scoped ::
  "('t \<Rightarrow> ('v, 'u) StateKey) \<Rightarrow> ('p, 't, 'v) StateStore \<Rightarrow> PersistedState \<Rightarrow> UnknownKeyPolicy \<Rightarrow>
   (unit, StateError) outcome \<times> ('p, 't, 'v) StateStore" where
  "restore_thread_scoped K st persisted policy =
     (case import_loop K (ss_registry st) policy (\<lambda>scope. scope = Key_Thread) (ss_ext st) (ps_extensions persisted) of
        (r, m) \<Rightarrow> (r, st\<lparr>ss_ext := m\<rparr>))"

definition apply_seed ::
  "('t \<Rightarrow> ('v, 'u) StateKey) \<Rightarrow> ('p, 't, 'v) StateStore \<Rightarrow> PersistedState \<Rightarrow> UnknownKeyPolicy \<Rightarrow>
   (unit, StateError) outcome \<times> ('p, 't, 'v) StateStore" where
  "apply_seed K st persisted policy =
     (case import_loop K (ss_registry st) policy (\<lambda>_. True) (ss_ext st) (ps_extensions persisted) of
        (Ok _, m) \<Rightarrow> (Ok (), st\<lparr>ss_ext := m\<rparr>)
      | (r, _) \<Rightarrow> (r, st))"

definition clear_run_scoped :: "('p, 't, 'v) StateStore \<Rightarrow> ('p, 't, 'v) StateStore" where
  "clear_run_scoped st =
     st\<lparr>ss_ext := foldl (\<lambda>m reg. if kr_scope reg = Key_Run then reg_clear reg m else m) (ss_ext st)
       (hm_values (rg_keys_by_type (ss_registry st)))\<rparr>"

end
