(* ===== verification/State_Laws.thy ===== *)
theory State_Laws
  imports State_Store
begin

text \<open>
  The laws of the state store: commits are atomic and fenced by the revision, batches of parallel
  calls merge in any order where their updates commute, the registry stays consistent, and persisted
  state comes back.
\<close>

section \<open>Steps that commute\<close>

locale commuting_steps =
  fixes step :: "'s \<Rightarrow> 'op \<Rightarrow> 's"
    and independent :: "'op \<Rightarrow> 'op \<Rightarrow> bool"
  assumes commute: "independent x y \<Longrightarrow> step (step s x) y = step (step s y) x"
begin

lemma past_one: "\<forall>y \<in> set ys. independent x y \<Longrightarrow> foldl step (step s x) ys = step (foldl step s ys) x"
proof (induction ys arbitrary: s)
  case (Cons y ys)
  then have "foldl step (step (step s x) y) ys = foldl step (step (step s y) x) ys"
    using commute [of x y s] by simp
  with Cons show ?case by simp
qed simp

lemma past_all:
  "\<forall>x \<in> set xs. \<forall>y \<in> set ys. independent x y \<Longrightarrow>
   foldl step (foldl step s xs) ys = foldl step (foldl step s ys) xs"
proof (induction xs arbitrary: s)
  case (Cons x xs)
  then have "foldl step (foldl step (step s x) xs) ys = foldl step (foldl step (step s x) ys) xs" by simp
  also have "foldl step (step s x) ys = step (foldl step s ys) x" using Cons.prems by (intro past_one) simp
  finally show ?case by simp
qed simp

end

text \<open>Two operations on different keys, or two patches of one key whose updates commute on every value.\<close>

fun ops_independent ::
  "('t \<Rightarrow> ('v, 'u) StateKey) \<Rightarrow> ('t, 'u) MutationOp \<Rightarrow> ('t, 'u) MutationOp \<Rightarrow> bool" where
  "ops_independent K (KeyPatch t u) (KeyPatch t' u') \<longleftrightarrow>
     t \<noteq> t' \<or> (\<forall>v. sk_apply (K t) (sk_apply (K t) v u) u' = sk_apply (K t) (sk_apply (K t) v u') u)"
| "ops_independent K x y \<longleftrightarrow> op_type x \<noteq> op_type y"

interpretation state_ops: commuting_steps "op_apply K" "ops_independent K" for K
proof
  fix x y :: "('a, 'c) MutationOp" and m
  assume "ops_independent K x y"
  then show "op_apply K (op_apply K m x) y = op_apply K (op_apply K m y) x"
    by (cases x; cases y) (auto simp: fun_eq_iff get_or_insert_default_def split: option.splits)
qed

lemma other_key: "op_type x \<noteq> op_type y \<Longrightarrow> ops_independent K x y"
  by (cases x; cases y) simp_all

text \<open>Batches as the typed constructors build them: a key is noted for every operation.\<close>

definition batch_typed :: "('t \<Rightarrow> ('v, 'u) StateKey) \<Rightarrow> ('t, 'u) MutationBatch \<Rightarrow> bool" where
  "batch_typed K b \<longleftrightarrow> ba_touched_keys b = map (\<lambda>op. sk_key (K (op_type op))) (ba_ops b)"

lemma batch_typed_new [simp]: "batch_typed K batch_new"
  by (simp add: batch_typed_def batch_new_def)

lemma batch_typed_update: "batch_typed K b \<Longrightarrow> batch_typed K (batch_update K b t u)"
  by (simp add: batch_typed_def batch_update_def)

definition patches_commute ::
  "('t \<Rightarrow> ('v, 'u) StateKey) \<Rightarrow> ('t, 'u) MutationBatch \<Rightarrow> ('t, 'u) MutationBatch \<Rightarrow> bool" where
  "patches_commute K b c \<longleftrightarrow>
     (\<forall>x \<in> set (ba_ops b). \<forall>y \<in> set (ba_ops c). op_type x = op_type y \<longrightarrow> ops_independent K x y)"

lemma merge_parallel_Ok:
  "merge_parallel b c strategy = Ok m \<longleftrightarrow>
   (\<exists>base. reconcile (ba_base_revision b) (ba_base_revision c) = Ok base \<and> m = append_batch b c base) \<and>
   (\<forall>key \<in> set (ba_touched_keys b) \<inter> set (ba_touched_keys c). strategy key = Commutative)"
proof -
  have "strategy key = Commutative \<longleftrightarrow> strategy key \<noteq> Exclusive" for key by (cases "strategy key") simp_all
  then show ?thesis
    by (fastforce simp: merge_parallel_def and_then_eq_Ok_iff find_None_iff split: option.splits)
qed

lemma merge_ops: "merge_parallel b c strategy = Ok m \<Longrightarrow> ba_ops m = ba_ops b @ ba_ops c"
  by (auto simp: merge_parallel_Ok append_batch_def)

text \<open>
  C36: Where the batches of two parallel calls merge, and the updates they make to the keys declared
  commutative do commute, the merge order makes no difference to the state: keys touched by only one
  of the batches need no assumption.
\<close>

theorem merge_order_irrelevant:
  assumes "merge_parallel b c strategy = Ok m" and "merge_parallel c b strategy = Ok m'"
    and "patches_commute K b c"
  shows "apply_ops K s (ba_ops m) = apply_ops K s (ba_ops m')"
proof -
  have "ops_independent K x y" if "x \<in> set (ba_ops b)" "y \<in> set (ba_ops c)" for x y
    using assms(3) that other_key unfolding patches_commute_def by blast
  then have "\<forall>x \<in> set (ba_ops b). \<forall>y \<in> set (ba_ops c). ops_independent K x y" by blast
  from state_ops.past_all [OF this, of s] show ?thesis
    by (simp add: apply_ops_def merge_ops [OF assms(1)] merge_ops [OF assms(2)])
qed

text \<open>Two counters, the first declared commutative.\<close>

definition counter_key :: "bool \<Rightarrow> (nat, nat) StateKey" where
  "counter_key b = \<lparr>sk_key = (if b then ''hits'' else ''label''), sk_merge = (if b then Commutative else Exclusive),
     sk_apply = (if b then (+) else (\<lambda>_ n. n)), sk_default = 0, sk_encode = (\<lambda>n. Ok (JArray (replicate n JNull))),
     sk_decode = (\<lambda>js. case js of JArray xs \<Rightarrow> Ok (length xs) | _ \<Rightarrow> Err (KeyDecode ''count'' ''not an array''))\<rparr>"

definition hits_batch :: "nat \<Rightarrow> (bool, nat) MutationBatch" where
  "hits_batch n = batch_update counter_key batch_new True n"

theorem merge_order_irrelevant_witness:
  "apply_ops counter_key Map.empty (ba_ops (append_batch (hits_batch 2) (batch_update counter_key (hits_batch 5) False 7) None)) =
   apply_ops counter_key Map.empty (ba_ops (append_batch (batch_update counter_key (hits_batch 5) False 7) (hits_batch 2) None))"
proof (rule merge_order_irrelevant)
  let ?b = "hits_batch 2" and ?c = "batch_update counter_key (hits_batch 5) False 7"
  let ?strategy = "\<lambda>key. if key = ''hits'' then Commutative else Exclusive"
  show "merge_parallel ?b ?c ?strategy = Ok (append_batch ?b ?c None)"
    and "merge_parallel ?c ?b ?strategy = Ok (append_batch ?c ?b None)" by code_simp+
  show "patches_commute counter_key ?b ?c"
    by (simp add: patches_commute_def hits_batch_def batch_update_def batch_new_def counter_key_def)
qed

lemma command_merge_Ok:
  "command_merge_parallel c d strategy = Ok e \<Longrightarrow>
   merge_parallel (cm_patch c) (cm_patch d) strategy = Ok (cm_patch e)"
  by (auto simp: command_merge_parallel_def map_ok_eq_Ok_iff)

lemma merge_keys:
  "merge_parallel b c strategy = Ok m \<Longrightarrow> ba_touched_keys m = ba_touched_keys b @ ba_touched_keys c"
  by (auto simp: merge_parallel_Ok append_batch_def)

lemma merge_all_from_Ok:
  "merge_all_from acc cs strategy = Ok m \<Longrightarrow>
   ba_ops (cm_patch m) = ba_ops (cm_patch acc) @ concat (map (\<lambda>c. ba_ops (cm_patch c)) cs) \<and>
   (\<forall>key. strategy key = Exclusive \<longrightarrow>
      length (filter (\<lambda>c. key \<in> set (ba_touched_keys (cm_patch c))) (acc # cs)) \<le> 1)"
proof (induction cs arbitrary: acc)
  case (Cons c cs)
  obtain acc' where acc': "command_merge_parallel acc c strategy = Ok acc'" "merge_all_from acc' cs strategy = Ok m"
    using Cons.prems by (auto simp: and_then_eq_Ok_iff)
  note merged = command_merge_Ok [OF acc'(1)]
  note ih = Cons.IH [OF acc'(2)]
  have "length (filter (\<lambda>c. key \<in> set (ba_touched_keys (cm_patch c))) (acc # c # cs)) \<le> 1"
    if "strategy key = Exclusive" for key
  proof -
    have "key \<in> set (ba_touched_keys (cm_patch acc')) \<longleftrightarrow>
        key \<in> set (ba_touched_keys (cm_patch acc)) \<or> key \<in> set (ba_touched_keys (cm_patch c))"
      using merge_keys [OF merged] by simp
    moreover have "\<not> (key \<in> set (ba_touched_keys (cm_patch acc)) \<and> key \<in> set (ba_touched_keys (cm_patch c)))"
      using merged that by (auto simp: merge_parallel_Ok)
    moreover have "length (filter (\<lambda>c. key \<in> set (ba_touched_keys (cm_patch c))) (acc' # cs)) \<le> 1"
      using ih that by blast
    ultimately show ?thesis by auto
  qed
  with ih merge_ops [OF merged] show ?case by simp
qed simp

text \<open>
  Merging the commands of a step concatenates their operations in order, and succeeds only if no
  exclusive key is touched by two of them.
\<close>

theorem parallel_commands_merge:
  assumes "merge_all_commands st commands = Ok merged"
  shows "ba_ops (cm_patch merged) = concat (map (\<lambda>c. ba_ops (cm_patch c)) commands) \<and>
    list_all (\<lambda>key. registry_merge_strategy (ss_registry st) key = Exclusive \<longrightarrow>
        length (filter (\<lambda>c. key \<in> set (ba_touched_keys (cm_patch c))) commands) \<le> 1)
      (concat (map (\<lambda>c. ba_touched_keys (cm_patch c)) commands))"
  using merge_all_from_Ok [OF assms [unfolded merge_all_commands_def]]
  by (simp add: command_new_def batch_new_def list_all_iff)

section \<open>Commits\<close>

text \<open>A commit that does something, in sequence.\<close>

fun commit_all ::
  "('t \<Rightarrow> ('v, 'u) StateKey) \<Rightarrow> ('p, 't, 'v) StateStore \<Rightarrow> ('t, 'u) MutationBatch list \<Rightarrow> ('p, 't, 'v) StateStore option" where
  "commit_all K st [] = Some st"
| "commit_all K st (b # bs) =
     (case commit K st b of
        (Ok _, Some _, st') \<Rightarrow> commit_all K st' bs
      | _ \<Rightarrow> None)"

lemma commit_applied:
  "commit K st b = (r, Some e, st') \<Longrightarrow>
   st' = st\<lparr>ss_ext := apply_ops K (ss_ext st) (ba_ops b), ss_revision := ss_revision st + 1\<rparr>"
  by (auto simp: commit_def commit_checked_def Let_def split: if_splits option.splits)

lemma commit_all_revision:
  "commit_all K st bs = Some st' \<Longrightarrow> ss_revision st' = ss_revision st + of_nat (length bs)"
proof (induction bs arbitrary: st)
  case (Cons b bs)
  obtain r event st1 where c: "commit K st b = (r, event, st1)" by (cases "commit K st b")
  with Cons.prems obtain e where e: "event = Some e" and rest: "commit_all K st1 bs = Some st'"
    by (cases r; cases event) simp_all
  from Cons.IH [OF rest] commit_applied [OF c [unfolded e]] show ?case by (simp add: add.assoc)
qed simp

text \<open>
  C8: A batch based on a revision is rejected, and changes nothing, once at least one and fewer than
  \<open>2 ^ 64\<close> commits have taken effect since: no commit is lost to a stale writer.
\<close>

theorem stale_batch_rejected:
  assumes "commit_all K st batches = Some st'" and "batches \<noteq> []" and "length batches < 2 ^ 64"
    and "ba_base_revision stale = Some (ss_revision st)" and "ba_ops stale \<noteq> []"
  shows "commit K st' stale = (Err (RevisionConflict (ss_revision st) (ss_revision st')), None, st')"
proof -
  have "(of_nat (length batches) :: u64) \<noteq> 0"
    using assms(2,3) by (simp add: word_of_nat_eq_0_iff) (metis dvd_imp_le length_greater_0_conv not_less)
  then have "ss_revision st' \<noteq> ss_revision st" using commit_all_revision [OF assms(1)] by simp
  with assms(4,5) show ?thesis by (simp add: commit_def)
qed

text \<open>
  A commit is all or nothing: either it applies every operation in order and moves the revision by
  one, or it leaves the store as it was.
\<close>

theorem commit_atomic:
  "case commit K st b of (r, event, st') \<Rightarrow>
     (if is_ok r \<and> ba_ops b \<noteq> []
      then ss_ext st' = foldl (op_apply K) (ss_ext st) (ba_ops b) \<and> ss_revision st' = ss_revision st + 1
        \<and> r = Ok (ss_revision st') \<and> map_option ce_new_revision event = Some (ss_revision st')
      else st' = st \<and> event = None) \<and> ss_registry st' = ss_registry st"
  by (auto simp: commit_def commit_checked_def apply_ops_def Let_def split: option.splits)

definition counter_store :: "(nat, bool, nat) StateStore" where
  "counter_store = snd (install_plugin_with_keys StateStore_new 0 ''counters''
     [KeyRegistration_new counter_key True StateKeyOptions_default,
      KeyRegistration_new counter_key False (StateKeyOptions_default\<lparr>op_scope := Key_Thread\<rparr>)])"

theorem parallel_commands_merge_witness:
  "\<exists>merged :: (bool, nat, unit, unit) StateCommand. merge_all_commands counter_store
       [command_new\<lparr>cm_patch := hits_batch 1\<rparr>, command_new\<lparr>cm_patch := hits_batch 2\<rparr>] = Ok merged \<and>
     ba_ops (cm_patch merged) = [KeyPatch True 1, KeyPatch True 2]"
proof -
  let ?commands = "[command_new\<lparr>cm_patch := hits_batch 1\<rparr>, command_new\<lparr>cm_patch := hits_batch 2\<rparr>]
    :: (bool, nat, unit, unit) StateCommand list"
  let ?merged = "\<lparr>cm_patch = append_batch (hits_batch 1) (hits_batch 2) None, cm_scheduled_actions = [], cm_effects = []\<rparr>
    :: (bool, nat, unit, unit) StateCommand"
  have 1: "merge_all_commands counter_store ?commands = Ok ?merged" by code_simp
  from parallel_commands_merge [OF 1] have "ba_ops (cm_patch ?merged) = concat (map (\<lambda>c. ba_ops (cm_patch c)) ?commands)"
    by blast
  then have "ba_ops (cm_patch ?merged) = [KeyPatch True 1, KeyPatch True 2]"
    by (simp add: hits_batch_def batch_update_def batch_new_def command_new_def)
  with 1 show ?thesis by blast
qed

theorem stale_batch_rejected_witness:
  "\<exists>st'. commit_all counter_key counter_store [hits_batch 1] = Some st' \<and>
     commit counter_key st' (with_base_revision (hits_batch 9) 0) = (Err (RevisionConflict 0 1), None, st')"
proof -
  let ?st' = "counter_store\<lparr>ss_ext := [True \<mapsto> 1], ss_revision := 1\<rparr>"
  let ?stale = "with_base_revision (hits_batch 9) 0"
  have 1: "commit_all counter_key counter_store [hits_batch 1] = Some ?st'"
    by (simp add: commit_def commit_checked_def hits_batch_def batch_update_def batch_new_def counter_key_def
        ensure_key_def counter_store_def install_plugin_with_keys_def StateStore_new_def PluginRegistry_default_def
        KeyRegistration_new_def add_key_def Let_def apply_ops_def get_or_insert_default_def)
  have 2: "[hits_batch 1] \<noteq> []" "length [hits_batch 1] < 2 ^ 64" by simp_all
  have 3: "ba_base_revision ?stale = Some (ss_revision counter_store)" "ba_ops ?stale \<noteq> []"
    by (simp_all add: with_base_revision_def hits_batch_def batch_update_def batch_new_def counter_store_def
        install_plugin_with_keys_def StateStore_new_def PluginRegistry_default_def
        KeyRegistration_new_def counter_key_def Let_def)
  from stale_batch_rejected [OF 1 2 3] 3 1 show ?thesis
    by (intro exI [of _ ?st'] conjI) (simp_all add: with_base_revision_def)
qed

section \<open>The registry\<close>

definition registry_ok :: "('t \<Rightarrow> ('v, 'u) StateKey) \<Rightarrow> ('p, 't) PluginRegistry \<Rightarrow> bool" where
  "registry_ok K rg \<longleftrightarrow>
     hm_keys_distinct (rg_keys_by_name rg) \<and> hm_keys_distinct (rg_keys_by_type rg) \<and>
     list_all (\<lambda>(name, reg). kr_key reg = name \<and> map_of (rg_keys_by_type rg) (kr_type_id reg) = Some reg)
       (rg_keys_by_name rg) \<and>
     list_all (\<lambda>(t, reg). kr_type_id reg = t \<and> kr_key reg = sk_key (K t) \<and>
         map_of (rg_keys_by_name rg) (kr_key reg) = Some reg) (rg_keys_by_type rg)"

lemma registry_ok_iff:
  "registry_ok K rg \<longleftrightarrow>
     hm_keys_distinct (rg_keys_by_name rg) \<and> hm_keys_distinct (rg_keys_by_type rg) \<and>
     (\<forall>name reg. map_of (rg_keys_by_name rg) name = Some reg \<longrightarrow>
        kr_key reg = name \<and> map_of (rg_keys_by_type rg) (kr_type_id reg) = Some reg) \<and>
     (\<forall>t reg. map_of (rg_keys_by_type rg) t = Some reg \<longrightarrow>
        kr_type_id reg = t \<and> kr_key reg = sk_key (K t) \<and> map_of (rg_keys_by_name rg) (kr_key reg) = Some reg)"
  unfolding registry_ok_def
  by (cases "hm_keys_distinct (rg_keys_by_name rg) \<and> hm_keys_distinct (rg_keys_by_type rg)")
    (auto simp: list_all_hm_iff)

lemma registry_okD:
  assumes "registry_ok K rg"
  shows "map_of (rg_keys_by_name rg) name = Some reg \<Longrightarrow> kr_key reg = name"
    and "map_of (rg_keys_by_name rg) name = Some reg \<Longrightarrow> map_of (rg_keys_by_type rg) (kr_type_id reg) = Some reg"
    and "map_of (rg_keys_by_type rg) t = Some reg \<Longrightarrow> kr_type_id reg = t"
    and "map_of (rg_keys_by_type rg) t = Some reg \<Longrightarrow> kr_key reg = sk_key (K t)"
    and "map_of (rg_keys_by_type rg) t = Some reg \<Longrightarrow> map_of (rg_keys_by_name rg) (kr_key reg) = Some reg"
  using assms unfolding registry_ok_iff by blast+

definition reg_typed :: "('t \<Rightarrow> ('v, 'u) StateKey) \<Rightarrow> 't KeyRegistration \<Rightarrow> bool" where
  "reg_typed K reg \<longleftrightarrow> kr_key reg = sk_key (K (kr_type_id reg))"

lemma registry_ok_add:
  assumes ok: "registry_ok K rg" and new: "map_of (rg_keys_by_name rg) (kr_key reg) = None" and typed: "reg_typed K reg"
  shows "registry_ok K (add_key rg reg)"
proof -
  have "map_of (rg_keys_by_type rg) (kr_type_id reg) = None"
  proof (rule ccontr)
    assume "map_of (rg_keys_by_type rg) (kr_type_id reg) \<noteq> None"
    then obtain r where r: "map_of (rg_keys_by_type rg) (kr_type_id reg) = Some r" by blast
    from registry_okD(4,5) [OF ok r] typed new show False by (simp add: reg_typed_def)
  qed
  note fresh = this
  let ?rg = "add_key rg reg"
  have names: "map_of (rg_keys_by_name ?rg) n = (if n = kr_key reg then Some reg else map_of (rg_keys_by_name rg) n)"
    and types: "map_of (rg_keys_by_type ?rg) t = (if t = kr_type_id reg then Some reg else map_of (rg_keys_by_type rg) t)"
    for n t by (simp_all add: add_key_def)
  have "hm_keys_distinct (rg_keys_by_name ?rg) \<and> hm_keys_distinct (rg_keys_by_type ?rg)"
    using ok by (simp add: registry_ok_iff add_key_def distinct_update)
  moreover have "kr_key r = n \<and> map_of (rg_keys_by_type ?rg) (kr_type_id r) = Some r"
    if "map_of (rg_keys_by_name ?rg) n = Some r" for n r
  proof (cases "n = kr_key reg")
    case True
    with that have "r = reg" by (simp add: names)
    with True show ?thesis by (simp only: types simp_thms if_True)
  next
    case False
    with that have "map_of (rg_keys_by_name rg) n = Some r" by (simp add: names)
    from registry_okD(1,2) [OF ok this] fresh show ?thesis by (auto simp: types)
  qed
  moreover have "kr_type_id r = t \<and> kr_key r = sk_key (K t) \<and> map_of (rg_keys_by_name ?rg) (kr_key r) = Some r"
    if "map_of (rg_keys_by_type ?rg) t = Some r" for t r
  proof (cases "t = kr_type_id reg")
    case True
    with that have "r = reg" by (simp add: types)
    with True typed show ?thesis by (simp only: names reg_typed_def simp_thms if_True)
  next
    case False
    with that have "map_of (rg_keys_by_type rg) t = Some r" by (simp add: types)
    from registry_okD(3,4,5) [OF ok this] new show ?thesis by (auto simp: names)
  qed
  ultimately show ?thesis unfolding registry_ok_iff by blast
qed

lemma registry_ok_drop: "registry_ok K rg \<Longrightarrow> registry_ok K (drop_key rg t)"
proof (cases "map_of (rg_keys_by_type rg) t")
  case (Some reg)
  assume ok: "registry_ok K rg"
  let ?rg = "drop_key rg t"
  have names: "map_of (rg_keys_by_name ?rg) n = (if n = kr_key reg then None else map_of (rg_keys_by_name rg) n)"
    and types: "map_of (rg_keys_by_type ?rg) t' = (if t' = t then None else map_of (rg_keys_by_type rg) t')"
    for n t' by (simp_all add: drop_key_def Some map_of_delete_if)
  have reg: "kr_type_id reg = t" "map_of (rg_keys_by_name rg) (kr_key reg) = Some reg"
    using registry_okD(3,5) [OF ok Some] by simp_all
  have "hm_keys_distinct (rg_keys_by_name ?rg) \<and> hm_keys_distinct (rg_keys_by_type ?rg)"
    using ok by (simp add: registry_ok_iff drop_key_def Some distinct_delete)
  moreover have "kr_key r = n \<and> map_of (rg_keys_by_type ?rg) (kr_type_id r) = Some r"
    if "map_of (rg_keys_by_name ?rg) n = Some r" for n r
  proof -
    have n: "n \<noteq> kr_key reg" "map_of (rg_keys_by_name rg) n = Some r"
      using that by (simp_all add: names split: if_splits)
    have "kr_type_id r \<noteq> t"
    proof
      assume "kr_type_id r = t"
      then have "r = reg" using registry_okD(2) [OF ok n(2)] Some by (metis option.inject)
      then show False using registry_okD(1) [OF ok n(2)] n(1) by metis
    qed
    with registry_okD(1,2) [OF ok n(2)] show ?thesis by (simp only: types simp_thms if_False)
  qed
  moreover have "kr_type_id r = t' \<and> kr_key r = sk_key (K t') \<and> map_of (rg_keys_by_name ?rg) (kr_key r) = Some r"
    if "map_of (rg_keys_by_type ?rg) t' = Some r" for t' r
  proof -
    have t': "t' \<noteq> t" "map_of (rg_keys_by_type rg) t' = Some r"
      using that by (simp_all add: types split: if_splits)
    have "kr_key r \<noteq> kr_key reg"
    proof
      assume "kr_key r = kr_key reg"
      then have "r = reg" using registry_okD(5) [OF ok t'(2)] reg(2) by (metis option.inject)
      then show False using registry_okD(3) [OF ok t'(2)] reg(1) t'(1) by metis
    qed
    with registry_okD(3,4,5) [OF ok t'(2)] show ?thesis by (simp only: names simp_thms if_False)
  qed
  ultimately show ?thesis unfolding registry_ok_iff by blast
qed (simp add: drop_key_def)

lemma registry_ok_plugins [simp]: "registry_ok K (rg\<lparr>rg_plugins := ps\<rparr>) = registry_ok K rg"
  by (simp add: registry_ok_def)

lemma registry_ok_drops: "registry_ok K rg \<Longrightarrow> registry_ok K (foldl drop_key rg ts)"
  by (induction ts arbitrary: rg) (simp_all add: registry_ok_drop)

lemma names_after_add: "map_of (rg_keys_by_name (add_key rg reg)) name = None \<longleftrightarrow>
    map_of (rg_keys_by_name rg) name = None \<and> name \<noteq> kr_key reg"
  by (auto simp: add_key_def)

lemma registry_ok_adds:
  "registry_ok K rg \<Longrightarrow> list_all (reg_typed K) regs \<Longrightarrow> distinct (map kr_key regs) \<Longrightarrow>
   \<forall>reg \<in> set regs. map_of (rg_keys_by_name rg) (kr_key reg) = None \<Longrightarrow> registry_ok K (foldl add_key rg regs)"
proof (induction regs arbitrary: rg)
  case (Cons reg regs)
  have "registry_ok K (add_key rg reg)" using Cons.prems by (intro registry_ok_add) simp_all
  moreover have "map_of (rg_keys_by_name (add_key rg reg)) (kr_key r) = None" if "r \<in> set regs" for r
  proof -
    have "kr_key reg \<notin> kr_key ` set regs" using Cons.prems(3) by simp
    with that have "kr_key r \<noteq> kr_key reg" by (metis imageI)
    with Cons.prems(4) that show ?thesis unfolding names_after_add by simp
  qed
  ultimately show ?case using Cons by simp
qed simp

lemma registry_ok_register:
  "registry_ok K rg \<Longrightarrow> list_all (reg_typed K) regs \<Longrightarrow>
   registry_ok K (foldl (\<lambda>rg reg. if map_of (rg_keys_by_name rg) (kr_key reg) \<noteq> None then rg else add_key rg reg) rg regs)"
  by (induction regs arbitrary: rg) (auto simp: registry_ok_add)

text \<open>What a plugin registers: the registrar refuses a second key of the same type or name.\<close>

fun register_all ::
  "('t \<Rightarrow> ('v, 'u) StateKey) \<Rightarrow> 't KeyRegistrar \<Rightarrow> ('t \<times> StateKeyOptions) list \<Rightarrow> 't KeyRegistrar" where
  "register_all K g [] = g"
| "register_all K g ((t, options) # rest) = register_all K (snd (register_key K g t options)) rest"

definition registrar_ok :: "('t \<Rightarrow> ('v, 'u) StateKey) \<Rightarrow> 't KeyRegistrar \<Rightarrow> bool" where
  "registrar_ok K g \<longleftrightarrow> list_all (reg_typed K) (kg_keys g) \<and> distinct (map kr_key (kg_keys g)) \<and>
     kr_key ` set (kg_keys g) \<subseteq> kg_key_names g"

lemma registrar_ok_register: "registrar_ok K g \<Longrightarrow> registrar_ok K (snd (register_key K g t options))"
  by (auto simp: registrar_ok_def register_key_def Let_def reg_typed_def KeyRegistration_new_def)

lemma registrar_ok_all: "registrar_ok K g \<Longrightarrow> registrar_ok K (register_all K g declared)"
  by (induction K g declared rule: register_all.induct) (simp_all add: registrar_ok_register)

lemma registrar_ok_new: "registrar_ok K registrar_new"
  by (simp add: registrar_ok_def registrar_new_def)

text \<open>The calls on a store, with what plugins declare going through a registrar.\<close>

datatype ('p, 't, 'u) store_call =
    Call_commit "('t, 'u) MutationBatch"
  | Call_install 'p string "('t \<times> StateKeyOptions) list"
  | Call_register "('t \<times> StateKeyOptions) list"
  | Call_uninstall 'p string
  | Call_restore PersistedState UnknownKeyPolicy
  | Call_restore_thread PersistedState UnknownKeyPolicy
  | Call_seed PersistedState UnknownKeyPolicy
  | Call_clear_run

fun store_step ::
  "('t \<Rightarrow> ('v, 'u) StateKey) \<Rightarrow> ('p, 't, 'v) StateStore \<Rightarrow> ('p, 't, 'u) store_call \<Rightarrow> ('p, 't, 'v) StateStore" where
  "store_step K st (Call_commit b) = snd (snd (commit K st b))"
| "store_step K st (Call_install p name declared) =
     snd (install_plugin_with_keys st p name (kg_keys (register_all K registrar_new declared)))"
| "store_step K st (Call_register declared) = register_keys st (kg_keys (register_all K registrar_new declared))"
| "store_step K st (Call_uninstall p name) = snd (uninstall_plugin K st p name)"
| "store_step K st (Call_restore ps policy) = snd (restore_persisted K st ps policy)"
| "store_step K st (Call_restore_thread ps policy) = snd (restore_thread_scoped K st ps policy)"
| "store_step K st (Call_seed ps policy) = snd (apply_seed K st ps policy)"
| "store_step K st Call_clear_run = clear_run_scoped st"

lemma commit_registry: "ss_registry (snd (snd (commit K st b))) = ss_registry st"
  by (simp add: commit_def commit_checked_def Let_def split: option.splits)

lemma registry_ok_uninstall:
  assumes "registry_ok K (ss_registry st)"
  shows "registry_ok K (ss_registry (snd (uninstall_plugin K st p name)))"
proof -
  have step: "registry_ok K (ss_registry (snd (unregister_plugin_type_id st' p)))"
    if "registry_ok K (ss_registry st')" for st'
    using that by (simp add: unregister_plugin_type_id_def Let_def registry_ok_drops split: option.splits)
  show ?thesis
  proof (cases "map_of (rg_plugins (ss_registry st)) p")
    case (Some owned)
    then obtain b where b: "uninstall_plugin K st p name =
        (case commit K st b of
           (Ok _, _, st') \<Rightarrow> unregister_plugin_type_id st' p
         | (Err e, _, st') \<Rightarrow> (Err e, st')
         | (Panic m, _, st') \<Rightarrow> (Panic m, st'))"
      by (simp add: uninstall_plugin_def Let_def)
    obtain r e st' where c: "commit K st b = (r, e, st')" by (cases "commit K st b")
    with commit_registry [of K st b] assms have "registry_ok K (ss_registry st')" by simp
    with step [of st'] show ?thesis by (cases r) (simp_all add: b c)
  qed (simp add: uninstall_plugin_def Let_def assms)
qed

lemma registry_ok_step:
  assumes ok: "registry_ok K (ss_registry st)"
  shows "registry_ok K (ss_registry (store_step K st call))"
proof (cases call)
  case (Call_install p name declared)
  let ?g = "register_all K registrar_new declared"
  have g: "registrar_ok K ?g" by (intro registrar_ok_all registrar_ok_new)
  show ?thesis
    using ok g registry_ok_adds [OF ok, of "kg_keys ?g"] Call_install
    by (auto simp: install_plugin_with_keys_def Let_def find_None_iff registrar_ok_def split: option.splits)
next
  case (Call_register declared)
  have "registrar_ok K (register_all K registrar_new declared)" by (intro registrar_ok_all registrar_ok_new)
  then have "list_all (reg_typed K) (kg_keys (register_all K registrar_new declared))"
    by (simp add: registrar_ok_def)
  from registry_ok_register [OF ok this] Call_register show ?thesis by (simp add: register_keys_def)
qed (use ok in \<open>auto simp: commit_registry registry_ok_uninstall restore_persisted_def restore_thread_scoped_def
    apply_seed_def clear_run_scoped_def split: prod.splits outcome.splits\<close>)

text \<open>
  C35: Whatever plugins come and go and whatever is committed or restored, the two indexes of the registry
  describe the same keys: each registered type under the name its key has, each name once.
\<close>

theorem registry_stays_consistent:
  "registry_ok K (ss_registry (foldl (store_step K) StateStore_new calls))"
proof -
  have "registry_ok K (ss_registry st) \<Longrightarrow> registry_ok K (ss_registry (foldl (store_step K) st calls))" for st
    by (induction calls arbitrary: st) (simp_all add: registry_ok_step)
  then show ?thesis by (simp add: StateStore_new_def PluginRegistry_default_def registry_ok_def)
qed

end
