(* ===== verification/State_Persistence.thy ===== *)
theory State_Persistence
  imports State_Laws
begin

text \<open>
  Persisted state comes back: what the export loop writes, what the import loops read, and how the
  scopes divide the state at the boundary between two runs.
\<close>

section \<open>Export\<close>

definition eligible :: "(KeyScope \<Rightarrow> bool) \<Rightarrow> 't KeyRegistration \<Rightarrow> bool" where
  "eligible include reg \<longleftrightarrow> op_persistent (kr_options reg) \<and> include (kr_scope reg)"

text \<open>The entry a registration contributes.\<close>

definition contributes ::
  "('t \<Rightarrow> ('v, 'u) StateKey) \<Rightarrow> (KeyScope \<Rightarrow> bool) \<Rightarrow> ('t, 'v) StateMap \<Rightarrow> 't KeyRegistration \<Rightarrow> string \<Rightarrow> json \<Rightarrow> bool" where
  "contributes K include m reg key js \<longleftrightarrow>
     eligible include reg \<and> kr_key reg = key \<and> reg_export K reg m = Ok (Some js)"

lemma export_loop_spec:
  "export_loop K include m regs exts = Ok exts' \<Longrightarrow> distinct (map kr_key regs) \<Longrightarrow> hm_keys_distinct exts \<Longrightarrow>
   \<forall>reg \<in> set regs. map_of exts (kr_key reg) = None \<Longrightarrow>
   hm_keys_distinct exts' \<and>
   (\<forall>key js. map_of exts' key = Some js \<longleftrightarrow>
      map_of exts key = Some js \<or> (\<exists>reg \<in> set regs. contributes K include m reg key js)) \<and>
   (\<forall>reg \<in> set regs. eligible include reg \<longrightarrow> is_ok (reg_export K reg m))"
proof (induction regs arbitrary: exts)
  case (Cons reg regs)
  note d = Cons.prems(2)
  have other: "kr_key r \<noteq> kr_key reg" if "r \<in> set regs" for r
  proof -
    have "kr_key reg \<notin> kr_key ` set regs" using d by simp
    with that show ?thesis by (metis imageI)
  qed
  show ?case
  proof (cases "eligible include reg")
    case False
    then have no: "\<not> contributes K include m reg key js" for key js by (simp add: contributes_def)
    have rec: "export_loop K include m regs exts = Ok exts'"
      using Cons.prems(1) False by (simp add: eligible_def split: if_splits)
    have "distinct (map kr_key regs)" "\<forall>reg \<in> set regs. map_of exts (kr_key reg) = None"
      using d Cons.prems(4) by simp_all
    from Cons.IH [OF rec this(1) Cons.prems(3) this(2)] no False show ?thesis by simp
  next
    case True
    then have go: "\<not> (\<not> op_persistent (kr_options reg) \<or> \<not> include (kr_scope reg))" by (simp add: eligible_def)
    have ds: "distinct (map kr_key regs)" using d by simp
    show ?thesis
    proof (cases "reg_export K reg m")
      case (Ok oj)
      show ?thesis
      proof (cases oj)
        case None
        then have no: "\<not> contributes K include m reg key js" for key js by (simp add: contributes_def Ok)
        have rec: "export_loop K include m regs exts = Ok exts'"
          using Cons.prems(1) go Ok None by simp
        have "\<forall>reg \<in> set regs. map_of exts (kr_key reg) = None" using Cons.prems(4) by simp
        from Cons.IH [OF rec ds Cons.prems(3) this] no Ok show ?thesis by simp
      next
        case (Some js0)
        then have yes: "contributes K include m reg key js \<longleftrightarrow> key = kr_key reg \<and> js = js0" for key js
          using True Ok by (auto simp: contributes_def)
        let ?exts = "AList.update (kr_key reg) js0 exts"
        have rec: "export_loop K include m regs ?exts = Ok exts'"
          using Cons.prems(1) go Ok Some by simp
        have dist: "hm_keys_distinct ?exts" using Cons.prems(3) by (simp add: distinct_update)
        have fresh: "\<forall>r \<in> set regs. map_of ?exts (kr_key r) = None"
          using Cons.prems(4) other by simp
        have new: "map_of exts (kr_key reg) = None" using Cons.prems(4) by simp
        from Cons.IH [OF rec ds dist fresh] yes Ok new show ?thesis by auto
      qed
    qed (use Cons.prems(1) go in simp_all)
  qed
qed simp

text \<open>What is exported, by type: the encoded values of the eligible keys.\<close>

lemma export_filtered_spec:
  assumes ok: "registry_ok K (ss_registry st)" and ex: "export_filtered K st include = Ok ps"
  shows "ps_revision ps = ss_revision st" and "hm_keys_distinct (ps_extensions ps)"
    and "map_of (ps_extensions ps) key = Some js \<longleftrightarrow>
      (\<exists>reg t v. map_of (rg_keys_by_type (ss_registry st)) t = Some reg \<and> eligible include reg \<and> kr_key reg = key \<and>
         ss_ext st t = Some v \<and> sk_encode (K t) v = Ok js)"
    and "map_of (rg_keys_by_type (ss_registry st)) t = Some reg \<Longrightarrow> eligible include reg \<Longrightarrow>
      ss_ext st t = Some v \<Longrightarrow> is_ok (sk_encode (K t) v)"
proof -
  let ?regs = "hm_values (rg_keys_by_type (ss_registry st))"
  obtain exts where e: "export_loop K include (ss_ext st) ?regs [] = Ok exts"
    and ps: "ps = \<lparr>ps_revision = ss_revision st, ps_extensions = exts\<rparr>"
    using ex by (auto simp: export_filtered_def map_ok_eq_Ok_iff)
  have dk: "hm_keys_distinct (rg_keys_by_type (ss_registry st))" using ok by (simp add: registry_ok_def)
  have mem: "r \<in> set ?regs \<longleftrightarrow> (\<exists>t. map_of (rg_keys_by_type (ss_registry st)) t = Some r)" for r
    by (rule hm_values_iff [OF dk])
  have inj: "inj_on (kr_key \<circ> snd) (set (rg_keys_by_type (ss_registry st)))"
  proof (rule inj_onI)
    fix x y
    assume x: "x \<in> set (rg_keys_by_type (ss_registry st))" and y: "y \<in> set (rg_keys_by_type (ss_registry st))"
      and eq: "(kr_key \<circ> snd) x = (kr_key \<circ> snd) y"
    have mx: "map_of (rg_keys_by_type (ss_registry st)) (fst x) = Some (snd x)"
      and my: "map_of (rg_keys_by_type (ss_registry st)) (fst y) = Some (snd y)"
      using x y by (simp_all add: hm_mem_iff [OF dk, symmetric])
    from registry_okD(5) [OF ok mx] registry_okD(5) [OF ok my] eq have "snd x = snd y"
      by (metis comp_apply option.inject)
    with registry_okD(3) [OF ok mx] registry_okD(3) [OF ok my] show "x = y" by (metis prod.collapse)
  qed
  have "distinct (rg_keys_by_type (ss_registry st))" using dk by (simp add: distinct_map)
  with inj have "distinct (map kr_key ?regs)" by (simp add: distinct_map)
  from export_loop_spec [OF e this] have
    dist: "hm_keys_distinct exts" and
    got: "\<And>key js. map_of exts key = Some js \<longleftrightarrow> (\<exists>reg \<in> set ?regs. contributes K include (ss_ext st) reg key js)" and
    okk: "\<And>reg. reg \<in> set ?regs \<Longrightarrow> eligible include reg \<Longrightarrow> is_ok (reg_export K reg (ss_ext st))"
    by auto
  have exp: "reg_export K r (ss_ext st) = Ok (Some js) \<longleftrightarrow> (\<exists>v. ss_ext st t = Some v \<and> sk_encode (K t) v = Ok js)"
    if "map_of (rg_keys_by_type (ss_registry st)) t = Some r" for t r js
    using registry_okD(3) [OF ok that] by (auto simp: reg_export_def map_ok_eq_Ok_iff split: option.splits)
  show "ps_revision ps = ss_revision st" "hm_keys_distinct (ps_extensions ps)" using ps dist by simp_all
  show "map_of (ps_extensions ps) key = Some js \<longleftrightarrow>
      (\<exists>reg t v. map_of (rg_keys_by_type (ss_registry st)) t = Some reg \<and> eligible include reg \<and> kr_key reg = key \<and>
         ss_ext st t = Some v \<and> sk_encode (K t) v = Ok js)"
    unfolding ps PersistedState.simps got contributes_def Bex_def mem using exp by blast
  assume t: "map_of (rg_keys_by_type (ss_registry st)) t = Some reg" "eligible include reg" "ss_ext st t = Some v"
  then have "is_ok (reg_export K reg (ss_ext st))" using okk mem by blast
  with t registry_okD(3) [OF ok t(1)] show "is_ok (sk_encode (K t) v)"
    by (cases "sk_encode (K t) v") (simp_all add: reg_export_def)
qed

section \<open>Import\<close>

definition importable ::
  "('t \<Rightarrow> ('v, 'u) StateKey) \<Rightarrow> ('p, 't) PluginRegistry \<Rightarrow> (string \<times> json) list \<Rightarrow> bool" where
  "importable K rg exts \<longleftrightarrow> list_all (\<lambda>(key, js).
     case map_of (rg_keys_by_name rg) key of
       Some reg \<Rightarrow> is_ok (sk_decode (K (kr_type_id reg)) js)
     | None \<Rightarrow> False) exts"

definition imported ::
  "('t \<Rightarrow> ('v, 'u) StateKey) \<Rightarrow> ('p, 't) PluginRegistry \<Rightarrow> (KeyScope \<Rightarrow> bool) \<Rightarrow> (string \<times> json) list \<Rightarrow>
   ('t, 'v) StateMap \<Rightarrow> 't \<Rightarrow> 'v option" where
  "imported K rg keep exts m t =
     (case map_of (rg_keys_by_type rg) t of
        Some reg \<Rightarrow>
          if keep (kr_scope reg) then
            (case map_of exts (kr_key reg) of
               Some js \<Rightarrow> (case sk_decode (K t) js of Ok v \<Rightarrow> Some v | _ \<Rightarrow> m t)
             | None \<Rightarrow> m t)
          else m t
      | None \<Rightarrow> m t)"

lemma imported_here:
  "map_of (rg_keys_by_type rg) t = Some reg \<Longrightarrow> kr_key reg = key \<Longrightarrow>
   imported K rg keep ((key, js) # exts) m t =
     (if keep (kr_scope reg) then (case sk_decode (K t) js of Ok v \<Rightarrow> Some v | _ \<Rightarrow> m t) else m t)"
  by (simp add: imported_def)

lemma imported_elsewhere:
  "(\<And>r. map_of (rg_keys_by_type rg) t = Some r \<Longrightarrow> kr_key r \<noteq> key) \<Longrightarrow>
   imported K rg keep ((key, js) # exts) m t = imported K rg keep exts m t"
  by (simp add: imported_def split: option.splits)

lemma imported_absent:
  "map_of (rg_keys_by_type rg) t = Some reg \<Longrightarrow> map_of exts (kr_key reg) = None \<Longrightarrow>
   imported K rg keep exts m t = m t"
  by (simp add: imported_def)

lemma imported_cong: "m t = m' t \<Longrightarrow> imported K rg keep exts m t = imported K rg keep exts m' t"
  by (simp add: imported_def split: option.splits outcome.splits)

lemma import_loop_spec:
  assumes ok: "registry_ok K rg"
  shows "importable K rg exts \<Longrightarrow> hm_keys_distinct exts \<Longrightarrow>
    \<exists>m'. import_loop K rg policy keep m exts = (Ok (), m') \<and> (\<forall>t. m' t = imported K rg keep exts m t)"
proof (induction exts arbitrary: m)
  case Nil
  then show ?case by (simp add: imported_def split: option.splits)
next
  case (Cons e exts)
  obtain key js where e: "e = (key, js)" by (cases e)
  obtain reg where reg: "map_of (rg_keys_by_name rg) key = Some reg"
    using Cons.prems(1) e by (auto simp: importable_def split: option.splits)
  obtain v where v: "sk_decode (K (kr_type_id reg)) js = Ok v"
    using Cons.prems(1) e reg by (cases "sk_decode (K (kr_type_id reg)) js") (auto simp: importable_def)
  have key: "kr_key reg = key" "map_of (rg_keys_by_type rg) (kr_type_id reg) = Some reg"
    using registry_okD(1,2) [OF ok reg] by simp_all
  have rest: "importable K rg exts" "hm_keys_distinct exts" and new: "map_of exts key = None"
    using Cons.prems e by (simp_all add: importable_def map_of_eq_None_iff)
  have other: "kr_key r \<noteq> key" if "map_of (rg_keys_by_type rg) t = Some r" "t \<noteq> kr_type_id reg" for t r
    using registry_okD(3,5) [OF ok that(1)] reg that(2) by auto
  show ?case
  proof (cases "keep (kr_scope reg)")
    case True
    let ?m = "m(kr_type_id reg \<mapsto> v)"
    obtain m' where m': "import_loop K rg policy keep ?m exts = (Ok (), m')"
      and spec: "\<forall>t. m' t = imported K rg keep exts ?m t"
      using Cons.IH [OF rest] by blast
    have "import_loop K rg policy keep m (e # exts) = (Ok (), m')"
      using m' True by (simp add: e reg reg_import_def v)
    moreover have "m' t = imported K rg keep (e # exts) m t" for t
    proof (cases "t = kr_type_id reg")
      case here: True
      have "imported K rg keep exts ?m t = Some v"
        using imported_absent [of rg t reg exts K keep ?m] key new here by simp
      moreover have "imported K rg keep (e # exts) m t = Some v"
        using imported_here [of rg t reg key K keep js exts m] key here True v by (simp add: e)
      ultimately show ?thesis using spec by simp
    next
      case False
      then have "imported K rg keep (e # exts) m t = imported K rg keep exts m t"
        unfolding e using other by (intro imported_elsewhere)
      also have "\<dots> = imported K rg keep exts ?m t" using False by (intro imported_cong) simp
      finally show ?thesis using spec by simp
    qed
    ultimately show ?thesis by blast
  next
    case False
    obtain m' where m': "import_loop K rg policy keep m exts = (Ok (), m')"
      and spec: "\<forall>t. m' t = imported K rg keep exts m t"
      using Cons.IH [OF rest] by blast
    have "import_loop K rg policy keep m (e # exts) = (Ok (), m')"
      using m' False by (simp add: e reg)
    moreover have "m' t = imported K rg keep (e # exts) m t" for t
    proof (cases "t = kr_type_id reg")
      case here: True
      have "imported K rg keep exts m t = m t"
        using imported_absent [of rg t reg exts K keep m] key new here by simp
      moreover have "imported K rg keep (e # exts) m t = m t"
        using imported_here [of rg t reg key K keep js exts m] key here False by (simp add: e)
      ultimately show ?thesis using spec by simp
    next
      case False
      then have "imported K rg keep (e # exts) m t = imported K rg keep exts m t"
        unfolding e using other by (intro imported_elsewhere)
      then show ?thesis using spec by simp
    qed
    ultimately show ?thesis by blast
  qed
qed

text \<open>The serde law: what a key encodes it decodes to the same value.\<close>

definition codec_ok :: "('t \<Rightarrow> ('v, 'u) StateKey) \<Rightarrow> bool" where
  "codec_ok K \<longleftrightarrow> (\<forall>t v js. sk_encode (K t) v = Ok js \<longrightarrow> sk_decode (K t) js = Ok v)"

lemma exported_importable:
  assumes "registry_ok K (ss_registry st)" and "export_filtered K st include = Ok ps" and "codec_ok K"
  shows "importable K (ss_registry st) (ps_extensions ps)"
proof -
  note ok = assms(1) and spec = export_filtered_spec [OF assms(1,2)]
  have "case map_of (rg_keys_by_name (ss_registry st)) key of
      Some reg \<Rightarrow> is_ok (sk_decode (K (kr_type_id reg)) js) | None \<Rightarrow> False"
    if entry: "map_of (ps_extensions ps) key = Some js" for key js
  proof -
    obtain reg t v where r: "map_of (rg_keys_by_type (ss_registry st)) t = Some reg" "kr_key reg = key"
        "sk_encode (K t) v = Ok js"
      using entry unfolding spec(3) by blast
    have "sk_decode (K t) js = Ok v" using r(3) assms(3) unfolding codec_ok_def by blast
    with r registry_okD(3,5) [OF ok r(1)] show ?thesis by simp
  qed
  then show ?thesis
    unfolding importable_def list_all_hm_iff [OF spec(2)] by blast
qed

lemma imported_exported:
  assumes ok: "registry_ok K (ss_registry st)" and ex: "export_filtered K st include = Ok ps" and codec: "codec_ok K"
  shows "imported K (ss_registry st) keep (ps_extensions ps) m t =
    (case map_of (rg_keys_by_type (ss_registry st)) t of
       Some reg \<Rightarrow> if keep (kr_scope reg) \<and> eligible include reg \<and> ss_ext st t \<noteq> None then ss_ext st t else m t
     | None \<Rightarrow> m t)"
proof (cases "map_of (rg_keys_by_type (ss_registry st)) t")
  case (Some reg)
  note spec = export_filtered_spec [OF ok ex]
  have same: "t' = t" if "map_of (rg_keys_by_type (ss_registry st)) t' = Some r" "kr_key r = kr_key reg" for t' r
  proof -
    have "r = reg" using registry_okD(5) [OF ok that(1)] registry_okD(5) [OF ok Some] that(2) by (metis option.inject)
    then show ?thesis using registry_okD(3) [OF ok that(1)] registry_okD(3) [OF ok Some] by metis
  qed
  have got: "map_of (ps_extensions ps) (kr_key reg) = Some js \<longleftrightarrow>
      eligible include reg \<and> (\<exists>v. ss_ext st t = Some v \<and> sk_encode (K t) v = Ok js)" for js
  proof
    assume "map_of (ps_extensions ps) (kr_key reg) = Some js"
    then obtain r t' v where r: "map_of (rg_keys_by_type (ss_registry st)) t' = Some r" "eligible include r"
        "kr_key r = kr_key reg" "ss_ext st t' = Some v" "sk_encode (K t') v = Ok js"
      unfolding spec(3) by blast
    have "t' = t" using same r(1,3) by blast
    moreover from this r(1) Some have "r = reg" by simp
    ultimately show "eligible include reg \<and> (\<exists>v. ss_ext st t = Some v \<and> sk_encode (K t) v = Ok js)"
      using r by blast
  next
    assume "eligible include reg \<and> (\<exists>v. ss_ext st t = Some v \<and> sk_encode (K t) v = Ok js)"
    with Some show "map_of (ps_extensions ps) (kr_key reg) = Some js" unfolding spec(3) by blast
  qed
  show ?thesis
  proof (cases "eligible include reg \<and> ss_ext st t \<noteq> None")
    case True
    then obtain v where v: "ss_ext st t = Some v" by blast
    have "is_ok (sk_encode (K t) v)" using spec(4) [OF Some] True v by blast
    then obtain js where js: "sk_encode (K t) v = Ok js" by (cases "sk_encode (K t) v") simp_all
    then have "sk_decode (K t) js = Ok v" using codec unfolding codec_ok_def by blast
    moreover have "map_of (ps_extensions ps) (kr_key reg) = Some js" using got True v js by blast
    ultimately show ?thesis using Some True v by (simp add: imported_def)
  next
    case False
    then have "map_of (ps_extensions ps) (kr_key reg) = None"
    proof (cases "map_of (ps_extensions ps) (kr_key reg)")
      case (Some js)
      with got [of js] False show ?thesis by blast
    qed
    with Some False show ?thesis by (auto simp: imported_def)
  qed
qed (simp add: imported_def)

section \<open>Theorems\<close>

text \<open>
  C13: Persisted state comes back: a store with the same registry that restores the export of another holds
  the revision of that store and exactly its persistent registered values, whatever it held before.
\<close>

theorem persisted_state_roundtrip:
  assumes "registry_ok K (ss_registry st)" and "codec_ok K" and "export_persisted K st = Ok ps"
    and "ss_registry st2 = ss_registry st"
  shows "restore_persisted K st2 ps policy =
    (Ok (), st2\<lparr>ss_revision := ss_revision st, ss_ext := (\<lambda>t. case map_of (rg_keys_by_type (ss_registry st)) t of
        Some reg \<Rightarrow> if op_persistent (kr_options reg) then ss_ext st t else None
      | None \<Rightarrow> None)\<rparr>)"
proof -
  note ex = assms(3) [unfolded export_persisted_def]
  note spec = export_filtered_spec [OF assms(1) ex]
  obtain m where m: "import_loop K (ss_registry st) policy (\<lambda>_. True) Map.empty (ps_extensions ps) = (Ok (), m)"
    and all: "\<forall>t. m t = imported K (ss_registry st) (\<lambda>_. True) (ps_extensions ps) Map.empty t"
    using import_loop_spec [OF assms(1) exported_importable [OF assms(1) ex assms(2)] spec(2)] by blast
  have "m = (\<lambda>t. case map_of (rg_keys_by_type (ss_registry st)) t of
        Some reg \<Rightarrow> if op_persistent (kr_options reg) then ss_ext st t else None
      | None \<Rightarrow> None)"
    using all by (auto simp: fun_eq_iff imported_exported [OF assms(1) ex assms(2)] eligible_def split: option.splits)
  with m spec(1) assms(4) show ?thesis by (simp add: restore_persisted_def)
qed

text \<open>
  C34: At the boundary between two runs on a thread: clearing the run-scoped keys and restoring the
  thread-scoped export of the previous store leaves every thread-scoped persistent value of that store
  in place, no run-scoped value, and touches nothing else.
\<close>

theorem thread_state_handover:
  assumes "registry_ok K (ss_registry st)" and "codec_ok K" and "export_thread_scoped K st = Ok ps"
    and "ss_registry st2 = ss_registry st"
  shows "\<exists>st3. restore_thread_scoped K (clear_run_scoped st2) ps policy = (Ok (), st3) \<and>
    ss_revision st3 = ss_revision st2 \<and>
    ss_ext st3 = (\<lambda>t. case map_of (rg_keys_by_type (ss_registry st)) t of
        None \<Rightarrow> ss_ext st2 t
      | Some reg \<Rightarrow>
          if kr_scope reg = Key_Run then None
          else if op_persistent (kr_options reg) \<and> ss_ext st t \<noteq> None then ss_ext st t else ss_ext st2 t)"
proof -
  note ex = assms(3) [unfolded export_thread_scoped_def]
  note spec = export_filtered_spec [OF assms(1) ex]
  let ?rg = "ss_registry st" and ?st = "clear_run_scoped st2"
  have cleared: "foldl (\<lambda>m reg. if kr_scope reg = Key_Run then reg_clear reg m else m) m regs t =
      (if \<exists>reg \<in> set regs. kr_scope reg = Key_Run \<and> kr_type_id reg = t then None else m t)" for m t
      and regs :: "'a KeyRegistration list"
    by (induction regs arbitrary: m) (auto simp: reg_clear_def)
  have dk: "hm_keys_distinct (rg_keys_by_type ?rg)" using assms(1) by (simp add: registry_ok_def)
  have run: "(\<exists>reg \<in> set (hm_values (rg_keys_by_type ?rg)). kr_scope reg = Key_Run \<and> kr_type_id reg = t) \<longleftrightarrow>
      (\<exists>reg. map_of (rg_keys_by_type ?rg) t = Some reg \<and> kr_scope reg = Key_Run)" for t
    unfolding Bex_def hm_values_iff [OF dk] using registry_okD(3) [OF assms(1)] by blast
  have clear: "ss_ext ?st t = (if \<exists>reg. map_of (rg_keys_by_type ?rg) t = Some reg \<and> kr_scope reg = Key_Run
      then None else ss_ext st2 t)" for t
  proof -
    have "ss_ext ?st t = foldl (\<lambda>m reg. if kr_scope reg = Key_Run then reg_clear reg m else m) (ss_ext st2)
        (hm_values (rg_keys_by_type ?rg)) t"
      by (simp add: clear_run_scoped_def assms(4))
    then show ?thesis unfolding cleared run .
  qed
  have reg: "ss_registry ?st = ?rg" by (simp add: clear_run_scoped_def assms(4))
  obtain m where m: "import_loop K ?rg policy (\<lambda>scope. scope = Key_Thread) (ss_ext ?st) (ps_extensions ps) = (Ok (), m)"
    and all: "\<forall>t. m t = imported K ?rg (\<lambda>scope. scope = Key_Thread) (ps_extensions ps) (ss_ext ?st) t"
    using import_loop_spec [OF assms(1) exported_importable [OF assms(1) ex assms(2)] spec(2)] by blast
  have scope: "s = Key_Thread \<longleftrightarrow> s \<noteq> Key_Run" for s by (cases s) simp_all
  have "m t = (case map_of (rg_keys_by_type ?rg) t of
        None \<Rightarrow> ss_ext st2 t
      | Some reg \<Rightarrow>
          if kr_scope reg = Key_Run then None
          else if op_persistent (kr_options reg) \<and> ss_ext st t \<noteq> None then ss_ext st t else ss_ext st2 t)" for t
    unfolding all [rule_format] imported_exported [OF assms(1) ex assms(2)]
    by (auto simp: clear eligible_def scope split: option.splits)
  with m show ?thesis
    by (intro exI [of _ "?st\<lparr>ss_ext := m\<rparr>"])
      (auto simp: restore_thread_scoped_def reg fun_eq_iff clear_run_scoped_def assms(4))
qed

text \<open>Two stores with the two counters of \<open>counter_key\<close>; the second key has thread scope.\<close>

definition finished_store :: "(nat, bool, nat) StateStore" where
  "finished_store = counter_store\<lparr>ss_ext := [True \<mapsto> 3, False \<mapsto> 2], ss_revision := 5\<rparr>"

definition next_store :: "(nat, bool, nat) StateStore" where
  "next_store = counter_store\<lparr>ss_ext := [True \<mapsto> 9], ss_revision := 1\<rparr>"

lemma codec_counter: "codec_ok counter_key"
  by (auto simp: codec_ok_def counter_key_def)

lemma registry_counter: "registry_ok counter_key (ss_registry finished_store)"
  by code_simp

theorem persisted_state_roundtrip_witness:
  "\<exists>ps. export_persisted counter_key finished_store = Ok ps \<and>
     ss_ext (snd (restore_persisted counter_key next_store ps Unknown_Error)) False = Some 2"
proof -
  let ?ps = "\<lparr>ps_revision = 5, ps_extensions = [(''hits'', JArray [JNull, JNull, JNull]), (''label'', JArray [JNull, JNull])]\<rparr>"
  have 1: "export_persisted counter_key finished_store = Ok ?ps" by code_simp
  have 2: "ss_registry next_store = ss_registry finished_store" by code_simp
  have "\<exists>reg. map_of (rg_keys_by_type (ss_registry finished_store)) False = Some reg \<and> op_persistent (kr_options reg)"
    by (rule exI [of _ "KeyRegistration_new counter_key False (StateKeyOptions_default\<lparr>op_scope := Key_Thread\<rparr>)"])
      code_simp
  with persisted_state_roundtrip [OF registry_counter codec_counter 1 2, of Unknown_Error]
  have "ss_ext (snd (restore_persisted counter_key next_store ?ps Unknown_Error)) False = Some 2"
    by (auto simp: finished_store_def)
  with 1 show ?thesis by blast
qed

theorem thread_state_handover_witness:
  "\<exists>ps st3. export_thread_scoped counter_key finished_store = Ok ps \<and>
     restore_thread_scoped counter_key (clear_run_scoped next_store) ps Unknown_Error = (Ok (), st3) \<and>
     ss_ext st3 True = None \<and> ss_ext st3 False = Some 2"
proof -
  let ?ps = "\<lparr>ps_revision = 5, ps_extensions = [(''label'', JArray [JNull, JNull])]\<rparr>"
  have 1: "export_thread_scoped counter_key finished_store = Ok ?ps" by code_simp
  have 2: "ss_registry next_store = ss_registry finished_store" by code_simp
  have run: "\<exists>reg. map_of (rg_keys_by_type (ss_registry finished_store)) True = Some reg \<and> kr_scope reg = Key_Run"
    by (rule exI [of _ "KeyRegistration_new counter_key True StateKeyOptions_default"]) code_simp
  have thread: "\<exists>reg. map_of (rg_keys_by_type (ss_registry finished_store)) False = Some reg \<and> kr_scope reg = Key_Thread \<and>
      op_persistent (kr_options reg)"
    by (rule exI [of _ "KeyRegistration_new counter_key False (StateKeyOptions_default\<lparr>op_scope := Key_Thread\<rparr>)"])
      code_simp
  from thread_state_handover [OF registry_counter codec_counter 1 2, of Unknown_Error] obtain st3 where
    3: "restore_thread_scoped counter_key (clear_run_scoped next_store) ?ps Unknown_Error = (Ok (), st3)" and
    4: "ss_ext st3 = (\<lambda>t. case map_of (rg_keys_by_type (ss_registry finished_store)) t of
        None \<Rightarrow> ss_ext next_store t
      | Some reg \<Rightarrow>
          if kr_scope reg = Key_Run then None
          else if op_persistent (kr_options reg) \<and> ss_ext finished_store t \<noteq> None then ss_ext finished_store t
          else ss_ext next_store t)" by blast
  from 4 run thread have "ss_ext st3 True = None" "ss_ext st3 False = Some 2"
    by (auto simp: finished_store_def)
  with 1 3 show ?thesis by blast
qed

section \<open>Where the store does less\<close>

text \<open>
  A restore of the thread scope that fails on one key has already written the keys before it, while
  the other two restores leave the store as it was.
\<close>

definition half_bad :: PersistedState where
  "half_bad = \<lparr>ps_revision = 1, ps_extensions = [(''label'', JArray [JNull]), (''gone'', JNull)]\<rparr>"

theorem failed_thread_restore_writes:
  "fst (restore_thread_scoped counter_key counter_store half_bad Unknown_Error) = Err (UnknownKey ''gone'') \<and>
   ss_ext (snd (restore_thread_scoped counter_key counter_store half_bad Unknown_Error)) False = Some 1 \<and>
   ss_ext counter_store False = None"
  by code_simp

text \<open>
  The validation of parallel batches counts how often a key is noted, not by how many calls: one call
  that updates an exclusive key twice conflicts with itself.
\<close>

theorem call_conflicts_with_itself:
  "validate_parallel_state_batches [\<lparr>tb_call_id = ''c1'', tb_touched_keys = [''label'', ''label'']\<rparr>] (\<lambda>_. Exclusive) =
   Err (ExclusiveConflict ''label'' ''c1'' ''c1'')"
  by code_simp

end
