(* ===== verification/Phase_Engine.thy ===== *)
theory Phase_Engine
  imports State_Laws
begin

text \<open>
  The phase engine: scheduled actions and their queue keys (\<^verbatim>\<open>awaken-runtime-contract/src/model/action.rs\<close>),
  the execution environment built from plugins (\<^verbatim>\<open>phase/env.rs\<close>), and the run of one phase
  (\<^verbatim>\<open>phase/engine.rs\<close>): hooks are gathered and committed, then scheduled actions are executed until none
  is left for the phase.

  Hooks and handlers are parameters. Each gets the snapshot it works on and a world \<open>'w\<close> that stands for
  whatever state hooks and handlers keep of their own, and leaves a new world. The engine holds its
  execution lock over a phase; commits other tasks make to the store during an await are left out. The
  id counter is an \<open>AtomicU64\<close> that would wrap after \<open>2 ^ 64\<close> allocations; ids are natural numbers here.
\<close>

section \<open>Scheduled actions and their queues\<close>

record ScheduledAction =
  sa_phase :: Phase
  sa_key :: string
  sa_payload :: json

record ScheduledActionEnvelope =
  se_id :: nat
  se_action :: ScheduledAction

record FailedScheduledAction =
  fa_id :: nat
  fa_action :: ScheduledAction
  fa_error :: string

record TypedEffect =
  te_key :: string
  te_payload :: json

datatype ScheduledActionQueueUpdate = Queue_Push ScheduledActionEnvelope | Queue_Remove nat

datatype FailedScheduledActionUpdate = Failed_Push FailedScheduledAction | Failed_Remove nat

fun PendingScheduledActions_apply ::
  "ScheduledActionEnvelope list \<Rightarrow> ScheduledActionQueueUpdate \<Rightarrow> ScheduledActionEnvelope list" where
  "PendingScheduledActions_apply value (Queue_Push entry) = value @ [entry]"
| "PendingScheduledActions_apply value (Queue_Remove i) = filter (\<lambda>entry. se_id entry \<noteq> i) value"

fun FailedScheduledActions_apply ::
  "FailedScheduledAction list \<Rightarrow> FailedScheduledActionUpdate \<Rightarrow> FailedScheduledAction list" where
  "FailedScheduledActions_apply value (Failed_Push entry) = value @ [entry]"
| "FailedScheduledActions_apply value (Failed_Remove i) = filter (\<lambda>entry. fa_id entry \<noteq> i) value"

text \<open>
  The two keys of the queue plugin beside the keys \<open>'k\<close> of all other plugins, with their values and
  updates. A value of one key never meets an update of another: the Rust types exclude it.
\<close>

datatype 'k runtime_key = PendingScheduledActions | FailedScheduledActions | OtherKey 'k

datatype 'v runtime_value =
    PendingValue "ScheduledActionEnvelope list"
  | FailedValue "FailedScheduledAction list"
  | OtherValue 'v

datatype 'u runtime_update =
    PendingUpdate ScheduledActionQueueUpdate
  | FailedUpdate FailedScheduledActionUpdate
  | OtherUpdate 'u

fun pending_apply :: "'v runtime_value \<Rightarrow> 'u runtime_update \<Rightarrow> 'v runtime_value" where
  "pending_apply (PendingValue q) (PendingUpdate u) = PendingValue (PendingScheduledActions_apply q u)"
| "pending_apply v _ = v"

fun failed_apply :: "'v runtime_value \<Rightarrow> 'u runtime_update \<Rightarrow> 'v runtime_value" where
  "failed_apply (FailedValue q) (FailedUpdate u) = FailedValue (FailedScheduledActions_apply q u)"
| "failed_apply v _ = v"

text \<open>What serde makes of the values of the two keys is the parameter \<open>codec\<close>.\<close>

type_synonym 'v codec = "('v runtime_value \<Rightarrow> (json, StateError) outcome) \<times> (json \<Rightarrow> ('v runtime_value, StateError) outcome)"

fun runtime_keys ::
  "('k runtime_key \<Rightarrow> 'v codec) \<Rightarrow> ('k \<Rightarrow> ('v runtime_value, 'u runtime_update) StateKey) \<Rightarrow>
   'k runtime_key \<Rightarrow> ('v runtime_value, 'u runtime_update) StateKey" where
  "runtime_keys codec K PendingScheduledActions =
     \<lparr>sk_key = ''__runtime.pending_scheduled_actions'', sk_merge = Exclusive, sk_apply = pending_apply,
      sk_default = PendingValue [], sk_encode = fst (codec PendingScheduledActions),
      sk_decode = snd (codec PendingScheduledActions)\<rparr>"
| "runtime_keys codec K FailedScheduledActions =
     \<lparr>sk_key = ''__runtime.failed_scheduled_actions'', sk_merge = Exclusive, sk_apply = failed_apply,
      sk_default = FailedValue [], sk_encode = fst (codec FailedScheduledActions),
      sk_decode = snd (codec FailedScheduledActions)\<rparr>"
| "runtime_keys codec K (OtherKey k) = K k"

type_synonym ('k, 'u) command = "('k runtime_key, 'u runtime_update, ScheduledAction, TypedEffect) StateCommand"

type_synonym ('k, 'v) snapshot = "u64 \<times> ('k runtime_key, 'v runtime_value) StateMap"

type_synonym ('k, 'v, 'u) keys = "'k runtime_key \<Rightarrow> ('v runtime_value, 'u runtime_update) StateKey"

section \<open>The execution environment\<close>

type_synonym ('k, 'v, 'u, 'w) phase_hook =
  "'w \<Rightarrow> ('k, 'v) snapshot \<Rightarrow> (('k, 'u) command, StateError) outcome \<times> 'w"

type_synonym ('k, 'v, 'u, 'w) action_handler =
  "'w \<Rightarrow> ('k, 'v) snapshot \<Rightarrow> json \<Rightarrow> (('k, 'u) command, StateError) outcome \<times> 'w"

type_synonym ('k, 'v, 'w) effect_handler = "'w \<Rightarrow> json \<Rightarrow> ('k, 'v) snapshot \<Rightarrow> bool \<times> 'w"

record ('k, 'v, 'u, 'w) TaggedPhaseHook =
  th_plugin_id :: string
  th_hook :: "('k, 'v, 'u, 'w) phase_hook"

text \<open>
  An environment is over tools \<open>'tool\<close>, gate hooks \<open>'gate\<close> and transforms \<open>'tr\<close>; the registrations of
  state keys are those of \<open>State_Store\<close>.
\<close>

record ('k, 'v, 'u, 'w, 'tool, 'gate, 'tr) ExecutionEnv =
  ev_phase_hooks :: "(Phase, ('k, 'v, 'u, 'w) TaggedPhaseHook list) hash_map"
  ev_tool_gate_hooks :: "(string \<times> 'gate) list"
  ev_scheduled_action_handlers :: "(string, ('k, 'v, 'u, 'w) action_handler) hash_map"
  ev_effect_handlers :: "(string, ('k, 'v, 'w) effect_handler) hash_map"
  ev_request_transforms :: "(string \<times> 'tr) list"
  ev_key_registrations :: "'k runtime_key KeyRegistration list"
  ev_tools :: "(string, 'tool) hash_map"

text \<open>What \<open>register\<close> leaves in a registrar, in the order of the calls, under the name of the plugin.\<close>

record ('k, 'v, 'u, 'w, 'tool, 'gate, 'tr) Registered =
  rd_name :: string
  rd_keys :: "'k runtime_key KeyRegistration list"
  rd_scheduled_actions :: "(string \<times> ('k, 'v, 'u, 'w) action_handler) list"
  rd_effects :: "(string \<times> ('k, 'v, 'w) effect_handler) list"
  rd_phase_hooks :: "(Phase \<times> ('k, 'v, 'u, 'w) TaggedPhaseHook) list"
  rd_tool_gate_hooks :: "(string \<times> 'gate) list"
  rd_request_transforms :: "(string \<times> 'tr) list"
  rd_tools :: "(string \<times> 'tool) list"

definition ExecutionEnv_empty :: "('k, 'v, 'u, 'w, 'tool, 'gate, 'tr) ExecutionEnv" where
  "ExecutionEnv_empty = \<lparr>ev_phase_hooks = [], ev_tool_gate_hooks = [], ev_scheduled_action_handlers = [],
     ev_effect_handlers = [], ev_request_transforms = [], ev_key_registrations = [], ev_tools = []\<rparr>"

text \<open>One of the loops that insert named entries and refuse a name already taken.\<close>

fun insert_all :: "(string \<Rightarrow> StateError) \<Rightarrow> (string, 'x) hash_map \<Rightarrow> (string \<times> 'x) list \<Rightarrow>
  ((string, 'x) hash_map, StateError) outcome" where
  "insert_all err m [] = Ok m"
| "insert_all err m ((k, x) # rest) =
     (if map_of m k \<noteq> None then Err (err k) else insert_all err (AList.update k x m) rest)"

definition push_hook ::
  "(Phase, ('k, 'v, 'u, 'w) TaggedPhaseHook list) hash_map \<Rightarrow> Phase \<times> ('k, 'v, 'u, 'w) TaggedPhaseHook \<Rightarrow>
   (Phase, ('k, 'v, 'u, 'w) TaggedPhaseHook list) hash_map" where
  "push_hook m e = AList.update (fst e)
     ((case map_of m (fst e) of Some hs \<Rightarrow> hs | None \<Rightarrow> []) @ [snd e]) m"

definition add_plugin ::
  "string set \<Rightarrow> ('k, 'v, 'u, 'w, 'tool, 'gate, 'tr) ExecutionEnv \<Rightarrow>
   ('k, 'v, 'u, 'w, 'tool, 'gate, 'tr) Registered \<Rightarrow>
   (('k, 'v, 'u, 'w, 'tool, 'gate, 'tr) ExecutionEnv, StateError) outcome" where
  "add_plugin active_filter env r =
     (let active = (active_filter = {} \<or> rd_name r \<in> active_filter)
      in and_then (insert_all ToolAlreadyRegistered (ev_tools env) (if active then rd_tools r else [])) (\<lambda>tools.
         and_then (insert_all HandlerAlreadyRegistered (ev_scheduled_action_handlers env) (rd_scheduled_actions r)) (\<lambda>handlers.
         and_then (insert_all EffectHandlerAlreadyRegistered (ev_effect_handlers env) (rd_effects r)) (\<lambda>effects.
           Ok \<lparr>ev_phase_hooks = (if active then foldl push_hook (ev_phase_hooks env) (rd_phase_hooks r) else ev_phase_hooks env),
               ev_tool_gate_hooks = ev_tool_gate_hooks env @ (if active then rd_tool_gate_hooks r else []),
               ev_scheduled_action_handlers = handlers, ev_effect_handlers = effects,
               ev_request_transforms = ev_request_transforms env @ (if active then rd_request_transforms r else []),
               ev_key_registrations = ev_key_registrations env @ rd_keys r, ev_tools = tools\<rparr>))))"

text \<open>A plugin is the outcome of its \<open>register\<close>.\<close>

fun from_plugins ::
  "string set \<Rightarrow> ('k, 'v, 'u, 'w, 'tool, 'gate, 'tr) ExecutionEnv \<Rightarrow>
   (('k, 'v, 'u, 'w, 'tool, 'gate, 'tr) Registered, StateError) outcome list \<Rightarrow>
   (('k, 'v, 'u, 'w, 'tool, 'gate, 'tr) ExecutionEnv, StateError) outcome" where
  "from_plugins active_filter env [] = Ok env"
| "from_plugins active_filter env (p # ps) =
     and_then p (\<lambda>r. and_then (add_plugin active_filter env r) (\<lambda>env'. from_plugins active_filter env' ps))"

definition hooks_for_phase ::
  "('k, 'v, 'u, 'w, 'tool, 'gate, 'tr) ExecutionEnv \<Rightarrow> Phase \<Rightarrow> ('k, 'v, 'u, 'w) TaggedPhaseHook list" where
  "hooks_for_phase env phase = (case map_of (ev_phase_hooks env) phase of Some hs \<Rightarrow> hs | None \<Rightarrow> [])"

section \<open>The runtime\<close>

record EffectDispatchReport =
  er_attempted :: nat
  er_dispatched :: nat
  er_failed :: nat

definition no_effects :: EffectDispatchReport where
  "no_effects = \<lparr>er_attempted = 0, er_dispatched = 0, er_failed = 0\<rparr>"

definition add_report :: "EffectDispatchReport \<Rightarrow> EffectDispatchReport \<Rightarrow> EffectDispatchReport" where
  "add_report a b = \<lparr>er_attempted = er_attempted a + er_attempted b,
     er_dispatched = er_dispatched a + er_dispatched b, er_failed = er_failed a + er_failed b\<rparr>"

record SubmitCommandReport =
  sr_revision :: u64
  sr_effect_report :: EffectDispatchReport

record PhaseRunReport =
  pr_phase :: Phase
  pr_rounds :: nat
  pr_processed_scheduled_actions :: nat
  pr_skipped_scheduled_actions :: nat
  pr_failed_scheduled_actions :: nat
  pr_generated_effects :: nat
  pr_effect_report :: EffectDispatchReport

definition DEFAULT_MAX_PHASE_ROUNDS :: usize where
  "DEFAULT_MAX_PHASE_ROUNDS = 16"

record ('p, 'k, 'v, 'w) PhaseRuntime =
  rt_store :: "('p, 'k runtime_key, 'v runtime_value) StateStore"
  rt_next_id :: nat
  rt_world :: 'w

text \<open>\<open>RuntimeQueuePlugin::register\<close>, and \<open>PhaseRuntime::new\<close> on a store: \<open>plugin\<close> is its type id.\<close>

definition queue_options :: StateKeyOptions where
  "queue_options = \<lparr>op_persistent = True, op_retain_on_uninstall = False, op_scope = Key_Run\<rparr>"

definition queue_plugin_keys :: "('k, 'v, 'u) keys \<Rightarrow> 'k runtime_key KeyRegistration list" where
  "queue_plugin_keys K = map (\<lambda>t. KeyRegistration_new K t queue_options) [PendingScheduledActions, FailedScheduledActions]"

definition PhaseRuntime_new ::
  "('k, 'v, 'u) keys \<Rightarrow> 'p \<Rightarrow> ('p, 'k runtime_key, 'v runtime_value) StateStore \<Rightarrow> 'w \<Rightarrow>
   (('p, 'k, 'v, 'w) PhaseRuntime, StateError) outcome" where
  "PhaseRuntime_new K plugin st w =
     (case install_plugin_with_keys st plugin ''phase-runtime'' (queue_plugin_keys K) of
        (Ok _, st') \<Rightarrow> Ok \<lparr>rt_store = st', rt_next_id = 1, rt_world = w\<rparr>
      | (Err (PluginAlreadyInstalled _), st') \<Rightarrow> Ok \<lparr>rt_store = st', rt_next_id = 1, rt_world = w\<rparr>
      | (Err e, _) \<Rightarrow> Err e
      | (Panic m, _) \<Rightarrow> Panic m)"

fun pending_value :: "'v runtime_value option \<Rightarrow> ScheduledActionEnvelope list" where
  "pending_value (Some (PendingValue q)) = q"
| "pending_value _ = []"

fun failed_value :: "'v runtime_value option \<Rightarrow> FailedScheduledAction list" where
  "failed_value (Some (FailedValue q)) = q"
| "failed_value _ = []"

definition pending :: "('p, 'k, 'v, 'w) PhaseRuntime \<Rightarrow> ScheduledActionEnvelope list" where
  "pending rt = pending_value (ss_ext (rt_store rt) PendingScheduledActions)"

definition failed_actions :: "('p, 'k, 'v, 'w) PhaseRuntime \<Rightarrow> FailedScheduledAction list" where
  "failed_actions rt = failed_value (ss_ext (rt_store rt) FailedScheduledActions)"

definition store_snapshot :: "('p, 'k runtime_key, 'v runtime_value) StateStore \<Rightarrow> ('k, 'v) snapshot" where
  "store_snapshot st = (ss_revision st, ss_ext st)"

fun dispatch_effects ::
  "('k, 'v, 'u, 'w, 'tool, 'gate, 'tr) ExecutionEnv \<Rightarrow> ('k, 'v) snapshot \<Rightarrow> TypedEffect list \<Rightarrow>
   EffectDispatchReport \<Rightarrow> 'w \<Rightarrow> EffectDispatchReport \<times> 'w" where
  "dispatch_effects env snap [] report w = (report, w)"
| "dispatch_effects env snap (effect # effects) report w =
     (let report1 = report\<lparr>er_attempted := er_attempted report + 1\<rparr>
      in case map_of (ev_effect_handlers env) (te_key effect) of
           None \<Rightarrow> dispatch_effects env snap effects (report1\<lparr>er_failed := er_failed report1 + 1\<rparr>) w
         | Some handler \<Rightarrow>
             (case handler w (te_payload effect) snap of
                (True, w') \<Rightarrow> dispatch_effects env snap effects (report1\<lparr>er_dispatched := er_dispatched report1 + 1\<rparr>) w'
              | (False, w') \<Rightarrow> dispatch_effects env snap effects (report1\<lparr>er_failed := er_failed report1 + 1\<rparr>) w'))"

text \<open>The envelopes of the actions of a command, with ids counted up from \<open>n\<close>.\<close>

fun envelopes :: "nat \<Rightarrow> ScheduledAction list \<Rightarrow> ScheduledActionEnvelope list" where
  "envelopes n [] = []"
| "envelopes n (a # as) = \<lparr>se_id = n, se_action = a\<rparr> # envelopes (n + 1) as"

definition submit_patch ::
  "('k, 'v, 'u) keys \<Rightarrow> nat \<Rightarrow> ('k, 'u) command \<Rightarrow> ('k runtime_key, 'u runtime_update) MutationBatch" where
  "submit_patch K n command =
     foldl (\<lambda>b entry. batch_update K b PendingScheduledActions (PendingUpdate (Queue_Push entry)))
       (cm_patch command) (envelopes n (cm_scheduled_actions command))"

definition submit_command_inner ::
  "('k, 'v, 'u) keys \<Rightarrow> ('k, 'v, 'u, 'w, 'tool, 'gate, 'tr) ExecutionEnv \<Rightarrow> ('k, 'u) command \<Rightarrow>
   ('p, 'k, 'v, 'w) PhaseRuntime \<Rightarrow> (SubmitCommandReport, StateError) outcome \<times> ('p, 'k, 'v, 'w) PhaseRuntime" where
  "submit_command_inner K env command rt =
     (case find (\<lambda>a. map_of (ev_scheduled_action_handlers env) (sa_key a) = None) (cm_scheduled_actions command) of
        Some a \<Rightarrow> (Err (UnknownScheduledActionHandler (sa_key a)), rt)
      | None \<Rightarrow>
        (case find (\<lambda>e. map_of (ev_effect_handlers env) (te_key e) = None) (cm_effects command) of
           Some e \<Rightarrow> (Err (UnknownEffectHandler (te_key e)), rt)
         | None \<Rightarrow>
           (let n = rt_next_id rt;
                rt1 = rt\<lparr>rt_next_id := n + length (cm_scheduled_actions command) + length (cm_effects command)\<rparr>
            in case commit K (rt_store rt) (submit_patch K n command) of
                 (Ok revision, _, st') \<Rightarrow>
                   (let (report, w') = dispatch_effects env (store_snapshot st') (cm_effects command) no_effects (rt_world rt)
                    in (Ok \<lparr>sr_revision = revision, sr_effect_report = report\<rparr>,
                        rt1\<lparr>rt_store := st', rt_world := w'\<rparr>))
               | (Err e, _, st') \<Rightarrow> (Err e, rt1\<lparr>rt_store := st'\<rparr>)
               | (Panic m, _, st') \<Rightarrow> (Panic m, rt1\<lparr>rt_store := st'\<rparr>))))"

definition dead_letter ::
  "('k, 'v, 'u) keys \<Rightarrow> ScheduledActionEnvelope \<Rightarrow> string \<Rightarrow> ('p, 'k, 'v, 'w) PhaseRuntime \<Rightarrow>
   (unit, StateError) outcome \<times> ('p, 'k, 'v, 'w) PhaseRuntime" where
  "dead_letter K envelope error rt =
     (let patch = batch_update K (batch_update K batch_new PendingScheduledActions
              (PendingUpdate (Queue_Remove (se_id envelope)))) FailedScheduledActions
              (FailedUpdate (Failed_Push \<lparr>fa_id = se_id envelope, fa_action = se_action envelope, fa_error = error\<rparr>));
          (r, _, st') = commit K (rt_store rt) patch
      in (map_ok (\<lambda>_. ()) r, rt\<lparr>rt_store := st'\<rparr>))"

section \<open>Executing scheduled actions\<close>

record PhaseTotals =
  to_processed :: nat
  to_failed :: nat
  to_effects :: nat
  to_effect_report :: EffectDispatchReport

definition no_totals :: PhaseTotals where
  "no_totals = \<lparr>to_processed = 0, to_failed = 0, to_effects = 0, to_effect_report = no_effects\<rparr>"

definition matching ::
  "('k, 'v, 'u, 'w, 'tool, 'gate, 'tr) ExecutionEnv \<Rightarrow> Phase \<Rightarrow> ScheduledActionEnvelope \<Rightarrow> bool" where
  "matching env phase e \<longleftrightarrow> sa_phase (se_action e) = phase \<and>
     map_of (ev_scheduled_action_handlers env) (sa_key (se_action e)) \<noteq> None"

text \<open>The dead-letter branch: the action is counted as failed unless the commit fails.\<close>

definition bury ::
  "('k, 'v, 'u) keys \<Rightarrow> ScheduledActionEnvelope \<Rightarrow> string \<Rightarrow> PhaseTotals \<Rightarrow> ('p, 'k, 'v, 'w) PhaseRuntime \<Rightarrow>
   (PhaseTotals, StateError) outcome \<times> ('p, 'k, 'v, 'w) PhaseRuntime" where
  "bury K envelope error totals rt =
     (let (r, rt') = dead_letter K envelope error rt
      in (map_ok (\<lambda>_. totals\<lparr>to_failed := to_failed totals + 1\<rparr>) r, rt'))"

definition execute_one ::
  "('k, 'v, 'u) keys \<Rightarrow> ('k, 'v, 'u, 'w, 'tool, 'gate, 'tr) ExecutionEnv \<Rightarrow> ScheduledActionEnvelope \<Rightarrow>
   PhaseTotals \<Rightarrow> ('p, 'k, 'v, 'w) PhaseRuntime \<Rightarrow> (PhaseTotals, StateError) outcome \<times> ('p, 'k, 'v, 'w) PhaseRuntime" where
  "execute_one K env envelope totals rt =
     (case map_of (ev_scheduled_action_handlers env) (sa_key (se_action envelope)) of
        None \<Rightarrow> (Panic ''handler existence verified in filter above'', rt)
      | Some handler \<Rightarrow>
          (let (r, w') = handler (rt_world rt) (store_snapshot (rt_store rt)) (sa_payload (se_action envelope));
               rt1 = rt\<lparr>rt_world := w'\<rparr>
           in case r of
                Panic m \<Rightarrow> (Panic m, rt1)
              | Err e \<Rightarrow> bury K envelope (show_StateError e) totals rt1
              | Ok command \<Rightarrow>
                  (let totals1 = totals\<lparr>to_effects := to_effects totals + length (cm_effects command)\<rparr>;
                       command1 = command\<lparr>cm_patch := batch_update K (cm_patch command) PendingScheduledActions
                           (PendingUpdate (Queue_Remove (se_id envelope)))\<rparr>
                   in case submit_command_inner K env command1 rt1 of
                        (Ok report, rt2) \<Rightarrow>
                          (Ok (totals1\<lparr>to_processed := to_processed totals1 + 1,
                              to_effect_report := add_report (to_effect_report totals1) (sr_effect_report report)\<rparr>), rt2)
                      | (Err e, rt2) \<Rightarrow>
                          bury K envelope (''failed to submit action command: '' @ show_StateError e) totals1 rt2
                      | (Panic m, rt2) \<Rightarrow> (Panic m, rt2))))"

fun execute_batch ::
  "('k, 'v, 'u) keys \<Rightarrow> ('k, 'v, 'u, 'w, 'tool, 'gate, 'tr) ExecutionEnv \<Rightarrow> ScheduledActionEnvelope list \<Rightarrow>
   PhaseTotals \<Rightarrow> ('p, 'k, 'v, 'w) PhaseRuntime \<Rightarrow> (PhaseTotals, StateError) outcome \<times> ('p, 'k, 'v, 'w) PhaseRuntime" where
  "execute_batch K env [] totals rt = (Ok totals, rt)"
| "execute_batch K env (e # es) totals rt =
     (case execute_one K env e totals rt of
        (Ok totals', rt') \<Rightarrow> execute_batch K env es totals' rt'
      | (Err err, rt') \<Rightarrow> (Err err, rt')
      | (Panic m, rt') \<Rightarrow> (Panic m, rt'))"

function execute_rounds ::
  "('k, 'v, 'u) keys \<Rightarrow> ('k, 'v, 'u, 'w, 'tool, 'gate, 'tr) ExecutionEnv \<Rightarrow> Phase \<Rightarrow> usize \<Rightarrow> nat \<Rightarrow>
   PhaseTotals \<Rightarrow> ('p, 'k, 'v, 'w) PhaseRuntime \<Rightarrow> (PhaseRunReport, StateError) outcome \<times> ('p, 'k, 'v, 'w) PhaseRuntime" where
  "execute_rounds K env phase max_rounds rounds totals rt =
     (if unat max_rounds < rounds + 1 then (Err (PhaseRunLoopExceeded phase max_rounds), rt)
      else (let batch = filter (matching env phase) (pending rt)
            in if batch = [] then
                 (Ok \<lparr>pr_phase = phase, pr_rounds = rounds + 1, pr_processed_scheduled_actions = to_processed totals,
                      pr_skipped_scheduled_actions =
                        (if rounds + 1 = 1 then length (filter (\<lambda>e. sa_phase (se_action e) \<noteq> phase) (pending rt)) else 0),
                      pr_failed_scheduled_actions = to_failed totals, pr_generated_effects = to_effects totals,
                      pr_effect_report = to_effect_report totals\<rparr>, rt)
               else (case execute_batch K env batch totals rt of
                   (Ok totals', rt') \<Rightarrow> execute_rounds K env phase max_rounds (rounds + 1) totals' rt'
                 | (Err e, rt') \<Rightarrow> (Err e, rt')
                 | (Panic m, rt') \<Rightarrow> (Panic m, rt'))))"
  by pat_completeness auto
termination
  by (relation "measure (\<lambda>(K, env, phase, max_rounds, rounds, totals, rt). unat max_rounds - rounds)") auto

declare execute_rounds.simps [simp del]

definition execute_scheduled_actions ::
  "('k, 'v, 'u) keys \<Rightarrow> ('k, 'v, 'u, 'w, 'tool, 'gate, 'tr) ExecutionEnv \<Rightarrow> Phase \<Rightarrow> usize \<Rightarrow>
   ('p, 'k, 'v, 'w) PhaseRuntime \<Rightarrow> (PhaseRunReport, StateError) outcome \<times> ('p, 'k, 'v, 'w) PhaseRuntime" where
  "execute_scheduled_actions K env phase max_rounds rt = execute_rounds K env phase max_rounds 0 no_totals rt"

section \<open>Gathering hooks\<close>

definition filter_hooks ::
  "('k, 'v, 'u, 'w, 'tool, 'gate, 'tr) ExecutionEnv \<Rightarrow> Phase \<Rightarrow> string set \<Rightarrow> ('k, 'v, 'u, 'w) TaggedPhaseHook list" where
  "filter_hooks env phase active_hook_filter =
     filter (\<lambda>tagged. active_hook_filter = {} \<or> th_plugin_id tagged \<in> active_hook_filter) (hooks_for_phase env phase)"

definition command_is_empty :: "('k, 'u) command \<Rightarrow> bool" where
  "command_is_empty c \<longleftrightarrow> ba_ops (cm_patch c) = [] \<and> cm_scheduled_actions c = [] \<and> cm_effects c = []"

text \<open>A command gets the revision its hook saw as its base, unless it names one.\<close>

definition based_on :: "u64 \<Rightarrow> ('k, 'u) command \<Rightarrow> ('k, 'u) command" where
  "based_on revision c =
     (if ba_base_revision (cm_patch c) = None then c\<lparr>cm_patch := with_base_revision (cm_patch c) revision\<rparr> else c)"

text \<open>
  \<open>join_all\<close> runs every hook, and the errors are looked at afterwards, in order. The list pairs each
  command that is not empty with the index of its hook.
\<close>

fun run_all ::
  "('k, 'v, 'u, 'w) TaggedPhaseHook list \<Rightarrow> ('k, 'v) snapshot \<Rightarrow> 'w \<Rightarrow>
   (('k, 'u) command, StateError) outcome list \<times> 'w" where
  "run_all [] snap w = ([], w)"
| "run_all (h # hs) snap w =
     (let (r, w1) = th_hook h w snap; (rs, w2) = run_all hs snap w1
      in (map_ok (based_on (fst snap)) r # rs, w2))"

fun collect_indexed :: "nat \<Rightarrow> (('k, 'u) command, StateError) outcome list \<Rightarrow> ((nat \<times> ('k, 'u) command) list, StateError) outcome" where
  "collect_indexed i [] = Ok []"
| "collect_indexed i (r # rs) =
     and_then r (\<lambda>c. map_ok (\<lambda>rest. if command_is_empty c then rest else (i, c) # rest) (collect_indexed (i + 1) rs))"

text \<open>A hook that panics takes the whole join with it.\<close>

definition join_results :: "(('k, 'u) command, StateError) outcome list \<Rightarrow> ((nat \<times> ('k, 'u) command) list, StateError) outcome" where
  "join_results rs =
     (case find is_panic rs of
        Some (Panic m) \<Rightarrow> Panic m
      | _ \<Rightarrow> collect_indexed 0 rs)"

fun overlap_loop :: "(string \<Rightarrow> MergeStrategy) \<Rightarrow> string list \<Rightarrow> string set \<Rightarrow> bool" where
  "overlap_loop strategy [] seen = False"
| "overlap_loop strategy (k # ks) seen =
     (if strategy k = Exclusive then k \<in> seen \<or> overlap_loop strategy ks (insert k seen)
      else overlap_loop strategy ks seen)"

definition has_exclusive_key_overlap :: "(nat \<times> ('k, 'u) command) list \<Rightarrow> (string \<Rightarrow> MergeStrategy) \<Rightarrow> bool" where
  "has_exclusive_key_overlap commands strategy =
     overlap_loop strategy (concat (map (\<lambda>(_, c). ba_touched_keys (cm_patch c)) commands)) {}"

fun partition_loop ::
  "(string \<Rightarrow> MergeStrategy) \<Rightarrow> (nat \<times> ('k, 'u) command) list \<Rightarrow> string set \<Rightarrow> ('k, 'u) command list \<times> nat list" where
  "partition_loop strategy [] keys = ([], [])"
| "partition_loop strategy ((i, c) # cs) keys =
     (let touched = ba_touched_keys (cm_patch c)
      in if list_ex (\<lambda>k. strategy k = Exclusive \<and> k \<in> keys) touched
         then (let (batch, deferred) = partition_loop strategy cs keys in (batch, i # deferred))
         else (let (batch, deferred) = partition_loop strategy cs (keys \<union> {k \<in> set touched. strategy k = Exclusive})
               in (c # batch, deferred)))"

definition partition_commands ::
  "(nat \<times> ('k, 'u) command) list \<Rightarrow> (string \<Rightarrow> MergeStrategy) \<Rightarrow> ('k, 'u) command list \<times> nat list" where
  "partition_commands commands strategy = partition_loop strategy commands {}"

type_synonym gathered = "nat \<times> EffectDispatchReport"

text \<open>Submit a command unless it is empty, and add up.\<close>

definition submit_nonempty ::
  "('k, 'v, 'u) keys \<Rightarrow> ('k, 'v, 'u, 'w, 'tool, 'gate, 'tr) ExecutionEnv \<Rightarrow> ('k, 'u) command \<Rightarrow> gathered \<Rightarrow>
   ('p, 'k, 'v, 'w) PhaseRuntime \<Rightarrow> (gathered, StateError) outcome \<times> ('p, 'k, 'v, 'w) PhaseRuntime" where
  "submit_nonempty K env command acc rt =
     (if command_is_empty command then (Ok acc, rt)
      else (case submit_command_inner K env command rt of
          (Ok r, rt') \<Rightarrow> (Ok (fst acc + length (cm_effects command), add_report (snd acc) (sr_effect_report r)), rt')
        | (Err e, rt') \<Rightarrow> (Err e, rt')
        | (Panic m, rt') \<Rightarrow> (Panic m, rt')))"

definition submit_merged ::
  "('k, 'v, 'u) keys \<Rightarrow> ('k, 'v, 'u, 'w, 'tool, 'gate, 'tr) ExecutionEnv \<Rightarrow> ('k, 'u) command list \<Rightarrow>
   ('p, 'k, 'v, 'w) PhaseRuntime \<Rightarrow> (gathered, StateError) outcome \<times> ('p, 'k, 'v, 'w) PhaseRuntime" where
  "submit_merged K env commands rt =
     (case merge_all_commands (rt_store rt) commands of
        Ok merged \<Rightarrow> submit_nonempty K env merged (0, no_effects) rt
      | Err e \<Rightarrow> (Err e, rt)
      | Panic m \<Rightarrow> (Panic m, rt))"

fun run_deferred ::
  "('k, 'v, 'u) keys \<Rightarrow> ('k, 'v, 'u, 'w, 'tool, 'gate, 'tr) ExecutionEnv \<Rightarrow> ('k, 'v, 'u, 'w) TaggedPhaseHook list \<Rightarrow>
   nat list \<Rightarrow> gathered \<Rightarrow> ('p, 'k, 'v, 'w) PhaseRuntime \<Rightarrow>
   (gathered, StateError) outcome \<times> ('p, 'k, 'v, 'w) PhaseRuntime" where
  "run_deferred K env hooks [] acc rt = (Ok acc, rt)"
| "run_deferred K env hooks (i # is) acc rt =
     (let snap = store_snapshot (rt_store rt);
          (r, w') = th_hook (hooks ! i) (rt_world rt) snap;
          rt1 = rt\<lparr>rt_world := w'\<rparr>
      in case r of
           Err e \<Rightarrow> (Err e, rt1)
         | Panic m \<Rightarrow> (Panic m, rt1)
         | Ok c \<Rightarrow>
             (case submit_nonempty K env (based_on (fst snap) c) acc rt1 of
                (Ok acc', rt2) \<Rightarrow> run_deferred K env hooks is acc' rt2
              | (Err e, rt2) \<Rightarrow> (Err e, rt2)
              | (Panic m, rt2) \<Rightarrow> (Panic m, rt2)))"

definition gather_and_commit_hooks ::
  "('k, 'v, 'u) keys \<Rightarrow> ('k, 'v, 'u, 'w, 'tool, 'gate, 'tr) ExecutionEnv \<Rightarrow> Phase \<Rightarrow> string set \<Rightarrow>
   ('p, 'k, 'v, 'w) PhaseRuntime \<Rightarrow> (gathered, StateError) outcome \<times> ('p, 'k, 'v, 'w) PhaseRuntime" where
  "gather_and_commit_hooks K env phase active_hook_filter rt =
     (let hooks = filter_hooks env phase active_hook_filter
      in if hooks = [] then (Ok (0, no_effects), rt)
         else (let (results, w') = run_all hooks (store_snapshot (rt_store rt)) (rt_world rt);
                   rt1 = rt\<lparr>rt_world := w'\<rparr>;
                   strategy = registry_merge_strategy (ss_registry (rt_store rt))
               in case join_results results of
                    Err e \<Rightarrow> (Err e, rt1)
                  | Panic m \<Rightarrow> (Panic m, rt1)
                  | Ok indexed \<Rightarrow>
                      if indexed = [] then (Ok (0, no_effects), rt1)
                      else if \<not> has_exclusive_key_overlap indexed strategy then submit_merged K env (map snd indexed) rt1
                      else (let (batch, deferred) = partition_commands indexed strategy
                            in case (if batch = [] then (Ok (0, no_effects), rt1) else submit_merged K env batch rt1) of
                                 (Ok acc, rt2) \<Rightarrow> run_deferred K env hooks deferred acc rt2
                               | (Err e, rt2) \<Rightarrow> (Err e, rt2)
                               | (Panic m, rt2) \<Rightarrow> (Panic m, rt2))))"

text \<open>\<open>collect_commands\<close>: the hooks without the commit.\<close>

definition run_hooks_collect ::
  "('k, 'v, 'u, 'w, 'tool, 'gate, 'tr) ExecutionEnv \<Rightarrow> Phase \<Rightarrow> string set \<Rightarrow>
   ('p, 'k, 'v, 'w) PhaseRuntime \<Rightarrow> (('k, 'u) command, StateError) outcome \<times> ('p, 'k, 'v, 'w) PhaseRuntime" where
  "run_hooks_collect env phase active_hook_filter rt =
     (let (results, w') = run_all (filter_hooks env phase active_hook_filter) (store_snapshot (rt_store rt)) (rt_world rt)
      in (and_then (join_results results) (\<lambda>indexed. merge_all_commands (rt_store rt) (map snd indexed)),
          rt\<lparr>rt_world := w'\<rparr>))"

text \<open>
  A phase. The cancellation token is looked at twice: \<open>cancelled_entry\<close> before the hooks and
  \<open>cancelled_later\<close> before the scheduled actions.
\<close>

definition run_phase_ctx_inner ::
  "('k, 'v, 'u) keys \<Rightarrow> ('k, 'v, 'u, 'w, 'tool, 'gate, 'tr) ExecutionEnv \<Rightarrow> Phase \<Rightarrow> string set \<Rightarrow> usize \<Rightarrow>
   bool \<Rightarrow> bool \<Rightarrow> ('p, 'k, 'v, 'w) PhaseRuntime \<Rightarrow>
   (PhaseRunReport, StateError) outcome \<times> ('p, 'k, 'v, 'w) PhaseRuntime" where
  "run_phase_ctx_inner K env phase active_hook_filter max_rounds cancelled_entry cancelled_later rt =
     (if cancelled_entry then (Err StateCancelled, rt)
      else (case gather_and_commit_hooks K env phase active_hook_filter rt of
          (Err e, rt1) \<Rightarrow> (Err e, rt1)
        | (Panic m, rt1) \<Rightarrow> (Panic m, rt1)
        | (Ok (effects, effect_report), rt1) \<Rightarrow>
            if cancelled_later then (Err StateCancelled, rt1)
            else (let (r, rt2) = execute_scheduled_actions K env phase max_rounds rt1
                  in (map_ok (\<lambda>report. report\<lparr>pr_generated_effects := pr_generated_effects report + effects,
                        pr_effect_report := add_report (pr_effect_report report) effect_report\<rparr>) r, rt2))))"

definition run_phase_with_limit ::
  "('k, 'v, 'u) keys \<Rightarrow> ('k, 'v, 'u, 'w, 'tool, 'gate, 'tr) ExecutionEnv \<Rightarrow> Phase \<Rightarrow> usize \<Rightarrow>
   ('p, 'k, 'v, 'w) PhaseRuntime \<Rightarrow> (PhaseRunReport, StateError) outcome \<times> ('p, 'k, 'v, 'w) PhaseRuntime" where
  "run_phase_with_limit K env phase max_rounds rt = run_phase_ctx_inner K env phase {} max_rounds False False rt"

definition run_phase ::
  "('k, 'v, 'u) keys \<Rightarrow> ('k, 'v, 'u, 'w, 'tool, 'gate, 'tr) ExecutionEnv \<Rightarrow> Phase \<Rightarrow>
   ('p, 'k, 'v, 'w) PhaseRuntime \<Rightarrow> (PhaseRunReport, StateError) outcome \<times> ('p, 'k, 'v, 'w) PhaseRuntime" where
  "run_phase K env phase rt = run_phase_with_limit K env phase DEFAULT_MAX_PHASE_ROUNDS rt"

end
