(* ===== verification/Phase_Laws.thy ===== *)
theory Phase_Laws
  imports Phase_Engine
begin

text \<open>
  The laws of the phase engine: the scheduled actions of a phase refine an abstract queue in which each
  entry is taken once, the execution of a phase ends where the actions schedule only smaller ones, and
  conflicts between hooks never surface.
\<close>

section \<open>Commits and the two queues\<close>

lemma commit_checked_cases:
  "(\<exists>r ev st'. commit_checked K st b = (Ok r, ev, st') \<and> ss_ext st' = apply_ops K (ss_ext st) (ba_ops b) \<and>
      ss_registry st' = ss_registry st) \<or>
   (\<exists>e. commit_checked K st b = (Err e, None, st) \<and> (\<forall>key. e \<noteq> ParallelMergeConflict key))"
  by (simp add: commit_checked_def Let_def split: option.split)

lemma commit_cases:
  obtains (applied) r ev st' where "commit K st b = (Ok r, ev, st')"
      "ss_ext st' = apply_ops K (ss_ext st) (ba_ops b)" "ss_registry st' = ss_registry st"
  | (refused) e where "commit K st b = (Err e, None, st)" "\<And>key. e \<noteq> ParallelMergeConflict key"
proof -
  have "(\<exists>r ev st'. commit K st b = (Ok r, ev, st') \<and> ss_ext st' = apply_ops K (ss_ext st) (ba_ops b) \<and>
      ss_registry st' = ss_registry st) \<or>
    (\<exists>e. commit K st b = (Err e, None, st) \<and> (\<forall>key. e \<noteq> ParallelMergeConflict key))"
    using commit_checked_cases [of K st b]
    by (cases "ba_ops b = []"; cases "ba_base_revision b") (simp_all add: commit_def apply_ops_def)
  then show ?thesis using applied refused by blast
qed

lemma commit_registered:
  assumes "ba_base_revision b = None \<or> ba_base_revision b = Some (ss_revision st)"
    and "list_all (\<lambda>key. is_ok (ensure_key (ss_registry st) key)) (ba_touched_keys b)"
  shows "is_ok (fst (commit K st b))"
proof -
  have "find (\<lambda>key. \<not> is_ok (ensure_key (ss_registry st) key)) (ba_touched_keys b) = None"
    using assms(2) by (simp add: find_None_iff list_all_iff)
  then show ?thesis using assms(1) by (auto simp: commit_def commit_checked_def Let_def)
qed

text \<open>The queue keys are registered and hold values of their own types.\<close>

definition queue_ready :: "('p, 'k, 'v, 'w) PhaseRuntime \<Rightarrow> bool" where
  "queue_ready rt \<longleftrightarrow>
     is_ok (ensure_key (ss_registry (rt_store rt)) ''__runtime.pending_scheduled_actions'') \<and>
     is_ok (ensure_key (ss_registry (rt_store rt)) ''__runtime.failed_scheduled_actions'') \<and>
     (case ss_ext (rt_store rt) PendingScheduledActions of None \<Rightarrow> True | Some v \<Rightarrow> v = PendingValue (pending rt)) \<and>
     (case ss_ext (rt_store rt) FailedScheduledActions of None \<Rightarrow> True | Some v \<Rightarrow> v = FailedValue (failed_actions rt))"

fun keeps_off_queues :: "('k runtime_key, 'u) MutationOp \<Rightarrow> bool" where
  "keeps_off_queues (KeyPatch (OtherKey k) u) = True"
| "keeps_off_queues (ClearKey (OtherKey k)) = True"
| "keeps_off_queues _ = False"

definition push_op :: "ScheduledActionEnvelope \<Rightarrow> ('k runtime_key, 'u runtime_update) MutationOp" where
  "push_op e = KeyPatch PendingScheduledActions (PendingUpdate (Queue_Push e))"

definition remove_op :: "nat \<Rightarrow> ('k runtime_key, 'u runtime_update) MutationOp" where
  "remove_op i = KeyPatch PendingScheduledActions (PendingUpdate (Queue_Remove i))"

definition fail_op :: "FailedScheduledAction \<Rightarrow> ('k runtime_key, 'u runtime_update) MutationOp" where
  "fail_op f = KeyPatch FailedScheduledActions (FailedUpdate (Failed_Push f))"

definition typed_queues :: "('k runtime_key, 'v runtime_value) StateMap \<Rightarrow> bool" where
  "typed_queues m \<longleftrightarrow>
     (case m PendingScheduledActions of None \<Rightarrow> True | Some v \<Rightarrow> v = PendingValue (pending_value (Some v))) \<and>
     (case m FailedScheduledActions of None \<Rightarrow> True | Some v \<Rightarrow> v = FailedValue (failed_value (Some v)))"

definition queues :: "('k runtime_key, 'v runtime_value) StateMap \<Rightarrow> ScheduledActionEnvelope list \<times> FailedScheduledAction list" where
  "queues m = (pending_value (m PendingScheduledActions), failed_value (m FailedScheduledActions))"

lemma queue_readyD:
  "queue_ready rt \<Longrightarrow> typed_queues (ss_ext (rt_store rt))"
  by (auto simp: queue_ready_def typed_queues_def pending_def failed_actions_def split: option.splits)

lemma queue_readyI:
  assumes "queue_ready rt" and "ss_registry (rt_store rt') = ss_registry (rt_store rt)"
    and "typed_queues (ss_ext (rt_store rt'))"
  shows "queue_ready rt'"
  using assms by (auto simp: queue_ready_def typed_queues_def pending_def failed_actions_def split: option.splits)

lemma apply_other:
  "list_all keeps_off_queues ops \<Longrightarrow>
   apply_ops K m ops PendingScheduledActions = m PendingScheduledActions \<and>
   apply_ops K m ops FailedScheduledActions = m FailedScheduledActions"
proof (induction ops arbitrary: m)
  case (Cons op ops)
  have "op_apply K m op PendingScheduledActions = m PendingScheduledActions \<and>
    op_apply K m op FailedScheduledActions = m FailedScheduledActions"
    using Cons.prems by (cases op rule: keeps_off_queues.cases) auto
  with Cons show ?case by (simp add: apply_ops_def)
qed (simp add: apply_ops_def)

lemma typed_other: "list_all keeps_off_queues ops \<Longrightarrow> typed_queues (apply_ops K m ops) = typed_queues m"
  by (simp add: typed_queues_def apply_other)

lemma queues_other: "list_all keeps_off_queues ops \<Longrightarrow> queues (apply_ops K m ops) = queues m"
  by (simp add: queues_def apply_other)

lemma get_pending:
  "typed_queues m \<Longrightarrow>
   get_or_insert_default (runtime_keys codec K) m PendingScheduledActions = PendingValue (fst (queues m))"
  by (auto simp: get_or_insert_default_def typed_queues_def queues_def split: option.splits)

lemma get_failed:
  "typed_queues m \<Longrightarrow>
   get_or_insert_default (runtime_keys codec K) m FailedScheduledActions = FailedValue (snd (queues m))"
  by (auto simp: get_or_insert_default_def typed_queues_def queues_def split: option.splits)

lemma apply_remove:
  assumes "typed_queues m"
  shows "typed_queues (op_apply (runtime_keys codec K) m (remove_op i))"
    and "queues (op_apply (runtime_keys codec K) m (remove_op i)) =
      (filter (\<lambda>e. se_id e \<noteq> i) (fst (queues m)), snd (queues m))"
  using assms get_pending [OF assms, of codec K] by (auto simp: remove_op_def typed_queues_def queues_def)

lemma apply_fail:
  assumes "typed_queues m"
  shows "typed_queues (op_apply (runtime_keys codec K) m (fail_op f))"
    and "queues (op_apply (runtime_keys codec K) m (fail_op f)) = (fst (queues m), snd (queues m) @ [f])"
  using assms get_failed [OF assms, of codec K] by (auto simp: fail_op_def typed_queues_def queues_def)

lemma apply_push:
  assumes "typed_queues m"
  shows "typed_queues (op_apply (runtime_keys codec K) m (push_op e))"
    and "queues (op_apply (runtime_keys codec K) m (push_op e)) = (fst (queues m) @ [e], snd (queues m))"
  using assms get_pending [OF assms, of codec K] by (auto simp: push_op_def typed_queues_def queues_def)

lemma apply_pushes:
  "typed_queues m \<Longrightarrow>
   typed_queues (apply_ops (runtime_keys codec K) m (map push_op es)) \<and>
   queues (apply_ops (runtime_keys codec K) m (map push_op es)) = (fst (queues m) @ es, snd (queues m))"
  by (induction es arbitrary: m) (simp_all add: apply_ops_def apply_push del: op_apply.simps)

lemma submit_patch_ops:
  "ba_ops (submit_patch K n c) = ba_ops (cm_patch c) @ map push_op (envelopes n (cm_scheduled_actions c))"
proof -
  have "ba_ops (foldl (\<lambda>b e. batch_update K b PendingScheduledActions (PendingUpdate (Queue_Push e))) b es) =
      ba_ops b @ map push_op es" for b and es
    by (induction es arbitrary: b) (simp_all add: batch_update_def push_op_def)
  then show ?thesis by (simp add: submit_patch_def)
qed

lemma apply_ops_append: "apply_ops K m (xs @ ys) = apply_ops K (apply_ops K m xs) ys"
  by (simp add: apply_ops_def)

section \<open>One scheduled action\<close>

definition queue_state ::
  "('p, 'k, 'v, 'w) PhaseRuntime \<Rightarrow> ScheduledActionEnvelope list \<times> FailedScheduledAction list \<times> nat" where
  "queue_state rt = (pending rt, failed_actions rt, rt_next_id rt)"

lemma queues_store: "queues (ss_ext (rt_store rt)) = (pending rt, failed_actions rt)"
  by (simp add: queues_def pending_def failed_actions_def)

text \<open>Handlers that do not panic and leave the queue keys to the engine.\<close>

definition proper_command :: "(('k, 'u) command, StateError) outcome \<Rightarrow> bool" where
  "proper_command r \<longleftrightarrow>
     (case r of Ok c \<Rightarrow> list_all keeps_off_queues (ba_ops (cm_patch c)) | Err _ \<Rightarrow> True | Panic _ \<Rightarrow> False)"

definition well_behaved :: "('k, 'v, 'u, 'w, 'tool, 'gate, 'tr) ExecutionEnv \<Rightarrow> bool" where
  "well_behaved env \<longleftrightarrow> list_all (\<lambda>(key, h). \<forall>w snap payload. proper_command (fst (h w snap payload)))
     (ev_scheduled_action_handlers env)"

lemma well_behavedD:
  "well_behaved env \<Longrightarrow> map_of (ev_scheduled_action_handlers env) key = Some h \<Longrightarrow>
   proper_command (fst (h w snap payload))"
  by (cases snap) (auto simp: well_behaved_def list_all_iff dest!: map_of_SomeD)

definition dead_entry :: "ScheduledActionEnvelope \<Rightarrow> string \<Rightarrow> FailedScheduledAction" where
  "dead_entry e err = \<lparr>fa_id = se_id e, fa_action = se_action e, fa_error = err\<rparr>"

definition without :: "ScheduledActionEnvelope \<Rightarrow> ScheduledActionEnvelope list \<Rightarrow> ScheduledActionEnvelope list" where
  "without e q = filter (\<lambda>x. se_id x \<noteq> se_id e) q"

lemma bury_effect:
  assumes "queue_ready rt"
  obtains rt' where "bury (runtime_keys codec K) e err totals rt = (Ok (totals\<lparr>to_failed := to_failed totals + 1\<rparr>), rt')"
    and "queue_ready rt'" and "rt_next_id rt' = rt_next_id rt"
    and "queue_state rt' = (without e (pending rt), failed_actions rt @ [dead_entry e err], rt_next_id rt)"
proof -
  let ?K = "runtime_keys codec K" and ?st = "rt_store rt"
  let ?patch = "batch_update ?K (batch_update ?K batch_new PendingScheduledActions
     (PendingUpdate (Queue_Remove (se_id e)))) FailedScheduledActions (FailedUpdate (Failed_Push (dead_entry e err)))"
  have ops: "ba_ops ?patch = [remove_op (se_id e), fail_op (dead_entry e err)]"
    by (simp add: batch_update_def batch_new_def remove_op_def fail_op_def)
  have "is_ok (fst (commit ?K ?st ?patch))"
    using assms by (intro commit_registered) (simp_all add: batch_update_def batch_new_def queue_ready_def)
  then obtain r ev st' where c: "commit ?K ?st ?patch = (Ok r, ev, st')"
      "ss_ext st' = apply_ops ?K (ss_ext ?st) (ba_ops ?patch)" "ss_registry st' = ss_registry ?st"
    by (cases rule: commit_cases [of ?K ?st ?patch]) auto
  let ?m = "op_apply ?K (ss_ext ?st) (remove_op (se_id e))"
  note typed = queue_readyD [OF assms]
  have ext: "ss_ext st' = op_apply ?K ?m (fail_op (dead_entry e err))"
    using c(2) by (simp add: ops apply_ops_def del: op_apply.simps)
  note removed = apply_remove [OF typed, of codec K "se_id e"]
  note pushed = apply_fail [OF removed(1), of codec K "dead_entry e err"]
  let ?rt' = "rt\<lparr>rt_store := st'\<rparr>"
  have "queue_ready ?rt'" using queue_readyI [OF assms, of ?rt'] c(3) pushed(1) ext by simp
  moreover have "bury ?K e err totals rt = (Ok (totals\<lparr>to_failed := to_failed totals + 1\<rparr>), ?rt')"
    using c(1) by (simp add: bury_def dead_letter_def dead_entry_def)
  moreover have "queues (ss_ext st') = (without e (pending rt), failed_actions rt @ [dead_entry e err])"
    using removed(2) pushed(2) by (simp add: ext queues_store without_def)
  then have "queue_state ?rt' = (without e (pending rt), failed_actions rt @ [dead_entry e err], rt_next_id rt)"
    using queues_store [of ?rt'] by (simp add: queue_state_def)
  ultimately show ?thesis using that by simp
qed

lemma submit_cases:
  obtains (submitted) report rt' where "submit_command_inner K env c rt = (Ok report, rt')"
      "ss_ext (rt_store rt') = apply_ops K (ss_ext (rt_store rt)) (ba_ops (submit_patch K (rt_next_id rt) c))"
      "ss_registry (rt_store rt') = ss_registry (rt_store rt)"
      "rt_next_id rt' = rt_next_id rt + length (cm_scheduled_actions c) + length (cm_effects c)"
  | (rejected) e rt' where "submit_command_inner K env c rt = (Err e, rt')" "rt_store rt' = rt_store rt"
      "rt_next_id rt \<le> rt_next_id rt'" "\<And>key. e \<noteq> ParallelMergeConflict key"
proof (cases "find (\<lambda>a. map_of (ev_scheduled_action_handlers env) (sa_key a) = None) (cm_scheduled_actions c)")
  case (Some a)
  then show ?thesis using rejected [of "UnknownScheduledActionHandler (sa_key a)" rt]
    by (simp add: submit_command_inner_def)
next
  case actions: None
  show ?thesis
  proof (cases "find (\<lambda>e. map_of (ev_effect_handlers env) (te_key e) = None) (cm_effects c)")
    case (Some e)
    then show ?thesis using rejected [of "UnknownEffectHandler (te_key e)" rt] actions
      by (simp add: submit_command_inner_def)
  next
    case None
    let ?n = "rt_next_id rt"
    let ?rt = "rt\<lparr>rt_next_id := ?n + length (cm_scheduled_actions c) + length (cm_effects c)\<rparr>"
    show ?thesis
    proof (cases rule: commit_cases [of K "rt_store rt" "submit_patch K ?n c"])
      case (applied r ev st')
      obtain report w' where d: "dispatch_effects env (store_snapshot st') (cm_effects c) no_effects (rt_world rt) = (report, w')"
        by fastforce
      show ?thesis
        by (rule submitted [of "\<lparr>sr_revision = r, sr_effect_report = report\<rparr>" "?rt\<lparr>rt_store := st', rt_world := w'\<rparr>"])
          (use actions None applied d in \<open>simp_all add: submit_command_inner_def Let_def\<close>)
    next
      case (refused e)
      show ?thesis
        by (rule rejected [of e "?rt"])
          (use actions None refused in \<open>simp_all add: submit_command_inner_def Let_def\<close>)
    qed
  qed
qed

text \<open>What one action does to the queues: it is processed, with what it schedules at the end, or buried.\<close>

definition processed_as ::
  "ScheduledActionEnvelope \<Rightarrow> ScheduledAction list \<Rightarrow> PhaseTotals \<Rightarrow> ('p, 'k, 'v, 'w) PhaseRuntime \<Rightarrow>
   PhaseTotals \<Rightarrow> ('p, 'k, 'v, 'w) PhaseRuntime \<Rightarrow> bool" where
  "processed_as e acts totals rt totals' rt' \<longleftrightarrow>
     pending rt' = without e (pending rt) @ envelopes (rt_next_id rt) acts \<and> failed_actions rt' = failed_actions rt \<and>
     rt_next_id rt + length acts \<le> rt_next_id rt' \<and>
     to_processed totals' = to_processed totals + 1 \<and> to_failed totals' = to_failed totals"

definition buried_as ::
  "ScheduledActionEnvelope \<Rightarrow> PhaseTotals \<Rightarrow> ('p, 'k, 'v, 'w) PhaseRuntime \<Rightarrow>
   PhaseTotals \<Rightarrow> ('p, 'k, 'v, 'w) PhaseRuntime \<Rightarrow> bool" where
  "buried_as e totals rt totals' rt' \<longleftrightarrow>
     (\<exists>err. pending rt' = without e (pending rt) \<and> failed_actions rt' = failed_actions rt @ [dead_entry e err]) \<and>
     rt_next_id rt \<le> rt_next_id rt' \<and>
     to_processed totals' = to_processed totals \<and> to_failed totals' = to_failed totals + 1"

lemma processed_effect:
  assumes ready: "queue_ready rt" and off: "list_all keeps_off_queues (ba_ops (cm_patch c))"
    and c1: "c1 = c\<lparr>cm_patch := batch_update (runtime_keys codec K) (cm_patch c) PendingScheduledActions
        (PendingUpdate (Queue_Remove (se_id e)))\<rparr>"
    and ext: "ss_ext (rt_store rt') = apply_ops (runtime_keys codec K) (ss_ext (rt_store rt))
        (ba_ops (submit_patch (runtime_keys codec K) (rt_next_id rt) c1))"
    and reg: "ss_registry (rt_store rt') = ss_registry (rt_store rt)"
  shows "queue_ready rt'"
    and "pending rt' = without e (pending rt) @ envelopes (rt_next_id rt) (cm_scheduled_actions c)"
    and "failed_actions rt' = failed_actions rt"
proof -
  let ?K = "runtime_keys codec K" and ?m = "ss_ext (rt_store rt)"
  let ?m1 = "apply_ops ?K ?m (ba_ops (cm_patch c))"
  let ?m2 = "op_apply ?K ?m1 (remove_op (se_id e))"
  have ops: "ba_ops (submit_patch ?K (rt_next_id rt) c1) =
      ba_ops (cm_patch c) @ [remove_op (se_id e)] @ map push_op (envelopes (rt_next_id rt) (cm_scheduled_actions c))"
    by (simp add: submit_patch_ops c1 batch_update_def remove_op_def)
  have m: "ss_ext (rt_store rt') = apply_ops ?K ?m2 (map push_op (envelopes (rt_next_id rt) (cm_scheduled_actions c)))"
    unfolding ext ops by (simp only: apply_ops_append) (simp add: apply_ops_def del: op_apply.simps)
  have t1: "typed_queues ?m1" using queue_readyD [OF ready] by (simp add: typed_other [OF off])
  note removed = apply_remove [OF t1, of codec K "se_id e"]
  note pushed = apply_pushes [OF removed(1), of codec K "envelopes (rt_next_id rt) (cm_scheduled_actions c)"]
  show "queue_ready rt'" using queue_readyI [OF ready reg] pushed m by simp
  have "queues (ss_ext (rt_store rt')) =
      (without e (pending rt) @ envelopes (rt_next_id rt) (cm_scheduled_actions c), failed_actions rt)"
    using pushed removed(2) by (simp add: m queues_other [OF off] queues_store without_def)
  then show "pending rt' = without e (pending rt) @ envelopes (rt_next_id rt) (cm_scheduled_actions c)"
    and "failed_actions rt' = failed_actions rt"
    by (simp_all add: queues_store)
qed

lemma execute_one_effect:
  assumes ready: "queue_ready rt" and env: "well_behaved env"
    and h: "map_of (ev_scheduled_action_handlers env) (sa_key (se_action e)) = Some h"
  obtains totals' rt' where "execute_one (runtime_keys codec K) env e totals rt = (Ok totals', rt')" "queue_ready rt'"
    "(\<exists>w snap c w'. h w snap (sa_payload (se_action e)) = (Ok c, w') \<and>
        processed_as e (cm_scheduled_actions c) totals rt totals' rt') \<or> buried_as e totals rt totals' rt'"
proof -
  let ?K = "runtime_keys codec K" and ?snap = "store_snapshot (rt_store rt)"
  obtain r w' where r: "h (rt_world rt) ?snap (sa_payload (se_action e)) = (r, w')" by fastforce
  let ?rt1 = "rt\<lparr>rt_world := w'\<rparr>"
  have same: "pending ?rt1 = pending rt" "failed_actions ?rt1 = failed_actions rt"
    by (simp_all add: pending_def failed_actions_def)
  have ready1: "queue_ready ?rt1" using queue_readyI [OF ready, of ?rt1] queue_readyD [OF ready] by simp
  have proper: "proper_command r"
    using well_behavedD [OF env h, of "rt_world rt" ?snap "sa_payload (se_action e)"] by (simp add: r)
  show ?thesis
  proof (cases r)
    case (Panic m)
    with proper show ?thesis by (simp add: proper_command_def)
  next
    case (Err err)
    obtain rt' where b: "bury ?K e (show_StateError err) totals ?rt1 = (Ok (totals\<lparr>to_failed := to_failed totals + 1\<rparr>), rt')"
        "queue_ready rt'" "rt_next_id rt' = rt_next_id ?rt1"
        "queue_state rt' = (without e (pending ?rt1), failed_actions ?rt1 @ [dead_entry e (show_StateError err)], rt_next_id ?rt1)"
      using bury_effect [OF ready1] by blast
    have "execute_one ?K env e totals rt = (Ok (totals\<lparr>to_failed := to_failed totals + 1\<rparr>), rt')"
      using b(1) by (simp add: execute_one_def h r Err)
    moreover have "buried_as e totals rt (totals\<lparr>to_failed := to_failed totals + 1\<rparr>) rt'"
      using b(3,4) by (auto simp: buried_as_def queue_state_def same)
    ultimately show ?thesis using that b(2) by blast
  next
    case (Ok c)
    let ?totals = "totals\<lparr>to_effects := to_effects totals + length (cm_effects c)\<rparr>"
    let ?c1 = "c\<lparr>cm_patch := batch_update ?K (cm_patch c) PendingScheduledActions
        (PendingUpdate (Queue_Remove (se_id e)))\<rparr>"
    have off: "list_all keeps_off_queues (ba_ops (cm_patch c))" using proper by (simp add: proper_command_def Ok)
    show ?thesis
    proof (cases rule: submit_cases [of ?K env ?c1 ?rt1])
      case (submitted report rt2)
      note effect = processed_effect [OF ready1 off refl submitted(2,3)]
      let ?t = "?totals\<lparr>to_processed := to_processed ?totals + 1,
          to_effect_report := add_report (to_effect_report ?totals) (sr_effect_report report)\<rparr>"
      have "execute_one ?K env e totals rt = (Ok ?t, rt2)"
        using submitted(1) by (simp add: execute_one_def h r Ok Let_def)
      moreover have "processed_as e (cm_scheduled_actions c) totals rt ?t rt2"
        using effect(2,3) submitted(4) by (simp add: processed_as_def same)
      ultimately show ?thesis using that effect(1) r Ok by blast
    next
      case (rejected err rt2)
      have ready2: "queue_ready rt2" using queue_readyI [OF ready1, of rt2] queue_readyD [OF ready1] rejected(2) by simp
      let ?msg = "''failed to submit action command: '' @ show_StateError err"
      obtain rt' where b: "bury ?K e ?msg ?totals rt2 = (Ok (?totals\<lparr>to_failed := to_failed ?totals + 1\<rparr>), rt')"
          "queue_ready rt'" "rt_next_id rt' = rt_next_id rt2"
          "queue_state rt' = (without e (pending rt2), failed_actions rt2 @ [dead_entry e ?msg], rt_next_id rt2)"
        using bury_effect [OF ready2] by blast
      have same2: "pending rt2 = pending rt" "failed_actions rt2 = failed_actions rt"
        using rejected(2) same by (simp_all add: pending_def failed_actions_def)
      have "execute_one ?K env e totals rt = (Ok (?totals\<lparr>to_failed := to_failed ?totals + 1\<rparr>), rt')"
        using rejected(1) b(1) by (simp add: execute_one_def h r Ok Let_def)
      moreover have "buried_as e totals rt (?totals\<lparr>to_failed := to_failed ?totals + 1\<rparr>) rt'"
        using b(3,4) rejected(3) by (auto simp: buried_as_def queue_state_def same2)
      ultimately show ?thesis using that b(2) by blast
    qed
  qed
qed

section \<open>The abstract queue\<close>

text \<open>
  The specification of the execution of a phase: each step takes one entry out of the queue, for good,
  and either appends new entries with fresh ids or files the entry as failed.
\<close>

type_synonym queue = "ScheduledActionEnvelope list \<times> FailedScheduledAction list \<times> nat"

inductive queue_step :: "queue \<Rightarrow> ScheduledActionEnvelope \<Rightarrow> queue \<Rightarrow> bool" where
  queue_processed: "e \<in> set q \<Longrightarrow> n + length acts \<le> n' \<Longrightarrow>
    queue_step (q, f, n) e (without e q @ envelopes n acts, f, n')"
| queue_buried: "e \<in> set q \<Longrightarrow> n \<le> n' \<Longrightarrow>
    queue_step (q, f, n) e (without e q, f @ [dead_entry e err], n')"

inductive queue_run :: "queue \<Rightarrow> ScheduledActionEnvelope list \<Rightarrow> queue \<Rightarrow> bool" where
  queue_done: "queue_run s [] s"
| queue_more: "queue_step s e s' \<Longrightarrow> queue_run s' es s'' \<Longrightarrow> queue_run s (e # es) s''"

inductive_cases queue_step_cases: "queue_step (q, f, n) e s'"

fun ids_ok :: "queue \<Rightarrow> bool" where
  "ids_ok (q, f, n) \<longleftrightarrow> distinct (map se_id q) \<and> list_all (\<lambda>e. se_id e < n) q"

lemma queue_run_append: "queue_run s es s' \<Longrightarrow> queue_run s' es' s'' \<Longrightarrow> queue_run s (es @ es') s''"
  by (induction rule: queue_run.induct) (auto intro: queue_run.intros)

lemma envelope_ids: "map se_id (envelopes n acts) = [n..<n + length acts]"
proof (induction acts arbitrary: n)
  case (Cons a as)
  have "[n..<n + Suc (length as)] = n # [Suc n..<Suc n + length as]" by (simp add: upt_conv_Cons del: upt_Suc)
  with Cons [of "Suc n"] show ?case by (simp del: upt_Suc)
qed simp

lemma envelope_actions: "map se_action (envelopes n acts) = acts"
  by (induction acts arbitrary: n) simp_all

lemma envelope_id_range: "e \<in> set (envelopes n acts) \<Longrightarrow> n \<le> se_id e \<and> se_id e < n + length acts"
proof -
  assume "e \<in> set (envelopes n acts)"
  then have "se_id e \<in> set (map se_id (envelopes n acts))" by simp
  then show ?thesis by (simp only: envelope_ids set_upt atLeastLessThan_iff)
qed

lemma set_without: "x \<in> set (without e q) \<longleftrightarrow> x \<in> set q \<and> se_id x \<noteq> se_id e"
  by (simp add: without_def)

lemma distinct_without: "distinct (map se_id q) \<Longrightarrow> distinct (map se_id (without e q))"
  by (simp add: without_def distinct_map_filter)

lemma queue_step_ids:
  assumes "queue_step (q, f, n) e (q', f', n')" and "ids_ok (q, f, n)"
  shows "ids_ok (q', f', n')" and "n \<le> n'" and "se_id e < n'" and "se_id e \<notin> se_id ` set q'"
    and "\<And>x. x \<in> set q \<Longrightarrow> se_id x \<noteq> se_id e \<Longrightarrow> x \<in> set q'"
    and "\<And>x. x \<in> set q' \<Longrightarrow> x \<in> set q \<or> n \<le> se_id x" and "e \<in> set q"
proof -
  from assms(1) have e: "e \<in> set q" and nn: "n \<le> n'" by (auto elim: queue_step_cases)
  have lt: "se_id x < n" if "x \<in> set q" for x using assms(2) that by (simp add: list_all_iff)
  from assms(1) obtain new where new: "q' = without e q @ new" "distinct (map se_id new)"
      "\<forall>x \<in> set new. n \<le> se_id x \<and> se_id x < n'"
  proof (cases rule: queue_step.cases)
    case (queue_processed acts)
    have "distinct (map se_id (envelopes n acts))" by (simp add: envelope_ids)
    moreover have "\<forall>x \<in> set (envelopes n acts). n \<le> se_id x \<and> se_id x < n'"
      using queue_processed envelope_id_range [of _ n acts] by fastforce
    ultimately show ?thesis using that queue_processed(1) by blast
  next
    case (queue_buried err)
    then show ?thesis using that [of "[]"] by simp
  qed
  show "n \<le> n'" "e \<in> set q" by fact+
  show "se_id e < n'" using lt [OF e] nn by simp
  have "se_id ` set (without e q) \<inter> se_id ` set new = {}"
    using lt new(3) by (fastforce simp: set_without)
  then have "distinct (map se_id q')"
    using new(1,2) distinct_without [of q e] assms(2) by simp
  moreover have "se_id x < n'" if "x \<in> set q'" for x
    using that lt nn new(1,3) by (fastforce simp: set_without)
  ultimately show "ids_ok (q', f', n')" by (simp add: list_all_iff)
  show "se_id e \<notin> se_id ` set q'" using lt [OF e] new(1,3) by (fastforce simp: set_without)
  show "x \<in> set q'" if "x \<in> set q" "se_id x \<noteq> se_id e" for x using that new(1) by (simp add: set_without)
  show "x \<in> set q \<or> n \<le> se_id x" if "x \<in> set q'" for x using that new(1,3) by (auto simp: set_without)
qed

text \<open>A run of the abstract queue takes each entry at most once, and loses none.\<close>

lemma queue_run_once:
  assumes "queue_run s hs s'" and "ids_ok s"
  shows "ids_ok s' \<and> distinct (map se_id hs) \<and> snd (snd s) \<le> snd (snd s') \<and>
    (\<forall>h \<in> set hs. se_id h < snd (snd s') \<and> se_id h \<notin> se_id ` set (fst s')) \<and>
    (\<forall>h \<in> set hs. h \<in> set (fst s) \<or> snd (snd s) \<le> se_id h) \<and>
    (\<forall>e \<in> set (fst s). e \<in> set hs \<or> e \<in> set (fst s')) \<and>
    (\<forall>e \<in> set (fst s'). e \<in> set (fst s) \<or> snd (snd s) \<le> se_id e)"
  using assms
proof (induction rule: queue_run.induct)
  case (queue_more s e s' es s'')
  obtain q f n q' f' n' where s: "s = (q, f, n)" "s' = (q', f', n')" by (metis prod.collapse)
  note step = queue_step_ids [OF queue_more.hyps(1) [unfolded s] queue_more.prems [unfolded s]]
  have ok: "ids_ok s'" using step(1) by (simp add: s)
  note ih = queue_more.IH [OF ok, unfolded s fst_conv snd_conv]
  have lt: "se_id x < n" if "x \<in> set q" for x using queue_more.prems that by (simp add: s list_all_iff)
  have e_new: "se_id e \<notin> se_id ` set es"
  proof
    assume "se_id e \<in> se_id ` set es"
    then obtain h where h: "h \<in> set es" "se_id h = se_id e" by auto
    then have "h \<in> set q' \<or> n' \<le> se_id e" using ih by fastforce
    with h(2) step(3,4) show False by (metis image_eqI leD)
  qed
  have gone: "se_id e \<notin> se_id ` set (fst s'')"
  proof
    assume "se_id e \<in> se_id ` set (fst s'')"
    then obtain h where h: "h \<in> set (fst s'')" "se_id h = se_id e" by auto
    then have "h \<in> set q' \<or> n' \<le> se_id e" using ih by fastforce
    with h(2) step(3,4) show False by (metis image_eqI leD)
  qed
  have same_id: "x = e" if "x \<in> set q" "se_id x = se_id e" for x
    using queue_more.prems that step(7) by (auto simp: s distinct_map dest: inj_onD)
  have kept: "x \<in> set (e # es) \<or> x \<in> set (fst s'')" if "x \<in> set q" for x
    using ih step(5) [OF that] same_id [OF that] by auto
  have from_start: "h \<in> set q \<or> n \<le> se_id h" if "h \<in> set es \<or> h \<in> set (fst s'')" for h
  proof -
    from that ih have "h \<in> set q' \<or> n' \<le> se_id h" by blast
    with step(2,6) show ?thesis by (meson order_trans)
  qed
  show ?case
    using ih step(2,3,7) e_new gone kept from_start by (auto simp: s)
qed simp

end
