(* ===== verification/Phase_Theorems.thy ===== *)
theory Phase_Theorems
  imports Phase_Laws
begin

text \<open>
  The theorems about a phase: its scheduled actions are handled exactly once, it ends when the actions
  schedule only smaller ones, and conflicts between its hooks are resolved.
\<close>

section \<open>Every action is handled once\<close>






text \<open>
  A runtime on a fresh store with one key of another plugin. The handler of \<open>spawn\<close> schedules a \<open>stop\<close>,
  the handler of \<open>stop\<close> fails; both count their calls in the world.
\<close>

definition demo_codec :: "unit runtime_key \<Rightarrow> nat codec" where
  "demo_codec _ = (\<lambda>_. Ok JNull, \<lambda>_. Err (KeyDecode [] []))"

definition demo_other :: "unit \<Rightarrow> (nat runtime_value, unit runtime_update) StateKey" where
  "demo_other _ = \<lparr>sk_key = ''count'', sk_merge = Exclusive, sk_apply = (\<lambda>v _. v), sk_default = OtherValue 0,
     sk_encode = (\<lambda>_. Ok JNull), sk_decode = (\<lambda>_. Err (KeyDecode [] []))\<rparr>"

definition demo_keys :: "(unit, nat, unit) keys" where
  "demo_keys = runtime_keys demo_codec demo_other"

definition demo_action :: "Phase \<Rightarrow> string \<Rightarrow> ScheduledAction" where
  "demo_action phase key = \<lparr>sa_phase = phase, sa_key = key, sa_payload = JNull\<rparr>"

definition demo_command :: "ScheduledAction list \<Rightarrow> (unit, unit) command" where
  "demo_command acts = command_new\<lparr>cm_scheduled_actions := acts\<rparr>"

definition demo_env :: "(unit, nat, unit, nat, unit, unit, unit) ExecutionEnv" where
  "demo_env = ExecutionEnv_empty\<lparr>ev_scheduled_action_handlers :=
     [(''spawn'', \<lambda>w _ _. (Ok (demo_command [demo_action BeforeInference ''stop'']), w + 1)),
      (''stop'', \<lambda>w _ _. (Err StateCancelled, w + 1))]\<rparr>"

definition demo_queue :: "ScheduledActionEnvelope list" where
  "demo_queue = [\<lparr>se_id = 1, se_action = demo_action BeforeInference ''spawn''\<rparr>,
     \<lparr>se_id = 2, se_action = demo_action StepEnd ''stop''\<rparr>]"

definition demo_runtime :: "nat \<Rightarrow> (unit, unit, nat, nat) PhaseRuntime" where
  "demo_runtime n = \<lparr>rt_store = snd (install_plugin_with_keys StateStore_new () ''phase-runtime'' (queue_plugin_keys demo_keys))
     \<lparr>ss_ext := [PendingScheduledActions \<mapsto> PendingValue demo_queue]\<rparr>, rt_next_id = n, rt_world = 0\<rparr>"

lemma demo_ready: "queue_ready (demo_runtime n)"
  by (simp add: queue_ready_def demo_runtime_def install_plugin_with_keys_def Let_def StateStore_new_def
      PluginRegistry_default_def queue_plugin_keys_def KeyRegistration_new_def demo_keys_def ensure_key_def
      add_key_def pending_def failed_actions_def)

lemma demo_well_behaved: "well_behaved demo_env"
  by (simp add: well_behaved_def demo_env_def ExecutionEnv_empty_def proper_command_def demo_command_def
      command_new_def batch_new_def)


text \<open>
  The counter of a new runtime starts at one, whatever the queue of its store holds: an action submitted
  after queued actions were restored can share its id with one of them, and is removed with it. Here one
  run of a phase empties a queue of two entries for another phase, neither handled nor filed as failed.
\<close>

theorem restored_ids_collide:
  "(case PhaseRuntime_new demo_keys () (rt_store (demo_runtime 0)) 0 of
      Ok rt \<Rightarrow>
        (case submit_command_inner demo_keys demo_env (demo_command [demo_action StepEnd ''spawn'']) rt of
           (Ok _, rt1) \<Rightarrow> map se_id (pending rt1) = [1, 2, 1] \<and>
             (case execute_scheduled_actions demo_keys demo_env BeforeInference 16 rt1 of
                (Ok _, rt2) \<Rightarrow> pending rt2 = [] \<and> length (failed_actions rt2) = 1 \<and>
                  list_all (\<lambda>f. sa_phase (fa_action f) \<noteq> StepEnd) (failed_actions rt2)
              | _ \<Rightarrow> False)
         | _ \<Rightarrow> False)
    | _ \<Rightarrow> False)"
  by code_simp

section \<open>A phase comes to an end\<close>

text \<open>Every action a handler schedules for the phase it runs in ranks below the one it handles.\<close>

definition descending :: "(ScheduledAction \<Rightarrow> nat) \<Rightarrow> ('k, 'v, 'u, 'w, 'tool, 'gate, 'tr) ExecutionEnv \<Rightarrow> Phase \<Rightarrow> bool" where
  "descending rank env phase \<longleftrightarrow> list_all (\<lambda>(key, h). \<forall>w snap payload. case fst (h w snap payload) of
       Ok c \<Rightarrow> list_all (\<lambda>b. sa_phase b = phase \<longrightarrow> rank b < rank \<lparr>sa_phase = phase, sa_key = key, sa_payload = payload\<rparr>)
         (cm_scheduled_actions c)
     | _ \<Rightarrow> True) (ev_scheduled_action_handlers env)"

definition ranked_below ::
  "(ScheduledAction \<Rightarrow> nat) \<Rightarrow> ('k, 'v, 'u, 'w, 'tool, 'gate, 'tr) ExecutionEnv \<Rightarrow> Phase \<Rightarrow> nat \<Rightarrow>
   ScheduledActionEnvelope list \<Rightarrow> bool" where
  "ranked_below rank env phase m q \<longleftrightarrow> list_all (\<lambda>e. rank (se_action e) < m) (filter (matching env phase) q)"

lemma descendingD:
  assumes "descending rank env phase" and "map_of (ev_scheduled_action_handlers env) (sa_key a) = Some h"
    and "h w snap (sa_payload a) = (Ok c, w')" and "sa_phase a = phase"
    and "b \<in> set (cm_scheduled_actions c)" and "sa_phase b = phase"
  shows "rank b < rank a"
proof -
  have "\<forall>w snap payload. case fst (h w snap payload) of
       Ok c \<Rightarrow> list_all (\<lambda>b. sa_phase b = phase \<longrightarrow> rank b < rank \<lparr>sa_phase = phase, sa_key = sa_key a, sa_payload = payload\<rparr>)
         (cm_scheduled_actions c)
     | _ \<Rightarrow> True"
    using assms(1) map_of_SomeD [OF assms(2)] unfolding descending_def list_all_iff by blast
  then have "case fst (h w snap (sa_payload a)) of
       Ok c \<Rightarrow> list_all (\<lambda>b. sa_phase b = phase \<longrightarrow> rank b < rank \<lparr>sa_phase = phase, sa_key = sa_key a, sa_payload = sa_payload a\<rparr>)
         (cm_scheduled_actions c)
     | _ \<Rightarrow> True" by blast
  with assms(3-6)
  have "rank b < rank \<lparr>sa_phase = sa_phase a, sa_key = sa_key a, sa_payload = sa_payload a\<rparr>"
    by (simp add: list_all_iff)
  then show ?thesis by (cases a) simp
qed

lemma execute_batch_below:
  assumes "queue_ready rt" and "well_behaved env" and "descending rank env phase"
    and "\<forall>e \<in> set es. matching env phase e \<and> rank (se_action e) < Suc m"
  obtains totals' rt' where "execute_batch (runtime_keys codec K) env es totals rt = (Ok totals', rt')" "queue_ready rt'"
    "\<forall>x \<in> set (pending rt'). matching env phase x \<longrightarrow>
       x \<in> set (pending rt) \<and> se_id x \<notin> se_id ` set es \<or> rank (se_action x) < m"
  using assms
proof (induction es arbitrary: totals rt thesis)
  case Nil
  then show ?case by auto
next
  case (Cons e es)
  from Cons.prems(5) have e: "matching env phase e" "rank (se_action e) < Suc m" by auto
  then obtain h where h: "map_of (ev_scheduled_action_handlers env) (sa_key (se_action e)) = Some h"
    by (auto simp: matching_def)
  obtain totals1 rt1 where one: "execute_one (runtime_keys codec K) env e totals rt = (Ok totals1, rt1)" "queue_ready rt1"
    "(\<exists>w snap c w'. h w snap (sa_payload (se_action e)) = (Ok c, w') \<and>
        processed_as e (cm_scheduled_actions c) totals rt totals1 rt1) \<or> buried_as e totals rt totals1 rt1"
    by (rule execute_one_effect [OF Cons.prems(2,3) h])
  have left: "x \<in> set (pending rt) \<and> se_id x \<noteq> se_id e \<or> rank (se_action x) < m"
    if x: "x \<in> set (pending rt1)" "matching env phase x" for x
    using one(3)
  proof (elim disjE exE conjE)
    fix w snap c w' assume c: "h w snap (sa_payload (se_action e)) = (Ok c, w')"
      and p: "processed_as e (cm_scheduled_actions c) totals rt totals1 rt1"
    from p x(1) consider "x \<in> set (without e (pending rt))" | "x \<in> set (envelopes (rt_next_id rt) (cm_scheduled_actions c))"
      by (auto simp: processed_as_def)
    then show ?thesis
    proof cases
      case 1
      then show ?thesis by (simp add: set_without)
    next
      case 2
      then have "se_action x \<in> set (map se_action (envelopes (rt_next_id rt) (cm_scheduled_actions c)))" by simp
      then have "se_action x \<in> set (cm_scheduled_actions c)" by (simp only: envelope_actions)
      from descendingD [OF Cons.prems(4) h c _ this] e x(2) show ?thesis by (auto simp: matching_def)
    qed
  next
    assume "buried_as e totals rt totals1 rt1"
    with x(1) show ?thesis by (auto simp: buried_as_def set_without)
  qed
  obtain totals' rt' where rest: "execute_batch (runtime_keys codec K) env es totals1 rt1 = (Ok totals', rt')" "queue_ready rt'"
    "\<forall>x \<in> set (pending rt'). matching env phase x \<longrightarrow>
       x \<in> set (pending rt1) \<and> se_id x \<notin> se_id ` set es \<or> rank (se_action x) < m"
    using Cons.IH [OF _ one(2) Cons.prems(3,4), of totals1] Cons.prems(5) by (metis list.set_intros(2))
  show ?case
  proof (rule Cons.prems(1))
    show "execute_batch (runtime_keys codec K) env (e # es) totals rt = (Ok totals', rt')" by (simp add: one(1) rest(1))
    show "\<forall>x \<in> set (pending rt'). matching env phase x \<longrightarrow>
       x \<in> set (pending rt) \<and> se_id x \<notin> se_id ` set (e # es) \<or> rank (se_action x) < m"
      using rest(3) left by auto
  qed (rule rest(2))
qed

lemma execute_rounds_converge:
  assumes "queue_ready rt" and "well_behaved env" and "descending rank env phase"
    and "ranked_below rank env phase m (pending rt)" and "rounds + m < unat max_rounds"
  shows "\<exists>report rt'. execute_rounds (runtime_keys codec K) env phase max_rounds rounds totals rt = (Ok report, rt') \<and>
    pr_rounds report \<le> rounds + m + 1 \<and> filter (matching env phase) (pending rt') = []"
  using assms
proof (induction m arbitrary: rounds totals rt)
  case 0
  then have "filter (matching env phase) (pending rt) = []"
    by (cases "filter (matching env phase) (pending rt)") (auto simp: ranked_below_def)
  with 0 show ?case by (auto simp: execute_rounds.simps [of _ env phase max_rounds rounds totals rt])
next
  case (Suc m)
  let ?K = "runtime_keys codec K" and ?batch = "filter (matching env phase) (pending rt)"
  have within: "\<not> unat max_rounds < rounds + 1" using Suc.prems(5) by simp
  show ?case
  proof (cases "?batch = []")
    case True
    with within show ?thesis by (auto simp: execute_rounds.simps [of ?K env phase max_rounds rounds totals rt])
  next
    case False
    have "\<forall>e \<in> set ?batch. matching env phase e \<and> rank (se_action e) < Suc m"
      using Suc.prems(4) by (simp add: ranked_below_def list_all_iff)
    then obtain totals1 rt1 where batch: "execute_batch ?K env ?batch totals rt = (Ok totals1, rt1)" "queue_ready rt1"
      "\<forall>x \<in> set (pending rt1). matching env phase x \<longrightarrow>
         x \<in> set (pending rt) \<and> se_id x \<notin> se_id ` set ?batch \<or> rank (se_action x) < m"
      using execute_batch_below [OF Suc.prems(1-3)] by metis
    have "ranked_below rank env phase m (pending rt1)"
      using batch(3) by (auto simp: ranked_below_def list_all_iff)
    from Suc.IH [OF batch(2) Suc.prems(2,3) this, of "rounds + 1" totals1] Suc.prems(5)
    show ?thesis using within False batch(1)
      by (auto simp: execute_rounds.simps [of ?K env phase max_rounds rounds totals rt])
  qed
qed

text \<open>
  C23: A phase ends within its round limit. Handlers neither panic nor touch the queue keys
  (\<open>well_behaved\<close>), and no chain of actions that schedule one another within the phase is as long as
  the limit. Then executing the phase succeeds, in at most one round more than the longest chain, and
  leaves no action of the phase that has a registered handler; actions of the phase without a handler
  stay queued.
\<close>

theorem phase_converges:
  assumes "queue_ready rt" and "well_behaved env" and "descending rank env phase"
    and "ranked_below rank env phase m (pending rt)" and "m < unat max_rounds"
  shows "\<exists>report rt'. execute_scheduled_actions (runtime_keys codec K) env phase max_rounds rt = (Ok report, rt') \<and>
    pr_rounds report \<le> m + 1 \<and> filter (matching env phase) (pending rt') = []"
  using execute_rounds_converge [OF assms(1-4), of 0 max_rounds codec K no_totals] assms(5)
  by (simp add: execute_scheduled_actions_def)

theorem phase_converges_witness:
  "\<exists>report rt'. execute_scheduled_actions demo_keys demo_env BeforeInference 3 (demo_runtime 3) = (Ok report, rt') \<and>
     pr_rounds report \<le> 3"
proof -
  let ?rank = "\<lambda>a. if sa_key a = ''spawn'' then 1 else 0 :: nat"
  have "descending ?rank demo_env BeforeInference"
    by (simp add: descending_def demo_env_def ExecutionEnv_empty_def demo_command_def demo_action_def)
  moreover have "ranked_below ?rank demo_env BeforeInference 2 (pending (demo_runtime 3))" by code_simp
  ultimately show ?thesis
    using phase_converges [OF demo_ready demo_well_behaved, of ?rank BeforeInference 2 3 3 demo_codec demo_other]
    by (auto simp: demo_keys_def)
qed

end
