(* ===== verification/Hook_Conflicts.thy ===== *)
theory Hook_Conflicts
  imports Phase_Theorems
begin

text \<open>
  Gathering the hooks of a phase: commands that touch the same exclusive key are split into a batch that
  merges and hooks that run again, so hooks that only use what is registered always get committed.
\<close>

section \<open>Splitting conflicting commands\<close>

fun exclusive_apart :: "(string \<Rightarrow> MergeStrategy) \<Rightarrow> string set \<Rightarrow> ('k, 'u) command list \<Rightarrow> bool" where
  "exclusive_apart strategy seen [] = True"
| "exclusive_apart strategy seen (c # cs) \<longleftrightarrow>
     list_all (\<lambda>k. strategy k = Exclusive \<longrightarrow> k \<notin> seen) (ba_touched_keys (cm_patch c)) \<and>
     exclusive_apart strategy (seen \<union> {k \<in> set (ba_touched_keys (cm_patch c)). strategy k = Exclusive}) cs"

lemma partition_apart:
  "partition_loop strategy cs seen = (batch, deferred) \<Longrightarrow>
   exclusive_apart strategy seen batch \<and> set batch \<subseteq> snd ` set cs \<and> set deferred \<subseteq> fst ` set cs"
proof (induction cs arbitrary: seen batch deferred)
  case (Cons e cs)
  obtain i c where e: "e = (i, c)" by fastforce
  let ?touched = "ba_touched_keys (cm_patch c)"
  show ?case
  proof (cases "list_ex (\<lambda>k. strategy k = Exclusive \<and> k \<in> seen) ?touched")
    case True
    obtain b d where bd: "partition_loop strategy cs seen = (b, d)" by fastforce
    with True Cons.prems have "batch = b" "deferred = i # d" by (simp_all add: e Let_def)
    with Cons.IH [OF bd] show ?thesis by (auto simp: e)
  next
    case False
    obtain b d where bd: "partition_loop strategy cs (seen \<union> {k \<in> set ?touched. strategy k = Exclusive}) = (b, d)"
      by fastforce
    with False Cons.prems have "batch = c # b" "deferred = d" by (simp_all add: e Let_def)
    moreover have "list_all (\<lambda>k. strategy k = Exclusive \<longrightarrow> k \<notin> seen) ?touched"
      using False by (auto simp: list_ex_iff list_all_iff)
    ultimately show ?thesis using Cons.IH [OF bd] by (auto simp: e)
  qed
qed simp

lemma overlap_loop_append:
  "overlap_loop strategy (xs @ ys) seen \<longleftrightarrow>
   overlap_loop strategy xs seen \<or> overlap_loop strategy ys (seen \<union> {k \<in> set xs. strategy k = Exclusive})"
proof (induction xs arbitrary: seen)
  case (Cons x xs)
  have "insert x seen \<union> {k \<in> set xs. strategy k = Exclusive} = seen \<union> {k \<in> set (x # xs). strategy k = Exclusive}"
    if "strategy x = Exclusive" using that by auto
  moreover have "{k \<in> set (x # xs). strategy k = Exclusive} = {k \<in> set xs. strategy k = Exclusive}"
    if "strategy x \<noteq> Exclusive" using that by auto
  ultimately show ?case using Cons by auto
qed simp

lemma overlap_loop_seen: "\<not> overlap_loop strategy ks seen \<Longrightarrow> list_all (\<lambda>k. strategy k = Exclusive \<longrightarrow> k \<notin> seen) ks"
  by (induction ks arbitrary: seen) (auto simp: list_all_iff split: if_splits)

lemma no_overlap_apart:
  "\<not> overlap_loop strategy (concat (map (\<lambda>(_, c). ba_touched_keys (cm_patch c)) cs)) seen \<Longrightarrow>
   exclusive_apart strategy seen (map snd cs)"
proof (induction cs arbitrary: seen)
  case (Cons e cs)
  obtain i c where e: "e = (i, c)" by fastforce
  from Cons.prems have "\<not> overlap_loop strategy (ba_touched_keys (cm_patch c)) seen"
    and "\<not> overlap_loop strategy (concat (map (\<lambda>(_, c). ba_touched_keys (cm_patch c)) cs))
        (seen \<union> {k \<in> set (ba_touched_keys (cm_patch c)). strategy k = Exclusive})"
    by (simp_all add: e overlap_loop_append)
  with Cons.IH overlap_loop_seen show ?case by (simp add: e)
qed simp

section \<open>Commands that can be committed\<close>

definition registered ::
  "('p, 'k runtime_key) PluginRegistry \<Rightarrow> ('k, 'v, 'u, 'w, 'tool, 'gate, 'tr) ExecutionEnv \<Rightarrow> ('k, 'u) command \<Rightarrow> bool" where
  "registered rg env c \<longleftrightarrow>
     list_all (\<lambda>key. is_ok (ensure_key rg key)) (ba_touched_keys (cm_patch c)) \<and>
     list_all (\<lambda>a. map_of (ev_scheduled_action_handlers env) (sa_key a) \<noteq> None) (cm_scheduled_actions c) \<and>
     list_all (\<lambda>e. map_of (ev_effect_handlers env) (te_key e) \<noteq> None) (cm_effects c)"

definition based_at :: "u64 \<Rightarrow> ('k, 'u) command \<Rightarrow> bool" where
  "based_at revision c \<longleftrightarrow> ba_base_revision (cm_patch c) = None \<or> ba_base_revision (cm_patch c) = Some revision"

definition exclusive_keys :: "(string \<Rightarrow> MergeStrategy) \<Rightarrow> ('k, 'u) command \<Rightarrow> string set" where
  "exclusive_keys strategy c = {k \<in> set (ba_touched_keys (cm_patch c)). strategy k = Exclusive}"

lemma merge_one:
  assumes "based_at revision c" and "based_at revision d"
    and "list_all (\<lambda>k. strategy k = Exclusive \<longrightarrow> k \<notin> set (ba_touched_keys (cm_patch c))) (ba_touched_keys (cm_patch d))"
  obtains e where "command_merge_parallel c d strategy = Ok e" "based_at revision e"
    "registered rg env c \<Longrightarrow> registered rg env d \<Longrightarrow> registered rg env e"
    "exclusive_keys strategy e = exclusive_keys strategy c \<union> exclusive_keys strategy d"
proof -
  from assms(1,2) obtain base where base: "reconcile (ba_base_revision (cm_patch c)) (ba_base_revision (cm_patch d)) = Ok base"
      "base = None \<or> base = Some revision"
    by (auto simp: based_at_def)
  have "find (\<lambda>key. key \<in> set (ba_touched_keys (cm_patch c)) \<and> strategy key = Exclusive) (ba_touched_keys (cm_patch d)) = None"
    using assms(3) by (auto simp: find_None_iff list_all_iff)
  with base(1) have "merge_parallel (cm_patch c) (cm_patch d) strategy = Ok (append_batch (cm_patch c) (cm_patch d) base)"
    by (simp add: merge_parallel_def)
  then have "command_merge_parallel c d strategy = Ok \<lparr>cm_patch = append_batch (cm_patch c) (cm_patch d) base,
      cm_scheduled_actions = cm_scheduled_actions c @ cm_scheduled_actions d, cm_effects = cm_effects c @ cm_effects d\<rparr>"
    (is "_ = Ok ?e") by (simp add: command_merge_parallel_def)
  moreover have "based_at revision ?e" using base(2) by (simp add: based_at_def append_batch_def)
  moreover have "registered rg env ?e" if "registered rg env c" "registered rg env d"
    using that by (simp add: registered_def append_batch_def)
  moreover have "exclusive_keys strategy ?e = exclusive_keys strategy c \<union> exclusive_keys strategy d"
    by (auto simp: exclusive_keys_def append_batch_def)
  ultimately show ?thesis by (rule that)
qed

lemma merge_all_apart:
  assumes "exclusive_apart strategy seen cs" and "exclusive_keys strategy acc \<subseteq> seen"
    and "based_at revision acc" and "registered rg env acc"
    and "\<forall>c \<in> set cs. based_at revision c \<and> registered rg env c"
  shows "\<exists>m. merge_all_from acc cs strategy = Ok m \<and> based_at revision m \<and> registered rg env m"
  using assms
proof (induction cs arbitrary: acc seen)
  case (Cons c cs)
  have "list_all (\<lambda>k. strategy k = Exclusive \<longrightarrow> k \<notin> set (ba_touched_keys (cm_patch acc))) (ba_touched_keys (cm_patch c))"
    using Cons.prems(1,2) by (auto simp: list_all_iff exclusive_keys_def)
  then obtain e where e: "command_merge_parallel acc c strategy = Ok e" "based_at revision e"
      "registered rg env acc \<Longrightarrow> registered rg env c \<Longrightarrow> registered rg env e"
      "exclusive_keys strategy e = exclusive_keys strategy acc \<union> exclusive_keys strategy c"
    using merge_one [of revision acc c strategy rg env] Cons.prems(3,5) by auto
  have "exclusive_keys strategy e \<subseteq> seen \<union> {k \<in> set (ba_touched_keys (cm_patch c)). strategy k = Exclusive}"
    using e(4) Cons.prems(2) by (auto simp: exclusive_keys_def)
  moreover have "exclusive_apart strategy (seen \<union> {k \<in> set (ba_touched_keys (cm_patch c)). strategy k = Exclusive}) cs"
    using Cons.prems(1) by simp
  moreover have "registered rg env e" using e(3) Cons.prems(4,5) by simp
  moreover have "\<forall>c \<in> set cs. based_at revision c \<and> registered rg env c" using Cons.prems(5) by simp
  ultimately have "\<exists>m. merge_all_from e cs strategy = Ok m \<and> based_at revision m \<and> registered rg env m"
    using Cons.IH e(2) by blast
  then show ?case by (simp add: e(1))
qed simp

lemma registered_new: "registered rg env command_new" and based_at_new: "based_at revision command_new"
  and exclusive_new: "exclusive_keys strategy command_new = {}"
  by (simp_all add: registered_def based_at_def exclusive_keys_def command_new_def batch_new_def)

section \<open>Hooks are committed\<close>

definition queue_registered :: "('p, 'k runtime_key) PluginRegistry \<Rightarrow> bool" where
  "queue_registered rg \<longleftrightarrow> is_ok (ensure_key rg ''__runtime.pending_scheduled_actions'')"

lemma submit_patch_keys:
  "ba_base_revision (submit_patch (runtime_keys codec K) n c) = ba_base_revision (cm_patch c) \<and>
   set (ba_touched_keys (submit_patch (runtime_keys codec K) n c)) \<subseteq>
     insert ''__runtime.pending_scheduled_actions'' (set (ba_touched_keys (cm_patch c)))"
proof -
  let ?add = "\<lambda>b e. batch_update (runtime_keys codec K) b PendingScheduledActions (PendingUpdate (Queue_Push e))"
  have "ba_base_revision (foldl ?add b es) = ba_base_revision b \<and>
      set (ba_touched_keys (foldl ?add b es)) \<subseteq> insert ''__runtime.pending_scheduled_actions'' (set (ba_touched_keys b))" for b es
  proof (induction es arbitrary: b)
    case (Cons e es)
    from Cons [of "?add b e"] show ?case by (simp add: batch_update_def)
  qed auto
  then show ?thesis by (simp add: submit_patch_def)
qed

lemma submit_registered:
  assumes "registered (ss_registry (rt_store rt)) env c" and "based_at (ss_revision (rt_store rt)) c"
    and "queue_registered (ss_registry (rt_store rt))"
  obtains report rt' where "submit_command_inner (runtime_keys codec K) env c rt = (Ok report, rt')"
    "ss_registry (rt_store rt') = ss_registry (rt_store rt)"
proof -
  let ?K = "runtime_keys codec K" and ?st = "rt_store rt"
  let ?patch = "submit_patch ?K (rt_next_id rt) c"
  have none: "find (\<lambda>a. map_of (ev_scheduled_action_handlers env) (sa_key a) = None) (cm_scheduled_actions c) = None"
    "find (\<lambda>e. map_of (ev_effect_handlers env) (te_key e) = None) (cm_effects c) = None"
    using assms(1) by (auto simp: registered_def find_None_iff list_all_iff)
  have "list_all (\<lambda>key. is_ok (ensure_key (ss_registry ?st) key)) (ba_touched_keys ?patch)"
    using submit_patch_keys [of codec K "rt_next_id rt" c] assms(1,3)
    by (auto simp: registered_def queue_registered_def list_all_iff)
  then have "is_ok (fst (commit ?K ?st ?patch))"
    using submit_patch_keys [of codec K "rt_next_id rt" c] assms(2)
    by (intro commit_registered) (auto simp: based_at_def)
  then obtain r ev st' where c: "commit ?K ?st ?patch = (Ok r, ev, st')" "ss_registry st' = ss_registry ?st"
    by (cases rule: commit_cases [of ?K ?st ?patch]) auto
  obtain report w' where d: "dispatch_effects env (store_snapshot st') (cm_effects c) no_effects (rt_world rt) = (report, w')"
    by fastforce
  show ?thesis
    by (rule that [of "\<lparr>sr_revision = r, sr_effect_report = report\<rparr>"
          "rt\<lparr>rt_next_id := rt_next_id rt + length (cm_scheduled_actions c) + length (cm_effects c),
            rt_store := st', rt_world := w'\<rparr>"])
      (use none c d in \<open>simp_all add: submit_command_inner_def Let_def\<close>)
qed

definition committable :: "('p, 'k, 'v, 'w) PhaseRuntime \<Rightarrow> ('k, 'v, 'u, 'w, 'tool, 'gate, 'tr) ExecutionEnv \<Rightarrow> ('k, 'u) command \<Rightarrow> bool" where
  "committable rt env c \<longleftrightarrow> registered (ss_registry (rt_store rt)) env c \<and> based_at (ss_revision (rt_store rt)) c"

lemma submit_nonempty_commits:
  assumes "committable rt env c" and "queue_registered (ss_registry (rt_store rt))"
  obtains acc' rt' where "submit_nonempty (runtime_keys codec K) env c acc rt = (Ok acc', rt')"
    "ss_registry (rt_store rt') = ss_registry (rt_store rt)"
proof (cases "command_is_empty c")
  case True
  then show ?thesis using that by (simp add: submit_nonempty_def)
next
  case False
  obtain report rt' where "submit_command_inner (runtime_keys codec K) env c rt = (Ok report, rt')"
    "ss_registry (rt_store rt') = ss_registry (rt_store rt)"
    using assms unfolding committable_def by (blast intro: submit_registered)
  with False that show ?thesis by (simp add: submit_nonempty_def)
qed

lemma submit_merged_commits:
  assumes "exclusive_apart (registry_merge_strategy (ss_registry (rt_store rt))) {} cs"
    and "\<forall>c \<in> set cs. committable rt env c" and "queue_registered (ss_registry (rt_store rt))"
  obtains acc' rt' where "submit_merged (runtime_keys codec K) env cs rt = (Ok acc', rt')"
    "ss_registry (rt_store rt') = ss_registry (rt_store rt)"
proof -
  have "\<exists>m. merge_all_from command_new cs (registry_merge_strategy (ss_registry (rt_store rt))) = Ok m \<and>
      based_at (ss_revision (rt_store rt)) m \<and> registered (ss_registry (rt_store rt)) env m"
    using assms(2) by (intro merge_all_apart [OF assms(1) _ based_at_new registered_new])
      (auto simp: exclusive_new committable_def)
  then obtain m where m: "merge_all_commands (rt_store rt) cs = Ok m" "committable rt env m"
    by (auto simp: merge_all_commands_def committable_def)
  show ?thesis
  proof (rule submit_nonempty_commits [OF m(2) assms(3)])
    fix acc' rt' assume "submit_nonempty (runtime_keys codec K) env m (0, no_effects) rt = (Ok acc', rt')"
      and "ss_registry (rt_store rt') = ss_registry (rt_store rt)"
    with that m(1) show thesis by (simp add: submit_merged_def)
  qed
qed

text \<open>
  A hook that always answers with a command over registered keys, actions and effects. The command names
  the revision of the snapshot the hook was given, or none.
\<close>

definition hook_ok ::
  "('p, 'k runtime_key) PluginRegistry \<Rightarrow> ('k, 'v, 'u, 'w, 'tool, 'gate, 'tr) ExecutionEnv \<Rightarrow>
   ('k, 'v, 'u, 'w) TaggedPhaseHook \<Rightarrow> bool" where
  "hook_ok rg env h \<longleftrightarrow> (\<forall>w snap. case fst (th_hook h w snap) of
       Ok c \<Rightarrow> based_at (fst snap) c \<and> registered rg env c
     | _ \<Rightarrow> False)"

lemma hook_okD:
  assumes "hook_ok rg env h"
  obtains c w' where "th_hook h w snap = (Ok c, w')" "based_at (fst snap) c" "registered rg env c"
proof -
  obtain r w' where r: "th_hook h w snap = (r, w')" by fastforce
  have "case fst (th_hook h w snap) of Ok c \<Rightarrow> based_at (fst snap) c \<and> registered rg env c | _ \<Rightarrow> False"
    using assms unfolding hook_ok_def by blast
  with r that show ?thesis by (cases r) auto
qed

lemma based_on_registered: "registered rg env c \<Longrightarrow> registered rg env (based_on revision c)"
  by (simp add: registered_def based_on_def with_base_revision_def)

lemma based_on_at: "based_at revision c \<Longrightarrow> based_at revision (based_on revision c)"
  by (simp add: based_at_def based_on_def with_base_revision_def)

lemma run_all_ok:
  assumes "run_all hs snap w = (rs, w')" and "list_all (hook_ok rg env) hs"
  shows "length rs = length hs \<and>
    (\<forall>r \<in> set rs. \<exists>c. r = Ok c \<and> based_at (fst snap) c \<and> registered rg env c)"
  using assms
proof (induction hs arbitrary: rs w w')
  case (Cons h hs)
  obtain c w1 where h: "th_hook h w snap = (Ok c, w1)" "based_at (fst snap) c" "registered rg env c"
    using Cons.prems(2) hook_okD [of rg env h w snap] by auto
  obtain rs1 w2 where rest: "run_all hs snap w1 = (rs1, w2)" by fastforce
  have "rs = Ok (based_on (fst snap) c) # rs1" using Cons.prems(1) by (simp add: h(1) rest)
  with Cons.IH [OF rest] Cons.prems(2) based_on_at [OF h(2)] based_on_registered [OF h(3)] show ?case by auto
qed simp

lemma collect_indexed_ok:
  assumes "\<forall>r \<in> set rs. \<exists>c. r = Ok c \<and> P c"
  shows "\<exists>indexed. collect_indexed i rs = Ok indexed \<and>
    (\<forall>e \<in> set indexed. fst e < i + length rs \<and> P (snd e))"
  using assms
proof (induction rs arbitrary: i)
  case (Cons r rs)
  then obtain c where c: "r = Ok c" "P c" by auto
  from Cons obtain indexed where "collect_indexed (i + 1) rs = Ok indexed"
      "\<forall>e \<in> set indexed. fst e < i + 1 + length rs \<and> P (snd e)" by (metis list.set_intros(2))
  with c show ?case by auto
qed simp

lemma join_results_ok:
  assumes "\<forall>r \<in> set rs. \<exists>c. r = Ok c \<and> P c"
  obtains indexed where "join_results rs = Ok indexed" "\<forall>e \<in> set indexed. fst e < length rs \<and> P (snd e)"
proof -
  have "find is_panic rs = None" using assms by (force simp: find_None_iff)
  with that collect_indexed_ok [OF assms, of 0] show ?thesis by (auto simp: join_results_def)
qed

lemma run_deferred_commits:
  assumes "list_all (hook_ok (ss_registry (rt_store rt)) env) hooks" and "\<forall>i \<in> set is. i < length hooks"
    and "queue_registered (ss_registry (rt_store rt))"
  shows "\<exists>acc' rt'. run_deferred (runtime_keys codec K) env hooks is acc rt = (Ok acc', rt')"
  using assms
proof (induction "is" arbitrary: acc rt)
  case (Cons i "is")
  let ?snap = "store_snapshot (rt_store rt)"
  have "hook_ok (ss_registry (rt_store rt)) env (hooks ! i)" using Cons.prems(1,2) by (simp add: list_all_length)
  then obtain c w' where h: "th_hook (hooks ! i) (rt_world rt) ?snap = (Ok c, w')" "based_at (fst ?snap) c"
      "registered (ss_registry (rt_store rt)) env c" by (rule hook_okD)
  let ?rt1 = "rt\<lparr>rt_world := w'\<rparr>"
  have "committable ?rt1 env (based_on (fst ?snap) c)"
    using based_on_at [OF h(2)] based_on_registered [OF h(3)] by (simp add: committable_def store_snapshot_def)
  moreover have "queue_registered (ss_registry (rt_store ?rt1))" using Cons.prems(3) by simp
  ultimately obtain acc' rt2 where s: "submit_nonempty (runtime_keys codec K) env (based_on (fst ?snap) c) acc ?rt1 = (Ok acc', rt2)"
      "ss_registry (rt_store rt2) = ss_registry (rt_store ?rt1)"
    by (rule submit_nonempty_commits)
  have "\<exists>acc'' rt'. run_deferred (runtime_keys codec K) env hooks is acc' rt2 = (Ok acc'', rt')"
    using Cons.prems s(2) by (intro Cons.IH) simp_all
  then show ?case by (simp add: h(1) s(1) Let_def)
qed simp

text \<open>
  C27: Gathering commits whatever exclusive keys the hooks of a phase fight over. The hooks answer with
  commands over registered keys, actions and effects that name no base revision or that of the snapshot
  they were given, the queue of scheduled actions is registered, and nothing else commits to the store
  meanwhile. Then no conflict, no stale revision and no unknown key comes back: a hook that lost a fight
  runs again on the store the others have left.
\<close>

theorem hooks_always_commit:
  assumes "list_all (hook_ok (ss_registry (rt_store rt)) env) (hooks_for_phase env phase)"
    and "queue_registered (ss_registry (rt_store rt))"
  shows "\<exists>acc rt'. gather_and_commit_hooks (runtime_keys codec K) env phase active rt = (Ok acc, rt')"
proof -
  let ?hooks = "filter_hooks env phase active" and ?K = "runtime_keys codec K"
  let ?strategy = "registry_merge_strategy (ss_registry (rt_store rt))"
  have hooks: "list_all (hook_ok (ss_registry (rt_store rt)) env) ?hooks"
    using assms(1) by (simp add: filter_hooks_def list_all_iff)
  obtain rs w' where run: "run_all ?hooks (store_snapshot (rt_store rt)) (rt_world rt) = (rs, w')" by fastforce
  let ?rt1 = "rt\<lparr>rt_world := w'\<rparr>"
  have "\<forall>r \<in> set rs. \<exists>c. r = Ok c \<and> committable ?rt1 env c" and len: "length rs = length ?hooks"
    using run_all_ok [OF run hooks] by (auto simp: committable_def store_snapshot_def)
  then obtain indexed where joined: "join_results rs = Ok indexed"
      "\<forall>e \<in> set indexed. fst e < length rs \<and> committable ?rt1 env (snd e)"
    using join_results_ok [of rs "committable ?rt1 env"] by blast
  have strategy: "registry_merge_strategy (ss_registry (rt_store ?rt1)) = ?strategy" by simp
  have queue: "queue_registered (ss_registry (rt_store ?rt1))" using assms(2) by simp
  show ?thesis
  proof (cases "?hooks = [] \<or> indexed = []")
    case True
    then show ?thesis by (auto simp: gather_and_commit_hooks_def Let_def run joined(1))
  next
    case some: False
    show ?thesis
    proof (cases "has_exclusive_key_overlap indexed ?strategy")
      case False
      then have "exclusive_apart ?strategy {} (map snd indexed)"
        by (intro no_overlap_apart) (simp add: has_exclusive_key_overlap_def)
      moreover have "\<forall>c \<in> set (map snd indexed). committable ?rt1 env c" using joined(2) by auto
      ultimately obtain acc rt' where "submit_merged ?K env (map snd indexed) ?rt1 = (Ok acc, rt')"
        by (metis submit_merged_commits strategy queue)
      with some False show ?thesis by (simp add: gather_and_commit_hooks_def Let_def run joined(1))
    next
      case True
      obtain batch deferred where split: "partition_commands indexed ?strategy = (batch, deferred)" by fastforce
      note parts = partition_apart [OF split [unfolded partition_commands_def]]
      have batch: "\<forall>c \<in> set batch. committable ?rt1 env c" using parts joined(2) by blast
      have "\<forall>i \<in> set deferred. i < length ?hooks" using parts joined(2) len by fastforce
      then have rerun: "\<exists>acc' rt'. run_deferred ?K env ?hooks deferred acc rt2 = (Ok acc', rt')"
        if "ss_registry (rt_store rt2) = ss_registry (rt_store rt)" for acc rt2
        using that hooks assms(2) by (intro run_deferred_commits) simp_all
      show ?thesis
      proof (cases "batch = []")
        case True
        with some \<open>has_exclusive_key_overlap indexed ?strategy\<close> rerun [of ?rt1] split show ?thesis
          by (simp add: gather_and_commit_hooks_def Let_def run joined(1))
      next
        case False
        obtain acc rt2 where "submit_merged ?K env batch ?rt1 = (Ok acc, rt2)"
            "ss_registry (rt_store rt2) = ss_registry (rt_store rt)"
          using submit_merged_commits [of ?rt1 batch env codec K] parts batch queue strategy by auto
        with some False \<open>has_exclusive_key_overlap indexed ?strategy\<close> rerun [of rt2] split show ?thesis
          by (simp add: gather_and_commit_hooks_def Let_def run joined(1))
      qed
    qed
  qed
qed

text \<open>Two hooks that update one exclusive key: the second runs again after the first is committed.\<close>

definition fighting_hook :: "string \<Rightarrow> (unit, nat, unit, nat) TaggedPhaseHook" where
  "fighting_hook name = \<lparr>th_plugin_id = name, th_hook = \<lambda>w _.
     (Ok (command_new\<lparr>cm_patch := batch_update demo_keys batch_new (OtherKey ()) (OtherUpdate ())\<rparr>), w + 1)\<rparr>"

definition fighting_env :: "(unit, nat, unit, nat, unit, unit, unit) ExecutionEnv" where
  "fighting_env = ExecutionEnv_empty\<lparr>ev_phase_hooks := [(StepEnd, [fighting_hook ''a'', fighting_hook ''b''])]\<rparr>"

definition fighting_runtime :: "(unit, unit, nat, nat) PhaseRuntime" where
  "fighting_runtime = \<lparr>rt_store = register_keys (rt_store (demo_runtime 0)) [KeyRegistration_new demo_keys (OtherKey ()) queue_options],
     rt_next_id = 1, rt_world = 0\<rparr>"

theorem hooks_always_commit_witness:
  "\<exists>acc rt'. gather_and_commit_hooks demo_keys fighting_env StepEnd {} fighting_runtime = (Ok acc, rt') \<and>
     rt_world rt' = 3 \<and> ss_revision (rt_store rt') = 2"
proof -
  have known: "is_ok (ensure_key (ss_registry (rt_store fighting_runtime)) ''count'')"
    and queue: "queue_registered (ss_registry (rt_store fighting_runtime))" by code_simp+
  have "list_all (hook_ok (ss_registry (rt_store fighting_runtime)) fighting_env) (hooks_for_phase fighting_env StepEnd)"
    using known
    by (simp add: fighting_env_def hooks_for_phase_def ExecutionEnv_empty_def hook_ok_def fighting_hook_def registered_def based_at_def
        command_new_def batch_new_def batch_update_def demo_keys_def demo_other_def)
  from hooks_always_commit [OF this queue, of demo_codec demo_other "{}"]
  obtain acc rt' where g: "gather_and_commit_hooks demo_keys fighting_env StepEnd {} fighting_runtime = (Ok acc, rt')"
    by (auto simp: demo_keys_def)
  have "case gather_and_commit_hooks demo_keys fighting_env StepEnd {} fighting_runtime of
      (r, rt') \<Rightarrow> rt_world rt' = 3 \<and> ss_revision (rt_store rt') = 2" by code_simp
  with g show ?thesis by simp
qed

end
