(* ===== verification/Context_Window.thy ===== *)
theory Context_Window
  imports Inference_Error Tool_Gate
begin

text \<open>
  What of a conversation fits the context window: the policy and its clamping to a model
  (\<^verbatim>\<open>contract/inference.rs\<close>, \<^verbatim>\<open>context/effective_policy.rs\<close>), the compaction of long tool results and
  the truncation of the history (\<^verbatim>\<open>context/transform/\<close>), the repair of dangling tool calls
  (\<^verbatim>\<open>contract/transform.rs\<close>) and the recovery of truncated answers (\<^verbatim>\<open>context/truncation.rs\<close>).

  Token counts are natural numbers: they are sums of lengths of data in memory. The length of a
  printed tool schema is the parameter \<open>schema_len\<close>.
\<close>

section \<open>The policy\<close>

datatype ContextCompactionMode = KeepRecentRawSuffix | CompactToSafeFrontier

record ContextWindowPolicy =
  cw_max_context_tokens :: usize
  cw_max_output_tokens :: usize
  cw_min_recent_messages :: usize
  cw_enable_prompt_cache :: bool
  cw_autocompact_threshold :: "usize option"
  cw_compaction_mode :: ContextCompactionMode
  cw_compaction_raw_suffix_messages :: usize

definition default_policy :: ContextWindowPolicy where
  "default_policy = \<lparr>cw_max_context_tokens = 200000, cw_max_output_tokens = 16384,
     cw_min_recent_messages = 10, cw_enable_prompt_cache = True, cw_autocompact_threshold = None,
     cw_compaction_mode = KeepRecentRawSuffix, cw_compaction_raw_suffix_messages = 2\<rparr>"

text \<open>Of a model specification the two limits are read.\<close>

record ModelSpec =
  ms_context_window :: "u32 option"
  ms_max_output_tokens :: "u32 option"

definition clamp :: "usize \<Rightarrow> u32 option \<Rightarrow> usize" where
  "clamp v cap = (case cap of None \<Rightarrow> v | Some c \<Rightarrow> min v (ucast c))"

definition effective_policy :: "ContextWindowPolicy \<Rightarrow> ModelSpec \<Rightarrow> ContextWindowPolicy" where
  "effective_policy policy model =
     (let context = clamp (cw_max_context_tokens policy) (ms_context_window model);
          output = min (clamp (cw_max_output_tokens policy) (ms_max_output_tokens model)) context;
          usable_input = saturating_sub context output
      in policy\<lparr>cw_max_context_tokens := context, cw_max_output_tokens := output,
           cw_autocompact_threshold :=
             (case cw_autocompact_threshold policy of None \<Rightarrow> None
              | Some t \<Rightarrow> if usable_input = 0 then None else Some (min t usable_input))\<rparr>)"

section \<open>Long tool results\<close>

record ArtifactCompactionConfig =
  ac_threshold_tokens :: usize
  ac_preview_max_chars :: usize
  ac_preview_max_lines :: usize

definition default_artifact_config :: ArtifactCompactionConfig where
  "default_artifact_config = \<lparr>ac_threshold_tokens = 2048, ac_preview_max_chars = 1600, ac_preview_max_lines = 24\<rparr>"

definition artifact_config_validate :: "ArtifactCompactionConfig \<Rightarrow> (unit, string) outcome" where
  "artifact_config_validate c =
     (if ac_threshold_tokens c = 0 then Err ''artifact_compaction.threshold_tokens must be >= 1''
      else if ac_preview_max_chars c = 0 then Err ''artifact_compaction.preview_max_chars must be >= 1''
      else if ac_preview_max_lines c = 0 then Err ''artifact_compaction.preview_max_lines must be >= 1''
      else Ok ())"

definition newline :: char where "newline = char_of (10 :: nat)"

text \<open>The preview and how many characters it has.\<close>

fun preview_loop :: "nat \<Rightarrow> nat \<Rightarrow> nat \<Rightarrow> nat \<Rightarrow> string \<Rightarrow> string \<times> nat" where
  "preview_loop max_chars max_lines char_count line_count [] = ([], char_count)"
| "preview_loop max_chars max_lines char_count line_count (ch # rest) =
     (if max_chars \<le> char_count \<or> max_lines \<le> line_count then ([], char_count)
      else (let (p, n) = preview_loop max_chars max_lines (char_count + 1)
                   (if ch = newline then line_count + 1 else line_count) rest
            in (ch # p, n)))"

definition compact_artifact_with_config :: "string \<Rightarrow> ArtifactCompactionConfig \<Rightarrow> string" where
  "compact_artifact_with_config content config =
     (let estimated_tokens = str_len content div 4
      in if estimated_tokens < unat (ac_threshold_tokens config) then content
         else (let (preview, char_count) =
                 preview_loop (unat (ac_preview_max_chars config)) (unat (ac_preview_max_lines config)) 0 0 content
               in preview @ [newline, newline] @ ''[Content compacted: original ~'' @ show_nat estimated_tokens @
                    '' tokens, showing first '' @ show_nat char_count @ '' chars]''))"

fun compact_block :: "ArtifactCompactionConfig \<Rightarrow> 'v ContentBlock \<Rightarrow> 'v ContentBlock" where
  "compact_block config (TextBlock t) = TextBlock (compact_artifact_with_config t config)"
| "compact_block config b = b"

fun block_modified :: "ArtifactCompactionConfig \<Rightarrow> 'v ContentBlock \<Rightarrow> bool" where
  "block_modified config (TextBlock t) = (str_len (compact_artifact_with_config t config) \<noteq> str_len t)"
| "block_modified config b = False"

definition compact_message :: "ArtifactCompactionConfig \<Rightarrow> 'v Message \<Rightarrow> 'v Message" where
  "compact_message config m =
     (if msg_role m = RoleTool \<and> list_ex (block_modified config) (msg_content m)
      then m\<lparr>msg_content := map (compact_block config) (msg_content m)\<rparr> else m)"

definition compact_tool_results_with_config :: "ArtifactCompactionConfig \<Rightarrow> 'v Message list \<Rightarrow> 'v Message list" where
  "compact_tool_results_with_config config ms = map (compact_message config) ms"

section \<open>Truncation\<close>

text \<open>The loop from the end: \<open>i\<close> messages are still to be looked at.\<close>

fun split_loop :: "'v Message list \<Rightarrow> nat \<Rightarrow> nat \<Rightarrow> nat \<Rightarrow> nat \<Rightarrow> nat \<Rightarrow> nat" where
  "split_loop history budget must_keep_start 0 used candidate_split = candidate_split"
| "split_loop history budget must_keep_start (Suc i) used candidate_split =
     (let new_total = used + estimate_message_tokens (history ! i)
      in if must_keep_start \<le> i then split_loop history budget must_keep_start i new_total i
         else if budget < new_total then candidate_split
         else split_loop history budget must_keep_start i new_total i)"

fun split_back :: "'v Message list \<Rightarrow> nat \<Rightarrow> nat" where
  "split_back history 0 = 0"
| "split_back history (Suc s) = (if msg_role (history ! Suc s) = RoleTool then split_back history s else Suc s)"

definition split_forward :: "'v Message list \<Rightarrow> nat \<Rightarrow> nat" where
  "split_forward history split = split + length (takeWhile (\<lambda>m. msg_role m = RoleTool) (drop split history))"

definition adjust_split_for_tool_pairs :: "'v Message list \<Rightarrow> nat \<Rightarrow> nat" where
  "adjust_split_for_tool_pairs history split =
     (if split = 0 \<or> length history \<le> split then split
      else (let s = split_back history split
            in if 0 < s \<and> msg_role (history ! (s - 1)) = RoleAssistant \<and> msg_tool_calls (history ! (s - 1)) \<noteq> None
               then split_forward history s else s))"

definition find_split_point :: "'v Message list \<Rightarrow> nat \<Rightarrow> nat \<Rightarrow> nat" where
  "find_split_point history budget_tokens min_recent =
     (if history = [] then 0
      else (let must_keep_start = length history - min min_recent (length history)
            in adjust_split_for_tool_pairs history
                 (split_loop history budget_tokens must_keep_start (length history) 0 (length history))))"

section \<open>Dangling tool calls\<close>

text \<open>\<open>fresh i j\<close> is the id of the \<open>j\<close>-th message made for the assistant message at index \<open>i\<close>.\<close>

definition result_ids :: "'v Message list \<Rightarrow> string set" where
  "result_ids ms = set (List.map_filter (\<lambda>m. if msg_role m = RoleTool then msg_tool_call_id m else None) ms)"

definition missing_calls :: "'v Message list \<Rightarrow> 'v Message \<Rightarrow> string list" where
  "missing_calls ms m =
     (if msg_role m \<noteq> RoleAssistant then [] else filter (\<lambda>i. i \<notin> result_ids ms) (call_ids m))"

definition insert_position :: "'v Message list \<Rightarrow> nat \<Rightarrow> nat" where
  "insert_position ms i = i + 1 + length (takeWhile (\<lambda>m. msg_role m = RoleTool) (drop (i + 1) ms))"

definition synthetic_results :: "(nat \<Rightarrow> nat \<Rightarrow> string) \<Rightarrow> 'v Message list \<Rightarrow> nat \<Rightarrow> 'v Message list" where
  "synthetic_results fresh ms i =
     map (\<lambda>(j, c). tool_message (fresh i j) c ''[Tool execution was interrupted]'')
       (enumerate 0 (missing_calls ms (ms ! i)))"

definition insertions :: "(nat \<Rightarrow> nat \<Rightarrow> string) \<Rightarrow> 'v Message list \<Rightarrow> (nat \<times> 'v Message list) list" where
  "insertions fresh ms = map (\<lambda>i. (insert_position ms i, synthetic_results fresh ms i))
     (filter (\<lambda>i. missing_calls ms (ms ! i) \<noteq> []) [0..<length ms])"

definition insert_messages :: "nat \<times> 'v Message list \<Rightarrow> 'v Message list \<Rightarrow> 'v Message list" where
  "insert_messages ins ms =
     (let idx = min (fst ins) (length ms) in take idx ms @ snd ins @ drop idx ms)"

definition patch_dangling_tool_calls :: "(nat \<Rightarrow> nat \<Rightarrow> string) \<Rightarrow> 'v Message list \<Rightarrow> 'v Message list" where
  "patch_dangling_tool_calls fresh ms = foldr insert_messages (insertions fresh ms) ms"

section \<open>The transform\<close>

definition estimate_tool_tokens :: "(json \<Rightarrow> nat) \<Rightarrow> ToolDescriptor list \<Rightarrow> nat" where
  "estimate_tool_tokens schema_len tools = sum_list (map (\<lambda>t. str_len (td_name t) + str_len (td_description t) +
     schema_len (td_parameters t) div 4 + 10) tools)"

definition context_transform ::
  "(nat \<Rightarrow> nat \<Rightarrow> string) \<Rightarrow> (json \<Rightarrow> nat) \<Rightarrow> ContextWindowPolicy \<Rightarrow> ArtifactCompactionConfig \<Rightarrow>
   'v Message list \<Rightarrow> ToolDescriptor list \<Rightarrow> 'v Message list" where
  "context_transform fresh schema_len policy config messages tools =
     (let ms = compact_tool_results_with_config config messages;
          available = unat (cw_max_context_tokens policy) - unat (cw_max_output_tokens policy) -
            estimate_tool_tokens schema_len tools
      in if estimate_tokens ms \<le> available then ms
         else (let system = takeWhile (\<lambda>m. msg_role m = RoleSystem) ms;
                   history = dropWhile (\<lambda>m. msg_role m = RoleSystem) ms;
                   split = find_split_point history (available - estimate_tokens system)
                     (unat (cw_min_recent_messages policy))
               in patch_dangling_tool_calls fresh (system @ drop split history)))"

definition apply_transforms ::
  "('v Message list \<Rightarrow> ToolDescriptor list \<Rightarrow> 'v Message list) list \<Rightarrow> 'v Message list \<Rightarrow> ToolDescriptor list \<Rightarrow>
   'v Message list" where
  "apply_transforms transforms messages tools = foldl (\<lambda>ms t. t ms tools) messages transforms"

section \<open>Truncated answers\<close>

datatype StopReason = EndTurn | MaxTokens | StopForToolUse | StopSequence

definition has_text_output :: "('v, 'u, 's) StreamResult \<Rightarrow> bool" where
  "has_text_output r = list_ex (\<lambda>b. block_text b \<noteq> None \<and> block_text b \<noteq> Some []) (res_content r)"

definition needs_truncation_recovery :: "('v, 'u, StopReason) StreamResult \<Rightarrow> bool" where
  "needs_truncation_recovery r \<longleftrightarrow> res_stop_reason r = Some MaxTokens \<and>
     (res_has_incomplete_tool_calls r \<or> res_tool_calls r = [] \<and> has_text_output r)"

text \<open>The counter of the retries made, with the decision.\<close>

definition should_retry :: "('v, 'u, StopReason) StreamResult \<Rightarrow> usize \<Rightarrow> usize \<Rightarrow> bool \<times> usize" where
  "should_retry result retries max_retries =
     (if needs_truncation_recovery result \<and> 0 < max_retries \<and> retries < max_retries
      then (True, retries + 1) else (False, retries))"

definition continuation_message :: "string \<Rightarrow> 'v Message" where
  "continuation_message fresh = (user_message fresh
     (''Your response was cut off because it exceeded the output token limit. '' @
      ''Please break your work into smaller pieces. Continue from where you left off.''))
     \<lparr>msg_visibility := VisInternal\<rparr>"

end
