(* ===== verification/Context_Laws.thy ===== *)
theory Context_Laws
  imports Context_Window
begin

text \<open>
  What a request keeps of a conversation. The loops of the truncation and of the repair of dangling
  calls are brought to direct readings first: \<open>find_split_point\<close> to the longest suffix within the
  budget, moved back over the tool results it would cut off, and \<open>patch_dangling_tool_calls\<close> to one
  pass, \<open>patch_ref\<close>.
\<close>

section \<open>The split\<close>

lemma estimate_drop: "i < length h \<Longrightarrow>
  estimate_tokens (drop i h) = estimate_message_tokens (h ! i) + estimate_tokens (drop (Suc i) h)"
  by (simp flip: Cons_nth_drop_Suc)

lemma estimate_drop_antimono: "i \<le> j \<Longrightarrow> estimate_tokens (drop j h) \<le> estimate_tokens (drop i h)"
proof -
  assume "i \<le> j"
  then have "drop i h = take (j - i) (drop i h) @ drop j h"
    by (metis append_take_drop_id drop_drop le_add_diff_inverse2)
  then show ?thesis by (metis estimate_tokens_simps(3) le_add2)
qed

lemma split_loop_exact:
  assumes "i \<le> length h" and "c = split_loop h budget k i (estimate_tokens (drop i h)) i"
  shows "c \<le> min i k \<and> (c = min i k \<or> estimate_tokens (drop c h) \<le> budget) \<and>
    (\<forall>j < c. j < k \<longrightarrow> budget < estimate_tokens (drop j h))"
  using assms
proof (induction i)
  case (Suc i)
  have used: "estimate_tokens (drop (Suc i) h) + estimate_message_tokens (h ! i) = estimate_tokens (drop i h)"
    using Suc.prems(1) estimate_drop [of i h] by simp
  show ?case
  proof (cases "i < k \<and> budget < estimate_tokens (drop i h)")
    case True
    then have "c = Suc i" using Suc.prems(2) used by simp
    moreover have "budget < estimate_tokens (drop j h)" if "j < Suc i" for j
      using True estimate_drop_antimono [of j i h] that by simp
    ultimately show ?thesis using True by simp
  next
    case False
    then have "c = split_loop h budget k i (estimate_tokens (drop i h)) i"
      using Suc.prems(2) used by (auto simp: Let_def)
    with Suc.IH Suc.prems(1) False show ?thesis by (auto simp: min_def split: if_splits)
  qed
qed simp

lemma split_back_le: "split_back h s \<le> s"
  by (induction s) (auto intro: le_SucI)

lemma split_back_not_tool: "0 < split_back h s \<Longrightarrow> msg_role (h ! split_back h s) \<noteq> RoleTool"
  by (induction s) auto

lemma split_back_run: "split_back h s < j \<Longrightarrow> j \<le> s \<Longrightarrow> msg_role (h ! j) = RoleTool"
  by (induction s) (auto simp: le_Suc_eq split: if_splits)

text \<open>The forward move of the adjustment never moves: the kept part starts with a message that is no tool result.\<close>

lemma adjust_split_eq:
  "adjust_split_for_tool_pairs h s = (if s = 0 \<or> length h \<le> s then s else split_back h s)"
proof (cases "s = 0 \<or> length h \<le> s \<or> split_back h s = 0")
  case False
  then have "split_back h s < length h" using split_back_le [of h s] by simp
  then have "drop (split_back h s) h = h ! split_back h s # drop (Suc (split_back h s)) h"
    by (simp add: Cons_nth_drop_Suc)
  then have "split_forward h (split_back h s) = split_back h s"
    using False split_back_not_tool [of h s] by (simp add: split_forward_def)
  with False show ?thesis by (simp add: adjust_split_for_tool_pairs_def Let_def)
qed (auto simp: adjust_split_for_tool_pairs_def)

lemma find_split_point_exact:
  assumes "split = find_split_point h budget recent"
  obtains c where "split \<le> c" "c \<le> length h - min recent (length h)"
    "c = length h - min recent (length h) \<or> estimate_tokens (drop c h) \<le> budget"
    "\<forall>j < c. budget < estimate_tokens (drop j h)"
    "\<forall>j. split < j \<and> j \<le> c \<and> j < length h \<longrightarrow> msg_role (h ! j) = RoleTool"
    "0 < split \<and> split < length h \<longrightarrow> msg_role (h ! split) \<noteq> RoleTool"
proof (cases "h = []")
  case True
  then show thesis using that [of 0] assms by (simp add: find_split_point_def)
next
  case False
  let ?k = "length h - min recent (length h)"
  define c where "c = split_loop h budget ?k (length h) 0 (length h)"
  have s: "split = adjust_split_for_tool_pairs h c" using assms False by (simp add: find_split_point_def c_def)
  have c: "c \<le> ?k" "c = ?k \<or> estimate_tokens (drop c h) \<le> budget" "\<forall>j < c. budget < estimate_tokens (drop j h)"
    using split_loop_exact [of "length h" h c budget ?k] by (auto simp: c_def)
  show thesis
    using that [OF _ c] s split_back_le [of h c] split_back_run [of h c] split_back_not_tool [of h c]
    by (simp add: adjust_split_eq split: if_splits)
qed

section \<open>The repair in one pass\<close>

text \<open>
  \<open>pending\<close> are the results made for the last message that is no tool result; they are put before
  the next such message, or at the end.
\<close>

fun patch_ref :: "(nat \<Rightarrow> nat \<Rightarrow> string) \<Rightarrow> 'v Message list \<Rightarrow> nat \<Rightarrow> 'v Message list \<Rightarrow> 'v Message list \<Rightarrow> 'v Message list" where
  "patch_ref fresh all i pending [] = pending"
| "patch_ref fresh all i pending (m # ms) =
     (if msg_role m = RoleTool then m # patch_ref fresh all (i + 1) pending ms
      else pending @ m # patch_ref fresh all (i + 1) (synthetic_results fresh all i) ms)"

lemma patch_ref_run:
  "patch_ref fresh all i pending ms = takeWhile (\<lambda>m. msg_role m = RoleTool) ms @ pending @
     patch_ref fresh all (i + length (takeWhile (\<lambda>m. msg_role m = RoleTool) ms)) []
       (dropWhile (\<lambda>m. msg_role m = RoleTool) ms)"
  by (induction ms arbitrary: i) auto

lemma insert_messages_append: "insert_messages (length xs, new) (xs @ ys) = xs @ new @ ys"
  by (simp add: insert_messages_def)

lemma synthetic_results_empty: "missing_calls ms (ms ! i) = [] \<Longrightarrow> synthetic_results fresh ms i = []"
  by (simp add: synthetic_results_def)

theorem patch_dangling_eq: "patch_dangling_tool_calls fresh ms = patch_ref fresh ms 0 [] ms"
proof -
  let ?ins = "\<lambda>k. map (\<lambda>i. (insert_position ms i, synthetic_results fresh ms i))
     (filter (\<lambda>i. missing_calls ms (ms ! i) \<noteq> []) [k..<length ms])"
  have "foldr insert_messages (?ins k) ms = take k ms @ patch_ref fresh ms k [] (drop k ms)" if "k \<le> length ms" for k
    using that
  proof (induction "length ms - k" arbitrary: k)
    case (Suc n)
    then have k: "k < length ms" by simp
    let ?run = "takeWhile (\<lambda>m. msg_role m = RoleTool) (drop (Suc k) ms)"
    have IH: "foldr insert_messages (?ins (Suc k)) ms = take (Suc k) ms @ patch_ref fresh ms (Suc k) [] (drop (Suc k) ms)"
      using Suc.hyps(1) [of "Suc k"] Suc.hyps(2) k by simp
    have d: "drop k ms = ms ! k # drop (Suc k) ms" using k by (simp add: Cons_nth_drop_Suc)
    have t: "take (Suc k) ms = take k ms @ [ms ! k]" using k by (simp add: take_Suc_conv_app_nth)
    have u: "[k..<length ms] = k # [Suc k..<length ms]" using k by (simp add: upt_conv_Cons)
    have run: "take (Suc k) ms @ patch_ref fresh ms (Suc k) P (drop (Suc k) ms) =
        (take (Suc k) ms @ ?run) @ P @ patch_ref fresh ms (Suc k + length ?run) []
          (dropWhile (\<lambda>m. msg_role m = RoleTool) (drop (Suc k) ms))" for P
      by (subst patch_ref_run) simp
    have pos: "insert_position ms k = length (take (Suc k) ms @ ?run)"
      using k by (simp add: insert_position_def)
    show ?case
    proof (cases "missing_calls ms (ms ! k) = []")
      case True
      then have "foldr insert_messages (?ins k) ms = foldr insert_messages (?ins (Suc k)) ms" by (simp add: u)
      then show ?thesis using True by (simp add: IH d t synthetic_results_empty)
    next
      case False
      then have role: "msg_role (ms ! k) \<noteq> RoleTool" by (auto simp: missing_calls_def)
      from False have "foldr insert_messages (?ins k) ms =
          insert_messages (insert_position ms k, synthetic_results fresh ms k) (foldr insert_messages (?ins (Suc k)) ms)"
        by (simp add: u)
      also have "\<dots> = take (Suc k) ms @ patch_ref fresh ms (Suc k) (synthetic_results fresh ms k) (drop (Suc k) ms)"
        unfolding IH run pos by (simp only: insert_messages_append append_Nil)
      finally show ?thesis using role by (simp add: d t)
    qed
  qed simp
  from this [of 0] show ?thesis by (simp add: patch_dangling_tool_calls_def insertions_def)
qed

section \<open>Grouped conversations\<close>

text \<open>
  Every tool result follows a message that makes its call, with only tool results in between: the
  form providers demand. \<open>opened\<close> are the calls of the last message that is no tool result.
\<close>

definition opens :: "'v Message \<Rightarrow> string list" where
  "opens m = (if msg_role m = RoleAssistant then call_ids m else [])"

fun grouped :: "string list \<Rightarrow> 'v Message list \<Rightarrow> bool" where
  "grouped opened [] = True"
| "grouped opened (m # ms) =
     (if msg_role m = RoleTool then list_ex (\<lambda>i. msg_tool_call_id m = Some i) opened \<and> grouped opened ms
      else grouped (opens m) ms)"

definition has_result :: "'v Message list \<Rightarrow> string \<Rightarrow> bool" where
  "has_result ms i \<longleftrightarrow> (\<exists>r \<in> set ms. msg_role r = RoleTool \<and> msg_tool_call_id r = Some i)"

lemma result_ids_iff: "i \<in> result_ids ms \<longleftrightarrow> has_result ms i"
  by (auto simp: result_ids_def has_result_def set_map_filter split: if_splits)

lemma opens_makes: "i \<in> set (opens m) \<longleftrightarrow> makes_call i m"
  by (simp add: opens_def makes_call_def)

lemma grouped_reset: "msg_role (hd ms) \<noteq> RoleTool \<or> ms = [] \<Longrightarrow> grouped opened ms = grouped opened' ms"
  by (cases ms) auto

lemma grouped_suffix: "grouped opened (xs @ ys) \<Longrightarrow> msg_role (hd ys) \<noteq> RoleTool \<or> ys = [] \<Longrightarrow> grouped opened' ys"
proof (induction xs arbitrary: opened)
  case Nil
  then show ?case using grouped_reset by (metis append_Nil)
qed (auto split: if_splits)

lemma grouped_system:
  "(\<And>m. m \<in> set xs \<Longrightarrow> msg_role m = RoleSystem) \<Longrightarrow> grouped [] (xs @ ys) = grouped [] ys"
  by (induction xs) (auto simp: opens_def)

lemma missing_calls_iff: "i \<in> set (missing_calls ms m) \<longleftrightarrow> makes_call i m \<and> \<not> has_result ms i"
  by (simp add: missing_calls_def makes_call_def result_ids_iff)

lemma synthetic_results_mem:
  "r \<in> set (synthetic_results fresh ms i) \<Longrightarrow>
   msg_role r = RoleTool \<and> (\<exists>c \<in> set (missing_calls ms (ms ! i)). msg_tool_call_id r = Some c)"
  by (auto simp: synthetic_results_def tool_message_def text_message_def in_set_enumerate_eq)

lemma synthetic_results_cover:
  "c \<in> set (missing_calls ms (ms ! i)) \<Longrightarrow> has_result (synthetic_results fresh ms i) c"
proof -
  assume "c \<in> set (missing_calls ms (ms ! i))"
  then obtain j where "j < length (missing_calls ms (ms ! i))" "missing_calls ms (ms ! i) ! j = c"
    by (auto simp: in_set_conv_nth)
  then have "(j, c) \<in> set (enumerate 0 (missing_calls ms (ms ! i)))" by (simp add: in_set_enumerate_eq)
  then show ?thesis
    by (force simp: has_result_def synthetic_results_def tool_message_def text_message_def)
qed

text \<open>One pass keeps the messages in order, adds only results, and answers what was missing.\<close>

lemma patch_ref_subseq: "subseq ms (patch_ref fresh all i pending ms)"
  by (induction ms arbitrary: i pending) (auto intro: list_emb_append2)

lemma patch_ref_mem:
  "r \<in> set (patch_ref fresh all i pending ms) \<longleftrightarrow> r \<in> set ms \<or> r \<in> set pending \<or>
     (\<exists>j < length ms. msg_role (ms ! j) \<noteq> RoleTool \<and> r \<in> set (synthetic_results fresh all (i + j)))"
proof (induction ms arbitrary: i pending)
  case (Cons m ms)
  show ?case by (auto simp: Cons.IH Ex_less_Suc2)
qed simp

lemma patch_ref_grouped:
  assumes "grouped opened ms" and "drop i all = ms" and "i \<le> length all"
    and "\<forall>r \<in> set pending. msg_role r = RoleTool \<and> list_ex (\<lambda>c. msg_tool_call_id r = Some c) opened"
  shows "grouped opened (patch_ref fresh all i pending ms)"
  using assms
proof (induction ms arbitrary: opened i pending)
  case Nil
  then show ?case by (induction pending) auto
next
  case (Cons m ms)
  have i: "i < length all" "all ! i = m" "drop (i + 1) all = ms"
    using Cons.prems(2,3) nth_via_drop [of i all m ms] by (auto simp: le_less simp flip: Cons_nth_drop_Suc)
  show ?case
  proof (cases "msg_role m = RoleTool")
    case True
    with Cons i show ?thesis by simp
  next
    case False
    have syn: "\<forall>r \<in> set (synthetic_results fresh all i). msg_role r = RoleTool \<and>
        list_ex (\<lambda>c. msg_tool_call_id r = Some c) (opens m)"
      using synthetic_results_mem [of _ fresh all i] i(2) missing_calls_iff [of _ all m] opens_makes [of _ m]
      unfolding list_ex_iff by metis
    have "grouped (opens m) (patch_ref fresh all (i + 1) (synthetic_results fresh all i) ms)"
      using Cons.prems False i syn by (intro Cons.IH) auto
    moreover have "grouped opened (pending @ m # rest) = grouped (opens m) rest" for rest
      using Cons.prems(4) False by (induction pending) auto
    ultimately show ?thesis using False by simp
  qed
qed

lemma patch_answers:
  assumes "m \<in> set (patch_dangling_tool_calls fresh ms)" and "makes_call i m"
  shows "has_result (patch_dangling_tool_calls fresh ms) i"
proof -
  have sub: "set ms \<subseteq> set (patch_dangling_tool_calls fresh ms)"
    by (auto simp: patch_dangling_eq patch_ref_mem)
  have "m \<in> set ms"
    using assms synthetic_results_mem [of m fresh ms] by (auto simp: patch_dangling_eq patch_ref_mem makes_call_def)
  then obtain k where k: "k < length ms" "m = ms ! k" by (auto simp: in_set_conv_nth)
  show ?thesis
  proof (cases "has_result ms i")
    case True
    then show ?thesis using sub by (auto simp: has_result_def)
  next
    case False
    then have "has_result (synthetic_results fresh ms k) i"
      using assms(2) k by (intro synthetic_results_cover) (simp add: missing_calls_iff)
    moreover have "set (synthetic_results fresh ms k) \<subseteq> set (patch_dangling_tool_calls fresh ms)"
    proof
      fix r
      assume "r \<in> set (synthetic_results fresh ms k)"
      moreover have "msg_role (ms ! k) \<noteq> RoleTool" using k assms(2) by (auto simp: makes_call_def)
      ultimately show "r \<in> set (patch_dangling_tool_calls fresh ms)"
        using k(1) unfolding patch_dangling_eq patch_ref_mem add_0 by blast
    qed
    ultimately show ?thesis by (auto simp: has_result_def)
  qed
qed

lemma patch_grouped: "grouped [] ms \<Longrightarrow> grouped [] (patch_dangling_tool_calls fresh ms)"
  using patch_ref_grouped [of "[]" ms 0 ms "[]"] by (simp add: patch_dangling_eq)

section \<open>What a request keeps\<close>

lemma compact_message_simps [simp]:
  "msg_role (compact_message config m) = msg_role m"
  "msg_tool_call_id (compact_message config m) = msg_tool_call_id m"
  "opens (compact_message config m) = opens m"
  by (simp_all add: compact_message_def opens_def call_ids_def)

lemma grouped_compact [simp]: "grouped opened (compact_tool_results_with_config config ms) = grouped opened ms"
  by (induction ms arbitrary: opened) (simp_all add: compact_tool_results_with_config_def)

lemma grouped_drop_split:
  assumes "grouped [] h" and "split = find_split_point h budget recent"
  shows "grouped [] (drop split h)"
proof -
  obtain c where c: "0 < split \<and> split < length h \<longrightarrow> msg_role (h ! split) \<noteq> RoleTool"
    using find_split_point_exact [OF assms(2)] by metis
  show ?thesis
  proof (cases "0 < split \<and> split < length h")
    case True
    then show ?thesis using c grouped_suffix [of "[]" "take split h" "drop split h"] assms(1)
      by (simp add: hd_drop_conv_nth)
  qed (use assms(1) in auto)
qed

text \<open>
  C12: What a request to the model keeps of a conversation whose tool results follow their calls.
  The request has this form too, whatever was cut. It holds the leading system messages and a suffix
  of the rest with at least the number of recent messages the policy asks for, in order; and where
  anything had to be cut, each tool call in it has a result.
\<close>

theorem request_well_formed:
  assumes "grouped [] messages"
    and "compacted = compact_tool_results_with_config config messages"
    and "history = dropWhile (\<lambda>m. msg_role m = RoleSystem) compacted"
    and "available = unat (cw_max_context_tokens policy) - unat (cw_max_output_tokens policy) -
      estimate_tool_tokens schema_len tools"
    and "request = context_transform fresh schema_len policy config messages tools"
  shows "grouped [] request \<and>
    (available < estimate_tokens compacted \<longrightarrow>
       (\<forall>m \<in> set request. \<forall>i. makes_call i m \<longrightarrow> has_result request i)) \<and>
    (\<exists>kept. suffix kept history \<and> min (unat (cw_min_recent_messages policy)) (length history) \<le> length kept \<and>
       subseq (takeWhile (\<lambda>m. msg_role m = RoleSystem) compacted @ kept) request)"
proof (cases "estimate_tokens compacted \<le> available")
  case True
  then have r: "request = compacted" using assms(2,4,5) by (simp add: context_transform_def)
  have "compacted = takeWhile (\<lambda>m. msg_role m = RoleSystem) compacted @ history" by (simp add: assms(3))
  with True r assms(1,2) show ?thesis by (auto intro!: exI [of _ history])
next
  case False
  let ?sys = "takeWhile (\<lambda>m. msg_role m = RoleSystem) compacted"
  define split where "split = find_split_point history (available - estimate_tokens ?sys) (unat (cw_min_recent_messages policy))"
  have r: "request = patch_dangling_tool_calls fresh (?sys @ drop split history)"
    using False assms by (simp add: context_transform_def Let_def split_def)
  have "grouped [] (?sys @ history)" using assms(1,2,3) by simp
  then have g: "grouped [] (?sys @ drop split history)"
    using grouped_drop_split [OF _ split_def] grouped_system [of ?sys] by (metis set_takeWhileD)
  obtain c where "split \<le> c" "c \<le> length history - min (unat (cw_min_recent_messages policy)) (length history)"
    using find_split_point_exact [OF split_def] by metis
  then have len: "min (unat (cw_min_recent_messages policy)) (length history) \<le> length (drop split history)" by simp
  have "subseq (?sys @ drop split history) request" unfolding r patch_dangling_eq by (rule patch_ref_subseq)
  with len patch_grouped [OF g] patch_answers [of _ fresh] show ?thesis
    unfolding r by (meson suffix_drop)
qed

text \<open>
  A conversation of six messages in a window for four: a call without result, and a system message
  after the first user message.
\<close>

definition tight_policy :: ContextWindowPolicy where
  "tight_policy = default_policy\<lparr>cw_max_context_tokens := 16, cw_max_output_tokens := 0, cw_min_recent_messages := 1\<rparr>"

definition long_chat :: "unit Message list" where
  "long_chat = [system_message ''0'' ''be'', user_message ''1'' ''hi'', internal_system ''2'' ''do'',
     assistant_with_tool_calls ''3'' ''ok'' [\<lparr>tcall_id = ''a'', tcall_name = ''t'', tcall_arguments = ()\<rparr>,
       \<lparr>tcall_id = ''b'', tcall_name = ''t'', tcall_arguments = ()\<rparr>],
     tool_message ''4'' ''a'' ''ok'', user_message ''5'' ''go'']"

definition chat_request :: "unit Message list" where
  "chat_request = context_transform (\<lambda>_ _. ''new'') (\<lambda>_. 0) tight_policy default_artifact_config long_chat []"

lemma request_well_formed_witness:
  "grouped [] chat_request \<and>
   list_all (\<lambda>m. list_all (has_result chat_request) (call_ids m)) (filter (\<lambda>m. msg_role m = RoleAssistant) chat_request) \<and>
   map msg_id chat_request = map Some [''0'', ''3'', ''4'', ''new'', ''5'']"
proof -
  have g: "grouped [] long_chat" by code_simp
  have "unat (cw_max_context_tokens tight_policy) - unat (cw_max_output_tokens tight_policy) -
      estimate_tool_tokens (\<lambda>_. 0) [] < estimate_tokens (compact_tool_results_with_config default_artifact_config long_chat)"
    by code_simp
  moreover have "map msg_id chat_request = map Some [''0'', ''3'', ''4'', ''new'', ''5'']" by code_simp
  ultimately show ?thesis
    using request_well_formed [OF g refl refl refl chat_request_def] by (auto simp: list_all_iff makes_call_def)
qed

text \<open>
  The transform is documented to preserve all system messages. It preserves the leading ones; a system
  message after the first other message is dropped with the history.
\<close>

lemma later_system_message_dropped:
  "msg_role (long_chat ! 2) = RoleSystem \<and> \<not> list_ex (\<lambda>m. msg_id m = Some ''2'') chat_request"
  by code_simp

text \<open>
  C29: Where the history is cut. The cut is the earliest position from which the rest fits the budget,
  but never later than the number of recent messages the policy asks for, moved back over the results
  of a tool call it would separate from the call.
\<close>

theorem truncation_exact:
  "let split = find_split_point history budget recent;
       latest = length history - min recent (length history)
   in \<exists>c. split \<le> c \<and> c \<le> latest \<and>
     (c = latest \<or> estimate_tokens (drop c history) \<le> budget) \<and>
     {j. j < c \<and> estimate_tokens (drop j history) \<le> budget} = {} \<and>
     {j. split < j \<and> j \<le> c \<and> j < length history \<and> msg_role (history ! j) \<noteq> RoleTool} = {} \<and>
     {m. 0 < split \<and> m \<in> set (take 1 (drop split history)) \<and> msg_role m = RoleTool} = {}"
proof -
  let ?split = "find_split_point history budget recent"
  obtain c where c: "?split \<le> c" "c \<le> length history - min recent (length history)"
    "c = length history - min recent (length history) \<or> estimate_tokens (drop c history) \<le> budget"
    and early: "\<forall>j < c. budget < estimate_tokens (drop j history)"
    and run: "\<forall>j. ?split < j \<and> j \<le> c \<and> j < length history \<longrightarrow> msg_role (history ! j) = RoleTool"
    and start: "0 < ?split \<and> ?split < length history \<longrightarrow> msg_role (history ! ?split) \<noteq> RoleTool"
    by (rule find_split_point_exact [OF refl])
  have "{j. j < c \<and> estimate_tokens (drop j history) \<le> budget} = {}" using early by (simp add: not_le)
  moreover have "{j. ?split < j \<and> j \<le> c \<and> j < length history \<and> msg_role (history ! j) \<noteq> RoleTool} = {}"
    using run by blast
  moreover have "{m. 0 < ?split \<and> m \<in> set (take 1 (drop ?split history)) \<and> msg_role m = RoleTool} = {}"
    using start by (cases "?split < length history") (auto simp: take_Suc hd_drop_conv_nth)
  ultimately show ?thesis unfolding Let_def using c by blast
qed

section \<open>The clamped policy\<close>

lemma effective_policy_narrows:
  "cw_max_context_tokens (effective_policy p m) \<le> cw_max_context_tokens p"
  "cw_max_output_tokens (effective_policy p m) \<le> cw_max_output_tokens p"
  "cw_max_output_tokens (effective_policy p m) \<le> cw_max_context_tokens (effective_policy p m)"
  by (auto simp: effective_policy_def Let_def clamp_def min_def split: option.splits)

lemma effective_threshold_fits:
  assumes "cw_autocompact_threshold (effective_policy p m) = Some t"
  shows "unat t \<le> unat (cw_max_context_tokens (effective_policy p m)) - unat (cw_max_output_tokens (effective_policy p m))"
proof -
  have s: "unat (saturating_sub a b) = unat a - unat b" for a b :: usize
    by (simp add: saturating_sub_def unat_sub word_le_nat_alt)
  from assms obtain t' where "t = min t' (saturating_sub (cw_max_context_tokens (effective_policy p m))
      (cw_max_output_tokens (effective_policy p m)))"
    by (auto simp: effective_policy_def Let_def split: option.splits if_splits)
  then have "t \<le> saturating_sub (cw_max_context_tokens (effective_policy p m)) (cw_max_output_tokens (effective_policy p m))"
    by simp
  then show ?thesis unfolding word_le_nat_alt s .
qed

lemma effective_policy_idem: "effective_policy (effective_policy p m) m = effective_policy p m"
proof -
  have c: "clamp (clamp v cap) cap = clamp v cap" for v cap by (simp add: clamp_def split: option.splits)
  have d: "clamp (min (clamp v cap) w) cap = min (clamp v cap) w" for v w cap
    by (cases cap) (auto simp: clamp_def min_def)
  show ?thesis by (simp add: effective_policy_def Let_def c d split: option.splits)
qed

section \<open>Previews\<close>

lemma preview_loop_prefix:
  "preview_loop mc ml cc lc s = (p, n) \<Longrightarrow> prefix p s \<and> n = cc + length p \<and> (cc \<le> mc \<longrightarrow> n \<le> mc)"
proof (induction s arbitrary: cc lc p n)
  case (Cons ch s)
  show ?case
  proof (cases "mc \<le> cc \<or> ml \<le> lc")
    case False
    let ?lc = "if ch = newline then lc + 1 else lc"
    obtain p' n' where r: "preview_loop mc ml (cc + 1) ?lc s = (p', n')" by (metis surj_pair)
    then have "p = ch # p'" "n = n'" using Cons.prems False by (auto simp: Let_def)
    with Cons.IH [OF r] False show ?thesis by auto
  qed (use Cons.prems in auto)
qed simp

lemma compact_artifact_preview:
  assumes "unat (ac_threshold_tokens c) \<le> str_len t div 4"
  obtains p rest where "compact_artifact_with_config t c = p @ rest" "prefix p t"
    "length p \<le> unat (ac_preview_max_chars c)"
proof -
  obtain p n where "preview_loop (unat (ac_preview_max_chars c)) (unat (ac_preview_max_lines c)) 0 0 t = (p, n)"
    by (metis surj_pair)
  with preview_loop_prefix [OF this] that assms show thesis
    by (auto simp: compact_artifact_with_config_def Let_def)
qed

text \<open>A small threshold makes a compacted result longer than the original.\<close>

lemma compaction_can_grow:
  "str_len ''abcd'' < str_len (compact_artifact_with_config ''abcd'' (default_artifact_config\<lparr>ac_threshold_tokens := 1\<rparr>))"
  by code_simp

section \<open>Truncated answers\<close>

lemma should_retry_bounded:
  "should_retry r retries max_retries = (b, retries') \<Longrightarrow> retries \<le> max_retries \<Longrightarrow>
   retries' \<le> max_retries \<and> unat retries' = unat retries + (if b then 1 else 0)"
  by (auto simp: should_retry_def unat_add_one word_le_nat_alt word_less_nat_alt split: if_splits)

end
