(* ===== verification/Message_View.thy ===== *)
theory Message_View
  imports Messages "HOL-Library.Multiset"
begin

text \<open>
  The views of a committed message log (\<^verbatim>\<open>contract/message.rs\<close>): the fold of compaction intervals, the
  filter of unpaired tool calls and their composition on resume, with the retraction of suspended calls
  (\<^verbatim>\<open>runtime/agent_runtime/runner.rs\<close>). The log itself is append-only; \<open>effective_spec\<close> says which
  messages of it a view shows and where.
\<close>

section \<open>Records\<close>

record 'v MessageRecord =
  mr_message_id :: string
  mr_thread_id :: string
  mr_seq :: u64
  mr_message :: "'v Message"
  mr_produced_by_run_id :: "string option"
  mr_step_index :: "u32 option"
  mr_tool_call_id :: "string option"
  mr_created_at :: "u64 option"
  mr_compaction :: "CompactionMark option"

text \<open>\<open>fresh\<close> is the id generated for a message that has none.\<close>

definition from_message :: "string \<Rightarrow> string \<Rightarrow> u64 \<Rightarrow> 'v Message \<Rightarrow> 'v MessageRecord" where
  "from_message fresh thread_id seq m =
     (let message_id = (case msg_id m of None \<Rightarrow> fresh | Some i \<Rightarrow> i)
      in \<lparr>mr_message_id = message_id, mr_thread_id = thread_id, mr_seq = seq,
          mr_message = m\<lparr>msg_id := Some message_id\<rparr>, mr_produced_by_run_id = produced_by_run_id m,
          mr_step_index = Option.bind (msg_metadata m) md_step_index,
          mr_tool_call_id = msg_tool_call_id m, mr_created_at = None, mr_compaction = message_mark m\<rparr>)"

section \<open>Folding compaction intervals\<close>

text \<open>An interval with what replaces it.\<close>

type_synonym 'a interval = "u64 \<times> u64 \<times> 'a"

definition covers :: "'a interval \<Rightarrow> 'a interval \<Rightarrow> bool" where
  "covers kept cand \<longleftrightarrow> fst kept \<le> fst cand \<and> fst (snd cand) \<le> fst (snd kept)"

fun keep_maximal :: "'a interval list \<Rightarrow> 'a interval list \<Rightarrow> 'a interval list" where
  "keep_maximal kept [] = kept"
| "keep_maximal kept (c # cs) =
     keep_maximal (if list_ex (\<lambda>k. covers k c) kept then kept else kept @ [c]) cs"

text \<open>The order of the candidates: start ascending, end descending.\<close>

definition interval_key :: "'a interval \<Rightarrow> int \<times> int" where
  "interval_key i = (uint (fst i), - uint (fst (snd i)))"

definition winning_intervals :: "'a interval list \<Rightarrow> 'a interval list" where
  "winning_intervals candidates = sort_key fst (keep_maximal [] (sort_key interval_key candidates))"

definition inside :: "'a interval list \<Rightarrow> u64 \<Rightarrow> bool" where
  "inside intervals seq = list_ex (\<lambda>i. fst i \<le> seq \<and> seq \<le> fst (snd i)) intervals"

fun fold_records :: "(u64 \<Rightarrow> bool) \<Rightarrow> 'v MessageRecord list \<Rightarrow> 'v Message interval list \<Rightarrow> 'v Message list" where
  "fold_records covered [] next_interval = map (\<lambda>i. snd (snd i)) next_interval"
| "fold_records covered (r # rs) next_interval =
     map (\<lambda>i. snd (snd i)) (takeWhile (\<lambda>i. fst i \<le> mr_seq r) next_interval) @
     (if covered (mr_seq r) then [] else [mr_message r]) @
     fold_records covered rs (dropWhile (\<lambda>i. fst i \<le> mr_seq r) next_interval)"

definition effective_messages :: "'v MessageRecord list \<Rightarrow> 'v Message list" where
  "effective_messages records =
     (let summary_seqs = set (map mr_seq (filter (\<lambda>r. mr_compaction r \<noteq> None) records));
          candidates = List.map_filter (\<lambda>r. map_option (\<lambda>c. (mark_from c, mark_to c, mr_message r)) (mr_compaction r)) records;
          intervals = winning_intervals candidates
      in fold_records (inside intervals) (filter (\<lambda>r. mr_seq r \<notin> summary_seqs) records) intervals)"

section \<open>Which messages the folded view shows\<close>

text \<open>
  A raw record shows unless some interval covers it. A summary shows unless the interval of another
  contains its own, and of equal intervals the oldest summary shows. A summary stands at the start of
  its interval, before a raw record of that number.
\<close>

definition winning :: "'v MessageRecord list \<Rightarrow> 'v MessageRecord \<Rightarrow> bool" where
  "winning rs r \<longleftrightarrow> (case mr_compaction r of None \<Rightarrow> False
     | Some c \<Rightarrow> (\<forall>s \<in> set rs. case mr_compaction s of None \<Rightarrow> True
         | Some c' \<Rightarrow> mark_from c' \<le> mark_from c \<and> mark_to c \<le> mark_to c' \<longrightarrow> c' = c \<and> mr_seq r \<le> mr_seq s))"

definition folded_away :: "'v MessageRecord list \<Rightarrow> u64 \<Rightarrow> bool" where
  "folded_away rs seq \<longleftrightarrow> (\<exists>s \<in> set rs. case mr_compaction s of None \<Rightarrow> False
     | Some c \<Rightarrow> mark_from c \<le> seq \<and> seq \<le> mark_to c)"

definition effective_spec :: "'v MessageRecord list \<Rightarrow> 'v Message list" where
  "effective_spec rs = map snd (sort_key fst
     (map (\<lambda>r. (mark_from (the (mr_compaction r)), mr_message r)) (filter (winning rs) rs) @
      map (\<lambda>r. (mr_seq r, mr_message r))
        (filter (\<lambda>r. mr_compaction r = None \<and> \<not> folded_away rs (mr_seq r)) rs)))"

subsection \<open>Stable sorting\<close>

lemma sort_key_map: "sort_key f (map g xs) = map g (sort_key (\<lambda>x. f (g x)) xs)"
proof -
  have "insort_key f (g x) (map g ys) = map g (insort_key (\<lambda>x. f (g x)) x ys)" for x ys
    by (induction ys) auto
  then show ?thesis by (induction xs) simp_all
qed

lemma filter_sort_key: "filter (\<lambda>x. f k = f x) (sort_key f xs) = filter (\<lambda>x. f k = f x) xs"
  using sort_key_stable [of f "f k" xs] by (simp add: eq_commute)

lemma sort_key_sort_append: "sort_key f (sort_key f xs @ ys) = sort_key f (xs @ ys)"
  by (rule properties_for_sort_key) (simp_all add: filter_sort_key)

lemma sort_key_append_le:
  assumes "\<And>x y. x \<in> set xs \<Longrightarrow> y \<in> set ys \<Longrightarrow> f x \<le> f y" and "sorted (map f xs)"
  shows "sort_key f (xs @ ys) = xs @ sort_key f ys"
  by (rule properties_for_sort_key) (use assms in \<open>auto simp: filter_sort_key sorted_append\<close>)

lemma sort_key_move_front:
  assumes "\<And>y. y \<in> set ys \<Longrightarrow> f x < f y" and "\<And>z. z \<in> set zs \<Longrightarrow> f x \<le> f z"
  shows "sort_key f (ys @ x # zs) = x # sort_key f (ys @ zs)"
proof (rule properties_for_sort_key)
  show "sorted (map f (x # sort_key f (ys @ zs)))" using assms by (auto simp: less_imp_le)
  show "filter (\<lambda>y. f k = f y) (x # sort_key f (ys @ zs)) = filter (\<lambda>y. f k = f y) (ys @ x # zs)" for k
  proof (cases "f k = f x")
    case True
    then have "filter (\<lambda>y. f k = f y) ys = []" using assms(1) by (fastforce simp: filter_empty_conv)
    then show ?thesis using True by (simp add: filter_sort_key)
  qed (simp add: filter_sort_key)
qed simp

subsection \<open>The merge\<close>

lemma fold_records_sort:
  assumes "sorted (map fst W)" and "sorted_wrt (<) (map mr_seq rs)"
  shows "fold_records covered rs W = map snd (sort_key fst
     (map (\<lambda>i. (fst i, snd (snd i))) W @
      map (\<lambda>r. (mr_seq r, mr_message r)) (filter (\<lambda>r. \<not> covered (mr_seq r)) rs)))"
  using assms
proof (induction rs arbitrary: W)
  case Nil
  then have "sort_key fst (map (\<lambda>i. (fst i, snd (snd i))) W) = map (\<lambda>i. (fst i, snd (snd i))) W"
    by (intro sort_key_id_if_sorted) (simp add: comp_def)
  then show ?case by (simp add: comp_def)
next
  case (Cons r rs)
  define due where "due = takeWhile (\<lambda>i. fst i \<le> mr_seq r) W"
  define rest where "rest = dropWhile (\<lambda>i. fst i \<le> mr_seq r) W"
  let ?p = "\<lambda>i. (fst i, snd (snd i))" and ?q = "\<lambda>r. (mr_seq r, mr_message r)"
  let ?S = "map ?q (filter (\<lambda>r. \<not> covered (mr_seq r)) rs)"
  have W: "W = due @ rest" by (simp add: due_def rest_def)
  have s: "sorted (map fst due)" "sorted (map fst rest)" using Cons.prems(1) by (simp_all add: W sorted_append)
  have d: "fst i \<le> mr_seq r" if "i \<in> set due" for i using that by (auto simp: due_def dest: set_takeWhileD)
  have late: "mr_seq r < fst i" if "i \<in> set rest" for i
  proof -
    have ne: "rest \<noteq> []" using that by auto
    then have "\<not> fst (hd rest) \<le> mr_seq r" unfolding rest_def by (rule hd_dropWhile)
    moreover have "fst (hd rest) \<le> fst i" using s(2) that by (cases rest) auto
    ultimately show ?thesis by simp
  qed
  have next_seq: "mr_seq r < mr_seq r'" if "r' \<in> set rs" for r' using Cons.prems(2) that by simp
  have IH: "fold_records covered rs rest = map snd (sort_key fst (map ?p rest @ ?S))"
    using Cons.IH [of rest] s Cons.prems(2) by simp
  have "sort_key fst (map ?p due @ (map ?p rest @ T)) = map ?p due @ sort_key fst (map ?p rest @ T)"
    if "\<And>t. t \<in> set T \<Longrightarrow> mr_seq r \<le> fst t" for T
    using s(1) d late that
    by (intro sort_key_append_le) (fastforce simp: case_prod_beta comp_def dest: less_imp_le order_trans)+
  note split = this
  have front: "sort_key fst (map ?p rest @ ?q r # ?S) = ?q r # sort_key fst (map ?p rest @ ?S)"
    using late next_seq by (intro sort_key_move_front) (auto simp: less_imp_le)
  have unf: "fold_records covered (r # rs) W = map (\<lambda>i. snd (snd i)) due @
      (if covered (mr_seq r) then [] else [mr_message r]) @ fold_records covered rs rest"
    by (simp add: due_def rest_def)
  have W': "map ?p W = map ?p due @ map ?p rest" by (simp add: W)
  have s1: "sort_key fst (map ?p due @ map ?p rest @ ?S) = map ?p due @ sort_key fst (map ?p rest @ ?S)"
    by (rule split) (use next_seq in \<open>auto simp: less_imp_le\<close>)
  have s2: "sort_key fst (map ?p due @ map ?p rest @ ?q r # ?S) =
      map ?p due @ sort_key fst (map ?p rest @ ?q r # ?S)"
    by (rule split) (use next_seq in \<open>auto simp: less_imp_le\<close>)
  show ?case
  proof (cases "covered (mr_seq r)")
    case True
    then show ?thesis unfolding unf W' IH by (simp add: s1 comp_def)
  next
    case False
    then show ?thesis unfolding unf W' IH by (simp add: s2 front comp_def)
  qed
qed

subsection \<open>The winners\<close>

lemma covers_trans: "covers a b \<Longrightarrow> covers b c \<Longrightarrow> covers a c"
  by (auto simp: covers_def)

text \<open>In a list ordered by \<open>R\<close> the kept intervals are those no interval of the list dominates.\<close>

lemma keep_maximal_filter:
  assumes "sorted_wrt R cs" and "\<And>a b. R a b \<Longrightarrow> \<not> R b a" and "\<And>a. a \<in> set cs \<Longrightarrow> \<not> R a a"
  shows "keep_maximal kept cs = kept @
    filter (\<lambda>x. \<not> list_ex (\<lambda>k. covers k x) kept \<and> (\<forall>y \<in> set cs. covers y x \<longrightarrow> \<not> R y x)) cs"
  using assms
proof (induction cs arbitrary: kept)
  case (Cons c cs)
  let ?P = "\<lambda>kept cs x. \<not> list_ex (\<lambda>k. covers k x) kept \<and> (\<forall>y \<in> set cs. covers y x \<longrightarrow> \<not> R y x)"
  have before: "R c y" if "y \<in> set cs" for y using Cons.prems(1) that by simp
  have own: "\<forall>y \<in> set (c # cs). covers y c \<longrightarrow> \<not> R y c" using before Cons.prems(2,3) by auto
  show ?case
  proof (cases "list_ex (\<lambda>k. covers k c) kept")
    case True
    then obtain k where k: "k \<in> set kept" "covers k c" by (auto simp: list_ex_iff)
    have "list_ex (\<lambda>k. covers k x) kept" if "covers c x" for x
      using k covers_trans [OF k(2) that] by (auto simp: list_ex_iff)
    then have "?P kept cs x = ?P kept (c # cs) x" for x by (metis list.set_intros(2) set_ConsD)
    then have "filter (?P kept cs) cs = filter (?P kept (c # cs)) cs" by simp
    then show ?thesis using True Cons by simp
  next
    case False
    have "filter (?P (kept @ [c]) cs) cs = filter (?P kept (c # cs)) cs"
      using before by (intro filter_cong refl) auto
    then show ?thesis using False Cons own by simp
  qed
qed simp

lemma keep_maximal_kept: "set kept \<subseteq> set (keep_maximal kept cs)"
proof (induction cs arbitrary: kept)
  case (Cons c cs)
  show ?case using Cons.IH [of "if list_ex (\<lambda>k. covers k c) kept then kept else kept @ [c]"]
    by (auto split: if_splits)
qed simp

lemma keep_maximal_covers:
  "c \<in> set kept \<union> set cs \<Longrightarrow> \<exists>k \<in> set (keep_maximal kept cs). covers k c"
proof (induction cs arbitrary: kept)
  case Nil
  then show ?case by (auto simp: covers_def)
next
  case (Cons c' cs)
  show ?case
  proof (cases "list_ex (\<lambda>k. covers k c') kept \<and> c = c'")
    case True
    then obtain k where k: "k \<in> set kept" "covers k c" by (auto simp: list_ex_iff)
    then show ?thesis using True keep_maximal_kept [of kept cs] by auto
  next
    case False
    then have "c \<in> set (if list_ex (\<lambda>k. covers k c') kept then kept else kept @ [c']) \<union> set cs"
      using Cons.prems by auto
    then show ?thesis using Cons.IH by simp
  qed
qed

lemma set_keep_maximal: "set (keep_maximal kept cs) \<subseteq> set kept \<union> set cs"
proof (induction cs arbitrary: kept)
  case (Cons c cs)
  show ?case using Cons.IH [of "if list_ex (\<lambda>k. covers k c) kept then kept else kept @ [c]"]
    by (auto split: if_splits)
qed simp

text \<open>The candidates with the record in place of its message.\<close>

abbreviation show_summary :: "'v MessageRecord interval \<Rightarrow> 'v Message interval" where
  "show_summary i \<equiv> (fst i, fst (snd i), mr_message (snd (snd i)))"

lemma keep_maximal_show:
  "keep_maximal (map show_summary kept) (map show_summary cs) = map show_summary (keep_maximal kept cs)"
proof (induction cs arbitrary: kept)
  case (Cons c cs)
  have "list_ex (\<lambda>k. covers k (show_summary c)) (map show_summary kept) = list_ex (\<lambda>k. covers k c) kept"
    by (induction kept) (simp_all add: covers_def)
  then show ?case using Cons.IH [of kept] Cons.IH [of "kept @ [c]"] by simp
qed simp

lemma interval_key_show: "interval_key (show_summary i) = interval_key i"
  by (simp add: interval_key_def)

lemma winning_intervals_show: "winning_intervals (map show_summary cs) = map show_summary (winning_intervals cs)"
  by (simp add: winning_intervals_def sort_key_map [where f = interval_key] sort_key_map [where f = fst]
      interval_key_show keep_maximal_show [of "[]", simplified])

definition candidate :: "'v MessageRecord \<Rightarrow> 'v MessageRecord interval" where
  "candidate r = (mark_from (the (mr_compaction r)), mark_to (the (mr_compaction r)), r)"

definition candidates :: "'v MessageRecord list \<Rightarrow> 'v MessageRecord interval list" where
  "candidates rs = map candidate (filter (\<lambda>r. mr_compaction r \<noteq> None) rs)"

definition precedes :: "'v MessageRecord interval \<Rightarrow> 'v MessageRecord interval \<Rightarrow> bool" where
  "precedes a b \<longleftrightarrow> interval_key a < interval_key b \<or>
     interval_key a = interval_key b \<and> mr_seq (snd (snd a)) < mr_seq (snd (snd b))"

lemma sorted_wrt_insort_key:
  assumes "sorted_wrt (\<lambda>a b. f a < f b \<or> f a = f b \<and> h a < h b) ys" and "\<And>y. y \<in> set ys \<Longrightarrow> h x < h y"
  shows "sorted_wrt (\<lambda>a b. f a < f b \<or> f a = f b \<and> h a < h b) (insort_key f x ys)"
  using assms by (induction ys) (auto simp: set_insort_key)

lemma sorted_wrt_sort_key:
  "sorted_wrt (<) (map h xs) \<Longrightarrow> sorted_wrt (\<lambda>a b. f a < f b \<or> f a = f b \<and> h a < h b) (sort_key f xs)"
  by (induction xs) (auto intro!: sorted_wrt_insort_key)

definition undominated :: "'v MessageRecord interval list \<Rightarrow> 'v MessageRecord interval \<Rightarrow> bool" where
  "undominated cs x \<longleftrightarrow> (\<forall>y \<in> set cs. covers y x \<longrightarrow> \<not> precedes y x)"

lemma undominated_start_unique:
  assumes "x \<in> set cs" and "y \<in> set cs" and "undominated cs x" and "undominated cs y" and "fst x = fst y"
    and "inj_on (\<lambda>i. mr_seq (snd (snd i))) (set cs)"
  shows "x = y"
proof (rule ccontr)
  assume "x \<noteq> y"
  then have "mr_seq (snd (snd x)) \<noteq> mr_seq (snd (snd y))" using assms(1,2,6) by (auto dest: inj_onD)
  then have "covers x y \<and> precedes x y \<or> covers y x \<and> precedes y x"
    using assms(5) by (auto simp: covers_def precedes_def interval_key_def less_prod_def word_le_def
        uint_word_of_int_eq word_less_def linorder_neq_iff)
  then show False using assms(1-4) by (auto simp: undominated_def)
qed

lemma sort_key_distinct:
  assumes "distinct (map f xs)" and "set ys = set xs" and "distinct (map f ys)"
  shows "sort_key f ys = sort_key f xs"
proof (rule map_sorted_distinct_set_unique)
  have "distinct (map f (sort_key f zs))" if "distinct (map f zs)" for zs
    using that by (metis distinct_map distinct_sort set_sort)
  then show "distinct (map f (sort_key f ys))" "distinct (map f (sort_key f xs))" using assms by blast+
  show "inj_on f (set (sort_key f ys) \<union> set (sort_key f xs))" using assms by (simp add: distinct_map)
qed (use assms in simp_all)

lemma winning_intervals_eq:
  assumes "sorted_wrt (<) (map (\<lambda>i. mr_seq (snd (snd i))) cs)"
  shows "winning_intervals cs = sort_key fst (filter (undominated cs) cs)"
proof -
  let ?s = "\<lambda>i. mr_seq (snd (snd i))"
  have inj: "inj_on ?s (set cs)" and d: "distinct cs"
    using assms by (simp_all add: strict_sorted_iff distinct_map)
  have "sorted_wrt precedes (sort_key interval_key cs)"
    using sorted_wrt_sort_key [OF assms, of interval_key] unfolding precedes_def .
  then have "keep_maximal [] (sort_key interval_key cs) =
      filter (\<lambda>x. \<forall>y \<in> set cs. covers y x \<longrightarrow> \<not> precedes y x) (sort_key interval_key cs)"
    by (subst keep_maximal_filter [where R = precedes]) (auto simp: precedes_def)
  moreover have "undominated cs = (\<lambda>x. \<forall>y \<in> set cs. covers y x \<longrightarrow> \<not> precedes y x)"
    by (simp add: fun_eq_iff undominated_def)
  ultimately have k: "keep_maximal [] (sort_key interval_key cs) = filter (undominated cs) (sort_key interval_key cs)"
    by simp
  have "inj_on fst {x \<in> set cs. undominated cs x}"
    using undominated_start_unique [OF _ _ _ _ _ inj] by (auto intro!: inj_onI)
  then show ?thesis unfolding winning_intervals_def k
    by (intro sort_key_distinct) (simp_all add: distinct_map d distinct_filter)
qed


lemma undominated_candidate:
  assumes "r \<in> set rs" and "mr_compaction r = Some c"
  shows "undominated (candidates rs) (candidate r) \<longleftrightarrow> winning rs r"
proof -
  have "(covers (candidate s) (candidate r) \<longrightarrow> \<not> precedes (candidate s) (candidate r))
    \<longleftrightarrow> (mark_from c' \<le> mark_from c \<and> mark_to c \<le> mark_to c' \<longrightarrow> c' = c \<and> mr_seq r \<le> mr_seq s)"
    if "mr_compaction s = Some c'" for s c'
  proof -
    have "c' = c \<longleftrightarrow> mark_from c' = mark_from c \<and> mark_to c' = mark_to c" by auto
    then show ?thesis using that assms(2)
      by (auto simp: candidate_def covers_def precedes_def interval_key_def word_le_def word_less_def
          word_uint_eq_iff less_prod_def)
  qed
  note one = this
  have "undominated (candidates rs) (candidate r) \<longleftrightarrow>
      (\<forall>s \<in> set rs. \<forall>c'. mr_compaction s = Some c' \<longrightarrow>
         covers (candidate s) (candidate r) \<longrightarrow> \<not> precedes (candidate s) (candidate r))"
    by (auto simp: undominated_def candidates_def)
  also have "\<dots> \<longleftrightarrow> winning rs r"
    using one assms(2) by (simp add: winning_def split: option.splits)
  finally show ?thesis .
qed

theorem effective_messages_eq:
  assumes "sorted_wrt (<) (map mr_seq rs)"
  shows "effective_messages rs = effective_spec rs"
proof -
  let ?raw = "filter (\<lambda>r. mr_compaction r = None) rs" and ?C = "candidates rs"
  let ?D = "filter (undominated ?C) ?C"
  have inj: "inj_on mr_seq (set rs)" using assms by (simp add: strict_sorted_iff distinct_map)
  have seqs: "map (\<lambda>i. mr_seq (snd (snd i))) ?C = map mr_seq (filter (\<lambda>r. mr_compaction r \<noteq> None) rs)"
    by (simp add: candidates_def candidate_def comp_def)
  have sC: "sorted_wrt (<) (map (\<lambda>i. mr_seq (snd (snd i))) ?C)"
    unfolding seqs using assms by (simp add: sorted_wrt_map sorted_wrt_filter)
  have W: "winning_intervals ?C = sort_key fst ?D" by (rule winning_intervals_eq [OF sC])
  have D: "?D = map candidate (filter (winning rs) rs)"
  proof -
    have "?D = map candidate (filter (\<lambda>r. undominated ?C (candidate r)) (filter (\<lambda>r. mr_compaction r \<noteq> None) rs))"
      by (simp add: candidates_def filter_map comp_def)
    also have "filter (\<lambda>r. undominated ?C (candidate r)) (filter (\<lambda>r. mr_compaction r \<noteq> None) rs) = filter (winning rs) rs"
      unfolding filter_filter
    proof (rule filter_cong [OF refl])
      fix r
      assume "r \<in> set rs"
      then show "(mr_compaction r \<noteq> None \<and> undominated ?C (candidate r)) = winning rs r"
      proof (cases "mr_compaction r")
        case None
        then show ?thesis by (simp add: winning_def)
      next
        case (Some c)
        then show ?thesis using undominated_candidate [OF \<open>r \<in> set rs\<close> Some] by simp
      qed
    qed
    finally show ?thesis .
  qed
  have cand: "List.map_filter (\<lambda>r. map_option (\<lambda>c. (mark_from c, mark_to c, mr_message r)) (mr_compaction r)) rs
      = map show_summary ?C"
    by (auto simp: List.map_filter_def candidates_def candidate_def comp_def option.map_sel intro!: map_cong)
  have raw: "filter (\<lambda>r. mr_seq r \<notin> set (map mr_seq (filter (\<lambda>r. mr_compaction r \<noteq> None) rs))) rs = ?raw"
  proof (rule filter_cong [OF refl])
    fix r
    assume "r \<in> set rs"
    then have "mr_seq r \<in> mr_seq ` {s \<in> set rs. mr_compaction s \<noteq> None} \<longleftrightarrow> mr_compaction r \<noteq> None"
      by (subst inj_on_image_mem_iff [OF inj]) auto
    then show "(mr_seq r \<notin> set (map mr_seq (filter (\<lambda>r. mr_compaction r \<noteq> None) rs))) = (mr_compaction r = None)"
      by simp
  qed
  have setW: "set (winning_intervals ?C) \<subseteq> set ?C" by (auto simp: W)
  have inside: "inside (map show_summary (winning_intervals ?C)) seq = folded_away rs seq" for seq
  proof
    assume "inside (map show_summary (winning_intervals ?C)) seq"
    then obtain r where "r \<in> set rs" "mr_compaction r \<noteq> None"
      "mark_from (the (mr_compaction r)) \<le> seq" "seq \<le> mark_to (the (mr_compaction r))"
      using setW by (fastforce simp: inside_def candidates_def candidate_def list_ex_iff)
    then show "folded_away rs seq" unfolding folded_away_def by (intro bexI [of _ r]) auto
  next
    assume "folded_away rs seq"
    then obtain s where s: "s \<in> set rs" "mr_compaction s \<noteq> None"
      "mark_from (the (mr_compaction s)) \<le> seq" "seq \<le> mark_to (the (mr_compaction s))"
      by (force simp: folded_away_def split: option.splits)
    then have "candidate s \<in> set ?C" by (simp add: candidates_def)
    then obtain k where "k \<in> set (winning_intervals ?C)" "covers k (candidate s)"
      using keep_maximal_covers [of "candidate s" "[]" "sort_key interval_key ?C"]
      by (auto simp: winning_intervals_def)
    with s show "inside (map show_summary (winning_intervals ?C)) seq"
      by (auto simp: inside_def list_ex_iff covers_def candidate_def intro!: bexI [of _ k] elim: order_trans)
  qed
  let ?W = "map show_summary (winning_intervals ?C)"
    and ?S = "map (\<lambda>r. (mr_seq r, mr_message r))
      (filter (\<lambda>r. mr_compaction r = None \<and> \<not> folded_away rs (mr_seq r)) rs)"
    and ?p = "\<lambda>r. (mark_from (the (mr_compaction r)), mr_message r)"
  have "effective_messages rs = fold_records (inside ?W) ?raw ?W"
    by (simp only: effective_messages_def Let_def cand raw winning_intervals_show)
  also have "\<dots> = map snd (sort_key fst (map (\<lambda>i. (fst i, snd (snd i))) ?W @
      map (\<lambda>r. (mr_seq r, mr_message r)) (filter (\<lambda>r. \<not> inside ?W (mr_seq r)) ?raw)))"
  proof (rule fold_records_sort)
    show "sorted (map fst ?W)" by (simp add: W comp_def)
    show "sorted_wrt (<) (map mr_seq ?raw)" using assms by (simp add: sorted_wrt_map sorted_wrt_filter)
  qed
  also have "map (\<lambda>r. (mr_seq r, mr_message r)) (filter (\<lambda>r. \<not> inside ?W (mr_seq r)) ?raw) = ?S"
    unfolding inside filter_filter by (simp add: conj_commute)
  also have "map (\<lambda>i. (fst i, snd (snd i))) ?W = sort_key fst (map ?p (filter (winning rs) rs))"
    unfolding W D by (simp add: sort_key_map candidate_def comp_def)
  finally show ?thesis unfolding effective_spec_def by (simp only: sort_key_sort_append)
qed

text \<open>A raw record that does not show is covered by a summary that does.\<close>

lemma set_effective_spec:
  "set (effective_spec rs) = mr_message ` {r \<in> set rs. winning rs r} \<union>
     mr_message ` {r \<in> set rs. mr_compaction r = None \<and> \<not> folded_away rs (mr_seq r)}"
  by (auto simp: effective_spec_def image_image image_Un)

lemma covering_winner:
  assumes "sorted_wrt (<) (map mr_seq rs)" and "s \<in> set rs" and "mr_compaction s = Some c"
  obtains w d where "w \<in> set rs" "winning rs w" "mr_compaction w = Some d"
    "mark_from d \<le> mark_from c" "mark_to c \<le> mark_to d"
proof -
  let ?C = "candidates rs"
  have "sorted_wrt (<) (map (\<lambda>i. mr_seq (snd (snd i))) ?C)"
    using assms(1) by (simp add: candidates_def candidate_def comp_def sorted_wrt_map sorted_wrt_filter)
  note W = winning_intervals_eq [OF this]
  have "candidate s \<in> set ?C" using assms(2,3) by (simp add: candidates_def)
  then obtain k where k: "k \<in> set (winning_intervals ?C)" "covers k (candidate s)"
    using keep_maximal_covers [of "candidate s" "[]" "sort_key interval_key ?C"]
    by (auto simp: winning_intervals_def)
  then have "k \<in> set ?C" "undominated ?C k" by (auto simp: W)
  then obtain w d where "w \<in> set rs" "mr_compaction w = Some d" "k = candidate w" by (auto simp: candidates_def)
  then show thesis using that [of w d] k(2) \<open>undominated ?C k\<close> undominated_candidate [of w rs d] assms(3)
    by (simp add: covers_def candidate_def)
qed

lemma effective_view_complete:
  assumes "sorted_wrt (<) (map mr_seq rs)" and "r \<in> set rs" and "mr_compaction r = None"
  shows "mr_message r \<in> set (effective_messages rs) \<or>
    (\<exists>w \<in> set rs. \<exists>c. mr_compaction w = Some c \<and> mark_from c \<le> mr_seq r \<and> mr_seq r \<le> mark_to c \<and>
       mr_message w \<in> set (effective_messages rs))"
proof (cases "folded_away rs (mr_seq r)")
  case True
  then obtain s c where "s \<in> set rs" "mr_compaction s = Some c" and c: "mark_from c \<le> mr_seq r" "mr_seq r \<le> mark_to c"
    by (force simp: folded_away_def split: option.splits)
  then obtain w d where "w \<in> set rs" "winning rs w" "mr_compaction w = Some d"
    "mark_from d \<le> mark_from c" "mark_to c \<le> mark_to d" using covering_winner [OF assms(1)] by metis
  with c show ?thesis unfolding effective_messages_eq [OF assms(1)] set_effective_spec
    by (intro disjI2 bexI [of _ w] exI [of _ d]) auto
next
  case False
  then show ?thesis using assms unfolding effective_messages_eq [OF assms(1)] set_effective_spec by auto
qed

section \<open>Filtering unpaired tool calls\<close>

text \<open>\<open>results_of vis ms\<close>: the call ids answered by tool messages of that visibility.\<close>

definition results_of :: "Visibility \<Rightarrow> 'v Message list \<Rightarrow> string set" where
  "results_of vis ms = set (List.map_filter
     (\<lambda>m. if msg_role m = RoleTool \<and> msg_visibility m = vis then msg_tool_call_id m else None) ms)"

definition retain_calls :: "(string \<Rightarrow> bool) \<Rightarrow> 'v Message \<Rightarrow> 'v Message" where
  "retain_calls keep m =
     (if msg_role m \<noteq> RoleAssistant then m
      else (case msg_tool_calls m of None \<Rightarrow> m
          | Some calls \<Rightarrow> (let kept = filter (\<lambda>c. keep (tcall_id c)) calls
              in m\<lparr>msg_tool_calls := (if kept = [] then None else Some kept)\<rparr>)))"

definition strip_unpaired_tool_calls_from_view :: "'v Message list \<Rightarrow> 'v Message list" where
  "strip_unpaired_tool_calls_from_view ms =
     (let answered = results_of VisAll ms; retracted = results_of VisInternal ms
      in filter (\<lambda>m. msg_role m \<noteq> RoleTool \<or>
             (case msg_tool_call_id m of None \<Rightarrow> True
              | Some c \<Rightarrow> msg_visibility m = VisAll \<and> c \<notin> retracted))
           (map (retain_calls (\<lambda>c. c \<in> answered \<and> c \<notin> retracted)) ms))"

text \<open>The records of a committed log; \<open>fresh i\<close> is the id generated for the message at index \<open>i\<close>.\<close>

definition log_records :: "(nat \<Rightarrow> string) \<Rightarrow> string \<Rightarrow> 'v Message list \<Rightarrow> 'v MessageRecord list" where
  "log_records fresh thread_id committed =
     map (\<lambda>(i, m). from_message (fresh i) thread_id (of_nat i + 1) m) (enumerate 0 committed)"

definition effective_committed_view :: "(nat \<Rightarrow> string) \<Rightarrow> string \<Rightarrow> 'v Message list \<Rightarrow> 'v Message list" where
  "effective_committed_view fresh thread_id committed =
     strip_unpaired_tool_calls_from_view (effective_messages (log_records fresh thread_id committed))"

subsection \<open>Preparing a run\<close>

text \<open>
  \<open>strip_unpaired_tool_calls\<close> of the runner pops empty assistant messages from the end; a new user
  message supersedes the calls that are suspended, which \<open>suspended\<close> lists.
\<close>

definition empty_assistant :: "'v Message \<Rightarrow> bool" where
  "empty_assistant m \<longleftrightarrow> msg_role m = RoleAssistant \<and> msg_tool_calls m = None \<and> blank (message_text m)"

definition pop_empty_assistants :: "'v Message list \<Rightarrow> 'v Message list" where
  "pop_empty_assistants ms = rev (dropWhile empty_assistant (rev ms))"

definition strip_unpaired_tool_calls :: "'v Message list \<Rightarrow> 'v Message list" where
  "strip_unpaired_tool_calls ms = pop_empty_assistants (strip_unpaired_tool_calls_from_view ms)"

definition should_supersede_suspended_calls :: "'v Message list \<Rightarrow> 'd list \<Rightarrow> bool" where
  "should_supersede_suspended_calls request_messages decisions \<longleftrightarrow>
     decisions = [] \<and> list_ex (\<lambda>m. msg_role m = RoleUser \<and> msg_visibility m = VisAll) request_messages"

definition strip_superseded_suspended_tool_calls ::
  "string list \<Rightarrow> 'v Message list \<Rightarrow> string list \<times> 'v Message list" where
  "strip_superseded_suspended_tool_calls suspended ms =
     (if suspended = [] then ([], ms)
      else (sort suspended, pop_empty_assistants
        (filter (\<lambda>m. \<not> (msg_role m = RoleTool \<and> (\<exists>c \<in> set suspended. msg_tool_call_id m = Some c)))
          (map (retain_calls (\<lambda>c. c \<notin> set suspended)) ms))))"

definition retraction_marker :: "string \<Rightarrow> string \<Rightarrow> 'v Message" where
  "retraction_marker fresh c = (tool_message fresh c ''[tool call superseded]'')\<lparr>msg_visibility := VisInternal\<rparr>"

definition append_internal_tool_retraction_markers ::
  "(string \<Rightarrow> string) \<Rightarrow> string list \<Rightarrow> 'v Message list \<Rightarrow> 'v Message list" where
  "append_internal_tool_retraction_markers fresh superseded ms =
     ms @ map (\<lambda>c. retraction_marker (fresh c) c) superseded"

definition prepare_messages ::
  "(string \<Rightarrow> string) \<Rightarrow> string list \<Rightarrow> 'd list \<Rightarrow> bool \<Rightarrow> 'v Message list \<Rightarrow> 'v Message list \<Rightarrow> 'v Message list" where
  "prepare_messages fresh suspended decisions messages_already_persisted request_messages loaded =
     (let (superseded, ms) =
            (if should_supersede_suspended_calls request_messages decisions
             then strip_superseded_suspended_tool_calls suspended loaded else ([], loaded));
          ms1 = append_internal_tool_retraction_markers fresh superseded (strip_unpaired_tool_calls ms)
      in if messages_already_persisted then ms1 else ms1 @ request_messages)"


subsection \<open>Paired histories\<close>

definition answers_call :: "string \<Rightarrow> 'v Message \<Rightarrow> bool" where
  "answers_call i m \<longleftrightarrow> msg_role m = RoleTool \<and> msg_visibility m = VisAll \<and> msg_tool_call_id m = Some i"

definition retracts_call :: "string \<Rightarrow> 'v Message \<Rightarrow> bool" where
  "retracts_call i m \<longleftrightarrow> msg_role m = RoleTool \<and> msg_visibility m = VisInternal \<and> msg_tool_call_id m = Some i"

lemma results_of_iff:
  "i \<in> results_of VisAll ms \<longleftrightarrow> (\<exists>m \<in> set ms. answers_call i m)"
  "i \<in> results_of VisInternal ms \<longleftrightarrow> (\<exists>m \<in> set ms. retracts_call i m)"
  by (auto simp: results_of_def answers_call_def retracts_call_def set_map_filter split: if_splits)

lemma retain_calls_other: "msg_role m \<noteq> RoleAssistant \<Longrightarrow> retain_calls keep m = m"
  by (simp add: retain_calls_def)

lemma retain_calls_simps [simp]:
  "msg_role (retain_calls keep m) = msg_role m"
  "msg_id (retain_calls keep m) = msg_id m"
  "msg_visibility (retain_calls keep m) = msg_visibility m"
  "msg_tool_call_id (retain_calls keep m) = msg_tool_call_id m"
  "msg_content (retain_calls keep m) = msg_content m"
  by (simp_all add: retain_calls_def Let_def split: option.splits)

lemma makes_call_retain [simp]: "makes_call i (retain_calls keep m) \<longleftrightarrow> makes_call i m \<and> keep i"
  by (auto simp: makes_call_def retain_calls_def call_ids_def Let_def filter_empty_conv split: option.splits)

lemma answers_call_retain [simp]: "answers_call i (retain_calls keep m) = answers_call i m"
  by (simp add: answers_call_def)

lemma retracts_call_retain [simp]: "retracts_call i (retain_calls keep m) = retracts_call i m"
  by (simp add: retracts_call_def)

lemma strip_view_eq:
  "strip_unpaired_tool_calls_from_view ms =
   filter (\<lambda>m. msg_role m \<noteq> RoleTool \<or> msg_tool_call_id m = None \<or>
       (\<exists>i. answers_call i m \<and> i \<notin> results_of VisInternal ms))
     (map (retain_calls (\<lambda>c. c \<in> results_of VisAll ms \<and> c \<notin> results_of VisInternal ms)) ms)"
  unfolding strip_unpaired_tool_calls_from_view_def Let_def
  by (rule filter_cong) (auto simp: answers_call_def split: option.splits)

text \<open>Every call of the view is answered in the view, and no retracted call or result shows.\<close>

lemma strip_view_calls:
  assumes "m \<in> set (strip_unpaired_tool_calls_from_view ms)" and "makes_call i m"
  shows "\<exists>r \<in> set (strip_unpaired_tool_calls_from_view ms). answers_call i r" "\<not> (\<exists>r \<in> set ms. retracts_call i r)"
proof -
  have i: "i \<in> results_of VisAll ms" "i \<notin> results_of VisInternal ms"
    using assms by (auto simp: strip_view_eq)
  then obtain r where "r \<in> set ms" "answers_call i r" by (auto simp: results_of_iff)
  moreover from this have "retain_calls keep r = r" for keep
    by (simp add: answers_call_def retain_calls_other)
  ultimately show "\<exists>r \<in> set (strip_unpaired_tool_calls_from_view ms). answers_call i r"
    using i by (force simp: strip_view_eq answers_call_def)
  show "\<not> (\<exists>r \<in> set ms. retracts_call i r)" using i by (simp add: results_of_iff)
qed

lemma strip_view_results:
  "m \<in> set (strip_unpaired_tool_calls_from_view ms) \<Longrightarrow> \<not> retracts_call i m"
  "m \<in> set (strip_unpaired_tool_calls_from_view ms) \<Longrightarrow> answers_call i m \<Longrightarrow> \<not> (\<exists>r \<in> set ms. retracts_call i r)"
  by (auto simp: strip_view_eq answers_call_def retracts_call_def results_of_iff)

lemma strip_view_no_marker: "\<not> (\<exists>m \<in> set ms. \<exists>i. retracts_call i m) \<Longrightarrow>
  strip_unpaired_tool_calls_from_view ms = map (retain_calls (\<lambda>c. c \<in> results_of VisAll ms)) ms"
proof -
  assume a: "\<not> (\<exists>m \<in> set ms. \<exists>i. retracts_call i m)"
  then have "results_of VisInternal ms = {}" by (auto simp: results_of_iff)
  moreover have "msg_role m \<noteq> RoleTool \<or> msg_tool_call_id m = None \<or> (\<exists>i. answers_call i m)" if "m \<in> set ms" for m
    using a that by (cases "msg_visibility m") (auto simp: answers_call_def retracts_call_def)
  ultimately show ?thesis by (auto simp: strip_view_eq answers_call_def intro!: filter_True)
qed

lemma retain_calls_id: "(\<And>i. makes_call i m \<Longrightarrow> keep i) \<Longrightarrow> msg_tool_calls m \<noteq> Some [] \<Longrightarrow> retain_calls keep m = m"
proof (cases "msg_role m = RoleAssistant")
  case True
  assume keep: "\<And>i. makes_call i m \<Longrightarrow> keep i" and ne: "msg_tool_calls m \<noteq> Some []"
  show ?thesis
  proof (cases "msg_tool_calls m")
    case (Some calls)
    then have "filter (\<lambda>c. keep (tcall_id c)) calls = calls"
      using keep True by (auto simp: makes_call_def call_ids_def intro!: filter_True)
    then show ?thesis using Some ne True by (simp add: retain_calls_def)
  qed (simp add: retain_calls_def)
qed (simp add: retain_calls_def)

lemma strip_view_idem:
  "strip_unpaired_tool_calls_from_view (strip_unpaired_tool_calls_from_view ms) =
   strip_unpaired_tool_calls_from_view ms" (is "?s (?s ms) = _")
proof -
  have "?s (?s ms) = map (retain_calls (\<lambda>c. c \<in> results_of VisAll (?s ms))) (?s ms)"
    using strip_view_results(1) [of _ ms] by (intro strip_view_no_marker) blast
  also have "\<dots> = ?s ms"
  proof (rule map_idI)
    fix m
    assume m: "m \<in> set (?s ms)"
    have "msg_tool_calls m \<noteq> Some []" if "msg_role m = RoleAssistant"
      using m that by (auto simp: strip_view_eq retain_calls_def Let_def split: option.splits if_splits)
    then show "retain_calls (\<lambda>c. c \<in> results_of VisAll (?s ms)) m = m"
      using strip_view_calls(1) [OF m] retain_calls_id [of m] retain_calls_other [of m]
      by (cases "msg_role m = RoleAssistant") (auto simp: results_of_iff)
  qed
  finally show ?thesis .
qed

lemma pop_empty_assistants_append:
  obtains rest where "ms = pop_empty_assistants ms @ rest" "\<And>m. m \<in> set rest \<Longrightarrow> empty_assistant m"
proof
  show "ms = pop_empty_assistants ms @ rev (takeWhile empty_assistant (rev ms))"
    using takeWhile_dropWhile_id [of empty_assistant "rev ms"]
    by (metis pop_empty_assistants_def rev_append rev_rev_ident)
qed (auto dest: set_takeWhileD)

lemma pop_empty_assistants_mem:
  "m \<in> set (pop_empty_assistants ms) \<Longrightarrow> m \<in> set ms"
  "m \<in> set ms \<Longrightarrow> \<not> empty_assistant m \<Longrightarrow> m \<in> set (pop_empty_assistants ms)"
  using pop_empty_assistants_append [of ms] by (metis Un_iff set_append)+

lemma strip_unpaired_calls_answered:
  assumes "m \<in> set (strip_unpaired_tool_calls ms)" and "makes_call i m"
  shows "\<exists>r \<in> set (strip_unpaired_tool_calls ms). answers_call i r"
proof -
  obtain r where "r \<in> set (strip_unpaired_tool_calls_from_view ms)" "answers_call i r"
    using assms strip_view_calls(1) pop_empty_assistants_mem(1) unfolding strip_unpaired_tool_calls_def by blast
  then show ?thesis using pop_empty_assistants_mem(2) [of r]
    by (auto simp: strip_unpaired_tool_calls_def empty_assistant_def answers_call_def)
qed

lemma strip_unpaired_mem:
  assumes "m \<in> set (strip_unpaired_tool_calls ms)"
  shows "answers_call i m \<Longrightarrow> \<exists>r \<in> set ms. answers_call i r"
    and "makes_call i m \<Longrightarrow> \<exists>r \<in> set ms. makes_call i r"
proof -
  obtain x keep where "x \<in> set ms" "m = retain_calls keep x"
    using pop_empty_assistants_mem(1) [OF assms [unfolded strip_unpaired_tool_calls_def]]
    by (auto simp: strip_view_eq)
  then show "answers_call i m \<Longrightarrow> \<exists>r \<in> set ms. answers_call i r"
    and "makes_call i m \<Longrightarrow> \<exists>r \<in> set ms. makes_call i r" by auto
qed

lemma superseded_gone:
  assumes "strip_superseded_suspended_tool_calls suspended ms = (gone, ms')" and "i \<in> set suspended"
  shows "i \<in> set gone" "m \<in> set ms' \<Longrightarrow> \<not> makes_call i m" "m \<in> set ms' \<Longrightarrow> \<not> answers_call i m"
  using assms by (auto simp: strip_superseded_suspended_tool_calls_def answers_call_def split: if_splits
      dest!: pop_empty_assistants_mem(1))

lemma marker_retracts:
  "retracts_call i (retraction_marker f c) \<longleftrightarrow> i = c"
  "\<not> makes_call i (retraction_marker f c)" "\<not> answers_call i (retraction_marker f c)"
  by (auto simp: retracts_call_def makes_call_def answers_call_def retraction_marker_def tool_message_def
      text_message_def)

text \<open>
  The comment in the filter says that orphan tool results are dropped. They are not: a visible result
  whose call is gone stays.
\<close>

lemma orphan_result_stays:
  "strip_unpaired_tool_calls_from_view [tool_message ''m3'' ''a'' ''found'' :: unit Message] =
     [tool_message ''m3'' ''a'' ''found'']"
  by code_simp

section \<open>The effective view of a log\<close>

lemma seq_log_records:
  assumes "length log < 2 ^ 64"
  shows "sorted_wrt (<) (map mr_seq (log_records fresh t log))"
proof -
  have "map mr_seq (log_records fresh t log) = map (\<lambda>i. of_nat i + 1) [0..<length log]"
    by (auto simp: log_records_def from_message_def Let_def enumerate_eq_zip comp_def case_prod_beta
        intro!: nth_equalityI)
  moreover have "(of_nat i + 1 :: u64) < of_nat j + 1" if "i < j" "j < length log" for i j
  proof -
    have "unat (of_nat i + 1 :: u64) = i + 1" "unat (of_nat j + 1 :: u64) = j + 1"
      using that assms by (simp_all add: unat_of_nat unat_word_ariths)
    with that show ?thesis by (simp add: word_less_nat_alt)
  qed
  ultimately show ?thesis by (auto simp: sorted_wrt_iff_nth_less)
qed

subsection \<open>Superseded calls in the log\<close>

text \<open>
  \<open>superseded_at log k i\<close>: the log holds the retraction marker of the call \<open>i\<close> at index \<open>k\<close>, and no
  later message makes or answers that call.
\<close>

definition superseded_at :: "'v Message list \<Rightarrow> nat \<Rightarrow> string \<Rightarrow> bool" where
  "superseded_at log k i \<longleftrightarrow> k < length log \<and> (\<exists>f. log ! k = retraction_marker f i) \<and>
     list_all (\<lambda>m. \<not> makes_call i m \<and> \<not> answers_call i m) (drop (Suc k) log)"

text \<open>Compaction marks as the runtime writes them: on system messages, from the first message on.\<close>

definition marks_from_start :: "'v Message list \<Rightarrow> bool" where
  "marks_from_start log \<longleftrightarrow> list_all (\<lambda>m. case message_mark m of None \<Rightarrow> True
     | Some c \<Rightarrow> msg_role m = RoleSystem \<and> mark_from c \<le> 1) log"

lemma log_record_nth:
  assumes "k < length log"
  shows "mr_seq (log_records fresh t log ! k) = of_nat k + 1"
    and "mr_compaction (log_records fresh t log ! k) = message_mark (log ! k)"
    and "\<exists>i. mr_message (log_records fresh t log ! k) = (log ! k)\<lparr>msg_id := i\<rparr>"
  using assms by (auto simp: log_records_def from_message_def Let_def nth_enumerate_eq)

lemma calls_ignore_id [simp]:
  "makes_call i (m\<lparr>msg_id := x\<rparr>) = makes_call i m" "answers_call i (m\<lparr>msg_id := x\<rparr>) = answers_call i m"
  "retracts_call i (m\<lparr>msg_id := x\<rparr>) = retracts_call i m"
  by (simp_all add: makes_call_def answers_call_def retracts_call_def call_ids_def)

lemma strip_view_mem:
  assumes "m \<in> set (strip_unpaired_tool_calls_from_view ms)"
  shows "makes_call i m \<Longrightarrow> \<exists>x \<in> set ms. makes_call i x" and "answers_call i m \<Longrightarrow> \<exists>x \<in> set ms. answers_call i x"
  using assms by (auto simp: strip_view_eq)

lemma superseded_hidden:
  assumes "length log < 2 ^ 64" and "superseded_at log k i" and "marks_from_start log"
    and "m \<in> set (effective_committed_view fresh t log)"
  shows "\<not> makes_call i m" and "\<not> answers_call i m"
proof -
  define rs where "rs = log_records fresh t log"
  note eff = effective_messages_eq [OF seq_log_records [OF assms(1), of fresh t], folded rs_def]
  have k: "k < length log" and mark: "retracts_call i (log ! k)" "message_mark (log ! k) = None"
    using assms(2) by (auto simp: superseded_at_def marker_retracts, auto simp: retraction_marker_def message_mark_def tool_message_def text_message_def)
  have len: "length rs = length log" by (simp add: rs_def log_records_def)
  note nth = log_record_nth [where fresh = fresh and t = t and log = log, folded rs_def]
  have system: "msg_role (mr_message s) = RoleSystem \<and> mark_from c \<le> 1"
    if s: "s \<in> set rs" and c: "mr_compaction s = Some c" for s c
  proof -
    obtain j where j: "j < length log" "s = rs ! j" using s by (auto simp: in_set_conv_nth len)
    then show ?thesis using nth [OF j(1)] c assms(3)
      by (auto simp: marks_from_start_def list_all_length split: option.splits)
  qed
  have unat_seq: "unat (of_nat j + 1 :: u64) = j + 1" if "j < length log" for j
    using that assms(1) by (simp add: unat_of_nat unat_word_ariths)
  have seq_pos: "(1 :: u64) \<le> of_nat j + 1" if "j < length log" for j
    using unat_seq [OF that] by (simp add: word_le_nat_alt)
  have seq_mono: "(of_nat j + 1 :: u64) \<le> of_nat l + 1" if "j \<le> l" "l < length log" for j l
    using that unat_seq [of j] unat_seq [of l] by (simp add: word_le_nat_alt)
  have after: "\<not> makes_call i (log ! j) \<and> \<not> answers_call i (log ! j)" if "k < j" "j < length log" for j
  proof -
    have "log ! j = drop (Suc k) log ! (j - Suc k)" "j - Suc k < length (drop (Suc k) log)" using that by simp_all
    then show ?thesis using assms(2) by (auto simp: superseded_at_def list_all_length)
  qed
  have hidden: "\<not> makes_call i x \<and> \<not> answers_call i x"
    if f: "folded_away rs (of_nat k + 1)" and x: "x \<in> set (effective_messages rs)" for x
  proof -
    obtain s c where s: "s \<in> set rs" "mr_compaction s = Some c" "of_nat k + 1 \<le> mark_to c"
      using f by (auto simp: folded_away_def split: option.splits)
    have "mark_from c \<le> 1" using system [OF s(1,2)] by simp
    obtain j where j: "j < length log" "x = mr_message (rs ! j)"
      "winning rs (rs ! j) \<or> mr_compaction (rs ! j) = None \<and> \<not> folded_away rs (of_nat j + 1)"
      using x nth unfolding eff set_effective_spec by (auto simp: in_set_conv_nth len)
    show ?thesis
    proof (cases "mr_compaction (rs ! j)")
      case (Some d)
      then have "msg_role x = RoleSystem" using system [of "rs ! j" d] j by (simp add: len)
      then show ?thesis by (simp add: makes_call_def answers_call_def)
    next
      case None
      then have "\<not> folded_away rs (of_nat j + 1)" using j(3) by (simp add: winning_def)
      then have "\<not> of_nat j + 1 \<le> mark_to c"
        using s(1,2) \<open>mark_from c \<le> 1\<close> seq_pos [OF j(1)] by (force simp: folded_away_def dest: order_trans)
      with s(3) have "k < j" using seq_mono [of j k] j(1) k by (meson not_le order_trans)
      then have "\<not> makes_call i (log ! j) \<and> \<not> answers_call i (log ! j)"
        using after [OF \<open>k < j\<close> j(1)] by blast
      then show ?thesis using nth(3) [OF j(1)] j(2) by auto
    qed
  qed
  have "\<exists>r \<in> set (effective_messages rs). retracts_call i r" if "\<not> folded_away rs (of_nat k + 1)"
    using that nth [OF k] mark k unfolding eff set_effective_spec
    by (intro bexI [of _ "mr_message (rs ! k)"] UnI2 image_eqI [where x = "rs ! k"]) (auto simp: len)
  then have "(\<not> makes_call i m) \<and> (\<not> answers_call i m)"
    using assms(4) hidden strip_view_mem [of m "effective_messages rs" i] strip_view_calls(2) [of m "effective_messages rs" i]
      strip_view_results(2) [of m "effective_messages rs" i]
    unfolding effective_committed_view_def rs_def [symmetric] by blast
  then show "\<not> makes_call i m" "\<not> answers_call i m" by blast+
qed

text \<open>
  C10: The effective view of a committed log is what its declarative reading says: raw messages that
  no compaction interval covers and the summaries of the maximal intervals, in the order of their
  numbers, a summary at the start of its interval. Nothing is lost: a message that does not show is
  covered by a summary that does.
\<close>

theorem effective_view_exact:
  assumes "length committed < 2 ^ 64" and "records = log_records fresh thread_id committed"
  shows "effective_messages records = effective_spec records \<and>
    (\<forall>r \<in> set records. mr_compaction r = None \<longrightarrow>
       mr_message r \<in> set (effective_messages records) \<or>
       (\<exists>w \<in> set records. \<exists>c. mr_compaction w = Some c \<and> mark_from c \<le> mr_seq r \<and> mr_seq r \<le> mark_to c \<and>
          mr_message w \<in> set (effective_messages records)))"
  using seq_log_records [OF assms(1), of fresh thread_id] effective_messages_eq effective_view_complete
  unfolding assms(2) by blast

text \<open>Four messages, a summary of the first two and a later one of the first three.\<close>

definition demo_summary :: "string \<Rightarrow> u64 \<Rightarrow> unit Message" where
  "demo_summary i n = (internal_system i ''summary'')\<lparr>msg_metadata :=
     Some (no_metadata\<lparr>md_compaction := Some \<lparr>mark_from = 1, mark_to = n\<rparr>\<rparr>)\<rparr>"

definition demo_log :: "unit Message list" where
  "demo_log = [user_message ''1'' ''a'', user_message ''2'' ''b'', user_message ''3'' ''c'',
     demo_summary ''s'' 2, user_message ''4'' ''d'', demo_summary ''t'' 3]"

lemma effective_view_exact_witness:
  "map msg_id (effective_messages (log_records (\<lambda>_. ''x'') ''t'' demo_log)) = [Some ''t'', Some ''4'']"
proof -
  have "length demo_log < 2 ^ 64" by (simp add: demo_log_def)
  from effective_view_exact [OF this refl, of "\<lambda>_. ''x''" "''t''"]
  have "effective_messages (log_records (\<lambda>_. ''x'') ''t'' demo_log) = effective_spec (log_records (\<lambda>_. ''x'') ''t'' demo_log)"
    by blast
  moreover have "map msg_id (effective_spec (log_records (\<lambda>_. ''x'') ''t'' demo_log)) = [Some ''t'', Some ''4'']"
    by code_simp
  ultimately show ?thesis by simp
qed

subsection \<open>The history of a run\<close>

text \<open>
  C14: The history a run starts from, for new input that is neither an assistant nor a tool message.
  Every tool call in it is answered by a visible result. Where the new input supersedes suspended
  calls, neither these calls nor results of them are in it, and it holds a retraction marker for each.
  Once a committed log holds that marker and no later message reuses the call's id, no effective view
  of the log shows the call or a result of it: not the unstripped assistant message before the marker,
  nor after a compaction has folded the marker away (marks stand on system messages and start at the
  first message).
\<close>

theorem run_history_paired:
  assumes "\<forall>m \<in> set request. msg_role m \<noteq> RoleAssistant \<and> msg_role m \<noteq> RoleTool"
    and "run_history = prepare_messages fresh suspended decisions persisted request loaded"
  shows "(\<forall>m \<in> set run_history. \<forall>i. makes_call i m \<longrightarrow> (\<exists>r \<in> set run_history. answers_call i r)) \<and>
    (should_supersede_suspended_calls request decisions \<longrightarrow> (\<forall>i \<in> set suspended.
       (\<forall>m \<in> set run_history. \<not> makes_call i m \<and> \<not> answers_call i m) \<and>
       retraction_marker (fresh i) i \<in> set run_history \<and>
       (\<forall>log k new_ids t. length log < 2 ^ 64 \<and> superseded_at log k i \<and> marks_from_start log \<longrightarrow>
          (\<forall>m \<in> set (effective_committed_view new_ids t log). \<not> makes_call i m \<and> \<not> answers_call i m))))"
proof -
  obtain gone ms where g: "(gone, ms) = (if should_supersede_suspended_calls request decisions
      then strip_superseded_suspended_tool_calls suspended loaded else ([], loaded))" by (metis surj_pair)
  define base where "base = strip_unpaired_tool_calls ms"
  have "\<exists>new. run_history = append_internal_tool_retraction_markers fresh gone base @ new \<and> set new \<subseteq> set request"
    unfolding assms(2) prepare_messages_def g [symmetric] base_def by (cases persisted) auto
  then obtain new where h: "run_history = append_internal_tool_retraction_markers fresh gone base @ new"
    and new: "set new \<subseteq> set request" by blast
  have plain: "\<not> makes_call i m" "\<not> answers_call i m" if "m \<in> set run_history" "m \<notin> set base" for i m
  proof -
    have "msg_role m \<noteq> RoleAssistant \<and> msg_role m \<noteq> RoleTool" if "m \<in> set new"
      using that new assms(1) by blast
    moreover have "m \<in> set new \<or> (\<exists>f c. m = retraction_marker f c)"
      using that by (auto simp: h append_internal_tool_retraction_markers_def)
    ultimately show "\<not> makes_call i m" "\<not> answers_call i m"
      by (metis answers_call_def makes_call_def marker_retracts(2,3))+
  qed
  have sub: "set base \<subseteq> set run_history" by (auto simp: h append_internal_tool_retraction_markers_def)
  have 1: "\<exists>r \<in> set run_history. answers_call i r" if "m \<in> set run_history" "makes_call i m" for m i
    using plain(1) [OF that(1)] that sub strip_unpaired_calls_answered [of m ms i] unfolding base_def by blast
  have 2: "\<forall>m \<in> set run_history. \<not> makes_call i m \<and> \<not> answers_call i m" and 3: "retraction_marker (fresh i) i \<in> set run_history"
    if "should_supersede_suspended_calls request decisions" "i \<in> set suspended" for i
  proof -
    have eq: "strip_superseded_suspended_tool_calls suspended loaded = (gone, ms)" using g that(1) by simp
    show "retraction_marker (fresh i) i \<in> set run_history"
      using superseded_gone(1) [OF eq that(2)] by (simp add: h append_internal_tool_retraction_markers_def)
    show "\<forall>m \<in> set run_history. \<not> makes_call i m \<and> \<not> answers_call i m"
      using plain superseded_gone(2,3) [OF eq that(2)] strip_unpaired_mem [of _ ms i] unfolding base_def by blast
  qed
  show ?thesis
    by (intro conjI ballI allI impI; (elim conjE)?) (use 1 2 3 superseded_hidden in blast)+
qed

text \<open>A thread with two calls, one answered and one suspended, and a new user message.\<close>

definition demo_call :: "string \<Rightarrow> unit ToolCall" where
  "demo_call i = \<lparr>tcall_id = i, tcall_name = ''search'', tcall_arguments = ()\<rparr>"

definition demo_history :: "unit Message list" where
  "demo_history = [user_message ''m1'' ''hello'',
     assistant_with_tool_calls ''m2'' ''calling'' [demo_call ''a'', demo_call ''b''],
     tool_message ''m3'' ''a'' ''found'', tool_message ''m4'' ''b'' ''pending'']"

text \<open>The log after the run has committed: the assistant message still makes both calls.\<close>

definition demo_superseded_log :: "unit Message list" where
  "demo_superseded_log = demo_history @ [retraction_marker ''xb'' ''b'', user_message ''m5'' ''stop'']"

lemma run_history_paired_witness:
  "list_all (\<lambda>i. makes_call i (demo_superseded_log ! 1)) [''a'', ''b''] \<and>
   retraction_marker ''xb'' ''b'' \<in> set (prepare_messages (\<lambda>c. ''x'' @ c) [''b''] ([] :: unit list) False
     [user_message ''m5'' ''stop''] demo_history) \<and>
   list_all (\<lambda>m. \<not> makes_call ''b'' m \<and> \<not> answers_call ''b'' m)
     (effective_committed_view (\<lambda>_. ''y'') ''t'' demo_superseded_log)"
proof -
  have req: "\<forall>m \<in> set [user_message ''m5'' ''stop'']. msg_role m \<noteq> RoleAssistant \<and> msg_role m \<noteq> RoleTool"
    by code_simp
  note p = run_history_paired [OF req refl, of "\<lambda>c. ''x'' @ c" "[''b'']" "[] :: unit list" False demo_history]
  have sup: "should_supersede_suspended_calls [user_message ''m5'' ''stop'' :: unit Message] ([] :: unit list)" by code_simp
  have b: "''b'' \<in> set [''b'']" by simp
  note q = bspec [OF mp [OF conjunct2 [OF p] sup] b]
  have "length demo_superseded_log < 2 ^ 64" by (simp add: demo_superseded_log_def demo_history_def)
  moreover have "superseded_at demo_superseded_log 4 ''b''"
    unfolding superseded_at_def
  proof (intro conjI exI [of _ "''xb''"])
    show "demo_superseded_log ! 4 = retraction_marker ''xb'' ''b''"
      by (simp add: demo_superseded_log_def demo_history_def)
    show "4 < length demo_superseded_log" by (simp add: demo_superseded_log_def demo_history_def)
    show "list_all (\<lambda>m. \<not> makes_call ''b'' m \<and> \<not> answers_call ''b'' m) (drop (Suc 4) demo_superseded_log)"
      by code_simp
  qed
  moreover have "marks_from_start demo_superseded_log" by code_simp
  ultimately have "\<forall>m \<in> set (effective_committed_view (\<lambda>_. ''y'') ''t'' demo_superseded_log).
      \<not> makes_call ''b'' m \<and> \<not> answers_call ''b'' m"
    using conjunct2 [OF conjunct2 [OF q]] by blast
  moreover have "\<forall>i \<in> set [''a'', ''b'']. makes_call i (demo_superseded_log ! 1)" by code_simp
  moreover have "retraction_marker ''xb'' ''b'' \<in> set (prepare_messages (\<lambda>c. ''x'' @ c) [''b''] ([] :: unit list) False
     [user_message ''m5'' ''stop''] demo_history)"
    using conjunct1 [OF conjunct2 [OF q]] by (simp only: append.simps)
  ultimately show ?thesis unfolding list_all_iff by blast
qed

end
