(* ===== verification/Compaction.thy ===== *)
theory Compaction
  imports Context_Window
begin

text \<open>
  Background compaction of a conversation: where it may cut, what it plans, how a finished summary
  is swapped in and how its events are handled (\<^verbatim>\<open>context/compaction.rs\<close>,
  \<^verbatim>\<open>context/plugin/compaction.rs\<close>, \<^verbatim>\<open>context/summarizer.rs\<close>), and what a checkpoint appends to
  the durable log (\<^verbatim>\<open>loop_runner/checkpoint.rs\<close>).

  The clock is an argument. What \<open>serde_json\<close> reads as numbers and the ratio of two token counts as a
  floating point number are the parameter \<open>Numbers\<close>.
\<close>

section \<open>State\<close>

record CompactionBoundary =
  cb_summary :: string
  cb_task_id :: "string option"
  cb_boundary_message_id :: "string option"
  cb_pre_tokens :: nat
  cb_post_tokens :: nat
  cb_timestamp_ms :: u64

record CompactionFailure =
  cf_task_id :: "string option"
  cf_boundary_message_id :: string
  cf_error :: string
  cf_timestamp_ms :: u64

record CompactionSkipped =
  ck_task_id :: "string option"
  ck_boundary_message_id :: string
  ck_reason :: string
  ck_pre_tokens :: nat
  ck_post_tokens :: nat
  ck_savings_ratio_ppm :: u32
  ck_min_savings_ratio_ppm :: u32
  ck_timestamp_ms :: u64

record CompactionInFlight =
  ci_task_id :: string
  ci_boundary_message_id :: string
  ci_started_at_ms :: u64

record CompactionState =
  cs_boundaries :: "CompactionBoundary list"
  cs_failures :: "CompactionFailure list"
  cs_skipped :: "CompactionSkipped list"
  cs_total_compactions :: u64
  cs_in_flight :: "CompactionInFlight option"

datatype CompactionAction =
    RecordBoundary CompactionBoundary
  | RecordFailure CompactionFailure
  | RecordSkipped CompactionSkipped
  | SetInFlight CompactionInFlight
  | ClearInFlight
  | ClearCompactions

definition empty_compactions :: CompactionState where
  "empty_compactions = \<lparr>cs_boundaries = [], cs_failures = [], cs_skipped = [], cs_total_compactions = 0, cs_in_flight = None\<rparr>"

fun compaction_reduce :: "CompactionState \<Rightarrow> CompactionAction \<Rightarrow> CompactionState" where
  "compaction_reduce s (RecordBoundary b) =
     s\<lparr>cs_boundaries := cs_boundaries s @ [b], cs_total_compactions := cs_total_compactions s + 1\<rparr>"
| "compaction_reduce s (RecordFailure f) = s\<lparr>cs_failures := cs_failures s @ [f]\<rparr>"
| "compaction_reduce s (RecordSkipped k) = s\<lparr>cs_skipped := cs_skipped s @ [k]\<rparr>"
| "compaction_reduce s (SetInFlight i) = s\<lparr>cs_in_flight := Some i\<rparr>"
| "compaction_reduce s ClearInFlight = s\<lparr>cs_in_flight := None\<rparr>"
| "compaction_reduce s ClearCompactions = empty_compactions"

definition is_compacting :: "CompactionState \<Rightarrow> bool" where
  "is_compacting s \<longleftrightarrow> cs_in_flight s \<noteq> None"

definition latest_boundary :: "CompactionState \<Rightarrow> CompactionBoundary option" where
  "latest_boundary s = (if cs_boundaries s = [] then None else Some (last (cs_boundaries s)))"

section \<open>Where to cut\<close>

text \<open>The loop over the indexed messages; \<open>all\<close> is the whole list.\<close>

fun boundary_loop :: "'v Message list \<Rightarrow> (nat \<times> 'v Message) list \<Rightarrow> string set \<Rightarrow> nat option \<Rightarrow> nat option" where
  "boundary_loop all [] open_calls best = best"
| "boundary_loop all ((idx, m) # ms) open_calls best =
     (let opened = open_calls \<union> set (call_ids m);
          remaining = (if msg_role m = RoleTool
            then (case msg_tool_call_id m of None \<Rightarrow> opened | Some c \<Rightarrow> opened - {c}) else opened);
          next_is_tool = (idx + 1 < length all \<and> msg_role (all ! (idx + 1)) = RoleTool)
      in boundary_loop all ms remaining (if remaining = {} \<and> \<not> next_is_tool then Some idx else best))"

definition find_compaction_boundary :: "'v Message list \<Rightarrow> nat \<Rightarrow> nat \<Rightarrow> nat option" where
  "find_compaction_boundary ms start stop =
     boundary_loop ms (take (stop - start) (drop start (enumerate 0 ms))) {} None"

definition summary_open :: string where "summary_open = ''<conversation-summary>''"
definition summary_close :: string where "summary_close = ''</conversation-summary>''"

definition is_compaction_summary :: "'v Message \<Rightarrow> bool" where
  "is_compaction_summary m \<longleftrightarrow> msg_role m = RoleSystem \<and> msg_visibility m = VisInternal \<and>
     sublist summary_open (message_text m)"

text \<open>\<open>rposition\<close>: the index of the last element that satisfies the test.\<close>

definition rposition :: "('a \<Rightarrow> bool) \<Rightarrow> 'a list \<Rightarrow> nat option" where
  "rposition p xs = (let k = length (takeWhile (\<lambda>x. \<not> p x) (rev xs))
     in if k < length xs then Some (length xs - 1 - k) else None)"

definition position :: "('a \<Rightarrow> bool) \<Rightarrow> 'a list \<Rightarrow> nat option" where
  "position p xs = (let k = length (takeWhile (\<lambda>x. \<not> p x) xs) in if k < length xs then Some k else None)"

definition trim_to_compaction_boundary :: "'v Message list \<Rightarrow> 'v Message list" where
  "trim_to_compaction_boundary ms = (case rposition is_compaction_summary ms of None \<Rightarrow> ms | Some i \<Rightarrow> drop i ms)"

section \<open>Summaries\<close>

definition summary_message :: "string \<Rightarrow> string \<Rightarrow> 'v Message" where
  "summary_message fresh summary_text =
     internal_system fresh (summary_open @ [newline] @ summary_text @ [newline] @ summary_close)"

definition summary_message_tokens :: "string \<Rightarrow> nat" where
  "summary_message_tokens summary_text = estimate_message_tokens (summary_message [] summary_text :: unit Message)"

text \<open>\<open>str::find\<close>: the first position of a text in another.\<close>

fun find_text :: "string \<Rightarrow> string \<Rightarrow> nat option" where
  "find_text p [] = (if p = [] then Some 0 else None)"
| "find_text p (c # s) = (if prefix p (c # s) then Some 0 else map_option Suc (find_text p s))"

text \<open>The slice between the two tags panics when the closing tag comes first.\<close>

fun extract_previous_summary :: "'v Message list \<Rightarrow> (string option, 'e) outcome" where
  "extract_previous_summary [] = Ok None"
| "extract_previous_summary (m # ms) =
     (if msg_role m \<noteq> RoleSystem \<or> msg_visibility m \<noteq> VisInternal then extract_previous_summary ms
      else (let t = message_text m
            in case (find_text summary_open t, find_text summary_close t) of
                 (Some start, Some stop) \<Rightarrow>
                   if stop < start + length summary_open then Panic ''slice index starts after its end''
                   else (let trimmed = trim (take (stop - (start + length summary_open)) (drop (start + length summary_open) t))
                         in if trimmed \<noteq> [] then Ok (Some trimmed) else extract_previous_summary ms)
               | _ \<Rightarrow> extract_previous_summary ms))"

fun role_name :: "Role \<Rightarrow> string" where
  "role_name RoleSystem = ''System''"
| "role_name RoleUser = ''User''"
| "role_name RoleAssistant = ''Assistant''"
| "role_name RoleTool = ''Tool''"

fun join_with :: "string \<Rightarrow> string list \<Rightarrow> string" where
  "join_with sep [] = []"
| "join_with sep [s] = s"
| "join_with sep (s # t # ss) = s @ sep @ join_with sep (t # ss)"

definition render_transcript :: "'v Message list \<Rightarrow> string" where
  "render_transcript ms = join_with [newline, newline]
     (map (\<lambda>m. ''['' @ role_name (msg_role m) @ '']: '' @ message_text m)
       (filter (\<lambda>m. msg_visibility m \<noteq> VisInternal \<and> message_text m \<noteq> []) ms))"

section \<open>Planning and swapping\<close>

record CompactionPlan =
  cp_transcript :: string
  cp_previous_summary :: "string option"
  cp_boundary_message_id :: string
  cp_pre_tokens :: nat

definition MIN_COMPACTION_GAIN_TOKENS :: nat where "MIN_COMPACTION_GAIN_TOKENS = 1024"

definition compaction_keep_suffix :: "'v Message list \<Rightarrow> ContextWindowPolicy \<Rightarrow> nat" where
  "compaction_keep_suffix ms policy =
     (let configured = unat (case cw_compaction_mode policy of
            KeepRecentRawSuffix \<Rightarrow> cw_compaction_raw_suffix_messages policy
          | CompactToSafeFrontier \<Rightarrow> cw_min_recent_messages policy);
          latest_user_suffix =
            (case rposition (\<lambda>m. msg_role m = RoleUser \<and> msg_visibility m \<noteq> VisInternal) ms of
               None \<Rightarrow> 0 | Some idx \<Rightarrow> length ms - idx)
      in min (max configured latest_user_suffix) (length ms))"

definition plan_compaction :: "'v Message list \<Rightarrow> ContextWindowPolicy \<Rightarrow> (CompactionPlan option, 'e) outcome" where
  "plan_compaction ms policy =
     (if length ms < 2 then Ok None
      else let search_end = length ms - compaction_keep_suffix ms policy
           in if search_end < 2 then Ok None
              else (case find_compaction_boundary ms 0 search_end of
                  None \<Rightarrow> Ok None
                | Some boundary \<Rightarrow>
                    (case msg_id (ms ! boundary) of
                       None \<Rightarrow> Ok None
                     | Some boundary_message_id \<Rightarrow>
                         let covered = take (boundary + 1) ms;
                             pre_tokens = estimate_tokens covered;
                             transcript = render_transcript covered
                         in if pre_tokens < MIN_COMPACTION_GAIN_TOKENS then Ok None
                            else if transcript = [] then Ok None
                            else map_ok (\<lambda>previous. Some \<lparr>cp_transcript = transcript,
                                cp_previous_summary = previous, cp_boundary_message_id = boundary_message_id,
                                cp_pre_tokens = pre_tokens\<rparr>) (extract_previous_summary ms))))"

record AppliedCompaction =
  ap_boundary_index :: nat
  ap_pre_tokens :: nat
  ap_post_tokens :: nat

definition apply_summary :: "string \<Rightarrow> 'v Message list \<Rightarrow> string \<Rightarrow> string \<Rightarrow> (AppliedCompaction \<times> 'v Message list) option" where
  "apply_summary fresh ms boundary_message_id summary_text =
     map_option (\<lambda>idx. let summary = summary_message fresh summary_text
        in (\<lparr>ap_boundary_index = idx, ap_pre_tokens = estimate_tokens (take (idx + 1) ms),
             ap_post_tokens = estimate_message_tokens summary\<rparr>, summary # drop (idx + 1) ms))
       (position (\<lambda>m. msg_id m = Some boundary_message_id) ms)"

section \<open>Events\<close>

record Numbers =
  as_u64 :: "json \<Rightarrow> u64 option"
  ratio_as_ppm :: "json \<Rightarrow> u32 option"
  quotient_ppm :: "nat \<Rightarrow> nat \<Rightarrow> u32"

definition compaction_savings_ratio_ppm :: "Numbers \<Rightarrow> nat \<Rightarrow> nat \<Rightarrow> u32" where
  "compaction_savings_ratio_ppm N pre_tokens post_tokens =
     (if pre_tokens = 0 \<or> pre_tokens \<le> post_tokens then 0 else quotient_ppm N (pre_tokens - post_tokens) pre_tokens)"

definition json_as_str :: "json \<Rightarrow> string option" where
  "json_as_str v = (case v of JString s \<Rightarrow> Some s | _ \<Rightarrow> None)"

definition field :: "json option \<Rightarrow> string \<Rightarrow> json option" where
  "field v name = Option.bind v (\<lambda>p. json_get p name)"

definition str_field :: "json option \<Rightarrow> string \<Rightarrow> string option" where
  "str_field v name = Option.bind (field v name) json_as_str"

definition unwrap_or_default :: "string option \<Rightarrow> string" where
  "unwrap_or_default v = (case v of None \<Rightarrow> [] | Some s \<Rightarrow> s)"

definition nonblank :: "string option \<Rightarrow> string option" where
  "nonblank v = Option.bind v (\<lambda>s. if blank s then None else Some s)"

definition compaction_event_type :: "json \<Rightarrow> string option" where
  "compaction_event_type payload =
     (if str_field (Some payload) ''kind'' \<noteq> Some ''custom'' then None
      else Option.bind (str_field (Some payload) ''event_type'') (\<lambda>t.
        if t \<in> {''context.compacted'', ''context.compaction_failed'', ''compaction.started'', ''compaction.skipped''}
        then Some t else None))"

definition compaction_event_task_id :: "json \<Rightarrow> json option \<Rightarrow> string option" where
  "compaction_event_task_id payload inner =
     nonblank (case str_field (Some payload) ''task_id'' of Some t \<Rightarrow> Some t | None \<Rightarrow> str_field inner ''task_id'')"

definition matching_in_flight :: "CompactionInFlight option \<Rightarrow> string option \<Rightarrow> string \<Rightarrow> CompactionInFlight option" where
  "matching_in_flight prior event_task_id boundary_message_id =
     Option.bind prior (\<lambda>f.
       if event_task_id \<noteq> Some (ci_task_id f) then None
       else if boundary_message_id \<noteq> [] \<and> boundary_message_id \<noteq> ci_boundary_message_id f then None
       else Some f)"

text \<open>The boundary of a failed or skipped event, which falls back to the one in flight.\<close>

definition event_boundary :: "json option \<Rightarrow> CompactionInFlight option \<Rightarrow> string" where
  "event_boundary inner prior = unwrap_or_default
     (case nonblank (str_field inner ''boundary_message_id'') of Some b \<Rightarrow> Some b
      | None \<Rightarrow> map_option ci_boundary_message_id prior)"

definition u64_field :: "Numbers \<Rightarrow> json option \<Rightarrow> string \<Rightarrow> nat" where
  "u64_field N inner name = (case Option.bind (field inner name) (as_u64 N) of None \<Rightarrow> 0 | Some n \<Rightarrow> unat n)"

text \<open>A completed event: the new messages and the actions of the batch, or None for a stale one.\<close>

definition completed_actions ::
  "Numbers \<Rightarrow> string \<Rightarrow> u64 \<Rightarrow> json \<Rightarrow> CompactionInFlight option \<Rightarrow> 'v Message list \<Rightarrow>
   ('v Message list \<times> CompactionAction list) option" where
  "completed_actions N fresh now payload prior ms =
     (let inner = json_get payload ''payload'';
          boundary_id = unwrap_or_default (str_field inner ''boundary_message_id'');
          summary = unwrap_or_default (str_field inner ''summary'');
          reported_pre_tokens = u64_field N inner ''pre_tokens''
      in map_option (\<lambda>in_flight.
           case (if boundary_id \<noteq> [] \<and> summary \<noteq> [] then apply_summary fresh ms boundary_id summary else None) of
             Some (applied, ms') \<Rightarrow> (ms', [RecordBoundary \<lparr>cb_summary = summary, cb_task_id = Some (ci_task_id in_flight),
                 cb_boundary_message_id = Some boundary_id, cb_pre_tokens = max (ap_pre_tokens applied) reported_pre_tokens,
                 cb_post_tokens = ap_post_tokens applied, cb_timestamp_ms = now\<rparr>, ClearInFlight])
           | None \<Rightarrow> (ms, [ClearInFlight]))
         (matching_in_flight prior (compaction_event_task_id payload inner) boundary_id))"

definition failed_actions_of :: "u64 \<Rightarrow> json \<Rightarrow> CompactionInFlight option \<Rightarrow> CompactionAction list option" where
  "failed_actions_of now payload prior =
     (let inner = json_get payload ''payload'';
          error_text = (case str_field inner ''error'' of None \<Rightarrow> ''unknown error'' | Some e \<Rightarrow> e);
          boundary = event_boundary inner prior
      in map_option (\<lambda>in_flight. [RecordFailure \<lparr>cf_task_id = Some (ci_task_id in_flight),
             cf_boundary_message_id = boundary, cf_error = error_text, cf_timestamp_ms = now\<rparr>, ClearInFlight])
         (matching_in_flight prior (compaction_event_task_id payload inner) boundary))"

definition skipped_actions :: "Numbers \<Rightarrow> u64 \<Rightarrow> json \<Rightarrow> CompactionInFlight option \<Rightarrow> CompactionAction list option" where
  "skipped_actions N now payload prior =
     (let inner = json_get payload ''payload'';
          boundary = event_boundary inner prior;
          reason = (case nonblank (str_field inner ''reason'') of None \<Rightarrow> ''unknown'' | Some r \<Rightarrow> r);
          pre = u64_field N inner ''pre_tokens'';
          post = u64_field N inner ''post_tokens'';
          savings = (case Option.bind (field inner ''savings_ratio_ppm'') (as_u64 N) of
              Some n \<Rightarrow> ucast n
            | None \<Rightarrow> (case Option.bind (field inner ''savings_ratio'') (ratio_as_ppm N) of
                  Some p \<Rightarrow> p | None \<Rightarrow> compaction_savings_ratio_ppm N pre post));
          min_savings = (case Option.bind (field inner ''min_savings_ratio_ppm'') (as_u64 N) of
              Some n \<Rightarrow> ucast n
            | None \<Rightarrow> (case Option.bind (field inner ''min_savings_ratio'') (ratio_as_ppm N) of Some p \<Rightarrow> p | None \<Rightarrow> 0))
      in map_option (\<lambda>in_flight. [RecordSkipped \<lparr>ck_task_id = Some (ci_task_id in_flight),
             ck_boundary_message_id = boundary, ck_reason = reason, ck_pre_tokens = pre, ck_post_tokens = post,
             ck_savings_ratio_ppm = savings, ck_min_savings_ratio_ppm = min_savings, ck_timestamp_ms = now\<rparr>, ClearInFlight])
         (matching_in_flight prior (compaction_event_task_id payload inner) boundary))"

text \<open>
  \<open>st\<close> is what the store holds under the compaction key, \<open>commit_ok\<close> whether it takes the batch.
  The result says whether the payload was a compaction event.
\<close>

definition commit_actions :: "bool \<Rightarrow> CompactionAction list \<Rightarrow> CompactionState option \<Rightarrow> CompactionState option" where
  "commit_actions commit_ok actions st =
     (if commit_ok then Some (foldl compaction_reduce (case st of None \<Rightarrow> empty_compactions | Some s \<Rightarrow> s) actions) else st)"

definition try_consume_compaction_event ::
  "Numbers \<Rightarrow> string \<Rightarrow> u64 \<Rightarrow> bool \<Rightarrow> json \<Rightarrow> 'v Message list \<Rightarrow> CompactionState option \<Rightarrow>
   bool \<times> 'v Message list \<times> CompactionState option" where
  "try_consume_compaction_event N fresh now commit_ok payload ms st =
     (case compaction_event_type payload of
        None \<Rightarrow> (False, ms, st)
      | Some event_type \<Rightarrow>
          (let prior = Option.bind st cs_in_flight
           in if event_type = ''context.compacted'' then
                (case completed_actions N fresh now payload prior ms of
                   None \<Rightarrow> (True, ms, st)
                 | Some (ms', actions) \<Rightarrow> (True, ms', commit_actions commit_ok actions st))
              else if event_type = ''context.compaction_failed'' then
                (case failed_actions_of now payload prior of
                   None \<Rightarrow> (True, ms, st) | Some actions \<Rightarrow> (True, ms, commit_actions commit_ok actions st))
              else if event_type = ''compaction.skipped'' then
                (case skipped_actions N now payload prior of
                   None \<Rightarrow> (True, ms, st) | Some actions \<Rightarrow> (True, ms, commit_actions commit_ok actions st))
              else (True, ms, st)))"

text \<open>
  An internal system message that mentions the closing tag before the opening one makes the planner panic.
\<close>

lemma previous_summary_panic:
  "is_panic (extract_previous_summary [internal_system ''0'' (''a '' @ summary_close @ '' ends '' @ summary_open) :: unit Message]
     :: (_, unit) outcome)"
  by code_simp

end
