(* ===== verification/Checkpoint_Log.thy ===== *)
theory Checkpoint_Log
  imports Message_View Compaction Run_Dispatch
begin

text \<open>
  What a checkpoint appends to the committed log of a thread (\<^verbatim>\<open>loop_runner/checkpoint.rs\<close>), the
  version-guarded append of the store (\<^verbatim>\<open>awaken-stores/src/memory/mod.rs\<close>) and the single flight of
  compactions (\<^verbatim>\<open>loop_runner/compaction.rs\<close>). Of a run record the output is modelled, of the commit the
  message log; the projections of runs and threads written beside it are in \<open>Thread_Store\<close>.
\<close>

section \<open>The version-guarded append\<close>

definition checkpoint_append ::
  "'v Message list \<Rightarrow> 'v Message list \<Rightarrow> u64 option \<Rightarrow> (u64, StorageError) outcome \<times> 'v Message list" where
  "checkpoint_append committed delta expected_version =
     (let actual = of_nat (length committed)
      in case expected_version of
           Some expected \<Rightarrow> if expected \<noteq> actual then (Err (VersionConflict expected actual), committed)
             else (case merge_checkpoint_append_messages committed delta of
                 (Ok _, log) \<Rightarrow> (Ok (of_nat (length log)), log)
               | (Err e, log) \<Rightarrow> (Err (Validation e), log)
               | (Panic p, log) \<Rightarrow> (Panic p, log))
         | None \<Rightarrow> (case merge_checkpoint_append_messages committed delta of
                 (Ok _, log) \<Rightarrow> (Ok (of_nat (length log)), log)
               | (Err e, log) \<Rightarrow> (Err (Validation e), log)
               | (Panic p, log) \<Rightarrow> (Panic p, log)))"

definition MAX_APPEND_ATTEMPTS :: nat where "MAX_APPEND_ATTEMPTS = 8"

datatype CommitAppendError = CommitFailed StorageError | ReadFailed string | AppendExhausted string nat

text \<open>
  The retry loop. Each attempt reads the log, which may fail and gives None for a thread without one,
  and commits against the log as it is then, which other writers may have extended: \<open>attempts\<close> lists
  both. \<open>build\<close> makes the delta from what was read. The result is the log after the commit.
\<close>

fun append_loop ::
  "string \<Rightarrow> ('v Message list \<Rightarrow> 'v Message list) \<Rightarrow>
   (('v Message list option, string) outcome \<times> 'v Message list) list \<Rightarrow> ('v Message list, CommitAppendError) outcome" where
  "append_loop thread build [] = Err (AppendExhausted thread MAX_APPEND_ATTEMPTS)"
| "append_loop thread build ((loaded, now) # attempts) =
     (case loaded of
        Err e \<Rightarrow> Err (ReadFailed e)
      | Panic p \<Rightarrow> Panic p
      | Ok read \<Rightarrow>
          (let committed = (case read of None \<Rightarrow> [] | Some ms \<Rightarrow> ms)
           in case checkpoint_append now (build committed) (Some (of_nat (length committed))) of
                (Ok _, log) \<Rightarrow> Ok log
              | (Err (VersionConflict _ _), _) \<Rightarrow> append_loop thread build attempts
              | (Err e, _) \<Rightarrow> Err (CommitFailed e)
              | (Panic p, _) \<Rightarrow> Panic p))"

definition commit_checkpoint_appending ::
  "string \<Rightarrow> ('v Message list \<Rightarrow> 'v Message list) \<Rightarrow>
   (('v Message list option, string) outcome \<times> 'v Message list) list \<Rightarrow> ('v Message list, CommitAppendError) outcome" where
  "commit_checkpoint_appending thread build attempts = append_loop thread build (take MAX_APPEND_ATTEMPTS attempts)"

section \<open>The delta of a checkpoint\<close>

record MessageSeqRange =
  rg_from_seq :: u64
  rg_to_seq :: u64

definition MessageSeqRange_new :: "u64 \<Rightarrow> u64 \<Rightarrow> MessageSeqRange option" where
  "MessageSeqRange_new from to = (if 0 < from \<and> from \<le> to then Some \<lparr>rg_from_seq = from, rg_to_seq = to\<rparr> else None)"

record RunMessageOutput =
  ro_thread_id :: string
  ro_range :: "MessageSeqRange option"
  ro_message_ids :: "string list"

definition previous_output_seqs :: "RunMessageOutput option \<Rightarrow> u64 list" where
  "previous_output_seqs previous =
     (case previous of None \<Rightarrow> []
      | Some output \<Rightarrow> (case ro_range output of None \<Rightarrow> []
          | Some r \<Rightarrow> if unat (rg_to_seq r - rg_from_seq r + 1) \<noteq> length (ro_message_ids output) then []
              else map (\<lambda>i. rg_from_seq r + of_nat i) [0..<length (ro_message_ids output)]))"

definition contiguous_output_range :: "nat \<Rightarrow> u64 list \<Rightarrow> MessageSeqRange option" where
  "contiguous_output_range n seqs =
     (if n = 0 \<or> length seqs \<noteq> n then None
      else (let sorted = remdups_adj (sort seqs)
            in if length sorted \<noteq> n then None
               else (let from = hd sorted; to = last sorted
                     in if saturating_sub to from + 1 = of_nat n then MessageSeqRange_new from to else None)))"

definition is_run_output_message :: "'v Message \<Rightarrow> bool" where
  "is_run_output_message m \<longleftrightarrow> msg_visibility m = VisAll \<and> (msg_role m = RoleAssistant \<or> msg_role m = RoleTool)"

text \<open>The committed message of an id with its number; of equal ids the last counts.\<close>

definition committed_by_id :: "'v Message list \<Rightarrow> string \<Rightarrow> (u64 \<times> 'v Message) option" where
  "committed_by_id committed = map_of (rev (List.map_filter
     (\<lambda>(i, m). map_option (\<lambda>mid. (mid, (of_nat i + 1, m))) (msg_id m)) (enumerate 0 committed)))"

record 'v AppendPlan =
  pl_delta :: "'v Message list"
  pl_output_ids :: "string list"
  pl_output_seqs :: "u64 list"
  pl_next_seq :: u64

definition metadata_of_run :: "string \<Rightarrow> MessageMetadata option \<Rightarrow> MessageMetadata option" where
  "metadata_of_run run md = Option.bind md (\<lambda>d. if md_run_id d = Some run then Some d else None)"

definition materialize_one ::
  "'v Message list \<Rightarrow> string \<Rightarrow> u32 option \<Rightarrow> string set \<Rightarrow> nat \<Rightarrow> nat \<times> 'v Message \<Rightarrow> 'v AppendPlan \<Rightarrow> 'v AppendPlan" where
  "materialize_one committed_messages run step_index previous_output_ids input_message_count im acc =
     (let (index, message) = im;
          committed = Option.bind (msg_id message) (committed_by_id committed_messages);
          seq = (case committed of None \<Rightarrow> pl_next_seq acc | Some (s, _) \<Rightarrow> s);
          committed_output = (case committed of None \<Rightarrow> False | Some (_, m) \<Rightarrow> produced_by_run_id m = Some run);
          previous_output = (case msg_id message of None \<Rightarrow> False | Some i \<Rightarrow> i \<in> previous_output_ids);
          already = (produced_by_run_id message = Some run \<or> committed_output \<or> previous_output);
          message1 = (if already \<and> produced_by_run_id message \<noteq> Some run then
              mark_produced_by run step_index (message\<lparr>msg_metadata :=
                (case metadata_of_run run (Option.bind committed (\<lambda>(_, m). msg_metadata m)) of
                   Some d \<Rightarrow> Some d | None \<Rightarrow> msg_metadata message)\<rparr>)
            else message);
          new_output = (committed = None \<and> input_message_count \<le> index \<and> is_run_output_message message1);
          message2 = (if new_output then mark_produced_by run step_index message1 else message1);
          acc1 = (if already \<or> new_output then
              (case msg_id message2 of
                 Some i \<Rightarrow> if i \<in> set (pl_output_ids acc) then acc
                   else acc\<lparr>pl_output_ids := pl_output_ids acc @ [i], pl_output_seqs := pl_output_seqs acc @ [seq]\<rparr>
               | None \<Rightarrow> acc)
            else acc)
      in if committed = None
         then acc1\<lparr>pl_delta := pl_delta acc1 @ [message2], pl_next_seq := pl_next_seq acc1 + 1\<rparr>
         else acc1)"

definition materialize_checkpoint_append ::
  "'v Message list \<Rightarrow> 'v Message list \<Rightarrow> RunMessageOutput option \<Rightarrow> string \<Rightarrow> string \<Rightarrow> u32 \<Rightarrow> nat \<Rightarrow>
   'v Message list \<times> RunMessageOutput option" where
  "materialize_checkpoint_append messages committed_messages previous thread run step_count input_message_count =
     (let previous_ids = (case previous of None \<Rightarrow> [] | Some o' \<Rightarrow> ro_message_ids o');
          step_index = (if step_count = 0 then None else Some (step_count - 1));
          start = \<lparr>pl_delta = [], pl_output_ids = previous_ids, pl_output_seqs = previous_output_seqs previous,
            pl_next_seq = of_nat (length committed_messages) + 1\<rparr>;
          acc = foldl (\<lambda>acc im. materialize_one committed_messages run step_index (set previous_ids)
            input_message_count im acc) start (enumerate 0 messages)
      in (pl_delta acc,
          if pl_output_ids acc = [] then previous
          else Some \<lparr>ro_thread_id = thread,
            ro_range = contiguous_output_range (length (pl_output_ids acc)) (pl_output_seqs acc),
            ro_message_ids = pl_output_ids acc\<rparr>))"

definition stamp :: "CompactionMark \<Rightarrow> 'v Message \<Rightarrow> 'v Message" where
  "stamp mark m =
     (if is_compaction_summary m \<and> message_mark m = None
      then m\<lparr>msg_metadata := Some ((case msg_metadata m of None \<Rightarrow> no_metadata | Some d \<Rightarrow> d)\<lparr>md_compaction := Some mark\<rparr>)\<rparr>
      else m)"

text \<open>\<open>st\<close> is what the store holds under the compaction key.\<close>

definition recorded_boundary :: "CompactionState option \<Rightarrow> string option" where
  "recorded_boundary st = Option.bind (Option.bind st latest_boundary) (\<lambda>b.
     Option.bind (cb_boundary_message_id b) (\<lambda>i. if i = [] then None else Some i))"

definition stamp_compaction_marks :: "'v Message list \<Rightarrow> 'v Message list \<Rightarrow> CompactionState option \<Rightarrow> 'v Message list" where
  "stamp_compaction_marks delta committed st =
     (if \<not> list_ex is_compaction_summary delta then delta
      else (case recorded_boundary st of None \<Rightarrow> delta
        | Some boundary_id \<Rightarrow>
            (case position (\<lambda>m. msg_id m = Some boundary_id) committed of None \<Rightarrow> delta
             | Some index \<Rightarrow> map (stamp \<lparr>mark_from = 1, mark_to = of_nat index + 1\<rparr>) delta)))"

text \<open>The delta that \<open>persist_checkpoint\<close> commits.\<close>

definition checkpoint_delta ::
  "'v Message list \<Rightarrow> RunMessageOutput option \<Rightarrow> string \<Rightarrow> string \<Rightarrow> u32 \<Rightarrow> nat \<Rightarrow> CompactionState option \<Rightarrow>
   'v Message list \<Rightarrow> 'v Message list" where
  "checkpoint_delta messages previous thread run step_count input_message_count st committed =
     stamp_compaction_marks
       (fst (materialize_checkpoint_append messages committed previous thread run step_count input_message_count))
       committed st"

section \<open>Single flight\<close>

text \<open>
  A reservation tries at most eight times to set the marker against the revision it read. \<open>others\<close>
  lists, for each try, the batches other tasks commit in between; a store is its revision and what
  it holds under the compaction key.
\<close>

fun apply_batches :: "CompactionAction list list \<Rightarrow> u64 \<times> CompactionState option \<Rightarrow> u64 \<times> CompactionState option" where
  "apply_batches [] store = store"
| "apply_batches (b # bs) (n, st) = apply_batches bs (n + 1, commit_actions True b st)"

fun reserve_loop ::
  "CompactionInFlight \<Rightarrow> CompactionAction list list list \<Rightarrow> u64 \<times> CompactionState option \<Rightarrow>
   bool \<times> u64 \<times> CompactionState option" where
  "reserve_loop f [] store = (False, store)"
| "reserve_loop f (others # attempts) (n, st) =
     (if (case st of None \<Rightarrow> False | Some s \<Rightarrow> is_compacting s) then (False, n, st)
      else (let (n', st') = apply_batches others (n, st)
            in if n' \<noteq> n then reserve_loop f attempts (n', st')
               else (True, n' + 1, commit_actions True [SetInFlight f] st')))"

definition reserve_compaction_in_flight ::
  "CompactionInFlight \<Rightarrow> CompactionAction list list list \<Rightarrow> u64 \<times> CompactionState option \<Rightarrow>
   bool \<times> u64 \<times> CompactionState option" where
  "reserve_compaction_in_flight f attempts store = reserve_loop f (take 8 attempts) store"

definition clear_in_flight_after_spawn_failure :: "string \<Rightarrow> bool \<Rightarrow> CompactionState option \<Rightarrow> CompactionState option" where
  "clear_in_flight_after_spawn_failure task_id commit_ok st =
     (case Option.bind st cs_in_flight of
        None \<Rightarrow> st
      | Some f \<Rightarrow> if ci_task_id f \<noteq> task_id then st else commit_actions commit_ok [ClearInFlight] st)"

end
