(* ===== verification/Compaction_Log.thy ===== *)
theory Compaction_Log
  imports Checkpoint_Log
begin

text \<open>
  Compaction does not lose history: the conversation a run holds in memory after a swap and the view
  a restart reads from the committed log stay the same. The abstraction is \<open>body\<close>, a message without
  its metadata; the committed log is related to memory by \<open>live_matches\<close>.
\<close>

section \<open>The delta of a checkpoint\<close>

definition body :: "'v Message \<Rightarrow> 'v Message" where
  "body m = m\<lparr>msg_metadata := None\<rparr>"

text \<open>Equal but for the producer in the metadata.\<close>

definition same_message :: "'v Message \<Rightarrow> 'v Message \<Rightarrow> bool" where
  "same_message m m' \<longleftrightarrow> body m = body m' \<and> message_mark m = message_mark m'"

lemma body_eq_iff: "body m = body m' \<longleftrightarrow>
   msg_id m = msg_id m' \<and> msg_role m = msg_role m' \<and> msg_content m = msg_content m' \<and>
   msg_tool_calls m = msg_tool_calls m' \<and> msg_tool_call_id m = msg_tool_call_id m' \<and>
   msg_visibility m = msg_visibility m'"
  by (cases m; cases m') (auto simp: body_def)

lemma body_id: "body m = body m' \<Longrightarrow> msg_id m = msg_id m'"
  by (simp add: body_eq_iff)

lemma body_summary: "body m = body m' \<Longrightarrow> is_compaction_summary m = is_compaction_summary m'"
  by (simp add: body_eq_iff is_compaction_summary_def message_text_def)

lemma same_message_refl [simp]: "same_message m m"
  by (simp add: same_message_def)

lemma same_message_trans: "same_message a b \<Longrightarrow> same_message b c \<Longrightarrow> same_message a c"
  by (simp add: same_message_def)

lemma same_message_produced: "same_message m (mark_produced_by run step m)"
  by (simp add: same_message_def body_def mark_produced_by_def message_mark_def Let_def no_metadata_def
      split: option.splits)

definition uncommitted :: "'v Message list \<Rightarrow> 'v Message \<Rightarrow> bool" where
  "uncommitted committed m \<longleftrightarrow> Option.bind (msg_id m) (committed_by_id committed) = None"

lemma committed_by_id_None: "committed_by_id C i = None \<longleftrightarrow> i \<notin> set (msg_ids C)"
proof -
  have "committed_by_id C i = None \<longleftrightarrow> (\<forall>n m. (n, m) \<in> set (enumerate 0 C) \<longrightarrow> msg_id m \<noteq> Some i)"
    by (force simp: committed_by_id_def map_of_eq_None_iff set_map_filter)
  also have "\<dots> \<longleftrightarrow> (\<forall>m \<in> set C. msg_id m \<noteq> Some i)"
  proof -
    have "(\<exists>n. (n, m) \<in> set (enumerate 0 C)) \<longleftrightarrow> m \<in> set C" for m
      by (auto simp: in_set_enumerate_eq in_set_conv_nth [of m])
    then show ?thesis by blast
  qed
  finally show ?thesis by (auto simp: set_msg_ids)
qed

lemma uncommitted_iff: "msg_id m = Some i \<Longrightarrow> uncommitted C m \<longleftrightarrow> i \<notin> set (msg_ids C)"
  by (simp add: uncommitted_def committed_by_id_None)

lemma materialize_one_delta:
  "\<exists>m'. same_message m m' \<and> pl_delta (materialize_one C run step prev n (k, m) acc) =
     pl_delta acc @ (if uncommitted C m then [m'] else [])"
proof (cases "uncommitted C m")
  case True
  define acc1 where "acc1 = materialize_one C run step prev n (k, m) acc"
  have c: "Option.bind (msg_id m) (committed_by_id C) = None" using True by (simp add: uncommitted_def)
  let ?m0 = "m\<lparr>msg_metadata := msg_metadata m\<rparr>"
  have "\<exists>m1. same_message m m1 \<and> pl_delta acc1 = pl_delta acc @ [m1]"
    unfolding acc1_def materialize_one_def
    by (simp add: c Let_def metadata_of_run_def split: option.splits)
      (auto intro: same_message_produced same_message_trans)
  then show ?thesis using True by (simp add: acc1_def)
next
  case False
  then obtain s where "Option.bind (msg_id m) (committed_by_id C) = Some s" by (auto simp: uncommitted_def)
  then show ?thesis using False
    by (intro exI [of _ m]) (auto simp: materialize_one_def Let_def split: option.splits)
qed

lemma materialize_delta:
  "list_all2 same_message (filter (uncommitted C) ms)
     (fst (materialize_checkpoint_append ms C previous thread run steps n))"
proof -
  have "\<exists>d. list_all2 same_message (filter (uncommitted C) ms) d \<and>
      pl_delta (foldl (\<lambda>acc im. materialize_one C run step prev n im acc) acc (enumerate k ms)) = pl_delta acc @ d"
    for step prev acc k
  proof (induction ms arbitrary: acc k)
    case (Cons m ms)
    obtain m' where m': "same_message m m'" "pl_delta (materialize_one C run step prev n (k, m) acc) =
        pl_delta acc @ (if uncommitted C m then [m'] else [])" using materialize_one_delta by blast
    from Cons.IH [of "materialize_one C run step prev n (k, m) acc" "Suc k"] obtain d
      where "list_all2 same_message (filter (uncommitted C) ms) d"
        "pl_delta (foldl (\<lambda>acc im. materialize_one C run step prev n im acc)
           (materialize_one C run step prev n (k, m) acc) (enumerate (Suc k) ms)) =
         pl_delta (materialize_one C run step prev n (k, m) acc) @ d" by blast
    with m' show ?case by (auto intro!: exI [of _ "(if uncommitted C m then [m'] else []) @ d"])
  qed simp
  note loop = this
  define step where "step = (if steps = 0 then None else Some (steps - 1))"
  define prev where "prev = (case previous of None \<Rightarrow> [] | Some o' \<Rightarrow> ro_message_ids o')"
  define start :: "'a AppendPlan" where "start = \<lparr>pl_delta = [], pl_output_ids = prev,
    pl_output_seqs = previous_output_seqs previous, pl_next_seq = of_nat (length C) + 1\<rparr>"
  have "fst (materialize_checkpoint_append ms C previous thread run steps n) =
      pl_delta (foldl (\<lambda>acc im. materialize_one C run step (set prev) n im acc) start (enumerate 0 ms))"
    by (simp add: materialize_checkpoint_append_def Let_def step_def prev_def start_def)
  with loop [of step "set prev" start 0] show ?thesis by (auto simp: start_def)
qed

section \<open>The view under cumulative marks\<close>

text \<open>Every mark a checkpoint writes starts at the first message and ends before the summary.\<close>

definition marks_ok :: "'v Message list \<Rightarrow> bool" where
  "marks_ok C \<longleftrightarrow> (\<forall>k < length C. \<forall>c. message_mark (C ! k) = Some c \<longrightarrow>
     mark_from c = 1 \<and> 0 < unat (mark_to c) \<and> unat (mark_to c) \<le> k \<and> is_compaction_summary (C ! k))"

text \<open>How far the marks reach, and which message carries the mark that reaches furthest first.\<close>

definition reach :: "'v Message list \<Rightarrow> nat" where
  "reach C = Max (insert 0 {unat (mark_to c) | c m. m \<in> set C \<and> message_mark m = Some c})"

definition shown :: "'v Message list \<Rightarrow> nat \<Rightarrow> bool" where
  "shown C k \<longleftrightarrow> message_mark (C ! k) = None \<and> reach C \<le> k"

lemma finite_marks: "finite {unat (mark_to c) | c m. m \<in> set C \<and> message_mark m = Some c}"
proof -
  have "{unat (mark_to c) | c m. m \<in> set C \<and> message_mark m = Some c} \<subseteq>
      (\<lambda>m. unat (mark_to (the (message_mark m)))) ` set C" by force
  then show ?thesis by (rule finite_subset) simp
qed

lemma reach_ge: "m \<in> set C \<Longrightarrow> message_mark m = Some c \<Longrightarrow> unat (mark_to c) \<le> reach C"
  unfolding reach_def by (rule Max_ge) (use finite_marks [of C] in auto)

lemma reach_cases:
  obtains "reach C = 0" | m c where "m \<in> set C" "message_mark m = Some c" "reach C = unat (mark_to c)"
proof -
  have "reach C \<in> insert 0 {unat (mark_to c) | c m. m \<in> set C \<and> message_mark m = Some c}"
    unfolding reach_def by (rule Max_in) (use finite_marks [of C] in auto)
  then show thesis using that by auto
qed

definition view :: "'v Message list \<Rightarrow> 'v Message list" where
  "view C = effective_messages (log_records (\<lambda>_. []) [] C)"

lemma log_ok_id: "log_ok C \<Longrightarrow> m \<in> set C \<Longrightarrow> \<exists>i. msg_id m = Some i"
  by (auto simp: log_ok_def appendable_def)

definition record_at :: "'v Message list \<Rightarrow> nat \<Rightarrow> 'v MessageRecord" where
  "record_at C k = from_message [] [] (of_nat k + 1) (C ! k)"

lemma log_records_eq: "log_records (\<lambda>_. []) [] C = map (record_at C) [0..<length C]"
  by (auto simp: log_records_def record_at_def enumerate_eq_zip intro!: nth_equalityI)

lemma record_at_simps:
  assumes "k < length C" and "length C < 2 ^ 64"
  shows "unat (mr_seq (record_at C k)) = k + 1" "mr_compaction (record_at C k) = message_mark (C ! k)"
    and "log_ok C \<Longrightarrow> mr_message (record_at C k) = C ! k"
proof -
  show "unat (mr_seq (record_at C k)) = k + 1"
    using assms by (simp add: record_at_def from_message_def Let_def unat_of_nat unat_word_ariths)
  show "mr_compaction (record_at C k) = message_mark (C ! k)"
    by (simp add: record_at_def from_message_def Let_def)
  assume "log_ok C"
  then obtain i where "msg_id (C ! k) = Some i" using log_ok_id assms(1) by (metis nth_mem)
  then show "mr_message (record_at C k) = C ! k"
    by (cases "C ! k") (simp add: record_at_def from_message_def Let_def)
qed

lemma sorted_const: "(\<And>x. x \<in> set xs \<Longrightarrow> x = c) \<Longrightarrow> sorted xs"
  by (induction xs) auto

definition wins :: "'v Message list \<Rightarrow> nat \<Rightarrow> bool" where
  "wins C k \<longleftrightarrow> winning (map (record_at C) [0..<length C]) (record_at C k)"

text \<open>With marks that all start at the first message, the view is the winner followed by what no mark reaches.\<close>

lemma view_eq:
  assumes "log_ok C" and "marks_ok C" and "length C < 2 ^ 64"
  shows "view C = map ((!) C) (filter (wins C) [0..<length C]) @ map ((!) C) (filter (shown C) [0..<length C])"
proof -
  let ?rs = "map (record_at C) [0..<length C]"
  note r = record_at_simps [OF _ assms(3)]
  have sorted: "sorted_wrt (<) (map mr_seq ?rs)"
    using seq_log_records [OF assms(3), of "\<lambda>_. []" "[]"] by (simp add: log_records_eq)
  have from1: "mark_from c = 1" if "k < length C" "message_mark (C ! k) = Some c" for k c
    using assms(2) that by (simp add: marks_ok_def)
  have fold: "folded_away ?rs (mr_seq (record_at C k)) \<longleftrightarrow> k < reach C" if k: "k < length C" for k
  proof
    assume "folded_away ?rs (mr_seq (record_at C k))"
    then obtain j c where j: "j < length C" "message_mark (C ! j) = Some c" "mr_seq (record_at C k) \<le> mark_to c"
      by (force simp: folded_away_def r(2) split: option.splits)
    then show "k < reach C" using reach_ge [of "C ! j" C c] r(1) [OF k] by (simp add: word_le_nat_alt)
  next
    assume "k < reach C"
    then obtain m c where m: "m \<in> set C" "message_mark m = Some c" "reach C = unat (mark_to c)"
      by (metis reach_cases not_less_zero)
    then obtain j where j: "j < length C" "m = C ! j" by (auto simp: in_set_conv_nth)
    have "1 \<le> mr_seq (record_at C k)" "mr_seq (record_at C k) \<le> mark_to c"
      using r(1) [OF k] m \<open>k < reach C\<close> by (simp_all add: word_le_nat_alt)
    then show "folded_away ?rs (mr_seq (record_at C k))" unfolding folded_away_def
      using j m(2) from1 [of j c] by (intro bexI [of _ "record_at C j"]) (auto simp: r(2))
  qed
  let ?W = "map (\<lambda>r. (mark_from (the (mr_compaction r)), mr_message r)) (filter (winning ?rs) ?rs)"
  let ?S = "map (\<lambda>r. (mr_seq r, mr_message r))
    (filter (\<lambda>r. mr_compaction r = None \<and> \<not> folded_away ?rs (mr_seq r)) ?rs)"
  have w1: "x = 1" if "x \<in> set (map fst ?W)" for x
    using that from1 by (fastforce simp: winning_def r(2) split: option.splits)
  have s1: "1 \<le> x" if "x \<in> set (map fst ?S)" for x
    using that r(1) by (auto simp: word_le_nat_alt)
  have "sorted_wrt (<) (map mr_seq (filter P ?rs))" for P
    using sorted sorted_wrt_filter [of "\<lambda>x y. mr_seq x < mr_seq y" ?rs P]
    by (simp only: sorted_wrt_map [of "(<)" mr_seq])
  then have ss: "sorted (map fst ?S)" using strict_sorted_imp_sorted by (fastforce simp: comp_def)
  have ws: "sorted (map fst ?W)" using w1 by (rule sorted_const)
  have "sorted (map fst (?W @ ?S))"
    unfolding map_append sorted_append using w1 s1 ss ws by blast
  then have "sort_key fst (?W @ ?S) = ?W @ ?S" by (rule sort_key_id_if_sorted)
  then have "view C = map mr_message (filter (winning ?rs) ?rs) @
      map mr_message (filter (\<lambda>r. mr_compaction r = None \<and> \<not> folded_away ?rs (mr_seq r)) ?rs)"
    using effective_messages_eq [OF sorted] by (simp add: view_def log_records_eq effective_spec_def comp_def)
  moreover have "map mr_message (filter (winning ?rs) ?rs) = map ((!) C) (filter (wins C) [0..<length C])"
    using r(3) [OF _ assms(1)] by (simp add: filter_map comp_def wins_def [abs_def])
  moreover have "map mr_message (filter (\<lambda>r. mr_compaction r = None \<and> \<not> folded_away ?rs (mr_seq r)) ?rs) =
      map ((!) C) (filter (shown C) [0..<length C])"
  proof -
    have "filter (\<lambda>k. mr_compaction (record_at C k) = None \<and> \<not> folded_away ?rs (mr_seq (record_at C k))) [0..<length C] =
        filter (shown C) [0..<length C]"
      by (rule filter_cong) (auto simp: fold r(2) shown_def)
    then show ?thesis using r(3) [OF _ assms(1)] by (simp add: filter_map comp_def)
  qed
  ultimately show ?thesis by simp
qed

section \<open>Appending to the log\<close>

definition live_matches :: "'v Message list \<Rightarrow> 'v Message list \<Rightarrow> bool" where
  "live_matches C L \<longleftrightarrow> log_ok C \<and> marks_ok C \<and> map body L = map body (view C)"

lemma log_ok_inj: "log_ok C \<Longrightarrow> j < length C \<Longrightarrow> k < length C \<Longrightarrow> msg_id (C ! j) = msg_id (C ! k) \<Longrightarrow> j = k"
proof -
  assume "log_ok C"
  then have "distinct (map (\<lambda>m. the (msg_id m)) C)"
  proof (induction C)
    case (Cons m C)
    then obtain i where i: "msg_id m = Some i" by (auto simp: log_ok_def appendable_def)
    have "log_ok C" using Cons.prems i by (auto simp: log_ok_def)
    moreover have "the (msg_id m') \<noteq> i" if "m' \<in> set C" for m'
      using that Cons.prems i log_ok_id [of "m # C" m'] set_msg_ids [of i C] by (auto simp: log_ok_def)
    ultimately show ?case using Cons.IH i by auto
  qed simp
  then show "j < length C \<Longrightarrow> k < length C \<Longrightarrow> msg_id (C ! j) = msg_id (C ! k) \<Longrightarrow> j = k"
    by (metis distinct_conv_nth length_map nth_map)
qed

lemma reach_append_plain:
  assumes "\<And>m. m \<in> set D \<Longrightarrow> message_mark m = None"
  shows "reach (C @ D) = reach C"
proof -
  have "{unat (mark_to c) | c m. m \<in> set (C @ D) \<and> message_mark m = Some c} =
      {unat (mark_to c) | c m. m \<in> set C \<and> message_mark m = Some c}" using assms by fastforce
  then show ?thesis by (simp only: reach_def)
qed

lemma marks_ok_append:
  "marks_ok (C @ D) \<Longrightarrow> marks_ok C"
  "marks_ok C \<Longrightarrow> (\<And>m. m \<in> set D \<Longrightarrow> message_mark m = None) \<Longrightarrow> marks_ok (C @ D)"
proof -
  show "marks_ok C" if "marks_ok (C @ D)"
    unfolding marks_ok_def
  proof (intro allI impI)
    fix k c
    assume "k < length C" "message_mark (C ! k) = Some c"
    then show "mark_from c = 1 \<and> 0 < unat (mark_to c) \<and> unat (mark_to c) \<le> k \<and> is_compaction_summary (C ! k)"
      using that [unfolded marks_ok_def, rule_format, of k c] by (simp add: nth_append)
  qed
  show "marks_ok (C @ D)" if "marks_ok C" "\<And>m. m \<in> set D \<Longrightarrow> message_mark m = None"
    unfolding marks_ok_def
  proof (intro allI impI)
    fix k c
    assume k: "k < length (C @ D)" "message_mark ((C @ D) ! k) = Some c"
    then have "k < length C" using that(2) [of "D ! (k - length C)"] by (auto simp: nth_append split: if_splits)
    then show "mark_from c = 1 \<and> 0 < unat (mark_to c) \<and> unat (mark_to c) \<le> k \<and> is_compaction_summary ((C @ D) ! k)"
      using that(1) [unfolded marks_ok_def, rule_format, of k c] k(2) by (simp add: nth_append)
  qed
qed

lemma winning_iff:
  assumes "length C < 2 ^ 64" and "marks_ok C" and "k < length C"
  shows "wins C k \<longleftrightarrow> (\<exists>c. message_mark (C ! k) = Some c \<and>
    (\<forall>j < length C. \<forall>c'. message_mark (C ! j) = Some c' \<and> mark_to c \<le> mark_to c' \<longrightarrow>
       mark_to c' = mark_to c \<and> k \<le> j))"
proof -
  note r = record_at_simps [OF _ assms(1)]
  have from1: "mark_from c = 1" if "j < length C" "message_mark (C ! j) = Some c" for j c
    using assms(2) that by (simp add: marks_ok_def)
  have seq: "mr_seq (record_at C k) \<le> mr_seq (record_at C j) \<longleftrightarrow> k \<le> j" if "j < length C" for j
    using r(1) [OF that] r(1) [OF assms(3)] by (simp add: word_le_nat_alt)
  have eq: "c' = c \<longleftrightarrow> mark_to c' = mark_to c" if "mark_from c' = 1" "mark_from c = 1" for c c' :: CompactionMark
    using that by (cases c; cases c') auto
  have mark: "mr_compaction (record_at C j) = message_mark (C ! j)" for j
    by (simp add: record_at_def from_message_def Let_def)
  have w: "wins C k \<longleftrightarrow> (\<exists>c. message_mark (C ! k) = Some c \<and> (\<forall>j < length C. \<forall>c'. message_mark (C ! j) = Some c' \<longrightarrow>
      mark_from c' \<le> mark_from c \<and> mark_to c \<le> mark_to c' \<longrightarrow>
      c' = c \<and> mr_seq (record_at C k) \<le> mr_seq (record_at C j)))"
    by (auto simp: wins_def winning_def mark split: option.splits)
  have "(message_mark (C ! j) = Some c' \<longrightarrow> mark_from c' \<le> mark_from c \<and> mark_to c \<le> mark_to c' \<longrightarrow>
        c' = c \<and> mr_seq (record_at C k) \<le> mr_seq (record_at C j)) \<longleftrightarrow>
      (message_mark (C ! j) = Some c' \<and> mark_to c \<le> mark_to c' \<longrightarrow> mark_to c' = mark_to c \<and> k \<le> j)"
    if "message_mark (C ! k) = Some c" "j < length C" for c c' j
    using from1 [OF assms(3) that(1)] from1 [OF that(2), of c'] seq [OF that(2)] eq [of c' c] by auto
  then show ?thesis unfolding w by (metis (no_types, lifting))
qed

lemma wins_append_plain:
  assumes "length (C @ D) < 2 ^ 64" and "marks_ok (C @ D)" and "\<And>m. m \<in> set D \<Longrightarrow> message_mark m = None"
  shows "filter (wins (C @ D)) [0..<length (C @ D)] = filter (wins C) [0..<length C]"
proof -
  have ok: "marks_ok C" using assms(2) by (rule marks_ok_append)
  have none: "message_mark ((C @ D) ! k) = None" if "length C \<le> k" "k < length (C @ D)" for k
    using assms(3) that by (auto simp: nth_append)
  have "wins (C @ D) k = wins C k" if "k < length C" for k
  proof -
    have "(\<forall>j < length (C @ D). \<forall>c'. message_mark ((C @ D) ! j) = Some c' \<and> mark_to c \<le> mark_to c' \<longrightarrow>
        mark_to c' = mark_to c \<and> k \<le> j) \<longleftrightarrow>
      (\<forall>j < length C. \<forall>c'. message_mark (C ! j) = Some c' \<and> mark_to c \<le> mark_to c' \<longrightarrow>
        mark_to c' = mark_to c \<and> k \<le> j)" for c :: CompactionMark
      using none by (auto simp: nth_append not_less)
    note this
    moreover have "length C < 2 ^ 64" "k < length (C @ D)" "message_mark ((C @ D) ! k) = message_mark (C ! k)"
      using that assms(1) by (simp_all add: nth_append)
    ultimately show ?thesis using winning_iff [OF assms(1,2)] winning_iff [OF _ ok that] by simp
  qed
  moreover have "\<not> wins (C @ D) k" if "length C \<le> k" "k < length (C @ D)" for k
    using that none winning_iff [OF assms(1,2) that(2)] by simp
  moreover have "[0..<length (C @ D)] = [0..<length C] @ [length C..<length (C @ D)]"
    using upt_add_eq_append [of 0 "length C" "length D"] by simp
  ultimately show ?thesis by (auto intro!: filter_cong simp: filter_empty_conv)
qed

lemma shown_append_plain:
  assumes "\<And>m. m \<in> set D \<Longrightarrow> message_mark m = None" and "reach C \<le> length C"
  shows "map ((!) (C @ D)) (filter (shown (C @ D)) [0..<length (C @ D)]) =
    map ((!) C) (filter (shown C) [0..<length C]) @ D"
proof -
  have u: "[0..<length (C @ D)] = [0..<length C] @ [length C..<length (C @ D)]"
    using upt_add_eq_append [of 0 "length C" "length D"] by simp
  have "filter (shown (C @ D)) [0..<length C] = filter (shown C) [0..<length C]"
    by (intro filter_cong) (auto simp: shown_def nth_append reach_append_plain [OF assms(1)])
  moreover have "filter (shown (C @ D)) [length C..<length (C @ D)] = [length C..<length (C @ D)]"
    using assms by (intro filter_True) (auto simp: shown_def nth_append reach_append_plain [OF assms(1)])
  moreover have "map ((!) (C @ D)) [length C..<length (C @ D)] = D"
    by (auto intro!: nth_equalityI simp: nth_append)
  ultimately show ?thesis unfolding u by (auto simp: nth_append)
qed

lemma marks_ok_reach: "marks_ok C \<Longrightarrow> reach C \<le> length C"
proof (rule reach_cases [of C])
  fix m c
  assume ok: "marks_ok C" and m: "m \<in> set C" "message_mark m = Some c" and r: "reach C = unat (mark_to c)"
  then obtain k where "k < length C" "C ! k = m" by (auto simp: in_set_conv_nth)
  with ok m(2) r show ?thesis using ok [unfolded marks_ok_def, rule_format, of k c] by simp
qed simp

lemma view_append_plain:
  assumes "log_ok (C @ D)" and "log_ok C" and "length (C @ D) < 2 ^ 64" and "marks_ok C"
    and "\<And>m. m \<in> set D \<Longrightarrow> message_mark m = None"
  shows "marks_ok (C @ D)" "view (C @ D) = view C @ D"
proof -
  show ok: "marks_ok (C @ D)"
    using assms(4,5) by (rule marks_ok_append)
  have "map ((!) (C @ D)) (filter (wins C) [0..<length C]) = map ((!) C) (filter (wins C) [0..<length C])"
    by (simp add: nth_append)
  then show "view (C @ D) = view C @ D"
    using view_eq [OF assms(1) ok assms(3)] view_eq [OF assms(2,4)] assms(3)
      wins_append_plain [OF assms(3) ok assms(5)] shown_append_plain [OF assms(5) marks_ok_reach [OF assms(4)]]
    by simp
qed

text \<open>A summary whose mark reaches further than the others replaces the view up to its end.\<close>

lemma view_append_summary:
  assumes "log_ok (C @ [s])" and "log_ok C" and "length (C @ [s]) < 2 ^ 64" and "marks_ok C"
    and "message_mark s = Some \<lparr>mark_from = 1, mark_to = of_nat p + 1\<rparr>" and "is_compaction_summary s"
    and "p < length C" and "shown C p"
  shows "marks_ok (C @ [s])"
    and "view (C @ [s]) = s # map ((!) C) (filter (shown C) [Suc p..<length C])"
proof -
  have p: "unat (of_nat p + 1 :: u64) = Suc p"
    using assms(3,7) by (simp add: unat_of_nat unat_word_ariths)
  show ok: "marks_ok (C @ [s])"
    using assms(4,5,6,7) p by (auto simp: marks_ok_def nth_append less_Suc_eq)
  have old: "unat (mark_to c) \<le> p" if "j < length C" "message_mark (C ! j) = Some c" for j c
    using reach_ge [OF nth_mem [OF that(1)] that(2)] assms(8) by (simp add: shown_def)
  have reach: "reach (C @ [s]) = Suc p"
  proof (rule antisym)
    show "Suc p \<le> reach (C @ [s])" using reach_ge [of s "C @ [s]"] assms(5) p by simp
    show "reach (C @ [s]) \<le> Suc p"
    proof (rule reach_cases [of "C @ [s]"])
      fix m c
      assume m: "m \<in> set (C @ [s])" "message_mark m = Some c" "reach (C @ [s]) = unat (mark_to c)"
      show ?thesis
      proof (cases "m = s")
        case True
        then have "c = \<lparr>mark_from = 1, mark_to = of_nat p + 1\<rparr>" using m(2) assms(5) by simp
        then show ?thesis using m(3) p by simp
      next
        case False
        then obtain j where "j < length C" "m = C ! j" using m(1) by (auto simp: in_set_conv_nth)
        then show ?thesis using old m(2,3) by fastforce
      qed
    qed simp
  qed
  have "wins (C @ [s]) k \<longleftrightarrow> k = length C" if k: "k < length (C @ [s])" for k
  proof (cases "k = length C")
    case True
    have "mark_to c' = of_nat p + 1 \<and> length C \<le> j"
      if j: "j < length (C @ [s])" "message_mark ((C @ [s]) ! j) = Some c'" "of_nat p + 1 \<le> mark_to c'" for j c'
    proof (cases "j < length C")
      case True
      then show ?thesis using old [OF True, of c'] j(2,3) p by (simp add: nth_append word_le_nat_alt)
    next
      case False
      then have "(C @ [s]) ! j = s" using j(1) by (simp add: nth_append)
      then have "c' = \<lparr>mark_from = 1, mark_to = of_nat p + 1\<rparr>" using j(2) assms(5) by simp
      then show ?thesis using False by simp
    qed
    then show ?thesis using winning_iff [OF assms(3) ok k] assms(5) True by simp
  next
    case False
    then have kC: "k < length C" using k by simp
    have "\<not> wins (C @ [s]) k"
    proof
      assume "wins (C @ [s]) k"
      then obtain c where c: "message_mark (C ! k) = Some c"
        and top: "\<forall>j < length (C @ [s]). \<forall>c'. message_mark ((C @ [s]) ! j) = Some c' \<and> mark_to c \<le> mark_to c' \<longrightarrow>
          mark_to c' = mark_to c \<and> k \<le> j"
        using winning_iff [OF assms(3) ok k] kC by (auto simp: nth_append)
      have "mark_to c \<le> of_nat p + 1" using old [OF kC c] p by (simp add: word_le_nat_alt)
      then have "of_nat p + 1 = mark_to c"
        using top [rule_format, of "length C" "\<lparr>mark_from = 1, mark_to = of_nat p + 1\<rparr>"] assms(5) by simp
      then show False using old [OF kC c] p by (metis Suc_n_not_le_n)
    qed
    with False show ?thesis by simp
  qed
  then have w: "filter (wins (C @ [s])) [0..<length (C @ [s])] = [length C]"
    by (subst filter_cong [of _ _ _ "\<lambda>k. k = length C"]) (auto simp: filter_empty_conv)
  have "filter (shown (C @ [s])) [0..<length (C @ [s])] = filter (shown C) [Suc p..<length C]"
  proof -
    have "[0..<length C] = [0..<Suc p] @ [Suc p..<length C]"
      using upt_add_eq_append [of 0 "Suc p" "length C - Suc p"] assms(7)
      by (simp only: le_add_diff_inverse Suc_leI zero_le)
    then have u: "[0..<length (C @ [s])] = [0..<Suc p] @ [Suc p..<length C] @ [length C]"
      by (simp del: upt_Suc add: upt_Suc_append)
    have "filter (shown (C @ [s])) [0..<Suc p] = []" by (auto simp: shown_def reach filter_empty_conv)
    moreover have "filter (shown (C @ [s])) [Suc p..<length C] = filter (shown C) [Suc p..<length C]"
      using assms(8) by (intro filter_cong) (auto simp: shown_def reach nth_append)
    moreover have "\<not> shown (C @ [s]) (length C)" using assms(5) by (simp add: shown_def)
    ultimately show ?thesis unfolding u by (simp del: upt_Suc)
  qed
  then show "view (C @ [s]) = s # map ((!) C) (filter (shown C) [Suc p..<length C])"
    using view_eq [OF assms(1) ok assms(3)] w by (auto simp: nth_append)
qed

section \<open>What a swap does to the log\<close>

lemma takeWhile_less: "length (takeWhile Q xs) < length xs \<longleftrightarrow> (\<exists>x \<in> set xs. \<not> Q x)"
  by (induction xs) auto

lemma position_unique:
  assumes "i < length xs" and "P (xs ! i)" and "\<And>j. j < length xs \<Longrightarrow> P (xs ! j) \<Longrightarrow> j = i"
  shows "position P xs = Some i"
proof -
  let ?k = "length (takeWhile (\<lambda>x. \<not> P x) xs)"
  have "?k < length xs" using assms(1,2) by (auto simp: takeWhile_less)
  moreover have "P (xs ! ?k)" using nth_length_takeWhile [OF calculation] by simp
  ultimately show ?thesis using assms(3) by (auto simp: position_def Let_def)
qed

lemma position_append: "position P xs = Some i \<Longrightarrow> position P (xs @ ys) = Some i"
  using takeWhile_less [of "\<lambda>x. \<not> P x" xs] unfolding position_def Let_def takeWhile_append
  by (auto split: if_splits)

lemma drop_filter_upt:
  "j < length (filter P [a..<n]) \<Longrightarrow> drop (Suc j) (filter P [a..<n]) = filter P [Suc (filter P [a..<n] ! j)..<n]"
proof (induction "n - a" arbitrary: a j)
  case (Suc k)
  then have u: "[a..<n] = a # [Suc a..<n]" by (simp add: upt_conv_Cons)
  show ?case
  proof (cases "P a")
    case True
    then show ?thesis using Suc.prems Suc.hyps(1) [of "Suc a" "j - 1"] Suc.hyps(2) u by (cases j) simp_all
  qed (use Suc.prems Suc.hyps(1) [of "Suc a" j] Suc.hyps(2) u in simp)
qed simp

lemma boundary_loop_index:
  "boundary_loop all xs calls best = Some b \<Longrightarrow> best = Some b \<or> b \<in> fst ` set xs"
proof (induction xs arbitrary: calls best)
  case (Cons x xs)
  obtain idx m where x: "x = (idx, m)" by (cases x)
  have "\<exists>calls' best'. boundary_loop all (x # xs) calls best = boundary_loop all xs calls' best' \<and>
      (best' = Some idx \<or> best' = best)"
    unfolding x boundary_loop.simps Let_def by (intro exI conjI, rule refl) simp
  with Cons show ?case by (force simp: x)
qed simp

lemma find_boundary_bound: "find_compaction_boundary ms start stop = Some b \<Longrightarrow> b < length ms"
  unfolding find_compaction_boundary_def
  by (drule boundary_loop_index) (auto dest!: in_set_takeD in_set_dropD simp: in_set_enumerate_eq)

text \<open>A plan covers a message the model may read, and names the last message it covers.\<close>

lemma plan_boundary:
  assumes "plan_compaction ms policy = Ok (Some p)"
  obtains b m where "b < length ms" "msg_id (ms ! b) = Some (cp_boundary_message_id p)"
    "m \<in> set (take (Suc b) ms)" "msg_visibility m \<noteq> VisInternal"
proof -
  from assms obtain b i where b: "find_compaction_boundary ms 0 (length ms - compaction_keep_suffix ms policy) = Some b"
    and i: "msg_id (ms ! b) = Some i" "cp_boundary_message_id p = i" and t: "render_transcript (take (b + 1) ms) \<noteq> []"
    by (auto simp: plan_compaction_def Let_def map_ok_eq_Ok_iff split: if_splits option.splits)
  from t have "filter (\<lambda>m. msg_visibility m \<noteq> VisInternal \<and> message_text m \<noteq> []) (take (b + 1) ms) \<noteq> []"
    by (auto simp: render_transcript_def)
  then obtain m where "m \<in> set (take (Suc b) ms)" "msg_visibility m \<noteq> VisInternal"
    by (auto simp: filter_empty_conv)
  with that b i find_boundary_bound show thesis by blast
qed

definition shown_indices :: "'v Message list \<Rightarrow> nat list" where
  "shown_indices C = filter (shown C) [0..<length C]"

definition winner_indices :: "'v Message list \<Rightarrow> nat list" where
  "winner_indices C = filter (wins C) [0..<length C]"

lemma live_indices:
  assumes "live_matches C L" and "length C < 2 ^ 64"
  shows "map body L = map (\<lambda>k. body (C ! k)) (winner_indices C @ shown_indices C)"
    and "distinct (winner_indices C @ shown_indices C)"
    and "\<And>k. k \<in> set (winner_indices C) \<Longrightarrow> is_compaction_summary (C ! k)"
proof -
  have ok: "log_ok C" "marks_ok C" "map body L = map body (view C)" using assms(1) by (auto simp: live_matches_def)
  show "map body L = map (\<lambda>k. body (C ! k)) (winner_indices C @ shown_indices C)"
    using ok(3) view_eq [OF ok(1,2) assms(2)] by (simp add: winner_indices_def shown_indices_def)
  have mark: "message_mark (C ! k) \<noteq> None" if "k \<in> set (winner_indices C)" for k
    using that winning_iff [OF assms(2) ok(2), of k] by (auto simp: winner_indices_def)
  then show "is_compaction_summary (C ! k)" if "k \<in> set (winner_indices C)" for k
    using that ok(2) [unfolded marks_ok_def, rule_format, of k] by (auto simp: winner_indices_def)
  show "distinct (winner_indices C @ shown_indices C)"
    using mark by (fastforce simp: winner_indices_def shown_indices_def shown_def)
qed

text \<open>The boundary of a plan is a committed message the view still shows.\<close>

lemma boundary_shown:
  assumes live: "live_matches C L" and len: "length C < 2 ^ 64"
    and plan: "plan_compaction (take k L) policy = Ok (Some p)"
  obtains b i where "b < length L" "i < length C" "shown C i" "msg_id (C ! i) = Some (cp_boundary_message_id p)"
    "\<And>pend. position (\<lambda>m. msg_id m = Some (cp_boundary_message_id p)) (L @ pend) = Some b"
    "position (\<lambda>m. msg_id m = Some (cp_boundary_message_id p)) C = Some i"
    "map body (drop (Suc b) L) = map (\<lambda>k. body (C ! k)) (filter (shown C) [Suc i..<length C])"
proof -
  let ?W = "winner_indices C" and ?S = "shown_indices C"
  note ix = live_indices [OF live len]
  have lengths: "length L = length ?W + length ?S" using arg_cong [OF ix(1), of length] by simp
  have at: "body (L ! j) = body (C ! ((?W @ ?S) ! j))" if "j < length L" for j
    using arg_cong [OF ix(1), of "\<lambda>xs. xs ! j"] that lengths by (simp add: nth_append)
  have inC: "(?W @ ?S) ! j < length C" if "j < length L" for j
  proof -
    have "(?W @ ?S) ! j \<in> set (?W @ ?S)" using that lengths by (intro nth_mem) simp
    then show ?thesis by (auto simp: winner_indices_def shown_indices_def)
  qed
  from plan_boundary [OF plan] obtain b m where b: "b < length (take k L)"
    and id: "msg_id (take k L ! b) = Some (cp_boundary_message_id p)"
    and m: "m \<in> set (take (Suc b) (take k L))" "msg_visibility m \<noteq> VisInternal" .
  have bL: "b < length L" "msg_id (L ! b) = Some (cp_boundary_message_id p)" using b id by simp_all
  have "length ?W \<le> b"
  proof (rule ccontr)
    assume "\<not> length ?W \<le> b"
    from m(1) obtain j where j: "j < length (take (Suc b) (take k L))" "m = take (Suc b) (take k L) ! j"
      by (auto simp: in_set_conv_nth)
    then have jj: "j < length L" "j < length ?W" "m = L ! j" using \<open>\<not> length ?W \<le> b\<close> by simp_all
    then have "is_compaction_summary (C ! (?W ! j))" using ix(3) nth_mem by blast
    moreover have "body m = body (C ! (?W ! j))" using at [OF jj(1)] jj by (simp add: nth_append)
    ultimately have "is_compaction_summary m" using body_summary by blast
    then show False using m(2) by (simp add: is_compaction_summary_def)
  qed
  then have bS: "b - length ?W < length ?S" using bL lengths by simp
  define i where "i = ?S ! (b - length ?W)"
  have "i \<in> set ?S" using bS by (simp add: i_def)
  then have i: "i < length C" "shown C i" by (auto simp: shown_indices_def)
  have eq: "(?W @ ?S) ! b = i" using \<open>length ?W \<le> b\<close> by (simp add: nth_append i_def)
  have idC: "msg_id (C ! i) = Some (cp_boundary_message_id p)"
    using body_id [OF at [OF bL(1)]] bL(2) eq by simp
  have log: "log_ok C" using live by (simp add: live_matches_def)
  have "j = b" if j: "j < length L" "msg_id (L ! j) = Some (cp_boundary_message_id p)" for j
  proof -
    have "msg_id (C ! ((?W @ ?S) ! j)) = msg_id (C ! i)" using body_id [OF at [OF j(1)]] j(2) idC by simp
    then have "(?W @ ?S) ! j = (?W @ ?S) ! b" using log_ok_inj [OF log inC [OF j(1)] i(1)] eq by simp
    then show ?thesis using ix(2) j(1) bL(1) lengths by (simp only: nth_eq_iff_index_eq length_append)
  qed
  then have "position (\<lambda>m. msg_id m = Some (cp_boundary_message_id p)) L = Some b"
    by (rule position_unique [where P = "\<lambda>m. msg_id m = Some (cp_boundary_message_id p)", OF bL])
  note pos = position_append [OF this]
  have posC: "position (\<lambda>m. msg_id m = Some (cp_boundary_message_id p)) C = Some i"
    by (rule position_unique [where P = "\<lambda>m. msg_id m = Some (cp_boundary_message_id p)", OF i(1) idC]) (rule log_ok_inj [OF log _ i(1)], simp_all add: idC)
  have "drop (Suc b) (map body L) = map (\<lambda>k. body (C ! k)) (drop (Suc (b - length ?W)) ?S)"
    unfolding ix(1) using \<open>length ?W \<le> b\<close> by (simp add: drop_map Suc_diff_le)
  also have "drop (Suc (b - length ?W)) ?S = filter (shown C) [Suc i..<length C]"
    using drop_filter_upt bS by (simp add: shown_indices_def i_def)
  finally have "map body (drop (Suc b) L) = map (\<lambda>k. body (C ! k)) (filter (shown C) [Suc i..<length C])"
    by (simp add: drop_map)
  with that bL(1) i idC pos posC show thesis by blast
qed

text \<open>An event leaves the conversation alone, or swaps in a summary and records its boundary.\<close>

lemma consume_cases:
  assumes "try_consume_compaction_event N fresh now True payload ms (Some st) = (consumed, ms', st')"
    and "cs_in_flight st = Some f"
  obtains "ms' = ms"
  | ap summ where "apply_summary fresh ms (ci_boundary_message_id f) summ = Some (ap, ms')"
      "recorded_boundary st' = Some (ci_boundary_message_id f)"
proof (cases "ms' = ms")
  case False
  let ?inner = "json_get payload ''payload''"
  define bid where "bid = unwrap_or_default (str_field ?inner ''boundary_message_id'')"
  define summary where "summary = unwrap_or_default (str_field ?inner ''summary'')"
  from assms False have ty: "compaction_event_type payload = Some ''context.compacted''"
    by (auto simp: try_consume_compaction_event_def Let_def split: option.splits if_splits)
  then obtain actions where c: "completed_actions N fresh now payload (Some f) ms = Some (ms', actions)"
    and st': "st' = commit_actions True actions (Some st)"
    using assms False by (auto simp: try_consume_compaction_event_def Let_def split: option.splits)
  then have m: "bid \<noteq> []" "summary \<noteq> []" "bid = ci_boundary_message_id f"
    using False by (auto simp: completed_actions_def Let_def matching_in_flight_def
        simp flip: bid_def summary_def split: option.splits if_splits)
  with c False obtain ap where ap: "apply_summary fresh ms bid summary = Some (ap, ms')"
    by (auto simp: completed_actions_def Let_def simp flip: bid_def summary_def split: option.splits if_splits)
  then have "recorded_boundary st' = Some bid"
    using c m by (auto simp: completed_actions_def Let_def matching_in_flight_def st' commit_actions_def
        recorded_boundary_def latest_boundary_def simp flip: bid_def summary_def split: if_splits)
  with that(2) ap m(3) show thesis by simp
qed (rule that(1))

text \<open>A message the run added since the last checkpoint.\<close>

definition newly_added :: "'v Message list \<Rightarrow> 'v Message \<Rightarrow> bool" where
  "newly_added C m \<longleftrightarrow> message_mark m = None \<and> \<not> is_compaction_summary m \<and>
     (case msg_id m of None \<Rightarrow> False | Some i \<Rightarrow> i \<notin> set (msg_ids C))"

lemma newly_added_uncommitted: "newly_added C m \<Longrightarrow> uncommitted C m"
  by (auto simp: newly_added_def uncommitted_iff split: option.splits)

lemma same_messages:
  assumes "list_all2 same_message xs ys"
  shows "map body ys = map body xs" and "map message_mark ys = map message_mark xs"
    and "list_ex is_compaction_summary ys = list_ex is_compaction_summary xs"
  using assms
proof (induction xs ys rule: list_all2_induct)
  case (Cons x xs y ys)
  then have b: "body x = body y" "message_mark x = message_mark y" by (auto simp: same_message_def)
  case 1 show ?case using Cons b by simp
  case 2 show ?case using Cons b by simp
  case 3 show ?case using Cons body_summary [OF b(1)] by simp
qed simp_all

lemma stamp_plain: "\<not> is_compaction_summary m \<Longrightarrow> stamp mark m = m"
  by (simp add: stamp_def)

lemma stamp_summary:
  "is_compaction_summary m \<Longrightarrow> message_mark m = None \<Longrightarrow> message_mark (stamp mark m) = Some mark"
  by (simp add: stamp_def message_mark_def)

lemma body_stamp [simp]: "body (stamp mark m) = body m"
  by (simp add: stamp_def body_def)

lemma summary_message_summary: "is_compaction_summary (summary_message fresh summ)"
  "message_mark (summary_message fresh summ) = None" "msg_id (summary_message fresh summ) = Some fresh"
  by (auto simp: summary_message_def internal_system_def text_message_def is_compaction_summary_def
      message_text_def message_mark_def extract_text_def map_filter_def)

lemma live_committed:
  assumes "live_matches C L" and "length C < 2 ^ 64" and "m \<in> set L"
  shows "\<not> uncommitted C m"
proof -
  have "body m \<in> set (map body L)" using assms(3) by simp
  then obtain k where k: "k < length C" "body m = body (C ! k)"
    unfolding live_indices(1) [OF assms(1,2)] by (auto simp: winner_indices_def shown_indices_def)
  have "log_ok C" using assms(1) by (simp add: live_matches_def)
  then obtain i where "msg_id (C ! k) = Some i" using log_ok_id k(1) by (metis nth_mem)
  then show ?thesis using body_id [OF k(2)] k(1) by (auto simp: uncommitted_iff set_msg_ids)
qed

lemma checkpoint_append_Ok:
  assumes "checkpoint_append C delta expected = (Ok v, C')" and "log_ok C"
  shows "C' = C @ delta" and "log_ok (C @ delta)"
proof -
  have m: "merge_checkpoint_append_messages C delta = (Ok (), C')"
    using assms(1) by (auto simp: checkpoint_append_def Let_def split: option.splits prod.splits outcome.splits if_splits)
  then show C': "C' = C @ delta"
    by (cases "validate_append_only_delta C delta") (auto simp: merge_checkpoint_append_eq)
  show "log_ok (C @ delta)"
    using merge_checkpoint_append_ok [OF assms(2), of delta] by (simp add: m C')
qed

lemma log_ok_prefix: "log_ok (C @ D) \<Longrightarrow> log_ok C"
  by (auto simp: log_ok_def)

lemma checkpoint_plain:
  assumes live: "live_matches C L" and fresh: "\<And>m. m \<in> set D \<Longrightarrow> newly_added C m"
    and commit: "checkpoint_append C (checkpoint_delta (L @ D) previous thread run steps n st C) expected = (Ok v, C')"
    and len: "length C' < 2 ^ 64"
  shows "live_matches C' (L @ D)"
proof -
  have ok: "log_ok C" "marks_ok C" "map body L = map body (view C)" using live by (auto simp: live_matches_def)
  define D' where "D' = fst (materialize_checkpoint_append (L @ D) C previous thread run steps n)"
  define E where "E = stamp_compaction_marks D' C st"
  note C' = checkpoint_append_Ok [OF commit ok(1), unfolded checkpoint_delta_def, folded D'_def, folded E_def]
  have lenC: "length C < 2 ^ 64" using len C'(1) by simp
  have "filter (uncommitted C) (L @ D) = D"
    using live_committed [OF live lenC] newly_added_uncommitted fresh by (auto simp: filter_empty_conv filter_id_conv)
  then have same: "list_all2 same_message D D'"
    using materialize_delta [of C "L @ D" previous thread run steps n] by (simp add: D'_def)
  have plain: "\<not> list_ex is_compaction_summary D" using fresh by (auto simp: list_ex_iff newly_added_def)
  then have E: "E = D'" using same_messages(3) [OF same] by (simp add: E_def stamp_compaction_marks_def)
  have "message_mark m = None" if "m \<in> set E" for m
  proof -
    have "message_mark m \<in> set (map message_mark D')" using that E by simp
    then show ?thesis unfolding same_messages(2) [OF same] using fresh by (auto simp: newly_added_def)
  qed
  note va = view_append_plain [OF C'(2) ok(1) _ ok(2) this]
  show ?thesis unfolding live_matches_def
    using C' va ok(3) len same_messages(1) [OF same] by (simp add: E)
qed

lemma checkpoint_swap:
  assumes live: "live_matches C L" and fresh: "\<And>m. m \<in> set D \<Longrightarrow> newly_added C m"
    and S: "is_compaction_summary S" "message_mark S = None" "msg_id S = Some sid" "sid \<notin> set (msg_ids C)"
    and i: "i < length C" "shown C i" "position (\<lambda>m. msg_id m = Some bid) C = Some i"
    and rest: "map body R = map (\<lambda>k. body (C ! k)) (filter (shown C) [Suc i..<length C])"
    and R: "set R \<subseteq> set L"
    and st: "recorded_boundary st = Some bid"
    and commit: "checkpoint_append C (checkpoint_delta (S # R @ D) previous thread run steps n st C) expected = (Ok v, C')"
    and len: "length C' < 2 ^ 64"
  shows "live_matches C' (S # R @ D)"
proof -
  have ok: "log_ok C" "marks_ok C" using live by (auto simp: live_matches_def)
  define D' where "D' = fst (materialize_checkpoint_append (S # R @ D) C previous thread run steps n)"
  define E where "E = stamp_compaction_marks D' C st"
  note C' = checkpoint_append_Ok [OF commit ok(1), unfolded checkpoint_delta_def, folded D'_def, folded E_def]
  have lenC: "length C < 2 ^ 64" using len C'(1) by simp
  have "uncommitted C S" using S(3,4) by (simp add: uncommitted_iff)
  moreover have "filter (uncommitted C) R = []"
    using live_committed [OF live lenC] R by (auto simp: filter_empty_conv)
  moreover have "filter (uncommitted C) D = D"
    using newly_added_uncommitted fresh by (auto simp: filter_id_conv)
  ultimately have "filter (uncommitted C) (S # R @ D) = S # D" by simp
  then have same: "list_all2 same_message (S # D) D'"
    using materialize_delta [of C "S # R @ D" previous thread run steps n] by (simp add: D'_def)
  then obtain S' D1 where D': "D' = S' # D1" and S': "same_message S S'" and D1: "list_all2 same_message D D1"
    by (auto simp: list_all2_Cons1)
  have bS: "body S' = body S" "message_mark S' = None" "is_compaction_summary S'"
    using S' S(1,2) body_summary [of S S'] by (auto simp: same_message_def)
  let ?mark = "\<lparr>mark_from = 1, mark_to = of_nat i + 1\<rparr>"
  have d1: "message_mark m = None \<and> \<not> is_compaction_summary m" if m: "m \<in> set D1" for m
  proof -
    obtain j where j: "j < length D1" "m = D1 ! j" using m by (auto simp: in_set_conv_nth)
    then have "same_message (D ! j) m" "D ! j \<in> set D" using D1 by (simp_all add: list_all2_conv_all_nth)
    then show ?thesis using fresh [of "D ! j"] body_summary [of "D ! j" m] by (auto simp: same_message_def newly_added_def)
  qed
  then have "map (stamp ?mark) D1 = D1" by (simp add: stamp_plain map_idI)
  then have E: "E = stamp ?mark S' # D1"
    using bS(3) st i(3) by (simp add: E_def D' stamp_compaction_marks_def)
  define S2 where "S2 = stamp ?mark S'"
  have mark: "message_mark S2 = Some ?mark" "body S2 = body S" "is_compaction_summary S2"
    using stamp_summary [OF bS(3,2)] bS body_summary [of S2 S'] by (simp_all add: S2_def)
  have log: "log_ok ((C @ [S2]) @ D1)" using C'(2) by (simp add: E S2_def)
  have len1: "length (C @ [S2]) < 2 ^ 64" and len2: "length ((C @ [S2]) @ D1) < 2 ^ 64"
    using len C'(1) by (simp_all add: E)
  note v1 = view_append_summary [OF log_ok_prefix [OF log] ok(1) len1 ok(2) mark(1,3) i(1,2)]
  have "marks_ok ((C @ [S2]) @ D1)" "view ((C @ [S2]) @ D1) = view (C @ [S2]) @ D1"
    using view_append_plain [OF log log_ok_prefix [OF log] len2 v1(1)] d1 by blast+
  then show ?thesis unfolding live_matches_def
    using C' log v1(2) rest mark(2) same_messages(1) [OF D1] by (simp add: E S2_def comp_def)
qed

lemma live_matches_plain:
  assumes "log_ok C" and "list_all (\<lambda>m. message_mark m = None) C" and "length C < 2 ^ 64"
  shows "live_matches C C"
proof -
  have e: "log_ok []" "marks_ok []" "view [] = []"
    by (simp_all add: log_ok_def marks_ok_def view_def effective_messages_def log_records_def winning_intervals_def)
  have "marks_ok C" "view C = C"
    using view_append_plain [of "[]" C, OF _ e(1) _ e(2)] assms by (simp_all add: e(3) list_all_iff)
  with assms(1) show ?thesis by (simp add: live_matches_def)
qed

section \<open>Compaction is durable\<close>

text \<open>
  C5: A background compaction loses nothing. Let the conversation in memory agree with the view of the
  committed log, and let a compaction have been planned on it. Whatever event then comes back for the
  compaction in flight (a summary that is swapped in, a failure, a skip, a stale or foreign event), and
  whatever messages the run adds before and after it, the next successful checkpoint leaves a log
  whose view is again the conversation in memory, summary included.
\<close>

theorem compaction_durable:
  assumes "live_matches C L"
    and "plan_compaction (take k L) policy = Ok (Some p)"
    and "cs_in_flight st = Some f" and "ci_boundary_message_id f = cp_boundary_message_id p"
    and "try_consume_compaction_event N fresh now True payload (L @ before) (Some st) = (consumed, L', st')"
    and "fresh \<notin> set (msg_ids C)" and "list_all (newly_added C) (before @ after)"
    and "checkpoint_append C (checkpoint_delta (L' @ after) previous thread run steps n st' C) expected = (Ok v, C')"
    and "length C' < 2 ^ 64"
  shows "live_matches C' (L' @ after)"
proof -
  have fresh: "newly_added C m" if "m \<in> set (before @ after)" for m
    using assms(7) that by (simp add: list_all_iff)
  have ok: "log_ok C" using assms(1) by (simp add: live_matches_def)
  have lenC: "length C < 2 ^ 64" using checkpoint_append_Ok(1) [OF assms(8) ok] assms(9) by simp
  from assms(5,3) show ?thesis
  proof (cases rule: consume_cases)
    case 1
    then show ?thesis using assms(8,9) checkpoint_plain [OF assms(1), where D = "before @ after"] fresh by simp
  next
    case (2 ap summ)
    from boundary_shown [OF assms(1) lenC assms(2)] obtain b i where b: "b < length L"
      and i: "i < length C" "shown C i" "msg_id (C ! i) = Some (cp_boundary_message_id p)"
      and pos: "\<And>pend. position (\<lambda>m. msg_id m = Some (cp_boundary_message_id p)) (L @ pend) = Some b"
        "position (\<lambda>m. msg_id m = Some (cp_boundary_message_id p)) C = Some i"
      and rest: "map body (drop (Suc b) L) = map (\<lambda>k. body (C ! k)) (filter (shown C) [Suc i..<length C])"
      by blast
    have L': "L' @ after = summary_message fresh summ # drop (Suc b) L @ (before @ after)"
      using 2(1) pos(1) [of before] b by (auto simp: apply_summary_def assms(4) Let_def)
    have "live_matches C' (summary_message fresh summ # drop (Suc b) L @ (before @ after))"
    proof (rule checkpoint_swap [OF assms(1) fresh summary_message_summary assms(6) i(1,2) pos(2) rest set_drop_subset])
      show "recorded_boundary st' = Some (cp_boundary_message_id p)" using 2(2) assms(4) by simp
    qed (use assms(8,9) L' in simp_all)
    then show ?thesis by (simp only: L')
  qed
qed

definition first_log :: "json Message list" where
  "first_log = [(user_message ''0'' ''describe'')\<lparr>msg_content := TextBlock ''describe'' # replicate 90 (ImageBlock (SrcUrl ''u''))\<rparr>,
     assistant_message ''1'' ''done'', user_message ''2'' ''next'']"

definition summarised_event :: json where
  "summarised_event = JObject [(''kind'', JString ''custom''), (''event_type'', JString ''context.compacted''),
     (''task_id'', JString ''task''),
     (''payload'', JObject [(''boundary_message_id'', JString ''1''), (''summary'', JString ''ninety pictures'')])]"

definition in_flight_state :: CompactionState where
  "in_flight_state = empty_compactions\<lparr>cs_in_flight := Some \<lparr>ci_task_id = ''task'', ci_boundary_message_id = ''1'',
     ci_started_at_ms = 0\<rparr>\<rparr>"

definition no_numbers :: Numbers where
  "no_numbers = \<lparr>as_u64 = (\<lambda>_. None), ratio_as_ppm = (\<lambda>_. None), quotient_ppm = (\<lambda>_ _. 0)\<rparr>"

definition swapped :: "bool \<times> json Message list \<times> CompactionState option" where
  "swapped = try_consume_compaction_event no_numbers ''s'' 7 True summarised_event
     (first_log @ [assistant_message ''3'' ''during'']) (Some in_flight_state)"

definition second_log :: "(u64, StorageError) outcome \<times> json Message list" where
  "second_log = checkpoint_append first_log (checkpoint_delta (fst (snd swapped) @ [user_message ''4'' ''after''])
     None ''thread'' ''run'' 0 0 (snd (snd swapped)) first_log) (Some 3)"

lemma swapped_eq:
  "fst (snd swapped) = [summary_message ''s'' ''ninety pictures'', user_message ''2'' ''next'', assistant_message ''3'' ''during'']"
  "recorded_boundary (snd (snd swapped)) = Some ''1''"
proof -
  have ty: "compaction_event_type summarised_event = Some ''context.compacted''" by code_simp
  have inner: "str_field (json_get summarised_event ''payload'') ''boundary_message_id'' = Some ''1''"
    "str_field (json_get summarised_event ''payload'') ''summary'' = Some ''ninety pictures''"
    "compaction_event_task_id summarised_event (json_get summarised_event ''payload'') = Some ''task''"
    "u64_field no_numbers (json_get summarised_event ''payload'') ''pre_tokens'' = 0"
    by code_simp+
  have pos: "position (\<lambda>m. msg_id m = Some ''1'') (first_log @ [assistant_message ''3'' ''during'']) = Some 1" by code_simp
  have "drop 2 (first_log @ [assistant_message ''3'' ''during'']) =
      [user_message ''2'' ''next'', assistant_message ''3'' ''during'']" by (simp add: first_log_def)
  then obtain ap where ap: "apply_summary ''s'' (first_log @ [assistant_message ''3'' ''during'']) ''1'' ''ninety pictures'' =
      Some (ap, summary_message ''s'' ''ninety pictures'' # [user_message ''2'' ''next'', assistant_message ''3'' ''during''])"
    unfolding apply_summary_def pos by (simp add: Let_def numeral_2_eq_2)
  have "\<exists>pre post. completed_actions no_numbers ''s'' 7 summarised_event (cs_in_flight in_flight_state)
      (first_log @ [assistant_message ''3'' ''during'']) =
      Some (summary_message ''s'' ''ninety pictures'' # [user_message ''2'' ''next'', assistant_message ''3'' ''during''],
        [RecordBoundary \<lparr>cb_summary = ''ninety pictures'', cb_task_id = Some ''task'', cb_boundary_message_id = Some ''1'',
           cb_pre_tokens = pre, cb_post_tokens = post, cb_timestamp_ms = 7\<rparr>, ClearInFlight])"
    unfolding completed_actions_def Let_def inner unwrap_or_default_def
    by (simp add: matching_in_flight_def in_flight_state_def ap)
  then show "fst (snd swapped) =
      [summary_message ''s'' ''ninety pictures'', user_message ''2'' ''next'', assistant_message ''3'' ''during'']"
    "recorded_boundary (snd (snd swapped)) = Some ''1''"
    by (auto simp: swapped_def try_consume_compaction_event_def ty recorded_boundary_def latest_boundary_def commit_actions_def)
qed

lemma stamp_recorded:
  "recorded_boundary st = recorded_boundary st' \<Longrightarrow> stamp_compaction_marks D C st = stamp_compaction_marks D C st'"
  by (simp add: stamp_compaction_marks_def)

definition stamped_log :: "(u64, StorageError) outcome \<times> json Message list" where
  "stamped_log = checkpoint_append first_log (checkpoint_delta
     [summary_message ''s'' ''ninety pictures'', user_message ''2'' ''next'', assistant_message ''3'' ''during'',
      user_message ''4'' ''after''] None ''thread'' ''run'' 0 0
     (Some (empty_compactions\<lparr>cs_boundaries := [\<lparr>cb_summary = [], cb_task_id = None, cb_boundary_message_id = Some ''1'',
        cb_pre_tokens = 0, cb_post_tokens = 0, cb_timestamp_ms = 0\<rparr>]\<rparr>)) first_log) (Some 3)"

lemma second_log_eq: "second_log = stamped_log"
  unfolding second_log_def stamped_log_def checkpoint_delta_def swapped_eq(1)
  by (subst stamp_recorded [OF swapped_eq(2) [THEN trans]])
    (simp_all add: recorded_boundary_def latest_boundary_def)

lemma compaction_durable_witness:
  "live_matches (snd second_log) (fst (snd swapped) @ [user_message ''4'' ''after'']) \<and>
   map msg_id (fst (snd swapped)) = map Some [''s'', ''2'', ''3''] \<and>
   map msg_id (snd second_log) = map Some [''0'', ''1'', ''2'', ''s'', ''3'', ''4'']"
proof -
  let ?policy = "default_policy\<lparr>cw_compaction_raw_suffix_messages := 1\<rparr>"
  let ?f = "\<lparr>ci_task_id = ''task'', ci_boundary_message_id = ''1'', ci_started_at_ms = 0\<rparr>"
  have "checkpoint_append [] first_log None = (Ok 3, first_log)" by code_simp
  then have "log_ok first_log" using checkpoint_append_Ok by (fastforce simp: log_ok_def)
  then have "live_matches first_log first_log" 
    by (rule live_matches_plain) (code_simp, simp add: first_log_def)
  moreover obtain p where "plan_compaction (take 3 first_log) ?policy = (Ok (Some p) :: (_, unit) outcome)"
      "cp_boundary_message_id p = ''1''"
  proof -
    have "compaction_keep_suffix first_log ?policy = 1" "find_compaction_boundary first_log 0 2 = Some 1"
      "msg_id (first_log ! 1) = Some ''1''" "render_transcript (take 2 first_log) \<noteq> []"
      "extract_previous_summary first_log = (Ok None :: (_, unit) outcome)" by code_simp+
    moreover have "MIN_COMPACTION_GAIN_TOKENS \<le> estimate_tokens (take 2 first_log)" "length first_log = 3"
      by (simp_all add: first_log_def estimate_message_tokens_def user_message_def assistant_message_def text_message_def
          sum_list_replicate MIN_COMPACTION_GAIN_TOKENS_def)
    ultimately have "(case plan_compaction (take 3 first_log) ?policy :: (_, unit) outcome of
        Ok (Some p) \<Rightarrow> cp_boundary_message_id p = ''1'' | _ \<Rightarrow> False)"
      by (simp add: plan_compaction_def numeral_2_eq_2 Let_def)
    then show thesis using that by (auto split: outcome.splits option.splits)
  qed
  moreover have "cs_in_flight in_flight_state = Some ?f" by code_simp
  moreover have "try_consume_compaction_event no_numbers ''s'' 7 True summarised_event
     (first_log @ [assistant_message ''3'' ''during'']) (Some in_flight_state) =
     (fst swapped, fst (snd swapped), snd (snd swapped))" by (simp add: swapped_def)
  moreover have "''s'' \<notin> set (msg_ids first_log)" by code_simp
  moreover have "list_all (newly_added first_log) ([assistant_message ''3'' ''during''] @ [user_message ''4'' ''after''])"
    by code_simp
  moreover have "fst second_log = Ok 6" "length (snd second_log) = 6"
    "map msg_id (snd second_log) = map Some [''0'', ''1'', ''2'', ''s'', ''3'', ''4'']"
    unfolding second_log_eq by code_simp+
  moreover have "map msg_id (fst (snd swapped)) = map Some [''s'', ''2'', ''3'']"
    unfolding swapped_eq by code_simp
  ultimately show ?thesis
    using compaction_durable [of first_log first_log 3 ?policy p in_flight_state ?f no_numbers "''s''" 7 summarised_event
        "[assistant_message ''3'' ''during'']" "fst swapped" "fst (snd swapped)" "snd (snd swapped)"
        "[user_message ''4'' ''after'']" None "''thread''" "''run''" 0 0 "Some 3" 6 "snd second_log"]
    by (simp add: second_log_def prod_eq_iff)
qed

end
