(* ===== verification/Checkpoint_Laws.thy ===== *)
theory Checkpoint_Laws
  imports Compaction_Log
begin

text \<open>
  Concurrent checkpoints of a thread do not lose each other's messages, and a run has at most one
  compaction in flight.
\<close>

section \<open>Checkpoints build on the log they extend\<close>

text \<open>What an attempt reads is an earlier state of an append-only log.\<close>

definition attempt_ok :: "('v Message list option, string) outcome \<times> 'v Message list \<Rightarrow> bool" where
  "attempt_ok a \<longleftrightarrow> length (snd a) < 2 ^ 64 \<and>
     (case fst a of Ok (Some committed) \<Rightarrow> prefix committed (snd a) | _ \<Rightarrow> True)"

lemma of_nat_inj64:
  assumes "(of_nat a :: u64) = of_nat b" and "a < 2 ^ 64" and "b < 2 ^ 64"
  shows "a = b"
proof -
  have "unat (of_nat a :: u64) = unat (of_nat b :: u64)" using assms(1) by simp
  then show ?thesis using assms(2,3) by (simp add: unat_of_nat)
qed

lemma append_loop_Ok:
  "append_loop thread build attempts = Ok log \<Longrightarrow> list_all attempt_ok attempts \<Longrightarrow>
   \<exists>a \<in> set attempts. log = snd a @ build (snd a) \<and> (log_ok (snd a) \<longrightarrow> log_ok log)"
proof (induction thread build attempts rule: append_loop.induct)
  case (2 thread build loaded now attempts)
  show ?case
  proof (cases loaded)
    case (Ok read)
    let ?c = "case read of None \<Rightarrow> [] | Some ms \<Rightarrow> ms"
    obtain res log' where r: "checkpoint_append now (build ?c) (Some (of_nat (length ?c))) = (res, log')"
      by fastforce
    show ?thesis
    proof (cases res)
      case R: (Ok v)
      have "(of_nat (length ?c) :: u64) = of_nat (length now)"
        using r R by (simp add: checkpoint_append_def Let_def split: if_splits)
      moreover have p: "prefix ?c now" "length now < 2 ^ 64"
        using "2.prems"(2) Ok by (auto simp: attempt_ok_def split: option.splits)
      ultimately have "length ?c = length now"
        using of_nat_inj64 [of "length ?c" "length now"] prefix_length_le [OF p(1)] by simp
      then have c: "?c = now" using p(1) by (auto simp: prefix_def)
      have "merge_checkpoint_append_messages now (build now) = (Ok (), log')"
        using r R by (auto simp: c checkpoint_append_def Let_def split: outcome.splits prod.splits if_splits)
      moreover have "log' = log" using "2.prems"(1) Ok r R by (simp add: Let_def)
      ultimately have "log = now @ build now" "log_ok now \<longrightarrow> log_ok log"
        using checkpoint_append_Ok [OF r [unfolded R c]]
        by (cases "validate_append_only_delta now (build now)"; auto simp: merge_checkpoint_append_eq)+
      then show ?thesis by (intro bexI [of _ "(loaded, now)"]) simp_all
    next
      case (Err e)
      then show ?thesis using "2.prems" "2.IH" [OF Ok refl] r Ok by (cases e) (auto simp: Let_def)
    qed (use "2.prems" r Ok in \<open>simp add: Let_def\<close>)
  qed (use "2.prems" in simp_all)
qed simp

text \<open>
  C15: No lost update. A checkpoint that succeeds, after however many conflicts with other writers of
  the thread, has appended the delta it built from the very log that was committed at that moment, not
  from an earlier one; the log keeps every message and stays well formed.
\<close>

theorem append_builds_on_latest:
  assumes "commit_checkpoint_appending thread build attempts = Ok log" and "list_all attempt_ok attempts"
  shows "\<exists>a \<in> set (take MAX_APPEND_ATTEMPTS attempts). log = snd a @ build (snd a) \<and> (log_ok (snd a) \<longrightarrow> log_ok log)"
proof (rule append_loop_Ok)
  show "append_loop thread build (take MAX_APPEND_ATTEMPTS attempts) = Ok log"
    using assms(1) by (simp add: commit_checkpoint_appending_def)
  show "list_all attempt_ok (take MAX_APPEND_ATTEMPTS attempts)"
    using assms(2) by (auto simp: list_all_iff dest: in_set_takeD)
qed

definition contended :: "((unit Message list option, string) outcome \<times> unit Message list) list" where
  "contended = [(Ok None, [user_message ''a'' ''hi'']), (Ok (Some [user_message ''a'' ''hi'']), [user_message ''a'' ''hi''])]"

lemma append_builds_on_latest_witness:
  "\<exists>a \<in> set (take MAX_APPEND_ATTEMPTS contended).
     [user_message ''a'' ''hi'', assistant_message ''b'' ''ho''] = snd a @ [assistant_message ''b'' ''ho'']"
proof -
  have "commit_checkpoint_appending ''t'' (\<lambda>_. [assistant_message ''b'' ''ho'']) contended =
      Ok [user_message ''a'' ''hi'', assistant_message ''b'' ''ho'']" by code_simp
  moreover have "list_all attempt_ok contended" by (simp add: contended_def attempt_ok_def)
  ultimately show ?thesis using append_builds_on_latest [of "''t''" _ contended] by blast
qed

section \<open>One compaction in flight\<close>

lemma apply_batches_append: "apply_batches (bs @ cs) store = apply_batches cs (apply_batches bs store)"
  by (induction bs store rule: apply_batches.induct) simp_all

lemma apply_batches_revision: "fst (apply_batches bs store) = fst store + of_nat (length bs)"
  by (induction bs store rule: apply_batches.induct) simp_all

lemma reserve_loop_idle:
  "reserve_loop f attempts store = (True, store') \<Longrightarrow> list_all (\<lambda>others. length others < 2 ^ 64) attempts \<Longrightarrow>
   \<exists>k. let st = snd (apply_batches (concat (take k attempts)) store)
       in Option.bind st cs_in_flight = None \<and> snd store' = commit_actions True [SetInFlight f] st"
proof (induction f attempts store arbitrary: store' rule: reserve_loop.induct)
  case (2 f others attempts n st)
  obtain n' st' where b: "apply_batches others (n, st) = (n', st')" by fastforce
  have idle: "Option.bind st cs_in_flight = None"
    using "2.prems"(1) by (auto simp: is_compacting_def split: option.splits if_splits)
  then have go: "(case st of None \<Rightarrow> False | Some s \<Rightarrow> is_compacting s) = False"
    by (auto simp: is_compacting_def split: option.splits)
  show ?case
  proof (cases "n' = n")
    case True
    then have "(of_nat (length others) :: u64) = of_nat 0"
      using apply_batches_revision [of others "(n, st)"] b by simp
    then have "others = []" using of_nat_inj64 [of "length others" 0] "2.prems"(2) by simp
    then show ?thesis using "2.prems"(1) b idle go by (intro exI [of _ 0]) auto
  next
    case False
    then have "reserve_loop f attempts (n', st') = (True, store')" using "2.prems"(1) b go by simp
    then obtain k where "let st = snd (apply_batches (concat (take k attempts)) (n', st'))
        in Option.bind st cs_in_flight = None \<and> snd store' = commit_actions True [SetInFlight f] st"
      using "2.IH" [OF _ b [symmetric] refl False] go "2.prems"(2) by auto
    then show ?thesis by (intro exI [of _ "Suc k"]) (simp add: apply_batches_append b)
  qed
qed simp

text \<open>A reservation that succeeds found no compaction in flight at the revision it wrote on, whatever others committed.\<close>

lemma reservation_exclusive:
  assumes "reserve_compaction_in_flight f attempts store = (True, store')"
    and "list_all (\<lambda>others. length others < 2 ^ 64) attempts"
  shows "\<exists>k \<le> 8. let st = snd (apply_batches (concat (take k attempts)) store)
    in Option.bind st cs_in_flight = None \<and> snd store' = commit_actions True [SetInFlight f] st"
proof -
  have "list_all (\<lambda>others. length others < 2 ^ 64) (take 8 attempts)"
    using assms(2) by (auto simp: list_all_iff dest: in_set_takeD)
  from reserve_loop_idle [OF assms(1) [unfolded reserve_compaction_in_flight_def] this]
  obtain k where "let st = snd (apply_batches (concat (take (min k 8) attempts)) store)
    in Option.bind st cs_in_flight = None \<and> snd store' = commit_actions True [SetInFlight f] st"
    by (auto simp: min.commute)
  then show ?thesis by (intro exI [of _ "min k 8"]) simp
qed

end
