(* ===== verification/Run_Record.thy ===== *)
theory Run_Record
  imports Checkpoint_Log Tool_Call
begin

text \<open>
  The durable record of a run and what a store checks before it persists one
  (\<^verbatim>\<open>contract/storage.rs\<close>, \<^verbatim>\<open>contract/run.rs\<close>). JSON values are the type variable \<open>'v\<close>. Fields no store
  operation looks at (options and origin of an activation, token counts, the state snapshot) are left
  out.
\<close>

section \<open>Validation\<close>

text \<open>Checks in a row, each followed by \<open>?\<close> in the code: the first error counts.\<close>

fun first_error :: "(unit, 'e) outcome list \<Rightarrow> (unit, 'e) outcome" where
  "first_error [] = Ok ()"
| "first_error (c # cs) = and_then c (\<lambda>_. first_error cs)"

lemma first_error_Ok: "first_error cs = Ok u \<longleftrightarrow> (\<forall>c \<in> set cs. c = Ok ())"
  by (induction cs) (auto simp: and_then_eq_Ok_iff)

lemma first_error_no_panic: "is_panic (first_error cs) \<Longrightarrow> \<exists>c \<in> set cs. is_panic c"
  by (induction cs) auto

definition require_optional_non_empty :: "string \<Rightarrow> string option \<Rightarrow> unit validated" where
  "require_optional_non_empty name v = (case v of None \<Rightarrow> Ok () | Some s \<Rightarrow> require_non_empty name s)"

definition validate_message_id_list :: "string \<Rightarrow> string list \<Rightarrow> unit validated" where
  "validate_message_id_list name ids = first_error
     (map (\<lambda>(i, mid). require_non_empty (name @ ''['' @ show_nat i @ '']'') mid) (enumerate 0 ids))"

definition validate_seq_range :: "string \<Rightarrow> MessageSeqRange \<Rightarrow> unit validated" where
  "validate_seq_range name rg =
     (if rg_from_seq rg = 0 \<or> rg_to_seq rg < rg_from_seq rg
      then Err (Validation (name @ '' range must be non-empty and 1-based'')) else Ok ())"

section \<open>Activations\<close>

datatype RunKind = NewIntent | HitlResume string | ContinuationFromRun string

record RunIntent =
  in_agent_id :: "string option"
  in_thread_id :: string
  in_kind :: RunKind

definition RunKind_validate :: "RunKind \<Rightarrow> unit validated" where
  "RunKind_validate k = (case k of
      NewIntent \<Rightarrow> Ok ()
    | HitlResume r \<Rightarrow> require_non_empty ''hitl resume run_id'' r
    | ContinuationFromRun r \<Rightarrow> require_non_empty ''continuation run_id'' r)"

definition RunIntent_validate :: "RunIntent \<Rightarrow> unit validated" where
  "RunIntent_validate i = first_error
     [require_non_empty ''run intent thread_id'' (in_thread_id i),
      require_optional_non_empty ''run intent agent_id'' (in_agent_id i),
      RunKind_validate (in_kind i)]"

record RunInputSnapshot =
  is_thread_id :: string
  is_range :: "MessageSeqRange option"
  is_trigger_message_ids :: "string list"
  is_selected_message_ids :: "string list"
  is_context_policy :: "string option"
  is_compacted_snapshot_id :: "string option"

definition RunInputSnapshot_validate :: "RunInputSnapshot \<Rightarrow> unit validated" where
  "RunInputSnapshot_validate s = first_error
     [require_non_empty ''run input snapshot thread_id'' (is_thread_id s),
      (case is_range s of None \<Rightarrow> Ok () | Some r \<Rightarrow> validate_seq_range ''run input snapshot'' r),
      validate_message_id_list ''run input snapshot trigger_message_ids'' (is_trigger_message_ids s),
      validate_message_id_list ''run input snapshot selected_message_ids'' (is_selected_message_ids s),
      require_optional_non_empty ''run input snapshot context_policy'' (is_context_policy s),
      require_optional_non_empty ''run input snapshot compacted_snapshot_id'' (is_compacted_snapshot_id s)]"

record RunTraceContext =
  tr_parent_run_id :: "string option"
  tr_parent_thread_id :: "string option"
  tr_dispatch_id :: "string option"
  tr_session_id :: "string option"
  tr_transport_request_id :: "string option"
  tr_correlation_id :: "string option"

definition RunTraceContext_validate :: "RunTraceContext \<Rightarrow> unit validated" where
  "RunTraceContext_validate t = first_error
     [require_optional_non_empty ''run trace parent_run_id'' (tr_parent_run_id t),
      require_optional_non_empty ''run trace parent_thread_id'' (tr_parent_thread_id t),
      require_optional_non_empty ''run trace dispatch_id'' (tr_dispatch_id t),
      require_optional_non_empty ''run trace session_id'' (tr_session_id t),
      require_optional_non_empty ''run trace transport_request_id'' (tr_transport_request_id t),
      require_optional_non_empty ''run trace correlation_id'' (tr_correlation_id t)]"

record 'v RunActivationSnapshot =
  ac_intent :: RunIntent
  ac_input :: RunInputSnapshot
  ac_trace :: RunTraceContext
  ac_seeded_decisions :: "(string \<times> 'v ToolCallResume) list"
  ac_resolution_id :: "string option"

definition RunActivationSnapshot_validate :: "'v RunActivationSnapshot \<Rightarrow> unit validated" where
  "RunActivationSnapshot_validate a = first_error
     [RunIntent_validate (ac_intent a), RunInputSnapshot_validate (ac_input a), RunTraceContext_validate (ac_trace a),
      (if in_thread_id (ac_intent a) \<noteq> is_thread_id (ac_input a)
       then Err (Validation (''run activation intent.thread_id '' @ quoted (in_thread_id (ac_intent a)) @
         '' must match input.thread_id '' @ quoted (is_thread_id (ac_input a)))) else Ok ()),
      first_error (map (\<lambda>(i, (call_id, _)).
        require_non_empty (''run activation seeded_decisions['' @ show_nat i @ ''].call_id'') call_id)
        (enumerate 0 (ac_seeded_decisions a))),
      require_optional_non_empty ''run activation resolution_id'' (ac_resolution_id a)]"

section \<open>Run records\<close>

record RunMessageInput =
  ri_thread_id :: string
  ri_range :: "MessageSeqRange option"
  ri_trigger_message_ids :: "string list"
  ri_selected_message_ids :: "string list"
  ri_context_policy :: "string option"
  ri_compacted_snapshot_id :: "string option"

datatype WaitingReason = ToolPermission | UserInput | BackgroundTasks | ExternalEvent | RateLimit | ManualPause

record 'v RunWaitingTicket =
  wt_ticket_id :: string
  wt_tool_call_id :: string
  wt_tool_name :: string
  wt_arguments :: 'v
  wt_resume_mode :: ToolCallResumeMode
  wt_reason :: "string option"
  wt_updated_at :: u64

record 'v RunWaitingState =
  ws_reason :: WaitingReason
  ws_ticket_ids :: "string list"
  ws_tickets :: "'v RunWaitingTicket list"
  ws_since_dispatch_id :: "string option"
  ws_message :: "string option"

record 'v RunOutcome =
  oc_termination_reason :: TerminationReason
  oc_final_output :: "string option"
  oc_error_payload :: "'v option"

record 'v RunRecord =
  rr_run_id :: string
  rr_thread_id :: string
  rr_agent_id :: string
  rr_parent_run_id :: "string option"
  rr_resolution_id :: "string option"
  rr_activation :: "'v RunActivationSnapshot option"
  rr_request_parent_thread_id :: "string option"
  rr_input :: "RunMessageInput option"
  rr_output :: "RunMessageOutput option"
  rr_status :: RunStatus
  rr_termination_reason :: "TerminationReason option"
  rr_final_output :: "string option"
  rr_error_payload :: "'v option"
  rr_dispatch_id :: "string option"
  rr_session_id :: "string option"
  rr_transport_request_id :: "string option"
  rr_waiting :: "'v RunWaitingState option"
  rr_outcome :: "'v RunOutcome option"
  rr_created_at :: u64
  rr_started_at :: "u64 option"
  rr_finished_at :: "u64 option"
  rr_updated_at :: u64

text \<open>\<open>rr_request_parent_thread_id\<close> is the parent thread in the request, if there is a request.\<close>

definition validate_run_message_input :: "string \<Rightarrow> RunMessageInput \<Rightarrow> unit validated" where
  "validate_run_message_input run_thread_id input =
     (if ri_thread_id input \<noteq> run_thread_id
      then Err (Validation (''run input thread_id '' @ quoted (ri_thread_id input) @ '' must match run thread_id '' @
        quoted run_thread_id))
      else (case ri_range input of None \<Rightarrow> Ok () | Some r \<Rightarrow> validate_seq_range ''run input'' r))"

definition MessageSeqRange_len :: "MessageSeqRange \<Rightarrow> u64" where
  "MessageSeqRange_len r = rg_to_seq r - rg_from_seq r + 1"

definition validate_run_message_output :: "string \<Rightarrow> RunMessageOutput \<Rightarrow> unit validated" where
  "validate_run_message_output run_thread_id output =
     (if ro_thread_id output \<noteq> run_thread_id
      then Err (Validation (''run output thread_id '' @ quoted (ro_thread_id output) @ '' must match run thread_id '' @
        quoted run_thread_id))
      else (case ro_range output of None \<Rightarrow> Ok ()
        | Some r \<Rightarrow> and_then (validate_seq_range ''run output'' r) (\<lambda>_.
            if unat (MessageSeqRange_len r) \<noteq> length (ro_message_ids output)
            then Err (Validation (''run output message_ids length '' @ show_nat (length (ro_message_ids output)) @
              '' must match range length '' @ show_nat (unat (MessageSeqRange_len r))))
            else Ok ())))"

fun debug_run_status :: "RunStatus \<Rightarrow> string" where
  "debug_run_status Created = ''Created''"
| "debug_run_status Running = ''Running''"
| "debug_run_status Waiting = ''Waiting''"
| "debug_run_status Done = ''Done''"

text \<open>\<open>unless\<close> is a guard of the code: \<open>if bad { return Err(...) }\<close>.\<close>

definition unless :: "bool \<Rightarrow> string \<Rightarrow> unit validated" where
  "unless bad msg = (if bad then Err (Validation msg) else Ok ())"

lemma unless_Ok [simp]: "unless bad msg = Ok u \<longleftrightarrow> \<not> bad"
  by (simp add: unless_def)

definition validate_status_fields :: "'v RunRecord \<Rightarrow> unit validated" where
  "validate_status_fields r = first_error (case rr_status r of
      Waiting \<Rightarrow>
        [unless (rr_waiting r = None) (''waiting run '' @ quoted (rr_run_id r) @ '' must carry waiting state''),
         unless (rr_outcome r \<noteq> None) (''waiting run '' @ quoted (rr_run_id r) @ '' must not carry terminal outcome''),
         unless (rr_finished_at r \<noteq> None) (''waiting run '' @ quoted (rr_run_id r) @ '' must not carry finished_at'')]
    | Done \<Rightarrow>
        [unless (rr_waiting r \<noteq> None) (''done run '' @ quoted (rr_run_id r) @ '' must not carry waiting state''),
         unless (rr_finished_at r = None) (''done run '' @ quoted (rr_run_id r) @ '' must carry finished_at'')] @
        (case rr_outcome r of None \<Rightarrow> []
         | Some oc \<Rightarrow>
            [unless (rr_termination_reason r \<noteq> None \<and> rr_termination_reason r \<noteq> Some (oc_termination_reason oc))
               (''done run '' @ quoted (rr_run_id r) @ '' termination_reason must match outcome.termination_reason''),
             unless (rr_final_output r \<noteq> None \<and> rr_final_output r \<noteq> oc_final_output oc)
               (''done run '' @ quoted (rr_run_id r) @ '' final_output must match outcome.final_output''),
             unless (rr_error_payload r \<noteq> None \<and> rr_error_payload r \<noteq> oc_error_payload oc)
               (''done run '' @ quoted (rr_run_id r) @ '' error_payload must match outcome.error_payload'')])
    | _ \<Rightarrow>
        [unless (rr_waiting r \<noteq> None)
           (debug_run_status (rr_status r) @ '' run '' @ quoted (rr_run_id r) @ '' must not carry waiting state''),
         unless (rr_outcome r \<noteq> None)
           (debug_run_status (rr_status r) @ '' run '' @ quoted (rr_run_id r) @ '' must not carry terminal outcome''),
         unless (rr_finished_at r \<noteq> None)
           (debug_run_status (rr_status r) @ '' run '' @ quoted (rr_run_id r) @ '' must not carry finished_at'')])"

definition RunRecord_validate_for_persist :: "'v RunRecord \<Rightarrow> unit validated" where
  "RunRecord_validate_for_persist r = first_error
     [require_non_empty ''run_id'' (rr_run_id r), require_non_empty ''thread_id'' (rr_thread_id r),
      require_non_empty ''agent_id'' (rr_agent_id r),
      (case rr_activation r of None \<Rightarrow> Ok ()
       | Some a \<Rightarrow> and_then (RunActivationSnapshot_validate a) (\<lambda>_.
           unless (in_thread_id (ac_intent a) \<noteq> rr_thread_id r)
             (''run activation thread_id '' @ quoted (in_thread_id (ac_intent a)) @ '' must match run thread_id '' @
              quoted (rr_thread_id r)))),
      (case rr_input r of None \<Rightarrow> Ok () | Some i \<Rightarrow> validate_run_message_input (rr_thread_id r) i),
      (case rr_output r of None \<Rightarrow> Ok () | Some output \<Rightarrow> validate_run_message_output (rr_thread_id r) output),
      validate_status_fields r]"

definition waiting_reason :: "'v RunRecord \<Rightarrow> WaitingReason option" where
  "waiting_reason r = (if rr_status r \<noteq> Waiting then None else map_option ws_reason (rr_waiting r))"

definition is_resumable_waiting :: "'v RunRecord \<Rightarrow> bool" where
  "is_resumable_waiting r \<longleftrightarrow> waiting_reason r \<noteq> None"

definition is_background_task_waiting :: "'v RunRecord \<Rightarrow> bool" where
  "is_background_task_waiting r \<longleftrightarrow> waiting_reason r = Some BackgroundTasks"

section \<open>What the checks give\<close>

lemma validated_run_no_panic: "\<not> is_panic (RunRecord_validate_for_persist r)"
proof -
  have "\<not> is_panic (require_optional_non_empty n v)" "\<not> is_panic (validate_seq_range n g)" "\<not> is_panic (unless b m)"
    "\<not> is_panic (require_non_empty n s)" for n v g b m s
    by (auto simp: require_optional_non_empty_def require_non_empty_def validate_seq_range_def unless_def split: option.splits)
  note [simp] = this
  have [simp]: "\<not> is_panic (validate_message_id_list n ids)" for n ids
    by (auto simp: validate_message_id_list_def dest!: first_error_no_panic)
  have act: "\<not> is_panic (RunActivationSnapshot_validate a)" for a :: "'a RunActivationSnapshot"
    by (auto simp: RunActivationSnapshot_validate_def RunIntent_validate_def RunInputSnapshot_validate_def
        RunTraceContext_validate_def RunKind_validate_def dest!: first_error_no_panic
        split: option.splits RunKind.splits if_splits)
  have io: "\<not> is_panic (validate_run_message_input t i)" "\<not> is_panic (validate_run_message_output t out)" for t i out
    by (simp_all add: validate_run_message_input_def validate_run_message_output_def split: option.splits)
  have "\<not> is_panic (validate_status_fields r)"
    unfolding validate_status_fields_def
    by (cases "rr_status r"; cases "rr_outcome r") (auto dest!: first_error_no_panic)
  moreover have "\<not> is_panic (case rr_activation r of None \<Rightarrow> Ok () | Some a \<Rightarrow> and_then (RunActivationSnapshot_validate a)
      (\<lambda>_. unless (b a) (m a)))" for b m
    using act by (simp split: option.splits)
  moreover have "\<not> is_panic (case rr_input r of None \<Rightarrow> Ok () | Some i \<Rightarrow> validate_run_message_input (rr_thread_id r) i)"
    "\<not> is_panic (case rr_output r of None \<Rightarrow> Ok () | Some out \<Rightarrow> validate_run_message_output (rr_thread_id r) out)"
    using io by (simp_all split: option.splits)
  ultimately show ?thesis
    unfolding RunRecord_validate_for_persist_def by (auto dest!: first_error_no_panic)
qed

text \<open>A persisted waiting run can be resumed, a persisted done run is finished, no other run carries either.\<close>

lemma validated_run_status:
  assumes "RunRecord_validate_for_persist r = Ok u"
  shows "(rr_status r = Waiting \<longleftrightarrow> is_resumable_waiting r) \<and> (rr_status r = Done \<longleftrightarrow> rr_finished_at r \<noteq> None) \<and>
    (rr_waiting r \<noteq> None \<longleftrightarrow> rr_status r = Waiting)"
  using assms by (cases "rr_status r")
    (auto simp: RunRecord_validate_for_persist_def first_error_Ok validate_status_fields_def is_resumable_waiting_def
      waiting_reason_def and_then_eq_Ok_iff split: if_splits)

end
