(* ===== verification/Thread_Store.thy ===== *)
theory Thread_Store
  imports Run_Record
begin

text \<open>
  Threads, runs and message logs of the in-memory store (\<^verbatim>\<open>awaken-runtime-contract/src/thread.rs\<close>,
  \<^verbatim>\<open>awaken-stores/src/memory/mod.rs\<close>). A method holds its write locks for its whole body, so it is a
  function from the store to an outcome and the store it leaves. The clock and generated ids are
  arguments. Pending messages are entries of type \<open>'p\<close>, see \<open>Pending_Queue\<close>; a thread's persisted
  state is only copied and has type \<open>'s\<close>. Profiles and configurations are other interfaces of the
  store and left out.
\<close>

section \<open>Threads\<close>

definition normalize_lineage_id :: "string option \<Rightarrow> string option" where
  "normalize_lineage_id v = Option.bind v (\<lambda>s. if trim s = [] then None else Some (trim s))"

lemma normalize_lineage_id_idem [simp]: "normalize_lineage_id (normalize_lineage_id v) = normalize_lineage_id v"
  by (cases v) (auto simp: normalize_lineage_id_def)

record 'v ThreadMetadata =
  tm_created_at :: "u64 option"
  tm_updated_at :: "u64 option"
  tm_title :: "string option"
  tm_custom :: "(string, 'v) hash_map"

definition no_thread_metadata :: "'v ThreadMetadata" where
  "no_thread_metadata = \<lparr>tm_created_at = None, tm_updated_at = None, tm_title = None, tm_custom = []\<rparr>"

record 'v Thread =
  th_id :: string
  th_resource_id :: "string option"
  th_parent_thread_id :: "string option"
  th_metadata :: "'v ThreadMetadata"
  th_active_run_id :: "string option"
  th_open_run_id :: "string option"
  th_latest_run_id :: "string option"
  th_latest_run_updated_at :: "u64 option"

definition Thread_with_id :: "string \<Rightarrow> 'v Thread" where
  "Thread_with_id i = \<lparr>th_id = i, th_resource_id = None, th_parent_thread_id = None, th_metadata = no_thread_metadata,
     th_active_run_id = None, th_open_run_id = None, th_latest_run_id = None, th_latest_run_updated_at = None\<rparr>"

definition normalize_lineage :: "'v Thread \<Rightarrow> 'v Thread" where
  "normalize_lineage t = t\<lparr>th_resource_id := normalize_lineage_id (th_resource_id t),
     th_parent_thread_id := normalize_lineage_id (th_parent_thread_id t)\<rparr>"

definition Thread_validate_for_persist :: "'v Thread \<Rightarrow> unit validated" where
  "Thread_validate_for_persist t = first_error
     [require_non_empty ''thread id'' (th_id t),
      require_optional_non_empty ''thread resource_id'' (th_resource_id t),
      require_optional_non_empty ''thread parent_thread_id'' (th_parent_thread_id t),
      require_optional_non_empty ''thread active_run_id'' (th_active_run_id t),
      require_optional_non_empty ''thread open_run_id'' (th_open_run_id t),
      require_optional_non_empty ''thread latest_run_id'' (th_latest_run_id t),
      unless (normalize_lineage_id (th_parent_thread_id t) = Some (trim (th_id t)))
        (''thread '' @ quoted (th_id t) @ '' cannot parent itself'')]"

definition touch :: "u64 \<Rightarrow> 'v Thread \<Rightarrow> 'v Thread" where
  "touch now t = t\<lparr>th_metadata := (th_metadata t)\<lparr>
     tm_created_at := Some (case tm_created_at (th_metadata t) of None \<Rightarrow> now | Some c \<Rightarrow> c),
     tm_updated_at := Some now\<rparr>\<rparr>"

definition clear_run_projection_if_matches :: "string \<Rightarrow> 'v Thread \<Rightarrow> 'v Thread" where
  "clear_run_projection_if_matches run t = t\<lparr>
     th_active_run_id := (if th_active_run_id t = Some run then None else th_active_run_id t),
     th_open_run_id := (if th_open_run_id t = Some run then None else th_open_run_id t)\<rparr>"

definition apply_run_projection :: "'v RunRecord \<Rightarrow> 'v Thread \<Rightarrow> 'v Thread" where
  "apply_run_projection run t =
     (let is_current_projection = (case th_latest_run_updated_at t of None \<Rightarrow> True
        | Some latest_updated_at \<Rightarrow> latest_updated_at \<le> rr_updated_at run)
      in if \<not> is_current_projection
         then (if rr_status run = Done then clear_run_projection_if_matches (rr_run_id run) t else t)
         else (let t1 = t\<lparr>th_latest_run_id := Some (rr_run_id run), th_latest_run_updated_at := Some (rr_updated_at run),
                 th_parent_thread_id := (case th_parent_thread_id t of
                     None \<Rightarrow> normalize_lineage_id (rr_request_parent_thread_id run) | Some p \<Rightarrow> Some p)\<rparr>
               in case rr_status run of
                    Created \<Rightarrow> t1\<lparr>th_active_run_id := None, th_open_run_id := Some (rr_run_id run)\<rparr>
                  | Running \<Rightarrow> t1\<lparr>th_active_run_id := Some (rr_run_id run), th_open_run_id := Some (rr_run_id run)\<rparr>
                  | Waiting \<Rightarrow> t1\<lparr>th_active_run_id := None, th_open_run_id := Some (rr_run_id run)\<rparr>
                  | Done \<Rightarrow> clear_run_projection_if_matches (rr_run_id run) t1))"

definition checkpoint_parent_thread_id :: "'v Thread option \<Rightarrow> 'v RunRecord \<Rightarrow> string option" where
  "checkpoint_parent_thread_id existing run =
     (case Option.bind existing th_parent_thread_id of Some p \<Rightarrow> Some p | None \<Rightarrow> rr_request_parent_thread_id run)"

section \<open>The store\<close>

record ('v, 'p, 's) InMemoryStore =
  im_threads :: "(string, 'v Thread) hash_map"
  im_runs :: "(string, 'v RunRecord) hash_map"
  im_run_insertion :: "(string, u64) hash_map"
  im_run_seq :: u64
  im_messages :: "(string, 'v Message list) hash_map"
  im_pending_messages :: "(string, 'p list) hash_map"
  im_thread_states :: "(string, 's) hash_map"

definition InMemoryStore_new :: "('v, 'p, 's) InMemoryStore" where
  "InMemoryStore_new = \<lparr>im_threads = [], im_runs = [], im_run_insertion = [], im_run_seq = 0, im_messages = [],
     im_pending_messages = [], im_thread_states = []\<rparr>"

type_synonym ('a, 'v, 'p, 's) store_method = "('a, StorageError) outcome \<times> ('v, 'p, 's) InMemoryStore"

text \<open>The committed log of a thread; a thread without one has the empty log.\<close>

definition committed_log :: "('v, 'p, 's) InMemoryStore \<Rightarrow> string \<Rightarrow> 'v Message list" where
  "committed_log st t = (case map_of (im_messages st) t of None \<Rightarrow> [] | Some ms \<Rightarrow> ms)"

section \<open>The thread hierarchy\<close>

text \<open>The walk from a parent upwards; a visited thread is an error.\<close>

function hierarchy_walk :: "(string, 'v Thread) hash_map \<Rightarrow> string \<Rightarrow> string \<Rightarrow> string \<Rightarrow> string set \<Rightarrow> unit validated" where
  "hierarchy_walk threads origin root_parent current visited =
     (if current \<in> visited
      then Err (Validation (''thread hierarchy cycle detected at '' @ quoted current))
      else (case map_of threads current of
          None \<Rightarrow> Err (Validation (if current = root_parent then ''parent thread not found: '' @ root_parent
            else ''thread hierarchy references missing ancestor '' @ quoted current))
        | Some thread \<Rightarrow>
            (case normalize_lineage_id (th_parent_thread_id thread) of
               None \<Rightarrow> Ok ()
             | Some next_parent \<Rightarrow> hierarchy_walk threads origin root_parent next_parent (insert current visited))))"
  by pat_completeness auto
termination
proof (relation "measure (\<lambda>(threads, _, _, _, visited). card (fst ` set threads - visited))")
  fix threads :: "(string, 'v Thread) hash_map" and origin root_parent current visited thread next_parent
  assume "current \<notin> visited" and "map_of threads current = Some thread"
  then have "current \<in> fst ` set threads - visited" by (force dest: map_of_SomeD)
  then have "fst ` set threads - insert current visited \<subset> fst ` set threads - visited" by blast
  then show "((threads, origin, root_parent, next_parent, insert current visited), threads, origin, root_parent,
      current, visited) \<in> measure (\<lambda>(threads, _, _, _, visited). card (fst ` set threads - visited))"
    by (simp add: psubset_card_mono)
qed simp

declare hierarchy_walk.simps [simp del]

definition validate_thread_hierarchy_map :: "(string, 'v Thread) hash_map \<Rightarrow> string \<Rightarrow> string option \<Rightarrow> unit validated" where
  "validate_thread_hierarchy_map threads origin parent =
     (case normalize_lineage_id parent of
        None \<Rightarrow> Ok ()
      | Some p \<Rightarrow>
          if p = origin then Err (Validation (''thread '' @ quoted origin @ '' cannot parent itself''))
          else hierarchy_walk threads origin p p {origin})"

definition collect_child_ids :: "(string, 'v Thread) hash_map \<Rightarrow> string \<Rightarrow> string list" where
  "collect_child_ids threads parent = sort (map th_id (filter (\<lambda>t. th_parent_thread_id t = Some parent) (hm_values threads)))"

section \<open>Thread methods\<close>

definition load_thread :: "string \<Rightarrow> ('v, 'p, 's) InMemoryStore \<Rightarrow> 'v Thread option" where
  "load_thread t st = map_of (im_threads st) t"

definition save_thread :: "'v Thread \<Rightarrow> ('v, 'p, 's) InMemoryStore \<Rightarrow> (unit, 'v, 'p, 's) store_method" where
  "save_thread thread st =
     (let normalized = normalize_lineage thread
      in case Thread_validate_for_persist normalized of
           Ok _ \<Rightarrow> (Ok (), st\<lparr>im_threads := AList.update (th_id normalized) normalized (im_threads st)\<rparr>)
         | Err e \<Rightarrow> (Err e, st)
         | Panic p \<Rightarrow> (Panic p, st))"

definition save_thread_validated :: "'v Thread \<Rightarrow> ('v, 'p, 's) InMemoryStore \<Rightarrow> (unit, 'v, 'p, 's) store_method" where
  "save_thread_validated thread st =
     (let normalized = normalize_lineage thread
      in case and_then (Thread_validate_for_persist normalized) (\<lambda>_.
             validate_thread_hierarchy_map (im_threads st) (th_id normalized) (th_parent_thread_id normalized)) of
           Ok _ \<Rightarrow> (Ok (), st\<lparr>im_threads := AList.update (th_id normalized) normalized (im_threads st)\<rparr>)
         | Err e \<Rightarrow> (Err e, st)
         | Panic p \<Rightarrow> (Panic p, st))"

definition remove_thread :: "string \<Rightarrow> ('v, 'p, 's) InMemoryStore \<Rightarrow> ('v, 'p, 's) InMemoryStore" where
  "remove_thread t st = st\<lparr>im_threads := AList.delete t (im_threads st), im_messages := AList.delete t (im_messages st),
     im_pending_messages := AList.delete t (im_pending_messages st)\<rparr>"

definition delete_thread :: "string \<Rightarrow> ('v, 'p, 's) InMemoryStore \<Rightarrow> (unit, 'v, 'p, 's) store_method" where
  "delete_thread t st = (Ok (), (remove_thread t st)\<lparr>im_thread_states := AList.delete t (im_thread_states st)\<rparr>)"

definition save_thread_state :: "string \<Rightarrow> 's \<Rightarrow> ('v, 'p, 's) InMemoryStore \<Rightarrow> (unit, 'v, 'p, 's) store_method" where
  "save_thread_state t state st = (Ok (), st\<lparr>im_thread_states := AList.update t state (im_thread_states st)\<rparr>)"

definition load_thread_state :: "string \<Rightarrow> ('v, 'p, 's) InMemoryStore \<Rightarrow> 's option" where
  "load_thread_state t st = map_of (im_thread_states st) t"

datatype ChildThreadDeleteStrategy = Reject | Detach | Cascade

definition detach_child :: "u64 \<Rightarrow> string \<Rightarrow> (string, 'v Thread) hash_map \<Rightarrow> (string, 'v Thread) hash_map" where
  "detach_child now child_id threads =
     (case map_of threads child_id of
        None \<Rightarrow> threads
      | Some child \<Rightarrow>
          (let c = normalize_lineage (child\<lparr>th_parent_thread_id := None\<rparr>)
           in AList.update child_id (c\<lparr>th_metadata := (th_metadata c)\<lparr>tm_updated_at := Some now\<rparr>\<rparr>) threads))"

text \<open>
  The depth-first walk of a cascade: a stack of threads, each pushed again as expanded below its
  children; the result is the order of deletion.
\<close>

function cascade_order ::
  "(string, 'v Thread) hash_map \<Rightarrow> string \<Rightarrow> string set \<Rightarrow> (string \<times> bool) list \<Rightarrow> string list \<Rightarrow> string list validated" where
  "cascade_order threads origin visited [] delete_order = Ok delete_order"
| "cascade_order threads origin visited ((current, expanded) # stack) delete_order =
     (if expanded then cascade_order threads origin visited stack (delete_order @ [current])
      else if current \<in> visited
      then Err (Validation (''thread hierarchy cycle detected while deleting '' @ quoted origin))
      else cascade_order threads origin (insert current visited)
        (map (\<lambda>c. (c, False)) (collect_child_ids threads current) @ (current, True) # stack) delete_order)"
  by pat_completeness auto
termination
proof (relation "measures [\<lambda>(threads, _, visited, stack, _). card ((th_id ` set (hm_values threads) \<union> fst ` set stack) - visited),
    \<lambda>(_, _, _, stack, _). length stack]")
  fix threads :: "(string, 'v Thread) hash_map" and origin visited stack delete_order current and expanded :: bool
  let ?ids = "th_id ` set (hm_values threads)"
  let ?m = "measures [\<lambda>(threads, _, visited, stack, _). card ((th_id ` set (hm_values threads) \<union> fst ` set stack) - visited),
    \<lambda>(_, _, _, stack, _). length stack]"
  have "card ((?ids \<union> fst ` set stack) - visited) \<le> card ((?ids \<union> fst ` set ((current, expanded) # stack)) - visited)"
    by (rule card_mono) auto
  then have "card ((?ids \<union> fst ` set stack) - visited) < card ((?ids \<union> fst ` set ((current, expanded) # stack)) - visited) \<or>
      card ((?ids \<union> fst ` set stack) - visited) = card ((?ids \<union> fst ` set ((current, expanded) # stack)) - visited)"
    by (rule le_imp_less_or_eq)
  then show "((threads, origin, visited, stack, delete_order @ [current]), threads, origin, visited,
      (current, expanded) # stack, delete_order) \<in> ?m"
    unfolding in_measures split_conv by (simp only: length_Cons lessI simp_thms)
  assume "current \<notin> visited"
  have "set (collect_child_ids threads current) \<subseteq> ?ids" by (auto simp: collect_child_ids_def)
  then have "(?ids \<union> fst ` set (map (\<lambda>c. (c, False)) (collect_child_ids threads current) @ (current, True) # stack)) -
      insert current visited \<subseteq> (?ids \<union> fst ` set ((current, expanded) # stack)) - visited"
    by (auto simp: image_Un image_image)
  moreover have "current \<in> (?ids \<union> fst ` set ((current, expanded) # stack)) - visited"
    using \<open>current \<notin> visited\<close> by simp
  ultimately have "(?ids \<union> fst ` set (map (\<lambda>c. (c, False)) (collect_child_ids threads current) @ (current, True) # stack)) -
      insert current visited \<subset> (?ids \<union> fst ` set ((current, expanded) # stack)) - visited"
    by blast
  then have "card ((?ids \<union> fst ` set (map (\<lambda>c. (c, False)) (collect_child_ids threads current) @ (current, True) # stack)) -
      insert current visited) < card ((?ids \<union> fst ` set ((current, expanded) # stack)) - visited)"
    by (rule psubset_card_mono [rotated]) simp
  then show "((threads, origin, insert current visited,
      map (\<lambda>c. (c, False)) (collect_child_ids threads current) @ (current, True) # stack, delete_order), threads, origin,
      visited, (current, expanded) # stack, delete_order) \<in> ?m"
    unfolding in_measures split_conv by (rule disjI1)
qed simp

definition delete_thread_with_strategy ::
  "u64 \<Rightarrow> string \<Rightarrow> ChildThreadDeleteStrategy \<Rightarrow> ('v, 'p, 's) InMemoryStore \<Rightarrow> (unit, 'v, 'p, 's) store_method" where
  "delete_thread_with_strategy now t strategy st =
     (if map_of (im_threads st) t = None then (Err (NotFound t), st)
      else case strategy of
          Reject \<Rightarrow>
            if collect_child_ids (im_threads st) t \<noteq> []
            then (Err (Validation (''thread '' @ quoted t @ '' has child threads; choose '' @ quoted ''detach'' @ '' or '' @ quoted ''cascade'')), st)
            else (Ok (), remove_thread t st)
        | Detach \<Rightarrow>
            (Ok (), remove_thread t (st\<lparr>im_threads :=
               foldl (\<lambda>threads c. detach_child now c threads) (im_threads st) (collect_child_ids (im_threads st) t)\<rparr>))
        | Cascade \<Rightarrow>
            (case cascade_order (im_threads st) t {} [(t, False)] [] of
               Ok order \<Rightarrow> (Ok (), foldl (\<lambda>s i. remove_thread i s) st order)
             | Err e \<Rightarrow> (Err e, st)
             | Panic p \<Rightarrow> (Panic p, st)))"

text \<open>Most recent activity first, then by id.\<close>

definition activity_key :: "'v Thread \<Rightarrow> int \<times> string" where
  "activity_key t = (- uint (case tm_updated_at (th_metadata t) of Some u \<Rightarrow> u
     | None \<Rightarrow> (case tm_created_at (th_metadata t) of Some c \<Rightarrow> c | None \<Rightarrow> 0)), th_id t)"

definition sort_threads_by_recent_activity :: "'v Thread list \<Rightarrow> 'v Thread list" where
  "sort_threads_by_recent_activity = sort_key activity_key"

definition list_threads :: "nat \<Rightarrow> nat \<Rightarrow> ('v, 'p, 's) InMemoryStore \<Rightarrow> string list" where
  "list_threads offset limit st =
     map th_id (take limit (drop offset (sort_threads_by_recent_activity (hm_values (im_threads st)))))"

definition update_thread_metadata ::
  "string \<Rightarrow> 'v ThreadMetadata \<Rightarrow> ('v, 'p, 's) InMemoryStore \<Rightarrow> (unit, 'v, 'p, 's) store_method" where
  "update_thread_metadata t metadata st =
     (case map_of (im_threads st) t of
        None \<Rightarrow> (Err (NotFound t), st)
      | Some thread \<Rightarrow> (Ok (), st\<lparr>im_threads := AList.update t (thread\<lparr>th_metadata := metadata\<rparr>) (im_threads st)\<rparr>))"

section \<open>Message methods\<close>

text \<open>The message validators return their text; the store wraps it.\<close>

fun as_storage :: "('a, string) outcome \<Rightarrow> 'a validated" where
  "as_storage (Ok x) = Ok x"
| "as_storage (Err e) = Err (Validation e)"
| "as_storage (Panic p) = Panic p"

lemma as_storage_Ok [simp]: "as_storage r = Ok x \<longleftrightarrow> r = Ok x"
  by (cases r) auto

definition validate_committed_messages :: "'v Message list \<Rightarrow> unit validated" where
  "validate_committed_messages ms = as_storage (validate_append_only_delta [] ms)"

definition load_committed_messages :: "string \<Rightarrow> ('v, 'p, 's) InMemoryStore \<Rightarrow> 'v Message list option validated" where
  "load_committed_messages t st =
     (case map_of (im_messages st) t of None \<Rightarrow> Ok None
      | Some ms \<Rightarrow> map_ok (\<lambda>_. Some ms) (validate_committed_messages ms))"

definition load_messages :: "string \<Rightarrow> ('v, 'p, 's) InMemoryStore \<Rightarrow> 'v Message list option validated" where
  "load_messages t st = map_ok (map_option strip_unpaired_tool_calls_from_view) (load_committed_messages t st)"

definition save_messages :: "string \<Rightarrow> 'v Message list \<Rightarrow> ('v, 'p, 's) InMemoryStore \<Rightarrow> (unit, 'v, 'p, 's) store_method" where
  "save_messages t ms st =
     (case validate_committed_messages ms of
        Ok _ \<Rightarrow> (Ok (), st\<lparr>im_messages := AList.update t ms (im_messages st)\<rparr>)
      | Err e \<Rightarrow> (Err e, st)
      | Panic p \<Rightarrow> (Panic p, st))"

text \<open>Where a method looks a log up with \<open>entry(..).or_default()\<close>, an absent log becomes an empty one.\<close>

definition or_default :: "string \<Rightarrow> (string, 'a list) hash_map \<Rightarrow> (string, 'a list) hash_map" where
  "or_default t m = (case map_of m t of None \<Rightarrow> AList.update t [] m | Some _ \<Rightarrow> m)"

definition numbered :: "(nat \<Rightarrow> string) \<Rightarrow> string \<Rightarrow> u64 \<Rightarrow> 'v Message list \<Rightarrow> 'v MessageRecord list" where
  "numbered fresh t start ms = map (\<lambda>(i, m). from_message (fresh i) t (start + of_nat i) m) (enumerate 0 ms)"

definition append_message_records ::
  "(nat \<Rightarrow> string) \<Rightarrow> string \<Rightarrow> 'v Message list \<Rightarrow> ('v, 'p, 's) InMemoryStore \<Rightarrow> ('v MessageRecord list, 'v, 'p, 's) store_method" where
  "append_message_records fresh t ms st =
     (let st1 = st\<lparr>im_messages := or_default t (im_messages st)\<rparr>;
          existing = committed_log st1 t
      in case as_storage (validate_append_only_delta existing ms) of
           Ok _ \<Rightarrow> (Ok (numbered fresh t (of_nat (length existing) + 1) ms),
             st1\<lparr>im_messages := AList.update t (existing @ ms) (im_messages st1)\<rparr>)
         | Err e \<Rightarrow> (Err e, st1)
         | Panic p \<Rightarrow> (Panic p, st1))"

definition delete_messages :: "string \<Rightarrow> ('v, 'p, 's) InMemoryStore \<Rightarrow> (unit, 'v, 'p, 's) store_method" where
  "delete_messages t st =
     (if map_of (im_threads st) t = None then (Err (NotFound t), st)
      else (Ok (), st\<lparr>im_messages := AList.delete t (im_messages st)\<rparr>))"

section \<open>Run methods\<close>

definition insert_run :: "'v RunRecord \<Rightarrow> ('v, 'p, 's) InMemoryStore \<Rightarrow> ('v, 'p, 's) InMemoryStore" where
  "insert_run run st = st\<lparr>im_runs := AList.update (rr_run_id run) run (im_runs st),
     im_run_insertion := AList.update (rr_run_id run) (im_run_seq st) (im_run_insertion st),
     im_run_seq := im_run_seq st + 1\<rparr>"

definition create_run :: "'v RunRecord \<Rightarrow> ('v, 'p, 's) InMemoryStore \<Rightarrow> (unit, 'v, 'p, 's) store_method" where
  "create_run run st =
     (case RunRecord_validate_for_persist run of
        Ok _ \<Rightarrow> if map_of (im_runs st) (rr_run_id run) \<noteq> None then (Err (AlreadyExists (rr_run_id run)), st)
          else (Ok (), insert_run run st)
      | Err e \<Rightarrow> (Err e, st)
      | Panic p \<Rightarrow> (Panic p, st))"

definition load_run :: "string \<Rightarrow> ('v, 'p, 's) InMemoryStore \<Rightarrow> 'v RunRecord option" where
  "load_run r st = map_of (im_runs st) r"

text \<open>\<open>max_by_key\<close> keeps the last of the greatest elements of the iteration order.\<close>

definition latest_run :: "string \<Rightarrow> ('v, 'p, 's) InMemoryStore \<Rightarrow> 'v RunRecord option" where
  "latest_run t st =
     (let key = (\<lambda>r. (rr_updated_at r, case map_of (im_run_insertion st) (rr_run_id r) of None \<Rightarrow> 0 | Some n \<Rightarrow> n))
      in foldl (\<lambda>best r. case best of None \<Rightarrow> Some r | Some b \<Rightarrow> if key r < key b then Some b else Some r) None
           (filter (\<lambda>r. rr_thread_id r = t) (hm_values (im_runs st))))"

text \<open>
  The part of a checkpoint that all checkpointing methods share: the checks in front, and the thread
  projection and the run record written at the end.
\<close>

definition checkpoint_checks :: "string \<Rightarrow> 'v RunRecord \<Rightarrow> ('v, 'p, 's) InMemoryStore \<Rightarrow> unit validated" where
  "checkpoint_checks t run st =
     validate_thread_hierarchy_map (im_threads st) t (checkpoint_parent_thread_id (map_of (im_threads st) t) run)"

definition project_run :: "u64 \<Rightarrow> string \<Rightarrow> 'v RunRecord \<Rightarrow> ('v, 'p, 's) InMemoryStore \<Rightarrow> ('v, 'p, 's) InMemoryStore" where
  "project_run now t run st =
     (let thread = (case map_of (im_threads st) t of None \<Rightarrow> Thread_with_id t | Some th \<Rightarrow> th)
      in insert_run run (st\<lparr>im_threads := AList.update t
           (normalize_lineage (apply_run_projection run (touch now thread))) (im_threads st)\<rparr>))"

definition checkpoint ::
  "u64 \<Rightarrow> string \<Rightarrow> 'v Message list \<Rightarrow> 'v RunRecord \<Rightarrow> ('v, 'p, 's) InMemoryStore \<Rightarrow> (unit, 'v, 'p, 's) store_method" where
  "checkpoint now t ms run st =
     (case first_error [RunRecord_validate_for_persist run, validate_committed_messages ms, checkpoint_checks t run st] of
        Ok _ \<Rightarrow> (Ok (), project_run now t run (st\<lparr>im_messages := AList.update t ms (im_messages st)\<rparr>))
      | Err e \<Rightarrow> (Err e, st)
      | Panic p \<Rightarrow> (Panic p, st))"

definition merge_and_project ::
  "u64 \<Rightarrow> string \<Rightarrow> 'v Message list \<Rightarrow> 'v RunRecord \<Rightarrow> ('v, 'p, 's) InMemoryStore \<Rightarrow> (u64, 'v, 'p, 's) store_method" where
  "merge_and_project now t ms run st =
     (let st1 = st\<lparr>im_messages := or_default t (im_messages st)\<rparr>;
          (merged, log) = merge_checkpoint_append_messages (committed_log st1 t) ms
      in case as_storage merged of
           Ok _ \<Rightarrow> (Ok (of_nat (length log)), project_run now t run (st1\<lparr>im_messages := AList.update t log (im_messages st1)\<rparr>))
         | Err e \<Rightarrow> (Err e, st1)
         | Panic p \<Rightarrow> (Panic p, st1))"

definition store_checkpoint_append ::
  "u64 \<Rightarrow> string \<Rightarrow> 'v Message list \<Rightarrow> u64 option \<Rightarrow> 'v RunRecord \<Rightarrow> ('v, 'p, 's) InMemoryStore \<Rightarrow> (u64, 'v, 'p, 's) store_method" where
  "store_checkpoint_append now t ms expected_version run st =
     (case first_error [RunRecord_validate_for_persist run, checkpoint_checks t run st] of
        Ok _ \<Rightarrow>
          (case expected_version of
             Some expected \<Rightarrow> if expected \<noteq> of_nat (length (committed_log st t))
               then (Err (VersionConflict expected (of_nat (length (committed_log st t)))), st)
               else merge_and_project now t ms run st
           | None \<Rightarrow> merge_and_project now t ms run st)
      | Err e \<Rightarrow> (Err e, st)
      | Panic p \<Rightarrow> (Panic p, st))"

end
