(* ===== verification/Thread_Laws.thy ===== *)
theory Thread_Laws
  imports Thread_Store
begin

text \<open>
  The hierarchy of threads stays a forest under every method that checks it, and a cascading deletion
  removes exactly a subtree.
\<close>

declare cascade_order.simps [simp del]

lemma normalize_lineage_id_None [simp]: "normalize_lineage_id None = None"
  by (simp add: normalize_lineage_id_def)

section \<open>The hierarchy as a relation\<close>

definition parent_of :: "(string, 'v Thread) hash_map \<Rightarrow> string \<Rightarrow> string option" where
  "parent_of threads k = Option.bind (map_of threads k) (\<lambda>t. normalize_lineage_id (th_parent_thread_id t))"

definition hierarchy :: "(string, 'v Thread) hash_map \<Rightarrow> (string \<times> string) set" where
  "hierarchy threads = {(k, p). parent_of threads k = Some p}"

definition descendants :: "(string, 'v Thread) hash_map \<Rightarrow> string \<Rightarrow> string set" where
  "descendants threads t = {k. (k, t) \<in> (hierarchy threads)\<^sup>*}"

text \<open>Threads are stored under their own id with a normal parent id, and no thread is its own ancestor.\<close>

definition forest :: "(string, 'v Thread) hash_map \<Rightarrow> bool" where
  "forest threads \<longleftrightarrow> hm_keys_distinct threads \<and> acyclic (hierarchy threads) \<and>
     list_all (\<lambda>(k, t). th_id t = k \<and> normalize_lineage_id (th_parent_thread_id t) = th_parent_thread_id t) threads"

lemma forest_entry:
  "forest threads \<Longrightarrow> map_of threads k = Some t \<Longrightarrow>
   th_id t = k \<and> normalize_lineage_id (th_parent_thread_id t) = th_parent_thread_id t"
  by (auto simp: forest_def list_all_iff dest: map_of_SomeD)

lemma single_valued_hierarchy: "single_valued (hierarchy threads)"
  by (auto simp: single_valued_def hierarchy_def)

lemma finite_hierarchy: "finite (hierarchy threads)"
proof (rule finite_subset)
  show "hierarchy threads \<subseteq> (\<lambda>k. (k, the (parent_of threads k))) ` set (map fst threads)"
    by (force simp: hierarchy_def parent_of_def bind_eq_Some_conv dest: map_of_SomeD)
qed simp

lemma hierarchy_walk_Ok:
  "hierarchy_walk threads origin root_parent current visited = Ok u \<Longrightarrow> v \<in> visited \<Longrightarrow> (current, v) \<notin> (hierarchy threads)\<^sup>*"
proof (induction threads origin root_parent current visited arbitrary: v rule: hierarchy_walk.induct)
  case (1 threads origin root_parent current visited)
  from "1.prems" obtain t where t: "current \<notin> visited" "map_of threads current = Some t"
    by (auto simp: hierarchy_walk.simps [of threads origin root_parent current] split: if_splits option.splits)
  have parent: "(current, q) \<in> hierarchy threads \<longleftrightarrow> normalize_lineage_id (th_parent_thread_id t) = Some q" for q
    using t(2) by (simp add: hierarchy_def parent_of_def)
  show ?case
  proof
    assume r: "(current, v) \<in> (hierarchy threads)\<^sup>*"
    have "current \<noteq> v" using t(1) "1.prems"(2) by blast
    with r obtain q where q: "(current, q) \<in> hierarchy threads" "(q, v) \<in> (hierarchy threads)\<^sup>*"
      by (meson converse_rtranclE)
    then have nx: "normalize_lineage_id (th_parent_thread_id t) = Some q" using parent by simp
    then have "hierarchy_walk threads origin root_parent q (insert current visited) = Ok u"
      using "1.prems"(1) t by (simp add: hierarchy_walk.simps [of threads origin root_parent current])
    then show False using "1.IH" [OF t nx, of v] "1.prems"(2) q(2) by blast
  qed
qed

lemma validate_hierarchy_Ok:
  "validate_thread_hierarchy_map threads origin parent = Ok u \<Longrightarrow> normalize_lineage_id parent = Some p \<Longrightarrow>
   (p, origin) \<notin> (hierarchy threads)\<^sup>*"
  by (auto simp: validate_thread_hierarchy_map_def split: if_splits dest: hierarchy_walk_Ok)

lemma hierarchy_update:
  "hierarchy (AList.update k t threads) \<subseteq>
   hierarchy threads \<union> (case normalize_lineage_id (th_parent_thread_id t) of None \<Rightarrow> {} | Some p \<Rightarrow> {(k, p)})"
  by (auto simp: hierarchy_def parent_of_def update_conv' split: if_splits option.splits)

lemma forest_update:
  assumes "forest threads" and "th_id t = k" and "normalize_lineage_id (th_parent_thread_id t) = th_parent_thread_id t"
    and "\<And>p. th_parent_thread_id t = Some p \<Longrightarrow> (p, k) \<notin> (hierarchy threads)\<^sup>*"
  shows "forest (AList.update k t threads)"
proof -
  have "acyclic (hierarchy threads \<union> (case th_parent_thread_id t of None \<Rightarrow> {} | Some p \<Rightarrow> {(k, p)}))"
    using assms(1,4) by (auto simp: forest_def acyclic_insert split: option.splits)
  then have "acyclic (hierarchy (AList.update k t threads))"
    using hierarchy_update [of k t threads] assms(3) by (auto intro: acyclic_subset)
  moreover have d: "hm_keys_distinct (AList.update k t threads)" using assms(1) by (simp add: forest_def distinct_update)
  moreover have "list_all (\<lambda>(k, t). th_id t = k \<and>
      normalize_lineage_id (th_parent_thread_id t) = th_parent_thread_id t) (AList.update k t threads)"
    unfolding list_all_hm_iff [OF d] using assms(2,3) forest_entry [OF assms(1)] by simp
  ultimately show ?thesis by (simp add: forest_def)
qed

lemma forest_delete: "forest threads \<Longrightarrow> forest (AList.delete k threads)"
proof -
  assume f: "forest threads"
  have "hierarchy (AList.delete k threads) \<subseteq> hierarchy threads"
    by (auto simp: hierarchy_def parent_of_def delete_conv' split: if_splits)
  moreover have d: "hm_keys_distinct (AList.delete k threads)" using f by (simp add: forest_def distinct_delete)
  moreover have "list_all (\<lambda>(k, t). th_id t = k \<and>
      normalize_lineage_id (th_parent_thread_id t) = th_parent_thread_id t) (AList.delete k threads)"
    unfolding list_all_hm_iff [OF d] using forest_entry [OF f] by (simp add: map_of_delete_if)
  ultimately show ?thesis using f by (auto simp: forest_def intro: acyclic_subset)
qed

text \<open>A projection keeps the id of a thread and gives it no other parent than the one that was checked.\<close>

lemma projected_thread:
  "th_id (normalize_lineage (apply_run_projection run (touch now t))) = th_id t"
  "normalize_lineage_id (th_parent_thread_id (normalize_lineage t')) = th_parent_thread_id (normalize_lineage t')"
  "th_parent_thread_id (normalize_lineage (apply_run_projection run (touch now t))) \<in>
     {None, normalize_lineage_id (case th_parent_thread_id t of Some p \<Rightarrow> Some p | None \<Rightarrow> rr_request_parent_thread_id run)}"
  by (auto simp: normalize_lineage_def apply_run_projection_def touch_def clear_run_projection_if_matches_def Let_def
      split: RunStatus.splits option.splits)

lemma forest_project:
  assumes "forest (im_threads st)" and "checkpoint_checks t run st = Ok u"
    and "im_threads st' = im_threads st"
  shows "forest (im_threads (project_run now t run st'))"
proof -
  let ?old = "case map_of (im_threads st) t of None \<Rightarrow> Thread_with_id t | Some th \<Rightarrow> th"
  have "forest (AList.update t (normalize_lineage (apply_run_projection run (touch now ?old))) (im_threads st))"
  proof (rule forest_update [OF assms(1)])
    show "th_id (normalize_lineage (apply_run_projection run (touch now ?old))) = t"
      using forest_entry [OF assms(1)] by (auto simp: projected_thread Thread_with_id_def split: option.splits)
    fix p
    assume p: "th_parent_thread_id (normalize_lineage (apply_run_projection run (touch now ?old))) = Some p"
    have "(case th_parent_thread_id ?old of Some p \<Rightarrow> Some p | None \<Rightarrow> rr_request_parent_thread_id run) =
        checkpoint_parent_thread_id (map_of (im_threads st) t) run"
      by (auto simp: checkpoint_parent_thread_id_def Thread_with_id_def split: option.splits)
    then have "normalize_lineage_id (checkpoint_parent_thread_id (map_of (im_threads st) t) run) = Some p"
      using projected_thread(3) [of run now ?old] p by simp
    then show "(p, t) \<notin> (hierarchy (im_threads st))\<^sup>*"
      using assms(2) validate_hierarchy_Ok by (auto simp: checkpoint_checks_def)
  qed (rule projected_thread(2))
  then show ?thesis by (simp add: project_run_def insert_run_def assms(3) Let_def)
qed

section \<open>Cascading deletion\<close>

lemma set_collect_child_ids:
  assumes "forest threads"
  shows "set (collect_child_ids threads n) = {k. (k, n) \<in> hierarchy threads}" and "distinct (collect_child_ids threads n)"
proof -
  have d: "hm_keys_distinct threads" using assms by (simp add: forest_def)
  show "set (collect_child_ids threads n) = {k. (k, n) \<in> hierarchy threads}"
  proof (intro equalityI subsetI)
    fix k assume "k \<in> set (collect_child_ids threads n)"
    then obtain t where "t \<in> set (hm_values threads)" and n: "th_parent_thread_id t = Some n" "th_id t = k"
      by (auto simp: collect_child_ids_def)
    then obtain k' where t: "map_of threads k' = Some t" using hm_values_iff [OF d] by blast
    then show "k \<in> {k. (k, n) \<in> hierarchy threads}"
      using forest_entry [OF assms t] n by (simp add: hierarchy_def parent_of_def)
  next
    fix k assume "k \<in> {k. (k, n) \<in> hierarchy threads}"
    then obtain t where t: "map_of threads k = Some t" "normalize_lineage_id (th_parent_thread_id t) = Some n"
      by (auto simp: hierarchy_def parent_of_def bind_eq_Some_conv)
    then have "t \<in> set (hm_values threads)" using hm_values_iff [OF d] by blast
    then show "k \<in> set (collect_child_ids threads n)"
      using forest_entry [OF assms t(1)] t(2) by (auto simp: collect_child_ids_def)
  qed
  have "map th_id (hm_values threads) = map fst threads"
    using assms by (auto simp: forest_def list_all_iff)
  then have "distinct (map th_id (hm_values threads))" using d by metis
  then show "distinct (collect_child_ids threads n)"
    unfolding collect_child_ids_def distinct_sort by (rule distinct_map_filter)
qed

lemma descendants_children:
  "descendants threads n = insert n (\<Union>c \<in> {k. (k, n) \<in> hierarchy threads}. descendants threads c)"
  by (auto simp: descendants_def intro: rtrancl_into_rtrancl elim: rtranclE)

lemma descendants_apart:
  assumes "acyclic (hierarchy threads)" and "(c, n) \<in> hierarchy threads" and "(c', n) \<in> hierarchy threads" and "c \<noteq> c'"
  shows "descendants threads c \<inter> descendants threads c' = {}"
proof -
  have up: False if ab: "(a, b) \<in> (hierarchy threads)\<^sup>*" and ne: "a \<noteq> b"
    and an: "(a, n) \<in> hierarchy threads" and bn: "(b, n) \<in> hierarchy threads" for a b
  proof -
    obtain q where q: "(a, q) \<in> hierarchy threads" "(q, b) \<in> (hierarchy threads)\<^sup>*"
      using ab ne by (meson converse_rtranclE)
    then have "(n, b) \<in> (hierarchy threads)\<^sup>*" using single_valuedD [OF single_valued_hierarchy q(1) an] by simp
    then show False using assms(1) bn by (meson acyclic_def rtrancl_into_trancl1)
  qed
  show "descendants threads c \<inter> descendants threads c' = {}"
    using single_valued_confluent [OF single_valued_hierarchy, of _ c threads c'] up [of c c'] up [of c' c] assms(2-4)
    by (auto simp: descendants_def)
qed

definition walks :: "(string, 'v Thread) hash_map \<Rightarrow> string \<Rightarrow> string list \<Rightarrow> string set \<Rightarrow> bool" where
  "walks threads origin ns D \<longleftrightarrow> (\<exists>os. set os = D \<and> (\<forall>visited stack order. visited \<inter> D = {} \<longrightarrow>
     cascade_order threads origin visited (map (\<lambda>n. (n, False)) ns @ stack) order =
     cascade_order threads origin (visited \<union> D) stack (order @ os)))"

lemma walks_Nil: "walks threads origin [] {}"
  unfolding walks_def by (intro exI [of _ "[]"]) simp

lemma walks_Cons:
  assumes "walks threads origin [n] D" and "walks threads origin ns E" and "D \<inter> E = {}"
  shows "walks threads origin (n # ns) (D \<union> E)"
proof -
  obtain os where os: "set os = D" "\<And>visited stack order. visited \<inter> D = {} \<Longrightarrow>
      cascade_order threads origin visited ((n, False) # stack) order = cascade_order threads origin (visited \<union> D) stack (order @ os)"
    using assms(1) by (auto simp: walks_def)
  obtain os' where os': "set os' = E" "\<And>visited stack order. visited \<inter> E = {} \<Longrightarrow>
      cascade_order threads origin visited (map (\<lambda>n. (n, False)) ns @ stack) order =
      cascade_order threads origin (visited \<union> E) stack (order @ os')"
    using assms(2) by (auto simp: walks_def)
  show ?thesis
    unfolding walks_def
  proof (intro exI [of _ "os @ os'"] conjI allI impI)
    fix visited :: "string set" and stack order
    assume v: "visited \<inter> (D \<union> E) = {}"
    then have "visited \<inter> D = {}" "(visited \<union> D) \<inter> E = {}" using assms(3) by auto
    then show "cascade_order threads origin visited (map (\<lambda>n. (n, False)) (n # ns) @ stack) order =
        cascade_order threads origin (visited \<union> (D \<union> E)) stack (order @ os @ os')"
      by (simp add: os(2) os'(2) Un_assoc)
  qed (simp add: os os')
qed

lemma walks_subtree:
  assumes "forest threads"
  shows "walks threads origin [n] (descendants threads n)"
proof -
  have ac: "acyclic (hierarchy threads)" using assms by (simp add: forest_def)
  have "wf (hierarchy threads)" using finite_acyclic_wf finite_hierarchy ac by blast
  then show ?thesis
  proof (induction n)
    case (less n)
    have children: "walks threads origin cs (\<Union>c \<in> set cs. descendants threads c)"
      if "distinct cs" "set cs \<subseteq> {k. (k, n) \<in> hierarchy threads}" for cs
      using that
    proof (induction cs)
      case (Cons c cs)
      have "descendants threads c \<inter> (\<Union>c \<in> set cs. descendants threads c) = {}"
        using descendants_apart [OF ac, of c n] Cons.prems by fastforce
      then show ?case using walks_Cons [OF less.IH [of c] Cons.IH] Cons.prems by simp
    qed (simp add: walks_Nil)
    let ?D = "\<Union>c \<in> {k. (k, n) \<in> hierarchy threads}. descendants threads c"
    have "walks threads origin (collect_child_ids threads n) ?D"
      using children [OF set_collect_child_ids(2) [OF assms]] set_collect_child_ids(1) [OF assms] by simp
    then obtain os where os: "set os = ?D" "\<And>visited stack order. visited \<inter> ?D = {} \<Longrightarrow>
        cascade_order threads origin visited (map (\<lambda>n. (n, False)) (collect_child_ids threads n) @ stack) order =
        cascade_order threads origin (visited \<union> ?D) stack (order @ os)"
      by (auto simp: walks_def)
    have n: "n \<notin> ?D" using ac by (auto simp: descendants_def acyclic_def dest: rtrancl_into_trancl1)
    show ?case
      unfolding walks_def descendants_children [of threads n]
    proof (intro exI [of _ "os @ [n]"] conjI allI impI)
      fix visited :: "string set" and stack order
      assume v: "visited \<inter> insert n ?D = {}"
      then have "n \<notin> visited" "insert n visited \<inter> ?D = {}" using n by auto
      then show "cascade_order threads origin visited (map (\<lambda>n. (n, False)) [n] @ stack) order =
          cascade_order threads origin (visited \<union> insert n ?D) stack (order @ os @ [n])"
        by (simp add: os(2) cascade_order.simps)
    qed (simp add: os)
  qed
qed

lemma cascade_order_forest:
  assumes "forest threads"
  obtains order where "cascade_order threads origin {} [(t, False)] [] = Ok order" "set order = descendants threads t"
proof -
  obtain os where "set os = descendants threads t" "cascade_order threads origin {} (map (\<lambda>n. (n, False)) [t] @ []) [] =
      cascade_order threads origin ({} \<union> descendants threads t) [] ([] @ os)"
    using walks_subtree [OF assms, of origin t] unfolding walks_def by blast
  with that show thesis by (simp add: cascade_order.simps)
qed


lemma remove_threads:
  "map_of (im_threads (foldl (\<lambda>s i. remove_thread i s) st ks)) = map_of (im_threads st) |` (- set ks)"
  "map_of (im_messages (foldl (\<lambda>s i. remove_thread i s) st ks)) = map_of (im_messages st) |` (- set ks)"
  "map_of (im_pending_messages (foldl (\<lambda>s i. remove_thread i s) st ks)) = map_of (im_pending_messages st) |` (- set ks)"
  "im_runs (foldl (\<lambda>s i. remove_thread i s) st ks) = im_runs st"
  by (induction ks arbitrary: st)
    (auto simp: remove_thread_def delete_conv' restrict_map_def fun_eq_iff)

text \<open>
  C19: A cascading deletion of a thread in a store whose threads form a forest succeeds, and removes the
  threads, message logs and pending messages of exactly that thread and its descendants; every other
  thread keeps what it had, and no run record is touched.
\<close>

theorem cascade_deletes_subtree:
  assumes "forest (im_threads st)" and "load_thread t st \<noteq> None"
  shows "\<exists>st'. delete_thread_with_strategy now t Cascade st = (Ok (), st') \<and>
    map_of (im_threads st') = map_of (im_threads st) |` (- descendants (im_threads st) t) \<and>
    map_of (im_messages st') = map_of (im_messages st) |` (- descendants (im_threads st) t) \<and>
    map_of (im_pending_messages st') = map_of (im_pending_messages st) |` (- descendants (im_threads st) t) \<and>
    im_runs st' = im_runs st"
proof -
  obtain order where "cascade_order (im_threads st) t {} [(t, False)] [] = Ok order"
    and "set order = descendants (im_threads st) t"
    using cascade_order_forest [OF assms(1)] .
  then show ?thesis
    using assms(2) by (simp add: delete_thread_with_strategy_def load_thread_def remove_threads)
qed

definition three_threads :: "(unit, unit, unit) InMemoryStore" where
  "three_threads = InMemoryStore_new\<lparr>im_threads :=
     [(''b'', (Thread_with_id ''b'')\<lparr>th_parent_thread_id := Some ''a''\<rparr>), (''a'', Thread_with_id ''a''),
      (''c'', (Thread_with_id ''c'')\<lparr>th_parent_thread_id := Some ''b''\<rparr>), (''d'', Thread_with_id ''d'')]\<rparr>"

lemma forest_three_threads: "forest (im_threads three_threads)"
proof -
  have "hierarchy (im_threads three_threads) = {(''b'', ''a''), (''c'', ''b'')}"
    by (auto simp: hierarchy_def parent_of_def three_threads_def Thread_with_id_def normalize_lineage_id_def trim_def
        is_whitespace_def split: if_splits)
  moreover have "acyclic {(''b'', ''a''), (''c'', ''b'')}"
    by (auto simp: acyclic_insert acyclic_def [of "{}"] elim: converse_rtranclE)
  moreover have "hm_keys_distinct (im_threads three_threads)"
    and "list_all (\<lambda>(k, t). th_id t = k \<and> normalize_lineage_id (th_parent_thread_id t) = th_parent_thread_id t)
      (im_threads three_threads)" by code_simp+
  ultimately show ?thesis by (simp only: forest_def simp_thms)
qed

lemma cascade_deletes_subtree_witness:
  "map_of (im_threads (snd (delete_thread_with_strategy 0 ''b'' Cascade three_threads))) =
   map_of (im_threads three_threads) |` (- descendants (im_threads three_threads) ''b'')"
  using cascade_deletes_subtree [OF forest_three_threads, of "''b''" 0]
  by (auto simp: load_thread_def three_threads_def)

text \<open>The persisted state of a thread outlives its deletion with a strategy; the plain deletion removes it.\<close>

lemma deleted_thread_state_stays:
  "load_thread_state k (snd (delete_thread_with_strategy now t strategy st)) = load_thread_state k st"
  "load_thread_state t (snd (delete_thread t st)) = None"
proof -
  have "im_thread_states (foldl (\<lambda>s i. remove_thread i s) st ks) = im_thread_states st" for ks
    by (induction ks arbitrary: st) (simp_all add: remove_thread_def)
  then show "load_thread_state k (snd (delete_thread_with_strategy now t strategy st)) = load_thread_state k st"
    by (auto simp: load_thread_state_def delete_thread_with_strategy_def remove_thread_def
        split: outcome.split ChildThreadDeleteStrategy.split)
  show "load_thread_state t (snd (delete_thread t st)) = None"
    by (simp add: load_thread_state_def delete_thread_def map_of_delete_if)
qed

section \<open>Every checked method keeps the forest\<close>

lemma forest_new: "forest (im_threads InMemoryStore_new)"
  by (simp add: forest_def InMemoryStore_new_def hierarchy_def parent_of_def acyclic_def)

lemma forest_save_thread_validated:
  assumes "forest (im_threads st)"
  shows "forest (im_threads (snd (save_thread_validated thread st)))"
proof (cases "and_then (Thread_validate_for_persist (normalize_lineage thread)) (\<lambda>_.
    validate_thread_hierarchy_map (im_threads st) (th_id (normalize_lineage thread))
      (th_parent_thread_id (normalize_lineage thread)))")
  case (Ok u)
  then have h: "validate_thread_hierarchy_map (im_threads st) (th_id (normalize_lineage thread))
      (th_parent_thread_id (normalize_lineage thread)) = Ok u"
    by (auto simp: and_then_eq_Ok_iff)
  have "forest (AList.update (th_id (normalize_lineage thread)) (normalize_lineage thread) (im_threads st))"
  proof (rule forest_update [OF assms refl projected_thread(2)])
    fix p
    assume "th_parent_thread_id (normalize_lineage thread) = Some p"
    then show "(p, th_id (normalize_lineage thread)) \<notin> (hierarchy (im_threads st))\<^sup>*"
      using projected_thread(2) [of thread] by (intro validate_hierarchy_Ok [OF h]) simp
  qed
  with Ok show ?thesis by (simp add: save_thread_validated_def Let_def)
qed (use assms in \<open>simp_all add: save_thread_validated_def Let_def\<close>)

lemma forest_update_metadata:
  assumes "forest (im_threads st)"
  shows "forest (im_threads (snd (update_thread_metadata t md st)))"
proof (cases "map_of (im_threads st) t")
  case (Some th)
  have "forest (AList.update t (th\<lparr>th_metadata := md\<rparr>) (im_threads st))"
  proof (rule forest_update [OF assms])
    fix p
    assume "th_parent_thread_id (th\<lparr>th_metadata := md\<rparr>) = Some p"
    then have "(t, p) \<in> hierarchy (im_threads st)"
      using forest_entry [OF assms Some] Some by (simp add: hierarchy_def parent_of_def)
    then show "(p, t) \<notin> (hierarchy (im_threads st))\<^sup>*"
      using assms by (auto simp: forest_def acyclic_def dest: rtrancl_into_trancl2)
  qed (use forest_entry [OF assms Some] in simp_all)
  with Some show ?thesis by (simp add: update_thread_metadata_def)
qed (use assms in \<open>simp add: update_thread_metadata_def\<close>)

lemma forest_detach_child: "forest threads \<Longrightarrow> forest (detach_child now c threads)"
  unfolding detach_child_def Let_def
  by (auto simp: normalize_lineage_def split: option.splits intro!: forest_update dest: forest_entry)

lemma foldl_keeps: "P st \<Longrightarrow> (\<And>s i. P s \<Longrightarrow> P (g s i)) \<Longrightarrow> P (foldl g st ks)"
  by (induction ks arbitrary: st) auto

lemma forest_delete_with_strategy:
  assumes "forest (im_threads st)"
  shows "forest (im_threads (snd (delete_thread_with_strategy now t strategy st)))"
proof (cases strategy)
  case Cascade
  have "forest (im_threads (foldl (\<lambda>s i. remove_thread i s) st order))" for order
    using assms by (rule foldl_keeps [where P = "\<lambda>s. forest (im_threads s)"]) (simp add: remove_thread_def forest_delete)
  then show ?thesis
    using assms Cascade by (auto simp: delete_thread_with_strategy_def split: outcome.splits)
next
  case Detach
  have "forest (foldl (\<lambda>threads c. detach_child now c threads) (im_threads st) cs)" for cs
    using assms by (rule foldl_keeps [where P = forest]) (rule forest_detach_child)
  then show ?thesis
    using assms Detach by (simp add: delete_thread_with_strategy_def remove_thread_def forest_delete)
qed (use assms in \<open>simp add: delete_thread_with_strategy_def remove_thread_def forest_delete\<close>)

end
