(* ===== verification/Pending_Queue.thy ===== *)
theory Pending_Queue
  imports Thread_Store
begin

text \<open>
  Messages delivered to a thread but not yet consumed by a run: their delivery policy and what a freeze
  selects (\<^verbatim>\<open>contract/message/delivery.rs\<close>), and the pending queue of the in-memory store
  (\<^verbatim>\<open>awaken-stores/src/memory/pending.rs\<close>, \<^verbatim>\<open>awaken-stores/src/pending_message_store.rs\<close>).
  The clock and generated ids are arguments.
\<close>

section \<open>Delivery\<close>

datatype DeliveryBoundary = At_Interrupt | At_NextStep | At_OnNaturalEnd | At_ResumeInput | At_NewRun

fun precedence :: "DeliveryBoundary \<Rightarrow> nat" where
  "precedence At_Interrupt = 0"
| "precedence At_NextStep = 1"
| "precedence At_OnNaturalEnd = 2"
| "precedence At_ResumeInput = 3"
| "precedence At_NewRun = 4"

definition eligible_at :: "DeliveryBoundary \<Rightarrow> DeliveryBoundary \<Rightarrow> bool" where
  "eligible_at b current \<longleftrightarrow>
     (if b = At_ResumeInput \<or> current = At_ResumeInput then b = current else precedence b \<le> precedence current)"

datatype DeliveryGranularity = One | Batch

record DeliveryMode =
  dm_boundary :: DeliveryBoundary
  dm_granularity :: DeliveryGranularity
  dm_barrier :: bool
  dm_target_run_id :: "string option"
  dm_fallback_to_new_run :: bool

definition mode_at :: "DeliveryBoundary \<Rightarrow> DeliveryGranularity \<Rightarrow> DeliveryMode" where
  "mode_at b g = \<lparr>dm_boundary = b, dm_granularity = g, dm_barrier = False, dm_target_run_id = None,
     dm_fallback_to_new_run = True\<rparr>"

definition interrupt_mode :: "DeliveryGranularity \<Rightarrow> DeliveryMode" where
  "interrupt_mode = mode_at At_Interrupt"

definition next_step_mode :: "DeliveryGranularity \<Rightarrow> DeliveryMode" where
  "next_step_mode = mode_at At_NextStep"

definition on_natural_end_mode :: "DeliveryGranularity \<Rightarrow> DeliveryMode" where
  "on_natural_end_mode = mode_at At_OnNaturalEnd"

definition new_run_mode :: "DeliveryGranularity \<Rightarrow> DeliveryMode" where
  "new_run_mode = mode_at At_NewRun"

definition resume_input_mode :: "DeliveryGranularity \<Rightarrow> string \<Rightarrow> DeliveryMode" where
  "resume_input_mode g run = (mode_at At_ResumeInput g)\<lparr>dm_target_run_id := Some run, dm_fallback_to_new_run := False\<rparr>"

definition targeted_to_run :: "DeliveryMode \<Rightarrow> string \<Rightarrow> bool \<Rightarrow> DeliveryMode" where
  "targeted_to_run m run fallback = m\<lparr>dm_target_run_id := Some run, dm_fallback_to_new_run := fallback\<rparr>"

record 'v PendingMessageRecord =
  pm_pending_id :: string
  pm_thread_id :: string
  pm_position :: u64
  pm_message :: "'v Message"
  pm_revision :: u64
  pm_delivery_mode :: DeliveryMode
  pm_created_at :: "u64 option"
  pm_updated_at :: "u64 option"

definition pending_from_message :: "string \<Rightarrow> string \<Rightarrow> u64 \<Rightarrow> 'v Message \<Rightarrow> DeliveryMode \<Rightarrow> 'v PendingMessageRecord" where
  "pending_from_message fresh t pos m mode =
     (let pending_id = (case msg_id m of None \<Rightarrow> fresh | Some i \<Rightarrow> i)
      in \<lparr>pm_pending_id = pending_id, pm_thread_id = t, pm_position = pos,
          pm_message = m\<lparr>msg_id := Some pending_id\<rparr>, pm_revision = 1, pm_delivery_mode = mode,
          pm_created_at = None, pm_updated_at = None\<rparr>)"

text \<open>The FNV hash of ids, positions and revisions.\<close>

unbundle bit_operations_syntax

definition FNV_OFFSET :: u64 where "FNV_OFFSET = 0xcbf29ce484222325"
definition FNV_PRIME :: u64 where "FNV_PRIME = 0x00000100000001b3"

definition fnv_bytes :: "u64 \<Rightarrow> u8 list \<Rightarrow> u64" where
  "fnv_bytes hash bytes = foldl (\<lambda>h b. (h XOR ucast b) * FNV_PRIME) hash bytes"

definition le_bytes :: "u64 \<Rightarrow> u8 list" where
  "le_bytes n = map (\<lambda>i. ucast (drop_bit (8 * i) n)) [0..<8]"

definition pending_queue_revision :: "'v PendingMessageRecord list \<Rightarrow> u64" where
  "pending_queue_revision pending =
     foldl (\<lambda>h r. fnv_bytes (fnv_bytes (fnv_bytes h (as_bytes (pm_pending_id r))) (le_bytes (pm_position r)))
       (le_bytes (pm_revision r))) FNV_OFFSET pending"

section \<open>What a freeze selects\<close>

definition eligible_for_freeze :: "'v PendingMessageRecord \<Rightarrow> DeliveryBoundary \<Rightarrow> string option \<Rightarrow> bool" where
  "eligible_for_freeze entry boundary current_run \<longleftrightarrow>
     (let mode = pm_delivery_mode entry
      in (case dm_target_run_id mode of
            None \<Rightarrow> True
          | Some target \<Rightarrow> if boundary = At_NewRun then dm_fallback_to_new_run mode else Some target = current_run) \<and>
         eligible_at (dm_boundary mode) boundary)"

definition can_skip_ineligible :: "'v PendingMessageRecord \<Rightarrow> DeliveryBoundary \<Rightarrow> bool" where
  "can_skip_ineligible entry boundary \<longleftrightarrow>
     boundary \<noteq> At_NewRun \<and> dm_boundary (pm_delivery_mode entry) = At_NewRun \<or>
     boundary = At_NewRun \<and> dm_boundary (pm_delivery_mode entry) \<noteq> At_NewRun \<and>
       \<not> dm_fallback_to_new_run (pm_delivery_mode entry)"

text \<open>The loop over the indexed entries; \<open>skipped\<close> says whether an entry was passed over.\<close>

fun select_loop ::
  "DeliveryBoundary \<Rightarrow> string option \<Rightarrow> (nat \<times> 'v PendingMessageRecord) list \<Rightarrow> nat list \<Rightarrow> bool \<Rightarrow> nat list" where
  "select_loop boundary current_run [] selected skipped = selected"
| "select_loop boundary current_run ((index, entry) # rest) selected skipped =
     (if \<not> eligible_for_freeze entry boundary current_run then
        if dm_barrier (pm_delivery_mode entry) then selected
        else if can_skip_ineligible entry boundary then select_loop boundary current_run rest selected True
        else selected
      else if dm_barrier (pm_delivery_mode entry) \<and> skipped then selected
      else if selected \<noteq> [] \<and> dm_granularity (pm_delivery_mode entry) = One then selected
      else if dm_barrier (pm_delivery_mode entry) \<or> dm_granularity (pm_delivery_mode entry) = One then selected @ [index]
      else select_loop boundary current_run rest (selected @ [index]) skipped)"

definition select_pending_for_freeze_for_run ::
  "'v PendingMessageRecord list \<Rightarrow> DeliveryBoundary \<Rightarrow> string option \<Rightarrow> nat list" where
  "select_pending_for_freeze_for_run pending boundary current_run =
     select_loop boundary current_run (enumerate 0 pending) [] False"

definition select_pending_for_freeze :: "'v PendingMessageRecord list \<Rightarrow> DeliveryBoundary \<Rightarrow> nat list" where
  "select_pending_for_freeze pending boundary = select_pending_for_freeze_for_run pending boundary None"

section \<open>Checks\<close>

definition pending_text :: "string \<Rightarrow> string \<Rightarrow> string" where
  "pending_text i rest = ''pending message '' @ quoted i @ rest"

definition validate_pending_message_record :: "'v PendingMessageRecord \<Rightarrow> unit validated" where
  "validate_pending_message_record r = first_error
     [unless (blank (pm_pending_id r)) ''pending message id must not be empty'',
      unless (blank (pm_thread_id r)) (pending_text (pm_pending_id r) '' thread id must not be empty''),
      unless (pm_position r = 0) (pending_text (pm_pending_id r) '' position must be 1-based''),
      unless (pm_revision r = 0) (pending_text (pm_pending_id r) '' revision must be 1-based''),
      (case msg_id (pm_message r) of
         None \<Rightarrow> Err (Validation (pending_text (pm_pending_id r) '' must carry message id''))
       | Some i \<Rightarrow> unless (i \<noteq> pm_pending_id r) (pending_text (pm_pending_id r) ('' cannot carry message id '' @ quoted i))),
      as_storage (validate_message_shape (pm_message r) ''pending'')]"

definition validate_pending_message_records :: "'v PendingMessageRecord list \<Rightarrow> unit validated" where
  "validate_pending_message_records rs = first_error (map validate_pending_message_record rs)"

definition normalize_pending_positions :: "'v PendingMessageRecord list \<Rightarrow> 'v PendingMessageRecord list" where
  "normalize_pending_positions pending = map (\<lambda>(i, r). r\<lparr>pm_position := of_nat i + 1\<rparr>) (enumerate 0 pending)"

definition pending_not_found :: "string \<Rightarrow> string \<Rightarrow> StorageError" where
  "pending_not_found t i = NotFound (pending_text i ('' in thread '' @ quoted t))"

definition already_consumed :: "string \<Rightarrow> StorageError" where
  "already_consumed i = Validation (pending_text i '' is already consumed'')"

definition duplicate_pending_id :: "string \<Rightarrow> StorageError" where
  "duplicate_pending_id i = Validation (pending_text i '' already exists'')"

definition selected_pending_ids :: "'v PendingMessageRecord list \<Rightarrow> nat list \<Rightarrow> string list" where
  "selected_pending_ids pending indexes = map (\<lambda>i. pm_pending_id (pending ! i)) indexes"

section \<open>Methods\<close>

type_synonym ('v, 's) pending_store = "('v, 'v PendingMessageRecord, 's) InMemoryStore"
type_synonym ('a, 'v, 's) pending_method = "('a, 'v, 'v PendingMessageRecord, 's) store_method"

definition pending_queue :: "('v, 's) pending_store \<Rightarrow> string \<Rightarrow> 'v PendingMessageRecord list" where
  "pending_queue st t = (case map_of (im_pending_messages st) t of None \<Rightarrow> [] | Some q \<Rightarrow> q)"

definition committed_message_exists :: "('v, 's) pending_store \<Rightarrow> string \<Rightarrow> string \<Rightarrow> bool" where
  "committed_message_exists st t i = list_ex (\<lambda>m. msg_id m = Some i) (committed_log st t)"

definition load_pending_message_records :: "string \<Rightarrow> ('v, 's) pending_store \<Rightarrow> 'v PendingMessageRecord list validated" where
  "load_pending_message_records t st = map_ok (\<lambda>_. pending_queue st t) (validate_pending_message_records (pending_queue st t))"

definition list_threads_with_pending_messages :: "nat \<Rightarrow> string option \<Rightarrow> ('v, 's) pending_store \<Rightarrow> string list" where
  "list_threads_with_pending_messages limit after st =
     (let ids = sort (filter (\<lambda>t. case after of None \<Rightarrow> True | Some cursor \<Rightarrow> cursor < t)
        (map fst (filter (\<lambda>(_, q). q \<noteq> []) (im_pending_messages st))))
      in if 0 < limit then take limit ids else ids)"

text \<open>
  Building and checking the records of delivered messages. \<open>append_pending_message_records\<close> builds all
  records before it checks them, the combined append and freeze checks each as it builds it; the
  outcome is the same. A record is checked on its own, then against the ids seen, then against the log.
\<close>

definition build_pending ::
  "(nat \<Rightarrow> string) \<Rightarrow> u64 \<Rightarrow> string \<Rightarrow> u64 \<Rightarrow> DeliveryMode \<Rightarrow> 'v Message list \<Rightarrow> 'v PendingMessageRecord list" where
  "build_pending fresh now t start mode ms =
     map (\<lambda>(i, m). (pending_from_message (fresh i) t (start + of_nat i) m mode)\<lparr>pm_created_at := Some now, pm_updated_at := Some now\<rparr>)
       (enumerate 0 ms)"

fun check_new_pending :: "'v Message list \<Rightarrow> string list \<Rightarrow> 'v PendingMessageRecord list \<Rightarrow> unit validated" where
  "check_new_pending committed seen [] = Ok ()"
| "check_new_pending committed seen (r # rs) =
     and_then (validate_pending_message_record r) (\<lambda>_.
       if pm_pending_id r \<in> set seen then Err (duplicate_pending_id (pm_pending_id r))
       else if list_ex (\<lambda>m. msg_id m = Some (pm_pending_id r)) committed then Err (already_consumed (pm_pending_id r))
       else check_new_pending committed (pm_pending_id r # seen) rs)"

definition append_pending_message_records ::
  "(nat \<Rightarrow> string) \<Rightarrow> u64 \<Rightarrow> string \<Rightarrow> 'v Message list \<Rightarrow> DeliveryMode \<Rightarrow> ('v, 's) pending_store \<Rightarrow>
   ('v PendingMessageRecord list, 'v, 's) pending_method" where
  "append_pending_message_records fresh now t ms mode st =
     (let st1 = st\<lparr>im_pending_messages := or_default t (im_pending_messages st)\<rparr>;
          pending = pending_queue st1 t;
          records = build_pending fresh (now div 1000) t (of_nat (length pending) + 1) mode ms
      in case check_new_pending (committed_log st t) (map pm_pending_id pending) records of
           Ok _ \<Rightarrow> (Ok records, st1\<lparr>im_pending_messages := AList.update t (pending @ records) (im_pending_messages st1)\<rparr>)
         | Err e \<Rightarrow> (Err e, st1)
         | Panic p \<Rightarrow> (Panic p, st1))"

definition missing_pending :: "('v, 's) pending_store \<Rightarrow> string \<Rightarrow> string \<Rightarrow> StorageError" where
  "missing_pending st t i = (if committed_message_exists st t i then already_consumed i else pending_not_found t i)"

definition update_pending_message_record_checked ::
  "u64 \<Rightarrow> string \<Rightarrow> string \<Rightarrow> u64 option \<Rightarrow> 'v Message \<Rightarrow> ('v, 's) pending_store \<Rightarrow>
   ('v PendingMessageRecord, 'v, 's) pending_method" where
  "update_pending_message_record_checked now t i expected m st =
     (case position (\<lambda>r. pm_pending_id r = i) (pending_queue st t) of
        None \<Rightarrow> (Err (missing_pending st t i), st)
      | Some k \<Rightarrow>
          (let r = pending_queue st t ! k
           in if expected \<noteq> None \<and> expected \<noteq> Some (pm_revision r)
              then (Err (VersionConflict (the expected) (pm_revision r)), st)
              else if msg_id m \<noteq> None \<and> msg_id m \<noteq> Some i
              then (Err (Validation (pending_text i ('' cannot change message id to '' @ quoted (the (msg_id m))))), st)
              else (let updated = r\<lparr>pm_message := m\<lparr>msg_id := Some i\<rparr>\<rparr>
                    in case validate_pending_message_record updated of
                         Ok _ \<Rightarrow>
                           (let r' = updated\<lparr>pm_revision := pm_revision r + 1, pm_updated_at := Some (now div 1000)\<rparr>
                            in (Ok r', st\<lparr>im_pending_messages :=
                                 AList.update t ((pending_queue st t)[k := r']) (im_pending_messages st)\<rparr>))
                       | Err e \<Rightarrow> (Err e, st)
                       | Panic p \<Rightarrow> (Panic p, st))))"

definition retract_pending_message_record_checked ::
  "string \<Rightarrow> string \<Rightarrow> u64 option \<Rightarrow> ('v, 's) pending_store \<Rightarrow> ('v PendingMessageRecord, 'v, 's) pending_method" where
  "retract_pending_message_record_checked t i expected st =
     (case position (\<lambda>r. pm_pending_id r = i) (pending_queue st t) of
        None \<Rightarrow> (Err (missing_pending st t i), st)
      | Some k \<Rightarrow>
          (let q = pending_queue st t; r = q ! k
           in if expected \<noteq> None \<and> expected \<noteq> Some (pm_revision r)
              then (Err (VersionConflict (the expected) (pm_revision r)), st)
              else (Ok r, st\<lparr>im_pending_messages :=
                AList.update t (normalize_pending_positions (take k q @ drop (Suc k) q)) (im_pending_messages st)\<rparr>)))"

text \<open>The records of a reordering, taken out of the map of the queue one by one.\<close>

fun take_by_id ::
  "(string, 'v PendingMessageRecord) hash_map \<Rightarrow> string list \<Rightarrow>
   ('v PendingMessageRecord list \<times> (string, 'v PendingMessageRecord) hash_map) validated" where
  "take_by_id by_id [] = Ok ([], by_id)"
| "take_by_id by_id (i # is) =
     (case map_of by_id i of
        None \<Rightarrow> Err (NotFound i)
      | Some r \<Rightarrow> map_ok (\<lambda>(rs, rest). (r # rs, rest)) (take_by_id (AList.delete i by_id) is))"

text \<open>Collecting records into a map: a later record of the same id replaces an earlier one.\<close>

definition by_pending_id :: "'v PendingMessageRecord list \<Rightarrow> (string, 'v PendingMessageRecord) hash_map" where
  "by_pending_id q = foldl (\<lambda>m r. AList.update (pm_pending_id r) r m) [] q"

definition reorder_pending_message_records_checked ::
  "u64 \<Rightarrow> string \<Rightarrow> u64 option \<Rightarrow> string list \<Rightarrow> ('v, 's) pending_store \<Rightarrow>
   ('v PendingMessageRecord list, 'v, 's) pending_method" where
  "reorder_pending_message_records_checked now t expected ordered st =
     (case map_of (im_pending_messages st) t of
        None \<Rightarrow> (case List.find (committed_message_exists st t) ordered of
            Some i \<Rightarrow> (Err (already_consumed i), st) | None \<Rightarrow> (Err (NotFound t), st))
      | Some pending \<Rightarrow>
          if expected \<noteq> None \<and> expected \<noteq> Some (pending_queue_revision pending)
          then (Err (VersionConflict (the expected) (pending_queue_revision pending)), st)
          else (case List.find (\<lambda>i. i \<notin> set (map pm_pending_id pending)) ordered of
              Some i \<Rightarrow> (Err (if committed_message_exists st t i then already_consumed i else NotFound i), st)
            | None \<Rightarrow>
                if length pending \<noteq> length ordered
                then (Err (VersionConflict (of_nat (length ordered)) (of_nat (length pending))), st)
                else (case take_by_id (by_pending_id pending) ordered of
                    Ok (reordered, rest) \<Rightarrow>
                      if rest \<noteq> []
                      then (Err (Validation (''reorder for thread '' @ quoted t @ '' omitted pending ids'')), st)
                      else (let q = map (\<lambda>r. r\<lparr>pm_revision := pm_revision r + 1, pm_updated_at := Some (now div 1000)\<rparr>)
                              (normalize_pending_positions reordered)
                            in (Ok q, st\<lparr>im_pending_messages := AList.update t q (im_pending_messages st)\<rparr>))
                  | Err e \<Rightarrow> (Err e, st)
                  | Panic p \<Rightarrow> (Panic p, st))))"

section \<open>Freezing\<close>

text \<open>
  Consuming the selected entries: they leave the queue and their messages are appended to the log.
  The code removes the indexes from the back and reverses what it removed.
\<close>

fun remove_each :: "nat list \<Rightarrow> 'a list \<Rightarrow> 'a list \<Rightarrow> 'a list \<times> 'a list" where
  "remove_each [] q removed = (removed, q)"
| "remove_each (k # ks) q removed = remove_each ks (take k q @ drop (Suc k) q) (removed @ [q ! k])"

definition consume_selected ::
  "(nat \<Rightarrow> string) \<Rightarrow> string \<Rightarrow> nat list \<Rightarrow> ('v, 's) pending_store \<Rightarrow> ('v MessageRecord list, 'v, 's) pending_method" where
  "consume_selected fresh t indexes st =
     (let pending = pending_queue st t;
          committed = committed_log st t;
          selected_messages = map (\<lambda>k. pm_message (pending ! k)) indexes
      in case as_storage (validate_append_only_delta committed selected_messages) of
           Ok _ \<Rightarrow>
             (let (removed, rest) = remove_each (rev indexes) pending [];
                  ms = map pm_message (rev removed)
              in (Ok (numbered fresh t (of_nat (length committed) + 1) ms),
                  st\<lparr>im_pending_messages := AList.update t (normalize_pending_positions rest) (im_pending_messages st),
                     im_messages := AList.update t (committed @ ms) (im_messages st)\<rparr>))
         | Err e \<Rightarrow> (Err e, st)
         | Panic p \<Rightarrow> (Panic p, st))"

definition freeze_pending_message_records ::
  "(nat \<Rightarrow> string) \<Rightarrow> string \<Rightarrow> DeliveryBoundary \<Rightarrow> u64 option \<Rightarrow> ('v, 's) pending_store \<Rightarrow>
   ('v MessageRecord list, 'v, 's) pending_method" where
  "freeze_pending_message_records fresh t boundary expected st =
     (let st1 = st\<lparr>im_messages := or_default t (im_messages st)\<rparr>;
          actual = of_nat (length (committed_log st1 t))
      in if expected \<noteq> None \<and> expected \<noteq> Some actual then (Err (VersionConflict (the expected) actual), st1)
         else (case map_of (im_pending_messages st1) t of
             None \<Rightarrow> (Ok [], st1)
           | Some pending \<Rightarrow>
               (let indexes = select_pending_for_freeze pending boundary
                in if indexes = [] then (Ok [], st1) else consume_selected fresh t indexes st1)))"

text \<open>
  The freezes that also persist a run select against the caller's expectation; the run is projected
  only when the selection was consumed.
\<close>

definition freeze_expected ::
  "(nat \<Rightarrow> string) \<Rightarrow> u64 \<Rightarrow> string \<Rightarrow> DeliveryBoundary \<Rightarrow> string list \<Rightarrow> 'v RunRecord \<Rightarrow> ('v, 's) pending_store \<Rightarrow>
   ('v MessageRecord list, 'v, 's) pending_method" where
  "freeze_expected fresh now t boundary expected_ids run st =
     (let indexes = select_pending_for_freeze_for_run (pending_queue st t) boundary (Some (rr_run_id run));
          ids = selected_pending_ids (pending_queue st t) indexes
      in if ids \<noteq> expected_ids then (Err (PendingSelectionConflict expected_ids ids), st)
         else (case consume_selected fresh t indexes (st\<lparr>im_messages := or_default t (im_messages st)\<rparr>) of
             (Ok records, st2) \<Rightarrow> (Ok records, project_run now t run st2)
           | failed \<Rightarrow> failed))"

definition freeze_pending_message_records_with_run ::
  "(nat \<Rightarrow> string) \<Rightarrow> u64 \<Rightarrow> string \<Rightarrow> DeliveryBoundary \<Rightarrow> u64 option \<Rightarrow> string list \<Rightarrow> 'v RunRecord \<Rightarrow>
   ('v, 's) pending_store \<Rightarrow> ('v MessageRecord list, 'v, 's) pending_method" where
  "freeze_pending_message_records_with_run fresh now t boundary expected expected_ids run st =
     (case first_error [RunRecord_validate_for_persist run, checkpoint_checks t run st] of
        Ok _ \<Rightarrow>
          (let actual = of_nat (length (committed_log st t))
           in if expected \<noteq> None \<and> expected \<noteq> Some actual then (Err (VersionConflict (the expected) actual), st)
              else freeze_expected fresh now t boundary expected_ids run
                (st\<lparr>im_pending_messages := or_default t (im_pending_messages st)\<rparr>))
      | Err e \<Rightarrow> (Err e, st)
      | Panic p \<Rightarrow> (Panic p, st))"

definition append_and_freeze_pending_message_records_with_run ::
  "(nat \<Rightarrow> string) \<Rightarrow> (nat \<Rightarrow> string) \<Rightarrow> u64 \<Rightarrow> string \<Rightarrow> 'v Message list \<Rightarrow> DeliveryMode \<Rightarrow> DeliveryBoundary \<Rightarrow>
   u64 option \<Rightarrow> string list \<Rightarrow> 'v RunRecord \<Rightarrow> ('v, 's) pending_store \<Rightarrow> ('v MessageRecord list, 'v, 's) pending_method" where
  "append_and_freeze_pending_message_records_with_run fresh fresh' now t new_messages mode boundary expected expected_ids run st =
     (case first_error [RunRecord_validate_for_persist run, checkpoint_checks t run st] of
        Ok _ \<Rightarrow>
          (let actual = of_nat (length (committed_log st t))
           in if expected \<noteq> None \<and> expected \<noteq> Some actual then (Err (VersionConflict (the expected) actual), st)
              else (let st1 = st\<lparr>im_pending_messages := or_default t (im_pending_messages st)\<rparr>;
                        pending = pending_queue st1 t;
                        records = build_pending fresh (now div 1000) t (of_nat (length pending) + 1) mode new_messages
                    in case check_new_pending (committed_log st t) (map pm_pending_id pending) records of
                         Ok _ \<Rightarrow> freeze_expected fresh' now t boundary expected_ids run
                           (st1\<lparr>im_pending_messages := AList.update t (pending @ records) (im_pending_messages st1)\<rparr>)
                       | Err e \<Rightarrow> (Err e, st1)
                       | Panic p \<Rightarrow> (Panic p, st1)))
      | Err e \<Rightarrow> (Err e, st)
      | Panic p \<Rightarrow> (Panic p, st))"

end
