(* ===== verification/Pending_Laws.thy ===== *)
theory Pending_Laws
  imports Thread_Laws Pending_Queue
begin

text \<open>
  What a freeze takes from the pending queue of a thread, and what holds of every store that the
  methods can produce.
\<close>

section \<open>The selection\<close>


text \<open>Entries a freeze passes over, and entries it collects before it goes on.\<close>

definition passed_over :: "DeliveryBoundary \<Rightarrow> string option \<Rightarrow> 'v PendingMessageRecord \<Rightarrow> bool" where
  "passed_over b run e \<longleftrightarrow> \<not> eligible_for_freeze e b run \<and> \<not> dm_barrier (pm_delivery_mode e) \<and> can_skip_ineligible e b"

definition collected :: "DeliveryBoundary \<Rightarrow> string option \<Rightarrow> 'v PendingMessageRecord \<Rightarrow> bool" where
  "collected b run e \<longleftrightarrow> eligible_for_freeze e b run \<and> \<not> dm_barrier (pm_delivery_mode e) \<and>
     dm_granularity (pm_delivery_mode e) = Batch"

text \<open>
  The entry at \<open>k\<close> is selected if it is eligible and everything before it is passed over or collected;
  a single delivery must be the first collected, nothing may be passed over before a barrier.
\<close>

definition selectable :: "'v PendingMessageRecord list \<Rightarrow> DeliveryBoundary \<Rightarrow> string option \<Rightarrow> nat \<Rightarrow> bool" where
  "selectable q b run k \<longleftrightarrow> eligible_for_freeze (q ! k) b run \<and>
     list_all (\<lambda>e. passed_over b run e \<or> collected b run e) (take k q) \<and>
     (dm_granularity (pm_delivery_mode (q ! k)) = One \<longrightarrow> list_all (passed_over b run) (take k q)) \<and>
     (dm_barrier (pm_delivery_mode (q ! k)) \<longrightarrow> list_all (collected b run) (take k q))"

lemma passed_not_collected: "passed_over b run e \<Longrightarrow> \<not> collected b run e"
  by (simp add: passed_over_def collected_def)

lemma selectable_collected:
  assumes "list_all (\<lambda>e. passed_over b run e \<or> collected b run e) pre" and "k < length pre"
  shows "selectable (pre @ es) b run k \<longleftrightarrow> collected b run (pre ! k)"
proof -
  have "list_all (\<lambda>e. passed_over b run e \<or> collected b run e) (take k pre)"
    using assms(1) by (auto simp: list_all_iff dest: in_set_takeD)
  moreover have "passed_over b run (pre ! k) \<or> collected b run (pre ! k)"
    using assms by (simp add: list_all_length)
  ultimately show ?thesis
    using assms(2) by (auto simp: selectable_def nth_append passed_over_def collected_def)
qed

lemma selectable_after_stop:
  "\<not> passed_over b run e \<Longrightarrow> \<not> collected b run e \<Longrightarrow> length pre < k \<Longrightarrow> \<not> selectable (pre @ e # es) b run k"
  by (cases "k - length pre") (auto simp: selectable_def)

lemma selection_stops:
  assumes "\<not> passed_over b run e" and "\<not> collected b run e"
  shows "filter (selectable (pre @ e # es) b run) [0..<length (pre @ e # es)] =
     filter (selectable (pre @ e # es) b run) [0..<length pre] @
     (if selectable (pre @ e # es) b run (length pre) then [length pre] else [])"
proof -
  have "[0..<length (pre @ e # es)] = [0..<length pre] @ length pre # [Suc (length pre)..<length (pre @ e # es)]"
    using upt_add_eq_append [of 0 "length pre" "Suc (length es)"] by (simp add: upt_conv_Cons del: upt_Suc)
  moreover have "filter (selectable (pre @ e # es) b run) [Suc (length pre)..<length (pre @ e # es)] = []"
    using selectable_after_stop [OF assms, of pre _ es] by (auto simp: filter_empty_conv simp del: upt_Suc)
  ultimately show ?thesis by simp
qed

lemma select_loop_eq:
  "list_all (\<lambda>e. passed_over b run e \<or> collected b run e) pre \<Longrightarrow>
   select_loop b run (enumerate (length pre) es) (filter (selectable (pre @ es) b run) [0..<length pre])
     (list_ex (passed_over b run) pre) =
   filter (selectable (pre @ es) b run) [0..<length (pre @ es)]"
proof (induction es arbitrary: pre)
  case (Cons e es)
  let ?q = "pre @ e # es"
  let ?S = "filter (selectable ?q b run) [0..<length pre]"
  have S: "?S \<noteq> [] \<longleftrightarrow> \<not> list_all (passed_over b run) pre"
  proof -
    have "?S \<noteq> [] \<longleftrightarrow> (\<exists>k < length pre. collected b run (pre ! k))"
      using selectable_collected [OF Cons.prems, of _ "e # es"] by (auto simp: filter_empty_conv)
    then show ?thesis using Cons.prems passed_not_collected by (fastforce simp: list_all_length)
  qed
  have skip: "list_ex (passed_over b run) pre \<longleftrightarrow> \<not> list_all (collected b run) pre"
    using Cons.prems passed_not_collected by (fastforce simp: list_all_iff list_ex_iff)
  have here: "selectable ?q b run (length pre) \<longleftrightarrow> eligible_for_freeze e b run \<and>
      (dm_granularity (pm_delivery_mode e) = One \<longrightarrow> ?S = []) \<and>
      (dm_barrier (pm_delivery_mode e) \<longrightarrow> \<not> list_ex (passed_over b run) pre)"
    using Cons.prems S skip by (simp add: selectable_def)
  have IH: "select_loop b run (enumerate (Suc (length pre)) es) (?S @ (if collected b run e then [length pre] else []))
      (list_ex (passed_over b run) (pre @ [e])) = filter (selectable ?q b run) [0..<length ?q]"
    if "passed_over b run e \<or> collected b run e"
  proof -
    have "filter (selectable ?q b run) [0..<length (pre @ [e])] = ?S @ (if collected b run e then [length pre] else [])"
      using selectable_collected [of b run "pre @ [e]" "length pre" es] Cons.prems that by simp
    then show ?thesis using Cons.IH [of "pre @ [e]"] Cons.prems that by simp
  qed
  show ?case
  proof (cases "passed_over b run e \<or> collected b run e")
    case True
    then show ?thesis
    proof
      assume p: "passed_over b run e"
      then show ?thesis using IH passed_not_collected [OF p] by (simp add: passed_over_def)
    next
      assume c: "collected b run e"
      then have "\<not> passed_over b run e" using passed_not_collected by blast
      then show ?thesis using IH c by (simp add: collected_def)
    qed
  next
    case False
    define sk where "sk = list_ex (passed_over b run) pre"
    define S where "S = ?S"
    have "filter (selectable ?q b run) [0..<length ?q] = S @ (if selectable ?q b run (length pre) then [length pre] else [])"
      using selection_stops [of b run e pre es] False by (simp add: S_def)
    moreover have "selectable ?q b run (length pre) \<longleftrightarrow> eligible_for_freeze e b run \<and>
        (dm_granularity (pm_delivery_mode e) = One \<longrightarrow> S = []) \<and> (dm_barrier (pm_delivery_mode e) \<longrightarrow> \<not> sk)"
      using here by (simp only: S_def sk_def)
    moreover have "select_loop b run (enumerate (length pre) (e # es)) S sk =
        S @ (if eligible_for_freeze e b run \<and> (dm_granularity (pm_delivery_mode e) = One \<longrightarrow> S = []) \<and>
          (dm_barrier (pm_delivery_mode e) \<longrightarrow> \<not> sk) then [length pre] else [])"
      using False DeliveryGranularity.exhaust [of "dm_granularity (pm_delivery_mode e)"]
      by (auto simp: passed_over_def collected_def)
    ultimately show ?thesis by (simp only: S_def sk_def)
  qed
qed simp

lemma select_is_filter:
  "select_pending_for_freeze_for_run q b run = filter (selectable q b run) [0..<length q]"
  using select_loop_eq [of b run "[]" q] by (simp add: select_pending_for_freeze_for_run_def)


text \<open>
  C11: What a freeze selects, exactly: an entry eligible at the boundary with only entries before it
  that are skipped (for another boundary, and no barrier) or collected (batched, and no barrier); a
  single delivery goes alone, and nothing is skipped to reach a barrier. The selection is in queue order.
\<close>

theorem freeze_selection_exact:
  "set (select_pending_for_freeze_for_run q b run) = {k. k < length q \<and> selectable q b run k} \<and>
   sorted_wrt (<) (select_pending_for_freeze_for_run q b run)"
  by (auto simp: select_is_filter intro: sorted_wrt_filter)

section \<open>Consuming the selection\<close>

definition increasing_below :: "nat list \<Rightarrow> nat \<Rightarrow> bool" where
  "increasing_below ks n \<longleftrightarrow> sorted_wrt (<) ks \<and> list_all (\<lambda>k. k < n) ks"

lemma selection_increasing: "increasing_below (select_pending_for_freeze_for_run q b run) (length q)"
  by (auto simp: select_is_filter increasing_below_def list_all_iff intro: sorted_wrt_filter)

definition unselected :: "'a list \<Rightarrow> nat list \<Rightarrow> 'a list" where
  "unselected q ks = map ((!) q) (filter (\<lambda>i. i \<notin> set ks) [0..<length q])"

lemma map_nth_from: "map ((!) xs) [m..<length xs] = drop m xs"
  by (intro nth_equalityI) simp_all

lemma unselected_below:
  assumes "\<And>i. i \<in> set ks \<Longrightarrow> i < k" and "k \<le> length q"
  shows "unselected q ks = map ((!) q) (filter (\<lambda>i. i \<notin> set ks) [0..<k]) @ drop k q"
proof -
  have "[0..<length q] = [0..<k] @ [k..<length q]"
    using assms(2) upt_add_eq_append [of 0 k "length q - k"] by simp
  moreover have "filter (\<lambda>i. i \<notin> set ks) [k..<length q] = [k..<length q]"
    using assms(1) by (force simp: filter_id_conv)
  ultimately show ?thesis by (simp add: unselected_def map_nth_from)
qed

lemma unselected_snoc:
  assumes "increasing_below (ks @ [k]) (length q)"
  shows "unselected q (ks @ [k]) = unselected (take k q @ drop (Suc k) q) ks"
proof -
  have k: "k < length q" "\<And>i. i \<in> set ks \<Longrightarrow> i < k"
    using assms by (auto simp: increasing_below_def sorted_wrt_append)
  let ?q = "take k q @ drop (Suc k) q"
  have "unselected q (ks @ [k]) = map ((!) q) (filter (\<lambda>i. i \<notin> set (ks @ [k])) [0..<Suc k]) @ drop (Suc k) q"
    using k by (intro unselected_below) (auto simp: less_Suc_eq)
  also have "\<dots> = map ((!) q) (filter (\<lambda>i. i \<notin> set ks) [0..<k]) @ drop (Suc k) q"
    by (auto intro!: arg_cong [where f = "map _"] filter_cong)
  also have "\<dots> = map ((!) ?q) (filter (\<lambda>i. i \<notin> set ks) [0..<k]) @ drop k ?q"
    using k(1) by (auto simp: nth_append)
  also have "\<dots> = unselected ?q ks"
    using k by (intro unselected_below [symmetric]) auto
  finally show ?thesis .
qed

lemma remove_each_rev:
  "increasing_below ks (length q) \<Longrightarrow> remove_each (rev ks) q rs = (rs @ rev (map ((!) q) ks), unselected q ks)"
proof (induction ks arbitrary: q rs rule: rev_induct)
  case Nil
  then show ?case using map_nth_from [of q 0] by (simp add: unselected_def)
next
  case (snoc k ks)
  have k: "k < length q" "\<And>i. i \<in> set ks \<Longrightarrow> i < k" "sorted_wrt (<) ks"
    using snoc.prems by (auto simp: increasing_below_def sorted_wrt_append)
  let ?q = "take k q @ drop (Suc k) q"
  have "increasing_below ks (length ?q)" using k by (fastforce simp: increasing_below_def list_all_iff)
  moreover have "map ((!) ?q) ks = map ((!) q) ks" using k by (auto simp: nth_append)
  ultimately show ?case
    using snoc.IH [of ?q "rs @ [q ! k]"] unselected_snoc [OF snoc.prems] by simp
qed


lemma committed_log_update [simp]:
  "committed_log (st\<lparr>im_messages := AList.update t ms (im_messages st)\<rparr>) = (committed_log st)(t := ms)"
  by (auto simp: committed_log_def)

lemma pending_queue_update [simp]:
  "pending_queue (st\<lparr>im_pending_messages := AList.update t q (im_pending_messages st)\<rparr>) = (pending_queue st)(t := q)"
  by (auto simp: pending_queue_def)

lemma committed_log_default [simp]:
  "committed_log (st'\<lparr>im_messages := AList.update t ms (or_default t (im_messages st))\<rparr>) = (committed_log st)(t := ms)"
  "committed_log (st'\<lparr>im_messages := or_default t (im_messages st)\<rparr>) = committed_log st"
  by (auto simp: fun_eq_iff committed_log_def or_default_def split: option.splits)

lemma pending_queue_default [simp]:
  "pending_queue (st'\<lparr>im_pending_messages := or_default t (im_pending_messages st)\<rparr>) = pending_queue st"
  by (auto simp: pending_queue_def or_default_def split: option.splits)

lemma committed_log_other [simp]:
  "committed_log (st\<lparr>im_pending_messages := ps\<rparr>) = committed_log st"
  "committed_log (project_run now t run st) = committed_log st"
  by (simp_all add: fun_eq_iff committed_log_def project_run_def insert_run_def Let_def)

lemma pending_queue_other [simp]:
  "pending_queue (st\<lparr>im_messages := ms\<rparr>) = pending_queue st"
  "pending_queue (project_run now t run st) = pending_queue st"
  by (simp_all add: fun_eq_iff pending_queue_def project_run_def insert_run_def Let_def)

lemma load_projected_run [simp]: "load_run (rr_run_id run) (project_run now t run st) = Some run"
  by (simp add: load_run_def project_run_def insert_run_def Let_def)

text \<open>The state a successful consumption leaves.\<close>

definition consumed :: "string \<Rightarrow> nat list \<Rightarrow> ('v, 's) pending_store \<Rightarrow> ('v, 's) pending_store" where
  "consumed t ks st = st\<lparr>im_pending_messages :=
       AList.update t (normalize_pending_positions (unselected (pending_queue st t) ks)) (im_pending_messages st),
     im_messages := AList.update t (committed_log st t @ map (\<lambda>k. pm_message (pending_queue st t ! k)) ks) (im_messages st)\<rparr>"

lemma consumed_simps [simp]:
  "committed_log (consumed t ks st) = (committed_log st)(t := committed_log st t @ map (\<lambda>k. pm_message (pending_queue st t ! k)) ks)"
  "pending_queue (consumed t ks st) = (pending_queue st)(t := normalize_pending_positions (unselected (pending_queue st t) ks))"
  "im_threads (consumed t ks st) = im_threads st" "im_runs (consumed t ks st) = im_runs st"
  "im_run_insertion (consumed t ks st) = im_run_insertion st"
  by (auto simp: consumed_def committed_log_def pending_queue_def)

lemma consume_selected_eq:
  assumes "increasing_below ks (length (pending_queue st t))"
  shows "consume_selected fresh t ks st =
    (let ms = map (\<lambda>k. pm_message (pending_queue st t ! k)) ks
     in case as_storage (validate_append_only_delta (committed_log st t) ms) of
          Ok _ \<Rightarrow> (Ok (numbered fresh t (of_nat (length (committed_log st t)) + 1) ms), consumed t ks st)
        | Err e \<Rightarrow> (Err e, st) | Panic p \<Rightarrow> (Panic p, st))"
  unfolding consume_selected_def Let_def remove_each_rev [OF assms]
  by (simp add: consumed_def o_def split: outcome.split)

lemma appended_messages:
  assumes "validate_append_only_delta C D = Ok ()"
  shows "list_all appendable D" and "map mr_message (numbered fresh t s D) = D"
proof -
  show a: "list_all appendable D"
    using check_delta_Ok [of "msg_ids C" "length C" D "[]" "()"] assms
    by (simp add: validate_append_only_delta_def list_all_iff flip: msg_ids_def)
  have "mr_message (from_message (fresh i) t n m) = m" if "m \<in> set D" for i n m
  proof -
    have "msg_id m \<noteq> None" using a that by (auto simp: list_all_iff appendable_def)
    then show ?thesis by (auto simp: from_message_def)
  qed
  then show "map mr_message (numbered fresh t s D) = D"
    by (intro nth_equalityI) (auto simp: numbered_def nth_enumerate_eq)
qed

lemma consume_selected_not_Ok: "consume_selected fresh t ks st = (r, st') \<Longrightarrow> \<not> is_ok r \<Longrightarrow> st' = st"
  by (auto simp: consume_selected_def Let_def split: outcome.splits prod.splits)

lemma freeze_expected_Ok:
  assumes "freeze_expected fresh now t boundary expected_ids run st = (Ok records, st')"
  defines "ks \<equiv> select_pending_for_freeze_for_run (pending_queue st t) boundary (Some (rr_run_id run))"
  defines "st1 \<equiv> st\<lparr>im_messages := or_default t (im_messages st)\<rparr>"
  shows "selected_pending_ids (pending_queue st t) ks = expected_ids \<and> st' = project_run now t run (consumed t ks st1) \<and>
    validate_append_only_delta (committed_log st t) (map (\<lambda>k. pm_message (pending_queue st t ! k)) ks) = Ok () \<and>
    records = numbered fresh t (of_nat (length (committed_log st t)) + 1) (map (\<lambda>k. pm_message (pending_queue st t ! k)) ks)"
proof -
  have inc: "increasing_below ks (length (pending_queue st1 t))" by (simp add: ks_def st1_def selection_increasing)
  show ?thesis
    using assms(1)
    unfolding freeze_expected_def Let_def ks_def [symmetric] st1_def [symmetric] consume_selected_eq [OF inc]
    by (auto simp: st1_def Let_def split: if_splits outcome.splits)
qed

lemma freeze_expected_not_Ok:
  "freeze_expected fresh now t boundary expected_ids run st = (r, st') \<Longrightarrow> \<not> is_ok r \<Longrightarrow>
   st' = st \<or> st' = st\<lparr>im_messages := or_default t (im_messages st)\<rparr>"
  by (auto simp: freeze_expected_def Let_def split: if_splits outcome.splits prod.splits dest: consume_selected_not_Ok)

text \<open>What projecting a run leaves alone, and what it writes.\<close>

lemma project_run_parts:
  "map_of (im_threads (project_run now t run st)) = (map_of (im_threads st))(t \<mapsto> normalize_lineage (apply_run_projection run
     (touch now (case map_of (im_threads st) t of None \<Rightarrow> Thread_with_id t | Some th \<Rightarrow> th))))"
  "load_run i (project_run now t run st) = (if i = rr_run_id run then Some run else load_run i st)"
  "im_thread_states (project_run now t run st) = im_thread_states st"
  by (simp_all add: project_run_def insert_run_def load_run_def Let_def update_conv')

lemma load_run_kept:
  "load_run i (consumed t ks st) = load_run i st" "load_run i (st\<lparr>im_messages := ms\<rparr>) = load_run i st"
  "load_run i (st\<lparr>im_pending_messages := ps\<rparr>) = load_run i st"
  by (simp_all add: load_run_def)

lemma consumed_state [simp]: "im_thread_states (consumed t ks st) = im_thread_states st"
  by (simp add: consumed_def)

text \<open>
  C6: A freeze that persists a run is all or nothing. When it succeeds, the selected messages, which are
  those the caller expected, leave the queue and are appended to the log in queue order, the rest of the
  queue keeps its order and is renumbered, the run is stored and its thread takes the projection of the
  run; every other thread keeps its record, log and queue, every other run its record, and every thread
  its state. When it fails, no log, queue, thread, run or state has changed.
\<close>

theorem freeze_exact:
  assumes "freeze_pending_message_records_with_run fresh now t boundary expected expected_ids run st = (r, st')"
  defines "ks \<equiv> select_pending_for_freeze_for_run (pending_queue st t) boundary (Some (rr_run_id run))"
  shows "case r of
      Ok records \<Rightarrow>
        selected_pending_ids (pending_queue st t) ks = expected_ids \<and>
        committed_log st' = (committed_log st)(t := committed_log st t @ map (\<lambda>k. pm_message (pending_queue st t ! k)) ks) \<and>
        pending_queue st' = (pending_queue st)(t := normalize_pending_positions (unselected (pending_queue st t) ks)) \<and>
        map mr_message records = map (\<lambda>k. pm_message (pending_queue st t ! k)) ks \<and>
        (\<forall>i. load_run i st' = (if i = rr_run_id run then Some run else load_run i st)) \<and>
        map_of (im_threads st') = (map_of (im_threads st))(t \<mapsto> normalize_lineage (apply_run_projection run
          (touch now (case load_thread t st of None \<Rightarrow> Thread_with_id t | Some th \<Rightarrow> th)))) \<and>
        im_thread_states st' = im_thread_states st
    | _ \<Rightarrow> committed_log st' = committed_log st \<and> pending_queue st' = pending_queue st \<and>
        im_threads st' = im_threads st \<and> im_runs st' = im_runs st \<and> im_thread_states st' = im_thread_states st"
proof -
  let ?st = "st\<lparr>im_pending_messages := or_default t (im_pending_messages st)\<rparr>"
  consider "freeze_expected fresh now t boundary expected_ids run ?st = (r, st')" | "\<not> is_ok r" "st' = st"
    using assms(1) by (auto simp: freeze_pending_message_records_with_run_def Let_def split: outcome.splits if_splits)
  then show ?thesis
  proof cases
    case 1
    show ?thesis
    proof (cases r)
      case (Ok records)
      then show ?thesis
        using freeze_expected_Ok [OF 1 [unfolded Ok]] unfolding ks_def
        by (auto simp: appended_messages(2) project_run_parts load_thread_def load_run_kept)
    qed (use freeze_expected_not_Ok [OF 1] in auto)
  qed (cases r; simp)
qed

definition sample_run :: "string \<Rightarrow> string \<Rightarrow> unit RunRecord" where
  "sample_run run thread = \<lparr>rr_run_id = run, rr_thread_id = thread, rr_agent_id = ''agent'', rr_parent_run_id = None,
     rr_resolution_id = None, rr_activation = None, rr_request_parent_thread_id = None, rr_input = None, rr_output = None,
     rr_status = Running, rr_termination_reason = None, rr_final_output = None, rr_error_payload = None,
     rr_dispatch_id = None, rr_session_id = None, rr_transport_request_id = None, rr_waiting = None, rr_outcome = None,
     rr_created_at = 1, rr_started_at = None, rr_finished_at = None, rr_updated_at = 1\<rparr>"

definition two_waiting :: "(unit, unit) pending_store" where
  "two_waiting = InMemoryStore_new\<lparr>im_pending_messages := [(''t'',
     build_pending (\<lambda>_. ''fresh'') 0 ''t'' 1 (new_run_mode Batch) [user_message ''p'' ''later''] @
     build_pending (\<lambda>_. ''fresh'') 0 ''t'' 2 (next_step_mode Batch) [user_message ''q'' ''now''])]\<rparr>"

lemma freeze_exact_witness:
  "\<exists>st' :: (unit, unit) pending_store. committed_log st' = (committed_log two_waiting)(''t'' := [user_message ''q'' ''now'']) \<and>
     map pm_pending_id (pending_queue st' ''t'') = [''p''] \<and> load_run ''r'' st' = Some (sample_run ''r'' ''t'')"
proof -
  let ?f = "freeze_pending_message_records_with_run (\<lambda>_. ''fresh'') 5 ''t'' At_NextStep None [''q''] (sample_run ''r'' ''t'') two_waiting"
  have "is_ok (fst ?f)" by code_simp
  then obtain records st' where f: "?f = (Ok records, st')" by (cases "?f"; cases "fst ?f") auto
  have s: "select_pending_for_freeze_for_run (pending_queue two_waiting ''t'') At_NextStep (Some (rr_run_id (sample_run ''r'' ''t''))) = [1]"
    by code_simp
  have "map (\<lambda>k. pm_message (pending_queue two_waiting ''t'' ! k)) [1] = [user_message ''q'' ''now'']"
    "map pm_pending_id (normalize_pending_positions (unselected (pending_queue two_waiting ''t'') [1])) = [''p'']"
    "committed_log two_waiting ''t'' = []" "rr_run_id (sample_run ''r'' ''t'') = ''r''" by code_simp+
  then show ?thesis
    using freeze_exact [OF f, unfolded s] by (intro exI [of _ st']) simp
qed

end
