(* ===== verification/Store_Invariant.thy ===== *)
theory Store_Invariant
  imports Pending_Laws
begin

text \<open>
  What holds of every in-memory store its methods can produce: logs are well formed, queues are
  numbered and free of duplicates, stored runs are valid, and threads form a forest unless the unchecked
  \<open>save_thread\<close> has changed a parent. Overlapping checkpoints exclude one another.
\<close>

section \<open>Tables\<close>

definition table_ok :: "('k \<Rightarrow> 'a \<Rightarrow> bool) \<Rightarrow> ('k, 'a) hash_map \<Rightarrow> bool" where
  "table_ok P m \<longleftrightarrow> hm_keys_distinct m \<and> list_all (\<lambda>(k, v). P k v) m"

lemma table_ok_iff: "table_ok P m \<longleftrightarrow> hm_keys_distinct m \<and> (\<forall>k v. map_of m k = Some v \<longrightarrow> P k v)"
  unfolding table_ok_def using list_all_hm_iff by blast

lemma table_lookup: "table_ok P m \<Longrightarrow> map_of m k = Some v \<Longrightarrow> P k v"
  by (simp add: table_ok_iff)

lemma table_empty [intro]: "table_ok P []"
  by (simp add: table_ok_def)

lemma table_update [intro]: "table_ok P m \<Longrightarrow> P k v \<Longrightarrow> table_ok P (AList.update k v m)"
  by (simp add: table_ok_iff distinct_update)

lemma table_delete [intro]: "table_ok P m \<Longrightarrow> table_ok P (AList.delete k m)"
  by (simp add: table_ok_iff distinct_delete map_of_delete_if)

lemma table_default [intro]: "table_ok P m \<Longrightarrow> P t [] \<Longrightarrow> table_ok P (or_default t m)"
  by (auto simp: or_default_def split: option.splits)

section \<open>Valid logs\<close>

text \<open>A stored log passes the check that every load repeats, from the first message on.\<close>

definition log_valid :: "'v Message list \<Rightarrow> bool" where
  "log_valid ms \<longleftrightarrow> validate_append_only_delta [] ms = Ok ()"

lemma check_delta_Ok_iff:
  "check_delta existing n delta seen = Ok () \<longleftrightarrow>
   (\<forall>i < length delta. validate_message_for_append (delta ! i) (of_nat (n + i) + 1) = Ok ()) \<and>
   distinct (msg_ids delta) \<and> set (msg_ids delta) \<inter> (set existing \<union> set seen) = {}"
proof (induction delta arbitrary: n seen)
  case (Cons m ms)
  have all: "(\<forall>i < length (m # ms). validate_message_for_append ((m # ms) ! i) (of_nat (n + i) + 1) = Ok ()) \<longleftrightarrow>
      validate_message_for_append m (of_nat n + 1) = Ok () \<and>
      (\<forall>i < length ms. validate_message_for_append (ms ! i) (of_nat (n + 1 + i) + 1) = Ok ())"
    by (auto simp: nth_Cons' less_Suc_eq_0_disj)
  show ?case
  proof (cases "validate_message_for_append m (of_nat n + 1) = Ok ()")
    case True
    from validate_message_for_append_Ok [OF True] obtain mid where mid: "msg_id m = Some mid"
      by (auto simp: appendable_def)
    then show ?thesis unfolding all using True Cons.IH by auto
  next
    case False
    then have "check_delta existing n (m # ms) seen \<noteq> Ok ()" by (auto simp: and_then_eq_Ok_iff)
    then show ?thesis unfolding all using False by simp
  qed
qed simp

lemma append_delta_Ok_iff:
  "validate_append_only_delta C D = Ok () \<longleftrightarrow>
   (\<forall>i < length D. validate_message_for_append (D ! i) (of_nat (length C + i) + 1) = Ok ()) \<and>
   distinct (msg_ids D) \<and> set (msg_ids D) \<inter> set (msg_ids C) = {}"
  by (simp add: validate_append_only_delta_def check_delta_Ok_iff flip: msg_ids_def)

lemma log_valid_append:
  assumes "log_valid C" and "validate_append_only_delta C D = Ok ()"
  shows "log_valid (C @ D)"
proof -
  have "validate_message_for_append ((C @ D) ! i) (of_nat i + 1) = Ok ()" if "i < length (C @ D)" for i
  proof (cases "i < length C")
    case False
    define j where "j = i - length C"
    then have "i = length C + j" "j < length D" using that False by auto
    then show ?thesis using assms(2) by (simp add: append_delta_Ok_iff nth_append)
  qed (use assms(1) in \<open>simp add: log_valid_def append_delta_Ok_iff nth_append\<close>)
  moreover have "distinct (msg_ids (C @ D))" using assms by (auto simp: log_valid_def append_delta_Ok_iff)
  ultimately show ?thesis by (simp add: log_valid_def append_delta_Ok_iff)
qed

lemma log_valid_ok: "log_valid C \<Longrightarrow> log_ok C"
  using merge_checkpoint_append_ok [of "[]" C] by (simp add: log_valid_def merge_checkpoint_append_eq log_ok_def)

section \<open>The invariant\<close>

definition pending_ok :: "string \<Rightarrow> 'v PendingMessageRecord \<Rightarrow> bool" where
  "pending_ok t r \<longleftrightarrow> pm_thread_id r = t \<and> msg_id (pm_message r) = Some (pm_pending_id r) \<and> appendable (pm_message r)"

definition queue_ok :: "string \<Rightarrow> 'v PendingMessageRecord list \<Rightarrow> bool" where
  "queue_ok t q \<longleftrightarrow> distinct (map pm_pending_id q) \<and> list_all (pending_ok t) q \<and>
     map pm_position q = map (\<lambda>i. of_nat i + 1) [0..<length q]"

definition run_ok :: "string \<Rightarrow> 'v RunRecord \<Rightarrow> bool" where
  "run_ok i r \<longleftrightarrow> rr_run_id r = i \<and> RunRecord_validate_for_persist r = Ok ()"

text \<open>Logs, queues and runs.\<close>

definition tables_ok :: "('v, 's) pending_store \<Rightarrow> bool" where
  "tables_ok st \<longleftrightarrow> table_ok (\<lambda>_. log_valid) (im_messages st) \<and>
     table_ok queue_ok (im_pending_messages st) \<and> table_ok run_ok (im_runs st)"

text \<open>Threads are stored under their own id with a normalised parent.\<close>

definition keyed :: "(string, 'v Thread) hash_map \<Rightarrow> bool" where
  "keyed threads \<longleftrightarrow> table_ok (\<lambda>k t. th_id t = k \<and> normalize_lineage_id (th_parent_thread_id t) = th_parent_thread_id t) threads"

definition records_ok :: "('v, 's) pending_store \<Rightarrow> bool" where
  "records_ok st \<longleftrightarrow> keyed (im_threads st) \<and> tables_ok st"

definition store_ok :: "('v, 's) pending_store \<Rightarrow> bool" where
  "store_ok st \<longleftrightarrow> forest (im_threads st) \<and> tables_ok st"

lemma forest_iff: "forest threads \<longleftrightarrow> keyed threads \<and> acyclic (hierarchy threads)"
  by (auto simp: forest_def keyed_def table_ok_def)

lemma log_valid_Nil [simp]: "log_valid []"
  by (simp add: log_valid_def validate_append_only_delta_def)

lemma queue_ok_Nil [simp]: "queue_ok t []"
  by (simp add: queue_ok_def)

lemma tables_ok_log: "tables_ok st \<Longrightarrow> log_valid (committed_log st t)"
  by (auto simp: tables_ok_def committed_log_def split: option.splits dest: table_lookup)

lemma tables_ok_queue: "tables_ok st \<Longrightarrow> queue_ok t (pending_queue st t)"
  by (auto simp: tables_ok_def pending_queue_def split: option.splits dest: table_lookup)

lemma tables_ok_load: "tables_ok st \<Longrightarrow> load_committed_messages t st = Ok (map_of (im_messages st) t)"
  by (auto simp: tables_ok_def load_committed_messages_def validate_committed_messages_def log_valid_def
      split: option.splits dest: table_lookup)

text \<open>Writing one part of the store keeps the others.\<close>

lemma tables_ok_new: "tables_ok InMemoryStore_new"
  by (auto simp: tables_ok_def InMemoryStore_new_def)

lemma tables_ok_threads [simp]: "tables_ok (st\<lparr>im_threads := ts\<rparr>) \<longleftrightarrow> tables_ok st"
  by (simp add: tables_ok_def)

lemma tables_ok_write_log: "tables_ok st \<Longrightarrow> log_valid ms \<Longrightarrow> tables_ok (st\<lparr>im_messages := AList.update t ms (im_messages st)\<rparr>)"
  by (auto simp: tables_ok_def)

lemma tables_ok_write_queue:
  "tables_ok st \<Longrightarrow> queue_ok t q \<Longrightarrow> tables_ok (st\<lparr>im_pending_messages := AList.update t q (im_pending_messages st)\<rparr>)"
  by (auto simp: tables_ok_def)

lemma tables_ok_default:
  "tables_ok st \<Longrightarrow> tables_ok (st\<lparr>im_messages := or_default t (im_messages st)\<rparr>)"
  "tables_ok st \<Longrightarrow> tables_ok (st\<lparr>im_pending_messages := or_default t (im_pending_messages st)\<rparr>)"
  by (auto simp: tables_ok_def)

lemma tables_ok_remove: "tables_ok st \<Longrightarrow> tables_ok (remove_thread t st)"
  by (auto simp: tables_ok_def remove_thread_def)

lemma tables_ok_states [simp]: "tables_ok (st\<lparr>im_thread_states := ss\<rparr>) \<longleftrightarrow> tables_ok st"
  by (simp add: tables_ok_def)

lemma tables_ok_insert_run:
  "tables_ok st \<Longrightarrow> RunRecord_validate_for_persist run = Ok () \<Longrightarrow> tables_ok (insert_run run st)"
  by (auto simp: tables_ok_def insert_run_def run_ok_def)

lemma tables_ok_project_run:
  "tables_ok st \<Longrightarrow> RunRecord_validate_for_persist run = Ok () \<Longrightarrow> tables_ok (project_run now t run st)"
  using tables_ok_insert_run [of "st\<lparr>im_threads := ts\<rparr>" run for ts] by (simp add: project_run_def Let_def)

section \<open>Logs and threads\<close>

declare first_error.simps [simp del]

lemma is_ok_unit: "is_ok r \<longleftrightarrow> r = Ok ()"
  by (cases r) auto

lemma tables_ok_save_messages: "tables_ok st \<Longrightarrow> tables_ok (snd (save_messages t ms st))"
  by (auto simp: log_valid_def save_messages_def validate_committed_messages_def intro!: tables_ok_write_log split: outcome.split)

lemma tables_ok_append_message_records: "tables_ok st \<Longrightarrow> tables_ok (snd (append_message_records fresh t ms st))"
  by (auto simp: append_message_records_def Let_def tables_ok_default tables_ok_log
      intro!: tables_ok_write_log [OF tables_ok_default(1), simplified] log_valid_append split: outcome.split)

lemma tables_ok_create_run: "tables_ok st \<Longrightarrow> tables_ok (snd (create_run run st))"
  by (auto simp: create_run_def intro!: tables_ok_insert_run split: outcome.split)

lemma tables_ok_checkpoint: "tables_ok st \<Longrightarrow> tables_ok (snd (checkpoint now t ms run st))"
  by (auto simp: log_valid_def checkpoint_def first_error_Ok validate_committed_messages_def
      intro!: tables_ok_project_run tables_ok_write_log split: outcome.split)

lemma tables_ok_merge_and_project:
  assumes "tables_ok st" and "RunRecord_validate_for_persist run = Ok ()"
  shows "tables_ok (snd (merge_and_project now t ms run st))"
  using assms
  by (auto simp: merge_and_project_def Let_def merge_checkpoint_append_eq is_ok_unit tables_ok_default tables_ok_log
      intro!: tables_ok_project_run tables_ok_write_log [OF tables_ok_default(1), simplified] log_valid_append
      split: outcome.splits prod.splits if_splits)

lemma tables_ok_checkpoint_append: "tables_ok st \<Longrightarrow> tables_ok (snd (store_checkpoint_append now t ms expected run st))"
  by (auto simp: store_checkpoint_append_def first_error_Ok Let_def intro!: tables_ok_merge_and_project
      split: outcome.split option.split)

lemma tables_ok_delete_with_strategy:
  assumes "tables_ok st"
  shows "tables_ok (snd (delete_thread_with_strategy now t strategy st))"
proof -
  have "tables_ok (foldl (\<lambda>s i. remove_thread i s) st order)" for order
    using assms by (rule foldl_keeps [where P = tables_ok]) (rule tables_ok_remove)
  then show ?thesis
    using assms by (auto simp: delete_thread_with_strategy_def tables_ok_remove
        split: outcome.split ChildThreadDeleteStrategy.split)
qed

section \<open>Queues\<close>

lemma validated_pending:
  "validate_pending_message_record r = Ok u \<Longrightarrow> msg_id (pm_message r) = Some (pm_pending_id r) \<and> appendable (pm_message r)"
  by (auto simp: validate_pending_message_record_def first_error_Ok split: option.splits dest: validate_message_shape_Ok)

lemma normalize_positions [simp]:
  "map pm_pending_id (normalize_pending_positions q) = map pm_pending_id q"
  "map pm_message (normalize_pending_positions q) = map pm_message q"
  "map pm_position (normalize_pending_positions q) = map (\<lambda>i. of_nat i + 1) [0..<length q]"
  "list_all (pending_ok t) (normalize_pending_positions q) \<longleftrightarrow> list_all (pending_ok t) q"
  "length (normalize_pending_positions q) = length q"
  by (auto simp: normalize_pending_positions_def list_all_length nth_enumerate_eq pending_ok_def intro!: nth_equalityI)

lemma queue_ok_normalize: "distinct (map pm_pending_id q) \<Longrightarrow> list_all (pending_ok t) q \<Longrightarrow> queue_ok t (normalize_pending_positions q)"
  by (simp add: queue_ok_def)

lemma queue_ok_unselected:
  assumes "queue_ok t q"
  shows "queue_ok t (normalize_pending_positions (unselected q ks))"
proof (rule queue_ok_normalize)
  let ?is = "filter (\<lambda>i. i \<notin> set ks) [0..<length q]"
  have "map pm_pending_id (unselected q ks) = map ((!) (map pm_pending_id q)) ?is"
    by (auto simp: unselected_def)
  moreover have "inj_on ((!) (map pm_pending_id q)) (set ?is)"
    using assms by (intro inj_on_nth) (auto simp: queue_ok_def)
  ultimately show "distinct (map pm_pending_id (unselected q ks))" by (simp add: distinct_map)
  show "list_all (pending_ok t) (unselected q ks)"
    using assms by (auto simp: queue_ok_def unselected_def list_all_iff)
qed

lemma unselected_one: "k < length q \<Longrightarrow> unselected q [k] = take k q @ drop (Suc k) q"
  using unselected_snoc [of "[]" k q] map_nth_from [of "take k q @ drop (Suc k) q" 0]
  by (simp add: increasing_below_def unselected_def [of _ "[]"])

lemma check_new_pending_Ok:
  "check_new_pending committed seen rs = Ok u \<Longrightarrow>
   distinct (map pm_pending_id rs) \<and> pm_pending_id ` set rs \<inter> set seen = {} \<and>
   list_all (\<lambda>r. validate_pending_message_record r = Ok () \<and> list_all (\<lambda>m. msg_id m \<noteq> Some (pm_pending_id r)) committed) rs"
  by (induction rs arbitrary: seen) (fastforce simp: and_then_eq_Ok_iff list_all_iff list_ex_iff split: if_splits)+

lemma build_pending_fields:
  "length (build_pending fresh now t start mode ms) = length ms"
  "map pm_position (build_pending fresh now t start mode ms) = map (\<lambda>i. start + of_nat i) [0..<length ms]"
  "list_all (\<lambda>r. pm_thread_id r = t) (build_pending fresh now t start mode ms)"
  by (auto simp: build_pending_def pending_from_message_def Let_def list_all_length nth_enumerate_eq intro!: nth_equalityI)

lemma queue_ok_build:
  assumes "queue_ok t q" and "check_new_pending committed (map pm_pending_id q) (build_pending fresh now t (of_nat (length q) + 1) mode ms) = Ok u"
  shows "queue_ok t (q @ build_pending fresh now t (of_nat (length q) + 1) mode ms)"
proof -
  let ?rs = "build_pending fresh now t (of_nat (length q) + 1) mode ms"
  note new = check_new_pending_Ok [OF assms(2)]
  have "list_all (pending_ok t) ?rs"
    using new build_pending_fields(3) [of t fresh now "of_nat (length q) + 1" mode ms] validated_pending
    by (fastforce simp: list_all_iff pending_ok_def)
  moreover have "map pm_position (q @ ?rs) = map (\<lambda>i. of_nat i + 1) [0..<length (q @ ?rs)]"
    using assms(1) by (auto simp: queue_ok_def build_pending_fields nth_append algebra_simps intro!: nth_equalityI)
  moreover have "distinct (map pm_pending_id (q @ ?rs))"
    using assms(1) new by (auto simp: queue_ok_def)
  ultimately show ?thesis using assms(1) by (simp add: queue_ok_def)
qed

lemma tables_ok_append_pending:
  assumes "tables_ok st"
  shows "tables_ok (snd (append_pending_message_records fresh now t ms mode st))"
proof -
  let ?st = "st\<lparr>im_pending_messages := or_default t (im_pending_messages st)\<rparr>"
  have "tables_ok ?st" using assms by (rule tables_ok_default)
  then show ?thesis
    using queue_ok_build [OF tables_ok_queue [OF assms]] tables_ok_write_queue [of ?st]
    by (auto simp: append_pending_message_records_def Let_def split: outcome.split)
qed

lemma position_lt: "position P xs = Some k \<Longrightarrow> k < length xs \<and> P (xs ! k)"
  by (auto simp: position_def Let_def split: if_splits dest: nth_length_takeWhile)

lemma queue_ok_edit:
  assumes "queue_ok t q" and "k < length q" and "pm_pending_id r = pm_pending_id (q ! k)"
    and "pm_position r = pm_position (q ! k)" and "pending_ok t r"
  shows "queue_ok t (q[k := r])"
proof -
  have "map pm_pending_id (q[k := r]) = map pm_pending_id q" "map pm_position (q[k := r]) = map pm_position q"
    using assms(2-4) by (auto simp: map_update list_update_same_conv)
  moreover have "list_all (pending_ok t) (q[k := r])"
    using assms(1,5) set_update_subset_insert [of q k r] by (auto simp: queue_ok_def list_all_iff)
  ultimately show ?thesis using assms(1) by (simp add: queue_ok_def)
qed

lemma tables_ok_update_pending:
  assumes "tables_ok st"
  shows "tables_ok (snd (update_pending_message_record_checked now t i expected m st))"
proof (cases "position (\<lambda>r. pm_pending_id r = i) (pending_queue st t)")
  case (Some k)
  note k = position_lt [OF Some]
  let ?r = "pending_queue st t ! k"
  let ?u = "?r\<lparr>pm_message := m\<lparr>msg_id := Some i\<rparr>\<rparr>"
  have q: "queue_ok t (pending_queue st t)" using assms by (rule tables_ok_queue)
  then have "pending_ok t ?r" using k by (simp add: queue_ok_def list_all_length)
  then have "tables_ok (st\<lparr>im_pending_messages := AList.update t ((pending_queue st t)[k := ?u\<lparr>pm_revision := n, pm_updated_at := d\<rparr>])
      (im_pending_messages st)\<rparr>)" if "validate_pending_message_record ?u = Ok ()" for n d
    using validated_pending [OF that] k by (intro tables_ok_write_queue assms queue_ok_edit q) (auto simp: pending_ok_def)
  with assms Some show ?thesis
    by (auto simp: update_pending_message_record_checked_def Let_def split: outcome.split)
qed (use assms in \<open>simp add: update_pending_message_record_checked_def\<close>)

lemma tables_ok_retract_pending:
  assumes "tables_ok st"
  shows "tables_ok (snd (retract_pending_message_record_checked t i expected st))"
proof (cases "position (\<lambda>r. pm_pending_id r = i) (pending_queue st t)")
  case (Some k)
  have "tables_ok (st\<lparr>im_pending_messages := AList.update t (normalize_pending_positions (unselected (pending_queue st t) [k]))
      (im_pending_messages st)\<rparr>)"
    by (intro tables_ok_write_queue assms queue_ok_unselected tables_ok_queue)
  with assms Some position_lt [OF Some] show ?thesis
    by (auto simp: retract_pending_message_record_checked_def Let_def unselected_one)
qed (use assms in \<open>simp add: retract_pending_message_record_checked_def\<close>)

text \<open>What a reordering takes out of the map of the queue.\<close>

lemma by_pending_id_ok:
  assumes "list_all P q"
  shows "table_ok (\<lambda>i r. pm_pending_id r = i \<and> P r) (by_pending_id q)"
proof -
  have "table_ok (\<lambda>i r. pm_pending_id r = i \<and> P r) (foldl (\<lambda>m r. AList.update (pm_pending_id r) r m) m q)"
    if "table_ok (\<lambda>i r. pm_pending_id r = i \<and> P r) m" for m
    using assms that by (induction q arbitrary: m) (auto intro!: table_update)
  then show ?thesis unfolding by_pending_id_def by blast
qed

lemma take_by_id_ok:
  "table_ok (\<lambda>i r. pm_pending_id r = i \<and> P r) m \<Longrightarrow> take_by_id m is = Ok (rs, rest) \<Longrightarrow>
   map pm_pending_id rs = is \<and> list_all P rs \<and> distinct is \<and> set is \<subseteq> {i. map_of m i \<noteq> None}"
proof (induction m "is" arbitrary: rs rest rule: take_by_id.induct)
  case (2 m i "is")
  then obtain r rs' where r: "map_of m i = Some r" "take_by_id (AList.delete i m) is = Ok (rs', rest)" "rs = r # rs'"
    by (auto simp: map_ok_eq_Ok_iff split: option.splits)
  with "2.IH" [OF r(1) table_delete [OF "2.prems"(1)] r(2)] table_lookup [OF "2.prems"(1) r(1)]
  show ?case by (auto simp: map_of_delete_if split: if_splits)
qed simp

lemma tables_ok_reorder_pending:
  assumes "tables_ok st"
  shows "tables_ok (snd (reorder_pending_message_records_checked now t expected ordered st))"
proof -
  have "queue_ok t (map (\<lambda>r. r\<lparr>pm_revision := pm_revision r + 1, pm_updated_at := d\<rparr>) (normalize_pending_positions rs))"
    if "map_of (im_pending_messages st) t = Some q" "take_by_id (by_pending_id q) ordered = Ok (rs, rest)" for q rs rest d
  proof -
    have "queue_ok t q" using assms that(1) by (auto simp: tables_ok_def dest: table_lookup)
    then have "list_all (pending_ok t) q" by (simp add: queue_ok_def)
    from take_by_id_ok [OF by_pending_id_ok [OF this] that(2)]
    have "queue_ok t (normalize_pending_positions rs)" by (intro queue_ok_normalize) auto
    then show ?thesis by (simp add: queue_ok_def list_all_iff pending_ok_def o_def)
  qed
  with assms show ?thesis
    unfolding reorder_pending_message_records_checked_def Let_def
    by (auto intro!: tables_ok_write_queue split: option.split outcome.split prod.split)
qed

lemma tables_ok_consumed:
  assumes "tables_ok st" and "validate_append_only_delta (committed_log st t) (map (\<lambda>k. pm_message (pending_queue st t ! k)) ks) = Ok ()"
  shows "tables_ok (consumed t ks st)"
proof -
  let ?st = "st\<lparr>im_pending_messages :=
    AList.update t (normalize_pending_positions (unselected (pending_queue st t) ks)) (im_pending_messages st)\<rparr>"
  have "tables_ok ?st" by (intro tables_ok_write_queue assms(1) queue_ok_unselected tables_ok_queue)
  then show ?thesis
    using tables_ok_write_log [OF _ log_valid_append [OF tables_ok_log [OF assms(1)] assms(2)], of ?st t] by (simp add: consumed_def)
qed

lemma tables_ok_freeze: "tables_ok st \<Longrightarrow> tables_ok (snd (freeze_pending_message_records fresh t boundary expected st))"
proof -
  let ?st = "st\<lparr>im_messages := or_default t (im_messages st)\<rparr>"
  let ?ks = "select_pending_for_freeze_for_run (pending_queue ?st t) boundary None"
  assume "tables_ok st"
  then have ok: "tables_ok ?st" by (rule tables_ok_default)
  have inc: "increasing_below ?ks (length (pending_queue ?st t))" by (rule selection_increasing)
  have "tables_ok (snd (consume_selected fresh t ?ks ?st))"
    unfolding consume_selected_eq [OF inc] Let_def using ok tables_ok_consumed [OF ok, of t ?ks]
    by (auto split: outcome.split)
  with ok show ?thesis
    by (auto simp: freeze_pending_message_records_def Let_def select_pending_for_freeze_def pending_queue_def split: option.split)
qed

lemma tables_ok_freeze_expected:
  assumes "tables_ok st" and "RunRecord_validate_for_persist run = Ok ()"
  shows "tables_ok (snd (freeze_expected fresh now t boundary expected_ids run st))"
proof (cases "freeze_expected fresh now t boundary expected_ids run st")
  case (Pair r st')
  let ?st = "st\<lparr>im_messages := or_default t (im_messages st)\<rparr>"
  have ok: "tables_ok ?st" using assms(1) by (rule tables_ok_default)
  show ?thesis
  proof (cases "is_ok r")
    case True
    then obtain records where "r = Ok records" by (cases r) auto
    from freeze_expected_Ok [OF Pair [unfolded this]] show ?thesis
      using tables_ok_project_run [OF tables_ok_consumed [OF ok] assms(2)] Pair by auto
  next
    case False
    then show ?thesis using freeze_expected_not_Ok [OF Pair] assms(1) ok Pair by auto
  qed
qed

lemma tables_ok_freeze_with_run:
  "tables_ok st \<Longrightarrow> tables_ok (snd (freeze_pending_message_records_with_run fresh now t boundary expected expected_ids run st))"
  by (auto simp: freeze_pending_message_records_with_run_def Let_def first_error_Ok tables_ok_default
      intro!: tables_ok_freeze_expected split: outcome.split)

lemma tables_ok_append_and_freeze:
  assumes "tables_ok st"
  shows "tables_ok (snd (append_and_freeze_pending_message_records_with_run fresh fresh' now t ms mode boundary expected expected_ids run st))"
proof -
  let ?st = "st\<lparr>im_pending_messages := or_default t (im_pending_messages st)\<rparr>"
  have "tables_ok ?st" using assms by (rule tables_ok_default)
  then show ?thesis
    using queue_ok_build [OF tables_ok_queue [OF assms]] tables_ok_write_queue [of ?st] assms
    by (auto simp: append_and_freeze_pending_message_records_with_run_def Let_def first_error_Ok
        intro!: tables_ok_freeze_expected split: outcome.split)
qed

section \<open>Threads\<close>

lemma keyed_entry:
  "keyed threads \<Longrightarrow> map_of threads k = Some t \<Longrightarrow> th_id t = k \<and> normalize_lineage_id (th_parent_thread_id t) = th_parent_thread_id t"
  unfolding keyed_def by (rule table_lookup)

lemma keyed_update:
  "keyed threads \<Longrightarrow> th_id t = k \<Longrightarrow> normalize_lineage_id (th_parent_thread_id t) = th_parent_thread_id t \<Longrightarrow>
   keyed (AList.update k t threads)"
  unfolding keyed_def by (intro table_update) auto

lemma keyed_delete: "keyed threads \<Longrightarrow> keyed (AList.delete k threads)"
  unfolding keyed_def by (rule table_delete)

lemma keyed_project: "keyed (im_threads st) \<Longrightarrow> keyed (im_threads (project_run now t run st))"
  using projected_thread(1) [of run now] projected_thread(2)
  by (auto simp: project_run_def insert_run_def Let_def Thread_with_id_def dest: keyed_entry split: option.split intro!: keyed_update)

lemma keyed_save: "keyed (im_threads st) \<Longrightarrow> keyed (im_threads (snd (save_thread thread st)))"
  by (auto simp: save_thread_def Let_def projected_thread(2) split: outcome.split intro!: keyed_update)

lemma keyed_save_validated: "keyed (im_threads st) \<Longrightarrow> keyed (im_threads (snd (save_thread_validated thread st)))"
  by (auto simp: save_thread_validated_def Let_def projected_thread(2) split: outcome.split intro!: keyed_update)

lemma keyed_metadata: "keyed (im_threads st) \<Longrightarrow> keyed (im_threads (snd (update_thread_metadata t md st)))"
  by (auto simp: update_thread_metadata_def split: option.split intro!: keyed_update dest: keyed_entry)

lemma keyed_detach_child: "keyed threads \<Longrightarrow> keyed (detach_child now c threads)"
  unfolding detach_child_def Let_def
  by (auto simp: normalize_lineage_def split: option.splits intro!: keyed_update dest: keyed_entry)

lemma keyed_delete_with_strategy:
  assumes "keyed (im_threads st)"
  shows "keyed (im_threads (snd (delete_thread_with_strategy now t strategy st)))"
proof -
  have "keyed (im_threads (foldl (\<lambda>s i. remove_thread i s) st order))" for order
    using assms by (rule foldl_keeps [where P = "\<lambda>s. keyed (im_threads s)"]) (simp add: remove_thread_def keyed_delete)
  moreover have "keyed (foldl (\<lambda>threads c. detach_child now c threads) (im_threads st) cs)" for cs
    using assms by (rule foldl_keeps [where P = keyed]) (rule keyed_detach_child)
  ultimately show ?thesis
    using assms by (auto simp: delete_thread_with_strategy_def remove_thread_def keyed_delete
        split: outcome.split ChildThreadDeleteStrategy.split)
qed

text \<open>Saving a thread without the check is harmless where its parent is the stored one, or none.\<close>

lemma forest_save_kept:
  assumes "forest (im_threads st)"
    and "normalize_lineage_id (th_parent_thread_id thread) \<in> {None, parent_of (im_threads st) (th_id thread)}"
  shows "forest (im_threads (snd (save_thread thread st)))"
proof (cases "Thread_validate_for_persist (normalize_lineage thread)")
  case (Ok u)
  have "forest (AList.update (th_id (normalize_lineage thread)) (normalize_lineage thread) (im_threads st))"
  proof (rule forest_update [OF assms(1) refl projected_thread(2)])
    fix p
    assume "th_parent_thread_id (normalize_lineage thread) = Some p"
    then have "(th_id thread, p) \<in> hierarchy (im_threads st)"
      using assms(2) by (auto simp: normalize_lineage_def hierarchy_def)
    then show "(p, th_id (normalize_lineage thread)) \<notin> (hierarchy (im_threads st))\<^sup>*"
      using assms(1) by (auto simp: forest_def acyclic_def normalize_lineage_def dest: rtrancl_into_trancl2)
  qed
  with Ok show ?thesis by (simp add: save_thread_def Let_def)
qed (use assms(1) in \<open>simp_all add: save_thread_def Let_def\<close>)

lemma consumed_threads [simp]: "im_threads (snd (consume_selected fresh t ks st)) = im_threads st"
  by (simp add: consume_selected_def Let_def split: outcome.split prod.split)

text \<open>What a method that projects a run does to the threads.\<close>

definition projects :: "string \<Rightarrow> 'v RunRecord \<Rightarrow> ('v, 's) pending_store \<Rightarrow> ('v, 's) pending_store \<Rightarrow> bool" where
  "projects t run st st' \<longleftrightarrow> im_threads st' = im_threads st \<or>
     checkpoint_checks t run st = Ok () \<and> (\<exists>now. im_threads st' = im_threads (project_run now t run st))"

lemma project_run_threads: "im_threads st' = im_threads st \<Longrightarrow>
  im_threads (project_run now t run st') = im_threads (project_run now t run st)"
  by (simp add: project_run_def insert_run_def Let_def)

lemma projects_freeze_expected:
  assumes "checkpoint_checks t run st = Ok ()" and "im_threads st0 = im_threads st"
  shows "projects t run st (snd (freeze_expected fresh now t boundary expected_ids run st0))"
proof (cases "freeze_expected fresh now t boundary expected_ids run st0")
  case (Pair r st')
  show ?thesis
  proof (cases "is_ok r")
    case True
    then obtain records where r: "r = Ok records" by (cases r) auto
    from freeze_expected_Ok [OF Pair [unfolded r]]
    obtain s where "st' = project_run now t run s" "im_threads s = im_threads st"
      using assms(2) consumed_simps(3) [of t _ "st0\<lparr>im_messages := or_default t (im_messages st0)\<rparr>"] by fastforce
    then have "im_threads st' = im_threads (project_run now t run st)" using project_run_threads by blast
    then show ?thesis using assms(1) Pair by (auto simp: projects_def)
  next
    case False
    then show ?thesis using freeze_expected_not_Ok [OF Pair] assms(2) Pair by (auto simp: projects_def)
  qed
qed

lemma projecting_methods:
  "projects t run st (snd (checkpoint now t ms run st))"
  "projects t run st (snd (store_checkpoint_append now t ms version run st))"
  "projects t run st (snd (freeze_pending_message_records_with_run fresh now t boundary version ids run st))"
  "projects t run st (snd (append_and_freeze_pending_message_records_with_run fresh fresh' now t ms mode boundary version ids run st))"
proof -
  show "projects t run st (snd (checkpoint now t ms run st))"
    by (auto simp: projects_def checkpoint_def first_error_Ok split: outcome.split intro!: exI [of _ now] project_run_threads)
  show "projects t run st (snd (store_checkpoint_append now t ms version run st))"
    by (auto simp: projects_def store_checkpoint_append_def merge_and_project_def first_error_Ok Let_def
        split: outcome.split option.split prod.split intro!: exI [of _ now] project_run_threads)
  show "projects t run st (snd (freeze_pending_message_records_with_run fresh now t boundary version ids run st))"
    using projects_freeze_expected [of t run st]
    by (auto simp: freeze_pending_message_records_with_run_def first_error_Ok Let_def projects_def split: outcome.split)
  show "projects t run st (snd (append_and_freeze_pending_message_records_with_run fresh fresh' now t ms mode boundary version ids run st))"
    using projects_freeze_expected [of t run st]
    by (auto simp: append_and_freeze_pending_message_records_with_run_def first_error_Ok Let_def projects_def split: outcome.split)
qed

lemma keyed_projects: "projects t run st st' \<Longrightarrow> keyed (im_threads st) \<Longrightarrow> keyed (im_threads st')"
  by (auto simp: projects_def keyed_project)

lemma forest_projects: "projects t run st st' \<Longrightarrow> forest (im_threads st) \<Longrightarrow> forest (im_threads st')"
  by (auto simp: projects_def forest_project)

lemma other_methods_threads:
  "im_threads (snd (save_thread_state t state st)) = im_threads st"
  "im_threads (snd (save_messages t ms st)) = im_threads st"
  "im_threads (snd (append_message_records fresh t ms st)) = im_threads st"
  "im_threads (snd (delete_messages t st)) = im_threads st"
  "im_threads (snd (create_run run st)) = im_threads st"
  "im_threads (snd (append_pending_message_records fresh now t ms mode st)) = im_threads st"
  "im_threads (snd (update_pending_message_record_checked now t i rv m st)) = im_threads st"
  "im_threads (snd (retract_pending_message_record_checked t i rv st)) = im_threads st"
  "im_threads (snd (reorder_pending_message_records_checked now t rv ordered st)) = im_threads st"
  "im_threads (snd (freeze_pending_message_records fresh t boundary version st)) = im_threads st"
  by (auto simp: save_thread_state_def save_messages_def append_message_records_def delete_messages_def create_run_def
      insert_run_def append_pending_message_records_def update_pending_message_record_checked_def
      retract_pending_message_record_checked_def reorder_pending_message_records_checked_def
      freeze_pending_message_records_def Let_def split: outcome.split option.split prod.split)

section \<open>Calls of the store\<close>

text \<open>
  One call of a method, whatever its arguments and outcome. A \<open>careful\<close> call uses the low-level
  \<^const>\<open>save_thread\<close>, which skips the hierarchy check, only as its documentation asks: not to change
  the parent of a thread other than to none.
\<close>

inductive store_call :: "bool \<Rightarrow> ('v, 's) pending_store \<Rightarrow> ('v, 's) pending_store \<Rightarrow> bool" for careful where
  save_thread: "(careful \<Longrightarrow> normalize_lineage_id (th_parent_thread_id thread) \<in> {None, parent_of (im_threads st) (th_id thread)}) \<Longrightarrow>
    store_call careful st (snd (save_thread thread st))"
| save_thread_validated: "store_call careful st (snd (save_thread_validated thread st))"
| delete_thread: "store_call careful st (snd (delete_thread t st))"
| delete_thread_strategy: "store_call careful st (snd (delete_thread_with_strategy now t strategy st))"
| save_state: "store_call careful st (snd (save_thread_state t state st))"
| metadata: "store_call careful st (snd (update_thread_metadata t md st))"
| save_messages: "store_call careful st (snd (save_messages t ms st))"
| append_messages: "store_call careful st (snd (append_message_records fresh t ms st))"
| delete_messages: "store_call careful st (snd (delete_messages t st))"
| create_run: "store_call careful st (snd (create_run run st))"
| checkpoint: "store_call careful st (snd (checkpoint now t ms run st))"
| checkpoint_append: "store_call careful st (snd (store_checkpoint_append now t ms version run st))"
| append_pending: "store_call careful st (snd (append_pending_message_records fresh now t ms mode st))"
| update_pending: "store_call careful st (snd (update_pending_message_record_checked now t i rv m st))"
| retract_pending: "store_call careful st (snd (retract_pending_message_record_checked t i rv st))"
| reorder_pending: "store_call careful st (snd (reorder_pending_message_records_checked now t rv ordered st))"
| freeze_pending: "store_call careful st (snd (freeze_pending_message_records fresh t boundary version st))"
| freeze_with_run: "store_call careful st (snd (freeze_pending_message_records_with_run fresh now t boundary version ids run st))"
| append_and_freeze: "store_call careful st (snd (append_and_freeze_pending_message_records_with_run fresh fresh' now t ms mode
    boundary version ids run st))"

lemma store_call_tables: "store_call careful st st' \<Longrightarrow> tables_ok st \<Longrightarrow> tables_ok st'"
proof (induction rule: store_call.induct)
  case (save_thread thread st)
  then show ?case by (auto simp: save_thread_def Let_def split: outcome.splits)
next
  case (save_thread_validated st thread)
  then show ?case by (auto simp: save_thread_validated_def Let_def split: outcome.splits)
next
  case (metadata st t md)
  then show ?case by (auto simp: update_thread_metadata_def split: option.splits)
next
  case (delete_messages st t)
  then show ?case by (auto simp: delete_messages_def tables_ok_def)
qed (simp_all add: delete_thread_def save_thread_state_def tables_ok_remove tables_ok_delete_with_strategy tables_ok_save_messages
  tables_ok_append_message_records tables_ok_create_run tables_ok_checkpoint tables_ok_checkpoint_append tables_ok_append_pending
  tables_ok_update_pending tables_ok_retract_pending tables_ok_reorder_pending tables_ok_freeze tables_ok_freeze_with_run
  tables_ok_append_and_freeze)

lemma store_call_keyed: "store_call careful st st' \<Longrightarrow> keyed (im_threads st) \<Longrightarrow> keyed (im_threads st')"
  by (induction rule: store_call.induct)
    (auto simp: other_methods_threads keyed_save keyed_save_validated keyed_metadata keyed_delete_with_strategy
      delete_thread_def remove_thread_def keyed_delete intro: keyed_projects projecting_methods)

lemma store_call_forest: "store_call True st st' \<Longrightarrow> forest (im_threads st) \<Longrightarrow> forest (im_threads st')"
  by (induction rule: store_call.induct)
    (auto simp: other_methods_threads forest_save_kept forest_save_thread_validated forest_update_metadata
      forest_delete_with_strategy delete_thread_def remove_thread_def forest_delete intro: forest_projects projecting_methods)

lemma store_call_careful: "store_call True st st' \<Longrightarrow> store_call False st st'"
  by (erule store_call.cases) (auto intro: store_call.intros)

lemma store_call_ok: "store_call True st st' \<Longrightarrow> store_ok st \<Longrightarrow> store_ok st'"
  using store_call_tables store_call_forest by (auto simp: store_ok_def)

lemma store_ok_new: "store_ok InMemoryStore_new"
  using forest_new tables_ok_new by (simp add: store_ok_def)

lemma records_ok_new: "records_ok InMemoryStore_new"
  using tables_ok_new by (simp add: records_ok_def keyed_def table_ok_def InMemoryStore_new_def)

lemma store_ok_checkpoint_append: "store_ok st \<Longrightarrow> store_ok (snd (store_checkpoint_append now t ms version run st))"
  by (rule store_call_ok [OF store_call.checkpoint_append])

lemma calls_records_ok: "(store_call careful)\<^sup>*\<^sup>* InMemoryStore_new st \<Longrightarrow> records_ok st"
proof (induction rule: rtranclp_induct)
  case base
  show ?case by (rule records_ok_new)
next
  case (step st st')
  then show ?case using store_call_tables store_call_keyed by (auto simp: records_ok_def)
qed

lemma calls_forest: "(store_call True)\<^sup>*\<^sup>* InMemoryStore_new st \<Longrightarrow> forest (im_threads st)"
  by (induction rule: rtranclp_induct) (auto simp: forest_new intro: store_call_forest)

text \<open>
  C7: After any calls on a new store, whatever their outcome, threads are stored under their own
  normalised ids; every log passes the check that loading it repeats, so it holds well-formed messages
  with distinct ids; every queue is numbered from 1 without duplicate ids and its entries carry their
  thread and message id; and every stored run passes the checks of a persisted run. If none of the calls
  used the unchecked \<^const>\<open>save_thread\<close> to change a parent, the threads also form a forest.
\<close>

theorem store_invariant:
  assumes "(store_call careful)\<^sup>*\<^sup>* InMemoryStore_new st"
  shows "records_ok st \<and> (careful \<longrightarrow> forest (im_threads st))"
  using assms calls_records_ok calls_forest by (cases careful) auto

definition one_waiting :: "(unit, unit) pending_store" where
  "one_waiting = snd (append_pending_message_records (\<lambda>_. ''fresh'') 0 ''t'' [user_message ''q'' ''now''] (next_step_mode Batch)
     InMemoryStore_new)"

lemma store_invariant_witness:
  "records_ok one_waiting \<and> forest (im_threads one_waiting) \<and> map pm_pending_id (pending_queue one_waiting ''t'') = [''q'']"
proof -
  have "(store_call True)\<^sup>*\<^sup>* InMemoryStore_new one_waiting"
    unfolding one_waiting_def by (rule r_into_rtranclp) (rule append_pending)
  from store_invariant [OF this] have "records_ok one_waiting \<and> forest (im_threads one_waiting)" by simp
  moreover have "map pm_pending_id (pending_queue one_waiting ''t'') = [''q'']" by code_simp
  ultimately show ?thesis by blast
qed

text \<open>The unchecked call does store a cycle of parents.\<close>

lemma unchecked_save_closes_cycle:
  "let child = (\<lambda>i p. (Thread_with_id i)\<lparr>th_parent_thread_id := Some p\<rparr>);
       st = snd (save_thread (child ''a'' ''b'') (snd (save_thread (child ''b'' ''a'') (InMemoryStore_new :: (unit, unit) pending_store))))
   in parent_of (im_threads st) ''a'' = Some ''b'' \<and> parent_of (im_threads st) ''b'' = Some ''a''"
  by code_simp

section \<open>Appending and freezing in one call\<close>

text \<open>When the combined call succeeds, it is the append followed by the freeze.\<close>

lemma append_and_freeze_composes:
  assumes "append_and_freeze_pending_message_records_with_run fresh fresh' now t ms mode boundary version ids run st = (Ok records, st')"
  shows "\<exists>new st1. append_pending_message_records fresh now t ms mode st = (Ok new, st1) \<and>
    freeze_pending_message_records_with_run fresh' now t boundary version ids run st1 = (Ok records, st')"
proof -
  let ?st = "st\<lparr>im_pending_messages := or_default t (im_pending_messages st)\<rparr>"
  let ?new = "build_pending fresh (now div 1000) t (of_nat (length (pending_queue st t)) + 1) mode ms"
  let ?st1 = "?st\<lparr>im_pending_messages := AList.update t (pending_queue st t @ ?new) (im_pending_messages ?st)\<rparr>"
  have ok: "RunRecord_validate_for_persist run = Ok ()" "checkpoint_checks t run st = Ok ()"
    "version \<noteq> None \<longrightarrow> version = Some (of_nat (length (committed_log st t)))"
    and new: "check_new_pending (committed_log st t) (map pm_pending_id (pending_queue st t)) ?new = Ok ()"
    and freeze: "freeze_expected fresh' now t boundary ids run ?st1 = (Ok records, st')"
    using assms by (auto simp: append_and_freeze_pending_message_records_with_run_def Let_def first_error_Ok
        split: outcome.splits if_splits)
  have "or_default t (im_pending_messages ?st1) = im_pending_messages ?st1" by (simp add: or_default_def)
  moreover have "checkpoint_checks t run ?st1 = Ok ()" using ok(2) by (simp add: checkpoint_checks_def)
  ultimately have "freeze_pending_message_records_with_run fresh' now t boundary version ids run ?st1 = (Ok records, st')"
    using ok(1,3) freeze by (auto simp: freeze_pending_message_records_with_run_def first_error.simps)
  moreover have "append_pending_message_records fresh now t ms mode st = (Ok ?new, ?st1)"
    using new by (simp add: append_pending_message_records_def Let_def)
  ultimately show ?thesis by blast
qed

text \<open>
  When it fails at the selection, the appended entries stay behind in the queue: another caller's entry
  that arrived in between makes the call fail, and a retry fails too, now on the ids left behind.
\<close>

definition late_arrival :: "(unit, unit) pending_store" where
  "late_arrival = InMemoryStore_new\<lparr>im_pending_messages :=
     [(''t'', build_pending (\<lambda>_. ''fresh'') 0 ''t'' 1 (next_step_mode Batch) [user_message ''p'' ''other''])]\<rparr>"

definition append_and_freeze_q :: "string list \<Rightarrow> (unit, unit) pending_store \<Rightarrow> (unit MessageRecord list, unit, unit) pending_method" where
  "append_and_freeze_q ids = append_and_freeze_pending_message_records_with_run (\<lambda>_. ''fresh'') (\<lambda>_. ''fresh'') 5 ''t''
     [user_message ''q'' ''mine''] (next_step_mode Batch) At_NextStep None ids (sample_run ''r'' ''t'')"

lemma append_and_freeze_leaves_orphans:
  "fst (append_and_freeze_q [''q''] late_arrival) = Err (PendingSelectionConflict [''q''] [''p'', ''q'']) \<and>
   map pm_pending_id (pending_queue (snd (append_and_freeze_q [''q''] late_arrival)) ''t'') = [''p'', ''q''] \<and>
   fst (append_and_freeze_q [''p'', ''q''] (snd (append_and_freeze_q [''q''] late_arrival))) = Err (duplicate_pending_id ''q'')"
  by (intro conjI; code_simp)

section \<open>The store behind a checkpoint\<close>

text \<open>
  The version-guarded append that the checkpoint loop of \<open>Checkpoint_Log\<close> is stated over is what a
  checkpoint does to the log of its thread.
\<close>

lemma checkpoint_refines_append:
  assumes "RunRecord_validate_for_persist run = Ok ()" and "checkpoint_checks t run st = Ok ()"
  shows "fst (store_checkpoint_append now t ms version run st) = fst (checkpoint_append (committed_log st t) ms version) \<and>
    committed_log (snd (store_checkpoint_append now t ms version run st)) =
      (committed_log st)(t := snd (checkpoint_append (committed_log st t) ms version))"
proof -
  have "fst (merge_and_project now t ms run st) = fst (checkpoint_append (committed_log st t) ms None) \<and>
      committed_log (snd (merge_and_project now t ms run st)) =
      (committed_log st)(t := snd (checkpoint_append (committed_log st t) ms None))"
    by (cases "validate_append_only_delta (committed_log st t) ms")
      (simp_all add: merge_and_project_def checkpoint_append_def Let_def merge_checkpoint_append_eq fun_upd_idem)
  moreover have "first_error [RunRecord_validate_for_persist run, checkpoint_checks t run st] = Ok ()"
    using assms by (simp add: first_error_Ok)
  ultimately show ?thesis
    by (cases version) (auto simp: store_checkpoint_append_def checkpoint_append_def Let_def fun_upd_idem)
qed

section \<open>Overlapping checkpoints\<close>

text \<open>
  One call that neither deletes nor replaces the log of the thread \<open>t\<close>; it may append to it, through
  whatever method, or do anything to other threads.
\<close>

inductive appending_call :: "string \<Rightarrow> ('v, 's) pending_store \<Rightarrow> ('v, 's) pending_store \<Rightarrow> bool" for t where
  "appending_call t st (snd (save_thread thread st))"
| "appending_call t st (snd (save_thread_validated thread st))"
| "t' \<noteq> t \<Longrightarrow> appending_call t st (snd (delete_thread t' st))"
| "appending_call t st (snd (save_thread_state t' state st))"
| "appending_call t st (snd (update_thread_metadata t' md st))"
| "t' \<noteq> t \<Longrightarrow> appending_call t st (snd (save_messages t' ms st))"
| "appending_call t st (snd (append_message_records fresh t' ms st))"
| "t' \<noteq> t \<Longrightarrow> appending_call t st (snd (delete_messages t' st))"
| "appending_call t st (snd (create_run run st))"
| "t' \<noteq> t \<Longrightarrow> appending_call t st (snd (checkpoint now t' ms run st))"
| "appending_call t st (snd (store_checkpoint_append now t' ms version run st))"
| "appending_call t st (snd (append_pending_message_records fresh now t' ms mode st))"
| "appending_call t st (snd (update_pending_message_record_checked now t' i rv m st))"
| "appending_call t st (snd (retract_pending_message_record_checked t' i rv st))"
| "appending_call t st (snd (reorder_pending_message_records_checked now t' rv ordered st))"
| "appending_call t st (snd (freeze_pending_message_records fresh t' boundary version st))"
| "appending_call t st (snd (freeze_pending_message_records_with_run fresh now t' boundary version ids run st))"
| "appending_call t st (snd (append_and_freeze_pending_message_records_with_run fresh fresh' now t' ms mode boundary
    version ids run st))"
| "committed_log (snd (delete_thread_with_strategy now t' strategy st)) t = committed_log st t \<Longrightarrow>
    appending_call t st (snd (delete_thread_with_strategy now t' strategy st))"

lemma committed_log_threads [simp]:
  "committed_log (st\<lparr>im_threads := ts\<rparr>) = committed_log st" "committed_log (st\<lparr>im_thread_states := ss\<rparr>) = committed_log st"
  "committed_log (insert_run run st) = committed_log st"
  by (simp_all add: fun_eq_iff committed_log_def insert_run_def)

lemma committed_log_delete: "committed_log (st\<lparr>im_messages := AList.delete t' (im_messages st)\<rparr>) = (committed_log st)(t' := [])"
  by (auto simp: fun_eq_iff committed_log_def map_of_delete_if)

lemma committed_log_remove: "t' \<noteq> t \<Longrightarrow> committed_log (remove_thread t' st) t = committed_log st t"
  by (simp add: committed_log_def remove_thread_def map_of_delete_if)

lemma consume_selected_log: "prefix (committed_log st t) (committed_log (snd (consume_selected fresh t' ks st)) t)"
  by (auto simp: consume_selected_def Let_def committed_log_def split: outcome.split prod.split)

lemma freeze_expected_log: "prefix (committed_log st t) (committed_log (snd (freeze_expected fresh now t' boundary ids run st)) t)"
proof -
  let ?st = "st\<lparr>im_messages := or_default t' (im_messages st)\<rparr>"
  let ?ks = "select_pending_for_freeze_for_run (pending_queue st t') boundary (Some (rr_run_id run))"
  show ?thesis
    using consume_selected_log [of ?st t fresh t' ?ks]
    by (cases "consume_selected fresh t' ?ks ?st") (auto simp: freeze_expected_def Let_def split: outcome.split)
qed

lemma appending_call_log: "appending_call t st st' \<Longrightarrow> prefix (committed_log st t) (committed_log st' t)"
proof (induction rule: appending_call.induct)
  case (16 st fresh t' boundary version)
  then show ?case
    using consume_selected_log [of "st\<lparr>im_messages := or_default t' (im_messages st)\<rparr>" t fresh t'
        "select_pending_for_freeze (the (map_of (im_pending_messages st) t')) boundary"]
    by (auto simp: freeze_pending_message_records_def Let_def split: option.split)
next
  case (17 st fresh now t' boundary version ids run)
  then show ?case
    using freeze_expected_log [of "st\<lparr>im_pending_messages := or_default t' (im_pending_messages st)\<rparr>" t]
    by (auto simp: freeze_pending_message_records_with_run_def Let_def split: outcome.split)
next
  case (18 st fresh fresh' now t' ms mode boundary version ids run)
  let ?q = "AList.update t' (pending_queue (st\<lparr>im_pending_messages := or_default t' (im_pending_messages st)\<rparr>) t' @
    build_pending fresh (now div 1000) t' (of_nat (length (pending_queue (st\<lparr>im_pending_messages := or_default t' (im_pending_messages st)\<rparr>) t')) + 1) mode ms)
    (or_default t' (im_pending_messages st))"
  show ?case
    using freeze_expected_log [of "st\<lparr>im_pending_messages := ?q\<rparr>" t fresh' now t' boundary ids run]
    by (auto simp: append_and_freeze_pending_message_records_with_run_def Let_def split: outcome.split)
qed (auto simp: save_thread_def save_thread_validated_def delete_thread_def save_thread_state_def update_thread_metadata_def
    save_messages_def append_message_records_def delete_messages_def create_run_def checkpoint_def
    store_checkpoint_append_def merge_and_project_def merge_checkpoint_append_eq append_pending_message_records_def
    update_pending_message_record_checked_def retract_pending_message_record_checked_def
    reorder_pending_message_records_checked_def committed_log_delete committed_log_remove Let_def
    split: outcome.split option.split prod.split)

text \<open>
  C16: Of overlapping checkpoints on one thread at most one succeeds. Once a checkpoint that expects a
  version has appended something, the log keeps it, and every later checkpoint that expects the same
  version is refused and changes nothing, whatever was called in between that did not delete or replace
  the log.
\<close>

theorem checkpoints_exclusive:
  assumes "store_checkpoint_append now t ms (Some v) run st = (Ok v', st1)" and "ms \<noteq> []"
    and "(appending_call t)\<^sup>*\<^sup>* st1 st2" and "length (committed_log st2 t) < 2 ^ 64"
  shows "prefix (committed_log st t @ ms) (committed_log st2 t) \<and>
    \<not> is_ok (fst (store_checkpoint_append now' t ms' (Some v) run' st2)) \<and>
    snd (store_checkpoint_append now' t ms' (Some v) run' st2) = st2"
proof -
  have v: "v = of_nat (length (committed_log st t))" and log1: "committed_log st1 t = committed_log st t @ ms"
    using assms(1)
    by (auto simp: store_checkpoint_append_def merge_and_project_def merge_checkpoint_append_eq map_ok_eq_Ok_iff Let_def
        split: outcome.splits if_splits prod.splits)
  have "prefix (committed_log st1 t) (committed_log st2 t)"
    using assms(3) by (induction rule: rtranclp_induct) (auto dest: appending_call_log intro: prefix_order.trans)
  then have p: "prefix (committed_log st t @ ms) (committed_log st2 t)" by (simp add: log1)
  then have "length (committed_log st t) < length (committed_log st2 t)"
    using assms(2) prefix_length_le [OF p] by (cases ms) auto
  then have "v \<noteq> of_nat (length (committed_log st2 t))"
    using assms(4) unfolding v by (simp add: word_of_nat_eq_iff take_bit_nat_eq_self)
  then have "\<not> is_ok (fst (store_checkpoint_append now' t ms' (Some v) run' st2)) \<and>
      snd (store_checkpoint_append now' t ms' (Some v) run' st2) = st2"
    by (auto simp: store_checkpoint_append_def Let_def split: outcome.split)
  with p show ?thesis by blast
qed

lemma checkpoints_exclusive_witness:
  "\<exists>st2. (appending_call ''t'')\<^sup>*\<^sup>* (InMemoryStore_new :: (unit, unit) pending_store) st2 \<and>
     committed_log st2 ''t'' = [user_message ''q'' ''now'', user_message ''r'' ''then''] \<and>
     \<not> is_ok (fst (store_checkpoint_append 9 ''t'' [user_message ''p'' ''stale''] (Some 0) (sample_run ''s'' ''t'') st2))"
proof -
  let ?new = "InMemoryStore_new :: (unit, unit) pending_store"
  let ?c = "store_checkpoint_append 5 ''t'' [user_message ''q'' ''now''] (Some 0) (sample_run ''r'' ''t'') ?new"
  let ?st2 = "snd (append_message_records (\<lambda>_. ''fresh'') ''t'' [user_message ''r'' ''then''] (snd ?c))"
  have "fst ?c = Ok 1" by code_simp
  then have c: "?c = (Ok 1, snd ?c)" by (metis prod.collapse)
  have rest: "(appending_call ''t'')\<^sup>*\<^sup>* (snd ?c) ?st2" by (rule r_into_rtranclp) (rule appending_call.intros)
  have all: "(appending_call ''t'')\<^sup>*\<^sup>* ?new ?st2"
    by (rule converse_rtranclp_into_rtranclp [OF _ rest]) (rule appending_call.intros)
  have log: "committed_log ?st2 ''t'' = [user_message ''q'' ''now'', user_message ''r'' ''then'']" by code_simp
  have "\<not> is_ok (fst (store_checkpoint_append 9 ''t'' [user_message ''p'' ''stale''] (Some 0) (sample_run ''s'' ''t'') ?st2))"
    using checkpoints_exclusive [OF c _ rest] log by simp
  then show ?thesis using log all by blast
qed

end
