(* ===== verification/Store_Queries.thy ===== *)
theory Store_Queries
  imports Store_Invariant
begin

text \<open>
  Filters, pages and cursors of the thread, message and run listings
  (\<^verbatim>\<open>awaken-server-contract/src/contract/storage.rs\<close>), their use by the in-memory store, and the
  default methods of the store traits that are built on them
  (\<^verbatim>\<open>awaken-server-contract/src/contract/store_traits.rs\<close>). Offsets and counts are natural numbers: an
  offset that is advanced is below the number of stored entries. How a cursor token is serialised is a
  parameter.
\<close>

section \<open>Queries\<close>

datatype ThreadParentFilter = AnyParent | RootOnly | ParentIs string

definition ThreadParentFilter_normalized :: "ThreadParentFilter \<Rightarrow> ThreadParentFilter" where
  "ThreadParentFilter_normalized f = (case f of
      ParentIs p \<Rightarrow> (case normalize_lineage_id (Some p) of None \<Rightarrow> AnyParent | Some q \<Rightarrow> ParentIs q)
    | _ \<Rightarrow> f)"

record ThreadQuery =
  tq_offset :: nat
  tq_limit :: nat
  tq_resource_id :: "string option"
  tq_parent_filter :: ThreadParentFilter
  tq_id_prefix :: "string option"

definition default_thread_query :: ThreadQuery where
  "default_thread_query = \<lparr>tq_offset = 0, tq_limit = 50, tq_resource_id = None, tq_parent_filter = AnyParent, tq_id_prefix = None\<rparr>"

definition has_filters :: "ThreadQuery \<Rightarrow> bool" where
  "has_filters q \<longleftrightarrow> normalize_lineage_id (tq_resource_id q) \<noteq> None \<or> tq_parent_filter q \<noteq> AnyParent \<or> tq_id_prefix q \<noteq> None"

definition ThreadQuery_normalized :: "ThreadQuery \<Rightarrow> ThreadQuery" where
  "ThreadQuery_normalized q = q\<lparr>tq_limit := min (tq_limit q) 200, tq_resource_id := normalize_lineage_id (tq_resource_id q),
     tq_parent_filter := ThreadParentFilter_normalized (tq_parent_filter q)\<rparr>"

definition matches_thread :: "ThreadQuery \<Rightarrow> 'v Thread \<Rightarrow> bool" where
  "matches_thread query thread \<longleftrightarrow>
     (let q = ThreadQuery_normalized query
      in (case tq_id_prefix q of None \<Rightarrow> True | Some p \<Rightarrow> prefix p (th_id thread)) \<and>
         (case tq_resource_id q of None \<Rightarrow> True | Some r \<Rightarrow> normalize_lineage_id (th_resource_id thread) = Some r) \<and>
         (case tq_parent_filter q of
            AnyParent \<Rightarrow> True
          | RootOnly \<Rightarrow> normalize_lineage_id (th_parent_thread_id thread) = None
          | ParentIs p \<Rightarrow> normalize_lineage_id (th_parent_thread_id thread) = Some p))"

datatype MessageOrder = Asc | Desc

datatype MessageVisibilityFilter = AnyVisibility | External | Internal

record MessageQuery =
  mq_offset :: nat
  mq_limit :: nat
  mq_after :: "u64 option"
  mq_before :: "u64 option"
  mq_order :: MessageOrder
  mq_visibility :: MessageVisibilityFilter
  mq_run_id :: "string option"

definition default_message_query :: MessageQuery where
  "default_message_query = \<lparr>mq_offset = 0, mq_limit = 50, mq_after = None, mq_before = None, mq_order = Asc,
     mq_visibility = AnyVisibility, mq_run_id = None\<rparr>"

definition MessageQuery_normalized :: "MessageQuery \<Rightarrow> MessageQuery" where
  "MessageQuery_normalized q = q\<lparr>mq_limit := min (mq_limit q) 200\<rparr>"

definition matches_record :: "MessageQuery \<Rightarrow> 'v MessageRecord \<Rightarrow> bool" where
  "matches_record q r \<longleftrightarrow>
     (case mq_after q of None \<Rightarrow> True | Some a \<Rightarrow> a < mr_seq r) \<and>
     (case mq_before q of None \<Rightarrow> True | Some b \<Rightarrow> mr_seq r < b) \<and>
     (case mq_run_id q of None \<Rightarrow> True | Some run \<Rightarrow> mr_produced_by_run_id r = Some run) \<and>
     (case mq_visibility q of
        AnyVisibility \<Rightarrow> True
      | External \<Rightarrow> msg_visibility (mr_message r) \<noteq> VisInternal
      | Internal \<Rightarrow> msg_visibility (mr_message r) = VisInternal)"

record RunQuery =
  rq_offset :: nat
  rq_limit :: nat
  rq_thread_id :: "string option"
  rq_status :: "RunStatus option"
  rq_id_prefix :: "string option"

definition default_run_query :: RunQuery where
  "default_run_query = \<lparr>rq_offset = 0, rq_limit = 50, rq_thread_id = None, rq_status = None, rq_id_prefix = None\<rparr>"

definition matches_id_prefix :: "RunQuery \<Rightarrow> string \<Rightarrow> bool" where
  "matches_id_prefix q t \<longleftrightarrow> (case rq_id_prefix q of None \<Rightarrow> True | Some p \<Rightarrow> prefix p t)"

section \<open>Cursors\<close>

record ThreadCursorToken =
  tk_offset :: nat
  tk_resource_id :: "string option"
  tk_parent_filter :: ThreadParentFilter
  tk_id_prefix :: "string option"

record MessageCursorToken =
  mk_offset :: nat
  mk_after :: "u64 option"
  mk_before :: "u64 option"
  mk_order :: MessageOrder
  mk_visibility :: MessageVisibilityFilter
  mk_run_id :: "string option"

text \<open>JSON and base64 of a token, and back.\<close>

record 't CursorCodec =
  cc_write :: "'t \<Rightarrow> string"
  cc_read :: "string \<Rightarrow> 't option"

definition MESSAGE_CURSOR_PREFIX :: string where "MESSAGE_CURSOR_PREFIX = ''msg_''"
definition THREAD_CURSOR_PREFIX :: string where "THREAD_CURSOR_PREFIX = ''thr_''"

definition encode_cursor_token :: "'t CursorCodec \<Rightarrow> string \<Rightarrow> 't \<Rightarrow> string" where
  "encode_cursor_token cc p token = p @ cc_write cc token"

definition decode_cursor_token :: "'t CursorCodec \<Rightarrow> string \<Rightarrow> string \<Rightarrow> ('t, string) outcome" where
  "decode_cursor_token cc p cursor =
     (case Option.bind (strip_prefix p cursor) (cc_read cc) of
        None \<Rightarrow> Err ''cursor must be a valid pagination token''
      | Some token \<Rightarrow> Ok token)"

text \<open>\<open>str::parse::<usize>\<close>: decimal digits after an optional plus sign, below \<open>2\<^sup>6\<^sup>4\<close>.\<close>

definition parse_usize :: "string \<Rightarrow> nat option" where
  "parse_usize s =
     (let ds = (case s of c # r \<Rightarrow> if c = CHR ''+'' then r else s | [] \<Rightarrow> s);
          n = foldl (\<lambda>n c. 10 * n + (int (of_char c) - 48)) 0 ds
      in if ds \<noteq> [] \<and> list_all is_digit ds \<and> n < 18446744073709551616 then Some (nat n) else None)"

definition thread_token :: "ThreadQuery \<Rightarrow> nat \<Rightarrow> ThreadCursorToken" where
  "thread_token query offset = (let q = ThreadQuery_normalized query
     in \<lparr>tk_offset = offset, tk_resource_id = tq_resource_id q, tk_parent_filter = tq_parent_filter q, tk_id_prefix = tq_id_prefix q\<rparr>)"

definition encode_thread_cursor :: "ThreadCursorToken CursorCodec \<Rightarrow> ThreadQuery \<Rightarrow> nat \<Rightarrow> string" where
  "encode_thread_cursor cc query offset = encode_cursor_token cc THREAD_CURSOR_PREFIX (thread_token query offset)"

definition decode_thread_cursor :: "ThreadCursorToken CursorCodec \<Rightarrow> ThreadQuery \<Rightarrow> string \<Rightarrow> (nat, string) outcome" where
  "decode_thread_cursor cc query cursor =
     (let q = ThreadQuery_normalized query
      in case parse_usize cursor of
           Some offset \<Rightarrow> if has_filters q then Err ''cursor does not match thread query filters'' else Ok offset
         | None \<Rightarrow> and_then (decode_cursor_token cc THREAD_CURSOR_PREFIX cursor) (\<lambda>token.
             if tk_resource_id token \<noteq> tq_resource_id q \<or> tk_parent_filter token \<noteq> tq_parent_filter q \<or>
               tk_id_prefix token \<noteq> tq_id_prefix q
             then Err ''cursor does not match thread query filters'' else Ok (tk_offset token)))"

definition message_token :: "MessageQuery \<Rightarrow> nat \<Rightarrow> MessageCursorToken" where
  "message_token q offset = \<lparr>mk_offset = offset, mk_after = mq_after q, mk_before = mq_before q, mk_order = mq_order q,
     mk_visibility = mq_visibility q, mk_run_id = mq_run_id q\<rparr>"

definition encode_message_cursor :: "MessageCursorToken CursorCodec \<Rightarrow> MessageQuery \<Rightarrow> nat \<Rightarrow> string" where
  "encode_message_cursor cc query offset = encode_cursor_token cc MESSAGE_CURSOR_PREFIX (message_token query offset)"

definition decode_message_cursor :: "MessageCursorToken CursorCodec \<Rightarrow> MessageQuery \<Rightarrow> string \<Rightarrow> (nat, string) outcome" where
  "decode_message_cursor cc query cursor =
     (case parse_usize cursor of
        Some offset \<Rightarrow> Ok offset
      | None \<Rightarrow> and_then (decode_cursor_token cc MESSAGE_CURSOR_PREFIX cursor) (\<lambda>token.
          if mk_after token \<noteq> mq_after query \<or> mk_before token \<noteq> mq_before query \<or> mk_order token \<noteq> mq_order query \<or>
            mk_visibility token \<noteq> mq_visibility query \<or> mk_run_id token \<noteq> mq_run_id query
          then Err ''cursor does not match message query filters'' else Ok (mk_offset token)))"

section \<open>Pages\<close>

text \<open>A thread page and a message page have the same fields, around items of different types.\<close>

record 'i Page =
  pg_items :: "'i list"
  pg_total :: nat
  pg_has_more :: bool
  pg_next_cursor :: "string option"
  pg_prev_cursor :: "string option"

definition empty_page :: "'i Page" where
  "empty_page = \<lparr>pg_items = [], pg_total = 0, pg_has_more = False, pg_next_cursor = None, pg_prev_cursor = None\<rparr>"

text \<open>The part both paginations share, on the filtered and sorted entries.\<close>

definition page_of :: "(nat \<Rightarrow> string) \<Rightarrow> nat \<Rightarrow> nat \<Rightarrow> 'i list \<Rightarrow> 'i Page" where
  "page_of cursor offset limit entries =
     (let total = length entries; start = min offset total;
          items = take limit (drop start entries); next_offset = start + length items;
          more = (0 < limit \<and> next_offset < total)
      in \<lparr>pg_items = items, pg_total = total, pg_has_more = more,
          pg_next_cursor = (if more then Some (cursor next_offset) else None),
          pg_prev_cursor = (if 0 < limit \<and> 0 < start then Some (cursor (start - limit)) else None)\<rparr>)"

definition paginate_threads :: "ThreadCursorToken CursorCodec \<Rightarrow> 'v Thread list \<Rightarrow> ThreadQuery \<Rightarrow> string Page" where
  "paginate_threads cc threads query =
     (let q = ThreadQuery_normalized query
      in page_of (encode_thread_cursor cc q) (tq_offset q) (tq_limit q)
           (map th_id (filter (matches_thread q) (sort_threads_by_recent_activity threads))))"

definition sort_records :: "MessageOrder \<Rightarrow> 'v MessageRecord list \<Rightarrow> 'v MessageRecord list" where
  "sort_records order rs = (case order of Asc \<Rightarrow> sort_key (\<lambda>r. uint (mr_seq r)) rs | Desc \<Rightarrow> sort_key (\<lambda>r. - uint (mr_seq r)) rs)"

definition paginate_message_records ::
  "MessageCursorToken CursorCodec \<Rightarrow> 'v MessageRecord list \<Rightarrow> MessageQuery \<Rightarrow> 'v MessageRecord Page" where
  "paginate_message_records cc records query =
     (let q = MessageQuery_normalized query
      in page_of (encode_message_cursor cc q) (mq_offset q) (mq_limit q)
           (sort_records (mq_order q) (filter (matches_record q) records)))"

record 'v RunPage =
  rp_items :: "'v RunRecord list"
  rp_total :: nat
  rp_has_more :: bool

section \<open>The in-memory store\<close>

definition list_threads_query :: "ThreadCursorToken CursorCodec \<Rightarrow> ThreadQuery \<Rightarrow> ('v, 'p, 's) InMemoryStore \<Rightarrow> string Page" where
  "list_threads_query cc query st = paginate_threads cc (hm_values (im_threads st)) query"

definition record_error :: "string \<Rightarrow> string \<Rightarrow> StorageError" where
  "record_error i rest = Validation (''committed message record '' @ quoted i @ rest)"

definition validate_committed_message_records :: "string \<Rightarrow> 'v MessageRecord list \<Rightarrow> unit validated" where
  "validate_committed_message_records t records =
     and_then (first_error (map (\<lambda>(i, r). first_error
       [unless (mr_thread_id r \<noteq> t) (''committed message '' @ quoted (mr_message_id r) @ '' belongs to thread '' @
          quoted (mr_thread_id r) @ '', expected '' @ quoted t),
        (if mr_seq r \<noteq> of_nat i + 1
         then Err (Serialization (''committed message seq must be continuous: expected '' @ show_nat (unat (of_nat i + 1 :: u64)) @
           '', got '' @ show_nat (unat (mr_seq r)))) else Ok ()),
        (case msg_id (mr_message r) of
           None \<Rightarrow> Err (record_error (mr_message_id r) '' must carry message id'')
         | Some m \<Rightarrow> if m \<noteq> mr_message_id r
             then Err (record_error (mr_message_id r) ('' cannot carry message id '' @ quoted m)) else Ok ())])
       (enumerate 0 records)))
     (\<lambda>_. validate_committed_messages (map mr_message records))"

text \<open>The records are numbered after the view filter.\<close>

definition list_message_records ::
  "MessageCursorToken CursorCodec \<Rightarrow> (nat \<Rightarrow> string) \<Rightarrow> string \<Rightarrow> MessageQuery \<Rightarrow> ('v, 'p, 's) InMemoryStore \<Rightarrow>
   'v MessageRecord Page validated" where
  "list_message_records cc fresh t query st =
     (case map_of (im_messages st) t of
        None \<Rightarrow> Ok empty_page
      | Some ms \<Rightarrow> and_then (validate_committed_messages ms) (\<lambda>_.
          let records = numbered fresh t 1 (strip_unpaired_tool_calls_from_view ms)
          in map_ok (\<lambda>_. paginate_message_records cc records query) (validate_committed_message_records t records)))"

definition list_runs :: "RunQuery \<Rightarrow> ('v, 'p, 's) InMemoryStore \<Rightarrow> 'v RunPage" where
  "list_runs query st =
     (let entries = sort_key (\<lambda>r. uint (rr_created_at r)) (filter (\<lambda>r. matches_id_prefix query (rr_thread_id r))
            (filter (\<lambda>r. case rq_status query of None \<Rightarrow> True | Some s \<Rightarrow> rr_status r = s)
              (filter (\<lambda>r. case rq_thread_id query of None \<Rightarrow> True | Some t \<Rightarrow> rr_thread_id r = t) (hm_values (im_runs st)))));
          total = length entries; offset = min (rq_offset query) total;
          limit = min (max (rq_limit query) 1) 200;
          items = take limit (drop offset entries)
      in \<lparr>rp_items = items, rp_total = total, rp_has_more = (offset + length items < total)\<rparr>)"

section \<open>Default methods of the store traits\<close>

definition load_message_records :: "(nat \<Rightarrow> string) \<Rightarrow> string \<Rightarrow> ('v, 'p, 's) InMemoryStore \<Rightarrow> 'v MessageRecord list option validated" where
  "load_message_records fresh t st = map_ok (map_option (numbered fresh t 1)) (load_messages t st)"

definition load_message_record ::
  "(nat \<Rightarrow> string) \<Rightarrow> string \<Rightarrow> string \<Rightarrow> ('v, 'p, 's) InMemoryStore \<Rightarrow> 'v MessageRecord option validated" where
  "load_message_record fresh t i st =
     map_ok (\<lambda>rs. Option.bind rs (List.find (\<lambda>r. mr_message_id r = i))) (load_message_records fresh t st)"

definition load_message_records_range ::
  "(nat \<Rightarrow> string) \<Rightarrow> string \<Rightarrow> MessageSeqRange \<Rightarrow> ('v, 'p, 's) InMemoryStore \<Rightarrow> 'v MessageRecord list validated" where
  "load_message_records_range fresh t g st =
     map_ok (\<lambda>rs. case rs of None \<Rightarrow> [] | Some rs \<Rightarrow> filter (\<lambda>r. rg_from_seq g \<le> mr_seq r \<and> mr_seq r \<le> rg_to_seq g) rs)
       (load_message_records fresh t st)"

record ('v, 's) CheckpointSnapshot =
  cs_messages :: "'v Message list"
  cs_message_version :: u64
  cs_latest_run :: "'v RunRecord option"
  cs_thread_state :: "'s option"

definition load_checkpoint :: "(nat \<Rightarrow> string) \<Rightarrow> string \<Rightarrow> ('v, 'p, 's) InMemoryStore \<Rightarrow> ('v, 's) CheckpointSnapshot option validated" where
  "load_checkpoint fresh t st =
     map_ok (\<lambda>committed.
         if committed = None \<and> latest_run t st = None then None
         else (let raw = (case committed of None \<Rightarrow> [] | Some ms \<Rightarrow> ms)
               in Some \<lparr>cs_messages = effective_committed_view fresh t raw, cs_message_version = of_nat (length raw),
                    cs_latest_run = latest_run t st, cs_thread_state = load_thread_state t st\<rparr>))
       (load_committed_messages t st)"

text \<open>
  The children of a thread, page by page; the next offset is read back from the cursor of the page. The
  loop ends only if the cursors advance, so its result is an option.
\<close>

definition child_query :: "string \<Rightarrow> nat \<Rightarrow> ThreadQuery" where
  "child_query parent offset = \<lparr>tq_offset = offset, tq_limit = 200, tq_resource_id = None, tq_parent_filter = ParentIs parent,
     tq_id_prefix = None\<rparr>"

partial_function (option) child_pages ::
  "ThreadCursorToken CursorCodec \<Rightarrow> ('v, 'p, 's) InMemoryStore \<Rightarrow> string \<Rightarrow> nat \<Rightarrow> 'v Thread list \<Rightarrow> 'v Thread list option" where
  "child_pages cc st parent offset children =
     (let query = child_query parent offset;
          page = list_threads_query cc query st;
          children' = children @ List.map_filter (\<lambda>i. load_thread i st) (pg_items page)
      in if \<not> pg_has_more page \<or> pg_items page = [] then Some children'
         else child_pages cc st parent
           (case pg_next_cursor page of
              None \<Rightarrow> offset + length (pg_items page)
            | Some cursor \<Rightarrow> (case decode_thread_cursor cc query cursor of Ok next_offset \<Rightarrow> next_offset
                | _ \<Rightarrow> offset + length (pg_items page))) children')"

definition list_child_threads :: "ThreadCursorToken CursorCodec \<Rightarrow> string \<Rightarrow> ('v, 'p, 's) InMemoryStore \<Rightarrow> 'v Thread list option" where
  "list_child_threads cc parent st = child_pages cc st parent 0 []"

end
