(* ===== verification/Query_Laws.thy ===== *)
theory Query_Laws
  imports Store_Queries
begin

text \<open>
  Following the cursors of a listing visits every entry once; what a checkpoint wrote is what a resumed
  run reads; and where the listing of message records goes wrong.
\<close>

section \<open>Cursors\<close>

lemma normalized_idem [simp]:
  "ThreadParentFilter_normalized (ThreadParentFilter_normalized f) = ThreadParentFilter_normalized f"
  "ThreadQuery_normalized (ThreadQuery_normalized q) = ThreadQuery_normalized q"
proof -
  show *: "ThreadParentFilter_normalized (ThreadParentFilter_normalized f) = ThreadParentFilter_normalized f" for f
  proof (cases f)
    case (ParentIs p)
    then show ?thesis
      using normalize_lineage_id_idem [of "Some p"]
      by (cases "normalize_lineage_id (Some p)") (simp_all add: ThreadParentFilter_normalized_def)
  qed (simp_all add: ThreadParentFilter_normalized_def)
  show "ThreadQuery_normalized (ThreadQuery_normalized q) = ThreadQuery_normalized q"
    by (simp add: ThreadQuery_normalized_def *)
qed

lemma cursor_not_numeric: "parse_usize (''thr_'' @ s) = None" "parse_usize (''msg_'' @ s) = None"
  by (simp_all add: parse_usize_def is_digit_def Let_def)

lemma decode_cursor_token_encode:
  "cc_read cc (cc_write cc token) = Some token \<Longrightarrow> decode_cursor_token cc p (encode_cursor_token cc p token) = Ok token"
  by (simp add: decode_cursor_token_def encode_cursor_token_def strip_prefix_append)

lemma thread_token_normalized [simp]: "thread_token (ThreadQuery_normalized q) offset = thread_token q offset"
  by (simp add: thread_token_def)

lemma thread_cursor_read:
  assumes "cc_read cc (cc_write cc (thread_token q offset)) = Some (thread_token q offset)"
  shows "decode_thread_cursor cc q (encode_thread_cursor cc (ThreadQuery_normalized q) offset) = Ok offset"
proof -
  have "parse_usize (encode_thread_cursor cc (ThreadQuery_normalized q) offset) = None"
    by (simp add: encode_thread_cursor_def encode_cursor_token_def THREAD_CURSOR_PREFIX_def cursor_not_numeric [simplified])
  moreover have "decode_cursor_token cc THREAD_CURSOR_PREFIX (encode_thread_cursor cc (ThreadQuery_normalized q) offset) =
      Ok (thread_token q offset)"
    using decode_cursor_token_encode [OF assms] by (simp add: encode_thread_cursor_def)
  ultimately show ?thesis by (simp add: decode_thread_cursor_def thread_token_def Let_def)
qed

lemma message_cursor_read:
  assumes "cc_read cc (cc_write cc (message_token q offset)) = Some (message_token q offset)"
  shows "decode_message_cursor cc q (encode_message_cursor cc (MessageQuery_normalized q) offset) = Ok offset"
proof -
  have e: "encode_message_cursor cc (MessageQuery_normalized q) offset = encode_message_cursor cc q offset"
    by (simp add: encode_message_cursor_def message_token_def MessageQuery_normalized_def)
  have "parse_usize (encode_message_cursor cc q offset) = None"
    by (simp add: encode_message_cursor_def encode_cursor_token_def MESSAGE_CURSOR_PREFIX_def cursor_not_numeric [simplified])
  moreover have "decode_cursor_token cc MESSAGE_CURSOR_PREFIX (encode_message_cursor cc q offset) = Ok (message_token q offset)"
    using decode_cursor_token_encode [OF assms] by (simp add: encode_message_cursor_def)
  ultimately show ?thesis unfolding e by (simp add: decode_message_cursor_def message_token_def)
qed

section \<open>Following the pages\<close>

lemma page_of_simps [simp]:
  "pg_items (page_of cursor offset limit xs) = take limit (drop offset xs)"
  "pg_total (page_of cursor offset limit xs) = length xs"
  "pg_has_more (page_of cursor offset limit xs) \<longleftrightarrow> 0 < limit \<and> offset + limit < length xs"
  by (auto simp: page_of_def Let_def min_def)

lemma page_next_cursor:
  "pg_has_more (page_of cursor offset limit xs) \<Longrightarrow> pg_next_cursor (page_of cursor offset limit xs) = Some (cursor (offset + limit))"
  by (auto simp: page_of_def Let_def min_def split: if_splits)

definition children_in_order :: "string \<Rightarrow> ('v, 'p, 's) InMemoryStore \<Rightarrow> 'v Thread list" where
  "children_in_order parent st = filter (\<lambda>th. th_parent_thread_id th = Some parent)
     (sort_threads_by_recent_activity (hm_values (im_threads st)))"

lemma load_listed:
  assumes "forest (im_threads st)" and "set ths \<subseteq> set (hm_values (im_threads st))"
  shows "List.map_filter (\<lambda>i. load_thread i st) (map th_id ths) = ths"
proof -
  have "load_thread (th_id th) st = Some th" if th: "th \<in> set ths" for th
  proof -
    have d: "hm_keys_distinct (im_threads st)" using assms(1) by (simp add: forest_def)
    obtain k where k: "map_of (im_threads st) k = Some th"
      using th assms(2) hm_values_iff [OF d, of th] by blast
    then show ?thesis using forest_entry [OF assms(1) k] by (simp add: load_thread_def)
  qed
  then show ?thesis by (induction ths) (simp_all add: List.map_filter_simps)
qed

lemma child_pages_eq:
  assumes "forest (im_threads st)" and "normalize_lineage_id (Some parent) = Some parent"
    and "\<And>n. cc_read cc (cc_write cc (thread_token (child_query parent 0) n)) = Some (thread_token (child_query parent 0) n)"
  shows "child_pages cc st parent offset children = Some (children @ drop offset (children_in_order parent st))"
proof (induction "length (children_in_order parent st) - offset" arbitrary: offset children rule: less_induct)
  case less
  let ?q = "child_query parent offset"
  let ?cs = "children_in_order parent st"
  have q: "ThreadQuery_normalized ?q = ?q"
    using assms(2) by (simp add: child_query_def ThreadQuery_normalized_def ThreadParentFilter_normalized_def)
  have token: "thread_token ?q n = thread_token (child_query parent 0) n" for n
    by (simp add: thread_token_def ThreadQuery_normalized_def child_query_def)
  have "filter (matches_thread ?q) (sort_threads_by_recent_activity (hm_values (im_threads st))) = ?cs"
    unfolding children_in_order_def
  proof (rule filter_cong [OF refl])
    fix th assume "th \<in> set (sort_threads_by_recent_activity (hm_values (im_threads st)))"
    then have "th \<in> set (hm_values (im_threads st))" by (simp add: sort_threads_by_recent_activity_def)
    then have "normalize_lineage_id (th_parent_thread_id th) = th_parent_thread_id th"
      using assms(1) by (auto simp: forest_def list_all_iff)
    then show "matches_thread ?q th \<longleftrightarrow> th_parent_thread_id th = Some parent"
      by (simp add: matches_thread_def Let_def q) (simp add: child_query_def)
  qed
  then have page: "list_threads_query cc ?q st = page_of (encode_thread_cursor cc ?q) offset 200 (map th_id ?cs)"
    by (simp add: list_threads_query_def paginate_threads_def q Let_def) (simp add: child_query_def)
  have "set (take 200 (drop offset ?cs)) \<subseteq> set (hm_values (im_threads st))"
    by (auto simp: children_in_order_def sort_threads_by_recent_activity_def dest!: in_set_takeD in_set_dropD)
  then have loaded: "List.map_filter (\<lambda>i. load_thread i st) (pg_items (list_threads_query cc ?q st)) = take 200 (drop offset ?cs)"
    using load_listed [OF assms(1), of "take 200 (drop offset ?cs)"] by (simp add: page take_map drop_map)
  show ?case
  proof (cases "pg_has_more (list_threads_query cc ?q st)")
    case True
    then have more: "offset + 200 < length ?cs" by (simp add: page)
    have "pg_next_cursor (list_threads_query cc ?q st) = Some (encode_thread_cursor cc ?q (offset + 200))"
      using page_next_cursor True by (simp only: page)
    moreover have "decode_thread_cursor cc ?q (encode_thread_cursor cc ?q (offset + 200)) = Ok (offset + 200)"
      using thread_cursor_read [of cc ?q "offset + 200"] assms(3) token by (simp add: q)
    moreover have "pg_items (list_threads_query cc ?q st) \<noteq> []" using more by (simp add: page)
    ultimately have "child_pages cc st parent offset children =
        child_pages cc st parent (offset + 200) (children @ take 200 (drop offset ?cs))"
      using True loaded by (subst child_pages.simps) (simp add: Let_def)
    moreover have "take 200 (drop offset ?cs) @ drop (offset + 200) ?cs = drop offset ?cs"
      using append_take_drop_id [of 200 "drop offset ?cs"] by (simp add: add.commute)
    ultimately show ?thesis using less [of "offset + 200"] more by simp
  next
    case False
    then have "length (drop offset ?cs) \<le> 200" by (simp add: page)
    then show ?thesis using False loaded by (subst child_pages.simps) (simp add: Let_def)
  qed
qed

text \<open>
  C20: Collecting the children of a thread page by page ends, whatever their number, and gives each child
  exactly once, in the order of the listing; this rests on reading back the cursor each page carries.
\<close>

theorem child_threads_complete:
  assumes "store_ok st" and "normalize_lineage_id (Some parent) = Some parent"
    and "\<And>n. cc_read cc (cc_write cc (thread_token (child_query parent 0) n)) = Some (thread_token (child_query parent 0) n)"
  shows "list_child_threads cc parent st = Some (children_in_order parent st) \<and>
    distinct (map th_id (children_in_order parent st)) \<and>
    set (map th_id (children_in_order parent st)) = {k. (k, parent) \<in> hierarchy (im_threads st)}"
proof -
  have f: "forest (im_threads st)" using assms(1) by (simp add: store_ok_def)
  have s: "mset (map th_id (children_in_order parent st)) = mset (collect_child_ids (im_threads st) parent)"
    by (simp add: children_in_order_def collect_child_ids_def sort_threads_by_recent_activity_def mset_filter)
  then have "distinct (map th_id (children_in_order parent st))"
    using set_collect_child_ids(2) [OF f] mset_eq_imp_distinct_iff by blast
  moreover have "set (map th_id (children_in_order parent st)) = {k. (k, parent) \<in> hierarchy (im_threads st)}"
    using mset_eq_setD [OF s] set_collect_child_ids(1) [OF f] by simp
  ultimately show ?thesis
    using child_pages_eq [OF f assms(2,3), where children = "[]"] by (simp add: list_child_threads_def)
qed

text \<open>A codec of tokens for one query, for the witnesses: the offset in unary.\<close>

definition unary_codec :: "ThreadQuery \<Rightarrow> ThreadCursorToken CursorCodec" where
  "unary_codec q = \<lparr>cc_write = \<lambda>t. replicate (tk_offset t) (CHR ''x''), cc_read = \<lambda>s. Some (thread_token q (length s))\<rparr>"

lemma child_threads_complete_witness:
  "list_child_threads (unary_codec (child_query ''a'' 0)) ''a'' (snd (save_thread_validated
     ((Thread_with_id ''b'')\<lparr>th_parent_thread_id := Some ''a''\<rparr>)
     (snd (save_thread_validated (Thread_with_id ''a'') (InMemoryStore_new :: (unit, unit) pending_store))))) =
   Some [(Thread_with_id ''b'')\<lparr>th_parent_thread_id := Some ''a''\<rparr>]"
proof -
  let ?s1 = "snd (save_thread_validated (Thread_with_id ''a'') (InMemoryStore_new :: (unit, unit) pending_store))"
  let ?st = "snd (save_thread_validated ((Thread_with_id ''b'')\<lparr>th_parent_thread_id := Some ''a''\<rparr>) ?s1)"
  have ok: "store_ok ?st"
    by (rule store_call_ok [OF store_call.save_thread_validated], rule store_call_ok [OF store_call.save_thread_validated])
      (rule store_ok_new)
  have n: "normalize_lineage_id (Some ''a'') = Some ''a''" by code_simp
  have "children_in_order ''a'' ?st = [(Thread_with_id ''b'')\<lparr>th_parent_thread_id := Some ''a''\<rparr>]" by code_simp
  then show ?thesis
    using child_threads_complete [OF ok n, of "unary_codec (child_query ''a'' 0)"]
    by (simp add: unary_codec_def thread_token_def)
qed

section \<open>What a resumed run reads\<close>

lemma fold_best:
  fixes key :: "'a \<Rightarrow> 'k::linorder"
  assumes "x \<in> set xs" and "\<And>y. y \<in> set xs \<Longrightarrow> y \<noteq> x \<Longrightarrow> key y < key x"
  shows "foldl (\<lambda>best r. case best of None \<Rightarrow> Some r | Some b \<Rightarrow> if key r < key b then Some b else Some r) None xs = Some x"
proof -
  let ?f = "\<lambda>best r. case best of None \<Rightarrow> Some r | Some b \<Rightarrow> if key r < key b then Some b else Some r"
  obtain ys zs where xs: "xs = ys @ x # zs" using assms(1) by (meson split_list)
  have before: "foldl ?f b ys = b \<or> (\<exists>y \<in> set ys. foldl ?f b ys = Some y)" for b
    by (induction ys rule: rev_induct) (auto split: option.splits)
  have "foldl ?f None (ys @ [x]) = Some x"
    using before [of None] assms(2) xs by (force split: option.splits)
  moreover have "foldl ?f (Some x) zs = Some x"
    using assms(2) unfolding xs by (induction zs) auto
  ultimately show ?thesis by (simp add: xs)
qed

lemma values_update: "set (hm_values (AList.update k v m)) \<subseteq> insert v (set (hm_values m))"
  by (induction m) auto

text \<open>
  Every stored run has its number in the order of writes, below the next one; the next number is at most
  the number of calls made.
\<close>

definition runs_numbered :: "nat \<Rightarrow> ('v, 's) pending_store \<Rightarrow> bool" where
  "runs_numbered n st \<longleftrightarrow> unat (im_run_seq st) \<le> n \<and>
     (\<forall>k. map_of (im_runs st) k \<noteq> None \<longrightarrow> (\<exists>i. map_of (im_run_insertion st) k = Some i \<and> i < im_run_seq st))"

lemma runs_numbered_same:
  assumes "runs_numbered n st" and "im_runs st' = im_runs st" and "im_run_insertion st' = im_run_insertion st"
    and "im_run_seq st' = im_run_seq st"
  shows "runs_numbered (Suc n) st'"
  using assms by (simp add: runs_numbered_def)

lemma runs_numbered_insert:
  assumes "runs_numbered n st" and "n < 2 ^ 64 - 1" and "im_runs st' = im_runs st" and "im_run_insertion st' = im_run_insertion st"
    and "im_run_seq st' = im_run_seq st"
  shows "runs_numbered (Suc n) (insert_run run st')"
proof -
  have "im_run_seq st < - 1"
    using assms(1,2) unat_max_word [where 'a = 64] by (simp add: runs_numbered_def word_less_nat_alt)
  then have seq: "unat (im_run_seq st + 1) = Suc (unat (im_run_seq st))" by (rule unat_add_one)
  then have "im_run_seq st < im_run_seq st + 1" by (simp add: word_less_nat_alt)
  with seq show ?thesis
    using assms(1,3-5) by (auto simp: runs_numbered_def insert_run_def intro: less_trans)
qed

text \<open>A call leaves the tables of runs alone or inserts one run.\<close>

definition runs_kept :: "('v, 's) pending_store \<Rightarrow> ('v, 's) pending_store \<Rightarrow> bool" where
  "runs_kept st st' \<longleftrightarrow> im_runs st' = im_runs st \<and> im_run_insertion st' = im_run_insertion st \<and> im_run_seq st' = im_run_seq st"

definition runs_inserted :: "('v, 's) pending_store \<Rightarrow> ('v, 's) pending_store \<Rightarrow> bool" where
  "runs_inserted st st' \<longleftrightarrow> runs_kept st st' \<or> (\<exists>s run. runs_kept st s \<and> st' = insert_run run s)"

lemma runs_kept_fields [simp]:
  "runs_kept st st"
  "runs_kept st (st'\<lparr>im_threads := ts\<rparr>) \<longleftrightarrow> runs_kept st st'" "runs_kept st (st'\<lparr>im_messages := ms\<rparr>) \<longleftrightarrow> runs_kept st st'"
  "runs_kept st (st'\<lparr>im_pending_messages := ps\<rparr>) \<longleftrightarrow> runs_kept st st'"
  "runs_kept st (st'\<lparr>im_thread_states := ss\<rparr>) \<longleftrightarrow> runs_kept st st'"
  "runs_kept (st\<lparr>im_messages := ms\<rparr>) st' \<longleftrightarrow> runs_kept st st'" "runs_kept (st\<lparr>im_pending_messages := ps\<rparr>) st' \<longleftrightarrow> runs_kept st st'"
  "runs_kept st (remove_thread t st') \<longleftrightarrow> runs_kept st st'"
  by (auto simp: runs_kept_def remove_thread_def)

lemma runs_inserted_kept [intro]: "runs_kept st st' \<Longrightarrow> runs_inserted st st'"
  by (simp add: runs_inserted_def)

lemma runs_inserted_insert [intro]: "runs_kept st st' \<Longrightarrow> runs_inserted st (insert_run run st')"
  by (auto simp: runs_inserted_def)

lemma runs_inserted_project [intro]: "runs_kept st st' \<Longrightarrow> runs_inserted st (project_run now t run st')"
  by (auto simp: project_run_def Let_def)

lemma runs_kept_consume: "runs_kept st (snd (consume_selected fresh t ks st))"
  by (simp add: consume_selected_def Let_def split: outcome.split prod.split)

lemma runs_inserted_freeze: "runs_inserted st (snd (freeze_expected fresh now t boundary ids run st))"
proof -
  let ?st = "st\<lparr>im_messages := or_default t (im_messages st)\<rparr>"
  let ?ks = "select_pending_for_freeze_for_run (pending_queue st t) boundary (Some (rr_run_id run))"
  show ?thesis
    using runs_kept_consume [of ?st fresh t ?ks]
    by (cases "consume_selected fresh t ?ks ?st") (auto simp: freeze_expected_def Let_def split: outcome.split)
qed

lemma runs_inserted_default: "runs_inserted (st\<lparr>im_pending_messages := ps\<rparr>) st' \<longleftrightarrow> runs_inserted st st'"
  by (simp add: runs_inserted_def)

lemma store_call_runs: "store_call careful st st' \<Longrightarrow> runs_inserted st st'"
proof (induction rule: store_call.induct)
  case (delete_thread_strategy st now t strategy)
  have "runs_kept st (foldl (\<lambda>s i. remove_thread i s) st order)" for order
    by (rule foldl_keeps [where P = "runs_kept st"]) simp_all
  then show ?case
    by (auto simp: delete_thread_with_strategy_def split: outcome.split ChildThreadDeleteStrategy.split)
next
  case (freeze_pending st fresh t boundary version)
  then show ?case
    using runs_kept_consume [of "st\<lparr>im_messages := or_default t (im_messages st)\<rparr>" fresh t
        "select_pending_for_freeze (the (map_of (im_pending_messages st) t)) boundary"]
    by (auto simp: freeze_pending_message_records_def Let_def split: option.split)
next
  case (freeze_with_run st fresh now t boundary version ids run)
  then show ?case
    using runs_inserted_freeze [of "st\<lparr>im_pending_messages := or_default t (im_pending_messages st)\<rparr>"]
    by (auto simp: freeze_pending_message_records_with_run_def Let_def runs_inserted_default split: outcome.split)
next
  case (append_and_freeze st fresh fresh' now t ms mode boundary version ids run)
  show ?case
    using runs_inserted_freeze [of "st\<lparr>im_pending_messages := ps\<rparr>" for ps]
    by (auto simp: append_and_freeze_pending_message_records_with_run_def Let_def runs_inserted_default split: outcome.split)
qed (auto simp: save_thread_def save_thread_validated_def delete_thread_def save_thread_state_def update_thread_metadata_def
    save_messages_def append_message_records_def delete_messages_def create_run_def checkpoint_def
    store_checkpoint_append_def merge_and_project_def append_pending_message_records_def
    update_pending_message_record_checked_def retract_pending_message_record_checked_def
    reorder_pending_message_records_checked_def Let_def split: outcome.split option.split prod.split)

lemma store_call_numbered:
  assumes "store_call careful st st'" and "runs_numbered n st" and "n < 2 ^ 64 - 1"
  shows "runs_numbered (Suc n) st'"
  using store_call_runs [OF assms(1)] runs_numbered_same [OF assms(2)] runs_numbered_insert [OF assms(2,3)]
  by (auto simp: runs_inserted_def runs_kept_def)

lemma calls_numbered: "(store_call careful ^^ n) InMemoryStore_new st \<Longrightarrow> n < 2 ^ 64 \<Longrightarrow> runs_numbered n st"
proof (induction n arbitrary: st)
  case 0
  then show ?case by (auto simp: runs_numbered_def InMemoryStore_new_def)
next
  case (Suc n)
  from Suc.prems(1) obtain s where s: "(store_call careful ^^ n) InMemoryStore_new s" "store_call careful s st" by auto
  have "n < 2 ^ 64" "n < 2 ^ 64 - 1" using Suc.prems(2) by simp_all
  then show ?case using store_call_numbered [OF s(2) Suc.IH [OF s(1)]] by blast
qed

lemma latest_run_newest:
  assumes "table_ok run_ok (im_runs st)" and "load_run (rr_run_id run) st = Some run"
    and "map_of (im_run_insertion st) (rr_run_id run) = Some i"
    and "\<And>k j. map_of (im_runs st) k \<noteq> None \<Longrightarrow> k \<noteq> rr_run_id run \<Longrightarrow> \<exists>j. map_of (im_run_insertion st) k = Some j \<and> j < i"
    and "list_all (\<lambda>r. rr_updated_at r \<le> rr_updated_at run)
      (filter (\<lambda>r. rr_thread_id r = rr_thread_id run \<and> rr_run_id r \<noteq> rr_run_id run) (hm_values (im_runs st)))"
  shows "latest_run (rr_thread_id run) st = Some run"
proof -
  have d: "hm_keys_distinct (im_runs st)" using assms(1) by (simp add: table_ok_def)
  have "run \<in> set (hm_values (im_runs st))" using assms(2) hm_values_iff [OF d, of run] by (auto simp: load_run_def)
  moreover have older: "rr_updated_at r \<le> rr_updated_at run \<and> (\<exists>j. map_of (im_run_insertion st) (rr_run_id r) = Some j \<and> j < i)"
    if r: "r \<in> set (hm_values (im_runs st))" "rr_thread_id r = rr_thread_id run" "r \<noteq> run" for r
  proof -
    obtain k where k: "map_of (im_runs st) k = Some r" using r(1) hm_values_iff [OF d, of r] by blast
    then have id: "k = rr_run_id r" using table_lookup [OF assms(1) k] by (simp add: run_ok_def)
    then have "rr_run_id r \<noteq> rr_run_id run" using k assms(2) r(3) by (auto simp: load_run_def)
    then show ?thesis using r(1,2) assms(4) [of k] assms(5) id k by (auto simp: list_all_iff)
  qed
  moreover have "(rr_updated_at r, case map_of (im_run_insertion st) (rr_run_id r) of None \<Rightarrow> 0 | Some n \<Rightarrow> n) <
      (rr_updated_at run, case map_of (im_run_insertion st) (rr_run_id run) of None \<Rightarrow> 0 | Some n \<Rightarrow> n)"
    if r: "r \<in> set (hm_values (im_runs st))" "rr_thread_id r = rr_thread_id run" "r \<noteq> run" for r
  proof -
    from older [OF r] obtain j where "rr_updated_at r \<le> rr_updated_at run" "map_of (im_run_insertion st) (rr_run_id r) = Some j" "j < i"
      by blast
    then show ?thesis using assms(3) by (auto simp: less_prod_def)
  qed
  ultimately show ?thesis
    unfolding latest_run_def Let_def by (intro fold_best) simp_all
qed

text \<open>
  C17: A resumed run reads what the last checkpoint wrote. In a store that fewer than \<open>2^64 - 1\<close> calls
  have produced, after a checkpoint of a run of the thread that succeeded, loading the thread for resume
  succeeds and gives the folded view of the log with the delta appended, the version the checkpoint
  returned, the state of the thread, and the run it stored, provided no other run of the thread carries
  a later time: of runs with the same time the one written last counts.
\<close>

theorem resume_reads_checkpoint:
  assumes "(store_call careful ^^ n) InMemoryStore_new st" and "n < 2 ^ 64 - 1"
    and "store_checkpoint_append now t ms version run st = (Ok v, st')" and "rr_thread_id run = t"
    and "list_all (\<lambda>r. rr_updated_at r \<le> rr_updated_at run)
      (filter (\<lambda>r. rr_thread_id r = t \<and> rr_run_id r \<noteq> rr_run_id run) (hm_values (im_runs st)))"
  shows "load_checkpoint fresh t st' = Ok (Some \<lparr>cs_messages = effective_committed_view fresh t (committed_log st t @ ms),
    cs_message_version = v, cs_latest_run = Some run, cs_thread_state = load_thread_state t st\<rparr>)"
proof -
  have "records_ok st" using calls_records_ok [OF relpowp_imp_rtranclp [OF assms(1)]] .
  then have ok: "tables_ok st'"
    using tables_ok_checkpoint_append [of st now t ms version run] assms(3) by (simp add: records_ok_def)
  have num: "runs_numbered n st" using calls_numbered [OF assms(1)] assms(2) by simp
  have merged: "merge_and_project now t ms run st = (Ok v, st')"
    using assms(3) by (auto simp: store_checkpoint_append_def Let_def split: outcome.splits option.splits if_splits)
  have log: "map_of (im_messages st') t = Some (committed_log st t @ ms)" "v = of_nat (length (committed_log st t @ ms))"
    and run: "load_run (rr_run_id run) st' = Some run" "load_thread_state t st' = load_thread_state t st"
      "im_runs st' = AList.update (rr_run_id run) run (im_runs st)"
      "im_run_insertion st' = AList.update (rr_run_id run) (im_run_seq st) (im_run_insertion st)"
    using merged by (cases "validate_append_only_delta (committed_log st t) ms";
        auto simp: merge_and_project_def merge_checkpoint_append_eq project_run_def insert_run_def Let_def load_run_def load_thread_state_def)+
  have "set (hm_values (im_runs st')) \<subseteq> insert run (set (hm_values (im_runs st)))"
    unfolding run(3) by (rule values_update)
  then have "list_all (\<lambda>r. rr_updated_at r \<le> rr_updated_at run)
      (filter (\<lambda>r. rr_thread_id r = rr_thread_id run \<and> rr_run_id r \<noteq> rr_run_id run) (hm_values (im_runs st')))"
    using assms(4,5) unfolding list_all_iff by auto
  moreover have "\<exists>j. map_of (im_run_insertion st') k = Some j \<and> j < im_run_seq st"
    if "map_of (im_runs st') k \<noteq> None" "k \<noteq> rr_run_id run" for k
    using that num by (simp add: runs_numbered_def run)
  moreover have "map_of (im_run_insertion st') (rr_run_id run) = Some (im_run_seq st)" by (simp add: run)
  ultimately have "latest_run t st' = Some run"
    using ok unfolding assms(4) [symmetric]
    by (intro latest_run_newest [OF _ run(1)]) (simp_all add: tables_ok_def)
  then show ?thesis
    using tables_ok_load [OF ok, of t] log run(2) by (simp add: load_checkpoint_def)
qed

lemma resume_reads_checkpoint_witness:
  "\<exists>(st :: (unit, unit) pending_store) (st' :: (unit, unit) pending_store). latest_run ''t'' st = Some (sample_run ''p'' ''t'') \<and>
     rr_updated_at (sample_run ''p'' ''t'') = rr_updated_at (sample_run ''r'' ''t'') \<and>
     load_checkpoint (\<lambda>_. ''fresh'') ''t'' st' = Ok (Some \<lparr>cs_messages = [user_message ''q'' ''now''],
       cs_message_version = 1, cs_latest_run = Some (sample_run ''r'' ''t''), cs_thread_state = None\<rparr>)"
proof -
  let ?new = "InMemoryStore_new :: (unit, unit) pending_store"
  let ?st = "snd (create_run (sample_run ''p'' ''t'') ?new)"
  let ?c = "store_checkpoint_append 5 ''t'' [user_message ''q'' ''now''] (Some 0) (sample_run ''r'' ''t'') ?st"
  have "fst ?c = Ok 1" by code_simp
  then obtain st' where c: "?c = (Ok 1, st')" by (cases ?c) auto
  have calls: "(store_call True ^^ 1) ?new ?st" by (simp del: One_nat_def add: relpowp_1) (rule store_call.create_run)
  have n: "1 < (2::nat) ^ 64 - 1" by simp
  have side: "rr_thread_id (sample_run ''r'' ''t'') = ''t''"
    "list_all (\<lambda>r. rr_updated_at r \<le> rr_updated_at (sample_run ''r'' ''t''))
      (filter (\<lambda>r. rr_thread_id r = ''t'' \<and> rr_run_id r \<noteq> rr_run_id (sample_run ''r'' ''t'')) (hm_values (im_runs ?st)))"
    "effective_committed_view (\<lambda>_. ''fresh'') ''t'' (committed_log ?st ''t'' @ [user_message ''q'' ''now'']) = [user_message ''q'' ''now'']"
    "load_thread_state ''t'' ?st = None" "latest_run ''t'' ?st = Some (sample_run ''p'' ''t'')"
    "rr_updated_at (sample_run ''p'' ''t'') = rr_updated_at (sample_run ''r'' ''t'')" by code_simp+
  show ?thesis
    using resume_reads_checkpoint [OF calls n c side(1,2), of "\<lambda>_. ''fresh''", unfolded side(3,4)] side(5,6) by blast
qed

section \<open>Numbers of listed records\<close>

text \<open>
  The listing numbers the records after the view filter has dropped messages: a record is listed under
  another number than the one it was appended under, and where a summary then stands before the end of
  the range it covers, listing a valid log is an error.
\<close>

definition retracted_log :: "unit Message list" where
  "retracted_log = [user_message ''u'' ''hi'',
     assistant_with_tool_calls ''a'' ''call'' [\<lparr>tcall_id = ''c'', tcall_name = ''f'', tcall_arguments = ()\<rparr>],
     tool_message ''x'' ''c'' ''suspended'', retraction_marker ''y'' ''c'', user_message ''v'' ''instead'']"

definition retracted_store :: "unit Message list \<Rightarrow> (unit, unit) pending_store" where
  "retracted_store added = InMemoryStore_new\<lparr>im_messages := [(''t'', retracted_log @ added)]\<rparr>"

definition no_codec :: "'t CursorCodec" where
  "no_codec = \<lparr>cc_write = \<lambda>_. ''token'', cc_read = \<lambda>_. None\<rparr>"

lemma listed_number_differs:
  "map_ok (\<lambda>p. map (\<lambda>r. (mr_message_id r, mr_seq r)) (pg_items p))
     (list_message_records no_codec (\<lambda>_. ''fresh'') ''t'' default_message_query (retracted_store [])) =
   Ok [(''u'', 1), (''a'', 2), (''v'', 3)] \<and>
   map mr_seq (filter (\<lambda>r. mr_message_id r = ''v'') (log_records (\<lambda>_. ''fresh'') ''t'' (committed_log (retracted_store []) ''t''))) = [5]"
  by code_simp

lemma listing_rejects_valid_log:
  "log_valid (committed_log (retracted_store [demo_summary ''s'' 5]) ''t'') \<and>
   \<not> is_ok (list_message_records no_codec (\<lambda>_. ''fresh'') ''t'' default_message_query (retracted_store [demo_summary ''s'' 5]))"
  by code_simp

end
