(* ===== verification/Scoped_Store.thy ===== *)
theory Scoped_Store
  imports Query_Laws Scoped_Mailbox
begin

text \<open>
  The thread and run store that confines a client to one scope (\<open>ScopedThreadRunStore\<close> in
  \<^verbatim>\<open>awaken-server-contract/src/contract/storage.rs\<close>). Like the scoped mailbox it prefixes every
  identifier, calls the inner store, here the in-memory one, and decodes what comes back.
\<close>

section \<open>Encoding\<close>

definition unscope_option :: "ScopeId \<Rightarrow> string option \<Rightarrow> string option option" where
  "unscope_option s v = (case v of None \<Rightarrow> Some None | Some i \<Rightarrow> map_option Some (unscoped_key s i))"

definition encode_thread :: "ScopeId \<Rightarrow> 'v Thread \<Rightarrow> 'v Thread" where
  "encode_thread s t = t\<lparr>th_id := scoped_key s (th_id t),
     th_parent_thread_id := map_option (scoped_key s) (th_parent_thread_id t)\<rparr>"

definition decode_thread :: "ScopeId \<Rightarrow> 'v Thread \<Rightarrow> 'v Thread option" where
  "decode_thread s t =
     Option.bind (unscoped_key s (th_id t)) (\<lambda>i.
     Option.bind (unscope_option s (th_parent_thread_id t)) (\<lambda>p.
     Some (t\<lparr>th_id := i, th_parent_thread_id := p\<rparr>)))"

definition encode_run :: "ScopeId \<Rightarrow> 'v RunRecord \<Rightarrow> 'v RunRecord" where
  "encode_run s r = r\<lparr>rr_run_id := scoped_key s (rr_run_id r), rr_thread_id := scoped_key s (rr_thread_id r),
     rr_parent_run_id := map_option (scoped_key s) (rr_parent_run_id r),
     rr_input := map_option (\<lambda>i. i\<lparr>ri_thread_id := scoped_key s (ri_thread_id i)\<rparr>) (rr_input r),
     rr_output := map_option (\<lambda>i. i\<lparr>ro_thread_id := scoped_key s (ro_thread_id i)\<rparr>) (rr_output r),
     rr_request_parent_thread_id := map_option (scoped_key s) (rr_request_parent_thread_id r)\<rparr>"

definition decode_run :: "ScopeId \<Rightarrow> 'v RunRecord \<Rightarrow> 'v RunRecord option" where
  "decode_run s r =
     Option.bind (unscoped_key s (rr_run_id r)) (\<lambda>run.
     Option.bind (unscoped_key s (rr_thread_id r)) (\<lambda>thread.
     Option.bind (unscope_option s (rr_parent_run_id r)) (\<lambda>parent.
     Option.bind (case rr_input r of None \<Rightarrow> Some None
       | Some i \<Rightarrow> map_option (\<lambda>t. Some (i\<lparr>ri_thread_id := t\<rparr>)) (unscoped_key s (ri_thread_id i))) (\<lambda>input.
     Option.bind (case rr_output r of None \<Rightarrow> Some None
       | Some i \<Rightarrow> map_option (\<lambda>t. Some (i\<lparr>ro_thread_id := t\<rparr>)) (unscoped_key s (ro_thread_id i))) (\<lambda>out.
     Option.bind (unscope_option s (rr_request_parent_thread_id r)) (\<lambda>request.
     Some (r\<lparr>rr_run_id := run, rr_thread_id := thread, rr_parent_run_id := parent, rr_input := input,
       rr_output := out, rr_request_parent_thread_id := request\<rparr>)))))))"

definition decode_message_record :: "ScopeId \<Rightarrow> 'v MessageRecord \<Rightarrow> 'v MessageRecord option" where
  "decode_message_record s r =
     Option.bind (unscoped_key s (mr_thread_id r)) (\<lambda>t.
     Some (r\<lparr>mr_thread_id := t, mr_produced_by_run_id :=
       (case Option.bind (mr_produced_by_run_id r) (unscoped_key s) of None \<Rightarrow> mr_produced_by_run_id r | Some u \<Rightarrow> Some u)\<rparr>))"

definition encode_message_query :: "ScopeId \<Rightarrow> MessageQuery \<Rightarrow> MessageQuery" where
  "encode_message_query s q = q\<lparr>mq_run_id := map_option (scoped_key s) (mq_run_id q)\<rparr>"

section \<open>Thread methods\<close>

definition scs_load_thread :: "ScopeId \<Rightarrow> string \<Rightarrow> ('v, 'p, 's) InMemoryStore \<Rightarrow> 'v Thread option" where
  "scs_load_thread s t st = Option.bind (load_thread (scoped_key s t) st) (decode_thread s)"

definition scs_save_thread :: "ScopeId \<Rightarrow> 'v Thread \<Rightarrow> ('v, 'p, 's) InMemoryStore \<Rightarrow> (unit, 'v, 'p, 's) store_method" where
  "scs_save_thread s thread st = save_thread (encode_thread s thread) st"

definition scs_delete_thread :: "ScopeId \<Rightarrow> string \<Rightarrow> ('v, 'p, 's) InMemoryStore \<Rightarrow> (unit, 'v, 'p, 's) store_method" where
  "scs_delete_thread s t st = delete_thread (scoped_key s t) st"

definition scs_save_thread_state :: "ScopeId \<Rightarrow> string \<Rightarrow> 's \<Rightarrow> ('v, 'p, 's) InMemoryStore \<Rightarrow> (unit, 'v, 'p, 's) store_method" where
  "scs_save_thread_state s t state st = save_thread_state (scoped_key s t) state st"

definition scs_load_thread_state :: "ScopeId \<Rightarrow> string \<Rightarrow> ('v, 'p, 's) InMemoryStore \<Rightarrow> 's option" where
  "scs_load_thread_state s t st = load_thread_state (scoped_key s t) st"

text \<open>
  The listing collects pages of at most 200 threads with the prefix of the scope until the limit is
  reached or the inner store has no more.
\<close>

definition scope_query :: "ScopeId \<Rightarrow> nat \<Rightarrow> nat \<Rightarrow> ThreadQuery" where
  "scope_query s offset limit = \<lparr>tq_offset = offset, tq_limit = limit, tq_resource_id = None, tq_parent_filter = AnyParent,
     tq_id_prefix = Some (scoped_key s [])\<rparr>"

function scs_list_pages ::
  "ThreadCursorToken CursorCodec \<Rightarrow> ScopeId \<Rightarrow> ('v, 'p, 's) InMemoryStore \<Rightarrow> nat \<Rightarrow> nat \<Rightarrow> string list \<Rightarrow> string list" where
  "scs_list_pages cc s st limit offset items =
     (if limit \<le> length items then items
      else (let page = list_threads_query cc (scope_query s offset (min (limit - length items) 200)) st;
                items' = items @ List.map_filter (unscoped_key s) (pg_items page)
            in if \<not> pg_has_more page \<or> pg_items page = [] then items'
               else scs_list_pages cc s st limit (offset + length (pg_items page)) items'))"
  by pat_completeness auto
termination
proof (relation "measure (\<lambda>(cc, s, st, limit, offset, items). length (im_threads st) - offset)")
  fix cc and s and st :: "('v, 'p, 's) InMemoryStore" and limit offset :: nat and items page items'
  assume p: "page = list_threads_query cc (scope_query s offset (min (limit - length items) 200)) st"
    and more: "\<not> (\<not> pg_has_more page \<or> pg_items page = [])"
  let ?q = "ThreadQuery_normalized (scope_query s offset (min (limit - length items) 200))"
  let ?ids = "map th_id (filter (matches_thread ?q) (sort_threads_by_recent_activity (hm_values (im_threads st))))"
  have "page = page_of (encode_thread_cursor cc ?q) (tq_offset ?q) (tq_limit ?q) ?ids"
    by (simp add: p list_threads_query_def paginate_threads_def Let_def)
  then have "tq_offset ?q + tq_limit ?q < length ?ids" using more by simp
  moreover have "length ?ids \<le> length (im_threads st)"
    using length_filter_le [of "matches_thread ?q" "sort_threads_by_recent_activity (hm_values (im_threads st))"]
    by (simp add: sort_threads_by_recent_activity_def)
  moreover have "tq_offset ?q = offset" by (simp add: ThreadQuery_normalized_def scope_query_def)
  ultimately have "offset < length (im_threads st)" by simp
  then show "((cc, s, st, limit, offset + length (pg_items page), items'), cc, s, st, limit, offset, items) \<in>
      measure (\<lambda>(cc, s, st, limit, offset, items). length (im_threads st) - offset)"
    using more by (cases "pg_items page") simp_all
qed simp

declare scs_list_pages.simps [simp del]

definition scs_list_threads :: "ThreadCursorToken CursorCodec \<Rightarrow> ScopeId \<Rightarrow> nat \<Rightarrow> nat \<Rightarrow> ('v, 'p, 's) InMemoryStore \<Rightarrow> string list" where
  "scs_list_threads cc s offset limit st = (if limit = 0 then [] else scs_list_pages cc s st limit offset [])"

definition scs_update_thread_metadata ::
  "ScopeId \<Rightarrow> string \<Rightarrow> 'v ThreadMetadata \<Rightarrow> ('v, 'p, 's) InMemoryStore \<Rightarrow> (unit, 'v, 'p, 's) store_method" where
  "scs_update_thread_metadata s t md st = update_thread_metadata (scoped_key s t) md st"

section \<open>Message methods\<close>

definition scs_load_messages :: "ScopeId \<Rightarrow> string \<Rightarrow> ('v, 'p, 's) InMemoryStore \<Rightarrow> 'v Message list option validated" where
  "scs_load_messages s t st = load_messages (scoped_key s t) st"

definition scs_load_committed_messages :: "ScopeId \<Rightarrow> string \<Rightarrow> ('v, 'p, 's) InMemoryStore \<Rightarrow> 'v Message list option validated" where
  "scs_load_committed_messages s t st = load_committed_messages (scoped_key s t) st"

definition scs_load_message_records ::
  "ScopeId \<Rightarrow> (nat \<Rightarrow> string) \<Rightarrow> string \<Rightarrow> ('v, 'p, 's) InMemoryStore \<Rightarrow> 'v MessageRecord list option validated" where
  "scs_load_message_records s fresh t st =
     map_ok (map_option (List.map_filter (decode_message_record s))) (load_message_records fresh (scoped_key s t) st)"

definition scs_list_message_records ::
  "MessageCursorToken CursorCodec \<Rightarrow> ScopeId \<Rightarrow> (nat \<Rightarrow> string) \<Rightarrow> string \<Rightarrow> MessageQuery \<Rightarrow> ('v, 'p, 's) InMemoryStore \<Rightarrow>
   'v MessageRecord Page validated" where
  "scs_list_message_records cc s fresh t query st =
     map_ok (\<lambda>page. page\<lparr>pg_items := List.map_filter (decode_message_record s) (pg_items page)\<rparr>)
       (list_message_records cc fresh (scoped_key s t) (encode_message_query s query) st)"

definition scs_append_message_records ::
  "ScopeId \<Rightarrow> (nat \<Rightarrow> string) \<Rightarrow> string \<Rightarrow> 'v Message list \<Rightarrow> ('v, 'p, 's) InMemoryStore \<Rightarrow>
   ('v MessageRecord list, 'v, 'p, 's) store_method" where
  "scs_append_message_records s fresh t ms st =
     (case append_message_records fresh (scoped_key s t) ms st of
        (r, st') \<Rightarrow> (map_ok (List.map_filter (decode_message_record s)) r, st'))"

definition scs_save_messages :: "ScopeId \<Rightarrow> string \<Rightarrow> 'v Message list \<Rightarrow> ('v, 'p, 's) InMemoryStore \<Rightarrow> (unit, 'v, 'p, 's) store_method" where
  "scs_save_messages s t ms st = save_messages (scoped_key s t) ms st"

definition scs_delete_messages :: "ScopeId \<Rightarrow> string \<Rightarrow> ('v, 'p, 's) InMemoryStore \<Rightarrow> (unit, 'v, 'p, 's) store_method" where
  "scs_delete_messages s t st = delete_messages (scoped_key s t) st"

section \<open>Run methods\<close>

definition scs_create_run :: "ScopeId \<Rightarrow> 'v RunRecord \<Rightarrow> ('v, 'p, 's) InMemoryStore \<Rightarrow> (unit, 'v, 'p, 's) store_method" where
  "scs_create_run s run st = create_run (encode_run s run) st"

definition scs_load_run :: "ScopeId \<Rightarrow> string \<Rightarrow> ('v, 'p, 's) InMemoryStore \<Rightarrow> 'v RunRecord option" where
  "scs_load_run s r st = Option.bind (load_run (scoped_key s r) st) (decode_run s)"

definition scs_latest_run :: "ScopeId \<Rightarrow> string \<Rightarrow> ('v, 'p, 's) InMemoryStore \<Rightarrow> 'v RunRecord option" where
  "scs_latest_run s t st = Option.bind (latest_run (scoped_key s t) st) (decode_run s)"

definition scs_list_runs :: "ScopeId \<Rightarrow> RunQuery \<Rightarrow> ('v, 'p, 's) InMemoryStore \<Rightarrow> 'v RunPage" where
  "scs_list_runs s query st =
     (let page = list_runs (case rq_thread_id query of
          Some t \<Rightarrow> query\<lparr>rq_thread_id := Some (scoped_key s t), rq_id_prefix := None\<rparr>
        | None \<Rightarrow> query\<lparr>rq_id_prefix := Some (scoped_key s [])\<rparr>) st
      in page\<lparr>rp_items := List.map_filter (decode_run s) (rp_items page)\<rparr>)"

definition scs_checkpoint ::
  "ScopeId \<Rightarrow> u64 \<Rightarrow> string \<Rightarrow> 'v Message list \<Rightarrow> 'v RunRecord \<Rightarrow> ('v, 'p, 's) InMemoryStore \<Rightarrow> (unit, 'v, 'p, 's) store_method" where
  "scs_checkpoint s now t ms run st = checkpoint now (scoped_key s t) ms (encode_run s run) st"

definition scs_checkpoint_append ::
  "ScopeId \<Rightarrow> u64 \<Rightarrow> string \<Rightarrow> 'v Message list \<Rightarrow> u64 option \<Rightarrow> 'v RunRecord \<Rightarrow> ('v, 'p, 's) InMemoryStore \<Rightarrow>
   (u64, 'v, 'p, 's) store_method" where
  "scs_checkpoint_append s now t ms version run st =
     store_checkpoint_append now (scoped_key s t) ms version (encode_run s run) st"

end
