(* ===== verification/Scope_Laws.thy ===== *)
theory Scope_Laws
  imports Scoped_Store
begin

text \<open>Scopes of a thread and run store do not see or touch each other, and each lists exactly its own.\<close>

section \<open>Decoding inverts encoding\<close>

lemma unscope_option_scoped [simp]: "unscope_option s (map_option (scoped_key s) v) = Some v"
  by (cases v) (simp_all add: unscope_option_def)

lemma decode_encode_thread [simp]: "decode_thread s (encode_thread s t) = Some t"
  by (simp add: decode_thread_def encode_thread_def)

lemma decode_encode_run [simp]: "decode_run s (encode_run s r) = Some r"
proof -
  have "(case rr_input (encode_run s r) of None \<Rightarrow> Some None
      | Some i \<Rightarrow> map_option (\<lambda>t. Some (i\<lparr>ri_thread_id := t\<rparr>)) (unscoped_key s (ri_thread_id i))) = Some (rr_input r)"
    and "(case rr_output (encode_run s r) of None \<Rightarrow> Some None
      | Some i \<Rightarrow> map_option (\<lambda>t. Some (i\<lparr>ro_thread_id := t\<rparr>)) (unscoped_key s (ro_thread_id i))) = Some (rr_output r)"
    by (simp_all add: encode_run_def split: option.splits)
  then show ?thesis unfolding decode_run_def by (simp add: encode_run_def)
qed

lemma decode_other_scope_thread: "s1 \<noteq> s2 \<Longrightarrow> decode_thread s1 (encode_thread s2 t) = None"
  by (simp add: decode_thread_def encode_thread_def unscoped_other)

section \<open>Isolation\<close>

text \<open>What the store holds under keys outside a scope.\<close>

definition outside :: "ScopeId \<Rightarrow> ('v, 'p, 's) InMemoryStore \<Rightarrow>
    (string \<rightharpoonup> 'v Thread) \<times> (string \<rightharpoonup> 'v Message list) \<times> (string \<rightharpoonup> 'p list) \<times> (string \<rightharpoonup> 's) \<times> (string \<rightharpoonup> 'v RunRecord)" where
  "outside s st = (let K = - range (scoped_key s) in
     (map_of (im_threads st) |` K, map_of (im_messages st) |` K, map_of (im_pending_messages st) |` K,
      map_of (im_thread_states st) |` K, map_of (im_runs st) |` K))"

text \<open>A call that changes the store, through the wrapper of a scope.\<close>

inductive scoped_step :: "ScopeId \<Rightarrow> ('v, 'p, 's) InMemoryStore \<Rightarrow> ('v, 'p, 's) InMemoryStore \<Rightarrow> bool" for s where
  scoped_save_thread: "scoped_step s st (snd (scs_save_thread s thread st))"
| scoped_delete_thread: "scoped_step s st (snd (scs_delete_thread s t st))"
| scoped_save_state: "scoped_step s st (snd (scs_save_thread_state s t state st))"
| scoped_metadata: "scoped_step s st (snd (scs_update_thread_metadata s t md st))"
| scoped_append_messages: "scoped_step s st (snd (scs_append_message_records s fresh t ms st))"
| scoped_save_messages: "scoped_step s st (snd (scs_save_messages s t ms st))"
| scoped_delete_messages: "scoped_step s st (snd (scs_delete_messages s t st))"
| scoped_create_run: "scoped_step s st (snd (scs_create_run s run st))"
| scoped_checkpoint: "scoped_step s st (snd (scs_checkpoint s now t ms run st))"
| scoped_checkpoint_append: "scoped_step s st (snd (scs_checkpoint_append s now t ms version run st))"

lemma restrict_update [simp]: "k \<notin> K \<Longrightarrow> map_of (AList.update k v m) |` K = map_of m |` K"
  by (auto simp: restrict_map_def fun_eq_iff)

lemma restrict_delete [simp]: "k \<notin> K \<Longrightarrow> map_of (AList.delete k m) |` K = map_of m |` K"
  by (auto simp: restrict_map_def fun_eq_iff map_of_delete_if)

lemma restrict_default [simp]: "k \<notin> K \<Longrightarrow> map_of (or_default k m) |` K = map_of m |` K"
  by (simp add: or_default_def split: option.split)

lemma encoded_ids [simp]:
  "th_id (normalize_lineage (encode_thread s t)) = scoped_key s (th_id t)"
  "rr_run_id (encode_run s r) = scoped_key s (rr_run_id r)"
  by (simp_all add: normalize_lineage_def encode_thread_def encode_run_def)

lemma outside_insert_run [simp]: "outside s (insert_run (encode_run s run) st) = outside s st"
  by (simp add: outside_def insert_run_def Let_def)

lemma outside_project_run [simp]: "outside s (project_run now (scoped_key s t) (encode_run s run) st) = outside s st"
  by (simp add: project_run_def Let_def) (simp add: outside_def Let_def)

lemma outside_messages [simp]:
  "outside s (st\<lparr>im_messages := AList.update (scoped_key s t) ms (im_messages st)\<rparr>) = outside s st"
  "outside s (st\<lparr>im_messages := AList.update (scoped_key s t) ms (or_default (scoped_key s t) (im_messages st))\<rparr>) = outside s st"
  "outside s (st\<lparr>im_messages := or_default (scoped_key s t) (im_messages st)\<rparr>) = outside s st"
  by (simp_all add: outside_def Let_def)

lemma scoped_step_outside: "scoped_step s st st' \<Longrightarrow> outside s st' = outside s st"
proof (induction rule: scoped_step.induct)
  case (scoped_save_thread st thread)
  show ?case by (auto simp: scs_save_thread_def save_thread_def Let_def outside_def split: outcome.split)
next
  case (scoped_append_messages st fresh t ms)
  show ?case by (auto simp: scs_append_message_records_def append_message_records_def Let_def outside_def split: outcome.split)
next
  case (scoped_create_run st run)
  show ?case by (auto simp: scs_create_run_def create_run_def split: outcome.split)
next
  case (scoped_checkpoint st now t ms run)
  show ?case by (auto simp: scs_checkpoint_def checkpoint_def split: outcome.split)
next
  case (scoped_checkpoint_append st now t ms version run)
  show ?case
    by (auto simp: scs_checkpoint_append_def store_checkpoint_append_def merge_and_project_def Let_def
        split: outcome.split option.split prod.split)
qed (auto simp: scs_delete_thread_def delete_thread_def remove_thread_def scs_save_thread_state_def save_thread_state_def
    scs_update_thread_metadata_def update_thread_metadata_def scs_save_messages_def save_messages_def
    scs_delete_messages_def delete_messages_def outside_def Let_def split: outcome.split option.split)

text \<open>
  C18: Scopes are isolated: whatever is called through the wrapper of one scope, with whatever ids,
  queries and records, every thread, log, thread state and run that the wrapper of another scope can load
  is what it was.
\<close>

theorem scoped_stores_isolated:
  assumes "(scoped_step s)\<^sup>*\<^sup>* st st'" and "s \<noteq> s'"
  shows "scs_load_thread s' t st' = scs_load_thread s' t st \<and>
    scs_load_committed_messages s' t st' = scs_load_committed_messages s' t st \<and>
    scs_load_messages s' t st' = scs_load_messages s' t st \<and>
    scs_load_thread_state s' t st' = scs_load_thread_state s' t st \<and> scs_load_run s' r st' = scs_load_run s' r st"
proof -
  have "outside s st' = outside s st"
    using assms(1) by (induction rule: rtranclp_induct) (auto dest: scoped_step_outside)
  moreover have "scoped_key s' k \<in> - range (scoped_key s)" for k using assms(2) by auto
  ultimately have same: "map_of (im_threads st') (scoped_key s' k) = map_of (im_threads st) (scoped_key s' k)"
    "map_of (im_messages st') (scoped_key s' k) = map_of (im_messages st) (scoped_key s' k)"
    "map_of (im_thread_states st') (scoped_key s' k) = map_of (im_thread_states st) (scoped_key s' k)"
    "map_of (im_runs st') (scoped_key s' k) = map_of (im_runs st) (scoped_key s' k)" for k
    unfolding outside_def Let_def by (metis (no_types, lifting) prod.inject restrict_in)+
  then show ?thesis
    by (simp add: scs_load_thread_def load_thread_def scs_load_committed_messages_def load_committed_messages_def
        scs_load_messages_def load_messages_def scs_load_thread_state_def load_thread_state_def scs_load_run_def load_run_def)
qed

lemma scoped_stores_isolated_witness:
  "scs_load_committed_messages (ScopeId ''b'') ''t'' (snd (scs_save_messages (ScopeId ''a'') ''t'' [user_message ''q'' ''now'']
     (snd (scs_save_messages (ScopeId ''b'') ''t'' [user_message ''p'' ''mine''] (InMemoryStore_new :: (unit, unit) pending_store))))) =
   Ok (Some [user_message ''p'' ''mine''])"
proof -
  let ?st = "snd (scs_save_messages (ScopeId ''b'') ''t'' [user_message ''p'' ''mine''] (InMemoryStore_new :: (unit, unit) pending_store))"
  have "scs_load_committed_messages (ScopeId ''b'') ''t'' ?st = Ok (Some [user_message ''p'' ''mine''])" by code_simp
  moreover have step: "(scoped_step (ScopeId ''a''))\<^sup>*\<^sup>* ?st (snd (scs_save_messages (ScopeId ''a'') ''t'' [user_message ''q'' ''now''] ?st))"
    by (rule r_into_rtranclp) (rule scoped_save_messages)
  moreover have "ScopeId ''a'' \<noteq> ScopeId ''b''" by simp
  note iso = scoped_stores_isolated [OF step this, of "''t''" "''r''", THEN conjunct2, THEN conjunct1]
  ultimately show ?thesis unfolding iso by blast
qed

section \<open>Listing a scope\<close>

lemma map_filter_scoped: "list_all (\<lambda>i. prefix (scoped_key s []) i) is \<Longrightarrow> map (scoped_key s) (List.map_filter (unscoped_key s) is) = is"
  by (induction "is") (auto simp: List.map_filter_simps unscoped_key_def scoped_key_def strip_prefix_def prefix_def)

definition scope_ids :: "ScopeId \<Rightarrow> ('v, 'p, 's) InMemoryStore \<Rightarrow> string list" where
  "scope_ids s st = filter (prefix (scoped_key s [])) (map th_id (sort_threads_by_recent_activity (hm_values (im_threads st))))"

lemma scope_page:
  "list_threads_query cc (scope_query s offset n) st =
   page_of (encode_thread_cursor cc (ThreadQuery_normalized (scope_query s offset n))) offset (min n 200) (scope_ids s st)"
proof -
  let ?q = "ThreadQuery_normalized (scope_query s offset n)"
  have q: "tq_offset ?q = offset" "tq_limit ?q = min n 200" "tq_id_prefix ?q = Some (scoped_key s [])"
    "tq_resource_id ?q = None" "tq_parent_filter ?q = AnyParent"
    by (simp_all add: ThreadQuery_normalized_def scope_query_def ThreadParentFilter_normalized_def)
  have "matches_thread ?q th \<longleftrightarrow> prefix (scoped_key s []) (th_id th)" for th :: "'a Thread"
    unfolding matches_thread_def Let_def normalized_idem q by simp
  then have "map th_id (filter (matches_thread ?q) ths) = filter (prefix (scoped_key s [])) (map th_id ths)" for ths :: "'a Thread list"
    by (induction ths) auto
  then show ?thesis
    by (simp add: list_threads_query_def paginate_threads_def Let_def scope_ids_def q)
qed

lemma take_split: "m \<le> k \<Longrightarrow> take m xs @ take (k - m) (drop m xs) = take k xs"
  using take_add [of m "k - m" xs] by simp

lemma scs_list_pages_step:
  "\<not> limit \<le> length items \<Longrightarrow> page = list_threads_query cc (scope_query s offset (min (limit - length items) 200)) st \<Longrightarrow>
   pg_has_more page \<Longrightarrow> pg_items page \<noteq> [] \<Longrightarrow>
   scs_list_pages cc s st limit offset items =
   scs_list_pages cc s st limit (offset + length (pg_items page)) (items @ List.map_filter (unscoped_key s) (pg_items page))"
  by (subst scs_list_pages.simps) (simp add: Let_def)

lemma scs_list_pages_eq:
  "scs_list_pages cc s st limit offset items =
   items @ List.map_filter (unscoped_key s) (take (limit - length items) (drop offset (scope_ids s st)))"
proof (induction cc s st limit offset items rule: scs_list_pages.induct)
  case (1 cc s st limit offset items)
  let ?ids = "scope_ids s st"
  let ?n = "min (limit - length items) 200"
  let ?page = "list_threads_query cc (scope_query s offset ?n) st"
  have pg: "pg_items ?page = take ?n (drop offset ?ids)" "pg_has_more ?page \<longleftrightarrow> 0 < ?n \<and> offset + ?n < length ?ids"
    by (simp_all add: scope_page min.assoc)
  have len: "length (List.map_filter (unscoped_key s) is) = length is" if "set is \<subseteq> set ?ids" for "is"
  proof -
    have "list_all (prefix (scoped_key s [])) is" using that by (auto simp: scope_ids_def list_all_iff)
    from arg_cong [OF map_filter_scoped [OF this], of length] show ?thesis by simp
  qed
  have sub: "set (take k (drop offset ?ids)) \<subseteq> set ?ids" for k by (auto dest!: in_set_takeD in_set_dropD)
  show ?case
  proof (cases "limit \<le> length items \<or> \<not> pg_has_more ?page \<or> pg_items ?page = []")
    case True
    then show ?thesis
    proof (cases "limit \<le> length items")
      case False
      then have "take ?n (drop offset ?ids) = take (limit - length items) (drop offset ?ids)"
        using True pg by auto
      then show ?thesis using True False pg by (subst scs_list_pages.simps) (simp add: Let_def)
    qed (subst scs_list_pages.simps, simp)
  next
    case False
    let ?items = "items @ List.map_filter (unscoped_key s) (take ?n (drop offset ?ids))"
    have n: "length (take ?n (drop offset ?ids)) = ?n"
  proof -
    have "offset + ?n < length ?ids" using False pg(2) by simp
    then have "?n \<le> length (drop offset ?ids)" by simp
    then show ?thesis by (simp only: length_take min_absorb2)
  qed
    have "scs_list_pages cc s st limit offset items = scs_list_pages cc s st limit (offset + ?n) ?items"
      using scs_list_pages_step [of limit items ?page cc s offset st] False by (simp only: pg(1) n simp_thms de_Morgan_disj)
    also have "\<dots> = ?items @ List.map_filter (unscoped_key s) (take (limit - length ?items) (drop (offset + ?n) ?ids))"
      using "1.IH" [OF _ refl refl] False pg n by simp
    also have "limit - length ?items = limit - length items - ?n" using len [OF sub] n by simp
    also have "?items @ List.map_filter (unscoped_key s) (take (limit - length items - ?n) (drop (offset + ?n) ?ids)) =
        items @ List.map_filter (unscoped_key s) (take ?n (drop offset ?ids) @ take (limit - length items - ?n) (drop (offset + ?n) ?ids))"
      by (simp add: List.map_filter_def)
    also have "take ?n (drop offset ?ids) @ take (limit - length items - ?n) (drop (offset + ?n) ?ids) =
        take (limit - length items) (drop offset ?ids)"
      using take_split [of ?n "limit - length items" "drop offset ?ids"] by (simp add: add.commute)
    finally show ?thesis .
  qed
qed

text \<open>
  C21: The listing of a scope, which the wrapper collects from pages of the shared store, is exactly the
  requested window of the threads of that scope in order of activity, whatever other scopes hold and
  however many pages it takes.
\<close>

theorem scope_listing_exact:
  "map (scoped_key s) (scs_list_threads cc s offset limit st) = take limit (drop offset (scope_ids s st))"
proof -
  have "list_all (prefix (scoped_key s [])) (take limit (drop offset (scope_ids s st)))"
    by (auto simp: scope_ids_def list_all_iff dest!: in_set_takeD in_set_dropD)
  then show ?thesis by (simp add: scs_list_threads_def scs_list_pages_eq map_filter_scoped)
qed

section \<open>Records of a scope\<close>

text \<open>A stored run is read back through its scope as it was.\<close>

lemma scoped_run_roundtrip:
  assumes "scs_create_run s run st = (Ok (), st')"
  shows "scs_load_run s (rr_run_id run) st' = Some run"
  using assms by (auto simp: scs_create_run_def create_run_def insert_run_def scs_load_run_def load_run_def
      split: outcome.splits if_splits)

text \<open>
  But a run that carries its activation is never stored: the encoding leaves the thread id of the
  activation as it is, and the inner store compares it with the encoded thread id.
\<close>

lemma scoped_activation_rejected:
  assumes "rr_activation run = Some a" and "RunRecord_validate_for_persist run = Ok ()"
  shows "\<not> is_ok (fst (scs_create_run s run st)) \<and> \<not> is_ok (fst (scs_checkpoint_append s now t ms version run st))"
proof -
  have "in_thread_id (ac_intent a) = rr_thread_id run"
    using assms by (auto simp: RunRecord_validate_for_persist_def first_error_Ok and_then_eq_Ok_iff)
  moreover have "rr_thread_id run \<noteq> scoped_key s (rr_thread_id run)"
    by (simp add: scoped_key_def scope_prefix_def)
  ultimately have "RunRecord_validate_for_persist (encode_run s run) \<noteq> Ok ()"
    using assms(1) by (auto simp: RunRecord_validate_for_persist_def first_error_Ok and_then_eq_Ok_iff encode_run_def)
  then show ?thesis
    by (auto simp: scs_create_run_def create_run_def scs_checkpoint_append_def store_checkpoint_append_def first_error_Ok
        split: outcome.split)
qed

text \<open>
  The filter of a message listing by run is encoded, the run ids in the messages are not: it finds nothing.
\<close>

definition produced_message :: "unit Message" where
  "produced_message = mark_produced_by ''r'' None (assistant_message ''m'' ''done'')"

definition run_messages :: "MessageQuery" where
  "run_messages = default_message_query\<lparr>mq_run_id := Some ''r''\<rparr>"

definition one_produced :: "ScopeId \<Rightarrow> (unit, unit) pending_store" where
  "one_produced s = snd (scs_append_message_records s (\<lambda>_. ''fresh'') ''t'' [produced_message] InMemoryStore_new)"

lemma scoped_run_filter_finds_nothing:
  "map_ok pg_total (scs_list_message_records no_codec (ScopeId ''a'') (\<lambda>_. ''fresh'') ''t'' run_messages (one_produced (ScopeId ''a''))) = Ok 0 \<and>
   map_ok (\<lambda>p. map mr_produced_by_run_id (pg_items p))
     (scs_list_message_records no_codec (ScopeId ''a'') (\<lambda>_. ''fresh'') ''t'' default_message_query (one_produced (ScopeId ''a''))) =
   Ok [Some ''r'']"
  by code_simp

end
