(* ===== verification/Spec2Isabelle.thy ===== *)
theory Spec2Isabelle
  imports Tool_Call Mailbox_Behaviour Live_Channel Retrying_Pool Pattern_Roundtrip Permission_Preview State_Persistence Hook_Conflicts
    Context_Laws Checkpoint_Laws Scope_Laws
begin

text \<open>
  Verification of the core of \<^emph>\<open>awaken\<close>, an agent runtime in Rust. Paths are relative to
  \<^verbatim>\<open>src/crates/\<close>.

  \<^bold>\<open>The program.\<close> A server puts runs of agents into a mailbox (\<^verbatim>\<open>awaken-server-contract\<close>,
  \<^verbatim>\<open>awaken-stores\<close>); workers claim them under a lease, run them, and settle them. A run is a loop
  (\<^verbatim>\<open>awaken-runtime\<close>): inference through an executor that may be a pool of retrying members behind a
  circuit breaker, then the tool calls the model asks for, each of which passes a gate where plugins
  such as the permission extension (\<^verbatim>\<open>awaken-ext-permission\<close>) block, suspend or answer it. What
  plugins and tools change is a batch of updates to the typed state store, committed against a
  revision, and persisted between the runs of a thread. The messages of a thread are an append-only log;
  a run reads a view of it, sends what fits the context window to the model, and appends what it
  produced at checkpoints, while a background task summarises the older part.

  \<^bold>\<open>Theories and the code they model.\<close>
  \<^item> \<open>Awaken_Prelude\<close>: machine integers, results (\<open>Ok\<close>, \<open>Err\<close>, \<open>Panic\<close>), strings and hash maps, with the
    generic lemmas. A hash map is an association list with distinct keys in an order left open.
  \<^item> \<open>Lifecycle\<close> (\<^verbatim>\<open>contract/lifecycle.rs\<close>, \<^verbatim>\<open>run_lifecycle.rs\<close>) and \<open>Tool_Call\<close>
    (\<^verbatim>\<open>contract/suspension.rs\<close>, \<^verbatim>\<open>tool_call_lifecycle.rs\<close>): the status machines of runs and tool calls.
    Both interpret the locale \<open>guarded_lifecycle\<close>.
  \<^item> \<open>Run_Dispatch\<close> (\<^verbatim>\<open>contract/mailbox.rs\<close>): the dispatch record, its validation and transitions; the
    locale \<open>dispatch_step\<close> is what every transition promises.
  \<^item> \<open>Memory_Mailbox\<close> (\<^verbatim>\<open>memory_mailbox.rs\<close>, \<^verbatim>\<open>mailbox_state.rs\<close>): every method of the store.
    \<open>Mailbox_Invariant\<close> proves the contract \<open>store_method\<close> of each; \<open>Mailbox_Protocol\<close> takes all
    interleavings of calls together (reachable states, refinement of the delivery state machine);
    \<open>Mailbox_Behaviour\<close> says what each method does on each branch. \<open>Scoped_Mailbox\<close> (\<^verbatim>\<open>scope.rs\<close>,
    \<open>ScopedMailboxStore\<close>) and \<open>Live_Channel\<close> add scopes and live commands.
  \<^item> \<open>Inference_Error\<close> (\<^verbatim>\<open>contract/executor.rs\<close>): error classes, recovery of interrupted streams.
    \<open>Circuit_Breaker\<close>, \<open>Retry\<close>, \<open>Pool_Router\<close>, \<open>Pool_Executor\<close> (\<^verbatim>\<open>awaken-runtime/src/engine/\<close>): the
    layers of an inference call. \<open>Pool_Safety\<close> and \<open>Pool_Protocol\<close> hold the pool's invariant and
    theorems, with the locales \<open>member_calls\<close> and \<open>stream_calls\<close> for what a member must promise;
    \<open>Retrying_Pool\<close> interprets them on pools of retrying members.
  \<^item> \<open>Tool_Id\<close>, \<open>Tool_Pattern\<close>, \<open>Pattern_Parser\<close>, \<open>Pattern_Roundtrip\<close> (\<^verbatim>\<open>awaken-tool-pattern\<close>): the two
    pattern languages for tools, their matchers, printer and parser.
  \<^item> \<open>Tool_Gate\<close> (\<^verbatim>\<open>contract/tool.rs\<close>, \<^verbatim>\<open>contract/tool_intercept.rs\<close>, \<^verbatim>\<open>loop_runner/actions.rs\<close>,
    \<^verbatim>\<open>loop_actions.rs\<close>): tool results, interception and its resolution, the tool filter of a step.
  \<^item> \<open>Permission_Rules\<close> (\<^verbatim>\<open>awaken-ext-permission\<close>): rules, policy state, configuration, the gate and
    filter hooks; \<open>Permission_Safety\<close> its theorems. \<open>Tool_Catalog\<close> (\<^verbatim>\<open>catalog_match.rs\<close>,
    \<^verbatim>\<open>catalog_validation.rs\<close>, \<^verbatim>\<open>pipeline/catalog.rs\<close>) the allow and exclude fields of an agent.
    \<open>Permission_Preview\<close> (\<^verbatim>\<open>services/permission_preview.rs\<close>) compares the server's preview with the
    composition of catalog, filter hook and tool filter.
  \<^item> \<open>State_Store\<close> (\<^verbatim>\<open>awaken-runtime-contract/src/state/\<close>, \<^verbatim>\<open>plugins/registry.rs\<close>, \<^verbatim>\<open>state/store.rs\<close>,
    \<^verbatim>\<open>state/persistence.rs\<close>, \<^verbatim>\<open>parallel_merge.rs\<close>): keys, batches, commits, plugins, persistence.
    \<open>State_Laws\<close> (with the locale \<open>commuting_steps\<close>) and \<open>State_Persistence\<close> hold its theorems.
  \<^item> \<open>Phase_Engine\<close> (\<^verbatim>\<open>model/action.rs\<close>, \<^verbatim>\<open>model/effect.rs\<close>, \<^verbatim>\<open>awaken-runtime/src/phase/\<close>): the
    execution environment of hooks, handlers and merge strategies, and the phases that gather hooks and
    execute scheduled actions and effects. \<open>Phase_Laws\<close> says what a phase commits, \<open>Phase_Theorems\<close> that
    its loop implements the abstract queue \<open>queue_run\<close> and converges, \<open>Hook_Conflicts\<close> that
    conflicting hooks are deferred and rerun until every one has committed.
  \<^item> \<open>Messages\<close> (\<^verbatim>\<open>contract/content.rs\<close>, \<^verbatim>\<open>contract/message.rs\<close>,
    \<^verbatim>\<open>contract/storage/message_append.rs\<close>): messages, and the shape an appended message must have.
    \<open>Message_View\<close> (\<^verbatim>\<open>contract/message.rs\<close>, \<^verbatim>\<open>agent_runtime/runner.rs\<close>): the read views of a log and
    the history a run starts from. \<open>Context_Window\<close> (\<^verbatim>\<open>contract/transform.rs\<close>,
    \<^verbatim>\<open>awaken-runtime/src/context/\<close>): what of a conversation goes into a request; \<open>Context_Laws\<close> its
    theorems. \<open>Compaction\<close> (\<^verbatim>\<open>context/compaction.rs\<close>, \<^verbatim>\<open>context/plugin/compaction.rs\<close>,
    \<^verbatim>\<open>context/summarizer.rs\<close>): planning and swapping a summary. \<open>Checkpoint_Log\<close>
    (\<^verbatim>\<open>loop_runner/checkpoint.rs\<close>, \<^verbatim>\<open>loop_runner/compaction.rs\<close>, \<^verbatim>\<open>awaken-stores/src/memory/mod.rs\<close>): what a
    checkpoint appends, and how. \<open>Compaction_Log\<close> relates the conversation in memory to the view of
    the committed log (\<open>live_matches\<close>); \<open>Checkpoint_Laws\<close> is about concurrent writers.

  \<^item> \<open>Run_Record\<close> (\<^verbatim>\<open>contract/run.rs\<close>, \<^verbatim>\<open>contract/storage.rs\<close>): run records and what makes one fit to
    persist. \<open>Thread_Store\<close> (\<^verbatim>\<open>awaken-runtime-contract/src/thread.rs\<close>,
    \<^verbatim>\<open>awaken-stores/src/memory/mod.rs\<close>): threads and their lineage, the methods of the in-memory store on
    threads, logs and runs. \<open>Pending_Queue\<close> (\<^verbatim>\<open>contract/message/delivery.rs\<close>,
    \<^verbatim>\<open>awaken-stores/src/memory/pending.rs\<close>): messages delivered to a thread and what a freeze consumes.
    \<open>Thread_Laws\<close> keeps the hierarchy a forest and has cascading deletion, \<open>Pending_Laws\<close> the selection
    and atomicity of a freeze, \<open>Store_Invariant\<close> what every sequence of methods keeps
    (\<open>store_call\<close>, with \<open>records_ok\<close> for all of them and a forest of threads where the unchecked
    \<open>save_thread\<close> changes no parent), that overlapping checkpoints exclude one another, and that the append
    of \<open>Checkpoint_Log\<close> is what a checkpoint of the store does to the log. \<open>Store_Queries\<close>
    (\<^verbatim>\<open>awaken-server-contract/src/contract/storage.rs\<close>, \<^verbatim>\<open>store_traits.rs\<close>) has the filters, pages and
    cursors of the listings and what a resumed run loads, \<open>Query_Laws\<close> its theorems; \<open>Scoped_Store\<close>
    (\<open>ScopedThreadRunStore\<close> there) the wrapper of a scope, \<open>Scope_Laws\<close> its isolation and listing.

  \<^bold>\<open>What the theorems show.\<close> Safety under interleaving: at most one claimed dispatch per thread, fencing
  by token and epoch, the refinement of the delivery state machine, no panic as long as callers keep the
  promises of \<open>admissible\<close>, isolation of scopes,
  bounded pool tables, each member called at most once per request, stream failures counted once.
  Exact behaviour: retry budgets, claim order, breaker thresholds, tiers of permission rules, catalog
  diagnostics. Equivalences: the index loop of the tool id matcher and the language of
  the pattern, the preview and the runtime, configuration and activation, the orders of a parallel
  merge. Phases: a scheduled action of a phase is handled exactly once, a phase with ranked handlers
  converges within its round limit (both for handlers that neither panic nor touch the queue keys,
  \<open>well_behaved\<close>), and conflicting hooks commit where nothing else commits meanwhile. Conversations: the folded view
  of a log is its declarative reading, the history of a run and a request to the model have every tool
  call paired, superseded calls show in no later view of the log, truncation cuts exactly where the budget says, a compaction loses nothing across swap,
  checkpoint and restart, and concurrent checkpoints lose no update. The in-memory
  store keeps well-formed logs, numbered queues and valid runs under any calls, and a forest of threads
  under all but unchecked changes of a parent; a freeze is all or nothing and selects exactly what the delivery
  modes say; a resumed run reads what was
  checkpointed; pages cover a listing exactly, and scopes are isolated. Round trips: patterns,
  persisted dispatches, persisted state. The theorems that end in inputs the code mishandles are kept
  beside the properties of the same theory.

  \<^bold>\<open>Parameters.\<close> Code outside the repository is an argument of the definitions that use it: the glob and
  regex engines and the JSON printer (record \<open>Engines\<close>), the member executors and providers, the shape
  of a rendezvous score, the key codecs of the state store (what \<open>StateKey\<close> gives for a type), the hooks
  and handlers of plugins (functions of the snapshot they are given), the length of a serialised tool
  schema, what \<open>serde_json\<close> reads as numbers (record \<open>Numbers\<close>), the
  serialisation of cursor tokens (record \<open>CursorCodec\<close>). Time, generated message ids, fresh tokens and
  what other tasks do during an await are arguments too. Where a property assumes something of a
  parameter, a witness gives an instance.

  \<^bold>\<open>Bounds and termination.\<close> No definition uses fuel: the loops of the code are structural recursion or
  functions with a proved measure, so each returns on every input (only paging by cursors, which ends
  because cursors are read back, is an option and proved to give a result); the parser's are on the rest of the
  input, the tool id matcher's on the saved star and the two indices. Integers have the width of the
  source; wrap-around is excluded only where a property names the bound.

  \<^bold>\<open>Not modelled.\<close> Network, process and database I/O: the HTTP server and its protocol encoders, the MCP
  client and transport, A2A, the file, SQLite, Postgres and NATS stores; the call of the summarizing
  model; the profiles and configurations of the in-memory store. The asynchronous orchestration of the agent loop is modelled piece by piece, not as one program.
\<close>

end
